(* ===== verification/Prelude.thy ===== *)
theory Prelude
  imports Main "HOL-Library.Monad_Syntax" "HOL-Library.Word"
begin

unbundle bit_operations_syntax

text \<open>
  Shared conventions of the development.

  A kernel function that may fail an \<^verbatim>\<open>assert\<close>, call \<^verbatim>\<open>panic\<close>, or loop for ever has a result
  of type \<open>'a option\<close>: \<open>None\<close> says that control never comes back to the caller, \<open>Some r\<close> that the
  function returns \<open>r\<close>.  Error returns of the code (\<^verbatim>\<open>-E_NO_MEM\<close> and so on) are ordinary values
  inside \<open>Some\<close>.  Loops over pointer structures are \<open>partial_function (option)\<close>, so a walk that
  never reaches its end is \<open>None\<close> as well, and a theorem \<open>f s = Some r\<close> includes termination.
\<close>

section \<open>Automation collections\<close>

named_theorems frame_simps \<open>what an operation leaves unchanged\<close>
named_theorems wf_intros \<open>preservation of the component invariants\<close>

section \<open>Assertions and panics\<close>

text \<open>\<^verbatim>\<open>assert(x)\<close> of \<^verbatim>\<open>kern/debug/assert.h\<close>: panics when \<open>x\<close> is false.\<close>

definition assertc :: "bool \<Rightarrow> unit option" where
  "assertc b = (if b then Some () else None)"

lemma assertc_Some [simp]: "assertc b = Some u \<longleftrightarrow> b"
  by (simp add: assertc_def)

lemma assertc_True [simp]: "assertc True = Some ()"
  by (simp add: assertc_def)

lemma assertc_False [simp]: "assertc False = None"
  by (simp add: assertc_def)

lemma bind_assertc [simp]: "(assertc b \<bind> f) = (if b then f () else None)"
  by (simp add: assertc_def)

lemma bind_Some_iff:
  "(m \<bind> f) = Some r \<longleftrightarrow> (\<exists>x. m = Some x \<and> f x = Some r)"
  by (cases m) auto

section \<open>Error codes\<close>

text \<open>The codes of \<^verbatim>\<open>libs/error.h\<close> that the modelled functions return (negated).\<close>

definition E_BAD_PROC :: int where "E_BAD_PROC = 2"
definition E_INVAL :: int where "E_INVAL = 3"
definition E_NO_MEM :: int where "E_NO_MEM = 4"
definition E_NO_FREE_PROC :: int where "E_NO_FREE_PROC = 5"
definition E_KILLED :: int where "E_KILLED = 9"
definition E_NOENT :: int where "E_NOENT = 16"
definition E_ISDIR :: int where "E_ISDIR = 17"
definition E_NOTDIR :: int where "E_NOTDIR = 18"
definition E_BUSY :: int where "E_BUSY = 15"
definition E_MAX_OPEN :: int where "E_MAX_OPEN = 22"
definition E_INVAL_ELF :: int where "E_INVAL_ELF = 8"
definition E_TOO_BIG :: int where "E_TOO_BIG = 12"
definition E_NO_DEV :: int where "E_NO_DEV = 13"
definition E_NA_DEV :: int where "E_NA_DEV = 14"
definition E_UNIMP :: int where "E_UNIMP = 20"
definition E_EXISTS :: int where "E_EXISTS = 23"

lemmas error_codes =
  E_BAD_PROC_def E_INVAL_def E_NO_MEM_def E_NO_FREE_PROC_def E_KILLED_def E_NOENT_def
  E_ISDIR_def E_NOTDIR_def E_BUSY_def E_MAX_OPEN_def
  E_INVAL_ELF_def E_TOO_BIG_def E_NO_DEV_def E_NA_DEV_def E_UNIMP_def E_EXISTS_def

lemma ex3I: "P a b c \<Longrightarrow> \<exists>x y z. P x y z"
  by blast

section \<open>Machine integers written out\<close>

text \<open>
  \<open>unsigned int\<close> values kept as \<open>nat\<close> are reduced modulo \<open>2 ^ 32\<close> at every assignment.
\<close>

definition u32 :: "nat \<Rightarrow> nat" where
  "u32 x = x mod 2 ^ 32"

definition sub32 :: "nat \<Rightarrow> nat \<Rightarrow> nat" where
  "sub32 a b = (a + (2 ^ 32 - b mod 2 ^ 32)) mod 2 ^ 32"

lemma u32_small [simp]: "x < 2 ^ 32 \<Longrightarrow> u32 x = x"
  by (simp add: u32_def)

lemma u32_less [simp]: "u32 x < 4294967296"
  by (simp add: u32_def)

lemma sub32_le: "b \<le> a \<Longrightarrow> a < 2 ^ 32 \<Longrightarrow> sub32 a b = a - b"
proof -
  assume h: "b \<le> a" "a < 2 ^ 32"
  then have "a + (2 ^ 32 - b mod 2 ^ 32) = (a - b) + 2 ^ 32" by simp
  then show ?thesis using h unfolding sub32_def by (simp only: mod_add_self2) simp
qed

section \<open>Lists\<close>

lemma takeWhile_dropWhile_split:
  "\<exists>x\<in>set xs. \<not> P x \<Longrightarrow>
   \<exists>y ys. dropWhile P xs = y # ys \<and> \<not> P y \<and> xs = takeWhile P xs @ y # ys"
  by (metis dropWhile_eq_Nil_conv hd_dropWhile list.collapse takeWhile_dropWhile_id)

lemma distinct_mid_inject:
  assumes "distinct (xs @ x # ys)" and "xs @ x # ys = us @ x # vs"
  shows "us = xs \<and> vs = ys"
  using assms by (metis append_eq_append_conv_if append_Cons_eq_iff append_eq_Cons_conv
      distinct.simps(2) distinct_append not_distinct_conv_prefix)

end
