(* ===== verification/KList.thy ===== *)
theory KList
  imports Prelude
begin

text \<open>
  The circular doubly linked list of \<^verbatim>\<open>libs/list.h\<close> at the level of its pointers.  A heap of
  \<^verbatim>\<open>struct list_entry\<close> objects is a pair of maps from the address of an entry to the addresses in
  its \<^verbatim>\<open>prev\<close> and \<^verbatim>\<open>next\<close> fields; the operations are the assignments of the C code in their order,
  so they are defined on broken lists too (an entry inserted after itself, a stale entry deleted
  twice).  \<open>dlist h l xs\<close> relates a heap to the sequence it represents, and each operation is
  proved to refine the corresponding list operation.
\<close>

section \<open>Heap of list entries and the operations of list.h\<close>

record 'a links =
  prv :: "'a \<Rightarrow> 'a"
  nxt :: "'a \<Rightarrow> 'a"

definition list_init :: "'a \<Rightarrow> 'a links \<Rightarrow> 'a links" where
  "list_init elm h = h\<lparr>nxt := (nxt h)(elm := elm), prv := (prv h)(elm := elm)\<rparr>"

text \<open>
  \<^verbatim>\<open>__list_add\<close>: \<^verbatim>\<open>prev->next = next->prev = elm; elm->next = next; elm->prev = prev;\<close>
\<close>

definition list_add_raw :: "'a \<Rightarrow> 'a \<Rightarrow> 'a \<Rightarrow> 'a links \<Rightarrow> 'a links" where
  "list_add_raw elm prev next h =
     (let h1 = h\<lparr>prv := (prv h)(next := elm)\<rparr>;
          h2 = h1\<lparr>nxt := (nxt h1)(prev := elm)\<rparr>;
          h3 = h2\<lparr>nxt := (nxt h2)(elm := next)\<rparr>
      in h3\<lparr>prv := (prv h3)(elm := prev)\<rparr>)"

text \<open>\<^verbatim>\<open>__list_del\<close>: \<^verbatim>\<open>prev->next = next; next->prev = prev;\<close>\<close>

definition list_del_raw :: "'a \<Rightarrow> 'a \<Rightarrow> 'a links \<Rightarrow> 'a links" where
  "list_del_raw prev next h =
     (let h1 = h\<lparr>nxt := (nxt h)(prev := next)\<rparr>
      in h1\<lparr>prv := (prv h1)(next := prev)\<rparr>)"

definition list_add_before :: "'a \<Rightarrow> 'a \<Rightarrow> 'a links \<Rightarrow> 'a links" where
  "list_add_before listelm elm h = list_add_raw elm (prv h listelm) listelm h"

definition list_add_after :: "'a \<Rightarrow> 'a \<Rightarrow> 'a links \<Rightarrow> 'a links" where
  "list_add_after listelm elm h = list_add_raw elm listelm (nxt h listelm) h"

definition list_add :: "'a \<Rightarrow> 'a \<Rightarrow> 'a links \<Rightarrow> 'a links" where
  "list_add listelm elm h = list_add_after listelm elm h"

definition list_del :: "'a \<Rightarrow> 'a links \<Rightarrow> 'a links" where
  "list_del listelm h = list_del_raw (prv h listelm) (nxt h listelm) h"

definition list_del_init :: "'a \<Rightarrow> 'a links \<Rightarrow> 'a links" where
  "list_del_init listelm h = list_init listelm (list_del listelm h)"

definition list_empty :: "'a \<Rightarrow> 'a links \<Rightarrow> bool" where
  "list_empty l h \<longleftrightarrow> nxt h l = l"

definition list_next :: "'a \<Rightarrow> 'a links \<Rightarrow> 'a" where
  "list_next listelm h = nxt h listelm"

definition list_prev :: "'a \<Rightarrow> 'a links \<Rightarrow> 'a" where
  "list_prev listelm h = prv h listelm"

lemmas list_walk_defs [simp] = list_next_def list_prev_def

lemmas list_op_defs =
  list_init_def list_add_raw_def list_del_raw_def list_add_before_def list_add_after_def
  list_add_def list_del_def list_del_init_def list_empty_def

section \<open>The sequence a heap represents\<close>

text \<open>
  \<open>dpath h a xs b\<close>: following \<^verbatim>\<open>next\<close> from \<open>a\<close> visits \<open>xs\<close> and then \<open>b\<close>, and every entry met
  points back to the one before it.
\<close>

fun dpath :: "'a links \<Rightarrow> 'a \<Rightarrow> 'a list \<Rightarrow> 'a \<Rightarrow> bool" where
  "dpath h a [] b \<longleftrightarrow> nxt h a = b \<and> prv h b = a"
| "dpath h a (x # xs) b \<longleftrightarrow> nxt h a = x \<and> prv h x = a \<and> dpath h x xs b"

definition dlist :: "'a links \<Rightarrow> 'a \<Rightarrow> 'a list \<Rightarrow> bool" where
  "dlist h l xs \<longleftrightarrow> distinct (l # xs) \<and> dpath h l xs l"

lemma dpath_append [simp]:
  "dpath h a (xs @ y # ys) b \<longleftrightarrow> dpath h a xs y \<and> dpath h y ys b"
  by (induction xs arbitrary: a) auto

lemma dpath_nxt_frame:
  "u \<notin> insert a (set xs) \<Longrightarrow> dpath (h\<lparr>nxt := (nxt h)(u := v)\<rparr>) a xs b = dpath h a xs b"
  by (induction xs arbitrary: a) auto

lemma dpath_prv_frame:
  "u \<notin> insert b (set xs) \<Longrightarrow> dpath (h\<lparr>prv := (prv h)(u := v)\<rparr>) a xs b = dpath h a xs b"
  by (induction xs arbitrary: a) auto

lemma dpath_cong:
  assumes "\<And>u. u \<in> insert a (set xs) \<Longrightarrow> nxt h u = nxt h' u"
    and "\<And>u. u \<in> insert b (set xs) \<Longrightarrow> prv h u = prv h' u"
  shows "dpath h a xs b \<longleftrightarrow> dpath h' a xs b"
  using assms by (induction xs arbitrary: a) auto

lemma dpath_last: "dpath h a xs b \<Longrightarrow> prv h b = last (a # xs)"
  by (induction xs arbitrary: a) auto

lemma dpath_first: "dpath h a xs b \<Longrightarrow> nxt h a = hd (xs @ [b])"
  by (cases xs) auto

lemma dlist_distinct: "dlist h l xs \<Longrightarrow> distinct (l # xs)"
  by (simp add: dlist_def)

lemma dlist_first: "dlist h l xs \<Longrightarrow> nxt h l = hd (xs @ [l])"
  by (simp add: dlist_def dpath_first)

lemma dlist_last: "dlist h l xs \<Longrightarrow> prv h l = last (l # xs)"
  by (metis dlist_def dpath_last)

lemma dlist_cong:
  assumes "\<And>u. u \<in> insert l (set xs) \<Longrightarrow> nxt h u = nxt h' u \<and> prv h u = prv h' u"
  shows "dlist h l xs \<longleftrightarrow> dlist h' l xs"
  using assms by (auto simp: dlist_def intro: dpath_cong [THEN iffD1])

text \<open>A list is determined by its head: the representation relation is functional.\<close>

lemma dpath_unique:
  "dpath h a xs b \<Longrightarrow> dpath h a ys b \<Longrightarrow> b \<notin> set xs \<Longrightarrow> b \<notin> set ys \<Longrightarrow> xs = ys"
proof (induction xs arbitrary: a ys)
  case Nil
  then show ?case by (cases ys) auto
next
  case (Cons x xs)
  then show ?case by (cases ys) auto
qed

lemma dlist_unique: "dlist h l xs \<Longrightarrow> dlist h l ys \<Longrightarrow> xs = ys"
  by (auto simp: dlist_def intro: dpath_unique)

lemma dlist_next_mid:
  "dlist h l (xs @ x # ys) \<Longrightarrow> nxt h x = hd (ys @ [l])"
  by (auto simp: dlist_def dest: dpath_first)

lemma dlist_prev_mid:
  "dlist h l (xs @ x # ys) \<Longrightarrow> prv h x = last (l # xs)"
  by (auto simp: dlist_def dest: dpath_last)

section \<open>Every operation refines its list counterpart\<close>

lemma nxt_list_add_raw:
  "nxt (list_add_raw e p n h) u = (if u = e then n else if u = p then e else nxt h u)"
  by (simp add: list_add_raw_def Let_def)

lemma prv_list_add_raw:
  "prv (list_add_raw e p n h) u = (if u = e then p else if u = n then e else prv h u)"
  by (simp add: list_add_raw_def Let_def)

lemma nxt_list_del_raw:
  "nxt (list_del_raw p n h) u = (if u = p then n else nxt h u)"
  by (simp add: list_del_raw_def Let_def)

lemma prv_list_del_raw:
  "prv (list_del_raw p n h) u = (if u = n then p else prv h u)"
  by (simp add: list_del_raw_def Let_def)

lemma nxt_list_init: "nxt (list_init e h) u = (if u = e then e else nxt h u)"
  by (simp add: list_init_def)

lemma prv_list_init: "prv (list_init e h) u = (if u = e then e else prv h u)"
  by (simp add: list_init_def)

lemmas link_reads = nxt_list_add_raw prv_list_add_raw nxt_list_del_raw prv_list_del_raw
  nxt_list_init prv_list_init

lemma list_init_dlist: "dlist (list_init l h) l []"
  by (simp add: dlist_def link_reads)

lemma list_empty_dlist: "dlist h l xs \<Longrightarrow> list_empty l h \<longleftrightarrow> xs = []"
  by (cases xs) (auto simp: dlist_def list_empty_def)

text \<open>Inserting \<open>e\<close> between two neighbours \<open>p\<close> and \<open>n\<close>.\<close>

lemma dpath_add_raw_tail:
  assumes "dpath h p ys b" "distinct ys" "p \<notin> set ys" "b \<notin> set ys" "e \<notin> {p, b} \<union> set ys"
  shows "dpath (list_add_raw e p (hd (ys @ [b])) h) p (e # ys) b"
proof (cases ys)
  case Nil
  with assms show ?thesis by (auto simp: link_reads)
next
  case (Cons y zs)
  with assms have "dpath h y zs b" by simp
  then have "dpath (list_add_raw e p y h) y zs b"
    by (rule dpath_cong [THEN iffD1, rotated 2]) (use assms Cons in \<open>auto simp: link_reads\<close>)
  with Cons assms show ?thesis by (auto simp: link_reads)
qed

lemma dpath_add_raw_front:
  assumes "dpath h a us p" "p \<notin> insert a (set us)" "n \<notin> insert p (set us)" "e \<notin> insert a (insert p (set us))"
  shows "dpath (list_add_raw e p n h) a us p"
  using assms(1)
  by (rule dpath_cong [THEN iffD1, rotated 2]) (use assms in \<open>auto simp: link_reads\<close>)

theorem list_add_head:
  assumes "dlist h l xs" "e \<notin> insert l (set xs)"
  shows "dlist (list_add l e h) l (e # xs)"
proof -
  have d: "dpath h l xs l" "distinct (l # xs)" using assms by (auto simp: dlist_def)
  then have n: "nxt h l = hd (xs @ [l])" by (simp add: dpath_first)
  have "dpath (list_add_raw e l (hd (xs @ [l])) h) l (e # xs) l"
    by (rule dpath_add_raw_tail) (use d assms in auto)
  then show ?thesis
    using d assms by (auto simp: dlist_def list_add_def list_add_after_def n)
qed

theorem list_add_after_mid:
  assumes "dlist h l (us @ p # ys)" "e \<notin> insert l (set (us @ p # ys))"
  shows "dlist (list_add p e h) l (us @ p # e # ys)"
proof -
  have d: "dpath h l us p" "dpath h p ys l" "distinct (l # us @ p # ys)"
    using assms by (auto simp: dlist_def)
  then have n: "nxt h p = hd (ys @ [l])" by (simp add: dpath_first)
  let ?n = "hd (ys @ [l])" and ?h = "list_add_raw e p (hd (ys @ [l])) h"
  have "?n \<in> insert l (set ys)" by (cases ys) auto
  then have "?n \<notin> insert p (set us)" using d(3) by auto
  then have "dpath ?h l us p"
    by (intro dpath_add_raw_front) (use d assms in auto)
  moreover have "dpath ?h p (e # ys) l"
    by (rule dpath_add_raw_tail) (use d assms in auto)
  ultimately show ?thesis
    using d assms by (auto simp: dlist_def list_add_def list_add_after_def n)
qed

lemma list_add_before_is_after:
  "nxt h (prv h n) = n \<Longrightarrow> list_add_before n e h = list_add (prv h n) e h"
  by (simp add: list_add_before_def list_add_def list_add_after_def)

lemma dpath_prv_nxt: "dpath h a xs b \<Longrightarrow> distinct (a # xs) \<Longrightarrow> nxt h (prv h b) = b"
  by (induction xs arbitrary: a) auto

theorem list_add_tail:
  assumes "dlist h l xs" "e \<notin> insert l (set xs)"
  shows "dlist (list_add_before l e h) l (xs @ [e])"
proof (cases xs rule: rev_cases)
  case Nil
  with assms have "list_add_before l e h = list_add l e h"
    by (subst list_add_before_is_after) (auto simp: dlist_def)
  with Nil list_add_head [OF assms] show ?thesis by simp
next
  case (snoc us x)
  with assms have "prv h l = x" "nxt h x = l" by (auto simp: dlist_def)
  with snoc list_add_after_mid [of h l us x "[]" e] assms show ?thesis
    by (simp add: list_add_before_is_after)
qed

theorem list_add_before_mid:
  assumes "dlist h l (us @ x # ys)" "e \<notin> insert l (set (us @ x # ys))"
  shows "dlist (list_add_before x e h) l (us @ e # x # ys)"
proof (cases us rule: rev_cases)
  case Nil
  with assms have "list_add_before x e h = list_add l e h"
    by (subst list_add_before_is_after) (auto simp: dlist_def)
  with Nil list_add_head [OF assms] show ?thesis by simp
next
  case (snoc vs p)
  with assms have "prv h x = p" "nxt h p = x" by (auto simp: dlist_def)
  with snoc list_add_after_mid [of h l vs p "x # ys" e] assms show ?thesis
    by (simp add: list_add_before_is_after)
qed

lemma dpath_del_raw_join:
  assumes "dpath h a us x" "dpath h x ys b" "distinct (us @ x # ys)" "a \<notin> set (us @ x # ys)"
    "b \<notin> set (us @ x # ys)"
  shows "dpath (list_del_raw (last (a # us)) (hd (ys @ [b])) h) a (us @ ys) b"
  using assms
proof (induction us arbitrary: a)
  case Nil
  show ?case
  proof (cases ys)
    case Nil
    then show ?thesis by (simp add: link_reads)
  next
    case (Cons y zs)
    with Nil.prems have "dpath h y zs b" by simp
    then have "dpath (list_del_raw a y h) y zs b"
      by (rule dpath_cong [THEN iffD1, rotated 2]) (use Nil.prems Cons in \<open>auto simp: link_reads\<close>)
    with Cons show ?thesis by (simp add: link_reads)
  qed
next
  case (Cons u us)
  have "hd (ys @ [b]) \<in> insert b (set ys)" by (cases ys) auto
  with Cons.prems have ne: "hd (ys @ [b]) \<noteq> u" by auto
  have "dpath (list_del_raw (last (u # us)) (hd (ys @ [b])) h) u (us @ ys) b"
    by (rule Cons.IH) (use Cons.prems in auto)
  moreover have "a \<noteq> last (u # us)" using Cons.prems by (metis last_in_set list.distinct(1)
        Un_iff append_Cons set_append)
  ultimately show ?case using Cons.prems ne by (auto simp: link_reads)
qed

theorem list_del_mid:
  assumes "dlist h l (us @ x # ys)"
  shows "dlist (list_del x h) l (us @ ys)"
proof -
  have d: "dpath h l us x" "dpath h x ys l" "distinct (l # us @ x # ys)"
    using assms by (auto simp: dlist_def)
  then have "prv h x = last (l # us)" "nxt h x = hd (ys @ [l])"
    by (simp_all only: dpath_last dpath_first)
  then show ?thesis
    using d dpath_del_raw_join [of h l us x ys l] by (auto simp: dlist_def list_del_def)
qed

lemma list_del_remove1:
  assumes "dlist h l xs" "x \<in> set xs"
  shows "dlist (list_del x h) l (remove1 x xs)"
proof -
  obtain us ys where xs: "xs = us @ x # ys" "x \<notin> set us"
    using assms(2) split_list_first by metis
  with list_del_mid [of h l us x ys] assms(1) show ?thesis by (simp add: remove1_append)
qed

lemma dlist_init_frame:
  "e \<notin> insert l (set xs) \<Longrightarrow> dlist (list_init e h) l xs = dlist h l xs"
  by (rule dlist_cong) (auto simp: link_reads)

theorem list_del_init_remove1:
  assumes "dlist h l xs" "x \<in> set xs"
  shows "dlist (list_del_init x h) l (remove1 x xs)" and "list_empty x (list_del_init x h)"
proof -
  have "distinct (l # xs)" using assms(1) by (rule dlist_distinct)
  then have "x \<notin> insert l (set (remove1 x xs))" using assms(2) by auto
  then show "dlist (list_del_init x h) l (remove1 x xs)"
    using list_del_remove1 [OF assms] by (simp add: list_del_init_def dlist_init_frame)
  show "list_empty x (list_del_init x h)"
    by (simp add: list_empty_def list_del_init_def link_reads)
qed

text \<open>A linked entry is never \<open>list_empty\<close>: this is how the code tests membership.\<close>

lemma list_empty_member:
  assumes "dlist h l xs" "x \<in> set xs"
  shows "\<not> list_empty x h"
proof -
  obtain us ys where xs: "xs = us @ x # ys" using assms(2) split_list by metis
  then have "nxt h x = hd (ys @ [l])" using assms(1) dlist_next_mid by metis
  moreover have "distinct (l # xs)" using assms(1) by (rule dlist_distinct)
  ultimately show ?thesis using xs by (cases ys) (auto simp: list_empty_def)
qed

section \<open>Frame: other lists\<close>

lemma dlist_frame_add_head:
  assumes "dlist h l xs" "dlist h m ys" "e \<notin> insert m (set ys)" "insert l (set xs) \<inter> insert m (set ys) = {}"
  shows "dlist (list_add l e h) m ys"
proof -
  have "nxt h l = hd (xs @ [l])" using assms(1) by (rule dlist_first)
  then have "nxt h l \<in> insert l (set xs)" by (cases xs) auto
  then show ?thesis
    using assms by (subst dlist_cong [where h' = h]) (auto simp: list_add_def list_add_after_def link_reads)
qed

lemma dlist_frame_add_tail:
  assumes "dlist h l xs" "dlist h m ys" "e \<notin> insert m (set ys)" "insert l (set xs) \<inter> insert m (set ys) = {}"
  shows "dlist (list_add_before l e h) m ys"
proof -
  have "prv h l = last (l # xs)" using assms(1) by (rule dlist_last)
  then have "prv h l \<in> insert l (set xs)" by (metis last_in_set list.simps(15) list.distinct(1))
  then show ?thesis
    using assms by (subst dlist_cong [where h' = h]) (auto simp: list_add_before_def link_reads)
qed

lemma dlist_frame_del:
  assumes "dlist h l xs" "x \<in> set xs" "dlist h m ys" "insert l (set xs) \<inter> insert m (set ys) = {}"
  shows "dlist (list_del x h) m ys"
proof -
  obtain us vs where xs: "xs = us @ x # vs" using assms(2) split_list by metis
  have "prv h x = last (l # us)" "nxt h x = hd (vs @ [l])"
    using assms(1) xs dlist_prev_mid dlist_next_mid by metis+
  then have "prv h x \<in> insert l (set xs)" "nxt h x \<in> insert l (set xs)"
    unfolding xs by (auto simp: hd_append)
  then show ?thesis
    using assms by (subst dlist_cong [where h' = h]) (auto simp: list_del_def link_reads)
qed

section \<open>Forward walks\<close>

text \<open>
  \<open>npath h a xs b\<close>: only the \<^verbatim>\<open>next\<close> fields are right.  Loops that walk forward depend on no more
  than this, and it is what is left of a list whose back pointers are broken.
\<close>

fun npath :: "'a links \<Rightarrow> 'a \<Rightarrow> 'a list \<Rightarrow> 'a \<Rightarrow> bool" where
  "npath h a [] b \<longleftrightarrow> nxt h a = b"
| "npath h a (x # xs) b \<longleftrightarrow> nxt h a = x \<and> npath h x xs b"

lemma dpath_npath: "dpath h a xs b \<Longrightarrow> npath h a xs b"
  by (induction xs arbitrary: a) auto

lemma dlist_npath: "dlist h l xs \<Longrightarrow> npath h l xs l"
  by (simp add: dlist_def dpath_npath)

lemma npath_append [simp]:
  "npath h a (xs @ y # ys) b \<longleftrightarrow> npath h a xs y \<and> npath h y ys b"
  by (induction xs arbitrary: a) auto

lemma npath_cong:
  "(\<And>u. u \<in> insert a (set xs) \<Longrightarrow> nxt h u = nxt h' u) \<Longrightarrow> npath h a xs b \<longleftrightarrow> npath h' a xs b"
  by (induction xs arbitrary: a) auto

lemma npath_unique:
  "npath h a xs b \<Longrightarrow> npath h a ys b \<Longrightarrow> b \<notin> set xs \<Longrightarrow> b \<notin> set ys \<Longrightarrow> xs = ys"
proof (induction xs arbitrary: a ys)
  case Nil
  then show ?case by (cases ys) auto
next
  case (Cons x xs)
  then show ?case by (cases ys) auto
qed

section \<open>The queue contract\<close>

text \<open>
  What the schedulers and wait queues rely on: elements join at the tail, the front is read
  through the head, an element is unlinked wherever it stands.
\<close>

locale fifo_queue =
  fixes repr :: "'h \<Rightarrow> 'a \<Rightarrow> 'a list \<Rightarrow> bool"
    and enq :: "'a \<Rightarrow> 'a \<Rightarrow> 'h \<Rightarrow> 'h"
    and deq :: "'a \<Rightarrow> 'h \<Rightarrow> 'h"
    and front :: "'a \<Rightarrow> 'h \<Rightarrow> 'a"
  assumes repr_distinct: "repr h l xs \<Longrightarrow> distinct (l # xs)"
    and repr_unique: "repr h l xs \<Longrightarrow> repr h l ys \<Longrightarrow> xs = ys"
    and repr_enq: "repr h l xs \<Longrightarrow> e \<notin> insert l (set xs) \<Longrightarrow> repr (enq l e h) l (xs @ [e])"
    and repr_deq: "repr h l xs \<Longrightarrow> x \<in> set xs \<Longrightarrow> repr (deq x h) l (remove1 x xs)"
    and repr_front: "repr h l xs \<Longrightarrow> front l h = hd (xs @ [l])"
begin

lemma front_empty: "repr h l xs \<Longrightarrow> front l h = l \<longleftrightarrow> xs = []"
  using repr_front repr_distinct by (cases xs) fastforce+

lemma front_enq:
  "repr h l (x # xs) \<Longrightarrow> e \<notin> insert l (set (x # xs)) \<Longrightarrow> front l (enq l e h) = x"
  using repr_front [OF repr_enq] by fastforce

lemma deq_front: "repr h l (x # xs) \<Longrightarrow> repr (deq (front l h) h) l xs"
  using repr_front [of h l "x # xs"] repr_deq [of h l "x # xs" x] by simp

text \<open>One round: the front element is taken out and queued again.\<close>

lemma rotate:
  assumes "repr h l (x # xs)"
  shows "repr (enq l (front l h) (deq (front l h) h)) l (xs @ [x])"
proof -
  have "front l h = x" using repr_front [OF assms] by simp
  moreover have "repr (deq x h) l xs" using deq_front [OF assms] calculation by simp
  moreover have "x \<notin> insert l (set xs)" using repr_distinct [OF assms] by auto
  ultimately show ?thesis using repr_enq by simp
qed

text \<open>After \<open>k\<close> rounds the queue is the original one rotated by \<open>k\<close>: every element gets its turn.\<close>

lemma rotate_many:
  "repr h l xs \<Longrightarrow> xs \<noteq> [] \<Longrightarrow>
   repr (((\<lambda>h. enq l (front l h) (deq (front l h) h)) ^^ k) h) l (List.rotate k xs)"
proof (induction k)
  case 0
  then show ?case by simp
next
  case (Suc k)
  then obtain y ys where "List.rotate k xs = y # ys" by (cases "List.rotate k xs") auto
  then show ?case using Suc rotate by (simp add: rotate_Suc)
qed

lemma front_after_rounds:
  assumes "repr h l xs" and "k < length xs"
  shows "front l (((\<lambda>h. enq l (front l h) (deq (front l h) h)) ^^ k) h) = xs ! k"
proof -
  have ne: "xs \<noteq> []" using assms(2) by auto
  have "hd (List.rotate k xs @ [l]) = xs ! k"
    using assms(2) ne by (simp add: hd_append hd_rotate_conv_nth)
  then show ?thesis using repr_front [OF rotate_many [OF assms(1) ne]] by simp
qed

end

interpretation klist: fifo_queue dlist list_add_before list_del_init list_next
proof unfold_locales
  fix h :: "'a links" and l x e :: 'a and xs ys
  show "dlist h l xs \<Longrightarrow> distinct (l # xs)" by (rule dlist_distinct)
  show "dlist h l xs \<Longrightarrow> dlist h l ys \<Longrightarrow> xs = ys" by (rule dlist_unique)
  show "dlist h l xs \<Longrightarrow> e \<notin> insert l (set xs) \<Longrightarrow> dlist (list_add_before l e h) l (xs @ [e])"
    by (rule list_add_tail)
  show "dlist h l xs \<Longrightarrow> x \<in> set xs \<Longrightarrow> dlist (list_del_init x h) l (remove1 x xs)"
    by (rule list_del_init_remove1)
  show "dlist h l xs \<Longrightarrow> list_next l h = hd (xs @ [l])" by (simp add: dlist_first)
qed

end
