(* ===== verification/Pages.thy ===== *)
theory Pages
  imports KList
begin

text \<open>
  The page descriptors of \<^verbatim>\<open>kern/mm/memlayout.h\<close>, shared by the physical memory managers.  A page
  is named by its index in the array \<^verbatim>\<open>pages\<close>; comparing or adding to page pointers is arithmetic
  on indices.  The links are polymorphic in the node type, because the buddy manager has one list
  head per order.  \<^verbatim>\<open>property\<close> and \<^verbatim>\<open>nr_free\<close> are \<^verbatim>\<open>unsigned int\<close>, reduced modulo \<open>2 ^ 32\<close> where the
  code stores into them; \<^verbatim>\<open>flags\<close> is a 64-bit word.
\<close>

section \<open>Page descriptors and the free area\<close>

record page =
  pg_ref :: int
  flags :: "64 word"
  property :: nat

datatype lnode = FreeHead | PageLink (le2page: nat)

record 'n area =
  pages :: "nat \<Rightarrow> page"
  links :: "'n links"
  nr_free :: nat

type_synonym pmm = "lnode area"

definition PG_reserved :: nat where "PG_reserved = 0"
definition PG_property :: nat where "PG_property = 1"

definition upd_page :: "nat \<Rightarrow> (page \<Rightarrow> page) \<Rightarrow> ('n, 'z) area_scheme \<Rightarrow> ('n, 'z) area_scheme" where
  "upd_page p f s = s\<lparr>pages := (pages s)(p := f (pages s p))\<rparr>"

definition PageReserved :: "nat \<Rightarrow> ('n, 'z) area_scheme \<Rightarrow> bool" where
  "PageReserved p s = bit (flags (pages s p)) PG_reserved"

definition PageProperty :: "nat \<Rightarrow> ('n, 'z) area_scheme \<Rightarrow> bool" where
  "PageProperty p s = bit (flags (pages s p)) PG_property"

definition SetPageReserved :: "nat \<Rightarrow> ('n, 'z) area_scheme \<Rightarrow> ('n, 'z) area_scheme" where
  "SetPageReserved p s = upd_page p (\<lambda>g. g\<lparr>flags := set_bit PG_reserved (flags g)\<rparr>) s"

definition SetPageProperty :: "nat \<Rightarrow> ('n, 'z) area_scheme \<Rightarrow> ('n, 'z) area_scheme" where
  "SetPageProperty p s = upd_page p (\<lambda>g. g\<lparr>flags := set_bit PG_property (flags g)\<rparr>) s"

definition ClearPageProperty :: "nat \<Rightarrow> ('n, 'z) area_scheme \<Rightarrow> ('n, 'z) area_scheme" where
  "ClearPageProperty p s = upd_page p (\<lambda>g. g\<lparr>flags := unset_bit PG_property (flags g)\<rparr>) s"

definition set_page_ref :: "nat \<Rightarrow> int \<Rightarrow> ('n, 'z) area_scheme \<Rightarrow> ('n, 'z) area_scheme" where
  "set_page_ref p v s = upd_page p (\<lambda>g. g\<lparr>pg_ref := v\<rparr>) s"

definition set_flags :: "nat \<Rightarrow> 64 word \<Rightarrow> ('n, 'z) area_scheme \<Rightarrow> ('n, 'z) area_scheme" where
  "set_flags p v s = upd_page p (\<lambda>g. g\<lparr>flags := v\<rparr>) s"

definition set_property :: "nat \<Rightarrow> nat \<Rightarrow> ('n, 'z) area_scheme \<Rightarrow> ('n, 'z) area_scheme" where
  "set_property p v s = upd_page p (\<lambda>g. g\<lparr>property := u32 v\<rparr>) s"

abbreviation psize :: "('n, 'z) area_scheme \<Rightarrow> nat \<Rightarrow> nat" where
  "psize s p \<equiv> property (pages s p)"

lemmas page_op_defs = upd_page_def SetPageReserved_def SetPageProperty_def ClearPageProperty_def
  set_page_ref_def set_flags_def set_property_def

section \<open>Reads after writes\<close>

lemma property_frames [frame_simps]:
  "psize (SetPageProperty p s) q = psize s q"
  "psize (ClearPageProperty p s) q = psize s q"
  "psize (set_page_ref p v s) q = psize s q"
  "psize (set_flags p w s) q = psize s q"
  "psize (set_property p k s) q = (if q = p then u32 k else psize s q)"
  by (simp_all add: page_op_defs)

lemma links_frames [frame_simps]:
  "links (SetPageProperty p s) = links s"
  "links (ClearPageProperty p s) = links s"
  "links (set_page_ref p v s) = links s"
  "links (set_flags p w s) = links s"
  "links (set_property p k s) = links s"
  by (simp_all add: page_op_defs)

lemma nr_free_frames [frame_simps]:
  "nr_free (SetPageProperty p s) = nr_free s"
  "nr_free (ClearPageProperty p s) = nr_free s"
  "nr_free (set_page_ref p v s) = nr_free s"
  "nr_free (set_flags p w s) = nr_free s"
  "nr_free (set_property p k s) = nr_free s"
  by (simp_all add: page_op_defs)

lemma PageProperty_frames [frame_simps]:
  "PageProperty q (SetPageProperty p s) \<longleftrightarrow> q = p \<or> PageProperty q s"
  "PageProperty q (ClearPageProperty p s) \<longleftrightarrow> q \<noteq> p \<and> PageProperty q s"
  "PageProperty q (set_page_ref p v s) = PageProperty q s"
  "PageProperty q (set_property p k s) = PageProperty q s"
  "PageProperty q (set_flags p 0 s) \<longleftrightarrow> q \<noteq> p \<and> PageProperty q s"
  by (auto simp: page_op_defs PageProperty_def PG_property_def bit_set_bit_iff bit_unset_bit_iff)

lemma PageReserved_frames [frame_simps]:
  "PageReserved q (SetPageProperty p s) = PageReserved q s"
  "PageReserved q (ClearPageProperty p s) = PageReserved q s"
  "PageReserved q (set_page_ref p v s) = PageReserved q s"
  "PageReserved q (set_property p k s) = PageReserved q s"
  "PageReserved q (set_flags p 0 s) \<longleftrightarrow> q \<noteq> p \<and> PageReserved q s"
  by (auto simp: page_op_defs PageReserved_def PG_property_def PG_reserved_def
      bit_set_bit_iff bit_unset_bit_iff)

lemma links_upd_frames [frame_simps]:
  "pages (s\<lparr>links := h\<rparr>) = pages s" "pages (s\<lparr>nr_free := k\<rparr>) = pages s"
  "PageProperty q (s\<lparr>links := h\<rparr>) = PageProperty q s" "PageProperty q (s\<lparr>nr_free := k\<rparr>) = PageProperty q s"
  "PageReserved q (s\<lparr>links := h\<rparr>) = PageReserved q s" "PageReserved q (s\<lparr>nr_free := k\<rparr>) = PageReserved q s"
  by (simp_all add: PageProperty_def PageReserved_def)

section \<open>Free blocks\<close>

text \<open>
  The abstract view of a free area: the list of block heads \<open>xs\<close>, each standing for the pages
  from the head on, as many as its \<^verbatim>\<open>property\<close> says.  \<open>pmm_wf s xs\<close>: the linked list is intact and
  holds \<open>xs\<close>, the blocks are in address order with a gap between any two (nothing is left to
  merge), each head is marked, and \<^verbatim>\<open>nr_free\<close> is the number of free pages.
\<close>

definition block :: "pmm \<Rightarrow> nat \<Rightarrow> nat set" where
  "block s p = {p ..< p + psize s p}"

definition free_set :: "pmm \<Rightarrow> nat list \<Rightarrow> nat set" where
  "free_set s xs = (\<Union>p\<in>set xs. block s p)"

definition blocks_ok :: "pmm \<Rightarrow> nat list \<Rightarrow> bool" where
  "blocks_ok s xs \<longleftrightarrow>
     sorted_wrt (\<lambda>a b. a + psize s a < b) xs \<and>
     list_all (\<lambda>p. 0 < psize s p \<and> PageProperty p s) xs"

definition pmm_wf :: "pmm \<Rightarrow> nat list \<Rightarrow> bool" where
  "pmm_wf s xs \<longleftrightarrow>
     dlist (links s) FreeHead (map PageLink xs) \<and> blocks_ok s xs \<and>
     nr_free s = (\<Sum>p\<leftarrow>xs. psize s p) \<and> nr_free s < 2 ^ 32"

lemma blocks_ok_Nil [simp]: "blocks_ok s []"
  by (simp add: blocks_ok_def)

lemma blocks_ok_Cons:
  "blocks_ok s (x # xs) \<longleftrightarrow>
     0 < psize s x \<and> PageProperty x s \<and> (\<forall>y\<in>set xs. x + psize s x < y) \<and> blocks_ok s xs"
  by (auto simp: blocks_ok_def)

lemma blocks_ok_append:
  "blocks_ok s (xs @ ys) \<longleftrightarrow>
     blocks_ok s xs \<and> blocks_ok s ys \<and> (\<forall>x\<in>set xs. \<forall>y\<in>set ys. x + psize s x < y)"
  by (auto simp: blocks_ok_def sorted_wrt_append)

lemma blocks_ok_cong:
  "(\<And>p. p \<in> set xs \<Longrightarrow> psize s p = psize t p \<and> PageProperty p s = PageProperty p t) \<Longrightarrow>
   blocks_ok s xs = blocks_ok t xs"
  by (induction xs) (auto simp: blocks_ok_Cons)

lemma blocks_ok_sorted: "blocks_ok s xs \<Longrightarrow> sorted_wrt (<) xs"
  by (auto simp: blocks_ok_def elim!: sorted_wrt_mono_rel [rotated])

lemma free_set_Nil [simp]: "free_set s [] = {}"
  by (simp add: free_set_def)

lemma free_set_Cons [simp]: "free_set s (x # xs) = block s x \<union> free_set s xs"
  by (simp add: free_set_def)

lemma free_set_append [simp]: "free_set s (xs @ ys) = free_set s xs \<union> free_set s ys"
  by (simp add: free_set_def)

lemma free_set_cong:
  "(\<And>p. p \<in> set xs \<Longrightarrow> psize s p = psize t p) \<Longrightarrow> free_set s xs = free_set t xs"
  by (auto simp: free_set_def block_def)

lemma sum_prop_cong:
  "(\<And>p. p \<in> set xs \<Longrightarrow> psize s p = psize t p) \<Longrightarrow> (\<Sum>p\<leftarrow>xs. psize s p) = (\<Sum>p\<leftarrow>xs. psize t p)"
  by (induction xs) auto

lemma free_set_head: "blocks_ok s xs \<Longrightarrow> p \<in> set xs \<Longrightarrow> p \<in> free_set s xs"
  by (induction xs) (auto simp: blocks_ok_Cons block_def)

lemma blocks_ok_disjoint:
  "blocks_ok s (xs @ x # ys) \<Longrightarrow> block s x \<inter> free_set s xs = {} \<and> block s x \<inter> free_set s ys = {}"
  by (fastforce simp: blocks_ok_append blocks_ok_Cons free_set_def block_def)

lemma pmm_wf_dlist: "pmm_wf s xs \<Longrightarrow> dlist (links s) FreeHead (map PageLink xs)"
  by (simp add: pmm_wf_def)

lemma pmm_wf_unique: "pmm_wf s xs \<Longrightarrow> pmm_wf s ys \<Longrightarrow> xs = ys"
  by (metis dlist_unique pmm_wf_def map_injective injI lnode.inject)

lemma prop_le_nr_free: "pmm_wf s xs \<Longrightarrow> p \<in> set xs \<Longrightarrow> psize s p \<le> nr_free s"
  by (auto simp: pmm_wf_def intro: member_le_sum_list)

lemma prop_le_sum: "p \<in> set xs \<Longrightarrow> psize s p \<le> (\<Sum>q\<leftarrow>xs. psize s q)"
  by (auto intro: member_le_sum_list)

end
