(* ===== verification/FirstFit.thy ===== *)
theory FirstFit
  imports Pages
begin

text \<open>
  The first-fit physical memory manager, \<^verbatim>\<open>kern/mm/default_pmm.c\<close>.  The insertion loop that
  \<^verbatim>\<open>default_init_memmap\<close> and \<^verbatim>\<open>default_free_pages\<close> share has no \<^verbatim>\<open>break\<close> after the insertion at the end of
  the list, so it meets the entry it has just linked and inserts it a second time, after itself;
  the model keeps that.
\<close>

section \<open>The manager\<close>

definition default_init :: "pmm \<Rightarrow> pmm" where
  "default_init s = s\<lparr>links := list_init FreeHead (links s), nr_free := 0\<rparr>"

text \<open>The two descriptor loops, over the \<open>k\<close> pages from \<open>p\<close> on.\<close>

fun init_descriptors :: "nat \<Rightarrow> nat \<Rightarrow> pmm \<Rightarrow> pmm option" where
  "init_descriptors p 0 s = Some s"
| "init_descriptors p (Suc k) s =
     do {
       assertc (PageReserved p s);
       init_descriptors (Suc p) k (set_page_ref p 0 (set_flags p 0 (set_property p 0 s)))
     }"

fun clear_descriptors :: "nat \<Rightarrow> nat \<Rightarrow> pmm \<Rightarrow> pmm option" where
  "clear_descriptors p 0 s = Some s"
| "clear_descriptors p (Suc k) s =
     do {
       assertc (\<not> PageReserved p s \<and> \<not> PageProperty p s);
       clear_descriptors (Suc p) k (set_page_ref p 0 (set_flags p 0 s))
     }"

text \<open>The \<^verbatim>\<open>while\<close> loop that finds the place of \<open>base\<close> in the free list.\<close>

partial_function (option) insert_loop :: "nat \<Rightarrow> lnode \<Rightarrow> lnode links \<Rightarrow> lnode links option" where
  "insert_loop base le h =
     (case nxt h le of
        FreeHead \<Rightarrow> Some h
      | PageLink page \<Rightarrow>
          if base < page then Some (list_add_before (PageLink page) (PageLink base) h)
          else if nxt h (PageLink page) = FreeHead
          then insert_loop base (PageLink page) (list_add (PageLink page) (PageLink base) h)
          else insert_loop base (PageLink page) h)"

definition link_block :: "nat \<Rightarrow> pmm \<Rightarrow> pmm option" where
  "link_block base s =
     (if list_empty FreeHead (links s)
      then Some (s\<lparr>links := list_add FreeHead (PageLink base) (links s)\<rparr>)
      else do {
        h \<leftarrow> insert_loop base FreeHead (links s);
        Some (s\<lparr>links := h\<rparr>)
      })"

text \<open>\<^verbatim>\<open>base->property = n; SetPageProperty(base); nr_free += n;\<close>\<close>

definition mark_block :: "nat \<Rightarrow> nat \<Rightarrow> pmm \<Rightarrow> pmm" where
  "mark_block base n s =
     (let s1 = SetPageProperty base (set_property base n s) in s1\<lparr>nr_free := u32 (nr_free s1 + n)\<rparr>)"

definition default_init_memmap :: "nat \<Rightarrow> nat \<Rightarrow> pmm \<Rightarrow> pmm option" where
  "default_init_memmap base n s =
     do {
       assertc (0 < n);
       s1 \<leftarrow> init_descriptors base n s;
       link_block base (mark_block base n s1)
     }"

partial_function (option) find_first_fit :: "nat \<Rightarrow> lnode \<Rightarrow> pmm \<Rightarrow> nat option option" where
  "find_first_fit n le s =
     (case nxt (links s) le of
        FreeHead \<Rightarrow> Some None
      | PageLink p \<Rightarrow> if n \<le> psize s p then Some (Some p) else find_first_fit n (PageLink p) s)"

text \<open>Unlinking the chosen block and putting its remainder back (\<^verbatim>\<open>if (page != NULL) {...}\<close>).\<close>

definition take_block :: "nat \<Rightarrow> nat \<Rightarrow> pmm \<Rightarrow> pmm" where
  "take_block page n s =
     (let prev = list_prev (PageLink page) (links s);
          s1 = s\<lparr>links := list_del (PageLink page) (links s)\<rparr>;
          s2 = (if n < psize s1 page
                then let p = page + n;
                         t = SetPageProperty p (set_property p (psize s1 page - n) s1)
                     in t\<lparr>links := list_add prev (PageLink p) (links t)\<rparr>
                else s1);
          s3 = s2\<lparr>nr_free := sub32 (nr_free s2) n\<rparr>
      in ClearPageProperty page s3)"

definition default_alloc_pages :: "nat \<Rightarrow> pmm \<Rightarrow> (nat option \<times> pmm) option" where
  "default_alloc_pages n s =
     do {
       assertc (0 < n);
       if nr_free s < n then Some (None, s)
       else do {
         found \<leftarrow> find_first_fit n FreeHead s;
         case found of
           None \<Rightarrow> Some (None, s)
         | Some page \<Rightarrow> Some (Some page, take_block page n s)
       }
     }"

text \<open>Merging with the block before \<open>base\<close>, then with the block after it.\<close>

definition merge_prev :: "nat \<Rightarrow> pmm \<Rightarrow> nat \<times> pmm" where
  "merge_prev base s =
     (case list_prev (PageLink base) (links s) of
        FreeHead \<Rightarrow> (base, s)
      | PageLink p \<Rightarrow>
          if p + psize s p = base
          then let s1 = set_property p (psize s p + psize s base) s;
                   s2 = ClearPageProperty base s1
               in (p, s2\<lparr>links := list_del (PageLink base) (links s2)\<rparr>)
          else (base, s))"

definition merge_next :: "nat \<Rightarrow> pmm \<Rightarrow> pmm" where
  "merge_next base s =
     (case list_next (PageLink base) (links s) of
        FreeHead \<Rightarrow> s
      | PageLink p \<Rightarrow>
          if base + psize s base = p
          then let s1 = set_property base (psize s base + psize s p) s;
                   s2 = ClearPageProperty p s1
               in s2\<lparr>links := list_del (PageLink p) (links s2)\<rparr>
          else s)"

definition default_free_pages :: "nat \<Rightarrow> nat \<Rightarrow> pmm \<Rightarrow> pmm option" where
  "default_free_pages base n s =
     do {
       assertc (0 < n);
       s1 \<leftarrow> clear_descriptors base n s;
       s2 \<leftarrow> link_block base (mark_block base n s1);
       case merge_prev base s2 of (b, s3) \<Rightarrow> Some (merge_next b s3)
     }"

definition default_nr_free_pages :: "pmm \<Rightarrow> nat" where
  "default_nr_free_pages s = nr_free s"

section \<open>The loops\<close>

lemma find_first_fit_npath:
  "npath (links s) le (map PageLink xs) FreeHead \<Longrightarrow>
   find_first_fit n le s = Some (List.find (\<lambda>p. n \<le> psize s p) xs)"
proof (induction xs arbitrary: le)
  case Nil
  then show ?case by (simp add: find_first_fit.simps)
next
  case (Cons x xs)
  then show ?case by (subst find_first_fit.simps) simp
qed

lemma insert_loop_before:
  assumes "npath h le (map PageLink (us @ y # vs)) FreeHead"
    and "\<forall>x\<in>set us. \<not> base < x" and "base < y"
  shows "insert_loop base le h = Some (list_add_before (PageLink y) (PageLink base) h)"
  using assms
proof (induction us arbitrary: le)
  case Nil
  then show ?case by (simp add: insert_loop.simps)
next
  case (Cons x us)
  then have "nxt h (PageLink x) \<noteq> FreeHead" by (cases us) auto
  with Cons show ?case by (subst insert_loop.simps) simp
qed

text \<open>
  At the end of the list the entry is linked twice: after the last block, then after itself.
\<close>

lemma insert_loop_end:
  assumes "npath h le (map PageLink xs) FreeHead" and "xs \<noteq> []"
    and "\<forall>x\<in>set xs. x < base"
  shows "insert_loop base le h =
    Some (list_add (PageLink base) (PageLink base) (list_add (PageLink (last xs)) (PageLink base) h))"
  using assms
proof (induction xs arbitrary: le)
  case Nil
  then show ?case by simp
next
  case (Cons x xs)
  show ?case
  proof (cases xs)
    case Nil
    let ?g = "list_add (PageLink x) (PageLink base) h"
    let ?g2 = "list_add (PageLink base) (PageLink base) ?g"
    have x: "nxt h (PageLink x) = FreeHead" "\<not> base < x" "nxt h le = PageLink x"
      using Cons.prems Nil by auto
    have g: "nxt ?g (PageLink x) = PageLink base" "nxt ?g (PageLink base) = FreeHead"
      using x Cons.prems Nil by (auto simp: list_add_def list_add_after_def link_reads)
    have g2: "nxt ?g2 (PageLink base) = FreeHead"
      using g by (auto simp: list_add_def list_add_after_def link_reads)
    have "insert_loop base le h = insert_loop base (PageLink x) ?g"
      using x by (subst insert_loop.simps) simp
    also have "\<dots> = insert_loop base (PageLink base) ?g2"
      using g by (subst insert_loop.simps) simp
    also have "\<dots> = Some ?g2" using g2 by (subst insert_loop.simps) simp
    finally show ?thesis using Nil by simp
  next
    case (Cons y ys)
    with Cons.prems have "nxt h (PageLink x) \<noteq> FreeHead" "\<not> base < x" by auto
    moreover have "insert_loop base (PageLink x) h =
      Some (list_add (PageLink base) (PageLink base) (list_add (PageLink (last xs)) (PageLink base) h))"
      by (rule Cons.IH) (use Cons.prems Cons in auto)
    ultimately show ?thesis using Cons.prems Cons by (subst insert_loop.simps) simp
  qed
qed

section \<open>Allocation\<close>

lemma take_block_frames [frame_simps]:
  "psize (take_block x n s) q = (if n < psize s x \<and> q = x + n then u32 (psize s x - n) else psize s q)"
  "PageProperty q (take_block x n s) \<longleftrightarrow> q \<noteq> x \<and> (n < psize s x \<and> q = x + n \<or> PageProperty q s)"
  "nr_free (take_block x n s) = sub32 (nr_free s) n"
  by (auto simp: take_block_def Let_def frame_simps)

lemma links_take_block:
  "links (take_block x n s) =
     (if n < psize s x
      then list_add (prv (links s) (PageLink x)) (PageLink (x + n)) (list_del (PageLink x) (links s))
      else list_del (PageLink x) (links s))"
  by (simp add: take_block_def Let_def frame_simps)

definition rest_of :: "pmm \<Rightarrow> nat \<Rightarrow> nat \<Rightarrow> nat list" where
  "rest_of s x n = (if n < psize s x then [x + n] else [])"

lemma set_rest_of: "v \<in> set (rest_of s x n) \<longleftrightarrow> n < psize s x \<and> v = x + n"
  unfolding rest_of_def by (cases "n < property (pages s x)") simp_all

lemma take_block_dlist:
  assumes "dlist (links s) FreeHead (map PageLink (us @ x # vs))"
    and "n < psize s x \<Longrightarrow> x + n \<notin> set (us @ x # vs)"
  shows "dlist (links (take_block x n s)) FreeHead (map PageLink (us @ rest_of s x n @ vs))"
proof -
  let ?h = "list_del (PageLink x) (links s)"
  have del: "dlist ?h FreeHead (map PageLink us @ map PageLink vs)"
    using assms(1) by (intro list_del_mid) simp
  have pv: "prv (links s) (PageLink x) = last (FreeHead # map PageLink us)"
    using assms(1) by (intro dlist_prev_mid) simp
  have "dlist (list_add (last (FreeHead # map PageLink us)) (PageLink (x + n)) ?h) FreeHead
      (map PageLink us @ PageLink (x + n) # map PageLink vs)" if "n < psize s x"
  proof (cases us rule: rev_cases)
    case Nil
    with del assms(2) that show ?thesis by (auto intro!: list_add_head)
  next
    case (snoc ws w)
    then show ?thesis
      using del assms(2) that list_add_after_mid [of ?h FreeHead "map PageLink ws" "PageLink w"
          "map PageLink vs" "PageLink (x + n)"] by auto
  qed
  then show ?thesis using del pv by (simp add: links_take_block rest_of_def)
qed

lemma take_block_wf [wf_intros]:
  assumes "pmm_wf s (us @ x # vs)" and "0 < n" and "n \<le> psize s x"
  shows "pmm_wf (take_block x n s) (us @ rest_of s x n @ vs)"
proof -
  let ?t = "take_block x n s"
  have wf: "dlist (links s) FreeHead (map PageLink (us @ x # vs))" "blocks_ok s us"
    "blocks_ok s vs" "\<forall>u\<in>set us. u + psize s u < x" "\<forall>v\<in>set vs. x + psize s x < v"
    "\<forall>u\<in>set us. \<forall>v\<in>set vs. u + psize s u < v"
    "nr_free s = (\<Sum>p\<leftarrow>us @ x # vs. psize s p)" "nr_free s < 2 ^ 32"
    using assms(1) by (auto simp: pmm_wf_def blocks_ok_append blocks_ok_Cons)
  have us: "u \<noteq> x \<and> u \<noteq> x + n" if "u \<in> set us" for u using wf(4) that by fastforce
  have vs: "v \<noteq> x \<and> v \<noteq> x + n" if "v \<in> set vs" for v using wf(5) that assms(3) by fastforce
  have small: "psize s x < 2 ^ 32" using wf(7,8) by simp
  have sz: "psize ?t u = psize s u" "PageProperty u ?t = PageProperty u s" if "u \<in> set us \<union> set vs" for u
    using us vs that by (auto simp: frame_simps)
  have "dlist (links ?t) FreeHead (map PageLink (us @ rest_of s x n @ vs))"
  proof (rule take_block_dlist [OF wf(1)])
    show "x + n \<notin> set (us @ x # vs)" using us vs assms(2) by auto
  qed
  moreover have "blocks_ok ?t us" "blocks_ok ?t vs"
    using wf(2,3) sz blocks_ok_cong [of us ?t s] blocks_ok_cong [of vs ?t s] by auto
  moreover have "blocks_ok ?t (rest_of s x n)"
    using small assms(2) by (auto simp: rest_of_def blocks_ok_Cons frame_simps)
  moreover have "\<forall>u\<in>set us. \<forall>v\<in>set (rest_of s x n @ vs). u + psize ?t u < v"
  proof (intro ballI)
    fix u v assume "u \<in> set us" "v \<in> set (rest_of s x n @ vs)"
    moreover have "psize ?t u = psize s u" using sz(1) [of u] calculation by simp
    moreover have "v = x + n \<or> v \<in> set vs"
      using calculation(2) by (auto simp: set_rest_of)
    moreover have "u + psize s u < x" using wf(4) calculation(1) by blast
    ultimately show "u + psize ?t u < v" using wf(6) by auto
  qed
  moreover have "\<forall>u\<in>set (rest_of s x n). \<forall>v\<in>set vs. u + psize ?t u < v"
    using wf(5) small assms(3) by (auto simp: set_rest_of frame_simps)
  moreover have "nr_free ?t = (\<Sum>p\<leftarrow>us @ rest_of s x n @ vs. psize ?t p)"
  proof -
    have "(\<Sum>p\<leftarrow>us. psize ?t p) = (\<Sum>p\<leftarrow>us. psize s p)" "(\<Sum>p\<leftarrow>vs. psize ?t p) = (\<Sum>p\<leftarrow>vs. psize s p)"
      using sz by (auto intro!: sum_prop_cong)
    moreover have "(\<Sum>p\<leftarrow>rest_of s x n. psize ?t p) = psize s x - n"
      using small assms(3) by (auto simp: rest_of_def frame_simps)
    moreover have "sub32 (nr_free s) n = nr_free s - n"
      using wf(7,8) assms(3) by (intro sub32_le) simp_all
    ultimately show ?thesis using wf(7) assms(3) by (simp add: frame_simps)
  qed
  moreover have "nr_free ?t < 2 ^ 32" by (simp add: frame_simps sub32_def)
  ultimately show ?thesis by (simp add: pmm_wf_def blocks_ok_append)
qed

lemma take_block_free_set:
  assumes "pmm_wf s (us @ x # vs)" and "0 < n" and "n \<le> psize s x"
  shows "free_set (take_block x n s) (us @ rest_of s x n @ vs) = free_set s (us @ x # vs) - {x ..< x + n}"
    and "{x ..< x + n} \<subseteq> free_set s (us @ x # vs)"
proof -
  let ?t = "take_block x n s"
  have ok: "blocks_ok s (us @ x # vs)" and small: "psize s x < 2 ^ 32"
    using assms(1) by (auto simp: pmm_wf_def)
  have us: "u \<noteq> x \<and> u \<noteq> x + n" if "u \<in> set us" for u
    using ok that by (fastforce simp: blocks_ok_append)
  have vs: "v \<noteq> x \<and> v \<noteq> x + n" if "v \<in> set vs" for v
    using ok that assms(3) by (fastforce simp: blocks_ok_append blocks_ok_Cons)
  have "free_set ?t us = free_set s us" "free_set ?t vs = free_set s vs"
    using us vs by (auto intro!: free_set_cong simp: frame_simps)
  moreover have "free_set ?t (rest_of s x n) = block s x - {x ..< x + n}"
    using small assms(3) by (auto simp: rest_of_def block_def frame_simps)
  moreover have "block s x \<inter> free_set s us = {}" "block s x \<inter> free_set s vs = {}"
    using blocks_ok_disjoint [OF ok] by auto
  moreover have sub: "{x ..< x + n} \<subseteq> block s x" using assms(3) by (auto simp: block_def)
  ultimately show "free_set ?t (us @ rest_of s x n @ vs) = free_set s (us @ x # vs) - {x ..< x + n}"
    by auto
  show "{x ..< x + n} \<subseteq> free_set s (us @ x # vs)" using sub by auto
qed

lemma find_split:
  "List.find P xs = Some x \<Longrightarrow> \<exists>us vs. xs = us @ x # vs \<and> P x \<and> (\<forall>u\<in>set us. \<not> P u)"
  by (induction xs) (force split: if_splits intro: exI [of _ "_ # _"])+

lemma default_alloc_pages_eq:
  assumes "npath (links s) FreeHead (map PageLink xs) FreeHead" and "0 < n"
  shows "default_alloc_pages n s =
    (if nr_free s < n then Some (None, s)
     else case List.find (\<lambda>p. n \<le> psize s p) xs of
        None \<Rightarrow> Some (None, s)
      | Some page \<Rightarrow> Some (Some page, take_block page n s))"
  using assms by (simp add: default_alloc_pages_def find_first_fit_npath)

section \<open>Freeing\<close>

lemma clear_descriptors_ok:
  assumes "\<forall>q. p \<le> q \<and> q < p + k \<longrightarrow> \<not> PageReserved q s \<and> \<not> PageProperty q s"
  shows "\<exists>t. clear_descriptors p k s = Some t \<and> links t = links s \<and> nr_free t = nr_free s \<and>
    (\<forall>q. psize t q = psize s q) \<and> (\<forall>q. PageProperty q t = PageProperty q s)"
  using assms
proof (induction k arbitrary: p s)
  case 0
  then show ?case by simp
next
  case (Suc k)
  let ?s = "set_page_ref p 0 (set_flags p 0 s)"
  have "\<exists>t. clear_descriptors (Suc p) k ?s = Some t \<and> links t = links ?s \<and> nr_free t = nr_free ?s \<and>
    (\<forall>q. psize t q = psize ?s q) \<and> (\<forall>q. PageProperty q t = PageProperty q ?s)"
    by (rule Suc.IH) (use Suc.prems in \<open>auto simp: frame_simps\<close>)
  then show ?case using Suc.prems by (auto simp: frame_simps)
qed

lemma mark_block_frames [frame_simps]:
  "psize (mark_block b n s) q = (if q = b then u32 n else psize s q)"
  "PageProperty q (mark_block b n s) \<longleftrightarrow> q = b \<or> PageProperty q s"
  "links (mark_block b n s) = links s"
  "nr_free (mark_block b n s) = u32 (nr_free s + n)"
  by (auto simp: mark_block_def Let_def frame_simps)

text \<open>
  \<open>semi s us b vs\<close>: the block \<open>b\<close> is linked between \<open>us\<close> and \<open>vs\<close> but may still touch its
  neighbours; \<open>left_done\<close> says the left neighbour has been dealt with.
\<close>

definition semi :: "pmm \<Rightarrow> bool \<Rightarrow> nat list \<Rightarrow> nat \<Rightarrow> nat list \<Rightarrow> bool" where
  "semi s left_done us b vs \<longleftrightarrow>
     dlist (links s) FreeHead (map PageLink (us @ b # vs)) \<and>
     blocks_ok s us \<and> blocks_ok s vs \<and> 0 < psize s b \<and> PageProperty b s \<and>
     (\<forall>u\<in>set us. if left_done then u + psize s u < b else u + psize s u \<le> b) \<and>
     (\<forall>v\<in>set vs. b + psize s b \<le> v) \<and>
     nr_free s = (\<Sum>p\<leftarrow>us @ b # vs. psize s p) \<and> nr_free s < 2 ^ 32"

lemma merge_prev_semi:
  assumes "semi s False us b vs"
  shows "\<exists>us' b' t. merge_prev b s = (b', t) \<and> semi t True us' b' vs \<and>
     free_set t (us' @ b' # vs) = free_set s (us @ b # vs)"
proof (cases us rule: rev_cases)
  case Nil
  then have "prv (links s) (PageLink b) = FreeHead"
    using assms by (simp add: semi_def dlist_def)
  then have "merge_prev b s = (b, s)" by (simp add: merge_prev_def)
  moreover have "semi s True us b vs" using assms Nil by (simp add: semi_def)
  ultimately show ?thesis by blast
next
  case (snoc ws u)
  have f: "dlist (links s) FreeHead (map PageLink (ws @ u # b # vs))" "blocks_ok s ws" "blocks_ok s vs"
    "0 < psize s u" "PageProperty u s" "0 < psize s b" "PageProperty b s"
    "\<forall>w\<in>set ws. w + psize s w < u" "u + psize s u \<le> b" "\<forall>v\<in>set vs. b + psize s b \<le> v"
    "nr_free s = (\<Sum>p\<leftarrow>ws @ u # b # vs. psize s p)" "nr_free s < 2 ^ 32"
    using assms snoc by (auto simp: semi_def blocks_ok_append blocks_ok_Cons)
  have pv: "prv (links s) (PageLink b) = PageLink u" using f(1) by (simp add: dlist_def)
  show ?thesis
  proof (cases "u + psize s u = b")
    case False
    then have "merge_prev b s = (b, s)" using pv by (simp add: merge_prev_def)
    moreover have "semi s True us b vs"
      using assms snoc False f by (fastforce simp: semi_def)
    ultimately show ?thesis by blast
  next
    case True
    let ?t = "(ClearPageProperty b (set_property u (psize s u + psize s b) s))
      \<lparr>links := list_del (PageLink b) (links s)\<rparr>"
    have eq: "merge_prev b s = (u, ?t)"
      using pv True by (simp add: merge_prev_def Let_def frame_simps)
    have small: "psize s u + psize s b < 2 ^ 32" using f(11,12) by simp
    have ne: "b \<noteq> u" using True f(4) by simp
    have ws: "w \<noteq> u \<and> w \<noteq> b" if "w \<in> set ws" for w using f(8,9) that by fastforce
    have vs: "v \<noteq> u \<and> v \<noteq> b" if "v \<in> set vs" for v using f(6,10) f(9) that by fastforce
    have sz: "psize ?t q = (if q = u then psize s u + psize s b else psize s q)" for q
      using small by (simp add: frame_simps)
    have pp: "PageProperty q ?t \<longleftrightarrow> q \<noteq> b \<and> PageProperty q s" for q
      by (simp add: frame_simps)
    have "dlist (links ?t) FreeHead (map PageLink (ws @ u # vs))"
      using f(1) list_del_mid [of "links s" FreeHead "map PageLink (ws @ [u])" "PageLink b" "map PageLink vs"]
      by simp
    moreover have "blocks_ok ?t ws" "blocks_ok ?t vs"
      using f(2,3) ws vs sz pp blocks_ok_cong [of ws ?t s] blocks_ok_cong [of vs ?t s] by auto
    moreover have "nr_free ?t = (\<Sum>p\<leftarrow>ws @ u # vs. psize ?t p)"
    proof -
      have "(\<Sum>p\<leftarrow>ws. psize ?t p) = (\<Sum>p\<leftarrow>ws. psize s p)"
        by (rule sum_prop_cong) (use ws sz in auto)
      moreover have "(\<Sum>p\<leftarrow>vs. psize ?t p) = (\<Sum>p\<leftarrow>vs. psize s p)"
        by (rule sum_prop_cong) (use vs sz in auto)
      ultimately show ?thesis using f(11) sz by (simp add: frame_simps)
    qed
    moreover have "nr_free ?t < 2 ^ 32" using f(12) by (simp add: frame_simps)
    moreover have "\<forall>w\<in>set ws. w + psize ?t w < u" using f(8) ws sz by auto
    moreover have "\<forall>v\<in>set vs. u + psize ?t u \<le> v" using f(10) sz True by auto
    ultimately have "semi ?t True ws u vs"
      using sz pp f(4,5) ne by (auto simp: semi_def)
    moreover have "free_set ?t (ws @ u # vs) = free_set s (us @ b # vs)"
    proof -
      have "free_set ?t ws = free_set s ws" "free_set ?t vs = free_set s vs"
        using ws vs sz by (auto intro!: free_set_cong)
      moreover have "block ?t u = block s u \<union> block s b" using sz True by (auto simp: block_def)
      ultimately show ?thesis using snoc by auto
    qed
    ultimately show ?thesis using eq by blast
  qed
qed

lemma merge_next_wf:
  assumes "semi s True us b vs"
  shows "\<exists>vs'. pmm_wf (merge_next b s) (us @ b # vs') \<and>
     free_set (merge_next b s) (us @ b # vs') = free_set s (us @ b # vs)"
proof (cases vs)
  case Nil
  then have "nxt (links s) (PageLink b) = FreeHead"
    using assms by (simp add: semi_def dlist_def)
  then have "merge_next b s = s" by (simp add: merge_next_def)
  moreover have "pmm_wf s (us @ b # vs)"
    using assms Nil by (auto simp: semi_def pmm_wf_def blocks_ok_append blocks_ok_Cons)
  ultimately show ?thesis by auto
next
  case (Cons v ws)
  have f: "dlist (links s) FreeHead (map PageLink (us @ b # v # ws))" "blocks_ok s us" "blocks_ok s ws"
    "0 < psize s v" "PageProperty v s" "0 < psize s b" "PageProperty b s"
    "\<forall>w\<in>set us. w + psize s w < b" "b + psize s b \<le> v" "\<forall>w\<in>set ws. v + psize s v < w"
    "nr_free s = (\<Sum>p\<leftarrow>us @ b # v # ws. psize s p)" "nr_free s < 2 ^ 32"
    using assms Cons by (auto simp: semi_def blocks_ok_Cons)
  have nx: "nxt (links s) (PageLink b) = PageLink v" using f(1) by (simp add: dlist_def)
  show ?thesis
  proof (cases "b + psize s b = v")
    case False
    then have "merge_next b s = s" using nx by (simp add: merge_next_def)
    moreover have "pmm_wf s (us @ b # vs)"
      using f Cons False by (fastforce simp: pmm_wf_def blocks_ok_append blocks_ok_Cons)
    ultimately show ?thesis by auto
  next
    case True
    let ?t = "(ClearPageProperty v (set_property b (psize s b + psize s v) s))
      \<lparr>links := list_del (PageLink v) (links s)\<rparr>"
    have eq: "merge_next b s = ?t"
      using nx True by (simp add: merge_next_def Let_def frame_simps)
    have small: "psize s b + psize s v < 2 ^ 32" using f(11,12) by simp
    have us: "w \<noteq> b \<and> w \<noteq> v" if "w \<in> set us" for w using f(8,9) that by fastforce
    have ws: "w \<noteq> b \<and> w \<noteq> v" if "w \<in> set ws" for w using f(9,10) that by fastforce
    have sz: "psize ?t q = (if q = b then psize s b + psize s v else psize s q)" for q
      using small by (simp add: frame_simps)
    have pp: "PageProperty q ?t \<longleftrightarrow> q \<noteq> v \<and> PageProperty q s" for q
      by (simp add: frame_simps)
    have "dlist (links ?t) FreeHead (map PageLink (us @ b # ws))"
      using f(1) list_del_mid [of "links s" FreeHead "map PageLink (us @ [b])" "PageLink v" "map PageLink ws"]
      by simp
    moreover have "blocks_ok ?t us" "blocks_ok ?t ws"
      using f(2,3) ws us sz pp blocks_ok_cong [of us ?t s] blocks_ok_cong [of ws ?t s] by auto
    moreover have "nr_free ?t = (\<Sum>p\<leftarrow>us @ b # ws. psize ?t p)"
    proof -
      have "(\<Sum>p\<leftarrow>us. psize ?t p) = (\<Sum>p\<leftarrow>us. psize s p)"
        by (rule sum_prop_cong) (use us sz in auto)
      moreover have "(\<Sum>p\<leftarrow>ws. psize ?t p) = (\<Sum>p\<leftarrow>ws. psize s p)"
        by (rule sum_prop_cong) (use ws sz in auto)
      ultimately show ?thesis using f(11) sz by (simp add: frame_simps)
    qed
    moreover have "nr_free ?t < 2 ^ 32" using f(12) by (simp add: frame_simps)
    moreover have "\<forall>w\<in>set us. w + psize ?t w < b" using f(8) us sz by auto
    moreover have "\<forall>w\<in>set ws. b + psize ?t b < w" using f(10) sz True by auto
    moreover have "0 < psize ?t b \<and> PageProperty b ?t" using sz pp f(4,6,7) True by auto
    ultimately have "pmm_wf ?t (us @ b # ws)"
      using us ws sz by (fastforce simp: pmm_wf_def blocks_ok_append blocks_ok_Cons)
    moreover have "free_set ?t (us @ b # ws) = free_set s (us @ b # vs)"
    proof -
      have "free_set ?t us = free_set s us" "free_set ?t ws = free_set s ws"
        using ws us sz by (auto intro!: free_set_cong)
      moreover have "block ?t b = block s b \<union> block s v" using sz True by (auto simp: block_def)
      ultimately show ?thesis using Cons by auto
    qed
    ultimately show ?thesis using eq by auto
  qed
qed

text \<open>
  The pages \<open>[base, base + n)\<close> may be freed: none of them is reserved, heads a free block or
  belongs to one, and the counter has room.
\<close>

definition freeable :: "pmm \<Rightarrow> nat list \<Rightarrow> nat \<Rightarrow> nat \<Rightarrow> bool" where
  "freeable s xs base n \<longleftrightarrow>
     0 < n \<and> nr_free s + n < 2 ^ 32 \<and> {base ..< base + n} \<inter> free_set s xs = {} \<and>
     list_all (\<lambda>q. \<not> PageReserved q s \<and> \<not> PageProperty q s) [base ..< base + n]"

text \<open>The list splits around a freeable block.\<close>

lemma freeable_split:
  assumes "blocks_ok s xs" and "{base ..< base + n} \<inter> free_set s xs = {}" and "0 < n"
  shows "\<exists>us vs. xs = us @ vs \<and> (\<forall>u\<in>set us. u < base \<and> u + psize s u \<le> base) \<and>
     (\<forall>v\<in>set vs. base < v \<and> base + n \<le> v)"
  using assms
proof (induction xs)
  case Nil
  then show ?case by simp
next
  case (Cons x xs)
  then have IH: "\<exists>us vs. xs = us @ vs \<and> (\<forall>u\<in>set us. u < base \<and> u + psize s u \<le> base) \<and>
     (\<forall>v\<in>set vs. base < v \<and> base + n \<le> v)"
    by (auto simp: blocks_ok_Cons)
  have x: "0 < psize s x" "\<forall>y\<in>set xs. x + psize s x < y" using Cons.prems by (auto simp: blocks_ok_Cons)
  have disj: "{base ..< base + n} \<inter> {x ..< x + psize s x} = {}"
    using Cons.prems(2) unfolding free_set_Cons block_def by blast
  have "x \<in> {x ..< x + psize s x}" "base \<in> {base ..< base + n}" using x(1) Cons.prems(3) by auto
  then have xb: "x \<notin> {base ..< base + n}" "base \<notin> {x ..< x + psize s x}" using disj by blast+
  show ?case
  proof (cases "x < base")
    case True
    then have "x + psize s x \<le> base" using xb by auto
    with IH True show ?thesis by (metis append_Cons set_ConsD)
  next
    case False
    then have "base + n \<le> x" "base < x" using xb Cons.prems(3) by auto
    then have "\<forall>v\<in>set (x # xs). base < v \<and> base + n \<le> v" using x(2) by fastforce
    then show ?thesis by (metis append_Nil empty_iff empty_set)
  qed
qed

lemma link_block_semi:
  assumes wf: "pmm_wf s (us @ vs)" and "0 < n" "nr_free s + n < 2 ^ 32"
    and us: "\<forall>u\<in>set us. u < base \<and> u + psize s u \<le> base"
    and vs: "\<forall>v\<in>set vs. base < v \<and> base + n \<le> v"
    and pos: "us = [] \<or> vs \<noteq> []"
    and t: "links t = links s" "nr_free t = nr_free s" "\<forall>q. psize t q = psize s q"
      "\<forall>q. PageProperty q t = PageProperty q s"
  shows "\<exists>t'. link_block base (mark_block base n t) = Some t' \<and> semi t' False us base vs \<and>
     free_set t' (us @ base # vs) = free_set s (us @ vs) \<union> {base ..< base + n}"
proof -
  let ?m = "mark_block base n t"
  have d: "dlist (links s) FreeHead (map PageLink us @ map PageLink vs)" "blocks_ok s us" "blocks_ok s vs"
    "nr_free s = (\<Sum>p\<leftarrow>us @ vs. psize s p)"
    using wf by (auto simp: pmm_wf_def blocks_ok_append)
  have fresh: "base \<notin> set us \<union> set vs" using us vs by fastforce
  have "\<exists>h. link_block base ?m = Some (?m\<lparr>links := h\<rparr>) \<and>
      dlist h FreeHead (map PageLink (us @ base # vs))"
  proof (cases vs)
    case Nil
    with pos have "us = []" by simp
    with Nil d(1) have "dlist (list_add FreeHead (PageLink base) (links s)) FreeHead [PageLink base]"
      "list_empty FreeHead (links s)"
      by (auto intro!: list_add_head simp: list_empty_dlist)
    then show ?thesis using Nil \<open>us = []\<close> t(1)
      by (intro exI [of _ "list_add FreeHead (PageLink base) (links s)"])
        (simp add: link_block_def frame_simps)
  next
    case (Cons v ws)
    have "insert_loop base FreeHead (links s) = Some (list_add_before (PageLink v) (PageLink base) (links s))"
      using d(1) us vs Cons by (intro insert_loop_before [where us = us and vs = ws])
        (auto dest!: dlist_npath)
    moreover have "\<not> list_empty FreeHead (links s)"
      using d(1) Cons by (simp add: list_empty_dlist)
    moreover have "dlist (list_add_before (PageLink v) (PageLink base) (links s)) FreeHead
        (map PageLink (us @ base # vs))"
      using d(1) fresh Cons list_add_before_mid [of "links s" FreeHead "map PageLink us" "PageLink v"
          "map PageLink ws" "PageLink base"] by auto
    ultimately show ?thesis using t(1)
      by (intro exI [of _ "list_add_before (PageLink v) (PageLink base) (links s)"])
        (simp add: link_block_def frame_simps)
  qed
  then obtain h where h: "link_block base ?m = Some (?m\<lparr>links := h\<rparr>)"
    "dlist h FreeHead (map PageLink (us @ base # vs))" by blast
  let ?t = "?m\<lparr>links := h\<rparr>"
  have n32: "n < 2 ^ 32" using assms(3) by simp
  have sz: "psize ?t q = (if q = base then n else psize s q)" for q
    using t(3) n32 by (simp add: frame_simps)
  have pp: "PageProperty q ?t \<longleftrightarrow> q = base \<or> PageProperty q s" for q
    using t(4) by (simp add: frame_simps)
  have keep: "psize ?t q = psize s q" if "q \<in> set us \<union> set vs" for q using sz fresh that by auto
  have "blocks_ok ?t us" "blocks_ok ?t vs"
    using d(2,3) keep pp fresh blocks_ok_cong [of us ?t s] blocks_ok_cong [of vs ?t s] by auto
  moreover have "nr_free ?t = (\<Sum>p\<leftarrow>us @ base # vs. psize ?t p)"
  proof -
    have "(\<Sum>p\<leftarrow>us. psize ?t p) = (\<Sum>p\<leftarrow>us. psize s p)" "(\<Sum>p\<leftarrow>vs. psize ?t p) = (\<Sum>p\<leftarrow>vs. psize s p)"
      using keep by (auto intro!: sum_prop_cong)
    then show ?thesis using d(4) sz t(2) assms(3) by (simp add: frame_simps)
  qed
  moreover have "nr_free ?t < 2 ^ 32" using t(2) by (simp add: frame_simps)
  ultimately have "semi ?t False us base vs"
    using h(2) sz pp us vs keep assms(2) by (auto simp: semi_def)
  moreover have "free_set ?t (us @ base # vs) = free_set s (us @ vs) \<union> {base ..< base + n}"
  proof -
    have "free_set ?t us = free_set s us" "free_set ?t vs = free_set s vs"
      using keep by (auto intro!: free_set_cong)
    moreover have "block ?t base = {base ..< base + n}" using sz by (simp add: block_def)
    ultimately show ?thesis by auto
  qed
  ultimately show ?thesis using h(1) by blast
qed

text \<open>
  Freeing is right as long as the freed block does not become the last of a non-empty list.
\<close>

lemma default_free_pages_wf:
  assumes wf: "pmm_wf s xs" and fr: "freeable s xs base n"
    and pos: "xs = [] \<or> (\<exists>x\<in>set xs. base < x)"
  shows "\<exists>t ys. default_free_pages base n s = Some t \<and> pmm_wf t ys \<and>
     free_set t ys = free_set s xs \<union> {base ..< base + n}"
proof -
  have f: "0 < n" "nr_free s + n < 2 ^ 32" "{base ..< base + n} \<inter> free_set s xs = {}"
    "\<forall>q. base \<le> q \<and> q < base + n \<longrightarrow> \<not> PageReserved q s \<and> \<not> PageProperty q s"
    using fr by (auto simp: freeable_def list_all_iff)
  have "blocks_ok s xs" using wf by (simp add: pmm_wf_def)
  then obtain us vs where xs: "xs = us @ vs" "\<forall>u\<in>set us. u < base \<and> u + psize s u \<le> base"
    "\<forall>v\<in>set vs. base < v \<and> base + n \<le> v" using freeable_split [OF _ f(3,1)] by blast
  with pos have pos': "us = [] \<or> vs \<noteq> []" by fastforce
  obtain t1 where t1: "clear_descriptors base n s = Some t1" "links t1 = links s" "nr_free t1 = nr_free s"
    "\<forall>q. psize t1 q = psize s q" "\<forall>q. PageProperty q t1 = PageProperty q s"
    using clear_descriptors_ok [OF f(4)] by blast
  obtain t2 where t2: "link_block base (mark_block base n t1) = Some t2" "semi t2 False us base vs"
    "free_set t2 (us @ base # vs) = free_set s (us @ vs) \<union> {base ..< base + n}"
    using link_block_semi [OF wf [unfolded xs(1)] f(1,2) xs(2,3) pos' t1(2-5)] by blast
  obtain us' b t3 where t3: "merge_prev base t2 = (b, t3)" "semi t3 True us' b vs"
    "free_set t3 (us' @ b # vs) = free_set t2 (us @ base # vs)"
    using merge_prev_semi [OF t2(2)] by blast
  obtain vs' where "pmm_wf (merge_next b t3) (us' @ b # vs')"
    "free_set (merge_next b t3) (us' @ b # vs') = free_set t3 (us' @ b # vs)"
    using merge_next_wf [OF t3(2)] by blast
  moreover have "default_free_pages base n s = Some (merge_next b t3)"
    using f(1) t1(1) t2(1) t3(1) by (simp add: default_free_pages_def)
  ultimately show ?thesis using t3(3) t2(3) xs(1) by auto
qed

section \<open>Freeing behind the last free block\<close>

lemma free_at_tail:
  assumes wf: "pmm_wf s xs" and fr: "freeable s xs base n"
    and ne: "xs \<noteq> []" and tail: "\<forall>x\<in>set xs. x < base"
  shows "\<exists>t. default_free_pages base n s = Some t \<and>
     npath (links t) FreeHead (map PageLink (xs @ [base])) FreeHead \<and>
     prv (links t) (PageLink base) = PageLink base \<and>
     (\<forall>q. psize t q = (if q = base then n else psize s q)) \<and> nr_free t = nr_free s + n"
proof -
  have f: "0 < n" "nr_free s + n < 2 ^ 32"
    "\<forall>q. base \<le> q \<and> q < base + n \<longrightarrow> \<not> PageReserved q s \<and> \<not> PageProperty q s"
    using fr by (auto simp: freeable_def list_all_iff)
  obtain t1 where t1: "clear_descriptors base n s = Some t1" "links t1 = links s" "nr_free t1 = nr_free s"
    "\<forall>q. psize t1 q = psize s q" "\<forall>q. PageProperty q t1 = PageProperty q s"
    using clear_descriptors_ok [OF f(3)] by blast
  let ?B = "PageLink base" and ?L = "PageLink (last xs)"
  let ?h = "list_add ?B ?B (list_add ?L ?B (links s))"
  let ?t = "(mark_block base n t1)\<lparr>links := ?h\<rparr>"
  have np: "npath (links s) FreeHead (map PageLink xs) FreeHead"
    using wf by (simp add: pmm_wf_def dlist_npath)
  have "insert_loop base FreeHead (links s) = Some ?h"
    by (rule insert_loop_end) (use np ne tail in auto)
  moreover have "\<not> list_empty FreeHead (links s)"
    using list_empty_dlist [OF pmm_wf_dlist [OF wf]] ne by simp
  ultimately have lb: "link_block base (mark_block base n t1) = Some ?t"
    using t1(2) by (simp add: link_block_def frame_simps)
  obtain ws l where xs: "xs = ws @ [l]" using ne by (metis append_butlast_last_id)
  then have lx: "last xs = l" "l < base" "l \<notin> set ws" using tail wf
    by (auto simp: pmm_wf_def blocks_ok_append)
  have last: "nxt (links s) ?L = FreeHead" using np xs lx by simp
  have hB: "nxt ?h ?B = FreeHead" "prv ?h ?B = ?B" "nxt ?h ?L = ?B"
    using last lx by (auto simp: list_add_def list_add_after_def link_reads)
  have hx: "nxt ?h u = nxt (links s) u" if "u \<notin> {?B, ?L}" for u
    using that by (auto simp: list_add_def list_add_after_def link_reads)
  have "npath ?h FreeHead (map PageLink ws) (PageLink l)"
  proof (rule npath_cong [THEN iffD1])
    show "npath (links s) FreeHead (map PageLink ws) (PageLink l)" using np xs by simp
    fix u assume "u \<in> insert FreeHead (set (map PageLink ws))"
    then have "u \<notin> {?B, ?L}" using lx tail xs by auto
    then show "nxt (links s) u = nxt ?h u" by (rule hx [symmetric])
  qed
  then have path: "npath ?h FreeHead (map PageLink (xs @ [base])) FreeHead"
    using xs hB lx by simp
  have "merge_prev base ?t = (base, ?t)"
    using hB(2) f by (simp add: merge_prev_def frame_simps)
  moreover have "merge_next base ?t = ?t" using hB(1) by (simp add: merge_next_def)
  ultimately have "default_free_pages base n s = Some ?t"
    using f(1) t1(1) lb by (simp add: default_free_pages_def)
  then show ?thesis using path hB(2) t1(3,4) f(2) by (auto simp: frame_simps)
qed

lemma take_self_linked:
  assumes "npath (links t) FreeHead (map PageLink (xs @ [base])) FreeHead"
    and "prv (links t) (PageLink base) = PageLink base"
    and "\<forall>x\<in>set xs. x < base" and "0 < m"
  shows "npath (links (take_block base m t)) FreeHead
    (map PageLink (xs @ base # rest_of t base m)) FreeHead"
proof -
  let ?h = "links (take_block base m t)"
  have n: "nxt (links t) (PageLink base) = FreeHead" using assms(1) by simp
  have h: "nxt ?h u = (if u = PageLink base \<and> m < psize t base then PageLink (base + m)
      else if u = PageLink (base + m) \<and> m < psize t base then FreeHead else nxt (links t) u)" for u
    using assms(2,4) n
    by (auto simp: links_take_block list_del_def list_add_def list_add_after_def link_reads)
  have "npath ?h FreeHead (map PageLink xs) (PageLink base)"
    by (rule npath_cong [THEN iffD1, OF _ ]) (use assms(1,3) h in \<open>fastforce+\<close>)
  then show ?thesis using h n assms(4) by (auto simp: rest_of_def)
qed

section \<open>A small free area, for the witnesses\<close>

definition demo_area :: pmm where
  "demo_area =
     \<lparr>pages = (\<lambda>_. \<lparr>pg_ref = 0, flags = 0, property = 0\<rparr>)
        (0 := \<lparr>pg_ref = 0, flags = 2, property = 1\<rparr>, 8 := \<lparr>pg_ref = 0, flags = 2, property = 4\<rparr>),
      links = \<lparr>prv = (\<lambda>_. PageLink 8)(PageLink 0 := FreeHead, PageLink 8 := PageLink 0),
              nxt = (\<lambda>_. PageLink 0)(PageLink 0 := PageLink 8, PageLink 8 := FreeHead)\<rparr>,
      nr_free = 5\<rparr>"

lemma demo_flag: "bit (2 :: 64 word) (Suc 0)" "\<not> bit (2 :: 64 word) 0"
  by simp_all

lemma demo_PageProperty: "PageProperty q demo_area \<longleftrightarrow> q = 0 \<or> q = 8"
  by (simp add: PageProperty_def PG_property_def demo_area_def)

lemma demo_PageReserved: "\<not> PageReserved q demo_area"
  by (simp add: PageReserved_def PG_reserved_def demo_area_def)

lemma demo_psize: "psize demo_area q = (if q = 0 then 1 else if q = 8 then 4 else 0)"
  by (simp add: demo_area_def)

lemma demo_nr_free: "nr_free demo_area = 5"
  by (simp add: demo_area_def)

lemma demo_wf: "pmm_wf demo_area [0, 8]"
  by (auto simp: pmm_wf_def blocks_ok_Cons demo_psize demo_PageProperty dlist_def)
    (simp_all add: demo_area_def)

lemma demo_freeable:
  "{b ..< b + n} \<inter> {0, 8, 9, 10, 11} = {} \<Longrightarrow> 0 < n \<Longrightarrow> n < 100 \<Longrightarrow> freeable demo_area [0, 8] b n"
  by (auto simp: freeable_def free_set_def block_def demo_psize demo_PageProperty demo_PageReserved
      list_all_iff demo_nr_free)

section \<open>Properties\<close>

lemma first_fit_alloc_facts:
  assumes "pmm_wf s xs" and "0 < n"
  shows "case List.find (\<lambda>p. n \<le> psize s p) xs of
      None \<Rightarrow> default_alloc_pages n s = Some (None, s)
    | Some x \<Rightarrow> \<exists>t ys. default_alloc_pages n s = Some (Some x, t) \<and> pmm_wf t ys \<and>
        {x ..< x + n} \<subseteq> free_set s xs \<and> free_set t ys = free_set s xs - {x ..< x + n}"
proof -
  have np: "npath (links s) FreeHead (map PageLink xs) FreeHead"
    using assms(1) by (simp add: pmm_wf_def dlist_npath)
  show ?thesis
  proof (cases "List.find (\<lambda>p. n \<le> psize s p) xs")
    case None
    then show ?thesis using default_alloc_pages_eq [OF np assms(2)] by simp
  next
    case (Some x)
    then obtain us vs where xs: "xs = us @ x # vs" "n \<le> psize s x" by (metis find_split)
    then have "\<not> nr_free s < n" using prop_le_nr_free [OF assms(1), of x] by auto
    then have "default_alloc_pages n s = Some (Some x, take_block x n s)"
      using default_alloc_pages_eq [OF np assms(2)] Some by simp
    then show ?thesis
      using Some take_block_wf [of s us x vs n] take_block_free_set [of s us x vs n] assms xs by auto
  qed
qed

text \<open>
  C1: \<^verbatim>\<open>default_alloc_pages\<close> is first fit and total on a well-formed free area: it returns the first
  block in address order that has at least \<open>n\<close> pages, takes exactly its first \<open>n\<close> pages out of the
  free set (they were all free) and leaves the area well formed; when no block is large enough it
  returns NULL and changes nothing.
\<close>

theorem first_fit_alloc_correct:
  assumes "pmm_wf s xs" and "0 < n"
  shows "case List.find (\<lambda>p. n \<le> psize s p) xs of
      None \<Rightarrow> default_alloc_pages n s = Some (None, s)
    | Some x \<Rightarrow> \<exists>t ys. default_alloc_pages n s = Some (Some x, t) \<and> pmm_wf t ys \<and>
        {x ..< x + n} \<subseteq> free_set s xs \<and> free_set t ys = free_set s xs - {x ..< x + n}"
  by (rule first_fit_alloc_facts [OF assms])

theorem first_fit_alloc_correct_witness:
  "\<exists>t ys. default_alloc_pages 3 demo_area = Some (Some 8, t) \<and> pmm_wf t ys \<and>
     free_set t ys = free_set demo_area [0, 8] - {8 ..< 11}"
  using first_fit_alloc_correct [OF demo_wf, of 3] by (simp add: demo_psize) blast

text \<open>
  C2: \<^verbatim>\<open>default_free_pages\<close> gives back exactly the pages \<open>[base, base + n)\<close>, merges them with both
  neighbours (no two adjacent free blocks remain) and keeps the area well formed, whenever the free
  list is empty or the freed block lies below some free block.
\<close>

theorem first_fit_free_correct:
  assumes "pmm_wf s xs" and "freeable s xs base n" and "xs = [] \<or> (\<exists>x\<in>set xs. base < x)"
  shows "\<exists>t ys. default_free_pages base n s = Some t \<and> pmm_wf t ys \<and>
     free_set t ys = free_set s xs \<union> {base ..< base + n}"
  using assms by (rule default_free_pages_wf)

theorem first_fit_free_correct_witness:
  "\<exists>t ys. default_free_pages 1 7 demo_area = Some t \<and> pmm_wf t ys \<and>
     free_set t ys = free_set demo_area [0, 8] \<union> {1 ..< 1 + 7}"
  by (rule first_fit_free_correct [OF demo_wf demo_freeable]) auto

text \<open>
  C3: freeing a block that lies above every free block breaks the list.  The insertion loop links
  the block a second time, after itself: the block's \<^verbatim>\<open>prev\<close> points to itself, it is not merged with
  the free block that ends where it starts, and the doubly linked list is no longer one.
\<close>

theorem first_fit_free_tail_breaks_list:
  assumes "pmm_wf s xs" and "freeable s xs base n" and "xs \<noteq> []" and "\<forall>x\<in>set xs. x < base"
  shows "\<exists>t. default_free_pages base n s = Some t \<and> prv (links t) (PageLink base) = PageLink base \<and>
     psize t (last xs) = psize s (last xs) \<and> (\<nexists>ys. dlist (links t) FreeHead ys)"
proof -
  obtain t where t: "default_free_pages base n s = Some t"
    "npath (links t) FreeHead (map PageLink (xs @ [base])) FreeHead"
    "prv (links t) (PageLink base) = PageLink base" "\<forall>q. psize t q = (if q = base then n else psize s q)"
    using free_at_tail [OF assms] by blast
  have "\<not> dlist (links t) FreeHead ys" for ys
  proof
    assume d: "dlist (links t) FreeHead ys"
    then have "npath (links t) FreeHead ys FreeHead" "FreeHead \<notin> set ys"
      by (auto simp: dlist_npath dlist_def)
    then have "ys = map PageLink xs @ [PageLink base]"
      using t(2) by (auto intro: npath_unique)
    with d have "prv (links t) (PageLink base) = last (FreeHead # map PageLink xs)"
      using dlist_prev_mid by fastforce
    with t(3) assms(3,4) show False by (auto simp: last_map)
  qed
  then show ?thesis using t assms(3,4) by (metis last_in_set order_less_irrefl)
qed

theorem first_fit_free_tail_breaks_list_witness:
  "\<exists>t. default_free_pages 12 4 demo_area = Some t \<and> prv (links t) (PageLink 12) = PageLink 12 \<and>
     psize t 8 = 4 \<and> (\<nexists>ys. dlist (links t) FreeHead ys)"
  using first_fit_free_tail_breaks_list [OF demo_wf demo_freeable, of 12 4] by (auto simp: demo_psize)

text \<open>
  The broken list makes the allocator hand out the same pages twice.  After freeing \<open>n\<close> pages at
  \<open>base\<close> above all free blocks, two allocations of \<open>m \<le> n\<close> pages that fit no other block both return
  \<open>base\<close>.
\<close>

theorem first_fit_double_allocation:
  assumes "pmm_wf s xs" and "freeable s xs base n" and "xs \<noteq> []" and "\<forall>x\<in>set xs. x < base"
    and "\<forall>x\<in>set xs. psize s x < m" and "0 < m" and "m \<le> n" and "2 * m \<le> nr_free s + n"
  shows "\<exists>t t1 t2. default_free_pages base n s = Some t \<and>
     default_alloc_pages m t = Some (Some base, t1) \<and> default_alloc_pages m t1 = Some (Some base, t2)"
proof -
  obtain t where t: "default_free_pages base n s = Some t"
    "npath (links t) FreeHead (map PageLink (xs @ [base])) FreeHead"
    "prv (links t) (PageLink base) = PageLink base" "\<forall>q. psize t q = (if q = base then n else psize s q)"
    "nr_free t = nr_free s + n"
    using free_at_tail [OF assms(1-4)] by blast
  let ?t1 = "take_block base m t"
  have skip: "List.find (\<lambda>p. m \<le> psize u p) (xs @ base # zs) = Some base"
    if "\<forall>x\<in>set xs. psize u x = psize s x" "psize u base = n" for u zs
    using assms(5,7) that by (induction xs) auto
  have xs: "x \<noteq> base \<and> x \<noteq> base + m" if "x \<in> set xs" for x using assms(4) that by fastforce
  have "\<forall>x\<in>set xs. psize t x = psize s x" "psize t base = n" using t(4) xs by auto
  then have "default_alloc_pages m t = Some (Some base, ?t1)"
    using default_alloc_pages_eq [OF t(2) assms(6)] skip [of t "[]"] assms(8) t(5) by simp
  moreover have "npath (links ?t1) FreeHead (map PageLink (xs @ base # rest_of t base m)) FreeHead"
    by (rule take_self_linked [OF t(2,3) assms(4,6)])
  moreover have "\<forall>x\<in>set xs. psize ?t1 x = psize s x" "psize ?t1 base = n"
    using t(4) xs assms(6) by (auto simp: frame_simps)
  moreover have "nr_free ?t1 = nr_free s + n - m"
    using t(5) assms(2,7) by (simp add: frame_simps sub32_le freeable_def)
  ultimately have "default_alloc_pages m ?t1 = Some (Some base, take_block base m ?t1)"
    using default_alloc_pages_eq [of ?t1 "xs @ base # rest_of t base m", OF _ assms(6)]
      skip [of ?t1 "rest_of t base m"] assms(8) by simp
  then show ?thesis using t(1) \<open>default_alloc_pages m t = Some (Some base, ?t1)\<close> by blast
qed

theorem first_fit_double_allocation_witness:
  "\<exists>t t1 t2. default_free_pages 20 10 demo_area = Some t \<and>
     default_alloc_pages 5 t = Some (Some 20, t1) \<and> default_alloc_pages 5 t1 = Some (Some 20, t2)"
proof (rule first_fit_double_allocation [OF demo_wf demo_freeable])
  show "2 * 5 \<le> nr_free demo_area + 10" by (simp add: demo_area_def)
qed (simp_all add: demo_psize)

end
