(* ===== verification/BestFit.thy ===== *)
theory BestFit
  imports FirstFit
begin

text \<open>
  The best-fit manager, \<^verbatim>\<open>kern/mm/best_fit_pmm.c\<close>.  The file repeats the first-fit manager except
  for the search of \<^verbatim>\<open>best_fit_alloc_pages\<close>; the model uses the definitions of \<open>FirstFit\<close> for the
  repeated statements, so that their lemmas apply.
\<close>

section \<open>The manager\<close>

definition best_fit_init :: "pmm \<Rightarrow> pmm" where
  "best_fit_init s = s\<lparr>links := list_init FreeHead (links s), nr_free := 0\<rparr>"

definition best_fit_init_memmap :: "nat \<Rightarrow> nat \<Rightarrow> pmm \<Rightarrow> pmm option" where
  "best_fit_init_memmap base n s =
     do {
       assertc (0 < n);
       s1 \<leftarrow> init_descriptors base n s;
       link_block base (mark_block base n s1)
     }"

text \<open>
  The search loop: \<open>page\<close> and \<open>min_size\<close> are the best block so far and its size.
\<close>

partial_function (option) best_fit_scan ::
    "nat \<Rightarrow> lnode \<Rightarrow> nat option \<Rightarrow> nat \<Rightarrow> pmm \<Rightarrow> nat option option" where
  "best_fit_scan n le page min_size s =
     (case nxt (links s) le of
        FreeHead \<Rightarrow> Some page
      | PageLink p \<Rightarrow>
          if n \<le> psize s p \<and> psize s p < min_size
          then best_fit_scan n (PageLink p) (Some p) (psize s p) s
          else best_fit_scan n (PageLink p) page min_size s)"

definition best_fit_alloc_pages :: "nat \<Rightarrow> pmm \<Rightarrow> (nat option \<times> pmm) option" where
  "best_fit_alloc_pages n s =
     do {
       assertc (0 < n);
       if nr_free s < n then Some (None, s)
       else do {
         found \<leftarrow> best_fit_scan n FreeHead None (u32 (nr_free s + 1)) s;
         case found of
           None \<Rightarrow> Some (None, s)
         | Some page \<Rightarrow> Some (Some page, take_block page n s)
       }
     }"

definition best_fit_free_pages :: "nat \<Rightarrow> nat \<Rightarrow> pmm \<Rightarrow> pmm option" where
  "best_fit_free_pages base n s =
     do {
       assertc (0 < n);
       s1 \<leftarrow> clear_descriptors base n s;
       s2 \<leftarrow> link_block base (mark_block base n s1);
       case merge_prev base s2 of (b, s3) \<Rightarrow> Some (merge_next b s3)
     }"

definition best_fit_nr_free_pages :: "pmm \<Rightarrow> nat" where
  "best_fit_nr_free_pages s = nr_free s"

section \<open>The search\<close>

fun best_of :: "(nat \<Rightarrow> nat) \<Rightarrow> nat \<Rightarrow> nat option \<Rightarrow> nat \<Rightarrow> nat list \<Rightarrow> nat option" where
  "best_of sz n page m [] = page"
| "best_of sz n page m (x # xs) =
     (if n \<le> sz x \<and> sz x < m then best_of sz n (Some x) (sz x) xs else best_of sz n page m xs)"

lemma best_fit_scan_npath:
  "npath (links s) le (map PageLink xs) FreeHead \<Longrightarrow>
   best_fit_scan n le page m s = Some (best_of (psize s) n page m xs)"
proof (induction xs arbitrary: le page m)
  case Nil
  then show ?case by (simp add: best_fit_scan.simps)
next
  case (Cons x xs)
  then show ?case by (subst best_fit_scan.simps) simp
qed

text \<open>The accumulator is kept or replaced by the first smallest block below \<open>m\<close> that fits.\<close>

lemma best_of_cases:
  "best_of sz n page m xs = page \<and> (\<forall>y\<in>set xs. n \<le> sz y \<longrightarrow> m \<le> sz y) \<or>
   (\<exists>us x vs. xs = us @ x # vs \<and> best_of sz n page m xs = Some x \<and> n \<le> sz x \<and> sz x < m \<and>
      (\<forall>y\<in>set xs. n \<le> sz y \<longrightarrow> sz x \<le> sz y) \<and> (\<forall>y\<in>set us. n \<le> sz y \<longrightarrow> sz x < sz y))"
proof (induction xs arbitrary: page m)
  case Nil
  then show ?case by simp
next
  case (Cons x xs)
  show ?case
  proof (cases "n \<le> sz x \<and> sz x < m")
    case True
    from Cons.IH [of "Some x" "sz x"] show ?thesis
    proof (elim disjE exE conjE)
      assume "best_of sz n (Some x) (sz x) xs = Some x" "\<forall>y\<in>set xs. n \<le> sz y \<longrightarrow> sz x \<le> sz y"
      then show ?thesis using True by (intro disjI2 exI [of _ "[]"] exI [of _ x] exI [of _ xs]) auto
    next
      fix us z vs
      assume "xs = us @ z # vs" "best_of sz n (Some x) (sz x) xs = Some z" "n \<le> sz z" "sz z < sz x"
        "\<forall>y\<in>set xs. n \<le> sz y \<longrightarrow> sz z \<le> sz y" "\<forall>y\<in>set us. n \<le> sz y \<longrightarrow> sz z < sz y"
      then show ?thesis using True
        by (intro disjI2 exI [of _ "x # us"] exI [of _ z] exI [of _ vs]) auto
    qed
  next
    case False
    from Cons.IH [of page m] show ?thesis
    proof (elim disjE exE conjE)
      assume "best_of sz n page m xs = page" "\<forall>y\<in>set xs. n \<le> sz y \<longrightarrow> m \<le> sz y"
      then show ?thesis using False by auto
    next
      fix us z vs
      assume "xs = us @ z # vs" "best_of sz n page m xs = Some z" "n \<le> sz z" "sz z < m"
        "\<forall>y\<in>set xs. n \<le> sz y \<longrightarrow> sz z \<le> sz y" "\<forall>y\<in>set us. n \<le> sz y \<longrightarrow> sz z < sz y"
      then show ?thesis using False
        by (intro disjI2 exI [of _ "x # us"] exI [of _ z] exI [of _ vs]) auto
    qed
  qed
qed

lemma best_fit_free_pages_eq: "best_fit_free_pages = default_free_pages"
  by (intro ext) (simp add: best_fit_free_pages_def default_free_pages_def)

section \<open>Properties\<close>

text \<open>
  C4: \<^verbatim>\<open>best_fit_alloc_pages\<close> returns a smallest free block that has at least \<open>n\<close> pages, the first of
  them in address order, takes exactly its first \<open>n\<close> pages and keeps the area well formed; it
  returns NULL, changing nothing, exactly when no block is large enough.
\<close>

theorem best_fit_alloc_correct:
  assumes "pmm_wf s xs" and "0 < n" and "nr_free s + 1 < 2 ^ 32"
  shows "(\<forall>x\<in>set xs. psize s x < n) \<and> best_fit_alloc_pages n s = Some (None, s) \<or>
    (\<exists>us x vs t ys. xs = us @ x # vs \<and> n \<le> psize s x \<and>
       (\<forall>y\<in>set xs. n \<le> psize s y \<longrightarrow> psize s x \<le> psize s y) \<and>
       (\<forall>y\<in>set us. n \<le> psize s y \<longrightarrow> psize s x < psize s y) \<and>
       best_fit_alloc_pages n s = Some (Some x, t) \<and> pmm_wf t ys \<and>
       {x ..< x + n} \<subseteq> free_set s xs \<and> free_set t ys = free_set s xs - {x ..< x + n})"
proof -
  let ?m = "nr_free s + 1"
  have "npath (links s) FreeHead (map PageLink xs) FreeHead"
    using assms(1) by (simp add: pmm_wf_def dlist_npath)
  then have alloc: "best_fit_alloc_pages n s =
      (if nr_free s < n then Some (None, s)
       else case best_of (psize s) n None ?m xs of None \<Rightarrow> Some (None, s)
         | Some x \<Rightarrow> Some (Some x, take_block x n s))"
    using assms(2,3) by (simp add: best_fit_alloc_pages_def best_fit_scan_npath)
  have le: "psize s x < ?m" if "x \<in> set xs" for x using prop_le_nr_free [OF assms(1) that] by simp
  from best_of_cases [of "psize s" n None ?m xs] show ?thesis
  proof (elim disjE exE conjE)
    assume none: "best_of (psize s) n None ?m xs = None" "\<forall>y\<in>set xs. n \<le> psize s y \<longrightarrow> ?m \<le> psize s y"
    then have "\<forall>x\<in>set xs. psize s x < n" using le by (meson linorder_not_le)
    then show ?thesis using alloc none by simp
  next
    fix us x vs
    assume x: "xs = us @ x # vs" "best_of (psize s) n None ?m xs = Some x" "n \<le> psize s x"
      "\<forall>y\<in>set xs. n \<le> psize s y \<longrightarrow> psize s x \<le> psize s y"
      "\<forall>y\<in>set us. n \<le> psize s y \<longrightarrow> psize s x < psize s y"
    then have "\<not> nr_free s < n" using le [of x] by simp
    then have "best_fit_alloc_pages n s = Some (Some x, take_block x n s)" using alloc x(2) by simp
    moreover note take_block_wf [of s us x vs n] take_block_free_set [of s us x vs n]
    ultimately show ?thesis using x assms(1,2) by blast
  qed
qed

theorem best_fit_alloc_correct_witness:
  "\<exists>t ys. best_fit_alloc_pages 1 demo_area = Some (Some 0, t) \<and> pmm_wf t ys \<and>
     free_set t ys = free_set demo_area [0, 8] - {0 ..< 1}"
proof -
  have "nr_free demo_area + 1 < 2 ^ 32" by (simp add: demo_nr_free)
  moreover have "\<not> (\<forall>x\<in>set [0, 8]. psize demo_area x < 1)" by (simp add: demo_psize)
  ultimately obtain us x vs t ys where
    x: "[0, 8] = us @ x # vs" "1 \<le> psize demo_area x" "\<forall>y\<in>set us. 1 \<le> psize demo_area y \<longrightarrow> psize demo_area x < psize demo_area y"
      "best_fit_alloc_pages 1 demo_area = Some (Some x, t)" "pmm_wf t ys"
      "free_set t ys = free_set demo_area [0, 8] - {x ..< x + 1}"
    using best_fit_alloc_correct [OF demo_wf, of 1, OF zero_less_one] by blast
  have "us = []"
  proof (cases us)
    case (Cons u us')
    with x(1) have "u = 0" by simp
    with x(2,3) Cons show ?thesis by (auto simp: demo_psize split: if_splits)
  qed simp
  with x(1) have "x = 0" by simp
  with x(4-6) show ?thesis by auto
qed

text \<open>
  Best fit and first fit fail on the same requests, and they free in the same way: from a
  well-formed area an allocation by one manager returns NULL if and only if the other's does, and
  \<^verbatim>\<open>best_fit_free_pages\<close> computes the same area as \<^verbatim>\<open>default_free_pages\<close> on every state.
\<close>

theorem best_fit_agrees_with_first_fit:
  assumes "pmm_wf s xs" and "0 < n" and "nr_free s + 1 < 2 ^ 32"
  shows "(best_fit_alloc_pages n s = Some (None, s) \<longleftrightarrow> default_alloc_pages n s = Some (None, s)) \<and>
    best_fit_free_pages base k s' = default_free_pages base k s'"
proof -
  have "List.find (\<lambda>p. n \<le> psize s p) xs = None \<longleftrightarrow> (\<forall>x\<in>set xs. psize s x < n)"
    by (auto simp: find_None_iff not_le)
  then have "default_alloc_pages n s = Some (None, s) \<longleftrightarrow> (\<forall>x\<in>set xs. psize s x < n)"
    using default_alloc_pages_eq [of s xs n] assms prop_le_nr_free [OF assms(1)]
    by (fastforce simp: pmm_wf_def dlist_npath split: option.splits)
  moreover have "best_fit_alloc_pages n s = Some (None, s) \<longleftrightarrow> (\<forall>x\<in>set xs. psize s x < n)"
    using best_fit_alloc_correct [OF assms] by (auto simp: not_le)
  ultimately show ?thesis by (simp add: best_fit_free_pages_eq)
qed

theorem best_fit_agrees_with_first_fit_witness:
  "(best_fit_alloc_pages 5 demo_area = Some (None, demo_area) \<longleftrightarrow>
      default_alloc_pages 5 demo_area = Some (None, demo_area)) \<and>
   best_fit_free_pages 1 2 demo_area = default_free_pages 1 2 demo_area"
  by (rule best_fit_agrees_with_first_fit [OF demo_wf]) (simp_all add: demo_nr_free)

end
