(* ===== verification/Buddy.thy ===== *)
theory Buddy
  imports Pages
begin

text \<open>
  The buddy manager of Lab2, \<^verbatim>\<open>kern/mm/buddy_pmm.c\<close>: one circular list of free blocks per order
  \<open>0 .. 10\<close>, a block of order \<open>k\<close> having \<open>2 ^ k\<close> pages; the head of a block keeps its order in
  \<^verbatim>\<open>property\<close>.  A shift by 32 or more, undefined in C, is given the value 0 here; \<open>log2_ceil\<close> does not
  end on arguments above \<open>2 ^ 31\<close> in this reading, and no theorem speaks about them.
\<close>

section \<open>The manager\<close>

datatype bnode = BHead nat | BPage nat

record buddy = "bnode area" +
  buddy_nr_free :: "nat \<Rightarrow> nat"

definition MAX_ORDER :: nat where "MAX_ORDER = 10"

definition power_of_two :: "nat \<Rightarrow> nat" where
  "power_of_two n = u32 (2 ^ n)"

partial_function (option) log2_ceil_from :: "nat \<Rightarrow> nat \<Rightarrow> nat option" where
  "log2_ceil_from order x = (if power_of_two order < x then log2_ceil_from (Suc order) x else Some order)"

definition log2_ceil :: "nat \<Rightarrow> nat option" where
  "log2_ceil x = log2_ceil_from 0 (u32 x)"

definition get_page_order :: "nat \<Rightarrow> buddy \<Rightarrow> nat" where
  "get_page_order page s = psize s page"

definition set_page_order :: "nat \<Rightarrow> nat \<Rightarrow> buddy \<Rightarrow> buddy" where
  "set_page_order page order s = set_property page order s"

definition page_is_allocated :: "nat \<Rightarrow> buddy \<Rightarrow> bool" where
  "page_is_allocated page s \<longleftrightarrow> \<not> PageProperty page s"

definition set_page_allocated :: "nat \<Rightarrow> buddy \<Rightarrow> buddy" where
  "set_page_allocated page s = ClearPageProperty page s"

definition set_page_freed :: "nat \<Rightarrow> buddy \<Rightarrow> buddy" where
  "set_page_freed page s = SetPageProperty page s"

definition get_buddy_index :: "nat \<Rightarrow> nat \<Rightarrow> nat" where
  "get_buddy_index page order = page XOR power_of_two order"

definition get_buddy :: "nat \<Rightarrow> nat \<Rightarrow> nat" where
  "get_buddy page order = get_buddy_index page order"

definition is_continuous_buddies :: "nat \<Rightarrow> nat \<Rightarrow> nat \<Rightarrow> bool" where
  "is_continuous_buddies idx1 idx2 order \<longleftrightarrow>
     (let lower_idx = (if idx1 < idx2 then idx1 else idx2)
      in idx1 XOR idx2 = power_of_two order \<and> lower_idx AND (power_of_two (order + 1) - 1) = 0)"

text \<open>\<^verbatim>\<open>list_add(&buddy_free_lists[k], ...); buddy_nr_free[k]++;\<close> and its inverse.\<close>

definition push_free :: "nat \<Rightarrow> nat \<Rightarrow> buddy \<Rightarrow> buddy" where
  "push_free k page s =
     s\<lparr>links := list_add (BHead k) (BPage page) (links s),
       buddy_nr_free := (buddy_nr_free s)(k := u32 (buddy_nr_free s k + 1))\<rparr>"

definition drop_free :: "nat \<Rightarrow> nat \<Rightarrow> buddy \<Rightarrow> buddy" where
  "drop_free k page s =
     s\<lparr>links := list_del (BPage page) (links s),
       buddy_nr_free := (buddy_nr_free s)(k := sub32 (buddy_nr_free s k) 1),
       nr_free := sub32 (nr_free s) (power_of_two k)\<rparr>"

fun init_orders :: "nat \<Rightarrow> buddy \<Rightarrow> buddy" where
  "init_orders 0 s = s"
| "init_orders (Suc k) s =
     (let s1 = init_orders k s
      in s1\<lparr>links := list_init (BHead k) (links s1), buddy_nr_free := (buddy_nr_free s1)(k := 0)\<rparr>)"

definition buddy_init :: "buddy \<Rightarrow> buddy" where
  "buddy_init s = (init_orders (MAX_ORDER + 1) s)\<lparr>nr_free := 0\<rparr>"

fun buddy_clear :: "nat \<Rightarrow> nat \<Rightarrow> buddy \<Rightarrow> buddy option" where
  "buddy_clear p 0 s = Some s"
| "buddy_clear p (Suc k) s =
     do {
       assertc (PageReserved p s);
       buddy_clear (Suc p) k (set_page_ref p 0 (set_flags p 0 (set_property p 0 s)))
     }"

text \<open>
  The largest order that fits, the descent from it for one block, and the loop that carves \<open>n\<close>
  pages.  The test after the descent always holds (order 0 has one page and \<open>remaining\<close> is not
  zero), so the code's last loop over a rest never runs; the model keeps both.
\<close>

function top_order :: "nat \<Rightarrow> nat \<Rightarrow> nat" where
  "top_order n k = (if power_of_two (k + 1) \<le> n \<and> k < MAX_ORDER then top_order n (Suc k) else k)"
  by pat_completeness auto
termination by (relation "measure (\<lambda>(n, k). MAX_ORDER - k)") auto

fun fit_order :: "nat \<Rightarrow> nat \<Rightarrow> nat" where
  "fit_order remaining 0 = 0"
| "fit_order remaining (Suc k) =
     (if remaining < power_of_two (Suc k) then fit_order remaining k else Suc k)"

fun rest_blocks :: "nat \<Rightarrow> nat \<Rightarrow> buddy \<Rightarrow> buddy" where
  "rest_blocks p 0 s = s"
| "rest_blocks p (Suc k) s = rest_blocks (Suc p) k (push_free 0 p (set_page_freed p (set_page_order p 0 s)))"

fun carve :: "nat \<Rightarrow> nat \<Rightarrow> nat \<Rightarrow> nat \<Rightarrow> buddy \<Rightarrow> buddy option" where
  "carve 0 max_order p remaining s = (if remaining = 0 then Some s else None)"
| "carve (Suc fuel) max_order p remaining s =
     (if remaining = 0 then Some s
      else let k = fit_order remaining max_order
           in if power_of_two k \<le> remaining
              then carve fuel max_order (p + power_of_two k) (remaining - power_of_two k)
                     (push_free k p (set_page_freed p (set_page_order p k s)))
              else Some (rest_blocks p remaining s))"

definition buddy_init_memmap :: "nat \<Rightarrow> nat \<Rightarrow> buddy \<Rightarrow> buddy option" where
  "buddy_init_memmap base n s =
     do {
       assertc (0 < n);
       s1 \<leftarrow> buddy_clear base n s;
       carve n (top_order n 0) base n (s1\<lparr>nr_free := u32 (nr_free s1 + n)\<rparr>)
     }"

text \<open>The \<^verbatim>\<open>while\<close> loop of the allocation: the first order with a free block, then the splitting.\<close>

function find_order :: "nat \<Rightarrow> buddy \<Rightarrow> nat option" where
  "find_order k s = (if MAX_ORDER < k then None else if 0 < buddy_nr_free s k then Some k else find_order (Suc k) s)"
  by pat_completeness auto
termination by (relation "measure (\<lambda>(k, s). Suc MAX_ORDER - k)") auto

function split_block :: "nat \<Rightarrow> nat \<Rightarrow> nat \<Rightarrow> buddy \<Rightarrow> buddy" where
  "split_block blk current required s =
     (if required < current
      then let k = current - 1;
               half = blk + power_of_two k;
               s1 = push_free k half (set_page_freed half (set_page_order half k s))
           in split_block blk k required (s1\<lparr>nr_free := u32 (nr_free s1 + power_of_two k)\<rparr>)
      else s)"
  by pat_completeness auto
termination by (relation "measure (\<lambda>(blk, current, required, s). current)") auto

declare top_order.simps [simp del] find_order.simps [simp del] split_block.simps [simp del]

definition buddy_alloc_pages :: "nat \<Rightarrow> buddy \<Rightarrow> (nat option \<times> buddy) option" where
  "buddy_alloc_pages n s =
     (if n = 0 \<or> nr_free s < n then Some (None, s)
      else do {
        required \<leftarrow> log2_ceil n;
        if MAX_ORDER < required then Some (None, s)
        else case find_order required s of
               None \<Rightarrow> Some (None, s)
             | Some k \<Rightarrow>
                 (case list_next (BHead k) (links s) of
                    BHead _ \<Rightarrow> None
                  | BPage blk \<Rightarrow>
                      let s1 = split_block blk k required (drop_free k blk s)
                      in Some (Some blk, set_page_allocated blk (set_page_order blk required s1)))
      })"

function merge_loop :: "nat \<Rightarrow> nat \<Rightarrow> buddy \<Rightarrow> nat \<times> nat \<times> buddy" where
  "merge_loop base order s =
     (if order < MAX_ORDER
      then let buddy = get_buddy base order
           in if \<not> page_is_allocated buddy s \<and> get_page_order buddy s = order \<and>
                 is_continuous_buddies base buddy order
              then merge_loop (if buddy < base then buddy else base) (Suc order) (drop_free order buddy s)
              else (base, order, s)
      else (base, order, s))"
  by pat_completeness auto
termination by (relation "measure (\<lambda>(base, order, s). MAX_ORDER - order)") auto

declare merge_loop.simps [simp del]

definition buddy_free_pages :: "nat \<Rightarrow> nat \<Rightarrow> buddy \<Rightarrow> buddy option" where
  "buddy_free_pages base n s =
     do {
       assertc (0 < n);
       assertc (power_of_two (get_page_order base s) = n);
       let s1 = set_page_freed base s;
           s2 = s1\<lparr>nr_free := u32 (nr_free s1 + n)\<rparr>;
           (b, k, s3) = merge_loop base (get_page_order base s) s2
       in Some (push_free k b (set_page_order b k s3))
     }"

definition buddy_nr_free_pages :: "buddy \<Rightarrow> nat" where
  "buddy_nr_free_pages s = nr_free s"

section \<open>The size of a request\<close>

lemma power_of_two_small: "n < 32 \<Longrightarrow> power_of_two n = 2 ^ n"
proof -
  assume "n < 32"
  then have "(2::nat) ^ n < 2 ^ 32" by (intro power_strict_increasing) auto
  then show ?thesis by (simp add: power_of_two_def)
qed

lemma log2_ceil_from_Some:
  "k \<le> m \<Longrightarrow> m < 32 \<Longrightarrow> x \<le> 2 ^ m \<Longrightarrow> (\<And>j. j < m \<Longrightarrow> 2 ^ j < x) \<Longrightarrow> log2_ceil_from k x = Some m"
proof (induction "m - k" arbitrary: k)
  case 0
  then show ?case by (subst log2_ceil_from.simps) (simp add: power_of_two_small)
next
  case (Suc d)
  then have "2 ^ k < x" "k < 32" by simp_all
  then show ?case using Suc by (subst log2_ceil_from.simps) (simp add: power_of_two_small)
qed

lemma ceil_exponent_ex: "\<exists>m. (x::nat) \<le> 2 ^ m \<and> (\<forall>j<m. 2 ^ j < x)"
proof -
  have "x \<le> 2 ^ x" by (simp add: less_imp_le)
  then have "\<exists>m. x \<le> 2 ^ m" by blast
  then show ?thesis using exists_least_iff [of "\<lambda>m. x \<le> 2 ^ m"] by (meson linorder_not_le)
qed

lemma log2_ceil_least:
  assumes "x \<le> 2 ^ 31"
  shows "\<exists>m\<le>31. log2_ceil x = Some m \<and> x \<le> 2 ^ m \<and> (\<forall>j<m. 2 ^ j < x)"
proof -
  obtain m where m: "x \<le> 2 ^ m" "\<forall>j<m. 2 ^ j < x" using ceil_exponent_ex by blast
  have "m \<le> 31" using m(2) assms by (meson linorder_not_le)
  moreover have "u32 x = x" using assms by simp
  ultimately show ?thesis using m log2_ceil_from_Some [of 0 m x] by (auto simp: log2_ceil_def)
qed

text \<open>
  \<^verbatim>\<open>log2_ceil\<close> ends and rounds up: for every request of up to \<open>2 ^ 31\<close> pages it returns the
  one order \<open>r\<close> whose block holds the request while half of it would not.
\<close>

theorem log2_ceil_rounds_up:
  assumes "0 < x" and "x \<le> 2 ^ 31"
  shows "\<exists>!r. log2_ceil x = Some r \<and> x \<le> 2 ^ r \<and> 2 ^ r < 2 * x"
proof -
  obtain m where m: "log2_ceil x = Some m" "x \<le> 2 ^ m" "\<forall>j<m. 2 ^ j < x"
    using log2_ceil_least [OF assms(2)] by blast
  have "2 ^ m < 2 * x"
  proof (cases m)
    case (Suc j)
    with m(3) have "2 ^ j < x" by simp
    with Suc show ?thesis by simp
  qed (use assms in simp)
  with m show ?thesis by auto
qed

theorem log2_ceil_rounds_up_witness:
  "\<exists>!r. log2_ceil 5 = Some r \<and> (5::nat) \<le> 2 ^ r \<and> (2::nat) ^ r < 2 * 5"
  by (rule log2_ceil_rounds_up) simp_all

section \<open>The free lists\<close>

text \<open>
  \<open>buddy_wf s L\<close>: for every order \<open>k\<close> the circular list at \<open>BHead k\<close> is intact and holds the block
  heads \<open>L k\<close>, its counter is their number, each head is marked free and carries its order, and the
  blocks of all lists are disjoint.
\<close>

definition bblock :: "nat \<Rightarrow> nat \<Rightarrow> nat set" where
  "bblock k x = {x ..< x + 2 ^ k}"

definition buddy_set :: "(nat \<Rightarrow> nat list) \<Rightarrow> nat set" where
  "buddy_set L = (\<Union>k\<le>MAX_ORDER. \<Union>x\<in>set (L k). bblock k x)"

definition buddy_disjoint :: "(nat \<Rightarrow> nat list) \<Rightarrow> bool" where
  "buddy_disjoint L \<longleftrightarrow>
     (\<forall>j\<le>MAX_ORDER. \<forall>k\<le>MAX_ORDER. \<forall>x\<in>set (L j). \<forall>y\<in>set (L k).
        (j, x) \<noteq> (k, y) \<longrightarrow> bblock j x \<inter> bblock k y = {})"

definition buddy_wf :: "buddy \<Rightarrow> (nat \<Rightarrow> nat list) \<Rightarrow> bool" where
  "buddy_wf s L \<longleftrightarrow>
     (\<forall>k\<le>MAX_ORDER. dlist (links s) (BHead k) (map BPage (L k)) \<and> buddy_nr_free s k = length (L k) \<and>
        (\<forall>x\<in>set (L k). psize s x = k \<and> PageProperty x s)) \<and>
     buddy_disjoint L \<and> card (buddy_set L) < 2 ^ 32"

text \<open>
  The invariant with the allocated blocks \<open>A\<close> (order and head): all blocks are aligned to their size
  and disjoint, an allocated head carries its order and is not marked free.  Merging leaves the
  mark of the upper half set, so a mark is only known to lie inside some block.
\<close>

definition buddy_aligned :: "(nat \<Rightarrow> nat list) \<Rightarrow> bool" where
  "buddy_aligned L \<longleftrightarrow> (\<forall>k\<le>MAX_ORDER. \<forall>x\<in>set (L k). 2 ^ k dvd x)"

definition buddy_given :: "(nat \<times> nat) set \<Rightarrow> nat set \<Rightarrow> bool" where
  "buddy_given A F \<longleftrightarrow>
     (\<forall>j y. (j, y) \<in> A \<longrightarrow> j \<le> MAX_ORDER \<and> 2 ^ j dvd y \<and> bblock j y \<inter> F = {}) \<and>
     (\<forall>j y i x. (j, y) \<in> A \<longrightarrow> (i, x) \<in> A \<longrightarrow> (j, y) \<noteq> (i, x) \<longrightarrow> bblock j y \<inter> bblock i x = {})"

definition buddy_heads :: "buddy \<Rightarrow> (nat \<times> nat) set \<Rightarrow> bool" where
  "buddy_heads s A \<longleftrightarrow> (\<forall>j y. (j, y) \<in> A \<longrightarrow> psize s y = j \<and> \<not> PageProperty y s)"

definition buddy_marks :: "buddy \<Rightarrow> (nat \<times> nat) set \<Rightarrow> nat set \<Rightarrow> bool" where
  "buddy_marks s A F \<longleftrightarrow> (\<forall>q. PageProperty q s \<longrightarrow> q \<in> F \<or> (\<exists>(j, y)\<in>A. q \<in> bblock j y))"

definition buddy_inv :: "buddy \<Rightarrow> (nat \<Rightarrow> nat list) \<Rightarrow> (nat \<times> nat) set \<Rightarrow> bool" where
  "buddy_inv s L A \<longleftrightarrow>
     buddy_wf s L \<and> buddy_aligned L \<and> buddy_given A (buddy_set L) \<and> buddy_heads s A \<and>
     buddy_marks s A (buddy_set L)"

lemma bblock_head [simp]: "x \<in> bblock k x"
  by (simp add: bblock_def)

lemma bblock_finite [simp]: "finite (bblock k x)"
  by (simp add: bblock_def)

lemma buddy_set_finite [simp]: "finite (buddy_set L)"
  by (simp add: buddy_set_def)

lemma buddy_set_iff: "q \<in> buddy_set L \<longleftrightarrow> (\<exists>j x. j \<le> MAX_ORDER \<and> x \<in> set (L j) \<and> q \<in> bblock j x)"
  by (auto simp: buddy_set_def)

lemma buddy_set_mem: "k \<le> MAX_ORDER \<Longrightarrow> x \<in> set (L k) \<Longrightarrow> bblock k x \<subseteq> buddy_set L"
  by (auto simp: buddy_set_def)

lemma buddy_head_mem: "k \<le> MAX_ORDER \<Longrightarrow> x \<in> set (L k) \<Longrightarrow> x \<in> buddy_set L"
  using buddy_set_mem bblock_head by blast

lemma buddy_set_push:
  assumes "k \<le> MAX_ORDER"
  shows "buddy_set (L(k := p # L k)) = buddy_set L \<union> bblock k p"
proof (rule set_eqI)
  fix q
  have *: "x \<in> set ((L(k := p # L k)) j) \<longleftrightarrow> x \<in> set (L j) \<or> j = k \<and> x = p" for x j by auto
  show "q \<in> buddy_set (L(k := p # L k)) \<longleftrightarrow> q \<in> buddy_set L \<union> bblock k p"
    unfolding buddy_set_iff Un_iff * using assms by blast
qed

lemma buddy_set_drop:
  assumes "buddy_disjoint L" "k \<le> MAX_ORDER" "p \<in> set (L k)" "distinct (L k)"
  shows "buddy_set (L(k := remove1 p (L k))) = buddy_set L - bblock k p"
proof (rule set_eqI)
  fix q
  have *: "x \<in> set ((L(k := remove1 p (L k))) j) \<longleftrightarrow> x \<in> set (L j) \<and> (j, x) \<noteq> (k, p)" for x j
    using assms(4) by auto
  have "bblock j x \<inter> bblock k p = {}" if "j \<le> MAX_ORDER" "x \<in> set (L j)" "(j, x) \<noteq> (k, p)" for j x
    using assms that unfolding buddy_disjoint_def by blast
  then show "q \<in> buddy_set (L(k := remove1 p (L k))) \<longleftrightarrow> q \<in> buddy_set L - bblock k p"
    unfolding buddy_set_iff Diff_iff * by blast
qed

lemma length_le_buddy_set:
  assumes "buddy_disjoint L" "k \<le> MAX_ORDER" "distinct (L k)"
  shows "length (L k) \<le> card (buddy_set L)"
proof -
  have "set (L k) \<subseteq> buddy_set L" using buddy_head_mem assms(2) by blast
  then show ?thesis by (metis assms(3) buddy_set_finite card_mono distinct_card)
qed

lemma buddy_wf_distinct: "buddy_wf s L \<Longrightarrow> k \<le> MAX_ORDER \<Longrightarrow> distinct (L k)"
  by (auto simp: buddy_wf_def dlist_def distinct_map)

lemma buddy_wf_separate:
  assumes "buddy_disjoint L" "j \<le> MAX_ORDER" "k \<le> MAX_ORDER" "j \<noteq> k"
  shows "insert (BHead j) (set (map BPage (L j))) \<inter> insert (BHead k) (set (map BPage (L k))) = {}"
proof -
  have "set (L j) \<inter> set (L k) = {}"
    using assms bblock_head unfolding buddy_disjoint_def by (metis disjoint_iff old.prod.inject)
  then show ?thesis using assms(4) by auto
qed

lemma push_free_frames [frame_simps]:
  "pages (push_free k p s) = pages s" "PageProperty q (push_free k p s) = PageProperty q s"
  "nr_free (push_free k p s) = nr_free s"
  by (simp_all add: push_free_def PageProperty_def)

lemma drop_free_frames [frame_simps]:
  "pages (drop_free k p s) = pages s" "PageProperty q (drop_free k p s) = PageProperty q s"
  "nr_free (drop_free k p s) = sub32 (nr_free s) (power_of_two k)"
  by (simp_all add: drop_free_def PageProperty_def)

lemma buddy_count_frames [frame_simps]:
  "buddy_nr_free (SetPageProperty p s) = buddy_nr_free s"
  "buddy_nr_free (ClearPageProperty p s) = buddy_nr_free s"
  "buddy_nr_free (set_property p v s) = buddy_nr_free s"
  by (simp_all add: page_op_defs)

section \<open>The free-list operations keep the invariant\<close>

lemma buddy_disjoint_push:
  assumes "buddy_disjoint L" "bblock k p \<inter> buddy_set L = {}" "k \<le> MAX_ORDER"
  shows "buddy_disjoint (L(k := p # L k))"
proof -
  have *: "bblock j x \<inter> bblock k p = {}" if "j \<le> MAX_ORDER" "x \<in> set (L j)" for j x
    using buddy_set_mem [of j x L, OF that] assms(2) by blast
  have "x \<in> set ((L(k := p # L k)) j) \<longleftrightarrow> x \<in> set (L j) \<or> j = k \<and> x = p" for x j by auto
  with assms(1) * show ?thesis unfolding buddy_disjoint_def by (metis inf_commute)
qed

lemma buddy_disjoint_drop:
  "buddy_disjoint L \<Longrightarrow> buddy_disjoint (L(k := remove1 p (L k)))"
proof -
  assume "buddy_disjoint L"
  moreover have "x \<in> set ((L(k := remove1 p (L k))) j) \<Longrightarrow> x \<in> set (L j)" for x j
    using set_remove1_subset [of p "L k"] by (cases "j = k") auto
  ultimately show ?thesis unfolding buddy_disjoint_def by meson
qed

lemma buddy_wfD:
  assumes "buddy_wf s L"
  shows "k \<le> MAX_ORDER \<Longrightarrow> dlist (links s) (BHead k) (map BPage (L k))"
    and "k \<le> MAX_ORDER \<Longrightarrow> buddy_nr_free s k = length (L k)"
    and "k \<le> MAX_ORDER \<Longrightarrow> x \<in> set (L k) \<Longrightarrow> psize s x = k \<and> PageProperty x s"
    and "buddy_disjoint L" and "card (buddy_set L) < 2 ^ 32"
  using assms by (auto simp: buddy_wf_def)

lemma push_free_wf [wf_intros]:
  assumes wf: "buddy_wf s L" and k: "k \<le> MAX_ORDER" and p: "bblock k p \<inter> buddy_set L = {}"
    and page: "psize s p = k" "PageProperty p s" and card: "card (buddy_set L \<union> bblock k p) < 2 ^ 32"
  shows "buddy_wf (push_free k p s) (L(k := p # L k))"
proof -
  note dis = buddy_wfD(4) [OF wf]
  have dis': "buddy_disjoint (L(k := p # L k))" using buddy_disjoint_push [OF dis p k] .
  have pn: "p \<notin> set (L j)" if "j \<le> MAX_ORDER" for j
    using p buddy_head_mem [OF that] bblock_head by blast
  then have pn': "BPage p \<notin> insert (BHead j) (set (map BPage (L j)))" if "j \<le> MAX_ORDER" for j
    using that by auto
  have links: "dlist (list_add (BHead k) (BPage p) (links s)) (BHead j) (map BPage ((L(k := p # L k)) j))"
    if j: "j \<le> MAX_ORDER" for j
  proof (cases "j = k")
    case True
    then show ?thesis using list_add_head [OF buddy_wfD(1) [OF wf k] pn' [OF k]] by simp
  next
    case False
    then have "dlist (list_add (BHead k) (BPage p) (links s)) (BHead j) (map BPage (L j))"
      by (intro dlist_frame_add_head [OF buddy_wfD(1) [OF wf k] buddy_wfD(1) [OF wf j] pn' [OF j]]
          buddy_wf_separate [OF dis k j]) simp
    with False show ?thesis by simp
  qed
  have "length (p # L k) \<le> card (buddy_set (L(k := p # L k)))"
    using length_le_buddy_set [OF dis' k] buddy_wf_distinct [OF wf k] pn [OF k] by simp
  then have "u32 (buddy_nr_free s k + 1) = length (p # L k)"
    using card buddy_wfD(2) [OF wf k] by (simp add: buddy_set_push [OF k])
  then show ?thesis
    using links dis' card page wf unfolding buddy_wf_def buddy_set_push [OF k]
    by (auto simp: push_free_def frame_simps PageProperty_def)
qed

lemma remove1_map_BPage: "remove1 (BPage p) (map BPage xs) = map BPage (remove1 p xs)"
  by (induction xs) auto

lemma drop_free_wf [wf_intros]:
  assumes wf: "buddy_wf s L" and k: "k \<le> MAX_ORDER" and p: "p \<in> set (L k)"
  shows "buddy_wf (drop_free k p s) (L(k := remove1 p (L k)))"
proof -
  note dis = buddy_wfD(4) [OF wf]
  have pk: "BPage p \<in> set (map BPage (L k))" using p by simp
  have links: "dlist (list_del (BPage p) (links s)) (BHead j) (map BPage ((L(k := remove1 p (L k))) j))"
    if j: "j \<le> MAX_ORDER" for j
  proof (cases "j = k")
    case True
    have "remove1 (BPage p) (map BPage (L k)) = map BPage (remove1 p (L k))"
      by (simp add: remove1_map_BPage)
    then show ?thesis using True list_del_remove1 [OF buddy_wfD(1) [OF wf k] pk] by simp
  next
    case False
    then have "dlist (list_del (BPage p) (links s)) (BHead j) (map BPage (L j))"
      by (intro dlist_frame_del [OF buddy_wfD(1) [OF wf k] pk buddy_wfD(1) [OF wf j]]
          buddy_wf_separate [OF dis k j]) simp
    with False show ?thesis by simp
  qed
  have len: "length (L k) \<le> card (buddy_set L)"
    using length_le_buddy_set [OF dis k buddy_wf_distinct [OF wf k]] .
  have "0 < length (L k)" using p by auto
  then have count: "sub32 (buddy_nr_free s k) 1 = length (remove1 p (L k))"
    using len p buddy_wfD(2) [OF wf k] buddy_wfD(5) [OF wf]
    by (simp add: sub32_le [of 1 "length (L k)", simplified] Suc_le_eq length_remove1)
  have card: "card (buddy_set (L(k := remove1 p (L k)))) < 2 ^ 32"
    using buddy_wfD(5) [OF wf] card_Diff_subset_Int [of "buddy_set L" "bblock k p"]
    by (simp add: buddy_set_drop [OF dis k p buddy_wf_distinct [OF wf k]])
  show ?thesis
    using links count card buddy_disjoint_drop [OF dis] wf unfolding buddy_wf_def
    by (auto simp: drop_free_def PageProperty_def dest: subsetD [OF set_remove1_subset])
qed

lemma buddy_wf_page_updates [wf_intros]:
  assumes "buddy_wf s L"
  shows "p \<notin> buddy_set L \<Longrightarrow> buddy_wf (set_property p v s) L"
    and "buddy_wf (SetPageProperty p s) L"
    and "p \<notin> buddy_set L \<Longrightarrow> buddy_wf (ClearPageProperty p s) L"
    and "buddy_wf (s\<lparr>nr_free := m\<rparr>) L"
  using assms buddy_head_mem [of _ p L]
  by (auto simp: buddy_wf_def frame_simps)

section \<open>Allocation\<close>

lemma bblock_halves:
  "bblock (Suc k) b = bblock k b \<union> bblock k (b + 2 ^ k)" "bblock k b \<inter> bblock k (b + 2 ^ k) = {}"
  by (auto simp: bblock_def)

lemma bblock_mono: "r \<le> k \<Longrightarrow> bblock r b \<subseteq> bblock k b"
  by (auto simp: bblock_def dest: power_increasing [of r k "2::nat"])

lemma split_block_done [simp]: "split_block b r r s = s"
  by (subst split_block.simps) simp

lemma split_block_wf:
  assumes "r \<le> k" "k \<le> MAX_ORDER" "buddy_wf s L" "bblock k b \<inter> buddy_set L = {}"
    and "card (buddy_set L \<union> bblock k b) < 2 ^ 32"
    and "buddy_aligned L" "2 ^ k dvd b"
  shows "\<exists>L'. buddy_wf (split_block b k r s) L' \<and> buddy_set L' = buddy_set L \<union> (bblock k b - bblock r b) \<and>
    buddy_aligned L'"
  using assms
proof (induction "k - r" arbitrary: k s L)
  case 0
  then show ?case by (auto intro: exI [of _ L])
next
  case (Suc d)
  then obtain m where m: "k = Suc m" "d = m - r" "r \<le> m" by (cases k) auto
  let ?h = "b + 2 ^ m"
  let ?L = "L(m := ?h # L m)"
  have m32: "power_of_two m = 2 ^ m" "u32 m = m"
    using Suc.prems(2) m by (simp_all add: power_of_two_small MAX_ORDER_def)
  have dis: "bblock m ?h \<inter> buddy_set L = {}" "bblock m b \<inter> buddy_set L = {}"
    using Suc.prems(4) m by (auto simp: bblock_halves)
  have mk: "m \<le> MAX_ORDER" using Suc.prems(2) m by simp
  have h: "?h \<notin> buddy_set L" using dis(1) bblock_head by blast
  have sub: "buddy_set L \<union> bblock m ?h \<union> bblock m b = buddy_set L \<union> bblock k b"
    using m by (auto simp: bblock_halves)
  have c1: "card (buddy_set L \<union> bblock m ?h) < 2 ^ 32"
    using sub by (intro le_less_trans [OF card_mono Suc.prems(5)]) auto
  let ?s1 = "set_page_freed ?h (set_page_order ?h m s)"
  have wf1: "buddy_wf ?s1 L"
    unfolding set_page_freed_def set_page_order_def
    by (intro buddy_wf_page_updates Suc.prems h)
  have "psize ?s1 ?h = m" "PageProperty ?h ?s1"
    using m32 by (simp_all add: set_page_freed_def set_page_order_def frame_simps)
  then have "buddy_wf (push_free m ?h ?s1) ?L"
    by (intro push_free_wf wf1 mk dis c1)
  then have wf2: "buddy_wf ((push_free m ?h ?s1)\<lparr>nr_free := v\<rparr>) ?L" for v
    by (rule buddy_wf_page_updates)
  have "bblock m b \<inter> buddy_set ?L = {}"
    using dis(2) bblock_halves(2) unfolding buddy_set_push [OF mk] by blast
  moreover have "card (buddy_set ?L \<union> bblock m b) < 2 ^ 32"
    unfolding buddy_set_push [OF mk] sub by (rule Suc.prems(5))
  moreover have dvd: "2 ^ m dvd b" using Suc.prems(7) m(1) by (auto elim: dvd_trans [rotated])
  then have "buddy_aligned ?L" using Suc.prems(6) by (auto simp: buddy_aligned_def)
  ultimately obtain L' where L': "buddy_set L' = buddy_set ?L \<union> (bblock m b - bblock r b)" "buddy_aligned L'"
    "buddy_wf (split_block b m r ((push_free m ?h ?s1)\<lparr>nr_free := u32 (nr_free (push_free m ?h ?s1) + power_of_two m)\<rparr>)) L'"
    using Suc.hyps(1) [OF m(2) m(3) mk wf2] dvd by blast
  moreover have "buddy_set L' = buddy_set L \<union> (bblock k b - bblock r b)"
    using L'(1) bblock_mono [OF m(3), of b] bblock_halves(2) [of m b] m(1)
    unfolding buddy_set_push [OF mk] by (fastforce simp: bblock_halves)
  ultimately show ?case
    using m m32 by (subst split_block.simps) (auto simp: Let_def intro: exI [of _ L'])
qed

lemma u32_add_u32: "u32 (u32 x + y) = u32 (x + y)"
  by (simp add: u32_def mod_add_left_eq)

lemma split_block_nr_free:
  "r \<le> k \<Longrightarrow> k \<le> MAX_ORDER \<Longrightarrow> nr_free s < 2 ^ 32 \<Longrightarrow>
   nr_free (split_block b k r s) = u32 (nr_free s + (2 ^ k - 2 ^ r))"
proof (induction "k - r" arbitrary: k s)
  case 0
  then show ?case by simp
next
  case (Suc d)
  then obtain m where m: "k = Suc m" "d = m - r" "r \<le> m" by (cases k) auto
  have "power_of_two m = 2 ^ m" using Suc.prems(2) m by (simp add: power_of_two_small MAX_ORDER_def)
  moreover obtain e where e: "(2::nat) ^ m = 2 ^ r + e"
    using le_Suc_ex [OF power_increasing [OF m(3), of "2::nat"]] by auto
  moreover have "2 ^ k - 2 ^ r = 2 ^ m + e" "2 ^ m - 2 ^ r = e" using e m(1) by simp_all
  moreover have "u32 (u32 (nr_free s + 2 ^ m) + e) = u32 (nr_free s + (2 ^ m + e))"
    by (simp add: u32_add_u32 add.assoc)
  ultimately show ?case
    using m Suc.prems Suc.hyps(1) [OF m(2) m(3)]
    by (subst split_block.simps)
       (simp add: Let_def frame_simps set_page_freed_def set_page_order_def del: power_Suc)
qed

lemma find_order_cases:
  "case find_order r s of
     None \<Rightarrow> \<forall>k. r \<le> k \<and> k \<le> MAX_ORDER \<longrightarrow> buddy_nr_free s k = 0
   | Some k \<Rightarrow> r \<le> k \<and> k \<le> MAX_ORDER \<and> 0 < buddy_nr_free s k \<and> (\<forall>j. r \<le> j \<and> j < k \<longrightarrow> buddy_nr_free s j = 0)"
proof (induction r s rule: find_order.induct)
  case (1 k s)
  consider "MAX_ORDER < k" | "k \<le> MAX_ORDER" "0 < buddy_nr_free s k"
    | "k \<le> MAX_ORDER" "buddy_nr_free s k = 0" by linarith
  then show ?case
  proof cases
    case 3
    with 1 have "case find_order (Suc k) s of
       None \<Rightarrow> \<forall>j. Suc k \<le> j \<and> j \<le> MAX_ORDER \<longrightarrow> buddy_nr_free s j = 0
     | Some m \<Rightarrow> Suc k \<le> m \<and> m \<le> MAX_ORDER \<and> 0 < buddy_nr_free s m \<and>
         (\<forall>j. Suc k \<le> j \<and> j < m \<longrightarrow> buddy_nr_free s j = 0)" by simp
    moreover have "k \<le> j \<longleftrightarrow> j = k \<or> Suc k \<le> j" for j by auto
    ultimately show ?thesis using 3 by (subst find_order.simps) (auto split: option.splits)
  qed (auto simp: find_order.simps [of k s])
qed

lemma diff_telescope: "c \<le> b \<Longrightarrow> b \<le> a \<Longrightarrow> (m::nat) + (a - b) + (b - c) = m + (a - c)"
  by simp

lemma sub32_split:
  assumes "r \<le> k" "k \<le> MAX_ORDER" "m < 2 ^ 32"
  shows "u32 (sub32 m (2 ^ k) + (2 ^ k - 2 ^ r)) = sub32 m (2 ^ r)"
proof -
  have pk: "(2::nat) ^ k < 2 ^ 32" using assms(2) by (intro power_strict_increasing) (auto simp: MAX_ORDER_def)
  have le: "(2::nat) ^ r \<le> 2 ^ k" using assms(1) by (simp add: power_increasing)
  have "u32 (sub32 m (2 ^ k) + (2 ^ k - 2 ^ r)) = ((m + (2 ^ 32 - 2 ^ k)) + (2 ^ k - 2 ^ r)) mod 2 ^ 32"
    using pk unfolding u32_def sub32_def by (simp only: mod_add_left_eq mod_less)
  also have "(m + (2 ^ 32 - 2 ^ k)) + (2 ^ k - 2 ^ r) = m + (2 ^ 32 - 2 ^ r)"
    using diff_telescope [OF le less_imp_le [OF pk], of m] by blast
  finally show ?thesis using pk le unfolding sub32_def by (simp only: mod_less order_le_less_trans)
qed

lemma buddy_givenD:
  assumes "buddy_given A F"
  shows "(j, y) \<in> A \<Longrightarrow> j \<le> MAX_ORDER" and "(j, y) \<in> A \<Longrightarrow> 2 ^ j dvd y"
    and "(j, y) \<in> A \<Longrightarrow> bblock j y \<inter> F = {}"
    and "(j, y) \<in> A \<Longrightarrow> (i, x) \<in> A \<Longrightarrow> (j, y) \<noteq> (i, x) \<Longrightarrow> bblock j y \<inter> bblock i x = {}"
  using assms unfolding buddy_given_def by blast+

lemma buddy_given_insert:
  assumes gv: "buddy_given A F" and b: "r \<le> MAX_ORDER" "2 ^ r dvd b" "bblock r b \<subseteq> F" "F' = F - bblock r b"
  shows "buddy_given (insert (r, b) A) F'"
proof -
  have *: "bblock j y \<inter> bblock r b = {} \<and> bblock r b \<inter> bblock j y = {} \<and> bblock j y \<inter> F' = {}"
    if "(j, y) \<in> A" for j y
    using buddy_givenD(3) [OF gv that] b(3,4) by blast
  have "bblock r b \<inter> F' = {}" using b(4) by blast
  then show ?thesis using * b(1,2) gv unfolding buddy_given_def by (auto simp del: bblock_finite)
qed

lemma split_block_frame:
  assumes "k \<le> MAX_ORDER" "q \<notin> bblock k b"
  shows "psize (split_block b k r s) q = psize s q \<and> PageProperty q (split_block b k r s) = PageProperty q s"
  using assms
proof (induction k arbitrary: s)
  case 0
  then show ?case by (subst (1 2) split_block.simps) simp
next
  case (Suc m)
  then have q: "q \<notin> bblock m b" "q \<noteq> b + 2 ^ m" by (auto simp: bblock_halves)
  have "power_of_two m = 2 ^ m" using Suc.prems by (simp add: power_of_two_small MAX_ORDER_def)
  then show ?case
    using q Suc.prems(1) Suc.IH [OF _ q(1)]
    by (subst (1 2) split_block.simps)
       (simp add: Let_def frame_simps set_page_freed_def set_page_order_def)
qed

lemma buddy_alloc_block:
  assumes inv: "buddy_inv s L A" and n: "0 < n" "n \<le> nr_free s" "nr_free s < 2 ^ 32"
    and r: "log2_ceil n = Some r" "r \<le> MAX_ORDER" and k: "find_order r s = Some k"
  shows "\<exists>b t L'. buddy_alloc_pages n s = Some (Some b, t) \<and> buddy_inv t L' (insert (r, b) A) \<and>
     bblock r b \<subseteq> buddy_set L \<and> buddy_set L' = buddy_set L - bblock r b \<and>
     nr_free t = sub32 (nr_free s) (2 ^ r)"
proof -
  have wf: "buddy_wf s L" and al: "buddy_aligned L" and gv: "buddy_given A (buddy_set L)"
    and hd: "buddy_heads s A" and mk: "buddy_marks s A (buddy_set L)"
    using inv by (simp_all add: buddy_inv_def)
  have km: "r \<le> k" "k \<le> MAX_ORDER" "0 < buddy_nr_free s k" using find_order_cases [of r s] k by auto
  then obtain b bs where b: "L k = b # bs" using buddy_wfD(2) [OF wf km(2)] by (cases "L k") auto
  note dist = buddy_wf_distinct [OF wf km(2)]
  let ?L = "L(k := remove1 b (L k))"
  have nx: "nxt (links s) (BHead k) = BPage b" using dlist_first [OF buddy_wfD(1) [OF wf km(2)]] b by simp
  have set1: "buddy_set ?L = buddy_set L - bblock k b"
    using b by (intro buddy_set_drop buddy_wfD(4) [OF wf] km(2) dist) simp
  have sub: "bblock k b \<subseteq> buddy_set L" using buddy_set_mem [of k b L] km(2) b by simp
  have wf1: "buddy_wf (drop_free k b s) ?L" using b by (intro drop_free_wf wf km(2)) simp
  have all: "buddy_set ?L \<union> bblock k b = buddy_set L" and dvd: "2 ^ k dvd b"
    using set1 sub al km(2) b by (auto simp: buddy_aligned_def)
  have "buddy_aligned ?L" using al b by (auto simp: buddy_aligned_def)
  then obtain L' where L': "buddy_wf (split_block b k r (drop_free k b s)) L'"
    "buddy_set L' = buddy_set ?L \<union> (bblock k b - bblock r b)" "buddy_aligned L'"
    using split_block_wf [OF km(1,2) wf1, of b] all set1 buddy_wfD(5) [OF wf] dvd by auto
  let ?s1 = "split_block b k r (drop_free k b s)"
  let ?t = "set_page_allocated b (set_page_order b r ?s1)"
  note sb = bblock_mono [OF km(1), of b]
  have sets: "buddy_set L' = buddy_set L - bblock r b" "bblock r b \<subseteq> buddy_set L"
    using L'(2) set1 sub sb by blast+
  then have bn: "b \<notin> buddy_set L'" using bblock_head by blast
  have wf': "buddy_wf ?t L'"
    unfolding set_page_allocated_def set_page_order_def by (intro buddy_wf_page_updates L'(1) bn)
  have num: "power_of_two k = 2 ^ k" "u32 r = r"
    using km(2) r(2) by (simp_all add: power_of_two_small MAX_ORDER_def)
  have t: "psize ?t b = r" "\<not> PageProperty b ?t"
    "\<And>q. q \<notin> bblock k b \<Longrightarrow> psize ?t q = psize s q \<and> PageProperty q ?t = PageProperty q s"
    using num split_block_frame [OF km(2), of _ b r "drop_free k b s"] bblock_head [of b k]
    by (auto simp: frame_simps set_page_allocated_def set_page_order_def)
  have A: "bblock j y \<inter> bblock k b = {}" "y \<notin> bblock k b" if "(j, y) \<in> A" for j y
    using buddy_givenD(3) [OF gv that] sub bblock_head [of y j] by blast+
  have "buddy_heads ?t (insert (r, b) A)"
    using hd t A(2) by (auto simp: buddy_heads_def)
  moreover have "buddy_given (insert (r, b) A) (buddy_set L')"
    using dvd km(1) le_imp_power_dvd dvd_trans sets r(2) by (intro buddy_given_insert [OF gv]) blast+
  moreover have "buddy_marks ?t (insert (r, b) A) (buddy_set L')"
    unfolding buddy_marks_def
  proof (intro allI impI)
    fix q assume q: "PageProperty q ?t"
    show "q \<in> buddy_set L' \<or> (\<exists>(j, y)\<in>insert (r, b) A. q \<in> bblock j y)"
    proof (cases "q \<in> bblock k b")
      case True
      then show ?thesis using sets(1) sub by auto
    next
      case False
      then have "q \<in> buddy_set L \<or> (\<exists>(j, y)\<in>A. q \<in> bblock j y)"
        using q t(3) mk by (simp add: buddy_marks_def)
      then show ?thesis using False sets(1) sb by auto
    qed
  qed
  moreover have "nr_free ?t = sub32 (nr_free s) (2 ^ r)"
    using split_block_nr_free [OF km(1,2), of "drop_free k b s" b] sub32_split [OF km(1,2) n(3)] num
    by (simp add: frame_simps sub32_def set_page_allocated_def set_page_order_def)
  moreover have "buddy_alloc_pages n s = Some (Some b, ?t)"
    using n r k nx by (simp add: buddy_alloc_pages_def)
  ultimately show ?thesis
    using sets wf' L'(3) unfolding buddy_inv_def by blast
qed

lemma buddy_alloc_cases:
  assumes "buddy_inv s L A" and "0 < n" and "nr_free s \<le> 2 ^ 31"
  shows "\<exists>r. n \<le> 2 ^ r \<and> (\<forall>j<r. 2 ^ j < n) \<and>
    (if nr_free s < n \<or> MAX_ORDER < r \<or> (\<forall>k. r \<le> k \<and> k \<le> MAX_ORDER \<longrightarrow> L k = [])
     then buddy_alloc_pages n s = Some (None, s)
     else \<exists>b t L'. buddy_alloc_pages n s = Some (Some b, t) \<and>
       buddy_inv t L' (insert (r, b) A) \<and> bblock r b \<subseteq> buddy_set L \<and>
       buddy_set L' = buddy_set L - bblock r b \<and> nr_free t = sub32 (nr_free s) (2 ^ r))"
proof (cases "nr_free s < n")
  case True
  obtain r where "n \<le> 2 ^ r" "\<forall>j<r. 2 ^ j < n" using ceil_exponent_ex by blast
  then show ?thesis using True by (auto simp: buddy_alloc_pages_def)
next
  case False
  then have "n \<le> 2 ^ 31" using assms(3) by simp
  then obtain r where r: "log2_ceil n = Some r" "n \<le> 2 ^ r" "\<forall>j<r. 2 ^ j < n"
    using log2_ceil_least by blast
  have "buddy_alloc_pages n s = Some (None, s)" if "MAX_ORDER < r \<or> find_order r s = None"
    using that False assms(2) r(1) by (auto simp: buddy_alloc_pages_def)
  moreover have "(\<forall>k. r \<le> k \<and> k \<le> MAX_ORDER \<longrightarrow> L k = []) \<longleftrightarrow> find_order r s = None"
    using find_order_cases [of r s] buddy_wfD(2) [of s L] assms(1) unfolding buddy_inv_def
    by (fastforce split: option.splits)
  moreover note buddy_alloc_block [OF assms(1,2) _ _ r(1)]
  ultimately show ?thesis using r False assms(3) by (intro exI [of _ r]) (auto simp: not_less)
qed

text \<open>
  C5: \<^verbatim>\<open>buddy_alloc_pages\<close> ends with either a block or NULL.  With \<open>r\<close> the least order that holds the
  request, it returns the head of a block of order \<open>r\<close> out of the free set: exactly those \<open>2 ^ r\<close>
  pages leave it, the split-off halves stay in the lists of their orders, and every list, counter
  and order mark is again consistent.  It returns NULL, changing nothing, exactly when \<^verbatim>\<open>nr_free\<close> is
  below the request, the order is too large, or all lists from \<open>r\<close> on are empty.
\<close>

theorem buddy_alloc_correct:
  assumes "buddy_inv s L A" and "0 < n" and "nr_free s \<le> 2 ^ 31"
  shows "\<exists>r. n \<le> 2 ^ r \<and> (\<forall>j<r. 2 ^ j < n) \<and>
    (if nr_free s < n \<or> MAX_ORDER < r \<or> (\<forall>k. r \<le> k \<and> k \<le> MAX_ORDER \<longrightarrow> L k = [])
     then buddy_alloc_pages n s = Some (None, s)
     else \<exists>b t L'. buddy_alloc_pages n s = Some (Some b, t) \<and>
       buddy_inv t L' (insert (r, b) A) \<and> bblock r b \<subseteq> buddy_set L \<and>
       buddy_set L' = buddy_set L - bblock r b \<and> nr_free t = sub32 (nr_free s) (2 ^ r))"
  using assms by (rule buddy_alloc_cases)

section \<open>Freeing\<close>

lemma low_bits_zero: "(x::nat) AND (2 ^ n - 1) = 0 \<longleftrightarrow> 2 ^ n dvd x"
  by (metis take_bit_eq_mask mask_eq_exp_minus_1 take_bit_eq_0_iff)

lemma xor_is_add: "2 ^ Suc k dvd l \<Longrightarrow> l XOR 2 ^ k = l + (2::nat) ^ k"
proof -
  assume "2 ^ Suc k dvd l"
  then have "\<not> bit l k" by (auto simp: bit_iff_odd elim!: dvdE)
  then have "l AND 2 ^ k = 0" by (simp add: and_exp_eq_0_iff_not_bit)
  then show ?thesis by (rule disjunctive_add_eq_xor [symmetric])
qed

lemma continuous_cases:
  assumes "k < 31" "is_continuous_buddies a (get_buddy a k) k"
  shows "\<exists>l. 2 ^ Suc k dvd l \<and> (a = l \<and> get_buddy a k = l + 2 ^ k \<or> get_buddy a k = l \<and> a = l + 2 ^ k)"
proof -
  have q: "get_buddy a k = a XOR 2 ^ k" and a: "a = get_buddy a k XOR 2 ^ k"
    using assms(1) by (simp_all add: get_buddy_def get_buddy_index_def power_of_two_small xor.assoc)
  have "power_of_two (k + 1) = 2 ^ Suc k" using assms(1) by (simp add: power_of_two_small)
  then have "2 ^ Suc k dvd (if a < get_buddy a k then a else get_buddy a k)"
    using assms(2) unfolding is_continuous_buddies_def Let_def by (metis low_bits_zero)
  then have "2 ^ Suc k dvd a \<or> 2 ^ Suc k dvd get_buddy a k" by (metis)
  then show ?thesis using q a xor_is_add by metis
qed

lemma aligned_continuous:
  assumes "k < 31" "2 ^ k dvd a"
  shows "is_continuous_buddies a (get_buddy a k) k"
proof -
  have q: "get_buddy a k = a XOR 2 ^ k"
    using assms(1) by (simp add: get_buddy_def get_buddy_index_def power_of_two_small)
  have x: "a XOR get_buddy a k = 2 ^ k" unfolding q by (simp add: xor.assoc [symmetric])
  have p: "power_of_two (k + 1) = 2 ^ Suc k" "power_of_two k = 2 ^ k"
    using assms(1) by (simp_all add: power_of_two_small)
  obtain c where c: "a = 2 ^ k * c" using assms(2) by (elim dvdE)
  show ?thesis
  proof (cases "even c")
    case True
    then have "2 ^ Suc k dvd a" using c by auto
    moreover from this have "get_buddy a k = a + 2 ^ k" using q xor_is_add by simp
    ultimately show ?thesis unfolding is_continuous_buddies_def Let_def p x low_bits_zero by simp
  next
    case False
    then obtain d where "c = 2 * d + 1" by (elim oddE)
    then have l: "a = 2 ^ Suc k * d + 2 ^ k" using c by (simp add: algebra_simps)
    have "(2 ^ Suc k * d) XOR 2 ^ k = a" unfolding l by (rule xor_is_add) simp
    then have "get_buddy a k = 2 ^ Suc k * d" using q by (metis xor.assoc xor_self_eq xor.right_neutral)
    then show ?thesis using l unfolding is_continuous_buddies_def Let_def p x low_bits_zero by simp
  qed
qed

lemma get_buddy_neq: "k < 31 \<Longrightarrow> get_buddy b k \<noteq> b"
proof
  assume k: "k < 31" and b: "get_buddy b k = b"
  have "b XOR (b XOR 2 ^ k) = 2 ^ k" by (simp add: xor.assoc [symmetric])
  then show False using k b by (simp add: get_buddy_def get_buddy_index_def power_of_two_small)
qed

lemma aligned_head:
  assumes "j \<le> k" "2 ^ k dvd q" "2 ^ j dvd y" "q \<in> bblock j y"
  shows "q = y"
proof -
  have "2 ^ j dvd q - y" using assms(1-3) by (meson dvd_diff_nat dvd_trans le_imp_power_dvd)
  moreover have "q - y < 2 ^ j" "y \<le> q" using assms(4) by (auto simp: bblock_def)
  ultimately show ?thesis by (metis diff_is_0_eq dvd_imp_le le_antisym linorder_not_le gr0I)
qed

lemma aligned_inside:
  assumes "k < j" "2 ^ Suc k dvd l" "2 ^ j dvd y" "q \<in> bblock j y" "q \<in> bblock (Suc k) l"
  shows "bblock (Suc k) l \<subseteq> bblock j y"
proof -
  let ?D = "(2::nat) ^ Suc k"
  have "?D dvd 2 ^ j" using assms(1) by (intro le_imp_power_dvd) simp
  then obtain a b c where abc: "l = ?D * a" "y = ?D * b" "2 ^ j = ?D * c"
    using assms(2,3) by (metis dvdE dvd_trans)
  have "?D * b < ?D * (a + 1)" "?D * a < ?D * (b + c)"
    using assms(4,5) unfolding bblock_def abc by (auto simp: algebra_simps)
  then have "b < a + 1" "a < b + c" by (simp_all only: mult_less_cancel1)
  then have "b \<le> a" "a + 1 \<le> b + c" by simp_all
  then have "?D * b \<le> ?D * a" "?D * (a + 1) \<le> ?D * (b + c)" by (simp_all only: mult_le_mono2)
  then show ?thesis unfolding bblock_def abc by (auto simp: algebra_simps)
qed

text \<open>The state of the merge loop: the region \<open>bblock k base\<close> is free but in no list.\<close>

definition merging :: "buddy \<Rightarrow> (nat \<Rightarrow> nat list) \<Rightarrow> (nat \<times> nat) set \<Rightarrow> nat \<Rightarrow> nat \<Rightarrow> bool" where
  "merging s L A base k \<longleftrightarrow>
     buddy_wf s L \<and> buddy_aligned L \<and> k \<le> MAX_ORDER \<and> 2 ^ k dvd base \<and> bblock k base \<inter> buddy_set L = {} \<and>
     card (buddy_set L \<union> bblock k base) < 2 ^ 32 \<and> buddy_given A (buddy_set L \<union> bblock k base) \<and>
     buddy_heads s A \<and> buddy_marks s A (buddy_set L \<union> bblock k base) \<and> PageProperty base s"

lemma merging_buddy_free:
  assumes m: "merging s L A base k" and k: "k < MAX_ORDER"
    and q: "PageProperty (get_buddy base k) s" "psize s (get_buddy base k) = k"
  shows "get_buddy base k \<in> set (L k)"
proof -
  let ?q = "get_buddy base k"
  have al: "2 ^ k dvd base" and k31: "k < 31" using m k by (simp_all add: merging_def MAX_ORDER_def)
  obtain l where l: "2 ^ Suc k dvd l" "base = l \<and> ?q = l + 2 ^ k \<or> ?q = l \<and> base = l + 2 ^ k"
    using continuous_cases [OF k31 aligned_continuous [OF k31 al]] by blast
  then have in2: "?q \<in> bblock (Suc k) l" "base \<in> bblock (Suc k) l" and out: "?q \<notin> bblock k base"
    by (auto simp: bblock_def)
  have qal: "2 ^ k dvd ?q" using l by (auto elim: dvd_trans [rotated])
  have base: "base \<in> bblock k base" "base \<notin> buddy_set L"
    using m bblock_head [of base k] unfolding merging_def by blast+
  have "?q \<in> buddy_set L \<or> (\<exists>(j, y)\<in>A. ?q \<in> bblock j y)"
    using m q(1) out by (auto simp: merging_def buddy_marks_def)
  then show ?thesis
  proof
    assume "?q \<in> buddy_set L"
    then obtain j y where j: "j \<le> MAX_ORDER" "y \<in> set (L j)" "?q \<in> bblock j y"
      by (auto simp: buddy_set_iff)
    then have yal: "2 ^ j dvd y" using m by (simp add: merging_def buddy_aligned_def)
    have "base \<in> buddy_set L" if "k < j"
      using aligned_inside [OF that l(1) yal j(3) in2(1)] in2(2) buddy_set_mem [of j y L] j(1,2) by blast
    then have "j \<le> k" using base(2) by (meson linorder_not_le)
    then have "?q = y" using aligned_head [OF _ qal yal j(3)] by simp
    moreover have "psize s y = j" using buddy_wfD(3) [of s L j y] j m unfolding merging_def by blast
    ultimately show ?thesis using j(2) q(2) by simp
  next
    assume "\<exists>(j, y)\<in>A. ?q \<in> bblock j y"
    then obtain j y where j: "(j, y) \<in> A" "?q \<in> bblock j y" by blast
    have gv: "buddy_given A (buddy_set L \<union> bblock k base)" using m by (simp add: merging_def)
    note yal = buddy_givenD(2) [OF gv j(1)]
    have "base \<in> bblock j y" if "k < j"
      using aligned_inside [OF that l(1) yal j(2) in2(1)] in2(2) by blast
    then have "j \<le> k" using buddy_givenD(3) [OF gv j(1)] base(1) by (meson disjoint_iff UnI2 linorder_not_le)
    then have "?q = y" using aligned_head [OF _ qal yal j(2)] by simp
    then show ?thesis using m j(1) q(1) by (auto simp: merging_def buddy_heads_def)
  qed
qed

lemma merging_step:
  assumes m: "merging s L A base k" and k: "k < MAX_ORDER" and q: "get_buddy base k \<in> set (L k)"
  shows "merging (drop_free k (get_buddy base k) s) (L(k := remove1 (get_buddy base k) (L k))) A
      (if get_buddy base k < base then get_buddy base k else base) (Suc k)"
    and "buddy_set (L(k := remove1 (get_buddy base k) (L k))) \<union>
        bblock (Suc k) (if get_buddy base k < base then get_buddy base k else base) =
      buddy_set L \<union> bblock k base"
    and "bblock k base \<subseteq> bblock (Suc k) (if get_buddy base k < base then get_buddy base k else base)"
proof -
  let ?q = "get_buddy base k"
  let ?b = "if ?q < base then ?q else base"
  let ?L = "L(k := remove1 ?q (L k))"
  have k': "k \<le> MAX_ORDER" "k < 31" and al: "2 ^ k dvd base" and wf: "buddy_wf s L"
    using m k by (simp_all add: merging_def MAX_ORDER_def)
  obtain l where l: "2 ^ Suc k dvd l" "base = l \<and> ?q = l + 2 ^ k \<or> ?q = l \<and> base = l + 2 ^ k"
    using continuous_cases [OF k'(2) aligned_continuous [OF k'(2) al]] by blast
  then have b: "?b = l" and two: "bblock (Suc k) l = bblock k base \<union> bblock k ?q"
    "bblock k base \<inter> bblock k ?q = {}" using bblock_halves [of k l] by auto
  have set1: "buddy_set ?L = buddy_set L - bblock k ?q"
    by (intro buddy_set_drop buddy_wfD(4) [OF wf] k'(1) q buddy_wf_distinct [OF wf])
  have sub: "bblock k ?q \<subseteq> buddy_set L" by (rule buddy_set_mem [of k ?q L, OF k'(1) q])
  show un: "buddy_set ?L \<union> bblock (Suc k) ?b = buddy_set L \<union> bblock k base"
    unfolding b two set1 using sub by blast
  show "bblock k base \<subseteq> bblock (Suc k) ?b" unfolding b two by blast
  have "buddy_aligned ?L" using m by (auto simp: merging_def buddy_aligned_def dest: subsetD [OF set_remove1_subset])
  moreover have "bblock (Suc k) ?b \<inter> buddy_set ?L = {}"
    unfolding b two set1 using m unfolding merging_def by blast
  moreover have "PageProperty l s"
    using m buddy_wfD(3) [OF wf k'(1) q] b by (auto simp: merging_def split: if_splits)
  ultimately show "merging (drop_free k ?q s) ?L A ?b (Suc k)"
    using m k drop_free_wf [OF wf k'(1) q] l(1) unfolding merging_def un
    by (simp add: b buddy_heads_def buddy_marks_def frame_simps)
qed

lemma sub32_sub32:
  assumes "b + c < 2 ^ 32"
  shows "sub32 (sub32 a b) c = sub32 a (b + c)"
proof -
  have "b < 2 ^ 32" "c < 2 ^ 32" using assms by simp_all
  then have "sub32 (sub32 a b) c = ((a + (2 ^ 32 - b)) + (2 ^ 32 - c)) mod 2 ^ 32"
    unfolding sub32_def by (simp only: mod_add_left_eq mod_less)
  also have "(a + (2 ^ 32 - b)) + (2 ^ 32 - c) = (a + (2 ^ 32 - (b + c))) + 2 ^ 32" using assms by simp
  also have "\<dots> mod 2 ^ 32 = sub32 a (b + c)"
    using assms unfolding sub32_def by (simp only: mod_add_self2 mod_less)
  finally show ?thesis .
qed

text \<open>
  The loop ends with the region merged upwards as far as the free lists allow, and it takes the
  pages of every buddy off \<^verbatim>\<open>nr_free\<close> on the way.
\<close>

lemma merge_loop_merging:
  assumes "merging s L A base k" "nr_free s < 2 ^ 32"
  shows "\<exists>b m t L'. merge_loop base k s = (b, m, t) \<and> merging t L' A b m \<and> k \<le> m \<and>
    buddy_set L' \<union> bblock m b = buddy_set L \<union> bblock k base \<and> bblock k base \<subseteq> bblock m b \<and>
    (m = MAX_ORDER \<or> get_buddy b m \<notin> set (L' m)) \<and>
    (k < MAX_ORDER \<and> get_buddy base k \<in> set (L k) \<longrightarrow> k < m) \<and>
    nr_free t = sub32 (nr_free s) (2 ^ m - 2 ^ k)"
  using assms
proof (induction "MAX_ORDER - k" arbitrary: s L base k)
  case 0
  then have "k = MAX_ORDER" by (simp add: merging_def)
  with 0 show ?case
    by (subst merge_loop.simps) (auto simp: sub32_le intro!: exI [of _ L])
next
  case (Suc d)
  let ?q = "get_buddy base k"
  let ?b = "if ?q < base then ?q else base"
  let ?L = "L(k := remove1 ?q (L k))"
  have k: "k < MAX_ORDER" "d = MAX_ORDER - Suc k" using Suc.hyps(2) by simp_all
  have k31: "k < 31" "2 ^ k dvd base" using k Suc.prems(1) by (simp_all add: MAX_ORDER_def merging_def)
  have test: "PageProperty ?q s \<and> psize s ?q = k \<longleftrightarrow> ?q \<in> set (L k)"
    using merging_buddy_free [OF Suc.prems(1) k(1)] buddy_wfD(3) [of s L k ?q] Suc.prems(1) k(1)
    by (auto simp: merging_def)
  then have step: "merge_loop base k s =
      (if ?q \<in> set (L k) then merge_loop ?b (Suc k) (drop_free k ?q s) else (base, k, s))"
    using k(1) aligned_continuous [OF k31]
    by (subst merge_loop.simps) (auto simp: Let_def page_is_allocated_def get_page_order_def)
  show ?case
  proof (cases "?q \<in> set (L k)")
    case False
    then show ?thesis using step Suc.prems by (auto simp: sub32_le intro!: exI [of _ L])
  next
    case True
    note ms = merging_step [OF Suc.prems(1) k(1) True]
    have "nr_free (drop_free k ?q s) < 2 ^ 32" by (simp add: frame_simps sub32_def)
    then obtain b m t L' where r: "merge_loop ?b (Suc k) (drop_free k ?q s) = (b, m, t)"
      "merging t L' A b m" "Suc k \<le> m" "buddy_set L' \<union> bblock m b = buddy_set ?L \<union> bblock (Suc k) ?b"
      "bblock (Suc k) ?b \<subseteq> bblock m b" "m = MAX_ORDER \<or> get_buddy b m \<notin> set (L' m)"
      "nr_free t = sub32 (nr_free (drop_free k ?q s)) (2 ^ m - 2 ^ Suc k)"
      using Suc.hyps(1) [OF k(2) ms(1)] by blast
    have "m \<le> MAX_ORDER" using r(2) by (simp add: merging_def)
    then have "(2::nat) ^ m \<le> 2 ^ 10" "(2::nat) ^ Suc k \<le> 2 ^ m"
      using r(3) by (simp_all only: MAX_ORDER_def power_increasing one_le_numeral)
    then have "nr_free t = sub32 (nr_free s) (2 ^ m - 2 ^ k)"
      using Suc.prems(2) k31(1) sub32_sub32 [of "2 ^ k" "2 ^ m - 2 ^ Suc k" "nr_free s"]
      unfolding r(7) by (simp add: frame_simps power_of_two_small)
    moreover have "buddy_set L' \<union> bblock m b = buddy_set L \<union> bblock k base" using r(4) ms(2) by blast
    ultimately show ?thesis
      using step True r(1,2,3,5,6) ms(3) by (intro exI [of _ b] exI [of _ m] exI [of _ t] exI [of _ L']) auto
  qed
qed

lemma buddy_free_block:
  assumes inv: "buddy_inv s L A" and kb: "(k, base) \<in> A" and nr: "nr_free s + 2 ^ k < 2 ^ 32"
    and card: "card (buddy_set L \<union> bblock k base) < 2 ^ 32"
  shows "\<exists>b m t L'. buddy_free_pages base (2 ^ k) s = Some t \<and> buddy_inv t L' (A - {(k, base)}) \<and>
     buddy_set L' = buddy_set L \<union> bblock k base \<and> k \<le> m \<and> m \<le> MAX_ORDER \<and>
     b \<in> set (L' m) \<and> bblock k base \<subseteq> bblock m b \<and>
     (m = MAX_ORDER \<or> get_buddy b m \<notin> set (L' m)) \<and>
     (k < MAX_ORDER \<and> get_buddy base k \<in> set (L k) \<longrightarrow> k < m) \<and>
     nr_free t = sub32 (nr_free s + 2 ^ k) (2 ^ m - 2 ^ k)"
proof -
  let ?A = "A - {(k, base)}"
  have wf: "buddy_wf s L" and gv: "buddy_given A (buddy_set L)" and hd: "buddy_heads s A"
    and mk: "buddy_marks s A (buddy_set L)" using inv by (simp_all add: buddy_inv_def)
  have kM: "k \<le> MAX_ORDER" using buddy_givenD(1) [OF gv kb] .
  let ?s = "(set_page_freed base s)\<lparr>nr_free := u32 (nr_free (set_page_freed base s) + 2 ^ k)\<rparr>"
  have dis: "bblock j y \<inter> bblock k base = {}" if "(j, y) \<in> ?A" for j y
    using buddy_givenD(4) [OF gv _ kb] that by blast
  have "buddy_given ?A (buddy_set L \<union> bblock k base)"
    using gv dis by (auto simp: buddy_given_def Int_Un_distrib simp del: bblock_finite)
  moreover have "buddy_heads ?s ?A"
  proof -
    have "y \<noteq> base" if "(j, y) \<in> ?A" for j y
      using dis [OF that] bblock_head [of base j] bblock_head [of base k] by blast
    then show ?thesis using hd by (auto simp: buddy_heads_def set_page_freed_def frame_simps)
  qed
  moreover have "buddy_marks ?s ?A (buddy_set L \<union> bblock k base)"
    using mk bblock_head [of base k] by (fastforce simp: buddy_marks_def set_page_freed_def frame_simps)
  moreover have "buddy_wf ?s L"
    unfolding set_page_freed_def by (intro buddy_wf_page_updates wf)
  ultimately have "merging ?s L ?A base k"
    using inv kM buddy_givenD [OF gv kb] card
    by (simp add: merging_def buddy_inv_def set_page_freed_def frame_simps)
  moreover have "nr_free ?s < 2 ^ 32" by simp
  ultimately obtain b m t L' where r: "merge_loop base k ?s = (b, m, t)" "merging t L' ?A b m" "k \<le> m"
    "buddy_set L' \<union> bblock m b = buddy_set L \<union> bblock k base" "bblock k base \<subseteq> bblock m b"
    "m = MAX_ORDER \<or> get_buddy b m \<notin> set (L' m)"
    "k < MAX_ORDER \<and> get_buddy base k \<in> set (L k) \<longrightarrow> k < m"
    "nr_free t = sub32 (nr_free ?s) (2 ^ m - 2 ^ k)"
    using merge_loop_merging by metis
  have mM: "m \<le> MAX_ORDER" "u32 m = m" and al: "2 ^ m dvd b" and bn: "b \<notin> buddy_set L'"
    and gv': "buddy_given ?A (buddy_set L' \<union> bblock m b)" and pb: "PageProperty b t"
    using r(2) bblock_head [of b m] unfolding merging_def by (auto simp: MAX_ORDER_def simp del: bblock_head)
  let ?t = "push_free m b (set_page_order b m t)"
  let ?L = "L'(m := b # L' m)"
  have sets: "buddy_set ?L = buddy_set L' \<union> bblock m b" using buddy_set_push [OF mM(1)] .
  have "buddy_wf ?t ?L"
    using r(2) mM bn pb unfolding merging_def set_page_order_def
    by (intro push_free_wf buddy_wf_page_updates) (auto simp: frame_simps)
  moreover have "buddy_aligned ?L" using r(2) al by (auto simp: merging_def buddy_aligned_def)
  moreover have "buddy_heads ?t ?A"
  proof -
    have "y \<noteq> b" if "(j, y) \<in> ?A" for j y
      using buddy_givenD(3) [OF gv' that] bblock_head [of y j] bblock_head [of b m] by blast
    then show ?thesis using r(2) by (auto simp: merging_def buddy_heads_def set_page_order_def frame_simps)
  qed
  moreover have "buddy_marks ?t ?A (buddy_set ?L)"
    using r(2) unfolding sets by (simp add: merging_def buddy_marks_def set_page_order_def frame_simps)
  ultimately have "buddy_inv ?t ?L ?A" using gv' sets by (simp add: buddy_inv_def)
  moreover have "get_page_order base s = k" using hd kb by (auto simp: buddy_heads_def get_page_order_def)
  then have "buddy_free_pages base (2 ^ k) s = Some ?t"
    using r(1) kM by (simp add: buddy_free_pages_def power_of_two_small MAX_ORDER_def)
  moreover have "nr_free ?t = sub32 (nr_free s + 2 ^ k) (2 ^ m - 2 ^ k)"
    using r(8) nr by (simp add: set_page_order_def set_page_freed_def frame_simps)
  moreover have "m = MAX_ORDER \<or> get_buddy b m \<notin> set (?L m)"
    using r(6) get_buddy_neq mM(1) by (auto simp: MAX_ORDER_def)
  ultimately show ?thesis
    using r(3-7) sets mM(1) by (intro exI [of _ b] exI [of _ m] exI [of _ ?t] exI [of _ ?L]) auto
qed

lemma card_bblock [simp]: "card (bblock k b) = 2 ^ k"
  by (simp add: bblock_def)

text \<open>A concrete area for the witnesses: page 0 is allocated, pages 1 to 7 are free in
  blocks of 1, 2 and 4 pages.\<close>

definition demo_buddy_next :: "bnode \<Rightarrow> bnode" where
  "demo_buddy_next n = (case n of
      BHead k \<Rightarrow> if k = 0 then BPage 1 else if k = 1 then BPage 2 else if k = 2 then BPage 4 else BHead k
    | BPage p \<Rightarrow> if p = 1 then BHead 0 else if p = 2 then BHead 1 else if p = 4 then BHead 2 else BPage p)"

definition demo_buddy :: buddy where
  "demo_buddy =
     \<lparr>pages = (\<lambda>p. \<lparr>pg_ref = 0, flags = (if p = 1 \<or> p = 2 \<or> p = 4 then 2 else 0),
        property = (if p = 2 then 1 else if p = 4 then 2 else 0)\<rparr>),
      links = \<lparr>prv = demo_buddy_next, nxt = demo_buddy_next\<rparr>, nr_free = 7,
      buddy_nr_free = (\<lambda>k. if k \<le> 2 then 1 else 0)\<rparr>"

definition demo_lists :: "nat \<Rightarrow> nat list" where
  "demo_lists k = (if k = 0 then [1] else if k = 1 then [2] else if k = 2 then [4] else [])"

lemma demo_lists_mem: "x \<in> set (demo_lists k) \<longleftrightarrow> (k, x) = (0, 1) \<or> (k, x) = (1, 2) \<or> (k, x) = (2, 4)"
  by (auto simp: demo_lists_def)

lemma demo_buddy_set: "buddy_set demo_lists = {1 ..< 8}"
proof (rule set_eqI)
  fix q
  have "q \<in> buddy_set demo_lists \<longleftrightarrow> q \<in> bblock 0 1 \<or> q \<in> bblock 1 2 \<or> q \<in> bblock 2 4"
    unfolding buddy_set_iff demo_lists_mem MAX_ORDER_def
    by (auto intro: exI [of _ "Suc 0"] exI [of _ "2::nat"])
  then show "q \<in> buddy_set demo_lists \<longleftrightarrow> q \<in> {1 ..< 8}" by (auto simp: bblock_def)
qed

lemma demo_buddy_marks: "PageProperty q demo_buddy \<longleftrightarrow> q = 1 \<or> q = 2 \<or> q = 4"
  by (simp add: PageProperty_def demo_buddy_def PG_property_def bit_iff_odd)

lemma demo_buddy_size: "psize demo_buddy q = (if q = 2 then 1 else if q = 4 then 2 else 0)"
  by (simp add: demo_buddy_def)

lemma demo_buddy_inv: "buddy_inv demo_buddy demo_lists {(0, 0)}"
proof -
  have "buddy_disjoint demo_lists"
    by (simp only: buddy_disjoint_def) (auto simp: bblock_def demo_lists_mem)
  moreover have "dlist (links demo_buddy) (BHead k) (map BPage (demo_lists k))" for k
    by (simp add: dlist_def demo_buddy_def demo_buddy_next_def demo_lists_def)
  moreover have "buddy_nr_free demo_buddy k = length (demo_lists k)" for k
    by (simp add: demo_buddy_def demo_lists_def)
  moreover have "psize demo_buddy x = k \<and> PageProperty x demo_buddy" if "x \<in> set (demo_lists k)" for k x
    using that by (auto simp: demo_buddy_marks demo_lists_mem demo_buddy_size)
  ultimately have "buddy_wf demo_buddy demo_lists" by (simp add: buddy_wf_def demo_buddy_set)
  moreover have "buddy_aligned demo_lists" by (simp add: buddy_aligned_def demo_lists_def)
  ultimately show ?thesis
    by (simp add: buddy_inv_def buddy_given_def buddy_heads_def buddy_marks_def demo_buddy_set demo_buddy_marks
        bblock_def demo_buddy_size)
qed

theorem buddy_alloc_correct_witness:
  "\<exists>b t L'. buddy_alloc_pages 2 demo_buddy = Some (Some b, t) \<and> buddy_inv t L' (insert (1, b) {(0, 0)}) \<and>
     buddy_set L' = {1 ..< 8} - bblock 1 b"
proof -
  have nr: "nr_free demo_buddy = 7" by (simp add: demo_buddy_def)
  from buddy_alloc_correct [OF demo_buddy_inv, of 2] obtain r where
    r: "2 \<le> (2::nat) ^ r" "\<forall>j<r. 2 ^ j < (2::nat)" and
    c: "if nr_free demo_buddy < 2 \<or> MAX_ORDER < r \<or> (\<forall>k. r \<le> k \<and> k \<le> MAX_ORDER \<longrightarrow> demo_lists k = [])
     then buddy_alloc_pages 2 demo_buddy = Some (None, demo_buddy)
     else \<exists>b t L'. buddy_alloc_pages 2 demo_buddy = Some (Some b, t) \<and>
       buddy_inv t L' (insert (r, b) {(0, 0)}) \<and> bblock r b \<subseteq> buddy_set demo_lists \<and>
       buddy_set L' = buddy_set demo_lists - bblock r b \<and> nr_free t = sub32 (nr_free demo_buddy) (2 ^ r)"
    by (auto simp: nr)
  have "r = 1"
  proof (cases r)
    case (Suc j)
    have "\<not> 1 < r" using r(2) by (metis less_irrefl power_one_right)
    with Suc show ?thesis by simp
  qed (use r in simp)
  moreover have "demo_lists 1 \<noteq> []" by (simp add: demo_lists_def)
  ultimately have "\<not> (nr_free demo_buddy < 2 \<or> MAX_ORDER < r \<or> (\<forall>k. r \<le> k \<and> k \<le> MAX_ORDER \<longrightarrow> demo_lists k = []))"
    by (auto simp: nr MAX_ORDER_def)
  with c have "\<exists>b t L'. buddy_alloc_pages 2 demo_buddy = Some (Some b, t) \<and>
       buddy_inv t L' (insert (r, b) {(0, 0)}) \<and> bblock r b \<subseteq> buddy_set demo_lists \<and>
       buddy_set L' = buddy_set demo_lists - bblock r b \<and> nr_free t = sub32 (nr_free demo_buddy) (2 ^ r)"
    by (simp only: if_False)
  then show ?thesis unfolding demo_buddy_set \<open>r = 1\<close> by blast
qed

text \<open>
  C6: \<^verbatim>\<open>buddy_free_pages\<close> gives back a block.  For an allocated block of order \<open>k\<close> it returns, the
  free set grows by exactly the block's \<open>2 ^ k\<close> pages, the block ends up inside one free block of an
  order \<open>m\<close>, whose own buddy is not in the list of that order (merging went as far as it could),
  and the invariant of lists, marks and alignment holds for the remaining allocated blocks.
\<close>

theorem buddy_free_correct:
  assumes "buddy_inv s L A" and "(k, base) \<in> A" and "nr_free s + 2 ^ k < 2 ^ 32"
    and "card (buddy_set L \<union> bblock k base) < 2 ^ 32"
  shows "\<exists>b m t L'. buddy_free_pages base (2 ^ k) s = Some t \<and> buddy_inv t L' (A - {(k, base)}) \<and>
     buddy_set L' = buddy_set L \<union> bblock k base \<and>
     m \<le> MAX_ORDER \<and> b \<in> set (L' m) \<and> bblock k base \<subseteq> bblock m b \<and>
     (m = MAX_ORDER \<or> get_buddy b m \<notin> set (L' m))"
  using buddy_free_block [OF assms] by blast

theorem buddy_free_correct_witness:
  "\<exists>t L'. buddy_free_pages 0 1 demo_buddy = Some t \<and> buddy_inv t L' {} \<and> buddy_set L' = {0 ..< 8}"
proof -
  have "\<exists>b m t L'. buddy_free_pages 0 (2 ^ 0) demo_buddy = Some t \<and> buddy_inv t L' ({(0, 0)} - {(0, 0)}) \<and>
     buddy_set L' = buddy_set demo_lists \<union> bblock 0 0 \<and>
     m \<le> MAX_ORDER \<and> b \<in> set (L' m) \<and> bblock 0 0 \<subseteq> bblock m b \<and>
     (m = MAX_ORDER \<or> get_buddy b m \<notin> set (L' m))"
    by (rule buddy_free_correct [OF demo_buddy_inv])
       (simp_all add: demo_buddy_set bblock_def, simp_all add: demo_buddy_def)
  moreover have "{1 ..< 8} \<union> bblock 0 0 = {0 ..< 8}" by (auto simp: bblock_def)
  ultimately show ?thesis unfolding demo_buddy_set by auto
qed

text \<open>
  Merging loses pages from the count.  When the counter is exact and the freed block's buddy is
  free, the free lists gain \<open>2 ^ k\<close> pages but \<^verbatim>\<open>nr_free\<close> does not grow at all: every merge takes the
  buddy's pages off \<^verbatim>\<open>nr_free\<close> and nothing adds the merged block back.
\<close>

theorem buddy_free_loses_pages:
  assumes "buddy_inv s L A" and "(k, base) \<in> A" and "k < MAX_ORDER" and "get_buddy base k \<in> set (L k)"
    and "nr_free s = card (buddy_set L)" and "nr_free s + 2 ^ k < 2 ^ 32"
  shows "\<exists>t L'. buddy_free_pages base (2 ^ k) s = Some t \<and> buddy_inv t L' (A - {(k, base)}) \<and>
     card (buddy_set L') = nr_free s + 2 ^ k \<and> buddy_nr_free_pages t \<le> nr_free s"
proof -
  have gv: "buddy_given A (buddy_set L)" using assms(1) by (simp add: buddy_inv_def)
  have "card (buddy_set L \<union> bblock k base) = nr_free s + 2 ^ k"
    using buddy_givenD(3) [OF gv assms(2)] assms(5) by (subst card_Un_disjoint) auto
  moreover from this assms(6) have "card (buddy_set L \<union> bblock k base) < 2 ^ 32" by simp
  ultimately obtain b m t L' where r: "buddy_free_pages base (2 ^ k) s = Some t"
    "buddy_inv t L' (A - {(k, base)})" "card (buddy_set L') = nr_free s + 2 ^ k" "m \<le> MAX_ORDER"
    "b \<in> set (L' m)" "k < m" "nr_free t = sub32 (nr_free s + 2 ^ k) (2 ^ m - 2 ^ k)"
    using buddy_free_block [OF assms(1,2,6)] assms(3,4) by metis
  have "card (bblock m b) \<le> card (buddy_set L')"
    using buddy_set_mem [of m b L', OF r(4,5)] by (intro card_mono) auto
  then have "2 ^ m \<le> nr_free s + 2 ^ k" using r(3) by simp
  moreover have "2 * 2 ^ k \<le> (2::nat) ^ m" using r(6) power_increasing [of "Suc k" m "2::nat"] by simp
  moreover have "sub32 (nr_free s + 2 ^ k) (2 ^ m - 2 ^ k) = nr_free s + 2 ^ k - (2 ^ m - 2 ^ k)"
    using calculation(1) assms(6) by (intro sub32_le) auto
  ultimately have "buddy_nr_free_pages t \<le> nr_free s" using r(7) by (simp add: buddy_nr_free_pages_def)
  with r show ?thesis by blast
qed

theorem buddy_free_loses_pages_witness:
  "\<exists>t L'. buddy_free_pages 0 1 demo_buddy = Some t \<and> buddy_inv t L' {} \<and>
     card (buddy_set L') = 8 \<and> buddy_nr_free_pages t \<le> 7"
proof -
  have "get_buddy 0 0 = 1" by (simp add: get_buddy_def get_buddy_index_def power_of_two_def)
  then have "\<exists>t L'. buddy_free_pages 0 (2 ^ 0) demo_buddy = Some t \<and> buddy_inv t L' ({(0, 0)} - {(0, 0)}) \<and>
     card (buddy_set L') = nr_free demo_buddy + 2 ^ 0 \<and> buddy_nr_free_pages t \<le> nr_free demo_buddy"
    by (intro buddy_free_loses_pages [OF demo_buddy_inv])
       (simp_all add: demo_buddy_set demo_lists_def MAX_ORDER_def, simp_all add: demo_buddy_def)
  then show ?thesis by (simp add: demo_buddy_def)
qed

text \<open>
  A request that is not a power of two cannot be given back with its own size: after a
  successful \<^verbatim>\<open>buddy_alloc_pages(n)\<close>, \<^verbatim>\<open>buddy_free_pages(page, n)\<close> fails its assertion.
\<close>

theorem buddy_free_of_odd_size_panics:
  assumes "buddy_inv s L A" and "0 < n" and "nr_free s \<le> 2 ^ 31" and "\<forall>r. n \<noteq> 2 ^ r"
    and "buddy_alloc_pages n s = Some (Some p, t)"
  shows "buddy_free_pages p n t = None"
proof -
  obtain r L' where r: "buddy_inv t L' (insert (r, p) A)" "r \<le> MAX_ORDER"
    using buddy_alloc_cases [OF assms(1-3)] assms(5) by (auto split: if_splits)
  then have "psize t p = r" by (simp add: buddy_inv_def buddy_heads_def)
  then have "power_of_two (get_page_order p t) = 2 ^ r"
    using r(2) by (simp add: get_page_order_def power_of_two_small MAX_ORDER_def)
  then have "power_of_two (get_page_order p t) \<noteq> n" using assms(4) by metis
  then show ?thesis by (simp add: buddy_free_pages_def)
qed


theorem buddy_free_of_odd_size_panics_witness:
  "\<exists>p t. buddy_alloc_pages 3 demo_buddy = Some (Some p, t) \<and> buddy_free_pages p 3 t = None"
proof -
  have nr: "nr_free demo_buddy = 7" by (simp add: demo_buddy_def)
  have "log2_ceil 3 = Some 2"
    unfolding log2_ceil_def u32_def by (simp, rule log2_ceil_from_Some) (auto simp: less_2_cases_iff)
  moreover have "find_order 2 demo_buddy = Some 2"
    by (subst find_order.simps) (simp add: demo_buddy_def MAX_ORDER_def)
  ultimately obtain p t where "buddy_alloc_pages 3 demo_buddy = Some (Some p, t)"
    using buddy_alloc_block [OF demo_buddy_inv, of 3 2 2] by (auto simp: nr MAX_ORDER_def)
  moreover have "3 \<noteq> (2::nat) ^ r" for r
  proof (cases r)
    case (Suc m)
    then have "even ((2::nat) ^ r)" by simp
    moreover have "odd (3::nat)" by simp
    ultimately show ?thesis by metis
  qed simp
  ultimately show ?thesis
    using buddy_free_of_odd_size_panics [OF demo_buddy_inv, of 3] by (auto simp: nr)
qed

end
