(* ===== verification/KString.thy ===== *)
theory KString
  imports Prelude
begin

text \<open>
  The string routines of \<^verbatim>\<open>libs/string.c\<close> over a memory of bytes with natural numbers as addresses.
  The routines read and write the memory in the order of the code, so overlapping operands behave as
  they do there.  A loop that looks for a terminating zero is \<open>partial_function (option)\<close>: it is \<open>None\<close>
  in a memory without one.  \<open>cstr m s bs\<close> says that the string \<open>bs\<close> stands at \<open>s\<close>; each routine is
  proved to compute the corresponding function on lists.
\<close>

type_synonym cmem = "nat \<Rightarrow> 8 word"

section \<open>The routines\<close>

partial_function (option) strlen_from :: "cmem \<Rightarrow> nat \<Rightarrow> nat \<Rightarrow> nat option" where
  "strlen_from m s cnt = (if m s \<noteq> 0 then strlen_from m (s + 1) (cnt + 1) else Some cnt)"

definition strlen :: "cmem \<Rightarrow> nat \<Rightarrow> nat option" where "strlen m s = strlen_from m s 0"

text \<open>The first argument counts down \<^verbatim>\<open>len - cnt\<close>.\<close>

fun strnlen_from :: "nat \<Rightarrow> cmem \<Rightarrow> nat \<Rightarrow> nat \<Rightarrow> nat" where
  "strnlen_from 0 m s cnt = cnt"
| "strnlen_from (Suc k) m s cnt = (if m s \<noteq> 0 then strnlen_from k m (s + 1) (cnt + 1) else cnt)"

definition strnlen :: "cmem \<Rightarrow> nat \<Rightarrow> nat \<Rightarrow> nat" where "strnlen m s len = strnlen_from len m s 0"

partial_function (option) strcpy :: "nat \<Rightarrow> nat \<Rightarrow> cmem \<Rightarrow> cmem option" where
  "strcpy p src m =
     (let c = m src; m1 = m(p := c) in if c \<noteq> 0 then strcpy (p + 1) (src + 1) m1 else Some m1)"

fun strncpy :: "nat \<Rightarrow> nat \<Rightarrow> nat \<Rightarrow> cmem \<Rightarrow> cmem" where
  "strncpy p src 0 m = m"
| "strncpy p src (Suc len) m =
     (let c = m src; m1 = m(p := c) in strncpy (p + 1) (if c \<noteq> 0 then src + 1 else src) len m1)"

definition strcat :: "nat \<Rightarrow> nat \<Rightarrow> cmem \<Rightarrow> cmem option" where
  "strcat dst src m = do { n \<leftarrow> strlen m dst; strcpy (dst + n) src m }"

definition byte_diff :: "8 word \<Rightarrow> 8 word \<Rightarrow> int" where "byte_diff a b = uint a - uint b"

partial_function (option) strcmp :: "cmem \<Rightarrow> nat \<Rightarrow> nat \<Rightarrow> int option" where
  "strcmp m s1 s2 =
     (if m s1 \<noteq> 0 \<and> m s1 = m s2 then strcmp m (s1 + 1) (s2 + 1) else Some (byte_diff (m s1) (m s2)))"

fun strncmp :: "cmem \<Rightarrow> nat \<Rightarrow> nat \<Rightarrow> nat \<Rightarrow> int" where
  "strncmp m s1 s2 0 = 0"
| "strncmp m s1 s2 (Suc n) =
     (if m s1 \<noteq> 0 \<and> m s1 = m s2 then strncmp m (s1 + 1) (s2 + 1) n else byte_diff (m s1) (m s2))"

partial_function (option) strchr :: "cmem \<Rightarrow> nat \<Rightarrow> 8 word \<Rightarrow> nat option option" where
  "strchr m s c = (if m s = 0 then Some None else if m s = c then Some (Some s) else strchr m (s + 1) c)"

partial_function (option) strfind :: "cmem \<Rightarrow> nat \<Rightarrow> 8 word \<Rightarrow> nat option" where
  "strfind m s c = (if m s = 0 then Some s else if m s = c then Some s else strfind m (s + 1) c)"

fun memset :: "nat \<Rightarrow> 8 word \<Rightarrow> nat \<Rightarrow> cmem \<Rightarrow> cmem" where
  "memset p c 0 m = m"
| "memset p c (Suc n) m = memset (p + 1) c n (m(p := c))"

fun copy_up :: "nat \<Rightarrow> nat \<Rightarrow> nat \<Rightarrow> cmem \<Rightarrow> cmem" where
  "copy_up d s 0 m = m"
| "copy_up d s (Suc n) m = copy_up (d + 1) (s + 1) n (m(d := m s))"

text \<open>The downward loop of \<^verbatim>\<open>memmove\<close>; \<open>d\<close> and \<open>s\<close> are the ends of what is left to copy.\<close>

fun copy_down :: "nat \<Rightarrow> nat \<Rightarrow> nat \<Rightarrow> cmem \<Rightarrow> cmem" where
  "copy_down d s 0 m = m"
| "copy_down d s (Suc n) m = copy_down (d - 1) (s - 1) n (m(d - 1 := m (s - 1)))"

definition memmove :: "nat \<Rightarrow> nat \<Rightarrow> nat \<Rightarrow> cmem \<Rightarrow> cmem" where
  "memmove dst src n m =
     (if src < dst \<and> dst < src + n then copy_down (dst + n) (src + n) n m else copy_up dst src n m)"

definition memcpy :: "nat \<Rightarrow> nat \<Rightarrow> nat \<Rightarrow> cmem \<Rightarrow> cmem" where
  "memcpy dst src n m = copy_up dst src n m"

fun memcmp :: "cmem \<Rightarrow> nat \<Rightarrow> nat \<Rightarrow> nat \<Rightarrow> int" where
  "memcmp m s1 s2 0 = 0"
| "memcmp m s1 s2 (Suc n) =
     (if m s1 \<noteq> m s2 then byte_diff (m s1) (m s2) else memcmp m (s1 + 1) (s2 + 1) n)"

section \<open>strtol\<close>

definition ascii :: "char \<Rightarrow> 8 word" where "ascii c = of_nat (of_char c)"

partial_function (option) skip_blanks :: "cmem \<Rightarrow> nat \<Rightarrow> nat option" where
  "skip_blanks m s = (if m s = ascii CHR '' '' \<or> m s = 9 then skip_blanks m (s + 1) else Some s)"

definition strtol_sign :: "cmem \<Rightarrow> nat \<Rightarrow> bool \<times> nat" where
  "strtol_sign m s =
     (if m s = ascii CHR ''+'' then (False, s + 1) else if m s = ascii CHR ''-'' then (True, s + 1) else (False, s))"

definition strtol_prefix :: "cmem \<Rightarrow> nat \<Rightarrow> int \<Rightarrow> int \<times> nat" where
  "strtol_prefix m s base =
     (if (base = 0 \<or> base = 16) \<and> m s = ascii CHR ''0'' \<and> m (s + 1) = ascii CHR ''x'' then (16, s + 2)
      else if base = 0 \<and> m s = ascii CHR ''0'' then (8, s + 1)
      else if base = 0 then (10, s)
      else (base, s))"

text \<open>The value of a digit, if the byte is one.\<close>

definition digit_of :: "8 word \<Rightarrow> int option" where
  "digit_of c =
     (if ascii CHR ''0'' \<le> c \<and> c \<le> ascii CHR ''9'' then Some (int (unat c) - 48)
      else if ascii CHR ''a'' \<le> c \<and> c \<le> ascii CHR ''z'' then Some (int (unat c) - 97 + 10)
      else if ascii CHR ''A'' \<le> c \<and> c \<le> ascii CHR ''Z'' then Some (int (unat c) - 65 + 10)
      else None)"

text \<open>\<^verbatim>\<open>val = (val * base) + dig\<close> on a 64-bit \<^verbatim>\<open>long\<close>, with wrap-around.\<close>

partial_function (option) strtol_digits :: "cmem \<Rightarrow> nat \<Rightarrow> int \<Rightarrow> 64 word \<Rightarrow> (64 word \<times> nat) option" where
  "strtol_digits m s base val =
     (case digit_of (m s) of
        None \<Rightarrow> Some (val, s)
      | Some dig \<Rightarrow>
          if base \<le> dig then Some (val, s)
          else strtol_digits m (s + 1) base (val * of_int base + of_int dig))"

definition strtol :: "cmem \<Rightarrow> nat \<Rightarrow> int \<Rightarrow> (64 word \<times> nat) option" where
  "strtol m s base =
     do {
       s1 \<leftarrow> skip_blanks m s;
       case strtol_sign m s1 of (neg, s2) \<Rightarrow>
       case strtol_prefix m s2 base of (b, s3) \<Rightarrow>
       do {
         (val, e) \<leftarrow> strtol_digits m s3 b 0;
         Some (if neg then - val else val, e)
       }
     }"

section \<open>rand.c\<close>

text \<open>The generator's state is \<^verbatim>\<open>next\<close>; \<^verbatim>\<open>RAND_MAX\<close> is \<open>2147483647\<close>.\<close>

definition rand_next :: "64 word \<Rightarrow> 64 word" where
  "rand_next x = (x * 0x5DEECE66D + 0xB) AND (push_bit 48 1 - 1)"

definition rand :: "64 word \<Rightarrow> int \<times> 64 word" where
  "rand x = (let x1 = rand_next x in (int (unat (drop_bit 12 x1) mod (2147483647 + 1)), x1))"

definition srand :: "32 word \<Rightarrow> 64 word" where "srand seed = ucast seed"

declare strlen_from.simps [code] strcpy.simps [code] strcmp.simps [code] strchr.simps [code] strfind.simps [code]
  skip_blanks.simps [code] strtol_digits.simps [code]

section \<open>Strings in memory\<close>

definition bytes_at :: "cmem \<Rightarrow> nat \<Rightarrow> 8 word list \<Rightarrow> bool" where
  "bytes_at m s bs \<longleftrightarrow> (\<forall>i<length bs. m (s + i) = bs ! i)"

definition cstr :: "cmem \<Rightarrow> nat \<Rightarrow> 8 word list \<Rightarrow> bool" where
  "cstr m s bs \<longleftrightarrow> bytes_at m s (bs @ [0]) \<and> 0 \<notin> set bs"

lemma bytes_at_Nil [simp]: "bytes_at m s []"
  by (simp add: bytes_at_def)

lemma bytes_at_Cons [simp]: "bytes_at m s (b # bs) \<longleftrightarrow> m s = b \<and> bytes_at m (s + 1) bs"
  by (auto simp: bytes_at_def less_Suc_eq_0_disj nth_Cons split: nat.splits)

lemma bytes_at_append [simp]: "bytes_at m s (as @ bs) \<longleftrightarrow> bytes_at m s as \<and> bytes_at m (s + length as) bs"
  by (induction as arbitrary: s) (auto simp: algebra_simps)

lemma cstr_Nil [simp]: "cstr m s [] \<longleftrightarrow> m s = 0"
  by (simp add: cstr_def)

lemma cstr_Cons [simp]: "cstr m s (b # bs) \<longleftrightarrow> m s = b \<and> b \<noteq> 0 \<and> cstr m (s + 1) bs"
  by (auto simp: cstr_def)

lemma bytes_at_write [simp]: "a < s \<or> s + length bs \<le> a \<Longrightarrow> bytes_at (m(a := c)) s bs = bytes_at m s bs"
  by (induction bs arbitrary: s) auto

lemma cstr_write [simp]: "a < s \<or> s + length bs < a \<Longrightarrow> cstr (m(a := c)) s bs = cstr m s bs"
  by (induction bs arbitrary: s) auto

lemma strlen_from_cstr: "cstr m s bs \<Longrightarrow> strlen_from m s n = Some (n + length bs)"
  by (induction bs arbitrary: s n) (simp_all add: strlen_from.simps)

lemma strlen_cstr: "cstr m s bs \<Longrightarrow> strlen m s = Some (length bs)"
  by (simp add: strlen_def strlen_from_cstr)

lemma strnlen_from_cstr: "cstr m s bs \<Longrightarrow> strnlen_from k m s n = n + min k (length bs)"
proof (induction bs arbitrary: s n k)
  case Nil
  then show ?case by (cases k) simp_all
next
  case (Cons b bs)
  then show ?case by (cases k) simp_all
qed

lemma strnlen_cstr: "cstr m s bs \<Longrightarrow> strnlen m s k = min k (length bs)"
  by (simp add: strnlen_def strnlen_from_cstr)

text \<open>\<^verbatim>\<open>strcpy\<close> needs operands that do not overlap, or a destination below the source.\<close>

definition mem_put :: "nat \<Rightarrow> 8 word list \<Rightarrow> cmem \<Rightarrow> cmem" where
  "mem_put d bs m = (\<lambda>a. if d \<le> a \<and> a < d + length bs then bs ! (a - d) else m a)"

lemma mem_put_Nil [simp]: "mem_put d [] m = m"
  by (auto simp: mem_put_def fun_eq_iff)

lemma mem_put_Cons: "mem_put d (b # bs) m = mem_put (d + 1) bs (m(d := b))"
proof
  fix a
  show "mem_put d (b # bs) m a = mem_put (d + 1) bs (m(d := b)) a"
  proof (cases "d < a")
    case True
    then obtain k where "a = d + Suc k" by (auto dest: less_imp_Suc_add)
    then show ?thesis by (simp add: mem_put_def)
  qed (auto simp: mem_put_def)
qed

lemma mem_put_at [simp]: "bytes_at (mem_put d bs m) d bs"
  by (simp add: bytes_at_def mem_put_def)

lemma mem_put_one [simp]: "mem_put d [b] m = m(d := b)"
  by (simp add: mem_put_Cons)

lemma strcpy_cstr:
  "cstr m s bs \<Longrightarrow> d < s \<or> s + length bs < d \<Longrightarrow> strcpy d s m = Some (mem_put d (bs @ [0]) m)"
proof (induction bs arbitrary: s d m)
  case Nil
  then show ?case by (subst strcpy.simps) (auto simp: fun_eq_iff)
next
  case (Cons b bs)
  have cs: "cstr (m(d := b)) (s + 1) bs" by (subst cstr_write) (use Cons.prems in auto)
  have "strcpy (d + 1) (s + 1) (m(d := b)) = Some (mem_put (d + 1) (bs @ [0]) (m(d := b)))"
    by (rule Cons.IH [OF cs]) (use Cons.prems in auto)
  with Cons.prems show ?case by (subst strcpy.simps) (simp add: mem_put_Cons)
qed

lemma strcat_cstr:
  assumes "cstr m d as" and "cstr m s bs" and "d + length as < s \<or> s + length bs < d + length as"
  shows "strcat d s m = Some (mem_put (d + length as) (bs @ [0]) m)"
  using assms by (simp add: strcat_def strlen_cstr strcpy_cstr)

lemma strncpy_zeros:
  "m s = 0 \<Longrightarrow> s < d \<or> d + n \<le> s \<Longrightarrow> strncpy d s n m = mem_put d (replicate n 0) m"
proof (induction n arbitrary: d m)
  case 0
  then show ?case by simp
next
  case (Suc n)
  have "strncpy (d + 1) s n (m(d := 0)) = mem_put (d + 1) (replicate n 0) (m(d := 0))"
    by (rule Suc.IH) (use Suc.prems in auto)
  with Suc.prems show ?case by (simp add: mem_put_Cons)
qed

lemma strncpy_cstr:
  "cstr m s bs \<Longrightarrow> d + n \<le> s \<or> s + length bs < d \<Longrightarrow>
   strncpy d s n m = mem_put d (take n bs @ replicate (n - length bs) 0) m"
proof (induction bs arbitrary: s d m n)
  case Nil
  then show ?case using strncpy_zeros [of m s d n] by auto
next
  case (Cons b bs)
  show ?case
  proof (cases n)
    case 0
    then show ?thesis by simp
  next
    case (Suc k)
    have cs: "cstr (m(d := b)) (s + 1) bs" by (subst cstr_write) (use Cons.prems Suc in auto)
    have "strncpy (d + 1) (s + 1) k (m(d := b)) =
        mem_put (d + 1) (take k bs @ replicate (k - length bs) 0) (m(d := b))"
      by (rule Cons.IH [OF cs]) (use Cons.prems Suc in auto)
    with Cons.prems Suc show ?thesis by (simp add: mem_put_Cons)
  qed
qed

section \<open>Comparison and search\<close>


text \<open>The order \<^verbatim>\<open>strcmp\<close> decides: the difference of the first bytes that differ, a string ending in a zero.\<close>

fun str_order :: "8 word list \<Rightarrow> 8 word list \<Rightarrow> int" where
  "str_order [] [] = 0"
| "str_order [] (b # bs) = byte_diff 0 b"
| "str_order (a # as) [] = byte_diff a 0"
| "str_order (a # as) (b # bs) = (if a = b then str_order as bs else byte_diff a b)"

lemma byte_diff_0: "byte_diff a b = 0 \<longleftrightarrow> a = b"
  by (simp add: byte_diff_def word_uint_eq_iff)

lemma byte_diff_less: "byte_diff a b < 0 \<longleftrightarrow> a < b"
  by (simp add: byte_diff_def word_less_def)

lemma byte_diff_same [simp]: "byte_diff a a = 0"
  by (simp add: byte_diff_def)

lemma strcmp_cstr: "cstr m s as \<Longrightarrow> cstr m t bs \<Longrightarrow> strcmp m s t = Some (str_order as bs)"
  by (induction as bs arbitrary: s t rule: str_order.induct) (simp_all add: strcmp.simps)

lemma str_order_eq: "0 \<notin> set as \<Longrightarrow> 0 \<notin> set bs \<Longrightarrow> str_order as bs = 0 \<longleftrightarrow> as = bs"
  by (induction as bs rule: str_order.induct) (auto simp: byte_diff_0)

lemma str_order_less:
  "0 \<notin> set as \<Longrightarrow> 0 \<notin> set bs \<Longrightarrow> str_order as bs < 0 \<longleftrightarrow> (as, bs) \<in> lexord {(a, b). a < b}"
  by (induction as bs rule: str_order.induct) (auto simp: byte_diff_less word_gt_0)

lemma strchr_cstr:
  "cstr m s bs \<Longrightarrow> c \<noteq> 0 \<Longrightarrow>
   strchr m s c = Some (if c \<in> set bs then Some (s + length (takeWhile (\<lambda>b. b \<noteq> c) bs)) else None)"
  by (induction bs arbitrary: s) (simp_all add: strchr.simps)

lemma strfind_cstr:
  "cstr m s bs \<Longrightarrow> c \<noteq> 0 \<Longrightarrow> strfind m s c = Some (s + length (takeWhile (\<lambda>b. b \<noteq> c) bs))"
  by (induction bs arbitrary: s) (simp_all add: strfind.simps)

lemma memset_put: "memset d c n m = mem_put d (replicate n c) m"
  by (induction n arbitrary: d m) (simp_all add: mem_put_Cons)

lemma memcmp_bytes:
  "bytes_at m s as \<Longrightarrow> bytes_at m t bs \<Longrightarrow> length as = length bs \<Longrightarrow> memcmp m s t (length bs) = 0 \<longleftrightarrow> as = bs"
proof (induction as arbitrary: s t bs)
  case Nil
  then show ?case by simp
next
  case (Cons a as)
  then show ?case by (cases bs) (auto simp: byte_diff_0)
qed

section \<open>Copying\<close>

lemma copy_up_eq:
  "d \<le> s \<or> s + n \<le> d \<Longrightarrow>
   copy_up d s n m = (\<lambda>a. if d \<le> a \<and> a < d + n then m (s + (a - d)) else m a)"
proof (induction n arbitrary: d s m)
  case 0
  then show ?case by (auto simp: fun_eq_iff)
next
  case (Suc n)
  have "copy_up (d + 1) (s + 1) n (m(d := m s)) =
      (\<lambda>a. if d + 1 \<le> a \<and> a < d + 1 + n then (m(d := m s)) (s + 1 + (a - (d + 1))) else (m(d := m s)) a)"
    by (rule Suc.IH) (use Suc.prems in auto)
  moreover have "s + 1 + (a - (d + 1)) = s + (a - d)" if "d < a" for a using that by simp
  moreover have "s + (a - d) \<noteq> d" if "d < a" "a < d + Suc n" for a using that Suc.prems by auto
  ultimately show ?case by (auto simp: fun_eq_iff)
qed

lemma copy_down_eq:
  "s < d \<Longrightarrow>
   copy_down (d + n) (s + n) n m = (\<lambda>a. if d \<le> a \<and> a < d + n then m (s + (a - d)) else m a)"
proof (induction n arbitrary: m)
  case 0
  then show ?case by (auto simp: fun_eq_iff)
next
  case (Suc n)
  have "copy_down (d + n) (s + n) n (m(d + n := m (s + n))) =
      (\<lambda>a. if d \<le> a \<and> a < d + n then (m(d + n := m (s + n))) (s + (a - d)) else (m(d + n := m (s + n))) a)"
    by (rule Suc.IH) (rule Suc.prems)
  moreover have "s + (a - d) \<noteq> d + n" if "d \<le> a" "a < d + n" for a using that Suc.prems by simp
  ultimately show ?case by (auto simp: fun_eq_iff less_Suc_eq)
qed

lemma memcpy_eq:
  "dst \<le> src \<or> src + n \<le> dst \<Longrightarrow>
   memcpy dst src n m = (\<lambda>a. if dst \<le> a \<and> a < dst + n then m (src + (a - dst)) else m a)"
  by (simp add: memcpy_def copy_up_eq)

text \<open>
  C39: \<^verbatim>\<open>memmove\<close> copies correctly whether or not its operands overlap: afterwards the destination holds
  what the source held before the call, and no other byte has changed.
\<close>

theorem memmove_correct:
  "memmove dst src n m = (\<lambda>a. if dst \<le> a \<and> a < dst + n then m (src + (a - dst)) else m a)"
proof (cases "src < dst \<and> dst < src + n")
  case True
  then show ?thesis by (simp add: memmove_def copy_down_eq)
next
  case False
  then show ?thesis by (auto simp: memmove_def copy_up_eq)
qed

lemma rand_range: "fst (rand x) \<in> {0..2147483647}"
  by (auto simp: rand_def Let_def simp flip: of_nat_mod)

end
