(* ===== verification/Printfmt.thy ===== *)
theory Printfmt
  imports KString
begin

text \<open>
  Formatted printing, \<^verbatim>\<open>libs/printfmt.c\<close>.  What a call hands to \<^verbatim>\<open>putch\<close>, in order, is its result,
  a list of bytes.  The format is a list of characters (it is a literal at every call), the variable
  arguments are a list of 64-bit slots as the calling convention passes them, and a \<^verbatim>\<open>%s\<close> argument
  is an address in the memory.  \<open>None\<close> stands for a format that asks for more arguments than there
  are, and for a string without end.
\<close>

type_synonym out = "8 word list"

abbreviation ascii_bytes :: "string \<Rightarrow> out" where "ascii_bytes s \<equiv> List.map ascii s"

section \<open>Numbers\<close>

definition hex_digit :: "nat \<Rightarrow> 8 word" where "hex_digit d = ascii (''0123456789abcdef'' ! d)"

text \<open>\<^verbatim>\<open>while (-- width > 0) putch(padc)\<close>\<close>

definition pads :: "int \<Rightarrow> 8 word \<Rightarrow> out" where "pads width padc = replicate (nat (width - 1)) padc"

partial_function (option) printnum :: "nat \<Rightarrow> nat \<Rightarrow> int \<Rightarrow> 8 word \<Rightarrow> out option" where
  "printnum num base width padc =
     do {
       pre \<leftarrow> (if base \<le> num then printnum (num div base) base (width - 1) padc else Some (pads width padc));
       Some (pre @ [hex_digit (num mod base)])
     }"

definition getuint :: "nat \<Rightarrow> 64 word \<Rightarrow> 64 word" where
  "getuint lflag a = (if 1 \<le> lflag then a else ucast (ucast a :: 32 word))"

definition getint :: "nat \<Rightarrow> 64 word \<Rightarrow> 64 word" where
  "getint lflag a = (if 1 \<le> lflag then a else scast (ucast a :: 32 word))"

definition va_int :: "64 word \<Rightarrow> int" where "va_int a = sint (ucast a :: 32 word)"

text \<open>The \<^verbatim>\<open>number\<close> label, and the case \<^verbatim>\<open>'d'\<close> that goes there.\<close>

definition print_number :: "64 word \<Rightarrow> nat \<Rightarrow> int \<Rightarrow> 8 word \<Rightarrow> out option" where
  "print_number num base width padc = printnum (unat num) base width padc"

definition print_signed :: "64 word \<Rightarrow> int \<Rightarrow> 8 word \<Rightarrow> out option" where
  "print_signed num width padc =
     (if sint num < 0
      then do { o1 \<leftarrow> print_number (- num) 10 width padc; Some (ascii CHR ''-'' # o1) }
      else print_number num 10 width padc)"

section \<open>Strings\<close>

text \<open>A literal of the kernel, as a memory with the literal at address 0.\<close>

definition literal :: "string \<Rightarrow> cmem" where
  "literal s i = (if i < length s then ascii (s ! i) else 0)"

text \<open>The middle loop of \<^verbatim>\<open>%s\<close>, with the width that is left after it.\<close>

partial_function (option) string_loop :: "cmem \<Rightarrow> nat \<Rightarrow> int \<Rightarrow> int \<Rightarrow> bool \<Rightarrow> (out \<times> int) option" where
  "string_loop m p precision width altflag =
     (let ch = m p in
      if ch \<noteq> 0 \<and> (precision < 0 \<or> 0 \<le> precision - 1)
      then do {
        (o1, w) \<leftarrow> string_loop m (p + 1) (if precision < 0 then precision else precision - 1) (width - 1) altflag;
        Some ((if altflag \<and> (ch < ascii CHR '' '' \<or> ascii CHR ''~'' < ch) then ascii CHR ''?'' else ch) # o1, w)
      }
      else Some ([], width))"

text \<open>A negative precision becomes a \<^verbatim>\<open>size_t\<close> too large to stop \<^verbatim>\<open>strnlen\<close>.\<close>

definition print_string :: "cmem \<Rightarrow> nat \<Rightarrow> int \<Rightarrow> int \<Rightarrow> 8 word \<Rightarrow> bool \<Rightarrow> out option" where
  "print_string m p precision width padc altflag =
     do {
       (o1, w1) \<leftarrow> (if 0 < width \<and> padc \<noteq> ascii CHR ''-''
                    then do {
                      n \<leftarrow> (if precision < 0 then strlen m p else Some (strnlen m p (nat precision)));
                      Some (replicate (nat (width - int n)) padc, min (width - int n) 0)
                    }
                    else Some ([], width));
       (o2, w2) \<leftarrow> string_loop m p precision w1 altflag;
       Some (o1 @ o2 @ replicate (nat w2) (ascii CHR '' ''))
     }"

section \<open>The error messages\<close>

definition MAXERROR :: int where "MAXERROR = 24"

definition error_string :: "nat \<Rightarrow> string option" where
  "error_string n =
     (if n = 1 then Some ''unspecified error'' else if n = 2 then Some ''bad process''
      else if n = 3 then Some ''invalid parameter'' else if n = 4 then Some ''out of memory''
      else if n = 5 then Some ''out of processes'' else if n = 6 then Some ''segmentation fault''
      else if n = 8 then Some ''invalid elf file'' else if n = 9 then Some ''process is killed''
      else if n = 10 then Some ''panic failure'' else if n = 13 then Some ''no such device''
      else if n = 14 then Some ''device not available'' else if n = 15 then Some ''device/file is busy''
      else if n = 16 then Some ''no such file or directory'' else if n = 17 then Some ''is a directory''
      else if n = 18 then Some ''not a directory'' else if n = 19 then Some ''cross device link''
      else if n = 20 then Some ''unimplemented feature'' else if n = 21 then Some ''illegal seek''
      else if n = 22 then Some ''too many files are open'' else if n = 23 then Some ''file or directory already exists''
      else if n = 24 then Some ''directory is not empty'' else None)"

text \<open>Case \<^verbatim>\<open>'e'\<close>; the inner \<^verbatim>\<open>printfmt\<close> has the formats \<^verbatim>\<open>"error %d"\<close> and \<^verbatim>\<open>"%s"\<close>.\<close>

definition print_error :: "int \<Rightarrow> out option" where
  "print_error e =
     (let err = (if e < 0 then - e else e) in
      case (if MAXERROR < err then None else error_string (nat err)) of
        None \<Rightarrow> do { o1 \<leftarrow> print_signed (of_int err) (-1) (ascii CHR '' ''); Some (ascii_bytes ''error '' @ o1) }
      | Some p \<Rightarrow> print_string (literal p) 0 (-1) (-1) (ascii CHR '' '') False)"

section \<open>The escape sequences\<close>

record conv_spec =
  padc :: "8 word"
  width :: int
  precision :: int
  lflag :: nat
  altflag :: bool

definition spec_init :: conv_spec where
  "spec_init = \<lparr>padc = ascii CHR '' '', width = -1, precision = -1, lflag = 0, altflag = False\<rparr>"

definition process_precision :: "conv_spec \<Rightarrow> conv_spec" where
  "process_precision sp =
     (if width sp < 0 then sp\<lparr>width := precision sp, precision := -1\<rparr> else sp)"

definition is_digit :: "char \<Rightarrow> bool" where
  "is_digit c = (48 \<le> (of_char c :: nat) \<and> (of_char c :: nat) \<le> 57)"

fun read_digits :: "int \<Rightarrow> char \<Rightarrow> string \<Rightarrow> int \<times> string" where
  "read_digits prec ch [] = (prec * 10 + of_char ch - 48, [])"
| "read_digits prec ch (c # cs) =
     (let prec1 = prec * 10 + of_char ch - 48
      in if is_digit c then read_digits prec1 c cs else (prec1, c # cs))"

definition take_arg :: "64 word list \<Rightarrow> (64 word \<times> 64 word list) option" where
  "take_arg args = (case args of [] \<Rightarrow> None | a # as \<Rightarrow> Some (a, as))"

text \<open>
  The final character of an escape sequence: what is printed, where the format goes on, and the
  arguments left.  \<open>start\<close> is the format after the \<^verbatim>\<open>%\<close>; an unknown sequence is printed as it stands.
\<close>

definition convert ::
    "cmem \<Rightarrow> string \<Rightarrow> conv_spec \<Rightarrow> char \<Rightarrow> string \<Rightarrow> 64 word list \<Rightarrow> (out \<times> string \<times> 64 word list) option" where
  "convert m start sp ch fmt args =
     (if ch = CHR ''c'' then do { (a, as) \<leftarrow> take_arg args; Some ([ucast a], fmt, as) }
      else if ch = CHR ''e'' then do { (a, as) \<leftarrow> take_arg args; o1 \<leftarrow> print_error (va_int a); Some (o1, fmt, as) }
      else if ch = CHR ''s'' then do {
        (a, as) \<leftarrow> take_arg args;
        o1 \<leftarrow> (if a = 0
               then print_string (literal ''(null)'') 0 (precision sp) (width sp) (padc sp) (altflag sp)
               else print_string m (unat a) (precision sp) (width sp) (padc sp) (altflag sp));
        Some (o1, fmt, as)
      }
      else if ch = CHR ''d'' then do {
        (a, as) \<leftarrow> take_arg args; o1 \<leftarrow> print_signed (getint (lflag sp) a) (width sp) (padc sp); Some (o1, fmt, as)
      }
      else if ch = CHR ''u'' then do {
        (a, as) \<leftarrow> take_arg args; o1 \<leftarrow> print_number (getuint (lflag sp) a) 10 (width sp) (padc sp); Some (o1, fmt, as)
      }
      else if ch = CHR ''o'' then do {
        (a, as) \<leftarrow> take_arg args; o1 \<leftarrow> print_number (getuint (lflag sp) a) 8 (width sp) (padc sp); Some (o1, fmt, as)
      }
      else if ch = CHR ''p'' then do {
        (a, as) \<leftarrow> take_arg args; o1 \<leftarrow> print_number a 16 (width sp) (padc sp); Some (ascii_bytes ''0x'' @ o1, fmt, as)
      }
      else if ch = CHR ''x'' then do {
        (a, as) \<leftarrow> take_arg args; o1 \<leftarrow> print_number (getuint (lflag sp) a) 16 (width sp) (padc sp); Some (o1, fmt, as)
      }
      else if ch = CHR ''%'' then Some ([ascii ch], fmt, args)
      else Some ([ascii CHR ''%''], start, args))"

text \<open>The \<^verbatim>\<open>reswitch\<close> loop: flags, width, precision and length.  The end of the format is an unknown sequence.\<close>

partial_function (option) escape ::
    "cmem \<Rightarrow> string \<Rightarrow> conv_spec \<Rightarrow> string \<Rightarrow> 64 word list \<Rightarrow> (out \<times> string \<times> 64 word list) option" where
  "escape m start sp fmt args =
     (case fmt of
        [] \<Rightarrow> Some ([ascii CHR ''%''], start, args)
      | ch # rest \<Rightarrow>
          if ch = CHR ''-'' then escape m start (sp\<lparr>padc := ascii CHR ''-''\<rparr>) rest args
          else if ch = CHR ''0'' then escape m start (sp\<lparr>padc := ascii CHR ''0''\<rparr>) rest args
          else if is_digit ch
          then escape m start (process_precision (sp\<lparr>precision := fst (read_digits 0 ch rest)\<rparr>))
                 (snd (read_digits 0 ch rest)) args
          else if ch = CHR ''*''
          then (case args of
                  [] \<Rightarrow> None
                | a # as \<Rightarrow> escape m start (process_precision (sp\<lparr>precision := va_int a\<rparr>)) rest as)
          else if ch = CHR ''.'' then escape m start (if width sp < 0 then sp\<lparr>width := 0\<rparr> else sp) rest args
          else if ch = CHR ''#'' then escape m start (sp\<lparr>altflag := True\<rparr>) rest args
          else if ch = CHR ''l'' then escape m start (sp\<lparr>lflag := lflag sp + 1\<rparr>) rest args
          else convert m start sp ch rest args)"

partial_function (option) vprintfmt :: "cmem \<Rightarrow> string \<Rightarrow> 64 word list \<Rightarrow> out option" where
  "vprintfmt m fmt args =
     (case fmt of
        [] \<Rightarrow> Some []
      | ch # rest \<Rightarrow>
          if ch \<noteq> CHR ''%'' then do { o1 \<leftarrow> vprintfmt m rest args; Some (ascii ch # o1) }
          else do {
            (o1, fmt1, args1) \<leftarrow> escape m rest spec_init rest args;
            o2 \<leftarrow> vprintfmt m fmt1 args1;
            Some (o1 @ o2)
          })"

declare printnum.simps [code] string_loop.simps [code] escape.simps [code] vprintfmt.simps [code]

section \<open>Printing into a buffer\<close>

text \<open>\<^verbatim>\<open>struct sprintbuf\<close> with the memory it points into, and \<^verbatim>\<open>sprintputch\<close>.\<close>

record sprintbuf =
  sp_buf :: nat
  sp_ebuf :: nat
  sp_cnt :: nat

definition sprintputch :: "8 word \<Rightarrow> sprintbuf \<times> cmem \<Rightarrow> sprintbuf \<times> cmem" where
  "sprintputch ch bm =
     (case bm of (b, m) \<Rightarrow>
        let b1 = b\<lparr>sp_cnt := sp_cnt b + 1\<rparr>
        in if sp_buf b1 < sp_ebuf b1 then (b1\<lparr>sp_buf := sp_buf b1 + 1\<rparr>, m(sp_buf b1 := ch)) else (b1, m))"

text \<open>The buffer lies outside the strings that are printed.\<close>

definition vsnprintf :: "nat \<Rightarrow> nat \<Rightarrow> string \<Rightarrow> 64 word list \<Rightarrow> cmem \<Rightarrow> (int \<times> cmem) option" where
  "vsnprintf str n fmt args m =
     (if str = 0 \<or> n = 0 then Some (- E_INVAL, m)
      else do {
        o1 \<leftarrow> vprintfmt m fmt args;
        case fold sprintputch o1 (\<lparr>sp_buf = str, sp_ebuf = str + n - 1, sp_cnt = 0\<rparr>, m) of
          (b, m1) \<Rightarrow> Some (int (sp_cnt b), m1(sp_buf b := 0))
      })"

section \<open>Numbers read back\<close>

text \<open>The digits of a number, most significant first, and the value of a list of digits.\<close>

function digits :: "nat \<Rightarrow> nat \<Rightarrow> nat list" where
  "digits b n = (if n < b \<or> b < 2 then [n mod b] else digits b (n div b) @ [n mod b])"
  by auto
termination by (relation "measure snd") auto

declare digits.simps [simp del]

lemma printnum_digits:
  assumes "2 \<le> b"
  shows "printnum n b w c =
    Some (replicate (nat (w - int (length (digits b n)))) c @ List.map hex_digit (digits b n))"
proof (induction n arbitrary: w rule: less_induct)
  case (less n)
  show ?case
  proof (cases "n < b")
    case True
    then show ?thesis
      using assms by (subst printnum.simps) (simp add: digits.simps [of b n] pads_def)
  next
    case False
    then have "n div b < n" using assms by simp
    from less.IH [OF this] show ?thesis
      using False assms by (subst printnum.simps) (simp add: digits.simps [of b n] algebra_simps)
  qed
qed

lemma digits_bound: "2 \<le> b \<Longrightarrow> d \<in> set (digits b n) \<Longrightarrow> d < b"
proof (induction n rule: less_induct)
  case (less n)
  show ?case
  proof (cases "n < b")
    case True
    with less.prems show ?thesis by (simp add: digits.simps [of b n])
  next
    case False
    then have "n div b < n" using less.prems(1) by simp
    from less.IH [OF this less.prems(1)] show ?thesis
      using False less.prems by (auto simp: digits.simps [of b n])
  qed
qed

lemma digits_value: "2 \<le> b \<Longrightarrow> foldl (\<lambda>v d. v * b + d) 0 (digits b n) = n"
proof (induction n rule: less_induct)
  case (less n)
  then show ?case by (cases "n < b") (auto simp: digits.simps [of b n])
qed

lemma digits_ne: "digits b n \<noteq> []"
  by (subst digits.simps) simp

lemma hex_digits_all: "list_all (\<lambda>d. digit_of (hex_digit d) = Some (int d)) [0..<16]"
  by code_simp

lemma hex_digits_plain:
  "list_all (\<lambda>d. hex_digit d \<notin> {ascii CHR ''+'', ascii CHR ''-'', ascii CHR '' '', 9, ascii CHR ''x'', 0}) [0..<16]"
  by code_simp

lemma digit_of_hex: "d < 16 \<Longrightarrow> digit_of (hex_digit d) = Some (int d)"
  using hex_digits_all by (simp only: list_all_iff set_upt) simp

lemma hex_digit_plain:
  "d < 16 \<Longrightarrow> hex_digit d \<notin> {ascii CHR ''+'', ascii CHR ''-'', ascii CHR '' '', 9, ascii CHR ''x'', 0}"
  using hex_digits_plain by (simp only: list_all_iff set_upt) simp

lemma strtol_digits_run:
  assumes "b \<le> 16"
  shows "\<forall>d\<in>set ds. d < b \<Longrightarrow> bytes_at m s (List.map hex_digit ds) \<Longrightarrow>
    strtol_digits m s (int b) (of_nat v) =
    strtol_digits m (s + length ds) (int b) (of_nat (foldl (\<lambda>v d. v * b + d) v ds))"
proof (induction ds arbitrary: s v)
  case Nil
  then show ?case by simp
next
  case (Cons d ds)
  then have "digit_of (m s) = Some (int d)" using assms by (simp add: digit_of_hex)
  then have "strtol_digits m s (int b) (of_nat v) = strtol_digits m (s + 1) (int b) (of_nat (v * b + d))"
    using Cons.prems by (subst strtol_digits.simps) simp
  with Cons.IH [of "s + 1" "v * b + d"] Cons.prems show ?case by simp
qed

lemma strtol_digits_end: "m s = 0 \<Longrightarrow> strtol_digits m s b v = Some (v, s)"
  by (subst strtol_digits.simps) (simp add: digit_of_def ascii_def)

lemma strtol_digits_number:
  assumes "2 \<le> b" and "b \<le> 16" and "cstr m s (List.map hex_digit (digits b n))"
  shows "strtol_digits m s (int b) 0 = Some (of_nat n, s + length (digits b n))"
proof -
  have "strtol_digits m s (int b) (of_nat 0) =
      strtol_digits m (s + length (digits b n)) (int b) (of_nat (foldl (\<lambda>v d. v * b + d) 0 (digits b n)))"
    using assms by (intro strtol_digits_run) (auto simp: cstr_def intro: digits_bound)
  moreover have "m (s + length (digits b n)) = 0" using assms(3) by (simp add: cstr_def)
  ultimately show ?thesis using assms(1) by (simp add: digits_value strtol_digits_end)
qed

text \<open>The text of a signed number.\<close>

definition decimal_text :: "64 word \<Rightarrow> out" where
  "decimal_text x =
     (if sint x < 0 then ascii CHR ''-'' # List.map hex_digit (digits 10 (unat (- x)))
      else List.map hex_digit (digits 10 (unat x)))"

lemma vprintfmt_ld: "vprintfmt m ''%ld'' [x] = Some (decimal_text x)"
proof -
  have "escape m ''ld'' spec_init ''ld'' [x] = convert m ''ld'' (spec_init\<lparr>lflag := 1\<rparr>) CHR ''d'' '''' [x]"
    by (simp add: escape.simps is_digit_def spec_init_def)
  moreover have "vprintfmt m '''' [] = Some []" by (simp add: vprintfmt.simps)
  ultimately show ?thesis
    by (simp add: vprintfmt.simps [of m "''%ld''"] convert_def take_arg_def print_signed_def print_number_def
        getint_def printnum_digits decimal_text_def spec_init_def)
qed

lemma sprintputch_run:
  assumes "length out1 \<le> sp_ebuf b - sp_buf b"
  shows "fold sprintputch out1 (b, m) =
    (b\<lparr>sp_buf := sp_buf b + length out1, sp_cnt := sp_cnt b + length out1\<rparr>, mem_put (sp_buf b) out1 m)"
  using assms
proof (induction out1 arbitrary: b m)
  case Nil
  then show ?case by simp
next
  case (Cons c cs)
  then have "sp_buf b < sp_ebuf b" by simp
  then have "sprintputch c (b, m) =
      (b\<lparr>sp_buf := sp_buf b + 1, sp_cnt := sp_cnt b + 1\<rparr>, m(sp_buf b := c))"
    by (cases b) (simp add: sprintputch_def Let_def)
  with Cons.IH [of "b\<lparr>sp_buf := sp_buf b + 1, sp_cnt := sp_cnt b + 1\<rparr>"] Cons.prems show ?case
    by (simp add: mem_put_Cons fun_upd_def)
qed

lemma vsnprintf_fits:
  assumes "str \<noteq> 0" and "vprintfmt m fmt args = Some bs" and "length bs < n"
  shows "vsnprintf str n fmt args m = Some (int (length bs), (mem_put str bs m)(str + length bs := 0))"
  using assms by (simp add: vsnprintf_def sprintputch_run)

lemma skip_blanks_plain: "m s \<noteq> ascii CHR '' '' \<Longrightarrow> m s \<noteq> 9 \<Longrightarrow> skip_blanks m s = Some s"
  by (subst skip_blanks.simps) simp

lemma strtol_decimal:
  assumes "cstr m s (decimal_text x)"
  shows "strtol m s 10 = Some (x, s + length (decimal_text x))"
proof (cases "sint x < 0")
  case True
  let ?ds = "digits 10 (unat (- x))"
  have m: "m s = ascii CHR ''-''" "cstr m (s + 1) (List.map hex_digit ?ds)"
    using assms True by (simp_all add: decimal_text_def)
  have "strtol_digits m (s + 1) 10 0 = Some (- x, s + 1 + length ?ds)"
    using strtol_digits_number [OF _ _ m(2)] by simp
  then show ?thesis
    using m(1) True by (simp add: strtol_def skip_blanks_plain strtol_sign_def strtol_prefix_def ascii_def decimal_text_def)
next
  case False
  let ?ds = "digits 10 (unat x)"
  obtain d ds where ds: "?ds = d # ds" using digits_ne [of 10 "unat x"] by (cases ?ds) auto
  then have "d < 16" using digits_bound [of 10 d "unat x"] by simp
  moreover have m: "cstr m s (List.map hex_digit ?ds)" using assms False by (simp add: decimal_text_def)
  ultimately have "m s \<notin> {ascii CHR ''+'', ascii CHR ''-'', ascii CHR '' '', 9}"
    using ds hex_digit_plain [of d] by (simp add: cstr_def)
  moreover have "strtol_digits m s 10 0 = Some (x, s + length ?ds)"
    using strtol_digits_number [OF _ _ m] by simp
  ultimately show ?thesis
    using False by (simp add: strtol_def skip_blanks_plain strtol_sign_def strtol_prefix_def decimal_text_def)
qed

lemma decimal_text_nonzero: "0 \<notin> set (decimal_text x)"
proof -
  have "hex_digit d \<noteq> 0" if "d \<in> set (digits 10 n)" for d n
    using hex_digit_plain [of d] digits_bound [of 10 d n] that by simp
  then have "0 \<notin> set (List.map hex_digit (digits 10 n))" for n by (auto simp: image_iff)
  then show ?thesis by (simp add: decimal_text_def ascii_def)
qed

lemma cstr_put: "0 \<notin> set bs \<Longrightarrow> cstr ((mem_put d bs m)(d + length bs := 0)) d bs"
  by (simp add: cstr_def)

text \<open>
  C40: a number printed into a buffer that is long enough is read back by \<^verbatim>\<open>strtol\<close>: every 64-bit value
  \<open>x\<close>, the least one included, comes back, the end pointer stands on the terminating zero, and no byte
  outside the buffer has changed.
\<close>

theorem print_strtol_roundtrip:
  assumes "str \<noteq> 0" and "length (decimal_text x) < n"
  shows "\<exists>m'. vsnprintf str n ''%ld'' [x] m = Some (int (length (decimal_text x)), m') \<and>
    strtol m' str 10 = Some (x, str + length (decimal_text x)) \<and> (\<forall>a. a < str \<or> str + n \<le> a \<longrightarrow> m' a = m a)"
proof -
  let ?m = "(mem_put str (decimal_text x) m)(str + length (decimal_text x) := 0)"
  have "strtol ?m str 10 = Some (x, str + length (decimal_text x))"
    by (intro strtol_decimal cstr_put decimal_text_nonzero)
  moreover have "\<forall>a. a < str \<or> str + n \<le> a \<longrightarrow> ?m a = m a"
    using assms(2) by (simp add: mem_put_def)
  ultimately show ?thesis
    using vsnprintf_fits [OF assms(1) vprintfmt_ld assms(2)] by blast
qed

lemma demo_decimal: "length (decimal_text (- 9223372036854775808)) = 20"
  by (simp add: decimal_text_def) (simp add: digits.simps)

theorem print_strtol_roundtrip_witness:
  "\<exists>m'. vsnprintf 100 21 ''%ld'' [- 9223372036854775808] (\<lambda>_. 0) = Some (20, m') \<and>
    strtol m' 100 10 = Some (- 9223372036854775808, 120)"
  using print_strtol_roundtrip [of 100 "- 9223372036854775808" 21 "\<lambda>_. 0"] unfolding demo_decimal by auto

end
