(* ===== verification/Slub.thy ===== *)
theory Slub
  imports FirstFit Printfmt
begin

text \<open>
  The SLUB manager, \<^verbatim>\<open>kern/mm/slub_pmm.c\<close>, the one that \<^verbatim>\<open>init_pmm_manager\<close> installs.  Its page layer
  keeps an unsorted free list and merges a freed block in one pass over the whole list; above it
  are the object caches, \<^verbatim>\<open>kmalloc\<close> and \<^verbatim>\<open>kfree\<close>.  The first part shows the page layer correct: the free set
  is exact and merging leaves no two adjacent blocks behind.
\<close>

section \<open>The page layer\<close>

definition slub_init_area :: "pmm \<Rightarrow> pmm" where
  "slub_init_area s = s\<lparr>links := list_init FreeHead (links s), nr_free := 0\<rparr>"

text \<open>Every page becomes a free block of its own.\<close>

fun slub_init_pages :: "nat \<Rightarrow> nat \<Rightarrow> pmm \<Rightarrow> pmm option" where
  "slub_init_pages p 0 s = Some s"
| "slub_init_pages p (Suc k) s =
     do {
       assertc (PageReserved p s);
       let s1 = SetPageProperty p (set_page_ref p 0 (set_property p 1 (set_flags p 0 s)));
       slub_init_pages (Suc p) k (s1\<lparr>links := list_add_before FreeHead (PageLink p) (links s1)\<rparr>)
     }"

definition slub_init_memmap :: "nat \<Rightarrow> nat \<Rightarrow> pmm \<Rightarrow> pmm option" where
  "slub_init_memmap base n s =
     do {
       assertc (0 < n);
       s1 \<leftarrow> slub_init_pages base n s;
       Some (s1\<lparr>nr_free := u32 (nr_free s1 + n)\<rparr>)
     }"

partial_function (option) slub_find :: "nat \<Rightarrow> lnode \<Rightarrow> pmm \<Rightarrow> nat option option" where
  "slub_find n le s =
     (case nxt (links s) le of
        FreeHead \<Rightarrow> Some None
      | PageLink p \<Rightarrow> if n \<le> psize s p then Some (Some p) else slub_find n (PageLink p) s)"

text \<open>The rest of a split block goes to the front of the list.\<close>

definition slub_take :: "nat \<Rightarrow> nat \<Rightarrow> pmm \<Rightarrow> pmm" where
  "slub_take page n s =
     (let s1 = s\<lparr>links := list_del (PageLink page) (links s)\<rparr>;
          s2 = (if n < psize s1 page
                then let p = page + n;
                         t = SetPageProperty p (set_property p (psize s1 page - n) s1)
                     in t\<lparr>links := list_add FreeHead (PageLink p) (links t)\<rparr>
                else s1);
          s3 = s2\<lparr>nr_free := sub32 (nr_free s2) n\<rparr>
      in ClearPageProperty page s3)"

definition slub_alloc_pages :: "nat \<Rightarrow> pmm \<Rightarrow> (nat option \<times> pmm) option" where
  "slub_alloc_pages n s =
     do {
       assertc (0 < n);
       if nr_free s < n then Some (None, s)
       else do {
         found \<leftarrow> slub_find n FreeHead s;
         case found of
           None \<Rightarrow> Some (None, s)
         | Some page \<Rightarrow> Some (Some page, slub_take page n s)
       }
     }"

text \<open>The merging loop: \<open>le\<close> is the entry to look at, \<open>base\<close> the block so far.\<close>

partial_function (option) slub_merge :: "lnode \<Rightarrow> nat \<Rightarrow> pmm \<Rightarrow> (nat \<times> pmm) option" where
  "slub_merge le base s =
     (case le of
        FreeHead \<Rightarrow> Some (base, s)
      | PageLink p \<Rightarrow>
          let next = nxt (links s) (PageLink p) in
          if base + psize s base = p
          then let s1 = ClearPageProperty p (set_property base (psize s base + psize s p) s)
               in slub_merge next base (s1\<lparr>links := list_del (PageLink p) (links s1)\<rparr>)
          else if p + psize s p = base
          then let s1 = ClearPageProperty base (set_property p (psize s p + psize s base) s)
               in slub_merge next p (s1\<lparr>links := list_del (PageLink p) (links s1)\<rparr>)
          else slub_merge next base s)"

definition slub_free_pages :: "nat \<Rightarrow> nat \<Rightarrow> pmm \<Rightarrow> pmm option" where
  "slub_free_pages base n s =
     do {
       assertc (0 < n);
       s1 \<leftarrow> clear_descriptors base n s;
       let s2 = SetPageProperty base (set_property base n s1);
       (b, s3) \<leftarrow> slub_merge (list_next FreeHead (links s2)) base s2;
       let s4 = s3\<lparr>nr_free := u32 (nr_free s3 + n)\<rparr>;
       Some (s4\<lparr>links := list_add FreeHead (PageLink b) (links s4)\<rparr>)
     }"

definition slub_nr_free_pages :: "pmm \<Rightarrow> nat" where
  "slub_nr_free_pages s = nr_free s"

declare slub_find.simps [code] slub_merge.simps [code]

section \<open>The free list as a set of pages\<close>

text \<open>Blocks in any order, pairwise disjoint; \<open>coalesced\<close>: no block begins where another ends.\<close>

definition slub_blocks :: "pmm \<Rightarrow> nat list \<Rightarrow> bool" where
  "slub_blocks s xs \<longleftrightarrow>
     distinct xs \<and> (\<forall>a\<in>set xs. \<forall>b\<in>set xs. a \<noteq> b \<longrightarrow> block s a \<inter> block s b = {}) \<and>
     (\<forall>a\<in>set xs. 0 < psize s a \<and> PageProperty a s)"

definition slub_wf :: "pmm \<Rightarrow> nat list \<Rightarrow> bool" where
  "slub_wf s xs \<longleftrightarrow>
     dlist (links s) FreeHead (List.map PageLink xs) \<and> slub_blocks s xs \<and>
     nr_free s = (\<Sum>p\<leftarrow>xs. psize s p) \<and> nr_free s < 2 ^ 32"

definition coalesced :: "pmm \<Rightarrow> nat list \<Rightarrow> bool" where
  "coalesced s xs \<longleftrightarrow> (\<forall>a\<in>set xs. \<forall>b\<in>set xs. a + psize s a \<noteq> b)"

lemma slub_blocks_Cons:
  "slub_blocks s (x # xs) \<longleftrightarrow>
     x \<notin> set xs \<and> block s x \<inter> free_set s xs = {} \<and> 0 < psize s x \<and> PageProperty x s \<and> slub_blocks s xs"
  by (auto simp: slub_blocks_def free_set_def) blast

lemma slub_blocks_cong:
  "(\<And>p. p \<in> set xs \<Longrightarrow> psize s p = psize t p \<and> PageProperty p s = PageProperty p t) \<Longrightarrow>
   slub_blocks s xs = slub_blocks t xs"
  by (auto simp: slub_blocks_def block_def)

lemma slub_blocks_perm: "set xs = set ys \<Longrightarrow> length xs = length ys \<Longrightarrow> slub_blocks s xs \<Longrightarrow> slub_blocks s ys"
  by (simp add: slub_blocks_def) (metis card_distinct distinct_card)

lemma slub_blocks_mid:
  "slub_blocks s (us @ x # vs) \<longleftrightarrow> slub_blocks s (x # us @ vs)"
  by (rule iffI; rule slub_blocks_perm [rotated 2]) auto

lemma coalesced_cong:
  "(\<And>p. p \<in> set xs \<Longrightarrow> psize s p = psize t p) \<Longrightarrow> coalesced s xs = coalesced t xs"
  by (auto simp: coalesced_def)

lemma block_disjoint_next: "0 < psize s b \<Longrightarrow> block s a \<inter> block s b = {} \<Longrightarrow> 0 < psize s a \<Longrightarrow> a \<noteq> b"
  by (auto simp: block_def)

section \<open>Allocation\<close>

lemma slub_find_npath:
  "npath (links s) le (List.map PageLink xs) FreeHead \<Longrightarrow>
   slub_find n le s = Some (List.find (\<lambda>p. n \<le> psize s p) xs)"
proof (induction xs arbitrary: le)
  case Nil
  then show ?case by (simp add: slub_find.simps)
next
  case (Cons x xs)
  then show ?case by (subst slub_find.simps) simp
qed

lemma slub_take_frames [frame_simps]:
  "psize (slub_take x n s) q = (if n < psize s x \<and> q = x + n then u32 (psize s x - n) else psize s q)"
  "PageProperty q (slub_take x n s) \<longleftrightarrow> q \<noteq> x \<and> (n < psize s x \<and> q = x + n \<or> PageProperty q s)"
  "nr_free (slub_take x n s) = sub32 (nr_free s) n"
  by (auto simp: slub_take_def Let_def frame_simps)

lemma links_slub_take:
  "links (slub_take x n s) =
     (if n < psize s x then list_add FreeHead (PageLink (x + n)) (list_del (PageLink x) (links s))
      else list_del (PageLink x) (links s))"
  by (simp add: slub_take_def Let_def frame_simps)

lemma slub_take_wf:
  assumes "slub_wf s (us @ x # vs)" and "0 < n" and "n \<le> psize s x"
  shows "slub_wf (slub_take x n s) (rest_of s x n @ us @ vs)"
    and "free_set (slub_take x n s) (rest_of s x n @ us @ vs) = free_set s (us @ x # vs) - {x ..< x + n}"
    and "{x ..< x + n} \<subseteq> free_set s (us @ x # vs)"
proof -
  let ?t = "slub_take x n s" and ?ys = "us @ vs"
  have wf: "dlist (links s) FreeHead (List.map PageLink (us @ x # vs))" "x \<notin> set ?ys"
    "block s x \<inter> free_set s ?ys = {}" "0 < psize s x" "slub_blocks s ?ys"
    "nr_free s = (\<Sum>p\<leftarrow>us @ x # vs. psize s p)" "nr_free s < 2 ^ 32"
    using assms(1) by (simp_all add: slub_wf_def slub_blocks_mid slub_blocks_Cons)
  have small: "psize s x < 2 ^ 32" using wf(6,7) by simp
  have head: "p \<in> free_set s ?ys" if "p \<in> set ?ys" for p
    using that wf(5) by (force simp: free_set_def block_def slub_blocks_def)
  have ys: "p \<noteq> x \<and> (n < psize s x \<longrightarrow> p \<noteq> x + n)" if "p \<in> set ?ys" for p
  proof -
    have "x + n \<in> block s x" if "n < psize s x" using that by (simp add: block_def)
    then show ?thesis using that wf(2,3) head [OF that] by auto
  qed
  have sz: "psize ?t p = psize s p \<and> PageProperty p ?t = PageProperty p s" if "p \<in> set ?ys" for p
    using ys [OF that] by (auto simp: frame_simps)
  have fs: "free_set ?t ?ys = free_set s ?ys" by (rule free_set_cong) (use sz in simp)
  have bl: "slub_blocks ?t ?ys" using wf(5) slub_blocks_cong [of ?ys ?t s] sz by simp
  have rest: "free_set ?t (rest_of s x n) = block s x - {x ..< x + n}"
    using small assms(3) by (auto simp: rest_of_def block_def frame_simps)
  have sub: "{x ..< x + n} \<subseteq> block s x" using assms(3) by (auto simp: block_def)
  then show "{x ..< x + n} \<subseteq> free_set s (us @ x # vs)" by auto
  show "free_set ?t (rest_of s x n @ us @ vs) = free_set s (us @ x # vs) - {x ..< x + n}"
    using fs rest sub wf(3) by auto
  have del: "dlist (list_del (PageLink x) (links s)) FreeHead (List.map PageLink ?ys)"
    using wf(1) list_del_mid [of "links s" FreeHead "List.map PageLink us" "PageLink x"] by simp
  have "x + n \<notin> set ?ys" if "n < psize s x" using ys that by blast
  then have "dlist (links ?t) FreeHead (List.map PageLink (rest_of s x n @ ?ys))"
    using del by (auto simp: links_slub_take rest_of_def intro!: list_add_head)
  moreover have "slub_blocks ?t (rest_of s x n @ ?ys)"
  proof (cases "n < psize s x")
    case True
    have "block ?t (x + n) \<subseteq> block s x" using True small by (auto simp: block_def frame_simps)
    then show ?thesis
      using True bl fs wf(3) ys small assms(2) by (auto simp: rest_of_def slub_blocks_Cons frame_simps)
  qed (simp add: rest_of_def bl)
  moreover have "nr_free ?t = (\<Sum>p\<leftarrow>rest_of s x n @ ?ys. psize ?t p)"
  proof -
    have "(\<Sum>p\<leftarrow>?ys. psize ?t p) = (\<Sum>p\<leftarrow>?ys. psize s p)" by (rule sum_prop_cong) (use sz in simp)
    moreover have "(\<Sum>p\<leftarrow>rest_of s x n. psize ?t p) = psize s x - n"
      using small assms(3) by (auto simp: rest_of_def frame_simps)
    moreover have "sub32 (nr_free s) n = nr_free s - n"
      using wf(6,7) assms(3) by (intro sub32_le) simp_all
    ultimately show ?thesis using wf(6) assms(3) by (simp add: frame_simps)
  qed
  ultimately show "slub_wf ?t (rest_of s x n @ us @ vs)"
    by (simp add: slub_wf_def frame_simps sub32_def)
qed


section \<open>Merging\<close>

text \<open>One merge: two adjacent blocks \<open>lo\<close> and \<open>hi\<close> become one block at \<open>lo\<close>.\<close>

lemma slub_join:
  assumes "slub_blocks s (lo # hi # xs)" and "lo + psize s lo = hi"
    and "\<forall>q. psize t q = (if q = lo then psize s lo + psize s hi else psize s q)"
    and "\<forall>q. PageProperty q t \<longleftrightarrow> q \<noteq> hi \<and> PageProperty q s"
  shows "slub_blocks t (lo # xs)" and "free_set t (lo # xs) = free_set s (lo # hi # xs)"
    and "(\<Sum>p\<leftarrow>lo # xs. psize t p) = (\<Sum>p\<leftarrow>lo # hi # xs. psize s p)"
proof -
  have b: "lo \<notin> set xs" "hi \<notin> set xs" "lo \<noteq> hi" "0 < psize s lo" "PageProperty lo s" "slub_blocks s xs"
    "block s lo \<inter> free_set s (hi # xs) = {}" "block s hi \<inter> free_set s xs = {}"
    using assms(1) by (auto simp: slub_blocks_Cons)
  have sz: "psize t q = psize s q" if "q \<noteq> lo" for q using assms(3) that by simp
  have lo: "block t lo = block s lo \<union> block s hi" using assms(2,3) by (auto simp: block_def)
  have fs: "free_set t xs = free_set s xs" by (rule free_set_cong) (use sz b(1) in metis)
  have "slub_blocks t xs = slub_blocks s xs"
    by (rule slub_blocks_cong) (use sz assms(4) b(1,2) in metis)
  then show "slub_blocks t (lo # xs)"
    using b fs lo assms(3,4) by (auto simp: slub_blocks_Cons)
  show "free_set t (lo # xs) = free_set s (lo # hi # xs)" using fs lo by auto
  have "(\<Sum>p\<leftarrow>xs. psize t p) = (\<Sum>p\<leftarrow>xs. psize s p)" by (rule sum_prop_cong) (use sz b(1) in metis)
  then show "(\<Sum>p\<leftarrow>lo # xs. psize t p) = (\<Sum>p\<leftarrow>lo # hi # xs. psize s p)" using assms(3) by simp
qed

text \<open>
  The loop: \<open>us\<close> has been passed, \<open>vs\<close> is still to come.  If the list was coalesced and nothing passed
  touches the block, nothing in the result touches anything.
\<close>

lemma slub_merge_facts:
  assumes "dlist (links s) FreeHead (List.map PageLink (us @ vs))" and "slub_blocks s (b # us @ vs)"
    and "(\<Sum>p\<leftarrow>b # us @ vs. psize s p) < 2 ^ 32"
  shows "\<exists>b' ws t. slub_merge (hd (List.map PageLink vs @ [FreeHead])) b s = Some (b', t) \<and>
    dlist (links t) FreeHead (List.map PageLink ws) \<and> slub_blocks t (b' # ws) \<and>
    free_set t (b' # ws) = free_set s (b # us @ vs) \<and>
    (\<Sum>p\<leftarrow>b' # ws. psize t p) = (\<Sum>p\<leftarrow>b # us @ vs. psize s p) \<and> nr_free t = nr_free s \<and>
    block s b \<subseteq> block t b' \<and>
    (coalesced s (us @ vs) \<and> (\<forall>u\<in>set us. u + psize s u \<noteq> b \<and> b + psize s b \<noteq> u) \<longrightarrow> coalesced t (b' # ws))"
  using assms
proof (induction vs arbitrary: us b s)
  case Nil
  have "coalesced s (b # us)"
    if "coalesced s us" "\<forall>u\<in>set us. u + psize s u \<noteq> b \<and> b + psize s b \<noteq> u"
    using that Nil.prems(2) by (auto simp: coalesced_def slub_blocks_Cons)
  with Nil show ?case by (subst slub_merge.simps) auto
next
  case (Cons p vs)
  let ?next = "hd (List.map PageLink vs @ [FreeHead])"
  have nx: "nxt (links s) (PageLink p) = ?next"
    using dlist_next_mid [of "links s" FreeHead "List.map PageLink us" "PageLink p"] Cons.prems(1) by simp
  have del: "dlist (list_del (PageLink p) (links s)) FreeHead (List.map PageLink (us @ vs))"
    using Cons.prems(1) list_del_mid [of "links s" FreeHead "List.map PageLink us" "PageLink p"] by simp
  have bl: "slub_blocks s (b # p # us @ vs)" "slub_blocks s (p # b # us @ vs)"
    using Cons.prems(2) by (rule slub_blocks_perm [rotated 2]; auto)+
  have small: "psize s b + psize s p < 2 ^ 32" using Cons.prems(3) by simp
  have merged: ?case
    if m: "slub_merge (PageLink p) b s = slub_merge ?next lo t" "links t = list_del (PageLink p) (links s)"
      "nr_free t = nr_free s" "(lo = b \<and> hi = p) \<or> (lo = p \<and> hi = b)" "lo + psize s lo = hi"
      "\<forall>q. psize t q = (if q = lo then psize s lo + psize s hi else psize s q)"
      "\<forall>q. PageProperty q t \<longleftrightarrow> q \<noteq> hi \<and> PageProperty q s" for lo hi t
  proof -
    have j: "slub_blocks s (lo # hi # us @ vs)" using bl m(4) by auto
    note join = slub_join [OF j m(5-7)]
    have sum: "(\<Sum>q\<leftarrow>lo # us @ vs. psize t q) = (\<Sum>q\<leftarrow>b # us @ p # vs. psize s q)"
      using join(3) m(4) by auto
    have fs: "free_set t (lo # us @ vs) = free_set s (b # us @ p # vs)" using join(2) m(4) by auto
    have sub: "block s b \<subseteq> block t lo" using m(4-6) by (auto simp: block_def)
    have co: "coalesced t (us @ vs) \<and> (\<forall>u\<in>set us. u + psize t u \<noteq> lo \<and> lo + psize t lo \<noteq> u)"
      if c: "coalesced s (us @ p # vs)" "\<forall>u\<in>set us. u + psize s u \<noteq> b \<and> b + psize s b \<noteq> u"
    proof
      have "lo \<notin> set (us @ vs)" using j by (auto simp: slub_blocks_Cons)
      then have "coalesced t (us @ vs) = coalesced s (us @ vs)" using m(6) by (intro coalesced_cong) metis
      then show "coalesced t (us @ vs)" using c(1) by (auto simp: coalesced_def)
      have "\<forall>u\<in>set us. u \<in> set (us @ vs) \<and> u + psize s u \<noteq> lo \<and> hi + psize s hi \<noteq> u"
        using m(4) c by (auto simp: coalesced_def)
      then show "\<forall>u\<in>set us. u + psize t u \<noteq> lo \<and> lo + psize t lo \<noteq> u"
        using \<open>lo \<notin> set (us @ vs)\<close> m(5,6) by (metis add.assoc)
    qed
    have sm: "(\<Sum>q\<leftarrow>lo # us @ vs. psize t q) < 2 ^ 32" using sum Cons.prems(3) by simp
    obtain b' ws t' where "slub_merge ?next lo t = Some (b', t')" "dlist (links t') FreeHead (List.map PageLink ws)"
      "slub_blocks t' (b' # ws)" "free_set t' (b' # ws) = free_set t (lo # us @ vs)"
      "(\<Sum>q\<leftarrow>b' # ws. psize t' q) = (\<Sum>q\<leftarrow>lo # us @ vs. psize t q)" "nr_free t' = nr_free t"
      "block t lo \<subseteq> block t' b'"
      "coalesced t (us @ vs) \<and> (\<forall>u\<in>set us. u + psize t u \<noteq> lo \<and> lo + psize t lo \<noteq> u) \<longrightarrow> coalesced t' (b' # ws)"
      using Cons.IH [OF _ join(1) sm] del m(2) by auto
    then show ?case using m(1,3) sum fs sub co
      by (intro exI [of _ b'] exI [of _ ws] exI [of _ t']) auto
  qed
  consider (up) "b + psize s b = p" | (down) "b + psize s b \<noteq> p" "p + psize s p = b"
    | (no) "b + psize s b \<noteq> p" "p + psize s p \<noteq> b" by blast
  then show ?case
  proof cases
    case up
    then show ?thesis
      by (intro merged [of b "(ClearPageProperty p (set_property b (psize s b + psize s p) s))
        \<lparr>links := list_del (PageLink p) (links s)\<rparr>" p])
        (use small nx in \<open>subst slub_merge.simps, simp_all add: frame_simps Let_def\<close>)
  next
    case down
    then show ?thesis
      by (intro merged [of p "(ClearPageProperty b (set_property p (psize s p + psize s b) s))
        \<lparr>links := list_del (PageLink p) (links s)\<rparr>" b])
        (use small nx in \<open>subst slub_merge.simps, simp_all add: frame_simps Let_def\<close>)
  next
    case no
    have e: "slub_merge (PageLink p) b s = slub_merge ?next b s"
      using no nx by (subst slub_merge.simps) (simp add: Let_def)
    have "\<exists>b' ws t. slub_merge ?next b s = Some (b', t) \<and>
      dlist (links t) FreeHead (List.map PageLink ws) \<and> slub_blocks t (b' # ws) \<and>
      free_set t (b' # ws) = free_set s (b # (us @ [p]) @ vs) \<and>
      (\<Sum>p\<leftarrow>b' # ws. psize t p) = (\<Sum>p\<leftarrow>b # (us @ [p]) @ vs. psize s p) \<and> nr_free t = nr_free s \<and>
      block s b \<subseteq> block t b' \<and>
      (coalesced s ((us @ [p]) @ vs) \<and> (\<forall>u\<in>set (us @ [p]). u + psize s u \<noteq> b \<and> b + psize s b \<noteq> u) \<longrightarrow>
        coalesced t (b' # ws))"
      by (rule Cons.IH) (use Cons.prems in simp_all)
    then show ?thesis using e no by auto
  qed
qed


section \<open>The operations of the page layer\<close>

lemma slub_alloc_facts:
  assumes "slub_wf s xs" and "0 < n"
  shows "(List.find (\<lambda>p. n \<le> psize s p) xs = None \<longrightarrow> slub_alloc_pages n s = Some (None, s)) \<and>
    (\<forall>p. List.find (\<lambda>p. n \<le> psize s p) xs = Some p \<longrightarrow>
       (\<exists>ys. slub_alloc_pages n s = Some (Some p, slub_take p n s) \<and> slub_wf (slub_take p n s) ys \<and>
          {p ..< p + n} \<subseteq> free_set s xs \<and> free_set (slub_take p n s) ys = free_set s xs - {p ..< p + n}))"
proof -
  have np: "npath (links s) FreeHead (List.map PageLink xs) FreeHead"
    using assms(1) by (simp add: slub_wf_def dlist_npath)
  have le: "psize s p \<le> nr_free s" if "p \<in> set xs" for p
    using that prop_le_sum [of p xs s] assms(1) by (simp add: slub_wf_def)
  have eq: "slub_alloc_pages n s =
    (case List.find (\<lambda>p. n \<le> psize s p) xs of None \<Rightarrow> Some (None, s) | Some p \<Rightarrow> Some (Some p, slub_take p n s))"
    if "n \<le> nr_free s" using assms(2) that by (simp add: slub_alloc_pages_def slub_find_npath [OF np])
  have none: "List.find (\<lambda>p. n \<le> psize s p) xs = None" "slub_alloc_pages n s = Some (None, s)"
    if "nr_free s < n" using that le assms(2) by (fastforce simp: find_None_iff slub_alloc_pages_def)+
  show ?thesis
  proof (cases "nr_free s < n")
    case True
    then show ?thesis using none by simp
  next
    case False
    show ?thesis
    proof (cases "List.find (\<lambda>p. n \<le> psize s p) xs")
      case None
      then show ?thesis using eq False by simp
    next
      case (Some p)
      then obtain us vs where "xs = us @ p # vs" "n \<le> psize s p" using find_split [OF Some] by blast
      then show ?thesis
        using Some eq False assms slub_take_wf [of s us p vs n] by auto
    qed
  qed
qed

lemma slub_free_facts:
  assumes "slub_wf s xs" and "freeable s xs base n"
  shows "\<exists>t ys. slub_free_pages base n s = Some t \<and> slub_wf t ys \<and>
    free_set t ys = free_set s xs \<union> {base ..< base + n} \<and> nr_free t = nr_free s + n \<and>
    {base ..< base + n} \<subseteq> block t (hd ys) \<and> (coalesced s xs \<longrightarrow> coalesced t ys)"
proof -
  have f: "0 < n" "nr_free s + n < 2 ^ 32" "{base ..< base + n} \<inter> free_set s xs = {}"
    "\<forall>q. base \<le> q \<and> q < base + n \<longrightarrow> \<not> PageReserved q s \<and> \<not> PageProperty q s"
    using assms(2) by (auto simp: freeable_def list_all_iff)
  have wf: "dlist (links s) FreeHead (List.map PageLink xs)" "slub_blocks s xs" "nr_free s = (\<Sum>p\<leftarrow>xs. psize s p)"
    using assms(1) by (simp_all add: slub_wf_def)
  obtain t1 where t1: "clear_descriptors base n s = Some t1" "links t1 = links s" "nr_free t1 = nr_free s"
    "\<forall>q. psize t1 q = psize s q" "\<forall>q. PageProperty q t1 = PageProperty q s"
    using clear_descriptors_ok [OF f(4)] by blast
  let ?s2 = "SetPageProperty base (set_property base n t1)"
  have ne: "p \<noteq> base" if "p \<in> set xs" for p
  proof -
    have "p \<in> free_set s xs" using that wf(2) by (force simp: free_set_def block_def slub_blocks_def)
    moreover have "base \<in> {base ..< base + n}" using f(1) by simp
    ultimately show ?thesis using f(3) by blast
  qed
  have sz: "psize ?s2 q = (if q = base then n else psize s q)" for q using f(2) t1(4) by (simp add: frame_simps)
  have fs: "free_set ?s2 xs = free_set s xs" by (rule free_set_cong) (use sz ne in simp)
  have "psize ?s2 p = psize s p \<and> PageProperty p ?s2 = PageProperty p s" if "p \<in> set xs" for p
    using sz [of p] ne [OF that] t1(5) by (simp add: frame_simps)
  then have bl: "slub_blocks ?s2 xs" using wf(2) slub_blocks_cong [of xs ?s2 s] by blast
  have base: "block ?s2 base = {base ..< base + n}" using sz by (simp add: block_def)
  have b2: "slub_blocks ?s2 (base # xs)"
    using bl fs base f(1-3) ne by (auto simp: slub_blocks_Cons frame_simps)
  have sum: "(\<Sum>p\<leftarrow>base # xs. psize ?s2 p) = nr_free s + n"
  proof -
    have "(\<Sum>p\<leftarrow>xs. psize ?s2 p) = (\<Sum>p\<leftarrow>xs. psize s p)" by (rule sum_prop_cong) (use sz ne in simp)
    then show ?thesis using sz wf(3) by simp
  qed
  have d: "dlist (links ?s2) FreeHead (List.map PageLink xs)" using wf(1) t1(2) by (simp add: frame_simps)
  have sm: "(\<Sum>p\<leftarrow>base # xs. psize ?s2 p) < 2 ^ 32" unfolding sum by (rule f(2))
  obtain b ws t where m:
    "slub_merge (hd (List.map PageLink xs @ [FreeHead])) base ?s2 = Some (b, t)"
    "dlist (links t) FreeHead (List.map PageLink ws)" "slub_blocks t (b # ws)"
    "free_set t (b # ws) = free_set ?s2 (base # xs)" "(\<Sum>p\<leftarrow>b # ws. psize t p) = nr_free s + n"
    "nr_free t = nr_free ?s2" "block ?s2 base \<subseteq> block t b" "coalesced ?s2 xs \<longrightarrow> coalesced t (b # ws)"
    using slub_merge_facts [of ?s2 "[]" xs base, unfolded append_Nil, OF d b2 sm] unfolding sum by auto
  let ?t = "(t\<lparr>nr_free := u32 (nr_free t + n)\<rparr>)\<lparr>links := list_add FreeHead (PageLink b) (links t)\<rparr>"
  have "nxt (links ?s2) FreeHead = hd (List.map PageLink xs @ [FreeHead])"
    using dlist_first [OF wf(1)] t1(2) by (simp add: frame_simps)
  then have "slub_free_pages base n s = Some ?t"
    using f(1) t1(1) m(1) by (simp add: slub_free_pages_def)
  moreover have nr: "nr_free ?t = nr_free s + n" using m(6) t1(3) f(2) by (simp add: frame_simps)
  moreover have "dlist (links ?t) FreeHead (List.map PageLink (b # ws))"
    using m(2,3) by (auto simp: slub_blocks_Cons intro!: list_add_head)
  moreover have eqs: "psize ?t q = psize t q \<and> PageProperty q ?t = PageProperty q t" for q
    by (simp add: frame_simps)
  moreover have "slub_blocks ?t (b # ws)" using m(3) slub_blocks_cong [of "b # ws" ?t t] eqs by blast
  moreover have "free_set ?t (b # ws) = free_set s xs \<union> {base ..< base + n}"
    using m(4) fs base free_set_cong [of "b # ws" ?t t] eqs by auto
  moreover have "(\<Sum>p\<leftarrow>b # ws. psize ?t p) = nr_free s + n"
    using m(5) sum_prop_cong [of "b # ws" ?t t] eqs by simp
  moreover have "{base ..< base + n} \<subseteq> block ?t (hd (b # ws))"
    using m(7) unfolding base by (simp add: block_def)
  moreover have "coalesced s xs \<longrightarrow> coalesced ?t (b # ws)"
    using m(8) coalesced_cong [of xs ?s2 s] sz ne coalesced_cong [of "b # ws" ?t t] eqs by simp
  ultimately show ?thesis using f(2) unfolding slub_wf_def by (intro exI [of _ ?t] exI [of _ "b # ws"]) auto
qed


section \<open>Fresh memory\<close>

lemma slub_init_pages_facts:
  assumes "dlist (links s) FreeHead (List.map PageLink xs)" and "slub_blocks s xs"
    and "\<forall>q. p \<le> q \<and> q < p + k \<longrightarrow> PageReserved q s \<and> q \<notin> free_set s xs"
  shows "\<exists>t. slub_init_pages p k s = Some t \<and> dlist (links t) FreeHead (List.map PageLink (xs @ [p ..< p + k])) \<and>
    slub_blocks t (xs @ [p ..< p + k]) \<and> nr_free t = nr_free s \<and>
    (\<forall>q. psize t q = (if p \<le> q \<and> q < p + k then 1 else psize s q))"
  using assms
proof (induction k arbitrary: p s xs)
  case 0
  then show ?case by simp
next
  case (Suc k)
  let ?s1 = "SetPageProperty p (set_page_ref p 0 (set_property p 1 (set_flags p 0 s)))"
  let ?s2 = "?s1\<lparr>links := list_add_before FreeHead (PageLink p) (links ?s1)\<rparr>"
  have p: "PageReserved p s" "p \<notin> free_set s xs" using Suc.prems(3) by auto
  have ne: "q \<noteq> p" if "q \<in> set xs" for q
    using that Suc.prems(2) p(2) by (force simp: free_set_def block_def slub_blocks_def)
  then have nin: "p \<notin> set xs" by blast
  have sz: "psize ?s2 q = (if q = p then 1 else psize s q)" for q by (simp add: frame_simps)
  have pp: "PageProperty q ?s2 \<longleftrightarrow> q = p \<or> PageProperty q s" for q by (auto simp: frame_simps)
  have fs: "free_set ?s2 xs = free_set s xs" by (rule free_set_cong) (use sz ne in simp)
  have "slub_blocks ?s2 xs = slub_blocks s xs" by (rule slub_blocks_cong) (use sz pp ne in simp)
  then have bl: "slub_blocks ?s2 (xs @ [p])"
    using Suc.prems(2) fs p(2) sz pp ne slub_blocks_mid [of ?s2 xs p "[]"] by (auto simp: slub_blocks_Cons block_def)
  have dl: "dlist (links ?s2) FreeHead (List.map PageLink (xs @ [p]))"
    using Suc.prems(1) nin by (auto simp: frame_simps intro!: list_add_tail)
  have rs: "PageReserved q ?s2 \<and> q \<notin> free_set ?s2 (xs @ [p])" if "Suc p \<le> q" "q < Suc p + k" for q
    using that Suc.prems(3) fs sz by (auto simp: frame_simps block_def)
  have up: "xs @ [p ..< p + Suc k] = (xs @ [p]) @ [Suc p ..< Suc p + k]" by (simp add: upt_conv_Cons)
  obtain t where t: "slub_init_pages (Suc p) k ?s2 = Some t"
    "dlist (links t) FreeHead (List.map PageLink ((xs @ [p]) @ [Suc p ..< Suc p + k]))"
    "slub_blocks t ((xs @ [p]) @ [Suc p ..< Suc p + k])" "nr_free t = nr_free ?s2"
    "\<forall>q. psize t q = (if Suc p \<le> q \<and> q < Suc p + k then 1 else psize ?s2 q)"
    using Suc.IH [OF dl bl] rs by blast
  moreover have "slub_init_pages p (Suc k) s = Some t" using p(1) t(1) by (simp add: Let_def)
  moreover have "nr_free t = nr_free s" using t(4) by (simp add: frame_simps)
  moreover have "psize t q = (if p \<le> q \<and> q < p + Suc k then 1 else psize s q)" for q
    using t(5) sz [of q] by auto
  ultimately show ?case unfolding up by blast
qed

lemma slub_fresh_facts:
  assumes "0 < n" and "n < 2 ^ 32" and "\<forall>q. base \<le> q \<and> q < base + n \<longrightarrow> PageReserved q s"
  shows "\<exists>t. slub_init_memmap base n (slub_init_area s) = Some t \<and> slub_wf t [base ..< base + n] \<and>
    free_set t [base ..< base + n] = {base ..< base + n} \<and> nr_free t = n \<and>
    (\<forall>q. base \<le> q \<and> q < base + n \<longrightarrow> psize t q = 1)"
proof -
  let ?s = "slub_init_area s"
  have l: "dlist (links ?s) FreeHead (List.map PageLink [])" by (simp add: slub_init_area_def list_init_dlist)
  have b: "slub_blocks ?s []" by (simp add: slub_blocks_def)
  have r: "\<forall>q. base \<le> q \<and> q < base + n \<longrightarrow> PageReserved q ?s \<and> q \<notin> free_set ?s []"
    using assms(3) by (simp add: slub_init_area_def PageReserved_def)
  obtain t where t: "slub_init_pages base n ?s = Some t"
    "dlist (links t) FreeHead (List.map PageLink [base ..< base + n])" "slub_blocks t [base ..< base + n]"
    "nr_free t = nr_free ?s" "\<forall>q. psize t q = (if base \<le> q \<and> q < base + n then 1 else psize ?s q)"
    using slub_init_pages_facts [OF l b r] by auto
  let ?t = "t\<lparr>nr_free := u32 (nr_free t + n)\<rparr>"
  have "slub_init_memmap base n ?s = Some ?t" using assms(1) t(1) by (simp add: slub_init_memmap_def)
  moreover have nr: "nr_free ?t = n" using t(4) assms(2) by (simp add: slub_init_area_def)
  moreover have "slub_blocks ?t [base ..< base + n]"
    using t(3) slub_blocks_cong [of "[base ..< base + n]" ?t t] by (simp add: frame_simps)
  moreover have "(\<Sum>p\<leftarrow>[base ..< base + n]. psize ?t p) = n"
  proof -
    have "List.map (psize ?t) [base ..< base + n] = replicate n 1"
      by (rule nth_equalityI) (use t(5) in auto)
    then show ?thesis by (simp only: sum_list_replicate) simp
  qed
  moreover have "free_set ?t [base ..< base + n] = {base ..< base + n}"
    using t(5) by (auto simp: free_set_def block_def)
  ultimately show ?thesis using t(2,5) assms(2) unfolding slub_wf_def by (intro exI [of _ ?t]) simp
qed

section \<open>Objects\<close>

text \<open>
  \<^verbatim>\<open>struct kmem_cache\<close> and the two statics.  \<^verbatim>\<open>kmem_cache_create\<close> always returns the address of its one
  static object, so a pointer to a cache is NULL (\<open>False\<close>) or that object (\<open>True\<close>), and all eight
  entries of \<^verbatim>\<open>slub_caches\<close> share it.  Object pointers are 64-bit words; \<open>npage\<close> is the number of the
  last page frame plus one.
\<close>

datatype slab_head = SlabsFull | SlabsPartial | SlabsFree

record kmem_cache =
  cache_name :: "8 word list"
  cache_size :: "32 word"
  objs_per_slab :: nat
  cache_order :: nat
  cache_offset :: nat
  slabs :: "slab_head links"
  num_slabs :: nat
  num_objects :: nat
  num_free :: nat

record slub =
  s_area :: pmm
  cache_storage :: kmem_cache
  slub_caches :: "bool list"

definition SLUB_NAME_LEN :: nat where "SLUB_NAME_LEN = 32"
definition cache_sizes :: "nat list" where "cache_sizes = [16, 32, 64, 128, 256, 512, 1024, 2048]"
definition slub_KERNBASE :: "64 word" where "slub_KERNBASE = 0xFFFFFFFFC0200000"
definition slub_nbase :: nat where "slub_nbase = 0x80000000 div 4096"

definition slub_pa2kva :: "64 word \<Rightarrow> 64 word" where "slub_pa2kva pa = pa + slub_KERNBASE"
definition slub_kva2pa :: "64 word \<Rightarrow> 64 word" where "slub_kva2pa kva = kva - slub_KERNBASE"
definition slub_page2pa :: "nat \<Rightarrow> 64 word" where "slub_page2pa page = push_bit 12 (of_nat (page + slub_nbase))"
definition slub_page2kva :: "nat \<Rightarrow> 64 word" where "slub_page2kva page = slub_pa2kva (slub_page2pa page)"

text \<open>\<^verbatim>\<open>pa2page\<close>; a frame below the first one is outside the array \<^verbatim>\<open>pages\<close>.\<close>

definition slub_pa2page :: "nat \<Rightarrow> 64 word \<Rightarrow> nat option" where
  "slub_pa2page npage pa =
     (let ppn = unat (drop_bit 12 pa)
      in if npage \<le> ppn \<or> ppn < slub_nbase then None else Some (ppn - slub_nbase))"

definition calculate_aligned_size :: "32 word \<Rightarrow> 32 word" where
  "calculate_aligned_size x = (if x < 16 then 16 else (x + 15) AND NOT 15)"

definition kmem_cache_create :: "8 word list \<Rightarrow> 64 word \<Rightarrow> slub \<Rightarrow> bool \<times> slub" where
  "kmem_cache_create name sz s =
     (let c = cache_storage s;
          nm = take (SLUB_NAME_LEN - 1) (name @ replicate (SLUB_NAME_LEN - 1) 0) @ [0];
          c1 = c\<lparr>cache_name := nm, cache_size := calculate_aligned_size (ucast sz), objs_per_slab := 1,
                 cache_order := 0, cache_offset := 0,
                 slabs := list_init SlabsFree (list_init SlabsPartial (list_init SlabsFull (slabs c))),
                 num_slabs := 0, num_objects := 0, num_free := 0\<rparr>
      in (True, s\<lparr>cache_storage := c1\<rparr>))"

definition kmem_cache_alloc :: "bool \<Rightarrow> slub \<Rightarrow> (64 word \<times> slub) option" where
  "kmem_cache_alloc cache s =
     (if \<not> cache then Some (0, s)
      else do {
        (page, a) \<leftarrow> slub_alloc_pages 1 (s_area s);
        let s1 = s\<lparr>s_area := a\<rparr>;
        let c = cache_storage s1;
        case page of
          None \<Rightarrow> Some (0, s1)
        | Some p \<Rightarrow> Some (slub_page2kva p, s1\<lparr>cache_storage :=
              c\<lparr>num_slabs := u32 (num_slabs c + 1), num_objects := u32 (num_objects c + 1), num_free := num_free c + 0\<rparr>\<rparr>)
      })"

definition kmem_cache_free :: "nat \<Rightarrow> bool \<Rightarrow> 64 word \<Rightarrow> slub \<Rightarrow> slub option" where
  "kmem_cache_free npage cache obj s =
     (if \<not> cache \<or> obj = 0 then Some s
      else do {
        page \<leftarrow> slub_pa2page npage (slub_kva2pa obj);
        a \<leftarrow> slub_free_pages page 1 (s_area s);
        let c = cache_storage s;
        Some (s\<lparr>s_area := a, cache_storage :=
          c\<lparr>num_slabs := sub32 (num_slabs c) 1, num_objects := sub32 (num_objects c) 1\<rparr>\<rparr>)
      })"

text \<open>The loop of \<^verbatim>\<open>kmalloc\<close>: the first size that is large enough and whose cache exists.\<close>

fun slub_pick_cache :: "64 word \<Rightarrow> nat list \<Rightarrow> bool list \<Rightarrow> bool" where
  "slub_pick_cache sz (c # cs) (k # ks) = ((sz \<le> of_nat c \<and> k) \<or> slub_pick_cache sz cs ks)"
| "slub_pick_cache sz cs ks = False"

definition slub_kmalloc :: "64 word \<Rightarrow> slub \<Rightarrow> (64 word \<times> slub) option" where
  "slub_kmalloc sz s =
     (if sz = 0 then Some (0, s)
      else if slub_pick_cache sz cache_sizes (slub_caches s) then kmem_cache_alloc True s
      else do {
        let pgs = unat (ucast ((sz + 4096 - 1) div 4096) :: 32 word);
        (page, a) \<leftarrow> slub_alloc_pages pgs (s_area s);
        case page of
          None \<Rightarrow> Some (0, s\<lparr>s_area := a\<rparr>)
        | Some p \<Rightarrow> Some (slub_page2kva p, s\<lparr>s_area := a\<rparr>)
      })"

definition slub_kfree :: "nat \<Rightarrow> 64 word \<Rightarrow> slub \<Rightarrow> slub option" where
  "slub_kfree npage obj s =
     (if obj = 0 then Some s
      else if slub_caches s ! 0 then kmem_cache_free npage True obj s
      else do {
        page \<leftarrow> slub_pa2page npage (slub_kva2pa obj);
        a \<leftarrow> slub_free_pages page 1 (s_area s);
        Some (s\<lparr>s_area := a\<rparr>)
      })"

text \<open>The caches are created with the names \<^verbatim>\<open>size-16\<close> and so on.\<close>

definition cache_label :: "nat \<Rightarrow> 8 word list option" where
  "cache_label n = vprintfmt (\<lambda>_. 0) ''size-%u'' [of_nat n]"

fun slub_init_caches :: "nat \<Rightarrow> nat list \<Rightarrow> slub \<Rightarrow> slub option" where
  "slub_init_caches i [] s = Some s"
| "slub_init_caches i (c # cs) s =
     do {
       nm \<leftarrow> cache_label c;
       case kmem_cache_create (take (SLUB_NAME_LEN - 1) nm) (of_nat c) s of (p, s1) \<Rightarrow>
       slub_init_caches (i + 1) cs (s1\<lparr>slub_caches := (slub_caches s1)[i := p]\<rparr>)
     }"

definition slub_init :: "slub \<Rightarrow> slub option" where
  "slub_init s = slub_init_caches 0 cache_sizes (s\<lparr>s_area := slub_init_area (s_area s)\<rparr>)"


section \<open>Properties\<close>

lemma slub_pa2page_page2pa:
  assumes "p + slub_nbase < npage" and "npage \<le> 2 ^ 52"
  shows "slub_pa2page npage (slub_kva2pa (slub_page2kva p)) = Some p"
proof -
  have "slub_page2pa p = of_nat ((p + slub_nbase) * 4096)"
    by (simp add: slub_page2pa_def push_bit_eq_mult algebra_simps)
  then have "unat (slub_page2pa p) = (p + slub_nbase) * 4096"
    using assms by (simp only: unat_of_nat) (intro mod_less, simp)
  then have "unat (drop_bit 12 (slub_page2pa p)) = p + slub_nbase"
    unfolding unat_drop_bit_eq by (simp add: drop_bit_eq_div)
  then show ?thesis
    using assms by (simp add: slub_pa2page_def slub_kva2pa_def slub_page2kva_def slub_pa2kva_def)
qed

text \<open>
  The address handed out is not an address of the kernel: \<^verbatim>\<open>pa2kva\<close> adds \<^verbatim>\<open>KERNBASE\<close>, the virtual address
  of the kernel image, where the mapping needs the offset \<^verbatim>\<open>PHYSICAL_MEMORY_OFFSET\<close>.
\<close>

lemma slub_object_below_kernel:
  assumes "p < 2 ^ 15"
  shows "slub_page2kva p < slub_KERNBASE" and "slub_page2kva p \<noteq> slub_page2pa p + 0xFFFFFFFF40000000"
proof -
  have k: "slub_KERNBASE = - 0x3FE00000" by (simp add: slub_KERNBASE_def)
  have "slub_page2kva p = of_nat (p * 4096) + 0x40200000"
    unfolding slub_page2kva_def slub_pa2kva_def slub_page2pa_def slub_nbase_def k
    by (simp add: push_bit_eq_mult distrib_left)
  then have "slub_page2kva p = of_nat (p * 4096 + 0x40200000)" by simp
  then have "unat (slub_page2kva p) = p * 4096 + 0x40200000"
    using assms by (simp only: unat_of_nat) (intro mod_less, simp)
  then show "slub_page2kva p < slub_KERNBASE" using assms by (simp add: word_less_nat_alt slub_KERNBASE_def)
  show "slub_page2kva p \<noteq> slub_page2pa p + 0xFFFFFFFF40000000"
    by (simp add: slub_page2kva_def slub_pa2kva_def slub_KERNBASE_def)
qed

lemma PageReserved_slub_take [frame_simps]: "PageReserved q (slub_take p n s) = PageReserved q s"
  by (auto simp: slub_take_def Let_def frame_simps)

lemma slub_kmalloc_page:
  assumes "slub_kmalloc sz s = Some (obj, t)" and "obj \<noteq> 0"
  shows "\<exists>p a. slub_alloc_pages (if slub_pick_cache sz cache_sizes (slub_caches s) then 1
      else unat (ucast ((sz + 4096 - 1) div 4096) :: 32 word)) (s_area s) = Some (Some p, a) \<and>
    obj = slub_page2kva p \<and> s_area t = a \<and> slub_caches t = slub_caches s"
  using assms
  by (auto simp: slub_kmalloc_def kmem_cache_alloc_def bind_Some_iff Let_def split: if_splits option.splits)

text \<open>
  C36: \<^verbatim>\<open>slub_alloc_pages\<close> takes the first block of the list that is large enough: it returns its first page,
  removes exactly the \<open>n\<close> pages from there from the free set and keeps the free area well formed; when no
  block is large enough it returns NULL and changes nothing.
\<close>

theorem slub_alloc_correct:
  assumes "slub_wf s xs" and "0 < n"
  shows "(case List.find (\<lambda>p. n \<le> psize s p) xs of
      None \<Rightarrow> slub_alloc_pages n s = Some (None, s)
    | Some p \<Rightarrow> \<exists>t ys. slub_alloc_pages n s = Some (Some p, t) \<and> slub_wf t ys \<and>
        {p ..< p + n} \<subseteq> free_set s xs \<and> free_set t ys = free_set s xs - {p ..< p + n})"
  using slub_alloc_facts [OF assms] by (auto split: option.splits)

text \<open>
  C37: \<^verbatim>\<open>slub_free_pages\<close> gives back exactly the freed pages and counts them, whatever the order of the list;
  the freed pages lie in the block now at the head, and if no two free blocks were adjacent before, none
  are afterwards, although the list is unsorted and is walked only once.
\<close>

theorem slub_free_correct:
  assumes "slub_wf s xs" and "freeable s xs base n"
  shows "\<exists>t ys. slub_free_pages base n s = Some t \<and> slub_wf t ys \<and>
    free_set t ys = free_set s xs \<union> {base ..< base + n} \<and> nr_free t = nr_free s + n \<and>
    {base ..< base + n} \<subseteq> block t (hd ys) \<and> (coalesced s xs \<longrightarrow> coalesced t ys)"
  by (rule slub_free_facts [OF assms])

text \<open>
  After the start of the system no request for more than one page succeeds, however much memory is
  free: \<^verbatim>\<open>slub_init_memmap\<close> makes every page a block of its own and nothing merges them.
\<close>

theorem slub_fresh_memory_is_fragmented:
  assumes "0 < n" and "n < 2 ^ 32" and "\<forall>q. base \<le> q \<and> q < base + n \<longrightarrow> PageReserved q s"
  shows "\<exists>t. slub_init_memmap base n (slub_init_area s) = Some t \<and> slub_nr_free_pages t = n \<and>
    (\<forall>m. 1 < m \<longrightarrow> slub_alloc_pages m t = Some (None, t)) \<and>
    (\<exists>u. slub_alloc_pages 1 t = Some (Some base, u) \<and> slub_nr_free_pages u = n - 1)"
proof -
  obtain t where t: "slub_init_memmap base n (slub_init_area s) = Some t" "slub_wf t [base ..< base + n]"
    "nr_free t = n" "\<forall>q. base \<le> q \<and> q < base + n \<longrightarrow> psize t q = 1"
    using slub_fresh_facts [OF assms] by blast
  have "List.find (\<lambda>p. m \<le> psize t p) [base ..< base + n] = None" if "1 < m" for m
    using t(4) that by (auto simp: find_None_iff)
  then have "\<forall>m. 1 < m \<longrightarrow> slub_alloc_pages m t = Some (None, t)"
    using slub_alloc_facts [OF t(2)] by (metis less_trans zero_less_one)
  moreover have "List.find (\<lambda>p. 1 \<le> psize t p) [base ..< base + n] = Some base"
    using t(4) assms(1) by (simp add: upt_conv_Cons)
  then have "slub_alloc_pages 1 t = Some (Some base, slub_take base 1 t)"
    using slub_alloc_facts [OF t(2), of 1] by auto
  moreover have "nr_free (slub_take base 1 t) = n - 1"
    using t(3) assms(1,2) by (simp add: frame_simps sub32_le)
  ultimately show ?thesis using t(1,3) by (auto simp: slub_nr_free_pages_def)
qed

text \<open>
  C38: an object that \<^verbatim>\<open>kmalloc\<close> returned is given back by \<^verbatim>\<open>kfree\<close> with one page only.  A request that a
  cache serves has one page and everything is restored; a larger one loses every page but the first.
\<close>

theorem slub_kfree_returns_one_page:
  assumes "slub_wf (s_area s) xs" and "\<forall>q\<in>free_set (s_area s) xs. \<not> PageReserved q (s_area s) \<and> q + slub_nbase < npage"
    and "npage \<le> 2 ^ 52"
    and "n = (if slub_pick_cache sz cache_sizes (slub_caches s) then 1 else unat (ucast ((sz + 4096 - 1) div 4096) :: 32 word))"
    and "slub_kmalloc sz s = Some (obj, t)" and "obj \<noteq> 0"
  shows "\<exists>p u ys. obj = slub_page2kva p \<and> {p ..< p + n} \<subseteq> free_set (s_area s) xs \<and>
    slub_kfree npage obj t = Some u \<and> slub_wf (s_area u) ys \<and>
    free_set (s_area u) ys = free_set (s_area s) xs - {p + 1 ..< p + n}"
proof -
  obtain p where p: "slub_alloc_pages n (s_area s) = Some (Some p, s_area t)" "obj = slub_page2kva p"
    "slub_caches t = slub_caches s" using slub_kmalloc_page [OF assms(5,6)] unfolding assms(4) [symmetric] by blast
  then have n: "0 < n" by (auto simp: slub_alloc_pages_def split: if_splits)
  obtain ys where a: "s_area t = slub_take p n (s_area s)" "slub_wf (s_area t) ys" "{p ..< p + n} \<subseteq> free_set (s_area s) xs"
    "free_set (s_area t) ys = free_set (s_area s) xs - {p ..< p + n}"
    using slub_alloc_facts [OF assms(1) n] p(1) by (cases "List.find (\<lambda>p. n \<le> psize (s_area s) p) xs") auto
  have "p \<in> free_set (s_area s) xs" using a(3) n by auto
  then have pg: "slub_pa2page npage (slub_kva2pa obj) = Some p" and res: "\<not> PageReserved p (s_area t)"
    using assms(2,3) slub_pa2page_page2pa p(2) a(1) by (auto simp: frame_simps)
  have nr: "nr_free (s_area t) + 1 < 2 ^ 32"
  proof -
    have "n \<le> nr_free (s_area s)" using p(1) by (auto simp: slub_alloc_pages_def split: if_splits)
    moreover have "nr_free (s_area s) < 2 ^ 32" using assms(1) by (simp add: slub_wf_def)
    ultimately show ?thesis using a(1) n by (simp add: frame_simps sub32_le)
  qed
  have "freeable (s_area t) ys p 1"
    unfolding freeable_def using res nr a(1,4) n by (simp add: frame_simps)
  from slub_free_facts [OF a(2) this] obtain v zs where v: "slub_free_pages p 1 (s_area t) = Some v" "slub_wf v zs"
    "free_set v zs = free_set (s_area t) ys \<union> {p ..< p + 1}" by blast
  have "\<exists>u. slub_kfree npage obj t = Some u \<and> s_area u = v"
    using pg v(1) assms(6) by (simp add: slub_kfree_def kmem_cache_free_def Let_def)
  moreover have "free_set v zs = free_set (s_area s) xs - {p + 1 ..< p + n}"
  proof -
    have "{p ..< p + n} = insert p {p + 1 ..< p + n}" "p \<notin> {p + 1 ..< p + n}" "{p ..< p + 1} = {p}"
      using n by auto
    then show ?thesis using v(3) a(4) \<open>p \<in> free_set (s_area s) xs\<close> by (simp only:) blast
  qed
  ultimately show ?thesis using p(2) a(3) v(2) by blast
qed


section \<open>Witnesses\<close>

lemma demo_slub_wf: "slub_wf demo_area [0, 8]"
  using demo_wf by (auto simp: slub_wf_def pmm_wf_def slub_blocks_def block_def demo_psize demo_PageProperty)

theorem slub_alloc_correct_witness:
  "\<exists>t ys. slub_alloc_pages 3 demo_area = Some (Some 8, t) \<and> slub_wf t ys \<and> free_set t ys = {0, 11}"
proof -
  have "free_set demo_area [0, 8] - {8 ..< 8 + 3} = {0, 11}" by (auto simp: free_set_def block_def demo_psize)
  then show ?thesis using slub_alloc_correct [OF demo_slub_wf, of 3] by (simp add: demo_psize) blast
qed

theorem slub_free_correct_witness:
  "\<exists>t ys. slub_free_pages 12 4 demo_area = Some t \<and> slub_wf t ys \<and> nr_free t = 9 \<and> {12 ..< 16} \<subseteq> block t (hd ys) \<and>
    coalesced t ys"
proof -
  have "coalesced demo_area [0, 8]" by (simp add: coalesced_def demo_psize)
  moreover have "freeable demo_area [0, 8] 12 4" by (rule demo_freeable) auto
  ultimately show ?thesis using slub_free_correct [OF demo_slub_wf, of 12 4] by (simp add: demo_nr_free) blast
qed

definition demo_reserved :: pmm where
  "demo_reserved =
     \<lparr>pages = (\<lambda>_. \<lparr>pg_ref = 0, flags = 1, property = 0\<rparr>),
      links = \<lparr>prv = (\<lambda>_. FreeHead), nxt = (\<lambda>_. FreeHead)\<rparr>, nr_free = 0\<rparr>"

theorem slub_fresh_memory_is_fragmented_witness:
  "\<exists>t. slub_init_memmap 4 100 (slub_init_area demo_reserved) = Some t \<and> slub_nr_free_pages t = 100 \<and>
    slub_alloc_pages 2 t = Some (None, t)"
proof -
  have "\<forall>q. 4 \<le> q \<and> q < 4 + 100 \<longrightarrow> PageReserved q demo_reserved"
    by (simp add: demo_reserved_def PageReserved_def PG_reserved_def)
  then show ?thesis using slub_fresh_memory_is_fragmented [of 100 4 demo_reserved] by auto
qed

definition demo_slub :: slub where
  "demo_slub =
     \<lparr>s_area = demo_area,
      cache_storage = \<lparr>cache_name = [], cache_size = 0, objs_per_slab = 0, cache_order = 0, cache_offset = 0,
        slabs = \<lparr>prv = id, nxt = id\<rparr>, num_slabs = 0, num_objects = 0, num_free = 0\<rparr>,
      slub_caches = [True, True, True, True, True, True, True, True]\<rparr>"

lemma demo_slub_kmalloc:
  "\<not> slub_pick_cache 12000 cache_sizes (slub_caches demo_slub)"
  "slub_kmalloc 12000 demo_slub = Some (slub_page2kva 8, demo_slub\<lparr>s_area := slub_take 8 3 demo_area\<rparr>)"
proof -
  show n: "\<not> slub_pick_cache 12000 cache_sizes (slub_caches demo_slub)"
    by (simp add: cache_sizes_def demo_slub_def)
  have "slub_alloc_pages 3 demo_area = Some (Some 8, slub_take 8 3 demo_area)"
    using slub_alloc_facts [OF demo_slub_wf, of 3] by (simp add: demo_psize)
  then show "slub_kmalloc 12000 demo_slub = Some (slub_page2kva 8, demo_slub\<lparr>s_area := slub_take 8 3 demo_area\<rparr>)"
    using n by (simp add: slub_kmalloc_def demo_slub_def)
qed

theorem slub_kfree_returns_one_page_witness:
  "\<exists>u ys. slub_kfree 0x88000 (slub_page2kva 8) (demo_slub\<lparr>s_area := slub_take 8 3 demo_area\<rparr>) = Some u \<and>
    free_set (s_area u) ys = {0, 8, 11}"
proof -
  have fs: "free_set demo_area [0, 8] = {0, 8, 9, 10, 11}" by (auto simp: free_set_def block_def demo_psize)
  have nz: "slub_page2kva 8 \<noteq> 0"
    by (simp add: slub_page2kva_def slub_pa2kva_def slub_page2pa_def slub_KERNBASE_def slub_nbase_def push_bit_eq_mult)
  have ar: "s_area demo_slub = demo_area" by (simp add: demo_slub_def)
  have "\<forall>q\<in>free_set demo_area [0, 8]. \<not> PageReserved q demo_area \<and> q + slub_nbase < 0x88000"
    unfolding fs by (simp add: demo_PageReserved slub_nbase_def)
  moreover have "3 = (if slub_pick_cache 12000 cache_sizes (slub_caches demo_slub) then 1
      else unat (ucast ((12000 + 4096 - 1 :: 64 word) div 4096) :: 32 word))"
    using demo_slub_kmalloc(1) by simp
  ultimately obtain p u ys where u: "slub_page2kva 8 = slub_page2kva p" "{p ..< p + 3} \<subseteq> free_set demo_area [0, 8]"
    "slub_kfree 0x88000 (slub_page2kva 8) (demo_slub\<lparr>s_area := slub_take 8 3 demo_area\<rparr>) = Some u"
    "free_set (s_area u) ys = free_set demo_area [0, 8] - {p + 1 ..< p + 3}"
    using slub_kfree_returns_one_page [of demo_slub "[0, 8]" "0x88000" 3 12000, OF _ _ _ _ demo_slub_kmalloc(2) nz]
      demo_slub_wf unfolding ar by auto
  have "p + slub_nbase < 0x88000"
    using u(2) subsetD [OF u(2), of p] unfolding fs by (auto simp: slub_nbase_def)
  then have "Some p = Some 8"
    using slub_pa2page_page2pa [of p "0x88000"] slub_pa2page_page2pa [of 8 "0x88000"] u(1) by (simp add: slub_nbase_def)
  then have "p = 8" by simp
  moreover have "{0, 8, 9, 10, 11} - {8 + 1 ..< 8 + 3} = {0, 8, 11 :: nat}" by auto
  ultimately have "free_set (s_area u) ys = {0, 8, 11}" using u(4) unfolding fs by (simp only:)
  then show ?thesis using u(3) by blast
qed

end
