(* ===== verification/Paging.thy ===== *)
theory Paging
  imports Prelude
begin

text \<open>
  Page tables and physical frames: the paging part of \<^verbatim>\<open>kern/mm/pmm.c\<close> with the macros of
  \<^verbatim>\<open>mmu.h\<close>, \<^verbatim>\<open>pmm.h\<close> and \<^verbatim>\<open>memlayout.h\<close>.  A \<^verbatim>\<open>struct Page *\<close>, and the kernel address of a frame, is named
  by its physical page number; a frame is 512 words of 64 bits, which are page table entries or
  data.  The manager behind \<^verbatim>\<open>alloc_pages\<close> and \<^verbatim>\<open>free_pages\<close> is a sorted list of free frames:
  \<^verbatim>\<open>alloc_pages(n)\<close> takes the lowest run of \<open>n\<close>.  The theory \<open>Frames\<close> shows that the first-fit manager implements
  this list.
\<close>

section \<open>mmu.h, memlayout.h\<close>

definition PGSIZE :: "64 word" where "PGSIZE = 4096"
definition PTSIZE :: "64 word" where "PTSIZE = 0x200000"
definition PDSIZE :: "64 word" where "PDSIZE = 0x40000000"

definition PDX1 :: "64 word \<Rightarrow> nat" where "PDX1 la = unat (drop_bit 30 la AND 0x1FF)"
definition PDX0 :: "64 word \<Rightarrow> nat" where "PDX0 la = unat (drop_bit 21 la AND 0x1FF)"
definition PTX :: "64 word \<Rightarrow> nat" where "PTX la = unat (drop_bit 12 la AND 0x1FF)"
definition PPN :: "64 word \<Rightarrow> nat" where "PPN la = unat (drop_bit 12 la)"
definition PGOFF :: "64 word \<Rightarrow> 64 word" where "PGOFF la = la AND 0xFFF"
definition PTE_ADDR :: "64 word \<Rightarrow> 64 word" where "PTE_ADDR pte = push_bit 2 (pte AND NOT 0x3FF)"

definition PTE_V :: "64 word" where "PTE_V = 1"
definition PTE_R :: "64 word" where "PTE_R = 2"
definition PTE_W :: "64 word" where "PTE_W = 4"
definition PTE_X :: "64 word" where "PTE_X = 8"
definition PTE_U :: "64 word" where "PTE_U = 0x10"
definition PTE_USER :: "64 word" where "PTE_USER = PTE_R OR PTE_W OR PTE_X OR PTE_U OR PTE_V"

definition ROUNDDOWN :: "64 word \<Rightarrow> 64 word \<Rightarrow> 64 word" where "ROUNDDOWN a n = a - a mod n"
definition ROUNDUP :: "64 word \<Rightarrow> 64 word \<Rightarrow> 64 word" where "ROUNDUP a n = ROUNDDOWN (a + n - 1) n"

definition KERNBASE :: "64 word" where "KERNBASE = 0xFFFFFFFFC0200000"
definition KERNTOP :: "64 word" where "KERNTOP = KERNBASE + 0x7E00000"
definition PHYSICAL_MEMORY_OFFSET :: "64 word" where "PHYSICAL_MEMORY_OFFSET = 0xFFFFFFFF40000000"
definition USERTOP :: "64 word" where "USERTOP = 0x80000000"
definition USERBASE :: "64 word" where "USERBASE = 0x200000"
definition USTACKTOP :: "64 word" where "USTACKTOP = USERTOP"
definition USTACKSIZE :: "64 word" where "USTACKSIZE = 256 * PGSIZE"
definition KSTACKPAGE :: nat where "KSTACKPAGE = 2"
definition KSTACKSIZE :: "64 word" where "KSTACKSIZE = 2 * PGSIZE"

definition USER_ACCESS :: "64 word \<Rightarrow> 64 word \<Rightarrow> bool" where
  "USER_ACCESS s e \<longleftrightarrow> USERBASE \<le> s \<and> s < e \<and> e \<le> USERTOP"

definition KERN_ACCESS :: "64 word \<Rightarrow> 64 word \<Rightarrow> bool" where
  "KERN_ACCESS s e \<longleftrightarrow> KERNBASE \<le> s \<and> s < e \<and> e \<le> KERNTOP"

lemmas mmu_consts = PGSIZE_def PTSIZE_def PDSIZE_def PTE_V_def PTE_R_def PTE_W_def PTE_X_def PTE_U_def
  PTE_USER_def USERTOP_def USERBASE_def

section \<open>Frames\<close>

record pmem =
  fr :: "nat \<Rightarrow> nat \<Rightarrow> 64 word"
  page_ref :: "nat \<Rightarrow> int"
  free_pg :: "nat list"
  npage :: nat

definition alloc_pages :: "nat \<Rightarrow> pmem \<Rightarrow> nat option \<times> pmem" where
  "alloc_pages n m =
     (case find (\<lambda>p. \<forall>i\<in>set [0..<n]. p + i \<in> set (free_pg m)) (free_pg m) of
        None \<Rightarrow> (None, m)
      | Some p \<Rightarrow> (Some p, m\<lparr>free_pg := filter (\<lambda>q. q \<notin> set [p..<p + n]) (free_pg m)\<rparr>))"

definition free_pages :: "nat \<Rightarrow> nat \<Rightarrow> pmem \<Rightarrow> pmem" where
  "free_pages p n m = m\<lparr>free_pg := fold insort [p..<p + n] (free_pg m)\<rparr>"

definition alloc_page :: "pmem \<Rightarrow> nat option \<times> pmem" where "alloc_page m = alloc_pages 1 m"
definition free_page :: "nat \<Rightarrow> pmem \<Rightarrow> pmem" where "free_page p m = free_pages p 1 m"
definition nr_free_pages :: "pmem \<Rightarrow> nat" where "nr_free_pages m = length (free_pg m)"

definition set_page_ref :: "nat \<Rightarrow> int \<Rightarrow> pmem \<Rightarrow> pmem" where
  "set_page_ref p v m = m\<lparr>page_ref := (page_ref m)(p := v)\<rparr>"
definition page_ref_inc :: "nat \<Rightarrow> pmem \<Rightarrow> pmem" where "page_ref_inc p m = set_page_ref p (page_ref m p + 1) m"
definition page_ref_dec :: "nat \<Rightarrow> pmem \<Rightarrow> pmem" where "page_ref_dec p m = set_page_ref p (page_ref m p - 1) m"

text \<open>\<^verbatim>\<open>memset(KADDR(pa), 0, PGSIZE)\<close>, \<^verbatim>\<open>memcpy(dst, src, PGSIZE)\<close> and the store through a \<^verbatim>\<open>pte_t *\<close>.\<close>

definition zero_frame :: "nat \<Rightarrow> pmem \<Rightarrow> pmem" where
  "zero_frame p m = m\<lparr>fr := (fr m)(p := (\<lambda>_. 0))\<rparr>"
definition copy_frame :: "nat \<Rightarrow> nat \<Rightarrow> pmem \<Rightarrow> pmem" where
  "copy_frame dst src m = m\<lparr>fr := (fr m)(dst := fr m src)\<rparr>"
definition set_pte :: "nat \<times> nat \<Rightarrow> 64 word \<Rightarrow> pmem \<Rightarrow> pmem" where
  "set_pte a e m = m\<lparr>fr := (fr m)(fst a := (fr m (fst a))(snd a := e))\<rparr>"
definition get_pte_at :: "nat \<times> nat \<Rightarrow> pmem \<Rightarrow> 64 word" where
  "get_pte_at a m = fr m (fst a) (snd a)"

definition valid :: "64 word \<Rightarrow> bool" where "valid e \<longleftrightarrow> e AND PTE_V \<noteq> 0"

text \<open>\<^verbatim>\<open>KADDR\<close> and \<^verbatim>\<open>pa2page\<close> panic beyond the last page.\<close>

definition pa2page :: "64 word \<Rightarrow> pmem \<Rightarrow> nat option" where
  "pa2page pa m = do { assertc (PPN pa < npage m); Some (PPN pa) }"
definition pde2page :: "64 word \<Rightarrow> pmem \<Rightarrow> nat option" where "pde2page e m = pa2page (PTE_ADDR e) m"
definition pte2page :: "64 word \<Rightarrow> pmem \<Rightarrow> nat option" where
  "pte2page e m = do { assertc (valid e); pa2page (PTE_ADDR e) m }"
definition pte_create :: "nat \<Rightarrow> 64 word \<Rightarrow> 64 word" where
  "pte_create ppn ty = push_bit 10 (of_nat ppn) OR PTE_V OR ty"

section \<open>Walking and changing page tables\<close>

text \<open>One level of \<^verbatim>\<open>get_pte\<close>: follow the entry \<open>a\<close>, or fill it with a fresh zeroed table.\<close>

definition pt_level :: "nat \<times> nat \<Rightarrow> bool \<Rightarrow> pmem \<Rightarrow> (nat option \<times> pmem) option" where
  "pt_level a create m =
     (if \<not> valid (get_pte_at a m)
      then if \<not> create then Some (None, m)
           else case alloc_page m of
                  (None, m1) \<Rightarrow> Some (None, m1)
                | (Some p, m1) \<Rightarrow>
                    do {
                      let m2 = set_page_ref p 1 m1;
                      assertc (p < npage m2);
                      let m3 = set_pte a (pte_create p (PTE_U OR PTE_V)) (zero_frame p m2);
                      q \<leftarrow> pde2page (get_pte_at a m3) m3;
                      Some (Some q, m3)
                    }
      else do { q \<leftarrow> pde2page (get_pte_at a m) m; Some (Some q, m) })"

definition get_pte :: "nat \<Rightarrow> 64 word \<Rightarrow> bool \<Rightarrow> pmem \<Rightarrow> ((nat \<times> nat) option \<times> pmem) option" where
  "get_pte pgdir la create m =
     do {
       (t1, m1) \<leftarrow> pt_level (pgdir, PDX1 la) create m;
       (case t1 of
          None \<Rightarrow> Some (None, m1)
        | Some f1 \<Rightarrow>
            do {
              (t0, m2) \<leftarrow> pt_level (f1, PDX0 la) create m1;
              (case t0 of None \<Rightarrow> Some (None, m2) | Some f0 \<Rightarrow> Some (Some (f0, PTX la), m2))
            })
     }"

definition get_page :: "nat \<Rightarrow> 64 word \<Rightarrow> pmem \<Rightarrow> (nat option \<times> (nat \<times> nat) option) option" where
  "get_page pgdir la m =
     do {
       (ptep, m1) \<leftarrow> get_pte pgdir la False m;
       (case ptep of
          None \<Rightarrow> Some (None, None)
        | Some a \<Rightarrow> if valid (get_pte_at a m1) then do { p \<leftarrow> pte2page (get_pte_at a m1) m1; Some (Some p, ptep) }
                    else Some (None, ptep))
     }"

definition page_remove_pte :: "nat \<times> nat \<Rightarrow> pmem \<Rightarrow> pmem option" where
  "page_remove_pte a m =
     (if valid (get_pte_at a m)
      then do {
        p \<leftarrow> pte2page (get_pte_at a m) m;
        let m1 = page_ref_dec p m;
        let m2 = (if page_ref m1 p = 0 then free_page p m1 else m1);
        Some (set_pte a 0 m2)
      }
      else Some m)"

definition page_remove :: "nat \<Rightarrow> 64 word \<Rightarrow> pmem \<Rightarrow> pmem option" where
  "page_remove pgdir la m =
     do {
       (ptep, m1) \<leftarrow> get_pte pgdir la False m;
       (case ptep of None \<Rightarrow> Some m1 | Some a \<Rightarrow> page_remove_pte a m1)
     }"

definition page_insert :: "nat \<Rightarrow> nat \<Rightarrow> 64 word \<Rightarrow> 64 word \<Rightarrow> pmem \<Rightarrow> (int \<times> pmem) option" where
  "page_insert pgdir page la perm m =
     do {
       (ptep, m1) \<leftarrow> get_pte pgdir la True m;
       (case ptep of
          None \<Rightarrow> Some (- E_NO_MEM, m1)
        | Some a \<Rightarrow>
            do {
              let m2 = page_ref_inc page m1;
              m3 \<leftarrow> (if valid (get_pte_at a m2)
                     then do {
                       p \<leftarrow> pte2page (get_pte_at a m2) m2;
                       if p = page then Some (page_ref_dec page m2) else page_remove_pte a m2
                     }
                     else Some m2);
              Some (0, set_pte a (pte_create page (PTE_V OR perm)) m3)
            })
     }"

definition pgdir_alloc_page :: "nat \<Rightarrow> 64 word \<Rightarrow> 64 word \<Rightarrow> pmem \<Rightarrow> (nat option \<times> pmem) option" where
  "pgdir_alloc_page pgdir la perm m =
     (case alloc_page m of
        (None, m1) \<Rightarrow> Some (None, m1)
      | (Some page, m1) \<Rightarrow>
          do {
            (r, m2) \<leftarrow> page_insert pgdir page la perm m1;
            if r \<noteq> 0 then Some (None, free_page page m2)
            else do { assertc (page_ref m2 page = 1); Some (Some page, m2) }
          })"

partial_function (option) unmap_loop :: "nat \<Rightarrow> 64 word \<Rightarrow> 64 word \<Rightarrow> pmem \<Rightarrow> pmem option" where
  "unmap_loop pgdir s e m =
     do {
       (ptep, m1) \<leftarrow> get_pte pgdir s False m;
       (s1, m2) \<leftarrow> (case ptep of
          None \<Rightarrow> Some (ROUNDDOWN (s + PTSIZE) PTSIZE, m1)
        | Some a \<Rightarrow>
            do {
              m2 \<leftarrow> (if get_pte_at a m1 \<noteq> 0 then page_remove_pte a m1 else Some m1);
              Some (s + PGSIZE, m2)
            });
       if s1 \<noteq> 0 \<and> s1 < e then unmap_loop pgdir s1 e m2 else Some m2
     }"

definition unmap_range :: "nat \<Rightarrow> 64 word \<Rightarrow> 64 word \<Rightarrow> pmem \<Rightarrow> pmem option" where
  "unmap_range pgdir s e m =
     do {
       assertc (s mod PGSIZE = 0 \<and> e mod PGSIZE = 0);
       assertc (USER_ACCESS s e);
       unmap_loop pgdir s e m
     }"

partial_function (option) copy_loop ::
  "nat \<Rightarrow> nat \<Rightarrow> 64 word \<Rightarrow> 64 word \<Rightarrow> pmem \<Rightarrow> (int \<times> pmem) option" where
  "copy_loop to from s e m =
     do {
       (ptep, m1) \<leftarrow> get_pte from s False m;
       (case ptep of
          None \<Rightarrow>
            (let s1 = ROUNDDOWN (s + PTSIZE) PTSIZE
             in if s1 \<noteq> 0 \<and> s1 < e then copy_loop to from s1 e m1 else Some (0, m1))
        | Some a \<Rightarrow>
            do {
              r \<leftarrow> (if valid (get_pte_at a m1)
                    then do {
                      (nptep, m2) \<leftarrow> get_pte to s True m1;
                      (case nptep of
                         None \<Rightarrow> Some (Inl (- E_NO_MEM, m2))
                       | Some b \<Rightarrow>
                           do {
                             let perm = get_pte_at a m2 AND PTE_USER;
                             page \<leftarrow> pte2page (get_pte_at a m2) m2;
                             (case alloc_page m2 of
                                (None, _) \<Rightarrow> None
                              | (Some np, m3) \<Rightarrow>
                                  do {
                                    assertc (np < npage m3);
                                    (ret, m4) \<leftarrow> page_insert to np s perm (copy_frame np page m3);
                                    assertc (ret = 0);
                                    Some (Inr m4)
                                  })
                           })
                    }
                    else Some (Inr m1));
              (case r of
                 Inl z \<Rightarrow> Some z
               | Inr m5 \<Rightarrow>
                   if s + PGSIZE \<noteq> 0 \<and> s + PGSIZE < e then copy_loop to from (s + PGSIZE) e m5 else Some (0, m5))
            })
     }"

definition copy_range :: "nat \<Rightarrow> nat \<Rightarrow> 64 word \<Rightarrow> 64 word \<Rightarrow> pmem \<Rightarrow> (int \<times> pmem) option" where
  "copy_range to from s e m =
     do {
       assertc (s mod PGSIZE = 0 \<and> e mod PGSIZE = 0);
       assertc (USER_ACCESS s e);
       copy_loop to from s e m
     }"

text \<open>
  \<^verbatim>\<open>exit_range\<close>: the inner loop frees the empty page tables of one directory, the outer one then the
  directory itself.
\<close>

partial_function (option) exit_inner ::
  "nat \<Rightarrow> 64 word \<Rightarrow> 64 word \<Rightarrow> 64 word \<Rightarrow> bool \<Rightarrow> pmem \<Rightarrow> (bool \<times> pmem) option" where
  "exit_inner pd0 d1 d0 e free_pd0 m =
     do {
       let pde0 = fr m pd0 (PDX0 d0);
       (fr0, m1) \<leftarrow> (if valid pde0
          then do {
            pt \<leftarrow> pde2page pde0 m;
            Some (free_pd0, if (\<forall>i\<in>set [0..<512]. \<not> valid (fr m pt i)) then set_pte (pd0, PDX0 d0) 0 (free_page pt m) else m)
          }
          else Some (False, m));
       let d0' = d0 + PTSIZE;
       if d0' \<noteq> 0 \<and> d0' < d1 + PDSIZE \<and> d0' < e then exit_inner pd0 d1 d0' e fr0 m1 else Some (fr0, m1)
     }"

partial_function (option) exit_loop :: "nat \<Rightarrow> 64 word \<Rightarrow> 64 word \<Rightarrow> 64 word \<Rightarrow> pmem \<Rightarrow> pmem option" where
  "exit_loop pgdir d1 d0 e m =
     do {
       let pde1 = fr m pgdir (PDX1 d1);
       m1 \<leftarrow> (if valid pde1
          then do {
            pd0 \<leftarrow> pde2page pde1 m;
            (free_pd0, m1) \<leftarrow> exit_inner pd0 d1 d0 e True m;
            if free_pd0 then Some (set_pte (pgdir, PDX1 d1) 0 (free_page pd0 m1)) else Some m1
          }
          else Some m);
       let d1' = d1 + PDSIZE;
       if d1' \<noteq> 0 \<and> d1' < e then exit_loop pgdir d1' d1' e m1 else Some m1
     }"

definition exit_range :: "nat \<Rightarrow> 64 word \<Rightarrow> 64 word \<Rightarrow> pmem \<Rightarrow> pmem option" where
  "exit_range pgdir s e m =
     do {
       assertc (s mod PGSIZE = 0 \<and> e mod PGSIZE = 0);
       assertc (USER_ACCESS s e);
       exit_loop pgdir (ROUNDDOWN s PDSIZE) (ROUNDDOWN s PTSIZE) e m
     }"

text \<open>\<^verbatim>\<open>boot_map_segment\<close> and \<^verbatim>\<open>boot_alloc_page\<close>, which panic when memory runs out.\<close>

fun boot_map_loop :: "nat \<Rightarrow> nat \<Rightarrow> 64 word \<Rightarrow> 64 word \<Rightarrow> 64 word \<Rightarrow> pmem \<Rightarrow> pmem option" where
  "boot_map_loop 0 pgdir la pa perm m = Some m"
| "boot_map_loop (Suc n) pgdir la pa perm m =
     do {
       (ptep, m1) \<leftarrow> get_pte pgdir la True m;
       a \<leftarrow> ptep;
       boot_map_loop n pgdir (la + PGSIZE) (pa + PGSIZE) perm (set_pte a (pte_create (PPN pa) (PTE_V OR perm)) m1)
     }"

definition boot_map_segment :: "nat \<Rightarrow> 64 word \<Rightarrow> 64 word \<Rightarrow> 64 word \<Rightarrow> 64 word \<Rightarrow> pmem \<Rightarrow> pmem option" where
  "boot_map_segment pgdir la sz pa perm m =
     do {
       assertc (PGOFF la = PGOFF pa);
       let n = ROUNDUP (sz + PGOFF la) PGSIZE div PGSIZE;
       boot_map_loop (unat n) pgdir (ROUNDDOWN la PGSIZE) (ROUNDDOWN pa PGSIZE) perm m
     }"

definition boot_alloc_page :: "pmem \<Rightarrow> (nat \<times> pmem) option" where
  "boot_alloc_page m = (case alloc_page m of (None, _) \<Rightarrow> None | (Some p, m1) \<Rightarrow> do { assertc (p < npage m1); Some (p, m1) })"

definition switch_kernel_pgdir :: "64 word \<Rightarrow> pmem \<Rightarrow> (nat \<times> pmem) option" where
  "switch_kernel_pgdir etext m =
     do {
       (pd, m1) \<leftarrow> boot_alloc_page m;
       let m2 = zero_frame pd m1;
       let retext = ROUNDUP etext PGSIZE;
       m3 \<leftarrow> boot_map_segment pd KERNBASE (retext - KERNBASE) (KERNBASE - PHYSICAL_MEMORY_OFFSET) (PTE_R OR PTE_X) m2;
       m4 \<leftarrow> boot_map_segment pd retext (KERNTOP - retext) (retext - PHYSICAL_MEMORY_OFFSET) (PTE_R OR PTE_W) m3;
       Some (pd, m4)
     }"

section \<open>The tree of tables\<close>

definition pte_ppn :: "64 word \<Rightarrow> nat" where "pte_ppn e = PPN (PTE_ADDR e)"

text \<open>The second-level table under index \<open>i\<close>, the page table under \<open>i, j\<close>, and the leaf entry.\<close>

definition t1 :: "pmem \<Rightarrow> nat \<Rightarrow> nat \<Rightarrow> nat option" where
  "t1 m pd i = (if valid (fr m pd i) then Some (pte_ppn (fr m pd i)) else None)"

definition t0 :: "pmem \<Rightarrow> nat \<Rightarrow> nat \<Rightarrow> nat \<Rightarrow> nat option" where
  "t0 m pd i j = (case t1 m pd i of None \<Rightarrow> None | Some f \<Rightarrow> t1 m f j)"

definition leaf :: "pmem \<Rightarrow> nat \<Rightarrow> nat \<Rightarrow> nat \<Rightarrow> nat \<Rightarrow> 64 word" where
  "leaf m pd i j k = (case t0 m pd i j of None \<Rightarrow> 0 | Some g \<Rightarrow> fr m g k)"

definition pte_of :: "pmem \<Rightarrow> nat \<Rightarrow> 64 word \<Rightarrow> 64 word" where
  "pte_of m pd la = leaf m pd (PDX1 la) (PDX0 la) (PTX la)"

definition tables :: "pmem \<Rightarrow> nat \<Rightarrow> nat set" where
  "tables m pd = insert pd ({f. \<exists>i<512. t1 m pd i = Some f} \<union> {g. \<exists>i<512. \<exists>j<512. t0 m pd i j = Some g})"

text \<open>No frame serves twice as a table, no table is free, and no mapped page is a table or free.\<close>

definition pt_ok :: "pmem \<Rightarrow> nat \<Rightarrow> bool" where
  "pt_ok m pd \<longleftrightarrow>
     npage m \<le> 2 ^ 40 \<and> distinct (free_pg m) \<and> (\<forall>f\<in>set (free_pg m). f < npage m) \<and>
     (\<forall>f\<in>tables m pd. f < npage m \<and> f \<notin> set (free_pg m)) \<and>
     (\<forall>i<512. t1 m pd i \<noteq> Some pd) \<and>
     (\<forall>i<512. \<forall>j<512. t0 m pd i j \<noteq> Some pd \<and> (\<forall>i'<512. \<forall>g. t0 m pd i j = Some g \<longrightarrow> t1 m pd i' \<noteq> Some g)) \<and>
     (\<forall>i<512. \<forall>i'<512. \<forall>f. t1 m pd i = Some f \<and> t1 m pd i' = Some f \<longrightarrow> i = i') \<and>
     (\<forall>i<512. \<forall>j<512. \<forall>i'<512. \<forall>j'<512. \<forall>g. t0 m pd i j = Some g \<and> t0 m pd i' j' = Some g \<longrightarrow> i = i' \<and> j = j')"

definition data_ok :: "pmem \<Rightarrow> nat \<Rightarrow> bool" where
  "data_ok m pd \<longleftrightarrow>
     (\<forall>i<512. \<forall>j<512. \<forall>k<512. valid (leaf m pd i j k) \<longrightarrow>
        pte_ppn (leaf m pd i j k) < npage m \<and> pte_ppn (leaf m pd i j k) \<notin> set (free_pg m) \<and>
        pte_ppn (leaf m pd i j k) \<notin> tables m pd)"

lemma index_bounds [simp]: "PDX1 la < 512" "PDX0 la < 512" "PTX la < 512"
proof -
  have "unat (w AND 0x1FF) < 512" for w :: "64 word"
  proof -
    have "w AND 0x1FF \<le> (0x1FF :: 64 word)" by (rule word_and_le1)
    then show ?thesis by (simp add: word_le_nat_alt)
  qed
  then show "PDX1 la < 512" "PDX0 la < 512" "PTX la < 512" by (simp_all add: PDX1_def PDX0_def PTX_def)
qed

lemma valid_0 [simp]: "\<not> valid 0"
  by (simp add: valid_def)

lemma valid_bit: "valid e \<longleftrightarrow> bit e 0"
  by (simp add: valid_def PTE_V_def and_one_eq bit_0 odd_iff_mod_2_eq_one)

lemma valid_pte_create [simp]: "valid (pte_create p perm)"
  by (simp add: valid_bit pte_create_def PTE_V_def bit_simps)

lemma low_bits: "(0x3FF :: 64 word) = mask 10"
  by (simp add: mask_eq_exp_minus_1)

lemma pte_ppn_create:
  assumes "p < 2 ^ 40" "perm AND NOT 0x3FF = 0"
  shows "pte_ppn (pte_create p perm) = p"
proof -
  have perm: "\<not> bit perm n" if "10 \<le> n" for n
  proof
    assume b: "bit perm n"
    then have "n < 64" using bit_imp_le_length [OF b] by simp
    then have "bit (perm AND NOT 0x3FF) n" using b that by (simp add: low_bits bit_simps)
    then show False using assms(2) by simp
  qed
  have small: "\<not> bit p n" if "40 \<le> n" for n
  proof -
    have "p < 2 ^ n" using assms(1) that power_increasing [of 40 n "2 :: nat"] by simp
    then show ?thesis by (simp add: bit_iff_odd)
  qed
  have "drop_bit 12 (push_bit 2 ((push_bit 10 (of_nat p) OR PTE_V OR perm) AND NOT 0x3FF)) = (of_nat p :: 64 word)"
  proof (rule bit_word_eqI)
    fix n assume "n < LENGTH(64)"
    then show "bit (drop_bit 12 (push_bit 2 ((push_bit 10 (of_nat p) OR PTE_V OR perm) AND NOT 0x3FF))) n = bit (of_nat p :: 64 word) n"
      using perm small by (cases "n < 40") (auto simp: low_bits bit_simps PTE_V_def)
  qed
  then show ?thesis
    using assms(1) by (simp add: pte_ppn_def PPN_def PTE_ADDR_def pte_create_def unat_of_nat take_bit_nat_eq_self)
qed

lemma get_set_pte [simp]: "get_pte_at a (set_pte b e m) = (if a = b then e else get_pte_at a m)"
  by (auto simp: get_pte_at_def set_pte_def prod_eq_iff)

lemma set_pte_frames [simp]:
  "free_pg (set_pte a e m) = free_pg m" "npage (set_pte a e m) = npage m" "page_ref (set_pte a e m) = page_ref m"
  by (simp_all add: set_pte_def)

lemma alloc_page_spec:
  assumes "distinct (free_pg m)"
  shows "alloc_page m = (case free_pg m of [] \<Rightarrow> (None, m) | p # ps \<Rightarrow> (Some p, m\<lparr>free_pg := ps\<rparr>))"
proof (cases "free_pg m")
  case (Cons p ps)
  have "filter (\<lambda>q. q \<noteq> p) ps = ps" using assms Cons by (auto intro: filter_True)
  then show ?thesis using Cons by (simp add: alloc_page_def alloc_pages_def)
qed (simp add: alloc_page_def alloc_pages_def)

text \<open>Adding a table: one invalid entry now refers to a zeroed frame.\<close>

definition put_table :: "nat \<times> nat \<Rightarrow> nat \<Rightarrow> pmem \<Rightarrow> pmem" where
  "put_table a p m = set_pte a (pte_create p (PTE_U OR PTE_V)) (zero_frame p (set_page_ref p 1 m))"

lemma put_table_fr:
  "fr (put_table a p m) f k =
     (if f = fst a \<and> k = snd a then pte_create p (PTE_U OR PTE_V) else if f = p then 0 else fr m f k)"
  by (auto simp: put_table_def set_pte_def zero_frame_def set_page_ref_def)

lemma put_table_frames [simp]:
  "free_pg (put_table a p m) = free_pg m" "npage (put_table a p m) = npage m"
  "page_ref (put_table a p m) = (page_ref m)(p := 1)"
  by (simp_all add: put_table_def set_pte_def zero_frame_def set_page_ref_def)

lemma table_perm: "(PTE_U OR PTE_V) AND NOT 0x3FF = (0 :: 64 word)"
  by (simp add: PTE_U_def PTE_V_def)

lemma pt_level_fill:
  assumes "\<not> valid (get_pte_at a m)" "distinct (free_pg m)" "npage m \<le> 2 ^ 40" "\<forall>f\<in>set (free_pg m). f < npage m"
  shows "pt_level a True m =
    Some (case free_pg m of [] \<Rightarrow> (None, m) | p # ps \<Rightarrow> (Some p, put_table a p (m\<lparr>free_pg := ps\<rparr>)))"
proof (cases "free_pg m")
  case Nil
  then show ?thesis using assms by (simp add: pt_level_def alloc_page_spec)
next
  case (Cons p ps)
  then have "p < npage m" "p < 2 ^ 40" using assms by auto
  then show ?thesis
    using assms Cons pte_ppn_create [OF _ table_perm, of p]
    by (simp add: pt_level_def alloc_page_spec put_table_def pde2page_def pa2page_def pte_ppn_def Let_def
        get_pte_at_def set_pte_def zero_frame_def set_page_ref_def)
qed

lemma pt_okD:
  assumes "pt_ok m pd"
  shows "npage m \<le> 2 ^ 40" "distinct (free_pg m)" "f \<in> set (free_pg m) \<Longrightarrow> f < npage m"
    "f \<in> tables m pd \<Longrightarrow> f < npage m" "f \<in> tables m pd \<Longrightarrow> f \<notin> set (free_pg m)"
    "i < 512 \<Longrightarrow> t1 m pd i \<noteq> Some pd"
    "i < 512 \<Longrightarrow> j < 512 \<Longrightarrow> t0 m pd i j \<noteq> Some pd"
    "i < 512 \<Longrightarrow> j < 512 \<Longrightarrow> i' < 512 \<Longrightarrow> t0 m pd i j = Some g \<Longrightarrow> t1 m pd i' \<noteq> Some g"
    "i < 512 \<Longrightarrow> i' < 512 \<Longrightarrow> t1 m pd i = Some f \<Longrightarrow> t1 m pd i' = Some f \<Longrightarrow> i = i'"
    "i < 512 \<Longrightarrow> j < 512 \<Longrightarrow> i' < 512 \<Longrightarrow> j' < 512 \<Longrightarrow> t0 m pd i j = Some g \<Longrightarrow> t0 m pd i' j' = Some g \<Longrightarrow> i = i' \<and> j = j'"
proof -
  have q1: "npage m \<le> 2 ^ 40" using assms unfolding pt_ok_def by (elim conjE)
  have q2: "distinct (free_pg m)" using assms unfolding pt_ok_def by (elim conjE)
  have q3: "\<forall>f\<in>set (free_pg m). f < npage m" using assms unfolding pt_ok_def by (elim conjE)
  have q4: "\<forall>f\<in>tables m pd. f < npage m \<and> f \<notin> set (free_pg m)" using assms unfolding pt_ok_def by (elim conjE)
  have q5: "\<forall>i<512. t1 m pd i \<noteq> Some pd" using assms unfolding pt_ok_def by (elim conjE)
  have q6: "\<forall>i<512. \<forall>j<512. t0 m pd i j \<noteq> Some pd \<and> (\<forall>i'<512. \<forall>g. t0 m pd i j = Some g \<longrightarrow> t1 m pd i' \<noteq> Some g)" using assms unfolding pt_ok_def by (elim conjE)
  have q7: "\<forall>i<512. \<forall>i'<512. \<forall>f. t1 m pd i = Some f \<and> t1 m pd i' = Some f \<longrightarrow> i = i'" using assms unfolding pt_ok_def by (elim conjE)
  have q8: "\<forall>i<512. \<forall>j<512. \<forall>i'<512. \<forall>j'<512. \<forall>g. t0 m pd i j = Some g \<and> t0 m pd i' j' = Some g \<longrightarrow> i = i' \<and> j = j'" using assms unfolding pt_ok_def by (elim conjE)
  show "npage m \<le> 2 ^ 40" "distinct (free_pg m)" "f \<in> set (free_pg m) \<Longrightarrow> f < npage m"
    "f \<in> tables m pd \<Longrightarrow> f < npage m" "f \<in> tables m pd \<Longrightarrow> f \<notin> set (free_pg m)"
    "i < 512 \<Longrightarrow> t1 m pd i \<noteq> Some pd" using q1 q2 q3 q4 q5 by simp_all
  show "i < 512 \<Longrightarrow> j < 512 \<Longrightarrow> t0 m pd i j \<noteq> Some pd"
    "i < 512 \<Longrightarrow> j < 512 \<Longrightarrow> i' < 512 \<Longrightarrow> t0 m pd i j = Some g \<Longrightarrow> t1 m pd i' \<noteq> Some g" using q6 by simp_all
  show "i < 512 \<Longrightarrow> i' < 512 \<Longrightarrow> t1 m pd i = Some f \<Longrightarrow> t1 m pd i' = Some f \<Longrightarrow> i = i'" using q7 by simp
  show "i < 512 \<Longrightarrow> j < 512 \<Longrightarrow> i' < 512 \<Longrightarrow> j' < 512 \<Longrightarrow> t0 m pd i j = Some g \<Longrightarrow> t0 m pd i' j' = Some g \<Longrightarrow> i = i' \<and> j = j'"
    using q8 by simp
qed

lemma pt_okI:
  assumes "npage m \<le> 2 ^ 40" "distinct (free_pg m)" "\<And>f. f \<in> set (free_pg m) \<Longrightarrow> f < npage m"
    "\<And>f. f \<in> tables m pd \<Longrightarrow> f < npage m" "\<And>f. f \<in> tables m pd \<Longrightarrow> f \<notin> set (free_pg m)"
    "\<And>i. i < 512 \<Longrightarrow> t1 m pd i \<noteq> Some pd"
    "\<And>i j. i < 512 \<Longrightarrow> j < 512 \<Longrightarrow> t0 m pd i j \<noteq> Some pd"
    "\<And>i j i' g. i < 512 \<Longrightarrow> j < 512 \<Longrightarrow> i' < 512 \<Longrightarrow> t0 m pd i j = Some g \<Longrightarrow> t1 m pd i' \<noteq> Some g"
    "\<And>i i' f. i < 512 \<Longrightarrow> i' < 512 \<Longrightarrow> t1 m pd i = Some f \<Longrightarrow> t1 m pd i' = Some f \<Longrightarrow> i = i'"
    "\<And>i j i' j' g. i < 512 \<Longrightarrow> j < 512 \<Longrightarrow> i' < 512 \<Longrightarrow> j' < 512 \<Longrightarrow> t0 m pd i j = Some g \<Longrightarrow>
      t0 m pd i' j' = Some g \<Longrightarrow> i = i' \<and> j = j'"
  shows "pt_ok m pd"
proof -
  have "\<forall>f\<in>tables m pd. f < npage m \<and> f \<notin> set (free_pg m)" using assms(4,5) by blast
  moreover have "\<forall>i<512. \<forall>j<512. t0 m pd i j \<noteq> Some pd \<and> (\<forall>i'<512. \<forall>g. t0 m pd i j = Some g \<longrightarrow> t1 m pd i' \<noteq> Some g)"
    using assms(7,8) by blast
  moreover have "\<forall>i<512. \<forall>i'<512. \<forall>f. t1 m pd i = Some f \<and> t1 m pd i' = Some f \<longrightarrow> i = i'"
    by (intro allI impI, elim conjE) (rule assms(9))
  moreover have "\<forall>i<512. \<forall>j<512. \<forall>i'<512. \<forall>j'<512. \<forall>g. t0 m pd i j = Some g \<and> t0 m pd i' j' = Some g \<longrightarrow> i = i' \<and> j = j'"
    by (intro allI impI, elim conjE) (rule assms(10))
  ultimately show ?thesis using assms(1-3,6) unfolding pt_ok_def by simp
qed

lemma tablesI:
  "pd \<in> tables m pd" "i < 512 \<Longrightarrow> t1 m pd i = Some f \<Longrightarrow> f \<in> tables m pd"
  "i < 512 \<Longrightarrow> j < 512 \<Longrightarrow> t0 m pd i j = Some g \<Longrightarrow> g \<in> tables m pd"
  by (auto simp: tables_def)

lemma pt_ok_cong:
  assumes ok: "pt_ok m pd" and "\<And>i. i < 512 \<Longrightarrow> t1 m' pd i = t1 m pd i"
    and "\<And>i j. i < 512 \<Longrightarrow> j < 512 \<Longrightarrow> t0 m' pd i j = t0 m pd i j"
    and "npage m' = npage m" "distinct (free_pg m')" "\<And>f. f \<in> set (free_pg m') \<Longrightarrow> f < npage m \<and> f \<notin> tables m pd"
  shows "pt_ok m' pd" "tables m' pd = tables m pd"
proof -
  show t: "tables m' pd = tables m pd" using assms(2,3) unfolding tables_def by auto
  show "pt_ok m' pd"
    by (rule pt_okI) (use pt_okD [OF ok] assms t in \<open>auto dest!: spec\<close>)
qed

lemma fill_l1:
  assumes ok: "pt_ok m pd" and i: "i < 512" "t1 m pd i = None" and p: "free_pg m = p # ps"
  defines "m' \<equiv> put_table (pd, i) p (m\<lparr>free_pg := ps\<rparr>)"
  shows "i' < 512 \<Longrightarrow> t1 m' pd i' = (if i' = i then Some p else t1 m pd i')"
    "i' < 512 \<Longrightarrow> j < 512 \<Longrightarrow> t0 m' pd i' j = t0 m pd i' j"
    "i' < 512 \<Longrightarrow> j < 512 \<Longrightarrow> leaf m' pd i' j k = leaf m pd i' j k"
    "tables m' pd = insert p (tables m pd)" "pt_ok m' pd"
proof -
  note D = pt_okD [OF ok]
  have pf: "p \<in> set (free_pg m)" "p < npage m" "p < 2 ^ 40" using p D(1) D(3) [of p] by simp_all
  have pt: "p \<notin> tables m pd" using D(5) pf(1) by blast
  then have ppd: "p \<noteq> pd" using tablesI(1) by blast
  have ppn: "pte_ppn (pte_create p (PTE_U OR PTE_V)) = p" by (rule pte_ppn_create [OF pf(3) table_perm])
  have fr: "fr m' f k = (if f = pd \<and> k = i then pte_create p (PTE_U OR PTE_V) else if f = p then 0 else fr m f k)" for f k
    by (simp add: m'_def put_table_fr)
  show t1: "t1 m' pd i' = (if i' = i then Some p else t1 m pd i')" if "i' < 512" for i'
    using ppd ppn by (auto simp: t1_def fr)
  have same: "t1 m' f j = t1 m f j" if "f \<in> tables m pd" "f \<noteq> pd" for f j
    using that pt by (auto simp: t1_def fr)
  have fresh: "t1 m' p j = None" for j using ppd by (simp add: t1_def fr)
  show t0: "t0 m' pd i' j = t0 m pd i' j" if "i' < 512" "j < 512" for i' j
  proof (cases "i' = i")
    case True
    then show ?thesis using t1 [OF that(1)] fresh i by (simp add: t0_def)
  next
    case False
    then show ?thesis
      using t1 [OF that(1)] same tablesI(2) [OF that(1)] D(6) [OF that(1)] by (auto simp: t0_def split: option.splits)
  qed
  show "leaf m' pd i' j k = leaf m pd i' j k" if "i' < 512" "j < 512" for i' j
  proof (cases "t0 m pd i' j")
    case (Some g)
    then have "g \<noteq> p" "g \<noteq> pd" using tablesI(3) [OF that Some] pt D(7) [OF that] by auto
    then show ?thesis using t0 [OF that] Some by (simp add: leaf_def fr)
  qed (simp add: leaf_def t0 [OF that])
  show tb: "tables m' pd = insert p (tables m pd)"
  proof -
    have "(\<exists>i'<512. t1 m' pd i' = Some f) \<longleftrightarrow> f = p \<or> (\<exists>i'<512. t1 m pd i' = Some f)" for f
    proof -
      have "t1 m' pd i' = Some f \<longleftrightarrow> i' = i \<and> f = p \<or> t1 m pd i' = Some f" if "i' < 512" for i'
        using t1 [OF that] i(2) by auto
      then have "(\<exists>i'<512. t1 m' pd i' = Some f) \<longleftrightarrow> (\<exists>i'<512. i' = i \<and> f = p \<or> t1 m pd i' = Some f)"
        by (simp cong: conj_cong)
      then show ?thesis using i(1) by blast
    qed
    moreover have "(\<exists>i'<512. \<exists>j<512. t0 m' pd i' j = Some g) \<longleftrightarrow> (\<exists>i'<512. \<exists>j<512. t0 m pd i' j = Some g)" for g
      by (simp add: t0 cong: conj_cong)
    ultimately show ?thesis unfolding tables_def by auto
  qed
  have fp: "free_pg m' = ps" "npage m' = npage m" by (simp_all add: m'_def)
  show "pt_ok m' pd"
  proof (rule pt_okI)
    show "distinct (free_pg m')" using D(2) p fp by simp
    show "f \<in> tables m' pd \<Longrightarrow> f \<notin> set (free_pg m')" for f using D(2,5) p fp tb by auto
    show "f \<in> tables m' pd \<Longrightarrow> f < npage m'" for f using D(4) pf fp tb by auto
    show "i < 512 \<Longrightarrow> j < 512 \<Longrightarrow> i' < 512 \<Longrightarrow> t0 m' pd i j = Some g \<Longrightarrow> t1 m' pd i' \<noteq> Some g" for i j i' g
      using D(8) t0 t1 pt tablesI(3) by (metis option.inject)
    show "i < 512 \<Longrightarrow> i' < 512 \<Longrightarrow> t1 m' pd i = Some f \<Longrightarrow> t1 m' pd i' = Some f \<Longrightarrow> i = i'" for i i' f
      using D(9) t1 pt tablesI(2) by (metis option.inject)
  qed (use D fp p t1 t0 ppd in \<open>auto split: if_splits\<close>)
qed

lemma fill_l0:
  assumes ok: "pt_ok m pd" and i: "i < 512" "j < 512" "t1 m pd i = Some f" "t0 m pd i j = None"
    and p: "free_pg m = p # ps"
  defines "m' \<equiv> put_table (f, j) p (m\<lparr>free_pg := ps\<rparr>)"
  shows "i' < 512 \<Longrightarrow> t1 m' pd i' = t1 m pd i'"
    "i' < 512 \<Longrightarrow> j' < 512 \<Longrightarrow> t0 m' pd i' j' = (if i' = i \<and> j' = j then Some p else t0 m pd i' j')"
    "i' < 512 \<Longrightarrow> j' < 512 \<Longrightarrow> leaf m' pd i' j' k = leaf m pd i' j' k"
    "tables m' pd = insert p (tables m pd)" "pt_ok m' pd"
proof -
  note D = pt_okD [OF ok]
  have pf: "p \<in> set (free_pg m)" "p < npage m" "p < 2 ^ 40" using p D(1) D(3) [of p] by simp_all
  have pt: "p \<notin> tables m pd" using D(5) pf(1) by blast
  have ff: "f \<in> tables m pd" "f \<noteq> pd" "f \<noteq> p" using tablesI(2) [OF i(1,3)] D(6) [OF i(1)] i(3) pt by auto
  have ppd: "p \<noteq> pd" using pt tablesI(1) by blast
  have ppn: "pte_ppn (pte_create p (PTE_U OR PTE_V)) = p" by (rule pte_ppn_create [OF pf(3) table_perm])
  have fr: "fr m' h k = (if h = f \<and> k = j then pte_create p (PTE_U OR PTE_V) else if h = p then 0 else fr m h k)" for h k
    by (simp add: m'_def put_table_fr)
  show t1: "t1 m' pd i' = t1 m pd i'" if "i' < 512" for i'
    using ppd ff by (auto simp: t1_def fr)
  have same: "t1 m' h j' = (if h = f \<and> j' = j then Some p else t1 m h j')" if "h \<in> tables m pd" for h j'
    using that pt ppn by (auto simp: t1_def fr)
  show t0: "t0 m' pd i' j' = (if i' = i \<and> j' = j then Some p else t0 m pd i' j')" if "i' < 512" "j' < 512" for i' j'
  proof (cases "t1 m pd i'")
    case (Some h)
    have "h = f \<longleftrightarrow> i' = i" using D(9) [OF that(1) i(1) Some, of] i(3) Some by auto
    then show ?thesis using t1 [OF that(1)] same tablesI(2) [OF that(1) Some] Some by (simp add: t0_def)
  qed (use t1 [OF that(1)] i(3) in \<open>auto simp: t0_def\<close>)
  show lf: "leaf m' pd i' j' k = leaf m pd i' j' k" if "i' < 512" "j' < 512" for i' j'
  proof (cases "i' = i \<and> j' = j")
    case True
    then show ?thesis using t0 [OF that] i(4) ff by (simp add: leaf_def fr)
  next
    case False
    show ?thesis
    proof (cases "t0 m pd i' j'")
      case (Some g)
      then have "g \<noteq> p" "g \<noteq> f" using tablesI(3) [OF that Some] pt D(8) [OF that i(1) Some] i(3) by auto
      then show ?thesis using t0 [OF that] False Some by (simp add: leaf_def fr)
    qed (use t0 [OF that] False in \<open>simp add: leaf_def\<close>)
  qed
  show tb: "tables m' pd = insert p (tables m pd)"
  proof -
    have "(\<exists>i'<512. \<exists>j'<512. t0 m' pd i' j' = Some g) \<longleftrightarrow> g = p \<or> (\<exists>i'<512. \<exists>j'<512. t0 m pd i' j' = Some g)" for g
    proof -
      have "t0 m' pd i' j' = Some g \<longleftrightarrow> i' = i \<and> j' = j \<and> g = p \<or> t0 m pd i' j' = Some g" if "i' < 512" "j' < 512" for i' j'
        using t0 [OF that] i(4) by auto
      then have "(\<exists>i'<512. \<exists>j'<512. t0 m' pd i' j' = Some g) \<longleftrightarrow>
          (\<exists>i'<512. \<exists>j'<512. i' = i \<and> j' = j \<and> g = p \<or> t0 m pd i' j' = Some g)"
        by (simp cong: conj_cong)
      then show ?thesis using i(1,2) by blast
    qed
    moreover have "(\<exists>i'<512. t1 m' pd i' = Some h) \<longleftrightarrow> (\<exists>i'<512. t1 m pd i' = Some h)" for h
      by (simp add: t1 cong: conj_cong)
    ultimately show ?thesis unfolding tables_def by auto
  qed
  have fp: "free_pg m' = ps" "npage m' = npage m" by (simp_all add: m'_def)
  show "pt_ok m' pd"
  proof (rule pt_okI)
    show "distinct (free_pg m')" using D(2) p fp by simp
    show "f \<in> tables m' pd \<Longrightarrow> f \<notin> set (free_pg m')" for f using D(2,5) p fp tb by auto
    show "f \<in> tables m' pd \<Longrightarrow> f < npage m'" for f using D(4) pf fp tb by auto
    show "i < 512 \<Longrightarrow> j < 512 \<Longrightarrow> i' < 512 \<Longrightarrow> t0 m' pd i j = Some g \<Longrightarrow> t1 m' pd i' \<noteq> Some g" for i j i' g
      using D(8) t0 t1 pt tablesI(2) by (metis option.inject)
    fix a b a' b' g
    assume x: "a < 512" "b < 512" "a' < 512" "b' < 512" "t0 m' pd a b = Some g" "t0 m' pd a' b' = Some g"
    have np: "t0 m pd u v \<noteq> Some p" if "u < 512" "v < 512" for u v using tablesI(3) [OF that] pt by blast
    show "a = a' \<and> b = b'"
      using D(10) [OF x(1-4)] np [OF x(1,2)] np [OF x(3,4)] x(5,6) t0 [OF x(1,2)] t0 [OF x(3,4)]
      by (auto split: if_splits)
  qed (use D fp p t1 t0 ppd in \<open>auto split: if_splits\<close>)
qed

text \<open>What creating tables does: leaves stay, only free frames become tables.\<close>

definition pt_grow :: "nat \<Rightarrow> pmem \<Rightarrow> pmem \<Rightarrow> bool" where
  "pt_grow pd m m' \<longleftrightarrow>
     pt_ok m' pd \<and> npage m' = npage m \<and>
     (\<forall>i<512. \<forall>j<512. \<forall>k. leaf m' pd i j k = leaf m pd i j k) \<and>
     tables m pd \<subseteq> tables m' pd \<and> set (free_pg m') \<subseteq> set (free_pg m) \<and>
     set (free_pg m') \<union> tables m' pd = set (free_pg m) \<union> tables m pd \<and>
     (\<forall>f. f \<notin> tables m' pd \<longrightarrow> fr m' f = fr m f \<and> page_ref m' f = page_ref m f)"

lemma pt_grow_refl: "pt_ok m pd \<Longrightarrow> pt_grow pd m m"
  by (simp add: pt_grow_def)

lemma pt_grow_trans: "pt_grow pd a b \<Longrightarrow> pt_grow pd b c \<Longrightarrow> pt_grow pd a c"
proof -
  assume h: "pt_grow pd a b" "pt_grow pd b c"
  have l: "leaf c pd i j k = leaf a pd i j k" if "i < 512" "j < 512" for i j k
    using h that by (simp add: pt_grow_def)
  have s: "tables a pd \<subseteq> tables b pd" "tables b pd \<subseteq> tables c pd" "set (free_pg b) \<subseteq> set (free_pg a)"
    "set (free_pg c) \<subseteq> set (free_pg b)"
    "set (free_pg b) \<union> tables b pd = set (free_pg a) \<union> tables a pd"
    "set (free_pg c) \<union> tables c pd = set (free_pg b) \<union> tables b pd"
    using h by (simp_all add: pt_grow_def)
  have f: "fr c f = fr a f \<and> page_ref c f = page_ref a f" if "f \<notin> tables c pd" for f
  proof -
    have "f \<notin> tables b pd" using that s(2) by blast
    then show ?thesis using that h by (simp add: pt_grow_def)
  qed
  show "pt_grow pd a c"
    using h l f subset_trans [OF s(1,2)] subset_trans [OF s(4,3)] s(5,6) by (simp add: pt_grow_def)
qed

lemma pt_level_found:
  assumes "t1 m f j = Some g" "g < npage m"
  shows "pt_level (f, j) create m = Some (Some g, m)"
  using assms by (auto simp: pt_level_def t1_def get_pte_at_def pde2page_def pa2page_def pte_ppn_def split: if_splits)

lemma pt_level_missing: "t1 m f j = None \<Longrightarrow> pt_level (f, j) False m = Some (None, m)"
  by (auto simp: pt_level_def t1_def get_pte_at_def split: if_splits)

lemma get_pte_lookup:
  assumes ok: "pt_ok m pd"
  shows "get_pte pd la False m = Some (map_option (\<lambda>f. (f, PTX la)) (t0 m pd (PDX1 la) (PDX0 la)), m)"
proof (cases "t1 m pd (PDX1 la)")
  case None
  then show ?thesis by (simp add: get_pte_def pt_level_missing t0_def)
next
  case (Some f)
  then have f: "f < npage m" using pt_okD(4) [OF ok] tablesI(2) [OF index_bounds(1)] by blast
  show ?thesis
  proof (cases "t1 m f (PDX0 la)")
    case None
    then show ?thesis using Some f by (simp add: get_pte_def pt_level_missing pt_level_found t0_def)
  next
    case (Some g)
    then have t: "t0 m pd (PDX1 la) (PDX0 la) = Some g" using \<open>t1 m pd (PDX1 la) = Some f\<close> by (simp add: t0_def)
    then have "g < npage m" using pt_okD(4) [OF ok] tablesI(3) [OF index_bounds(1,2)] by blast
    then show ?thesis
      using Some f t \<open>t1 m pd (PDX1 la) = Some f\<close> by (simp add: get_pte_def pt_level_found)
  qed
qed

lemma fill_grow:
  assumes ok: "pt_ok m pd" and p: "free_pg m = p # ps"
    and m': "m' = put_table a p (m\<lparr>free_pg := ps\<rparr>)" "fst a \<in> tables m pd"
    and "pt_ok m' pd" "tables m' pd = insert p (tables m pd)"
    and "\<And>i j k. i < 512 \<Longrightarrow> j < 512 \<Longrightarrow> leaf m' pd i j k = leaf m pd i j k"
  shows "pt_grow pd m m'"
  unfolding pt_grow_def
  using assms(5-7) p m'(2) by (auto simp: m'(1) put_table_fr)

lemma pt_level_1:
  assumes ok: "pt_ok m pd" and i: "i < 512"
  shows "\<exists>r m'. pt_level (pd, i) True m = Some (r, m') \<and> pt_grow pd m m' \<and>
    (case r of None \<Rightarrow> free_pg m' = [] | Some f \<Rightarrow> t1 m' pd i = Some f)"
proof (cases "t1 m pd i")
  case (Some f)
  then have "f < npage m" using pt_okD(4) [OF ok] tablesI(2) [OF i] by blast
  then show ?thesis using Some pt_level_found pt_grow_refl [OF ok] by fastforce
next
  case None
  then have nv: "\<not> valid (get_pte_at (pd, i) m)" by (auto simp: t1_def get_pte_at_def split: if_splits)
  have fl: "\<forall>f\<in>set (free_pg m). f < npage m" using pt_okD(3) [OF ok] by blast
  note l = pt_level_fill [OF nv pt_okD(2) [OF ok] pt_okD(1) [OF ok] fl]
  show ?thesis
  proof (cases "free_pg m")
    case Nil
    then show ?thesis using l pt_grow_refl [OF ok] by simp
  next
    case (Cons p ps)
    note f = fill_l1 [OF ok i None Cons]
    have "pt_grow pd m (put_table (pd, i) p (m\<lparr>free_pg := ps\<rparr>))"
      by (rule fill_grow [OF ok Cons refl _ f(5,4,3)]) (simp add: tablesI)
    then show ?thesis using l Cons f(1) [OF i] by simp
  qed
qed

lemma pt_level_0:
  assumes ok: "pt_ok m pd" and i: "i < 512" "j < 512" "t1 m pd i = Some f"
  shows "\<exists>r m'. pt_level (f, j) True m = Some (r, m') \<and> pt_grow pd m m' \<and>
    (case r of None \<Rightarrow> free_pg m' = [] | Some g \<Rightarrow> t0 m' pd i j = Some g)"
proof (cases "t0 m pd i j")
  case (Some g)
  then have "t1 m f j = Some g" "g < npage m"
    using pt_okD(4) [OF ok] tablesI(3) [OF i(1,2)] i(3) by (auto simp: t0_def)
  then show ?thesis using Some pt_level_found pt_grow_refl [OF ok] by fastforce
next
  case None
  then have nv: "\<not> valid (get_pte_at (f, j) m)" using i(3) by (auto simp: t0_def t1_def get_pte_at_def split: if_splits)
  have fl: "\<forall>f\<in>set (free_pg m). f < npage m" using pt_okD(3) [OF ok] by blast
  note l = pt_level_fill [OF nv pt_okD(2) [OF ok] pt_okD(1) [OF ok] fl]
  show ?thesis
  proof (cases "free_pg m")
    case Nil
    then show ?thesis using l pt_grow_refl [OF ok] by simp
  next
    case (Cons p ps)
    note fl0 = fill_l0 [OF ok i None Cons]
    have "pt_grow pd m (put_table (f, j) p (m\<lparr>free_pg := ps\<rparr>))"
      by (rule fill_grow [OF ok Cons refl _ fl0(5,4,3)]) (use tablesI(2) [OF i(1,3)] in simp)
    then show ?thesis using l Cons fl0(2) [OF i(1,2)] by simp
  qed
qed

lemma get_pte_create:
  assumes ok: "pt_ok m pd"
  shows "\<exists>r m'. get_pte pd la True m = Some (r, m') \<and> pt_grow pd m m' \<and>
    (case r of None \<Rightarrow> free_pg m' = [] | Some a \<Rightarrow> t0 m' pd (PDX1 la) (PDX0 la) = Some (fst a) \<and> snd a = PTX la)"
proof -
  obtain r1 m1 where 1: "pt_level (pd, PDX1 la) True m = Some (r1, m1)" "pt_grow pd m m1"
    "case r1 of None \<Rightarrow> free_pg m1 = [] | Some f \<Rightarrow> t1 m1 pd (PDX1 la) = Some f"
    using pt_level_1 [OF ok, of "PDX1 la"] by auto
  show ?thesis
  proof (cases r1)
    case None
    then show ?thesis using 1 by (simp add: get_pte_def)
  next
    case (Some f)
    have ok1: "pt_ok m1 pd" using 1(2) by (simp add: pt_grow_def)
    obtain r0 m0 where 0: "pt_level (f, PDX0 la) True m1 = Some (r0, m0)" "pt_grow pd m1 m0"
      "case r0 of None \<Rightarrow> free_pg m0 = [] | Some g \<Rightarrow> t0 m0 pd (PDX1 la) (PDX0 la) = Some g"
      using pt_level_0 [OF ok1 index_bounds(1) index_bounds(2)] 1(3) Some by fastforce
    show ?thesis
      using 1(1) Some 0 pt_grow_trans [OF 1(2) 0(2)] by (cases r0) (simp_all add: get_pte_def)
  qed
qed

text \<open>Writing a leaf entry changes that leaf only.\<close>

lemma set_leaf:
  fixes k :: nat and e :: "64 word"
  assumes ok: "pt_ok m pd" and a: "i < 512" "j < 512" "t0 m pd i j = Some f"
  defines "m' \<equiv> set_pte (f, k) e m"
  shows "i' < 512 \<Longrightarrow> t1 m' pd i' = t1 m pd i'"
    "i' < 512 \<Longrightarrow> j' < 512 \<Longrightarrow> t0 m' pd i' j' = t0 m pd i' j'"
    "i' < 512 \<Longrightarrow> j' < 512 \<Longrightarrow> leaf m' pd i' j' k' = (if i' = i \<and> j' = j \<and> k' = k then e else leaf m pd i' j' k')"
    "tables m' pd = tables m pd" "pt_ok m' pd"
proof -
  note D = pt_okD [OF ok]
  have fr: "fr m' h x = (if h = f \<and> x = k then e else fr m h x)" for h x by (simp add: m'_def set_pte_def)
  have fpd: "f \<noteq> pd" using D(7) [OF a(1,2)] a(3) by auto
  show t1: "t1 m' pd i' = t1 m pd i'" if "i' < 512" for i' using fpd by (simp add: t1_def fr)
  show t0: "t0 m' pd i' j' = t0 m pd i' j'" if "i' < 512" "j' < 512" for i' j'
  proof -
    have "h \<noteq> f" if "t1 m pd i' = Some h" for h using D(8) [OF a(1,2) \<open>i' < 512\<close> a(3)] that by auto
    then show ?thesis using t1 [OF that(1)] by (auto simp: t0_def t1_def fr split: option.splits)
  qed
  show "leaf m' pd i' j' k' = (if i' = i \<and> j' = j \<and> k' = k then e else leaf m pd i' j' k')" if "i' < 512" "j' < 512"
  proof (cases "t0 m pd i' j' = Some f")
    case True
    then have "i' = i \<and> j' = j" using D(10) [OF that a(1,2) True a(3)] by simp
    then show ?thesis using t0 [OF that] True by (simp add: leaf_def fr)
  next
    case False
    then have "\<not> (i' = i \<and> j' = j)" using a(3) by auto
    moreover have "leaf m' pd i' j' k' = leaf m pd i' j' k'"
      using False by (simp add: leaf_def t0 [OF that] fr split: option.splits)
    ultimately show ?thesis by auto
  qed
  have c: "npage m' = npage m" "free_pg m' = free_pg m" by (simp_all add: m'_def set_pte_def)
  have fo: "h \<in> set (free_pg m') \<Longrightarrow> h < npage m \<and> h \<notin> tables m pd" for h
    using D(3) [of h] D(5) [of h] c(2) by auto
  have d: "distinct (free_pg m')" using D(2) c(2) by simp
  show "tables m' pd = tables m pd" by (rule pt_ok_cong(2) [OF ok t1 t0 c(1) d fo])
  show "pt_ok m' pd" by (rule pt_ok_cong(1) [OF ok t1 t0 c(1) d fo])
qed

lemma free_page_set: "set (free_pg (free_page p m)) = insert p (set (free_pg m))" "npage (free_page p m) = npage m"
    "fr (free_page p m) = fr m" "page_ref (free_page p m) = page_ref m"
    "p \<notin> set (free_pg m) \<Longrightarrow> distinct (free_pg m) \<Longrightarrow> distinct (free_pg (free_page p m))"
  by (simp_all add: free_page_def free_pages_def set_insort_key distinct_insort)

text \<open>A change of reference counts and of the free list outside the tables.\<close>

lemma pt_ok_outside:
  assumes "pt_ok m pd" "fr m' = fr m" "npage m' = npage m" "distinct (free_pg m')"
    "\<And>f. f \<in> set (free_pg m') \<Longrightarrow> f < npage m \<and> f \<notin> tables m pd"
  shows "pt_ok m' pd" "t0 m' pd i j = t0 m pd i j" "leaf m' pd i j k = leaf m pd i j k" "tables m' pd = tables m pd"
proof -
  have t: "t1 m' pd i = t1 m pd i" "t0 m' pd i j = t0 m pd i j" for i j by (simp_all add: t1_def t0_def assms(2))
  then show "t0 m' pd i j = t0 m pd i j" "leaf m' pd i j k = leaf m pd i j k"
    by (simp_all add: leaf_def assms(2) split: option.splits)
  show "pt_ok m' pd" "tables m' pd = tables m pd"
    using pt_ok_cong [OF assms(1) t(1) t(2) assms(3,4)] assms(5) by blast+
qed

lemma perm_or_V: "perm AND NOT 0x3FF = 0 \<Longrightarrow> (PTE_V OR perm) AND NOT 0x3FF = (0 :: 64 word)"
  by (simp add: bit.conj_disj_distrib2 PTE_V_def)

lemma page_insert_spec:
  assumes ok: "pt_ok m pd" and dok: "data_ok m pd" and page: "page < npage m" "page \<notin> tables m pd" "page \<notin> set (free_pg m)"
  shows "\<exists>r m'. page_insert pd page la perm m = Some (r, m') \<and> pt_ok m' pd \<and> npage m' = npage m \<and>
    tables m pd \<subseteq> tables m' pd \<and> tables m' pd \<subseteq> tables m pd \<union> set (free_pg m) \<and>
    (\<forall>p. p \<notin> tables m' pd \<longrightarrow> page_ref m' p = page_ref m p + (if r = 0 \<and> p = page then 1 else 0)
       - (if r = 0 \<and> valid (pte_of m pd la) \<and> pte_ppn (pte_of m pd la) = p then 1 else 0)) \<and>
    set (free_pg m') = set (free_pg m) - tables m' pd \<union>
      (if r = 0 \<and> valid (pte_of m pd la) \<and> pte_ppn (pte_of m pd la) \<noteq> page \<and> page_ref m (pte_ppn (pte_of m pd la)) = 1
       then {pte_ppn (pte_of m pd la)} else {}) \<and>
    (if r = 0
     then pte_of m' pd la = pte_create page (PTE_V OR perm) \<and>
       (\<forall>i<512. \<forall>j<512. \<forall>k. (i, j, k) \<noteq> (PDX1 la, PDX0 la, PTX la) \<longrightarrow> leaf m' pd i j k = leaf m pd i j k) \<and>
       page_ref m' page = page_ref m page + (if valid (pte_of m pd la) \<and> pte_ppn (pte_of m pd la) = page then 0 else 1)
     else r = - E_NO_MEM \<and> free_pg m' = [] \<and> (\<forall>i<512. \<forall>j<512. \<forall>k. leaf m' pd i j k = leaf m pd i j k))"
proof -
  obtain a m1 where g: "get_pte pd la True m = Some (a, m1)" "pt_grow pd m m1"
    "case a of None \<Rightarrow> free_pg m1 = [] | Some a \<Rightarrow> t0 m1 pd (PDX1 la) (PDX0 la) = Some (fst a) \<and> snd a = PTX la"
    using get_pte_create [OF ok] by blast
  have ok1: "pt_ok m1 pd" and np: "npage m1 = npage m"
    and lf: "\<And>i j k. i < 512 \<Longrightarrow> j < 512 \<Longrightarrow> leaf m1 pd i j k = leaf m pd i j k"
    and tb: "tables m pd \<subseteq> tables m1 pd" "set (free_pg m1) \<subseteq> set (free_pg m)"
      "set (free_pg m1) \<union> tables m1 pd = set (free_pg m) \<union> tables m pd"
    and rf: "\<And>f. f \<notin> tables m1 pd \<Longrightarrow> page_ref m1 f = page_ref m f"
    using g(2) unfolding pt_grow_def by blast+
  have tb1: "tables m1 pd \<subseteq> tables m pd \<union> set (free_pg m)" using tb(3) by blast
  have pg: "page \<notin> tables m1 pd" "page \<notin> set (free_pg m1)" using page tb tb1 by blast+
  have fm: "set (free_pg m1) = set (free_pg m) - tables m1 pd" using tb pt_okD(5) [OF ok] pt_okD(5) [OF ok1] by blast
  have fo: "f \<in> set (free_pg m1) \<Longrightarrow> f < npage m1 \<and> f \<notin> tables m1 pd" for f
    using pt_okD(3,5) [OF ok1] by blast
  show ?thesis
  proof (cases a)
    case None
    then show ?thesis using g ok1 np lf tb tb1 rf fm by (simp add: page_insert_def E_NO_MEM_def)
  next
    case (Some b)
    obtain f where b: "b = (f, PTX la)" "t0 m1 pd (PDX1 la) (PDX0 la) = Some f"
      using g(3) Some by (cases b) auto
    let ?old = "fr m1 f (PTX la)"
    have old: "?old = pte_of m pd la" using lf [of "PDX1 la" "PDX0 la" "PTX la"] b by (simp add: leaf_def pte_of_def)
    let ?m2 = "page_ref_inc page m1"
    let ?e = "pte_create page (PTE_V OR perm)"
    have "\<exists>m3. page_insert pd page la perm m = Some (0, set_pte b ?e m3) \<and> pt_ok m3 pd \<and> npage m3 = npage m \<and>
        t0 m3 pd (PDX1 la) (PDX0 la) = Some f \<and> tables m3 pd = tables m1 pd \<and>
        (\<forall>i<512. \<forall>j<512. \<forall>k. (i, j, k) \<noteq> (PDX1 la, PDX0 la, PTX la) \<longrightarrow> leaf m3 pd i j k = leaf m1 pd i j k) \<and>
        (\<forall>p. p \<notin> tables m1 pd \<longrightarrow> page_ref m3 p = page_ref m p + (if p = page then 1 else 0) -
          (if valid ?old \<and> pte_ppn ?old = p then 1 else 0)) \<and>
        set (free_pg m3) = set (free_pg m1) \<union>
          (if valid ?old \<and> pte_ppn ?old \<noteq> page \<and> page_ref m (pte_ppn ?old) = 1 then {pte_ppn ?old} else {})"
    proof (cases "valid ?old")
      case False
      have r: "page_insert pd page la perm m = Some (0, set_pte b ?e ?m2)"
        using g(1) Some False b by (simp add: page_insert_def get_pte_at_def page_ref_inc_def set_page_ref_def)
      have e: "fr ?m2 = fr m1" "npage ?m2 = npage m1" "distinct (free_pg ?m2)"
        "\<And>f. f \<in> set (free_pg ?m2) \<Longrightarrow> f < npage m1 \<and> f \<notin> tables m1 pd"
        "page_ref ?m2 = (page_ref m1)(page := page_ref m1 page + 1)" "free_pg ?m2 = free_pg m1"
        using pt_okD(2) [OF ok1] fo by (simp_all add: page_ref_inc_def set_page_ref_def)
      show ?thesis
        using r pt_ok_outside [OF ok1 e(1-4)] False b(2) np e(2,5,6) rf by (intro exI [of _ ?m2]) simp
    next
      case True
      define p where "p = pte_ppn ?old"
      have p: "p < npage m" "p \<notin> set (free_pg m)" "p \<notin> tables m pd"
        using dok True index_bounds by (auto simp: data_ok_def old pte_of_def p_def)
      have p1: "p \<notin> tables m1 pd" "p \<notin> set (free_pg m1)" using p tb tb1 by blast+
      have p2p: "pte2page ?old ?m2 = Some p"
        using True p(1) np by (simp add: pte2page_def pa2page_def p_def pte_ppn_def page_ref_inc_def set_page_ref_def)
      show ?thesis
      proof (cases "p = page")
        case eq: True
        let ?m3 = "page_ref_dec page ?m2"
        have "page_insert pd page la perm m = Some (0, set_pte b ?e ?m3)"
          using g(1) Some True b p2p eq by (simp add: page_insert_def get_pte_at_def page_ref_inc_def set_page_ref_def)
        moreover have e: "fr ?m3 = fr m1" "npage ?m3 = npage m1" "distinct (free_pg ?m3)"
          "\<And>f. f \<in> set (free_pg ?m3) \<Longrightarrow> f < npage m1 \<and> f \<notin> tables m1 pd"
          "page_ref ?m3 = page_ref m1" "free_pg ?m3 = free_pg m1"
          using pt_okD(2) [OF ok1] fo by (simp_all add: page_ref_inc_def page_ref_dec_def set_page_ref_def)
        ultimately show ?thesis
          using pt_ok_outside [OF ok1 e(1-4)] True b(2) np e(2,5,6) eq rf by (intro exI [of _ ?m3]) (simp add: p_def)
      next
        case ne: False
        let ?d = "page_ref_dec p ?m2"
        define q where "q = (if page_ref ?d p = 0 then free_page p ?d else ?d)"
        let ?m3 = "set_pte b 0 q"
        have fp: "set (free_pg q) = set (free_pg m1) \<union> (if page_ref m1 p = 1 then {p} else {})" "npage q = npage m1" "fr q = fr m1"
          "distinct (free_pg q)" "page_ref q = (page_ref m1)(page := page_ref m1 page + 1, p := page_ref m1 p - 1)"
          using pt_okD(2) [OF ok1] p1 ne
          by (auto simp: q_def free_page_set page_ref_dec_def page_ref_inc_def set_page_ref_def)
        have okq: "pt_ok q pd" "\<And>i j. t0 q pd i j = t0 m1 pd i j" "\<And>i j k. leaf q pd i j k = leaf m1 pd i j k"
          "tables q pd = tables m1 pd"
          by (rule pt_ok_outside [OF ok1 fp(3,2,4)]; use fp(1) p p1 np fo in \<open>auto split: if_splits\<close>)+
        have t: "t0 q pd (PDX1 la) (PDX0 la) = Some f" using okq(2) b(2) by simp
        note sl = set_leaf [OF okq(1) index_bounds(1,2) t, where k = "PTX la" and e = 0]
        have "page_insert pd page la perm m = Some (0, set_pte b ?e ?m3)"
          using g(1) Some True b p2p ne
          by (simp add: page_insert_def page_remove_pte_def get_pte_at_def Let_def q_def page_ref_inc_def set_page_ref_def)
        then show ?thesis
          using sl okq b np fp rf rf [OF p1(1)] ne True
          by (intro exI [of _ ?m3]) (simp add: p_def [symmetric])
      qed
    qed
    then obtain m3 where m3: "page_insert pd page la perm m = Some (0, set_pte b ?e m3)" "pt_ok m3 pd" "npage m3 = npage m"
      "t0 m3 pd (PDX1 la) (PDX0 la) = Some f" "tables m3 pd = tables m1 pd"
      "\<forall>i<512. \<forall>j<512. \<forall>k. (i, j, k) \<noteq> (PDX1 la, PDX0 la, PTX la) \<longrightarrow> leaf m3 pd i j k = leaf m1 pd i j k"
      "\<forall>p. p \<notin> tables m1 pd \<longrightarrow> page_ref m3 p = page_ref m p + (if p = page then 1 else 0) -
          (if valid ?old \<and> pte_ppn ?old = p then 1 else 0)"
      "set (free_pg m3) = set (free_pg m1) \<union>
          (if valid ?old \<and> pte_ppn ?old \<noteq> page \<and> page_ref m (pte_ppn ?old) = 1 then {pte_ppn ?old} else {})" by blast
    have rp: "page_ref m3 page = page_ref m page + (if valid ?old \<and> pte_ppn ?old = page then 0 else 1)"
      using m3(7) pg(1) by auto
    note sl = set_leaf [OF m3(2) index_bounds(1,2) m3(4), where k = "PTX la" and e = ?e]
    show ?thesis
      using m3 rp sl lf tb(1) tb1 b unfolding old fm by (intro exI [of _ 0] exI [of _ "set_pte b ?e m3"]) (simp add: pte_of_def)
  qed
qed

section \<open>Mapping and looking up\<close>

text \<open>
  C23: mapping a page and looking it up again gives the page with the permissions asked for: unless
  memory for the tables runs out, \<^verbatim>\<open>page_insert\<close> succeeds, \<^verbatim>\<open>get_page\<close> then finds the page, no other
  address of the directory is affected, and the tables stay well formed.  The page gains one reference, a
  page that was mapped at the address before loses one and is freed when that was its last, and every other
  page outside the tables keeps its count; the free list loses only the pages that become tables.  On failure
  nothing is mapped or unmapped and no count changes.  It is asked that the tables of the directory form a tree
  (\<open>pt_ok\<close>), that mapped pages are neither free nor tables (\<open>data_ok\<close>), that the same holds of the page to
  be mapped, and that \<open>perm\<close> has permission bits only.
\<close>

theorem page_insert_lookup:
  assumes "pt_ok m pd" and "data_ok m pd" and "page < npage m" and "page \<notin> tables m pd"
    and "page \<notin> set (free_pg m)" and "perm AND NOT 0x3FF = 0"
  shows "\<exists>r m'. page_insert pd page la perm m = Some (r, m') \<and> pt_ok m' pd \<and> tables m pd \<subseteq> tables m' pd \<and>
    (\<forall>p. p \<notin> tables m' pd \<longrightarrow> page_ref m' p = page_ref m p + (if r = 0 \<and> p = page then 1 else 0)
       - (if r = 0 \<and> valid (pte_of m pd la) \<and> pte_ppn (pte_of m pd la) = p then 1 else 0)) \<and>
    set (free_pg m') = set (free_pg m) - tables m' pd \<union>
      (if r = 0 \<and> valid (pte_of m pd la) \<and> pte_ppn (pte_of m pd la) \<noteq> page \<and> page_ref m (pte_ppn (pte_of m pd la)) = 1
       then {pte_ppn (pte_of m pd la)} else {}) \<and>
    (if r = 0
     then (\<exists>a. get_page pd la m' = Some (Some page, Some a) \<and> get_pte_at a m' = pte_create page (PTE_V OR perm)) \<and>
       (\<forall>i<512. \<forall>j<512. \<forall>k. (i, j, k) \<noteq> (PDX1 la, PDX0 la, PTX la) \<longrightarrow> leaf m' pd i j k = leaf m pd i j k) \<and>
       page_ref m' page = page_ref m page + (if valid (pte_of m pd la) \<and> pte_ppn (pte_of m pd la) = page then 0 else 1)
     else r = - E_NO_MEM \<and> free_pg m' = [] \<and> (\<forall>i<512. \<forall>j<512. \<forall>k. leaf m' pd i j k = leaf m pd i j k))"
proof -
  obtain r m' where 1: "page_insert pd page la perm m = Some (r, m')" "pt_ok m' pd" "npage m' = npage m"
    "if r = 0
     then pte_of m' pd la = pte_create page (PTE_V OR perm) \<and>
       (\<forall>i<512. \<forall>j<512. \<forall>k. (i, j, k) \<noteq> (PDX1 la, PDX0 la, PTX la) \<longrightarrow> leaf m' pd i j k = leaf m pd i j k) \<and>
       page_ref m' page = page_ref m page + (if valid (pte_of m pd la) \<and> pte_ppn (pte_of m pd la) = page then 0 else 1)
     else r = - E_NO_MEM \<and> free_pg m' = [] \<and> (\<forall>i<512. \<forall>j<512. \<forall>k. leaf m' pd i j k = leaf m pd i j k)"
    "tables m pd \<subseteq> tables m' pd"
    "\<forall>p. p \<notin> tables m' pd \<longrightarrow> page_ref m' p = page_ref m p + (if r = 0 \<and> p = page then 1 else 0)
       - (if r = 0 \<and> valid (pte_of m pd la) \<and> pte_ppn (pte_of m pd la) = p then 1 else 0)"
    "set (free_pg m') = set (free_pg m) - tables m' pd \<union>
      (if r = 0 \<and> valid (pte_of m pd la) \<and> pte_ppn (pte_of m pd la) \<noteq> page \<and> page_ref m (pte_ppn (pte_of m pd la)) = 1
       then {pte_ppn (pte_of m pd la)} else {})"
    using page_insert_spec [OF assms(1-5), of la perm] by blast
  have "\<exists>a. get_page pd la m' = Some (Some page, Some a) \<and> get_pte_at a m' = pte_create page (PTE_V OR perm)" if "r = 0"
  proof -
    have e: "pte_of m' pd la = pte_create page (PTE_V OR perm)" using 1(4) that by simp
    have ppn: "pte_ppn (pte_create page (PTE_V OR perm)) = page"
      using pte_ppn_create [OF _ perm_or_V [OF assms(6)], of page] assms(3) pt_okD(1) [OF assms(1)] by simp
    obtain f where f: "t0 m' pd (PDX1 la) (PDX0 la) = Some f" "fr m' f (PTX la) = pte_create page (PTE_V OR perm)"
    proof (cases "t0 m' pd (PDX1 la) (PDX0 la)")
      case None
      then have "pte_of m' pd la = 0" by (simp add: pte_of_def leaf_def)
      then show ?thesis using e valid_pte_create [of page "PTE_V OR perm"] by simp
    next
      case (Some f)
      then show ?thesis using e that by (simp add: pte_of_def leaf_def)
    qed
    have "pte2page (pte_create page (PTE_V OR perm)) m' = Some page"
      using ppn assms(3) 1(3) by (simp add: pte2page_def pa2page_def pte_ppn_def)
    then show ?thesis using f get_pte_lookup [OF 1(2), of la] by (simp add: get_page_def get_pte_at_def)
  qed
  then have "if r = 0
     then (\<exists>a. get_page pd la m' = Some (Some page, Some a) \<and> get_pte_at a m' = pte_create page (PTE_V OR perm)) \<and>
       (\<forall>i<512. \<forall>j<512. \<forall>k. (i, j, k) \<noteq> (PDX1 la, PDX0 la, PTX la) \<longrightarrow> leaf m' pd i j k = leaf m pd i j k) \<and>
       page_ref m' page = page_ref m page + (if valid (pte_of m pd la) \<and> pte_ppn (pte_of m pd la) = page then 0 else 1)
     else r = - E_NO_MEM \<and> free_pg m' = [] \<and> (\<forall>i<512. \<forall>j<512. \<forall>k. leaf m' pd i j k = leaf m pd i j k)"
    using 1(4) by (cases "r = 0") simp_all
  then show ?thesis using 1(1,2,5-7) by blast
qed

section \<open>Unmapping a range\<close>

text \<open>No page is mapped twice, and each mapped page has the one reference of its mapping.\<close>

definition data_excl :: "pmem \<Rightarrow> nat \<Rightarrow> bool" where
  "data_excl m pd \<longleftrightarrow> data_ok m pd \<and>
     (\<forall>i<512. \<forall>j<512. \<forall>k<512. valid (leaf m pd i j k) \<longrightarrow> page_ref m (pte_ppn (leaf m pd i j k)) = 1 \<and>
        (\<forall>i'<512. \<forall>j'<512. \<forall>k'<512. valid (leaf m pd i' j' k') \<and>
            pte_ppn (leaf m pd i' j' k') = pte_ppn (leaf m pd i j k) \<longrightarrow> (i', j', k') = (i, j, k)))"

lemma data_exclD:
  assumes "data_excl m pd" "i < 512" "j < 512" "k < 512" "valid (leaf m pd i j k)"
  shows "pte_ppn (leaf m pd i j k) < npage m" "pte_ppn (leaf m pd i j k) \<notin> set (free_pg m)"
    "pte_ppn (leaf m pd i j k) \<notin> tables m pd" "page_ref m (pte_ppn (leaf m pd i j k)) = 1"
    "i' < 512 \<Longrightarrow> j' < 512 \<Longrightarrow> k' < 512 \<Longrightarrow> valid (leaf m pd i' j' k') \<Longrightarrow>
       pte_ppn (leaf m pd i' j' k') = pte_ppn (leaf m pd i j k) \<Longrightarrow> i' = i \<and> j' = j \<and> k' = k"
  using assms unfolding data_excl_def data_ok_def by simp_all

text \<open>Addresses by page number.\<close>

definition va :: "nat \<Rightarrow> 64 word" where "va a = of_nat (4096 * a)"

definition pleaf :: "pmem \<Rightarrow> nat \<Rightarrow> nat \<Rightarrow> 64 word" where
  "pleaf m pd a = leaf m pd (a div 262144) (a div 512 mod 512) (a mod 512)"

lemma unat_va: "a < 2 ^ 40 \<Longrightarrow> unat (va a) = 4096 * a"
  unfolding va_def unat_of_nat by simp

lemma field_nat: "unat (drop_bit n w AND 0x1FF) = unat (w :: 64 word) div 2 ^ n mod 512"
proof -
  have m: "(0x1FF :: 64 word) = mask 9" by (simp add: mask_eq_exp_minus_1)
  have "drop_bit n w AND 0x1FF = drop_bit n w mod 512"
    unfolding m take_bit_eq_mask [symmetric] take_bit_eq_mod by simp
  then show ?thesis unfolding unat_mod unat_drop_bit_eq by (simp add: unat_mod unat_drop_bit_eq) (simp add: drop_bit_eq_div)
qed

lemma va_index:
  assumes "a < 2 ^ 27"
  shows "PDX1 (va a) = a div 262144" "PDX0 (va a) = a div 512 mod 512" "PTX (va a) = a mod 512"
proof -
  have u: "unat (va a) = 4096 * a" using assms by (intro unat_va) simp
  have "4096 * a div 2 ^ 30 = a div 262144" "4096 * a div 2 ^ 21 = a div 512" "4096 * a div 2 ^ 12 = a"
    using div_mult_mult1 [of 4096 a 262144] div_mult_mult1 [of 4096 a 512] by simp_all
  moreover have "a div 262144 < 512" using assms by (simp add: less_mult_imp_div_less)
  ultimately show "PDX1 (va a) = a div 262144" "PDX0 (va a) = a div 512 mod 512" "PTX (va a) = a mod 512"
    unfolding PDX1_def PDX0_def PTX_def field_nat u by simp_all
qed

lemma va_less: "a < 2 ^ 40 \<Longrightarrow> b < 2 ^ 40 \<Longrightarrow> va a < va b \<longleftrightarrow> a < b"
  by (simp add: word_less_nat_alt unat_va)

lemma va_nonzero: "0 < a \<Longrightarrow> a < 2 ^ 40 \<Longrightarrow> va a \<noteq> 0"
  using unat_va [of a] by auto

lemma va_next: "va a + PGSIZE = va (a + 1)"
  by (simp add: va_def PGSIZE_def algebra_simps)

lemma skip_arith: "a = 512 * q + r \<Longrightarrow> 4096 * (a + 512) - 4096 * r = 4096 * (512 * (q + 1))" for a :: nat
  by simp

lemma va_skip:
  assumes "a < 2 ^ 30"
  shows "ROUNDDOWN (va a + PTSIZE) PTSIZE = va (512 * (a div 512 + 1))"
proof -
  have e: "va a + PTSIZE = va (a + 512)" by (simp add: va_def PTSIZE_def algebra_simps)
  have u: "unat (va (a + 512)) = 4096 * (a + 512)" using assms by (intro unat_va) simp
  have "va (a + 512) mod PTSIZE = of_nat (4096 * (a + 512) mod 0x200000)"
    by (simp add: word_arith_nat_mod u PTSIZE_def)
  moreover have "4096 * (a + 512) mod 0x200000 = 4096 * (a mod 512)"
    using mult_mod_right [of 4096 "a + 512" 512] by simp
  ultimately have "ROUNDDOWN (va a + PTSIZE) PTSIZE = of_nat (4096 * (a + 512)) - of_nat (4096 * (a mod 512))"
    unfolding ROUNDDOWN_def e by (simp add: va_def)
  also have "\<dots> = of_nat (4096 * (a + 512) - 4096 * (a mod 512))" by (rule of_nat_diff [symmetric]) simp
  also have "4096 * (a + 512) - 4096 * (a mod 512) = 4096 * (512 * (a div 512 + 1))"
    by (rule skip_arith) simp
  finally show ?thesis by (simp add: va_def)
qed

lemma pleaf_same_table:
  assumes "a div 512 = c div 512" "t0 m pd (a div 262144) (a div 512 mod 512) = None"
  shows "pleaf m pd c = 0"
proof -
  have "c div 262144 = a div 262144"
    using assms(1) div_mult2_eq [of a 512 512] div_mult2_eq [of c 512 512] by simp
  then show ?thesis using assms by (simp add: pleaf_def leaf_def)
qed

lemma page_index_bounds: "a < 134217728 \<Longrightarrow> a div 262144 < (512 :: nat)"
  by (simp add: less_mult_imp_div_less)

lemma page_index_inject:
  "a div 262144 = b div 262144 \<Longrightarrow> a div 512 mod 512 = b div 512 mod 512 \<Longrightarrow> a mod 512 = b mod 512 \<Longrightarrow> a = (b :: nat)"
proof -
  assume h: "a div 262144 = b div 262144" "a div 512 mod 512 = b div 512 mod 512" "a mod 512 = b mod 512"
  have "x div 512 = 512 * (x div 262144) + x div 512 mod 512" for x :: nat
    using div_mult2_eq [of x 512 512] by simp
  then have "a div 512 = b div 512" using h by metis
  then show "a = b" using h(3) by (metis div_mult_mod_eq)
qed

text \<open>The addresses, by page number, at which a page is mapped, and the pages mapped in a range.\<close>

definition mappings :: "pmem \<Rightarrow> nat \<Rightarrow> nat \<Rightarrow> nat \<Rightarrow> nat \<Rightarrow> nat set" where
  "mappings m pd a b p = {c\<in>{a..<b}. valid (pleaf m pd c) \<and> pte_ppn (pleaf m pd c) = p}"

lemma mappings_finite [simp]: "finite (mappings m pd a b p)"
  by (simp add: mappings_def)

text \<open>A mapped page has at least the references of its mappings; other directories may refer to it as well.\<close>

definition data_refs :: "pmem \<Rightarrow> nat \<Rightarrow> bool" where
  "data_refs m pd \<longleftrightarrow> data_ok m pd \<and>
     (\<forall>p. mappings m pd 0 (2 ^ 27) p \<noteq> {} \<longrightarrow> int (card (mappings m pd 0 (2 ^ 27) p)) \<le> page_ref m p)"

lemma leaf_pleaf:
  assumes "i < 512" "j < 512" "k < 512"
  shows "leaf m pd i j k = pleaf m pd (262144 * i + 512 * j + k)" "262144 * i + 512 * j + k < 2 ^ 27"
proof -
  have "512 * j + k < 262144" using assms(2,3) by simp
  then have "(262144 * i + 512 * j + k) div 262144 = i" using div_mult_self4 [of 262144 "512 * j + k" i] by (simp add: add.assoc)
  moreover have "(262144 * i + 512 * j + k) div 512 = 512 * i + j" using assms(3) by simp
  then have "(262144 * i + 512 * j + k) div 512 mod 512 = j" using assms(2) by simp
  moreover have "(262144 * i + 512 * j + k) mod 512 = k"
    using mod_mult_self4 [of 512 "512 * i + j" k] assms(3) by (simp add: algebra_simps)
  ultimately show "leaf m pd i j k = pleaf m pd (262144 * i + 512 * j + k)" by (simp add: pleaf_def)
  show "262144 * i + 512 * j + k < 2 ^ 27" using assms by simp
qed

lemma data_ok_pages:
  "data_ok m pd \<longleftrightarrow> (\<forall>c<2 ^ 27. valid (pleaf m pd c) \<longrightarrow> pte_ppn (pleaf m pd c) < npage m \<and>
     pte_ppn (pleaf m pd c) \<notin> set (free_pg m) \<and> pte_ppn (pleaf m pd c) \<notin> tables m pd)"
proof
  assume d: "data_ok m pd"
  show "\<forall>c<2 ^ 27. valid (pleaf m pd c) \<longrightarrow> pte_ppn (pleaf m pd c) < npage m \<and>
     pte_ppn (pleaf m pd c) \<notin> set (free_pg m) \<and> pte_ppn (pleaf m pd c) \<notin> tables m pd"
    using d page_index_bounds by (simp add: data_ok_def pleaf_def)
next
  assume "\<forall>c<2 ^ 27. valid (pleaf m pd c) \<longrightarrow> pte_ppn (pleaf m pd c) < npage m \<and>
     pte_ppn (pleaf m pd c) \<notin> set (free_pg m) \<and> pte_ppn (pleaf m pd c) \<notin> tables m pd"
  then show "data_ok m pd" unfolding data_ok_def by (simp add: leaf_pleaf(1) leaf_pleaf(2) [simplified])
qed

lemma data_refsD:
  assumes "data_refs m pd" and "c < 2 ^ 27" and "valid (pleaf m pd c)"
  shows "pte_ppn (pleaf m pd c) < npage m" "pte_ppn (pleaf m pd c) \<notin> set (free_pg m)" "pte_ppn (pleaf m pd c) \<notin> tables m pd"
    "d < 2 ^ 27 \<Longrightarrow> valid (pleaf m pd d) \<Longrightarrow> pte_ppn (pleaf m pd d) = pte_ppn (pleaf m pd c) \<Longrightarrow> d \<noteq> c \<Longrightarrow>
       1 < page_ref m (pte_ppn (pleaf m pd c))"
proof -
  show "pte_ppn (pleaf m pd c) < npage m" "pte_ppn (pleaf m pd c) \<notin> set (free_pg m)" "pte_ppn (pleaf m pd c) \<notin> tables m pd"
    using assms unfolding data_refs_def data_ok_pages by blast+
  assume d: "d < 2 ^ 27" "valid (pleaf m pd d)" "pte_ppn (pleaf m pd d) = pte_ppn (pleaf m pd c)" "d \<noteq> c"
  let ?S = "mappings m pd 0 (2 ^ 27) (pte_ppn (pleaf m pd c))"
  have "{c, d} \<subseteq> ?S" using d assms(2,3) by (simp add: mappings_def)
  then have "card {c, d} \<le> card ?S" "?S \<noteq> {}" by (auto intro: card_mono)
  then show "1 < page_ref m (pte_ppn (pleaf m pd c))" using assms(1) d(4) by (fastforce simp: data_refs_def)
qed

lemma data_excl_refs: "data_excl m pd \<Longrightarrow> data_refs m pd"
proof -
  assume ex: "data_excl m pd"
  have "card (mappings m pd 0 (2 ^ 27) p) \<le> 1 \<and> page_ref m p = 1" if "c \<in> mappings m pd 0 (2 ^ 27) p" for c p
  proof -
    have c: "c < 2 ^ 27" "valid (pleaf m pd c)" "pte_ppn (pleaf m pd c) = p" using that by (simp_all add: mappings_def)
    have ib: "c div 262144 < 512" "c div 512 mod 512 < 512" "c mod 512 < 512" using c(1) page_index_bounds by simp_all
    note D = data_exclD [OF ex ib c(2) [unfolded pleaf_def]]
    have "d = c" if d: "d \<in> mappings m pd 0 (2 ^ 27) p" for d
    proof (rule page_index_inject)
      have e: "d div 262144 < 512" "valid (leaf m pd (d div 262144) (d div 512 mod 512) (d mod 512))"
        "pte_ppn (leaf m pd (d div 262144) (d div 512 mod 512) (d mod 512)) =
         pte_ppn (leaf m pd (c div 262144) (c div 512 mod 512) (c mod 512))"
        using d c(3) page_index_bounds by (simp_all add: mappings_def pleaf_def)
      show "d div 262144 = c div 262144" "d div 512 mod 512 = c div 512 mod 512" "d mod 512 = c mod 512"
        using D(5) [OF e(1) _ _ e(2,3)] by simp_all
    qed
    then have "mappings m pd 0 (2 ^ 27) p \<subseteq> {c}" by blast
    then have "card (mappings m pd 0 (2 ^ 27) p) \<le> 1" using card_mono [of "{c}"] by fastforce
    then show ?thesis using D(4) c(3) by (simp add: pleaf_def)
  qed
  moreover have "data_ok m pd" using ex by (simp add: data_excl_def)
  ultimately show "data_refs m pd" unfolding data_refs_def by fastforce
qed

lemma page_remove_pte_spec:
  assumes ok: "pt_ok m pd" and rf: "data_refs m pd" and a: "a < 2 ^ 27" "t0 m pd (a div 262144) (a div 512 mod 512) = Some f"
  shows "\<exists>m'. page_remove_pte (f, a mod 512) m = Some m' \<and> pt_ok m' pd \<and> data_refs m' pd \<and> npage m' = npage m \<and>
    tables m' pd = tables m pd \<and>
    (\<forall>c<2 ^ 27. pleaf m' pd c = (if c = a \<and> valid (pleaf m pd a) then 0 else pleaf m pd c)) \<and>
    (\<forall>p. page_ref m' p = page_ref m p - (if valid (pleaf m pd a) \<and> pte_ppn (pleaf m pd a) = p then 1 else 0)) \<and>
    set (free_pg m') = set (free_pg m) \<union>
      (if valid (pleaf m pd a) \<and> page_ref m (pte_ppn (pleaf m pd a)) = 1 then {pte_ppn (pleaf m pd a)} else {})"
proof -
  have lf: "pleaf m pd a = fr m f (a mod 512)" using a(2) by (simp add: pleaf_def leaf_def)
  have ib: "a div 262144 < 512" "a div 512 mod 512 < 512" using a(1) page_index_bounds by simp_all
  show ?thesis
  proof (cases "valid (pleaf m pd a)")
    case False
    then show ?thesis using ok rf lf by (intro exI [of _ m]) (auto simp: page_remove_pte_def get_pte_at_def)
  next
    case True
    define p where "p = pte_ppn (pleaf m pd a)"
    note P = data_refsD [OF rf a(1) True, folded p_def]
    define q where "q = (if page_ref m p = 1 then free_page p (page_ref_dec p m) else page_ref_dec p m)"
    let ?m' = "set_pte (f, a mod 512) 0 q"
    have fp: "fr q = fr m" "npage q = npage m" "distinct (free_pg q)"
      "set (free_pg q) = set (free_pg m) \<union> (if page_ref m p = 1 then {p} else {})" "page_ref q = (page_ref m)(p := page_ref m p - 1)"
      using pt_okD(2) [OF ok] P(2) by (simp_all add: q_def free_page_set page_ref_dec_def set_page_ref_def)
    have fo: "h \<in> set (free_pg q) \<Longrightarrow> h < npage m \<and> h \<notin> tables m pd" for h
      using fp(4) P(1,3) pt_okD(3,5) [OF ok] by (auto split: if_splits)
    have o: "pt_ok q pd" "\<And>i j. t0 q pd i j = t0 m pd i j" "\<And>i j k. leaf q pd i j k = leaf m pd i j k"
      "tables q pd = tables m pd" by (rule pt_ok_outside [OF ok fp(1-3)], erule fo)+
    have t: "t0 q pd (a div 262144) (a div 512 mod 512) = Some f" using o(2) a(2) by simp
    note sl = set_leaf [OF o(1) ib t, where k = "a mod 512" and e = 0]
    have run: "page_remove_pte (f, a mod 512) m = Some ?m'"
      using True P(1) unfolding lf p_def
      by (simp add: page_remove_pte_def get_pte_at_def pte2page_def pa2page_def pte_ppn_def q_def p_def lf
          page_ref_dec_def set_page_ref_def Let_def)
    have pl: "pleaf ?m' pd c = (if c = a then 0 else pleaf m pd c)" if "c < 2 ^ 27" for c
    proof -
      have "c div 262144 < 512" "c div 512 mod 512 < 512" using that page_index_bounds by simp_all
      from sl(3) [OF this] show ?thesis using page_index_inject [of c a] o(3) unfolding pleaf_def by auto
    qed
    have np: "npage ?m' = npage m" "free_pg ?m' = free_pg q" "page_ref ?m' = page_ref q" "tables ?m' pd = tables m pd"
      using fp sl(4) o(4) by simp_all
    have mp: "mappings ?m' pd 0 (2 ^ 27) x = mappings m pd 0 (2 ^ 27) x - {a}" for x
      using pl by (auto simp: mappings_def split: if_splits)
    have "data_refs ?m' pd"
      unfolding data_refs_def data_ok_pages
    proof (intro conjI allI impI)
      fix c :: nat assume c: "c < 2 ^ 27" "valid (pleaf ?m' pd c)"
      have ne: "c \<noteq> a" "valid (pleaf m pd c)" "pleaf ?m' pd c = pleaf m pd c" using c pl [OF c(1)] by (auto split: if_splits)
      note Q = data_refsD [OF rf c(1) ne(2)]
      show "pte_ppn (pleaf ?m' pd c) < npage ?m'" "pte_ppn (pleaf ?m' pd c) \<notin> tables ?m' pd" using Q(1,3) ne np by simp_all
      show "pte_ppn (pleaf ?m' pd c) \<notin> set (free_pg ?m')" using Q(2) P(4) [OF c(1) ne(2)] ne np fp(4) by auto
    next
      fix x assume x: "mappings ?m' pd 0 (2 ^ 27) x \<noteq> {}"
      then have "int (card (mappings m pd 0 (2 ^ 27) x)) \<le> page_ref m x" using rf mp by (auto simp: data_refs_def)
      moreover have "card (mappings m pd 0 (2 ^ 27) x - {a}) = card (mappings m pd 0 (2 ^ 27) x) - 1 \<and>
          0 < card (mappings m pd 0 (2 ^ 27) x)" if "x = p"
        using that a(1) True by (auto simp: mappings_def p_def card_gt_0_iff)
      moreover have "mappings m pd 0 (2 ^ 27) x - {a} = mappings m pd 0 (2 ^ 27) x" if "x \<noteq> p"
        using that by (auto simp: mappings_def p_def)
      ultimately show "int (card (mappings ?m' pd 0 (2 ^ 27) x)) \<le> page_ref ?m' x"
        unfolding mp np fp by (cases "x = p") auto
    qed
    then show ?thesis
      using run sl(5) np pl True fp(4,5) by (intro exI [of _ ?m'] conjI allI) (simp_all add: p_def)
  qed
qed

lemma unmap_loop_spec:
  assumes "pt_ok m pd" "data_refs m pd" "a < b" "b \<le> 2 ^ 26" "0 < a"
  shows "\<exists>m'. unmap_loop pd (va a) (va b) m = Some m' \<and> pt_ok m' pd \<and> data_refs m' pd \<and> tables m' pd = tables m pd \<and>
    (\<forall>c<2 ^ 27. pleaf m' pd c = (if a \<le> c \<and> c < b \<and> valid (pleaf m pd c) then 0 else pleaf m pd c)) \<and>
    (\<forall>p. page_ref m' p = page_ref m p - int (card (mappings m pd a b p))) \<and>
    set (free_pg m') = set (free_pg m) \<union> {p. mappings m pd a b p \<noteq> {} \<and> page_ref m p = int (card (mappings m pd a b p))}"
  using assms
proof (induction "b - a" arbitrary: a m rule: less_induct)
  case less
  have a27: "a < 2 ^ 27" using less.prems(3,4) by simp
  note ix = va_index [OF a27]
  have g: "get_pte pd (va a) False m =
      Some (map_option (\<lambda>f. (f, a mod 512)) (t0 m pd (a div 262144) (a div 512 mod 512)), m)"
    using get_pte_lookup [OF less.prems(1), of "va a"] ix by simp
  show ?case
  proof (cases "t0 m pd (a div 262144) (a div 512 mod 512)")
    case None
    let ?n = "512 * (a div 512 + 1)"
    have n: "a < ?n" "?n \<le> a + 512" using mod_less_divisor [of 512 a] mult_div_mod_eq [of 512 a] by simp_all
    have z: "pleaf m pd c = 0" if "a \<le> c" "c < ?n" for c
    proof (rule pleaf_same_table [OF _ None])
      have "a div 512 \<le> c div 512" using that(1) by (rule div_le_mono)
      moreover have "c div 512 < a div 512 + 1" using that(2) by (simp add: less_mult_imp_div_less)
      ultimately show "a div 512 = c div 512" by simp
    qed
    have step: "unmap_loop pd (va a) (va b) m = (if ?n < b then unmap_loop pd (va ?n) (va b) m else Some m)"
      using g None va_skip [of a] va_less [of ?n b] va_nonzero [of ?n] n less.prems(3,4)
      by (subst unmap_loop.simps) simp
    show ?thesis
    proof (cases "?n < b")
      case False
      have "mappings m pd a b p = {}" for p using z False by (fastforce simp: mappings_def)
      moreover have "pleaf m pd c = (if a \<le> c \<and> c < b \<and> valid (pleaf m pd c) then 0 else pleaf m pd c)" for c
        using z [of c] False by auto
      ultimately show ?thesis using step False less.prems by (intro exI [of _ m]) simp
    next
      case True
      have "?n \<le> c" if "a \<le> c" "valid (pleaf m pd c)" for c using z [of c] that by force
      then have mp: "mappings m pd a b p = mappings m pd ?n b p" for p using n(1) by (auto simp: mappings_def)
      have "b - ?n < b - a" using n(1) True by simp
      from less.hyps [OF this less.prems(1,2) True less.prems(4)] obtain m' where
        m': "unmap_loop pd (va ?n) (va b) m = Some m'" "pt_ok m' pd" "data_refs m' pd" "tables m' pd = tables m pd"
        "\<forall>c<2 ^ 27. pleaf m' pd c = (if ?n \<le> c \<and> c < b \<and> valid (pleaf m pd c) then 0 else pleaf m pd c)"
        "\<forall>p. page_ref m' p = page_ref m p - int (card (mappings m pd a b p))"
        "set (free_pg m') = set (free_pg m) \<union> {p. mappings m pd a b p \<noteq> {} \<and> page_ref m p = int (card (mappings m pd a b p))}"
        unfolding mp by auto
      have "pleaf m' pd c = (if a \<le> c \<and> c < b \<and> valid (pleaf m pd c) then 0 else pleaf m pd c)" if "c < 2 ^ 27" for c
        using m'(5) z [of c] n(1) that by auto
      then show ?thesis using step True m' by (intro exI [of _ m']) simp
    qed
  next
    case (Some f)
    obtain m1 where m1: "page_remove_pte (f, a mod 512) m = Some m1" "pt_ok m1 pd" "data_refs m1 pd" "npage m1 = npage m"
      "tables m1 pd = tables m pd"
      "\<And>c. c < 2 ^ 27 \<Longrightarrow> pleaf m1 pd c = (if c = a \<and> valid (pleaf m pd a) then 0 else pleaf m pd c)"
      "\<And>p. page_ref m1 p = page_ref m p - (if valid (pleaf m pd a) \<and> pte_ppn (pleaf m pd a) = p then 1 else 0)"
      "set (free_pg m1) = set (free_pg m) \<union>
        (if valid (pleaf m pd a) \<and> page_ref m (pte_ppn (pleaf m pd a)) = 1 then {pte_ppn (pleaf m pd a)} else {})"
      using page_remove_pte_spec [OF less.prems(1,2) a27 Some] by blast
    have rm: "(if get_pte_at (f, a mod 512) m \<noteq> 0 then page_remove_pte (f, a mod 512) m else Some m) = Some m1"
    proof (cases "get_pte_at (f, a mod 512) m = 0")
      case True
      then have "page_remove_pte (f, a mod 512) m = Some m" by (simp add: page_remove_pte_def)
      then show ?thesis using True m1(1) by simp
    qed (use m1(1) in simp)
    have step: "unmap_loop pd (va a) (va b) m = (if a + 1 < b then unmap_loop pd (va (a + 1)) (va b) m1 else Some m1)"
      using g Some rm va_next [of a] va_less [of "a + 1" b] va_nonzero [of "a + 1"] less.prems(3,4)
      by (subst unmap_loop.simps) simp
    have here: "a \<in> mappings m pd a b (pte_ppn (pleaf m pd a)) \<longleftrightarrow> valid (pleaf m pd a)"
      using less.prems(3) by (simp add: mappings_def)
    have mp: "mappings m pd a b p = (if valid (pleaf m pd a) \<and> pte_ppn (pleaf m pd a) = p then {a} else {}) \<union> mappings m1 pd (a + 1) b p" for p
    proof -
      have same: "pleaf m1 pd c = pleaf m pd c" if "a + 1 \<le> c" "c < b" for c using m1(6) [of c] that less.prems(4) by simp
      have "{a..<b} = insert a {a + 1..<b}" using less.prems(3) by auto
      then show ?thesis using same by (auto simp: mappings_def)
    qed
    have cd: "int (card (mappings m pd a b p)) =
        (if valid (pleaf m pd a) \<and> pte_ppn (pleaf m pd a) = p then 1 else 0) + int (card (mappings m1 pd (a + 1) b p))" for p
    proof -
      have "a \<notin> mappings m1 pd (a + 1) b p" by (simp add: mappings_def)
      then show ?thesis unfolding mp by simp
    qed
    have last_ref: "mappings m1 pd (a + 1) b (pte_ppn (pleaf m pd a)) = {}"
      if "valid (pleaf m pd a)" "page_ref m (pte_ppn (pleaf m pd a)) = 1"
    proof (rule ccontr)
      assume "mappings m1 pd (a + 1) b (pte_ppn (pleaf m pd a)) \<noteq> {}"
      then obtain d where d: "a + 1 \<le> d" "d < b" "valid (pleaf m1 pd d)" "pte_ppn (pleaf m1 pd d) = pte_ppn (pleaf m pd a)"
        by (auto simp: mappings_def)
      moreover have "d < 2 ^ 27" using d(2) less.prems(4) by simp
      ultimately show False using data_refsD(4) [OF less.prems(2) a27 that(1), of d] m1(6) [of d] that(2) by simp
    qed
    have freed: "{p. mappings m pd a b p \<noteq> {} \<and> page_ref m p = int (card (mappings m pd a b p))} =
       (if valid (pleaf m pd a) \<and> page_ref m (pte_ppn (pleaf m pd a)) = 1 then {pte_ppn (pleaf m pd a)} else {}) \<union>
       {p. mappings m1 pd (a + 1) b p \<noteq> {} \<and> page_ref m1 p = int (card (mappings m1 pd (a + 1) b p))}"
    proof (rule set_eqI)
      fix p
      show "p \<in> {p. mappings m pd a b p \<noteq> {} \<and> page_ref m p = int (card (mappings m pd a b p))} \<longleftrightarrow>
        p \<in> (if valid (pleaf m pd a) \<and> page_ref m (pte_ppn (pleaf m pd a)) = 1 then {pte_ppn (pleaf m pd a)} else {}) \<union>
          {p. mappings m1 pd (a + 1) b p \<noteq> {} \<and> page_ref m1 p = int (card (mappings m1 pd (a + 1) b p))}"
      proof (cases "valid (pleaf m pd a) \<and> pte_ppn (pleaf m pd a) = p")
        case True
        then show ?thesis using mp [of p] cd [of p] m1(7) [of p] last_ref
          by (cases "mappings m1 pd (a + 1) b p = {}") auto
      next
        case False
        then show ?thesis using mp [of p] m1(7) [of p] by auto
      qed
    qed
    show ?thesis
    proof (cases "a + 1 < b")
      case False
      then have b: "b = a + 1" using less.prems(3) by simp
      then have none: "mappings m1 pd (a + 1) b p = {}" for p by (auto simp: mappings_def)
      have "pleaf m1 pd c = (if a \<le> c \<and> c < b \<and> valid (pleaf m pd c) then 0 else pleaf m pd c)" if "c < 2 ^ 27" for c
        using m1(6) [OF that] b by (cases "c = a") auto
      moreover have "page_ref m1 p = page_ref m p - int (card (mappings m pd a b p))" for p using cd [of p] none m1(7) by simp
      ultimately show ?thesis using step False m1(2,3,5,8) freed none by (intro exI [of _ m1]) simp
    next
      case True
      have "b - (a + 1) < b - a" using True by simp
      from less.hyps [OF this m1(2,3) True less.prems(4)] obtain m' where
        m': "unmap_loop pd (va (a + 1)) (va b) m1 = Some m'" "pt_ok m' pd" "data_refs m' pd" "tables m' pd = tables m1 pd"
        "\<forall>c<2 ^ 27. pleaf m' pd c = (if a + 1 \<le> c \<and> c < b \<and> valid (pleaf m1 pd c) then 0 else pleaf m1 pd c)"
        "\<And>p. page_ref m' p = page_ref m1 p - int (card (mappings m1 pd (a + 1) b p))"
        "set (free_pg m') = set (free_pg m1) \<union> {p. mappings m1 pd (a + 1) b p \<noteq> {} \<and> page_ref m1 p = int (card (mappings m1 pd (a + 1) b p))}" by auto
      have "pleaf m' pd c = (if a \<le> c \<and> c < b \<and> valid (pleaf m pd c) then 0 else pleaf m pd c)" if "c < 2 ^ 27" for c
        using m'(5) m1(6) [OF that] that True by (cases "c = a") auto
      moreover have "page_ref m' p = page_ref m p - int (card (mappings m pd a b p))" for p
        using m'(6) [of p] m1(7) [of p] cd [of p] by simp
      moreover have "set (free_pg m') = set (free_pg m) \<union> {p. mappings m pd a b p \<noteq> {} \<and> page_ref m p = int (card (mappings m pd a b p))}"
        unfolding m'(7) m1(8) freed by blast
      ultimately show ?thesis using step True m'(1-4) m1(5) by (intro exI [of _ m']) simp
    qed
  qed
qed

text \<open>
  C24: \<^verbatim>\<open>unmap_range\<close> ends and removes exactly the mappings of the user range given: every valid entry
  between \<open>start\<close> and \<open>end\<close> is cleared (page tables that do not exist are skipped over) and no other
  entry changes; the count of every page falls by the number of its mappings in the range, and the pages
  that return to the free list are those, no others, whose last references were in the range.  A page may be
  mapped several times and be shared with other directories: of the counts it is asked only that a mapped page
  has at least one reference for each of its mappings here, besides the tables forming a tree and no mapped page
  being free or a table.
\<close>

theorem unmap_range_correct:
  assumes "pt_ok m pd" and "data_refs m pd" and "512 \<le> a" and "a < b" and "b \<le> 2 ^ 19"
  shows "\<exists>m'. unmap_range pd (va a) (va b) m = Some m' \<and> pt_ok m' pd \<and> data_refs m' pd \<and>
    (\<forall>c<2 ^ 27. pleaf m' pd c = (if a \<le> c \<and> c < b \<and> valid (pleaf m pd c) then 0 else pleaf m pd c)) \<and>
    (\<forall>p. page_ref m' p = page_ref m p - int (card (mappings m pd a b p))) \<and>
    set (free_pg m') = set (free_pg m) \<union> {p. mappings m pd a b p \<noteq> {} \<and> page_ref m p = int (card (mappings m pd a b p))}"
proof -
  have al: "va c mod PGSIZE = 0" if "c < 2 ^ 40" for c
    by (simp add: word_arith_nat_mod unat_va [OF that] PGSIZE_def)
  have "USER_ACCESS (va a) (va b)"
    using assms(3-5) by (simp add: USER_ACCESS_def USERBASE_def USERTOP_def word_le_nat_alt word_less_nat_alt unat_va)
  moreover have "va a mod PGSIZE = 0" "va b mod PGSIZE = 0" using al assms(4,5) by simp_all
  ultimately have "unmap_range pd (va a) (va b) m = unmap_loop pd (va a) (va b) m" by (simp add: unmap_range_def)
  then show ?thesis using unmap_loop_spec [OF assms(1,2,4)] assms(3,5) by auto
qed

section \<open>Freeing page tables\<close>

lemma exit_inner_last:
  assumes "\<not> d0 + PTSIZE < e"
  shows "exit_inner pd0 d1 d0 e fr0 m =
    (if valid (fr m pd0 (PDX0 d0))
     then do {
       pt \<leftarrow> pde2page (fr m pd0 (PDX0 d0)) m;
       Some (fr0, if (\<forall>i\<in>set [0..<512]. \<not> valid (fr m pt i)) then set_pte (pd0, PDX0 d0) 0 (free_page pt m) else m)
     } else Some (False, m))"
  using assms by (subst exit_inner.simps) (simp add: Let_def bind_eq_Some_conv split: option.splits Option.bind_split)

text \<open>
  \<^verbatim>\<open>exit_range\<close> loses page tables: given a range served by one empty page table, it frees that
  table and then the directory above it, although the directory still refers to the page table of
  another range; that table stays allocated while nothing refers to it any more, and the freed
  directory still contains a valid entry.
\<close>

theorem exit_range_loses_table:
  assumes "pt_ok m pd" and "t1 m pd 0 = Some f" and "t0 m pd 0 1 = Some g" and "t0 m pd 0 2 = Some h"
    and "\<forall>k<512. \<not> valid (fr m g k)"
  shows "\<exists>m'. exit_range pd 0x200000 0x400000 m = Some m' \<and> f \<in> set (free_pg m') \<and> g \<in> set (free_pg m') \<and>
    h \<notin> set (free_pg m') \<and> t1 m' pd 0 = None \<and> valid (fr m' f 2) \<and> pte_ppn (fr m' f 2) = h"
proof -
  note D = pt_okD [OF assms(1)]
  have tf: "f \<in> tables m pd" "g \<in> tables m pd" "h \<in> tables m pd"
    using tablesI(2) [of 0 m pd f] tablesI(3) [of 0 1 m pd g] tablesI(3) [of 0 2 m pd h] assms(2-4) by simp_all
  then have nf: "f < npage m" "g < npage m" "f \<notin> set (free_pg m)" "g \<notin> set (free_pg m)" "h \<notin> set (free_pg m)"
    using D(4,5) by blast+
  have ne: "f \<noteq> pd" "g \<noteq> pd" "f \<noteq> g" "h \<noteq> f" "h \<noteq> g"
    using D(6) [of 0] D(7) [of 0 1] D(8) [of 0 1 0 g] D(8) [of 0 2 0 h] D(10) [of 0 1 0 2 g] assms(2-4) by auto
  have e: "valid (fr m pd 0)" "pte_ppn (fr m pd 0) = f" "valid (fr m f 1)" "pte_ppn (fr m f 1) = g"
    "valid (fr m f 2)" "pte_ppn (fr m f 2) = h"
    using assms(2-4) by (auto simp: t0_def t1_def split: if_splits)
  have ix: "PDX0 0x200000 = 1" "PDX1 0 = 0" by (simp_all add: PDX0_def PDX1_def)
  have rd: "ROUNDDOWN 0x200000 PDSIZE = 0" "ROUNDDOWN 0x200000 PTSIZE = 0x200000"
    by (simp_all add: ROUNDDOWN_def PDSIZE_def PTSIZE_def)
  have pg: "pde2page (fr m f 1) m = Some g" "pde2page (fr m pd 0) m = Some f"
    using e nf by (simp_all add: pde2page_def pa2page_def pte_ppn_def)
  let ?m1 = "set_pte (f, 1) 0 (free_page g m)"
  have inner: "exit_inner f 0 0x200000 0x400000 True m = Some (True, ?m1)"
    using e(3) pg(1) assms(5) by (subst exit_inner_last) (simp_all add: PTSIZE_def ix)
  let ?m2 = "set_pte (pd, 0) 0 (free_page f ?m1)"
  have "exit_loop pd 0 0x200000 0x400000 m = Some ?m2"
    using e(1) pg(2) inner by (subst exit_loop.simps) (simp add: ix PDSIZE_def)
  then have "exit_range pd 0x200000 0x400000 m = Some ?m2"
    by (simp add: exit_range_def PGSIZE_def USER_ACCESS_def USERBASE_def USERTOP_def rd)
  moreover have "t1 ?m2 pd 0 = None" by (simp add: t1_def set_pte_def)
  moreover have "fr ?m2 f 2 = fr m f 2" using ne by (simp add: set_pte_def free_page_set)
  ultimately show ?thesis using e nf ne by (intro exI [of _ ?m2]) (simp add: free_page_set)
qed

section \<open>Witnesses\<close>

text \<open>Directory 10, second level 11, page tables 12 and 13; page 20 is mapped at page number 512.\<close>

definition demo_mem :: pmem where
  "demo_mem =
     \<lparr>fr = (\<lambda>f k. if f = 10 \<and> k = 0 then pte_create 11 (PTE_U OR PTE_V)
                 else if f = 11 \<and> k = 1 then pte_create 12 (PTE_U OR PTE_V)
                 else if f = 11 \<and> k = 2 then pte_create 13 (PTE_U OR PTE_V)
                 else if f = 12 \<and> k = 0 then pte_create 20 PTE_USER else 0),
      page_ref = (\<lambda>p. if p = 20 then 1 else 0), free_pg = [50, 51, 52], npage = 100\<rparr>"

lemma demo_ppn:
  "pte_ppn (pte_create 11 (PTE_U OR PTE_V)) = 11" "pte_ppn (pte_create 12 (PTE_U OR PTE_V)) = 12"
  "pte_ppn (pte_create 13 (PTE_U OR PTE_V)) = 13" "pte_ppn (pte_create 20 PTE_USER) = 20"
proof -
  have u: "PTE_USER AND NOT 0x3FF = 0" by (simp add: mmu_consts)
  show "pte_ppn (pte_create 11 (PTE_U OR PTE_V)) = 11" "pte_ppn (pte_create 12 (PTE_U OR PTE_V)) = 12"
    "pte_ppn (pte_create 13 (PTE_U OR PTE_V)) = 13" "pte_ppn (pte_create 20 PTE_USER) = 20"
    by (rule pte_ppn_create [OF _ table_perm] pte_ppn_create [OF _ u]; simp)+
qed

lemma demo_tables:
  "t1 demo_mem 10 i = (if i = 0 then Some 11 else None)"
  "t0 demo_mem 10 i j = (if i = 0 \<and> j = 1 then Some 12 else if i = 0 \<and> j = 2 then Some 13 else None)"
  "leaf demo_mem 10 i j k = (if i = 0 \<and> j = 1 \<and> k = 0 then pte_create 20 PTE_USER else 0)"
  "tables demo_mem 10 = {10, 11, 12, 13}"
proof -
  show 1: "t1 demo_mem 10 i = (if i = 0 then Some 11 else None)" for i by (simp add: t1_def demo_mem_def demo_ppn)
  have 2: "t1 demo_mem 11 j = (if j = 1 then Some 12 else if j = 2 then Some 13 else None)" for j
    by (simp add: t1_def demo_mem_def demo_ppn)
  show 3: "t0 demo_mem 10 i j = (if i = 0 \<and> j = 1 then Some 12 else if i = 0 \<and> j = 2 then Some 13 else None)" for i j
    using 1 2 by (simp add: t0_def)
  show "leaf demo_mem 10 i j k = (if i = 0 \<and> j = 1 \<and> k = 0 then pte_create 20 PTE_USER else 0)"
    by (simp add: leaf_def 3) (simp add: demo_mem_def)
  have "{f. \<exists>i<512. t1 demo_mem 10 i = Some f} = {11}" by (auto simp: 1 intro: exI [of _ 0])
  moreover have "{g. \<exists>i<512. \<exists>j<512. t0 demo_mem 10 i j = Some g} = {12, 13}"
  proof -
    have "t0 demo_mem 10 0 1 = Some 12" "t0 demo_mem 10 0 2 = Some 13" by (simp_all add: 3)
    moreover have "(0 :: nat) < 512" "(1 :: nat) < 512" "(2 :: nat) < 512" by simp_all
    ultimately have a: "{12, 13} \<subseteq> {g. \<exists>i<512. \<exists>j<512. t0 demo_mem 10 i j = Some g}" by blast
    have "{g. \<exists>i<512. \<exists>j<512. t0 demo_mem 10 i j = Some g} \<subseteq> {12, 13}" by (auto simp: 3 split: if_splits)
    then show ?thesis using a by (rule equalityI)
  qed
  ultimately show "tables demo_mem 10 = {10, 11, 12, 13}" by (simp add: tables_def insert_commute)
qed

lemma demo_mem_fields: "free_pg demo_mem = [50, 51, 52]" "npage demo_mem = 100" "page_ref demo_mem 20 = 1"
  by (simp_all add: demo_mem_def)

lemma demo_pt_ok: "pt_ok demo_mem 10"
  by (rule pt_okI) (auto simp: demo_tables demo_mem_fields split: if_splits)

lemma demo_data_excl: "data_excl demo_mem 10"
  by (auto simp: data_excl_def data_ok_def demo_tables demo_ppn demo_mem_fields split: if_splits)

theorem page_insert_lookup_witness:
  "\<exists>m' a. page_insert 10 30 0x201000 PTE_USER demo_mem = Some (0, m') \<and> get_page 10 0x201000 m' = Some (Some 30, Some a)"
proof -
  have ix: "PDX1 0x201000 = 0" "PDX0 0x201000 = 1" "PTX 0x201000 = 1" by (simp_all add: PDX1_def PDX0_def PTX_def)
  have "pt_level (10, 0) True demo_mem = Some (Some 11, demo_mem)"
    by (rule pt_level_found) (simp_all add: demo_tables demo_mem_fields)
  moreover have "pt_level (11, 1) True demo_mem = Some (Some 12, demo_mem)"
    by (rule pt_level_found) (simp_all add: t1_def demo_mem_def demo_ppn)
  ultimately have "get_pte 10 0x201000 True demo_mem = Some (Some (12, 1), demo_mem)"
    by (simp add: get_pte_def ix)
  then obtain m' where m': "page_insert 10 30 0x201000 PTE_USER demo_mem = Some (0, m')"
    by (simp add: page_insert_def get_pte_at_def page_ref_inc_def set_page_ref_def demo_mem_def)
  have "data_ok demo_mem 10" using demo_data_excl by (simp add: data_excl_def)
  then show ?thesis
    using page_insert_lookup [OF demo_pt_ok, of 30 PTE_USER "0x201000"] m'
    by (auto simp: demo_tables demo_mem_fields mmu_consts)
qed

lemma demo_mappings: "mappings demo_mem 10 512 1024 p = (if p = 20 then {512} else {})"
proof -
  have "c = 512" if "512 \<le> c" "c < 1024" "c mod 512 = 0" for c :: nat
  proof -
    have "c div 512 = 1" using that(1,2) div_le_mono [of 512 c 512] less_mult_imp_div_less [of c 2 512] by simp
    then show ?thesis using that(3) mult_div_mod_eq [of 512 c] by simp
  qed
  moreover have "valid (pleaf demo_mem 10 c) \<longleftrightarrow> c mod 512 = 0" "valid (pleaf demo_mem 10 c) \<Longrightarrow> pte_ppn (pleaf demo_mem 10 c) = 20"
    if "512 \<le> c" "c < 1024" for c
  proof -
    have "c div 262144 = 0" "c div 512 mod 512 = 1" using that div_le_mono [of 512 c 512] less_mult_imp_div_less [of c 2 512] by simp_all
    then show "valid (pleaf demo_mem 10 c) \<longleftrightarrow> c mod 512 = 0" "valid (pleaf demo_mem 10 c) \<Longrightarrow> pte_ppn (pleaf demo_mem 10 c) = 20"
      by (auto simp: pleaf_def demo_tables demo_ppn split: if_splits)
  qed
  ultimately show ?thesis by (auto simp: mappings_def)
qed

text \<open>The same memory with a second reference to page 20, from another directory.\<close>

definition demo_shared :: pmem where "demo_shared = demo_mem\<lparr>page_ref := (page_ref demo_mem)(20 := 2)\<rparr>"

lemma demo_shared_fields: "free_pg demo_shared = [50, 51, 52]" "page_ref demo_shared = (page_ref demo_mem)(20 := 2)"
  by (simp_all add: demo_shared_def demo_mem_fields)

lemma demo_shared_ok: "pt_ok demo_shared 10" "data_refs demo_shared 10" "mappings demo_shared 10 a b p = mappings demo_mem 10 a b p"
proof -
  have o: "fr demo_shared = fr demo_mem" "npage demo_shared = npage demo_mem" "free_pg demo_shared = free_pg demo_mem"
    "page_ref demo_shared = (page_ref demo_mem)(20 := 2)" by (simp_all add: demo_shared_def)
  have ok: "pt_ok demo_shared 10" "leaf demo_shared 10 = leaf demo_mem 10" "tables demo_shared 10 = tables demo_mem 10"
  proof -
    have d: "distinct (free_pg demo_shared)" using o(3) by (simp add: demo_mem_fields)
    have f: "f \<in> set (free_pg demo_shared) \<Longrightarrow> f < npage demo_mem \<and> f \<notin> tables demo_mem 10" for f
      using o(3) by (auto simp: demo_mem_fields demo_tables)
    note q = pt_ok_outside [OF demo_pt_ok o(1,2) d f]
    show "pt_ok demo_shared 10" by (rule q(1))
    show "leaf demo_shared 10 = leaf demo_mem 10" by (intro ext, rule q(3))
    show "tables demo_shared 10 = tables demo_mem 10" by (rule q(4))
  qed
  show "pt_ok demo_shared 10" by (rule ok(1))
  have l: "pleaf demo_shared 10 = pleaf demo_mem 10" by (simp add: fun_eq_iff pleaf_def ok(2))
  show m: "mappings demo_shared 10 a b p = mappings demo_mem 10 a b p" for a b p by (simp add: mappings_def l)
  have r: "data_refs demo_mem 10" by (rule data_excl_refs [OF demo_data_excl])
  show "data_refs demo_shared 10"
    unfolding data_refs_def data_ok_pages l m o ok(3)
  proof (intro conjI allI impI)
    fix p assume "mappings demo_mem 10 0 (2 ^ 27) p \<noteq> {}"
    then have "int (card (mappings demo_mem 10 0 (2 ^ 27) p)) \<le> page_ref demo_mem p" using r by (simp add: data_refs_def)
    then show "int (card (mappings demo_mem 10 0 (2 ^ 27) p)) \<le> ((page_ref demo_mem)(20 := 2)) p"
      by (cases "p = 20") (simp_all add: demo_mem_fields)
  qed (use r in \<open>auto simp: data_refs_def data_ok_pages\<close>)
qed

theorem unmap_range_correct_witness:
  "(\<exists>m'. unmap_range 10 (va 512) (va 1024) demo_mem = Some m' \<and> pleaf m' 10 512 = 0 \<and> set (free_pg m') = {20, 50, 51, 52}) \<and>
   (\<exists>m'. unmap_range 10 (va 512) (va 1024) demo_shared = Some m' \<and> page_ref m' 20 = 1 \<and> set (free_pg m') = {50, 51, 52})"
proof -
  obtain m' where m': "unmap_range 10 (va 512) (va 1024) demo_mem = Some m'"
    "\<forall>c<2 ^ 27. pleaf m' 10 c = (if 512 \<le> c \<and> c < 1024 \<and> valid (pleaf demo_mem 10 c) then 0 else pleaf demo_mem 10 c)"
    "set (free_pg m') = set (free_pg demo_mem) \<union>
       {p. mappings demo_mem 10 512 1024 p \<noteq> {} \<and> page_ref demo_mem p = int (card (mappings demo_mem 10 512 1024 p))}"
    using unmap_range_correct [OF demo_pt_ok data_excl_refs [OF demo_data_excl], of 512 1024] by auto
  obtain m2 where m2: "unmap_range 10 (va 512) (va 1024) demo_shared = Some m2"
    "\<forall>p. page_ref m2 p = page_ref demo_shared p - int (card (mappings demo_shared 10 512 1024 p))"
    "set (free_pg m2) = set (free_pg demo_shared) \<union>
       {p. mappings demo_shared 10 512 1024 p \<noteq> {} \<and> page_ref demo_shared p = int (card (mappings demo_shared 10 512 1024 p))}"
    using unmap_range_correct [OF demo_shared_ok(1,2), of 512 1024] by auto
  have "valid (pleaf demo_mem 10 512)" by (simp add: pleaf_def demo_tables)
  then have "pleaf m' 10 512 = 0" using m'(2) [rule_format, of 512] by simp
  moreover have "set (free_pg m') = {20, 50, 51, 52}" using m'(3) by (auto simp: demo_mappings demo_mem_fields split: if_splits)
  moreover have "page_ref m2 20 = 1" "set (free_pg m2) = {50, 51, 52}"
    using m2(2,3) by (auto simp: demo_shared_ok(3) demo_mappings demo_shared_fields split: if_splits)
  ultimately show ?thesis using m'(1) m2(1) by blast
qed

lemma demo_empty: "pt_ok (set_pte (12, 0) 0 demo_mem) 10" "t1 (set_pte (12, 0) 0 demo_mem) 10 0 = Some 11"
    "t0 (set_pte (12, 0) 0 demo_mem) 10 0 1 = Some 12" "t0 (set_pte (12, 0) 0 demo_mem) 10 0 2 = Some 13"
    "fr (set_pte (12, 0) 0 demo_mem) 12 k = 0"
  using set_leaf [OF demo_pt_ok, of 0 1 12, where k = 0 and e = 0]
  by (simp_all add: demo_tables) (simp add: set_pte_def demo_mem_def)

theorem exit_range_loses_table_witness:
  "\<exists>m'. exit_range 10 0x200000 0x400000 (set_pte (12, 0) 0 demo_mem) = Some m' \<and> 11 \<in> set (free_pg m') \<and>
     13 \<notin> set (free_pg m') \<and> t1 m' 10 0 = None"
  using exit_range_loses_table [OF demo_empty(1-4)] by (auto simp: demo_empty(5))

end
