(* ===== verification/Frames.thy ===== *)
theory Frames
  imports FirstFit Paging
begin

text \<open>
  \<open>Paging\<close> knows the free frames as a sorted list, from which \<^verbatim>\<open>alloc_pages\<close> takes the lowest run that is long
  enough.  Here the first-fit manager, which \<^verbatim>\<open>pmm.c\<close> calls through \<^verbatim>\<open>pmm_manager\<close>, is shown to implement that
  list with its free blocks: both return the same frame, and the free frames stay the same.  Giving frames back
  agrees below some free block; above all of them \<^verbatim>\<open>default_free_pages\<close> breaks its list, as \<open>FirstFit\<close> shows.
\<close>

definition represents :: "pmm \<Rightarrow> nat list \<Rightarrow> pmem \<Rightarrow> bool" where
  "represents s xs m \<longleftrightarrow> pmm_wf s xs \<and> sorted (free_pg m) \<and> distinct (free_pg m) \<and> set (free_pg m) = free_set s xs"

lemma blocks_apart:
  "blocks_ok s xs \<Longrightarrow> y \<in> set xs \<Longrightarrow> z \<in> set xs \<Longrightarrow> y \<noteq> z \<Longrightarrow> y + psize s y < z \<or> z + psize s z < y"
  by (induction xs) (auto simp: blocks_ok_Cons)

text \<open>A run of free frames lies inside one block, since no two blocks touch.\<close>

lemma run_in_block:
  assumes "blocks_ok s xs" and "{q ..< q + n} \<subseteq> free_set s xs" and "0 < n"
  shows "\<exists>y\<in>set xs. y \<le> q \<and> q + n \<le> y + psize s y"
  using assms
proof (induction n)
  case (Suc n)
  show ?case
  proof (cases "n = 0")
    case True
    then have "q \<in> free_set s xs" using Suc.prems(2) by auto
    then show ?thesis using True by (auto simp: free_set_def block_def)
  next
    case False
    have "{q ..< q + n} \<subseteq> free_set s xs" using Suc.prems(2) by auto
    then obtain y where y: "y \<in> set xs" "y \<le> q" "q + n \<le> y + psize s y" using Suc.IH [OF Suc.prems(1)] False by blast
    have "q + n \<in> free_set s xs" using Suc.prems(2) by auto
    then obtain z where z: "z \<in> set xs" "z \<le> q + n" "q + n < z + psize s z" by (auto simp: free_set_def block_def)
    show ?thesis
    proof (cases "y = z")
      case True
      then show ?thesis using y z by auto
    next
      case ne: False
      have "y + psize s y < z \<or> z + psize s z < y"
        using blocks_apart [OF Suc.prems(1) y(1) z(1) ne] .
      then show ?thesis using y z by auto
    qed
  qed
qed simp

lemma find_least:
  assumes "sorted fl" and "x \<in> set fl" and "P x" and "\<And>q. q \<in> set fl \<Longrightarrow> P q \<Longrightarrow> x \<le> (q :: nat)"
  shows "List.find P fl = Some x"
  using assms by (induction fl) (fastforce simp: order_antisym)+

lemma find_first_block:
  assumes "blocks_ok s xs" and "List.find (\<lambda>p. n \<le> psize s p) xs = Some x" and "y \<in> set xs" and "n \<le> psize s y"
  shows "x \<in> set xs" "n \<le> psize s x" "x \<le> y"
proof -
  obtain us vs where u: "xs = us @ x # vs" "n \<le> psize s x" "\<forall>z\<in>set us. \<not> n \<le> psize s z"
    using assms(2) by (metis find_Some_iff2 find_split)
  show "x \<in> set xs" "n \<le> psize s x" using u by simp_all
  have "y \<in> set (x # vs)" using assms(3,4) u by auto
  then show "x \<le> y" using assms(1) by (auto simp: u blocks_ok_append blocks_ok_Cons)
qed

lemma lowest_run:
  assumes ok: "blocks_ok s xs" and fl: "sorted fl" "set fl = free_set s xs" and n: "0 < n"
  shows "List.find (\<lambda>p. \<forall>i\<in>set [0..<n]. p + i \<in> set fl) fl = List.find (\<lambda>p. n \<le> psize s p) xs"
proof -
  have run: "(\<forall>i\<in>set [0..<n]. p + i \<in> set fl) \<longleftrightarrow> {p ..< p + n} \<subseteq> free_set s xs" for p
  proof
    assume h: "\<forall>i\<in>set [0..<n]. p + i \<in> set fl"
    show "{p ..< p + n} \<subseteq> free_set s xs"
    proof
      fix q assume "q \<in> {p ..< p + n}"
      then have "q - p \<in> set [0..<n]" "q = p + (q - p)" by auto
      then show "q \<in> free_set s xs" using h fl(2) by metis
    qed
  qed (auto simp: fl(2))
  show ?thesis
  proof (cases "List.find (\<lambda>p. n \<le> psize s p) xs")
    case None
    then have small: "\<not> n \<le> psize s y" if "y \<in> set xs" for y using that by (simp add: find_None_iff)
    have "\<not> {q ..< q + n} \<subseteq> free_set s xs" for q
      using run_in_block [OF ok _ n, of q] small by fastforce
    then have "List.find (\<lambda>p. {p ..< p + n} \<subseteq> free_set s xs) fl = None" by (simp add: find_None_iff)
    then show ?thesis using None unfolding run by simp
  next
    case (Some x)
    then have "\<exists>y\<in>set xs. n \<le> psize s y" by (auto simp: find_Some_iff)
    then have x: "x \<in> set xs" "n \<le> psize s x" using find_first_block [OF ok Some] by blast+
    have "{x ..< x + n} \<subseteq> block s x" using x(2) by (auto simp: block_def)
    then have "{x ..< x + n} \<subseteq> free_set s xs" using x(1) by (auto simp: free_set_def)
    moreover have "x \<in> set fl" using free_set_head [OF ok x(1)] fl(2) by simp
    moreover have "x \<le> q" if r: "{q ..< q + n} \<subseteq> free_set s xs" for q
    proof -
      obtain y where y: "y \<in> set xs" "y \<le> q" "q + n \<le> y + psize s y" using run_in_block [OF ok r n] by blast
      then have "x \<le> y" using find_first_block(3) [OF ok Some, of y] by simp
      then show ?thesis using y(2) by simp
    qed
    ultimately show ?thesis using Some unfolding run by (intro find_least [OF fl(1), THEN trans]) simp_all
  qed
qed

section \<open>The first-fit manager implements the list\<close>

lemma alloc_pages_refined:
  assumes rep: "represents s xs m" and n: "0 < n"
  shows "\<exists>t ys. default_alloc_pages n s = Some (fst (alloc_pages n m), t) \<and> represents t ys (snd (alloc_pages n m))"
proof -
  have wf: "pmm_wf s xs" "sorted (free_pg m)" "distinct (free_pg m)" "set (free_pg m) = free_set s xs"
    using rep by (simp_all add: represents_def)
  have ok: "blocks_ok s xs" using wf(1) by (simp add: pmm_wf_def)
  have fd: "List.find (\<lambda>p. \<forall>i\<in>set [0..<n]. p + i \<in> set (free_pg m)) (free_pg m) = List.find (\<lambda>p. n \<le> psize s p) xs"
    by (rule lowest_run [OF ok wf(2,4) n])
  note ff = first_fit_alloc_facts [OF wf(1) n]
  show ?thesis
  proof (cases "List.find (\<lambda>p. n \<le> psize s p) xs")
    case None
    then show ?thesis using ff fd rep unfolding alloc_pages_def by auto
  next
    case (Some x)
    then obtain t ys where t: "default_alloc_pages n s = Some (Some x, t)" "pmm_wf t ys" "free_set t ys = free_set s xs - {x ..< x + n}"
      using ff by auto
    have a: "alloc_pages n m = (Some x, m\<lparr>free_pg := List.filter (\<lambda>q. q \<notin> set [x..<x + n]) (free_pg m)\<rparr>)"
      using fd Some unfolding alloc_pages_def by simp
    have "represents t ys (snd (alloc_pages n m))"
      using t(2,3) wf(2-4) unfolding a represents_def by (auto simp: sorted_wrt_filter)
    then show ?thesis using t(1) a by auto
  qed
qed

lemma fold_insort: "sorted fl \<Longrightarrow> sorted (fold insort ps fl) \<and> set (fold insort ps fl) = set ps \<union> set fl"
  by (induction ps arbitrary: fl) (auto simp: sorted_insort set_insort_key)

lemma fold_insort_distinct: "distinct fl \<Longrightarrow> distinct ps \<Longrightarrow> set ps \<inter> set fl = {} \<Longrightarrow> distinct (fold insort ps fl)"
  by (induction ps arbitrary: fl) (auto simp: distinct_insort set_insort_key)

lemma free_pages_refined:
  assumes rep: "represents s xs m" and fr: "freeable s xs p n" and pos: "xs = [] \<or> (\<exists>x\<in>set xs. p < x)"
  shows "\<exists>t ys. default_free_pages p n s = Some t \<and> represents t ys (free_pages p n m)"
proof -
  have wf: "pmm_wf s xs" "sorted (free_pg m)" "distinct (free_pg m)" "set (free_pg m) = free_set s xs"
    using rep by (simp_all add: represents_def)
  obtain t ys where t: "default_free_pages p n s = Some t" "pmm_wf t ys" "free_set t ys = free_set s xs \<union> {p ..< p + n}"
    using default_free_pages_wf [OF wf(1) fr pos] by blast
  have "set [p..<p + n] \<inter> set (free_pg m) = {}" using fr wf(4) by (auto simp: freeable_def)
  then have "represents t ys (free_pages p n m)"
    using t(2,3) fold_insort [OF wf(2), of "[p..<p + n]"] fold_insort_distinct [OF wf(3), of "[p..<p + n]"] wf(4)
    unfolding represents_def free_pages_def by (auto simp: Un_commute)
  then show ?thesis using t(1) by blast
qed

end
