(* ===== verification/SkewHeap.thy ===== *)
theory SkewHeap
  imports Prelude "HOL-Library.Tree_Multiset"
begin

text \<open>
  The skew heap of \<^verbatim>\<open>libs/skew_heap.h\<close> on its pointers: every entry has \<^verbatim>\<open>parent\<close>, \<^verbatim>\<open>left\<close> and \<^verbatim>\<open>right\<close>
  (\<open>lchild\<close> and \<open>rchild\<close> here),
  \<open>None\<close> is NULL, \<open>cmp\<close> is the comparison the caller passes.  The heap of pointers is related to
  binary trees, on which merging and removing are ordinary functions.
\<close>

section \<open>The code\<close>

record 'a skew =
  parent :: "'a \<Rightarrow> 'a option"
  lchild :: "'a \<Rightarrow> 'a option"
  rchild :: "'a \<Rightarrow> 'a option"

definition skew_heap_init :: "'a \<Rightarrow> 'a skew \<Rightarrow> 'a skew" where
  "skew_heap_init a h =
     h\<lparr>parent := (parent h)(a := None), rchild := (rchild h)(a := None), lchild := (lchild h)(a := None)\<rparr>"

definition set_children :: "'a \<Rightarrow> 'a option \<Rightarrow> 'a option \<Rightarrow> 'a skew \<Rightarrow> 'a skew" where
  "set_children a l r h =
     (let h1 = h\<lparr>lchild := (lchild h)(a := l), rchild := (rchild h)(a := r)\<rparr>
      in case l of None \<Rightarrow> h1 | Some c \<Rightarrow> h1\<lparr>parent := (parent h1)(c := Some a)\<rparr>)"

partial_function (option) skew_heap_merge ::
  "('a \<Rightarrow> 'a \<Rightarrow> int) \<Rightarrow> 'a option \<Rightarrow> 'a option \<Rightarrow> 'a skew \<Rightarrow> ('a option \<times> 'a skew) option" where
  "skew_heap_merge cmp a b h =
     (case a of None \<Rightarrow> Some (b, h)
      | Some x \<Rightarrow>
         (case b of None \<Rightarrow> Some (a, h)
          | Some y \<Rightarrow>
             if cmp x y = -1
             then do {
               let r = lchild h x;
               (l, h1) \<leftarrow> skew_heap_merge cmp (rchild h x) b h;
               Some (a, set_children x l r h1)
             }
             else do {
               let r = lchild h y;
               (l, h1) \<leftarrow> skew_heap_merge cmp a (rchild h y) h;
               Some (b, set_children y l r h1)
             }))"

definition skew_heap_insert ::
  "('a \<Rightarrow> 'a \<Rightarrow> int) \<Rightarrow> 'a option \<Rightarrow> 'a \<Rightarrow> 'a skew \<Rightarrow> ('a option \<times> 'a skew) option" where
  "skew_heap_insert cmp a b h = skew_heap_merge cmp a (Some b) (skew_heap_init b h)"

definition skew_heap_remove ::
  "('a \<Rightarrow> 'a \<Rightarrow> int) \<Rightarrow> 'a option \<Rightarrow> 'a \<Rightarrow> 'a skew \<Rightarrow> ('a option \<times> 'a skew) option" where
  "skew_heap_remove cmp a b h =
     do {
       let p = parent h b;
       (rep, h1) \<leftarrow> skew_heap_merge cmp (lchild h b) (rchild h b) h;
       let h2 = (case rep of None \<Rightarrow> h1 | Some c \<Rightarrow> h1\<lparr>parent := (parent h1)(c := p)\<rparr>);
       case p of
         None \<Rightarrow> Some (rep, h2)
       | Some q \<Rightarrow>
           if lchild h2 q = Some b then Some (a, h2\<lparr>lchild := (lchild h2)(q := rep)\<rparr>)
           else Some (a, h2\<lparr>rchild := (rchild h2)(q := rep)\<rparr>)
     }"

section \<open>The trees behind the pointers\<close>

fun rootp :: "'a tree \<Rightarrow> 'a option" where
  "rootp Leaf = None"
| "rootp (Node l x r) = Some x"

text \<open>\<open>htree h t\<close>: below the root of \<open>t\<close> all three pointers of every entry are those of \<open>t\<close>.\<close>

fun htree :: "'a skew \<Rightarrow> 'a tree \<Rightarrow> bool" where
  "htree h Leaf \<longleftrightarrow> True"
| "htree h (Node l x r) \<longleftrightarrow>
     lchild h x = rootp l \<and> rchild h x = rootp r \<and> htree h l \<and> htree h r \<and>
     (\<forall>c. rootp l = Some c \<or> rootp r = Some c \<longrightarrow> parent h c = Some x)"

definition hdistinct :: "'a tree \<Rightarrow> bool" where
  "hdistinct t \<longleftrightarrow> distinct (inorder t)"

fun smerge :: "('a \<Rightarrow> 'a \<Rightarrow> int) \<Rightarrow> 'a tree \<Rightarrow> 'a tree \<Rightarrow> 'a tree" where
  "smerge cmp Leaf t = t"
| "smerge cmp t Leaf = t"
| "smerge cmp (Node l1 x r1) (Node l2 y r2) =
     (if cmp x y = -1 then Node (smerge cmp r1 (Node l2 y r2)) x l1
      else Node (smerge cmp (Node l1 x r1) r2) y l2)"

fun sremove :: "('a \<Rightarrow> 'a \<Rightarrow> int) \<Rightarrow> 'a \<Rightarrow> 'a tree \<Rightarrow> 'a tree" where
  "sremove cmp b Leaf = Leaf"
| "sremove cmp b (Node l x r) =
     (if x = b then smerge cmp l r else Node (sremove cmp b l) x (sremove cmp b r))"

lemma smerge_Leaf2 [simp]: "smerge cmp t Leaf = t"
  by (cases t) auto

lemma hdistinct_Node [simp]:
  "hdistinct (Node l x r) \<longleftrightarrow>
     hdistinct l \<and> hdistinct r \<and> x \<notin> set_tree l \<and> x \<notin> set_tree r \<and> set_tree l \<inter> set_tree r = {}"
  by (auto simp: hdistinct_def)

lemma hdistinct_Leaf [simp]: "hdistinct Leaf"
  by (simp add: hdistinct_def)

lemma mset_smerge [simp]: "mset_tree (smerge cmp t u) = mset_tree t + mset_tree u"
  by (induction cmp t u rule: smerge.induct) auto

lemma set_smerge [simp]: "set_tree (smerge cmp t u) = set_tree t \<union> set_tree u"
  by (induction cmp t u rule: smerge.induct) auto

lemma rootp_in: "rootp t = Some x \<Longrightarrow> x \<in> set_tree t"
  by (cases t) auto

lemma rootp_None [simp]: "rootp t = None \<longleftrightarrow> t = Leaf"
  by (cases t) auto

lemma htree_cong:
  assumes "\<And>x. x \<in> set_tree t \<Longrightarrow> lchild h x = lchild h' x \<and> rchild h x = rchild h' x"
    and "\<And>x. x \<in> set_tree t \<Longrightarrow> rootp t \<noteq> Some x \<Longrightarrow> parent h x = parent h' x"
    and "hdistinct t"
  shows "htree h t \<longleftrightarrow> htree h' t"
  using assms
proof (induction t)
  case (Node l x r)
  have "htree h l = htree h' l" "htree h r = htree h' r"
    by (rule Node.IH; use Node.prems in \<open>auto dest: rootp_in\<close>)+
  moreover have "parent h c = parent h' c" if "rootp l = Some c \<or> rootp r = Some c" for c
    using that Node.prems(2) [of c] Node.prems(3) by (auto dest!: rootp_in)
  ultimately show ?case using Node.prems(1) by auto
qed simp

lemma htree_root_parent: "htree h (Node l x r) \<Longrightarrow> c \<in> set_tree l \<Longrightarrow> rootp l = Some c \<Longrightarrow> parent h c = Some x"
  by simp

section \<open>Merging\<close>

lemma rootp_smerge:
  "rootp (smerge cmp t u) = (if t = Leaf then rootp u else if u = Leaf then rootp t
     else if cmp (the (rootp t)) (the (rootp u)) = -1 then rootp t else rootp u)"
  by (cases "(cmp, t, u)" rule: smerge.cases) auto

text \<open>Only the entries of the two heaps are written, and the root keeps its parent.\<close>

definition agree_off :: "'a set \<Rightarrow> 'a skew \<Rightarrow> 'a skew \<Rightarrow> bool" where
  "agree_off X h h' \<longleftrightarrow>
     (\<forall>x. x \<notin> X \<longrightarrow> lchild h x = lchild h' x \<and> rchild h x = rchild h' x \<and> parent h x = parent h' x)"

lemma agree_off_refl [simp]: "agree_off X h h"
  by (simp add: agree_off_def)

lemma set_children_reads:
  "lchild (set_children a l r h) x = (if x = a then l else lchild h x)"
  "rchild (set_children a l r h) x = (if x = a then r else rchild h x)"
  "parent (set_children a l r h) x = (if l = Some x then Some a else parent h x)"
  by (auto simp: set_children_def Let_def split: option.splits)

lemma hang_children:
  assumes h1: "htree h1 m" "agree_off Y h h1" and t: "htree h (Node l x r)"
    and dis: "hdistinct (Node l x r)" "hdistinct m" "insert x (set_tree l) \<inter> Y = {}" "set_tree m = Y"
  shows "htree (set_children x (rootp m) (rootp l) h1) (Node m x l)"
    and "agree_off (insert x (Y \<union> set_tree l)) h (set_children x (rootp m) (rootp l) h1)"
proof -
  let ?h = "set_children x (rootp m) (rootp l) h1"
  have "x \<notin> Y" "set_tree l \<inter> Y = {}" using dis(3) by auto
  have "htree h1 m = htree ?h m"
    by (rule htree_cong) (use dis(2,4) \<open>x \<notin> Y\<close> in \<open>auto simp: set_children_reads\<close>)
  with h1(1) have "htree ?h m" by simp
  moreover have "htree ?h l"
  proof -
    have off: "c \<notin> Y" "c \<noteq> x" "rootp m \<noteq> Some c" if "c \<in> set_tree l" for c
      using that \<open>set_tree l \<inter> Y = {}\<close> dis(1,4) by (auto dest: rootp_in)
    have "htree h l = htree ?h l"
      by (rule htree_cong) (use off h1(2) dis(1) in \<open>auto simp: set_children_reads agree_off_def\<close>)
    then show ?thesis using t by simp
  qed
  moreover have "parent ?h c = Some x" if "rootp l = Some c" for c
  proof -
    have "c \<notin> Y" using that \<open>set_tree l \<inter> Y = {}\<close> rootp_in by fast
    then show ?thesis using that t h1(2) by (auto simp: set_children_reads agree_off_def)
  qed
  ultimately show "htree ?h (Node m x l)"
    by (auto simp: set_children_reads)
  show "agree_off (insert x (Y \<union> set_tree l)) h ?h"
    using h1(2) dis(4) rootp_in [of m] by (auto simp: agree_off_def set_children_reads)
qed

lemma agree_off_mono: "agree_off X h h' \<Longrightarrow> X \<subseteq> Y \<Longrightarrow> agree_off Y h h'"
  by (auto simp: agree_off_def)

lemma hdistinct_smerge:
  "hdistinct t \<Longrightarrow> hdistinct u \<Longrightarrow> set_tree t \<inter> set_tree u = {} \<Longrightarrow> hdistinct (smerge cmp t u)"
  by (induction cmp t u rule: smerge.induct) auto

theorem skew_heap_merge_tree:
  assumes "htree h t" "htree h u" "hdistinct t" "hdistinct u" "set_tree t \<inter> set_tree u = {}"
  shows "\<exists>h'. skew_heap_merge cmp (rootp t) (rootp u) h = Some (rootp (smerge cmp t u), h') \<and>
     htree h' (smerge cmp t u) \<and> agree_off (set_tree t \<union> set_tree u) h h' \<and>
     (\<forall>c. rootp (smerge cmp t u) = Some c \<longrightarrow> parent h' c = parent h c)"
  using assms
proof (induction cmp t u rule: smerge.induct)
  case (1 cmp t)
  then show ?case by (subst skew_heap_merge.simps) simp
next
  case (2 cmp l x r)
  then show ?case by (subst skew_heap_merge.simps) simp
next
  case (3 cmp l1 x r1 l2 y r2)
  show ?case
  proof (cases "cmp x y = -1")
    case True
    let ?u = "Node l2 y r2" let ?m = "smerge cmp r1 ?u" let ?Y = "set_tree r1 \<union> set_tree ?u"
    obtain h1 where h1: "skew_heap_merge cmp (rootp r1) (rootp ?u) h = Some (rootp ?m, h1)"
      "htree h1 ?m" "agree_off ?Y h h1"
      using 3(1) [OF True _ "3.prems"(2) _ "3.prems"(4)] "3.prems"(1,3,5) by fastforce
    let ?h = "set_children x (rootp ?m) (rootp l1) h1"
    have "set_tree r1 \<inter> set_tree ?u = {}" and y: "insert x (set_tree l1) \<inter> ?Y = {}"
      using "3.prems"(3,5) by auto
    then have m: "hdistinct ?m" "set_tree ?m = ?Y"
      using "3.prems"(3,4) hdistinct_smerge [of r1 ?u] by simp_all
    note hc = hang_children [OF h1(2,3) "3.prems"(1,3) m(1) y m(2)]
    moreover note hc
    moreover have "skew_heap_merge cmp (Some x) (Some y) h = Some (Some x, ?h)"
      using True h1(1) "3.prems"(1) by (subst skew_heap_merge.simps) simp
    moreover have "parent ?h x = parent h x"
      using "3.prems" h1(3) rootp_in [of ?m x] by (auto simp: set_children_reads agree_off_def)
    ultimately show ?thesis using True by (auto elim: agree_off_mono)
  next
    case False
    let ?t = "Node l1 x r1" let ?m = "smerge cmp ?t r2" let ?Y = "set_tree ?t \<union> set_tree r2"
    obtain h1 where h1: "skew_heap_merge cmp (rootp ?t) (rootp r2) h = Some (rootp ?m, h1)"
      "htree h1 ?m" "agree_off ?Y h h1"
      using 3(2) [OF False "3.prems"(1) _ "3.prems"(3)] "3.prems"(2,4,5) by fastforce
    let ?h = "set_children y (rootp ?m) (rootp l2) h1"
    have "set_tree ?t \<inter> set_tree r2 = {}" and y: "insert y (set_tree l2) \<inter> ?Y = {}"
      using "3.prems"(4,5) by auto
    then have m: "hdistinct ?m" "set_tree ?m = ?Y"
      using "3.prems"(3,4) hdistinct_smerge [of ?t r2] by simp_all
    have "htree ?h (Node ?m y l2)" "agree_off (insert y (?Y \<union> set_tree l2)) h ?h"
      using hang_children [OF h1(2,3) "3.prems"(2,4) m(1) y m(2)] .
    moreover have "skew_heap_merge cmp (Some x) (Some y) h = Some (Some y, ?h)"
      using False h1(1) "3.prems"(2) by (subst skew_heap_merge.simps) simp
    moreover have "parent ?h y = parent h y"
      using "3.prems" h1(3) rootp_in [of ?m y] by (auto simp: set_children_reads agree_off_def)
    ultimately show ?thesis using False by (auto elim: agree_off_mono)
  qed
qed

section \<open>Inserting and removing\<close>

lemma skew_heap_insert_tree:
  assumes "htree h t" "hdistinct t" "b \<notin> set_tree t" "\<forall>c. rootp t = Some c \<longrightarrow> parent h c = None"
  shows "\<exists>h'. skew_heap_insert cmp (rootp t) b h = Some (rootp (smerge cmp t (Node Leaf b Leaf)), h') \<and>
     htree h' (smerge cmp t (Node Leaf b Leaf)) \<and> agree_off (insert b (set_tree t)) h h' \<and>
     (\<forall>c. rootp (smerge cmp t (Node Leaf b Leaf)) = Some c \<longrightarrow> parent h' c = None)"
proof -
  let ?h = "skew_heap_init b h" and ?u = "Node Leaf b Leaf"
  have "htree h t = htree ?h t"
    by (rule htree_cong) (use assms(2,3) in \<open>auto simp: skew_heap_init_def\<close>)
  then obtain h' where h': "skew_heap_merge cmp (rootp t) (rootp ?u) ?h = Some (rootp (smerge cmp t ?u), h')"
    "htree h' (smerge cmp t ?u)" "agree_off (set_tree t \<union> set_tree ?u) ?h h'"
    "\<forall>c. rootp (smerge cmp t ?u) = Some c \<longrightarrow> parent h' c = parent ?h c"
    using skew_heap_merge_tree [of ?h t ?u cmp] assms(1-3) by (auto simp: skew_heap_init_def)
  have "rootp (smerge cmp t ?u) = Some c \<Longrightarrow> c = b \<or> rootp t = Some c" for c
    by (auto simp: rootp_smerge split: if_splits)
  then have "rootp (smerge cmp t ?u) = Some c \<Longrightarrow> parent h' c = None" for c
    using h'(4) assms(4) by (auto simp: skew_heap_init_def)
  moreover have "agree_off (insert b (set_tree t)) h h'"
    using h'(3) by (auto simp: agree_off_def skew_heap_init_def)
  ultimately show ?thesis using h'(1,2) unfolding skew_heap_insert_def by (auto intro!: exI [of _ h'])
qed

lemma sremove_notin [simp]: "b \<notin> set_tree t \<Longrightarrow> sremove cmp b t = t"
  by (induction t) auto

lemma sremove_set: "hdistinct t \<Longrightarrow> set_tree (sremove cmp b t) = set_tree t - {b}"
  by (induction t) auto

lemma sremove_mset: "hdistinct t \<Longrightarrow> b \<in> set_tree t \<Longrightarrow> mset_tree (sremove cmp b t) + {#b#} = mset_tree t"
proof (induction t)
  case (Node l x r)
  consider "x = b" | "x \<noteq> b" "b \<in> set_tree l" "b \<notin> set_tree r" | "x \<noteq> b" "b \<notin> set_tree l" "b \<in> set_tree r"
    using Node.prems by auto
  then show ?case using Node by cases auto
qed simp

lemma sremove_hdistinct: "hdistinct t \<Longrightarrow> hdistinct (sremove cmp b t)"
proof (induction t)
  case (Node l x r)
  then show ?case by (auto simp: sremove_set intro: hdistinct_smerge)
qed simp

text \<open>The subtree \<open>\<langle>lb, b, rb\<rangle>\<close> at an inner entry \<open>b\<close> and the writes that replace it below its parent \<open>q\<close>.\<close>

definition replace_child :: "'a \<Rightarrow> 'a \<Rightarrow> 'a option \<Rightarrow> 'a skew \<Rightarrow> 'a skew" where
  "replace_child q b rep h =
     (let h2 = (case rep of None \<Rightarrow> h | Some c \<Rightarrow> h\<lparr>parent := (parent h)(c := Some q)\<rparr>)
      in if lchild h2 q = Some b then h2\<lparr>lchild := (lchild h2)(q := rep)\<rparr>
         else h2\<lparr>rchild := (rchild h2)(q := rep)\<rparr>)"

lemma replace_child_reads:
  "parent (replace_child q b rep h) x = (if rep = Some x then Some q else parent h x)"
  "lchild (replace_child q b rep h) x = (if x = q \<and> lchild h q = Some b then rep else lchild h x)"
  "rchild (replace_child q b rep h) x = (if x = q \<and> lchild h q \<noteq> Some b then rep else rchild h x)"
  by (auto simp: replace_child_def Let_def split: option.splits)

definition inner_at :: "'a skew \<Rightarrow> ('a \<Rightarrow> 'a \<Rightarrow> int) \<Rightarrow> 'a \<Rightarrow> 'a tree \<Rightarrow> 'a tree \<Rightarrow> 'a tree \<Rightarrow> 'a \<Rightarrow> bool" where
  "inner_at h cmp b t lb rb q \<longleftrightarrow>
     lchild h b = rootp lb \<and> rchild h b = rootp rb \<and> htree h lb \<and> htree h rb \<and> hdistinct (Node lb b rb) \<and>
     set_tree (Node lb b rb) \<subseteq> set_tree t \<and> (\<forall>c. rootp t = Some c \<longrightarrow> c \<notin> set_tree (Node lb b rb)) \<and>
     parent h b = Some q \<and> q \<in> set_tree t - set_tree (Node lb b rb) \<and>
     (\<forall>h'. agree_off (set_tree lb \<union> set_tree rb) h h' \<and> htree h' (smerge cmp lb rb) \<longrightarrow>
        htree (replace_child q b (rootp (smerge cmp lb rb)) h') (sremove cmp b t))"

lemma htree_replace_off:
  assumes "htree h t" "hdistinct t" "agree_off X h h'" "set_tree t \<inter> X = {}" "q \<notin> set_tree t"
    and "\<forall>c. rep = Some c \<longrightarrow> c \<in> X"
  shows "htree (replace_child q b rep h') t"
proof -
  have "htree h t = htree (replace_child q b rep h') t"
    by (rule htree_cong) (use assms in \<open>auto simp: replace_child_reads agree_off_def\<close>)
  with assms(1) show ?thesis by simp
qed

lemma htree_replace_child:
  assumes "htree h (Node l x r)" "hdistinct (Node l x r)" "rootp l = Some b \<or> rootp r = Some b"
  shows "\<exists>lb rb. inner_at h cmp b (Node l x r) lb rb x"
proof -
  obtain lb rb where sub: "l = Node lb b rb \<or> r = Node lb b rb"
    using assms(3) by (cases l; cases r) auto
  let ?m = "smerge cmp lb rb"
  have root: "\<forall>c. rootp ?m = Some c \<longrightarrow> c \<in> set_tree lb \<union> set_tree rb" using rootp_in by fastforce
  have "htree (replace_child x b (rootp ?m) h') (sremove cmp b (Node l x r))"
    if h': "agree_off (set_tree lb \<union> set_tree rb) h h'" "htree h' ?m" for h'
  proof -
    let ?h = "replace_child x b (rootp ?m) h'"
    have xs: "x \<notin> set_tree lb \<union> set_tree rb" using sub assms(2) by auto
    have "htree h' ?m = htree ?h ?m"
      by (rule htree_cong) (use xs sub assms(2) in \<open>auto simp: replace_child_reads intro: hdistinct_smerge\<close>)
    then have m: "htree ?h ?m" using h'(2) by simp
    have x: "lchild h' x = lchild h x" "rchild h' x = rchild h x" using h'(1) xs by (auto simp: agree_off_def)
    from sub show ?thesis
    proof
      assume l: "l = Node lb b rb"
      have "htree ?h r"
        by (rule htree_replace_off [OF _ _ h'(1)]) (use assms l root in auto)
      moreover have "parent ?h c = Some x" if "rootp r = Some c" for c
        using that assms l h'(1) rootp_in [of r c] root by (auto simp: replace_child_reads agree_off_def)
      ultimately show ?thesis using l assms x m by (auto simp: replace_child_reads)
    next
      assume r: "r = Node lb b rb"
      have "htree ?h l"
        by (rule htree_replace_off [OF _ _ h'(1)]) (use assms r root in auto)
      moreover have "parent ?h c = Some x" if "rootp l = Some c" for c
        using that assms r h'(1) rootp_in [of l c] root by (auto simp: replace_child_reads agree_off_def)
      moreover have "rootp l \<noteq> Some b" "b \<notin> set_tree l" "b \<noteq> x" using assms(2) r by (auto dest: rootp_in)
      ultimately show ?thesis using r assms x m by (auto simp: replace_child_reads)
    qed
  qed
  moreover have "lchild h b = rootp lb" "rchild h b = rootp rb" "htree h lb" "htree h rb"
    "hdistinct (Node lb b rb)" "parent h b = Some x"
    using assms(1,2) sub by (elim disjE; simp)+
  moreover have "set_tree (Node lb b rb) \<subseteq> set_tree (Node l x r)" "x \<notin> set_tree (Node lb b rb)"
    using assms(2) sub by auto
  moreover have "x \<in> set_tree (Node l x r)" by simp
  moreover have "rootp (Node l x r) = Some c \<longrightarrow> c \<notin> set_tree (Node lb b rb)" for c
    using calculation(9) by auto
  ultimately show ?thesis unfolding inner_at_def by blast
qed

lemma rootp_sremove: "rootp t \<noteq> Some b \<Longrightarrow> rootp (sremove cmp b t) = rootp t"
  by (cases t) auto

lemma inner_at_lift:
  assumes t: "htree h (Node l x r)" "hdistinct (Node l x r)"
    and u: "u = l \<and> v = r \<or> u = r \<and> v = l" and i: "inner_at h cmp b u lb rb q"
  shows "inner_at h cmp b (Node l x r) lb rb q"
proof -
  let ?m = "smerge cmp lb rb"
  have sub: "set_tree (Node lb b rb) \<subseteq> set_tree u" "q \<in> set_tree u - set_tree (Node lb b rb)"
    "\<forall>c. rootp u = Some c \<longrightarrow> c \<notin> set_tree (Node lb b rb)"
    using i unfolding inner_at_def by blast+
  have x: "x \<notin> set_tree u" "x \<notin> set_tree v" "set_tree u \<inter> set_tree v = {}" using t(2) u by auto
  have v: "htree h v" "hdistinct v" "b \<notin> set_tree v" using t u x sub(1) by auto
  have ub: "rootp u \<noteq> Some b" using sub(3) by auto
  have root: "\<forall>c. rootp ?m = Some c \<longrightarrow> c \<in> set_tree lb \<union> set_tree rb" using rootp_in by fastforce
  have "htree (replace_child q b (rootp ?m) h') (sremove cmp b (Node l x r))"
    if h': "agree_off (set_tree lb \<union> set_tree rb) h h'" "htree h' ?m" for h'
  proof -
    let ?h = "replace_child q b (rootp ?m) h'"
    have hu: "htree ?h (sremove cmp b u)" using i h' unfolding inner_at_def by blast
    have hv: "htree ?h v"
      by (rule htree_replace_off [OF v(1,2) h'(1)]) (use sub(1,2) x root in auto)
    have off: "lchild ?h x = lchild h x" "rchild ?h x = rchild h x"
      using h'(1) x(1) sub by (auto simp: replace_child_reads agree_off_def)
    have par: "parent ?h c = parent h c" if "rootp u = Some c \<or> rootp v = Some c" for c
    proof -
      have "c \<notin> set_tree lb \<union> set_tree rb" using that sub(1,3) x(3) rootp_in [of v c] by auto
      then show ?thesis using h'(1) root by (auto simp: replace_child_reads agree_off_def)
    qed
    have "x \<noteq> b" "sremove cmp b v = v" using sub(1) x(1) v(3) by auto
    then show ?thesis
      using u hu hv off par t(1) rootp_sremove [OF ub, of cmp] by auto
  qed
  moreover have "set_tree u \<subseteq> set_tree (Node l x r)" using u by auto
  moreover have "x \<notin> set_tree (Node lb b rb)" using sub(1) x(1) by blast
  then have "\<forall>c. rootp (Node l x r) = Some c \<longrightarrow> c \<notin> set_tree (Node lb b rb)" by simp
  ultimately show ?thesis using i unfolding inner_at_def by blast
qed

lemma htree_inner:
  assumes "htree h t" "hdistinct t" "b \<in> set_tree t" "rootp t \<noteq> Some b"
  shows "\<exists>lb rb q. inner_at h cmp b t lb rb q"
  using assms
proof (induction t)
  case (Node l x r)
  show ?case
  proof (cases "rootp l = Some b \<or> rootp r = Some b")
    case True
    then show ?thesis using htree_replace_child [OF Node.prems(1,2)] by blast
  next
    case False
    then consider "b \<in> set_tree l" "rootp l \<noteq> Some b" | "b \<in> set_tree r" "rootp r \<noteq> Some b"
      using Node.prems(3,4) by auto
    then show ?thesis
    proof cases
      case 1
      then obtain lb rb q where "inner_at h cmp b l lb rb q" using Node.IH(1) Node.prems by auto
      then show ?thesis using inner_at_lift [OF Node.prems(1,2), of l r] by blast
    next
      case 2
      then obtain lb rb q where "inner_at h cmp b r lb rb q" using Node.IH(2) Node.prems by auto
      then show ?thesis using inner_at_lift [OF Node.prems(1,2), of r l] by blast
    qed
  qed
qed simp

lemma skew_heap_remove_tree:
  assumes t: "htree h t" "hdistinct t" "b \<in> set_tree t" and root: "\<forall>c. rootp t = Some c \<longrightarrow> parent h c = None"
  shows "\<exists>h'. skew_heap_remove cmp (rootp t) b h = Some (rootp (sremove cmp b t), h') \<and>
     htree h' (sremove cmp b t) \<and> agree_off (set_tree t) h h' \<and>
     (\<forall>c. rootp (sremove cmp b t) = Some c \<longrightarrow> parent h' c = None)"
proof (cases "rootp t = Some b")
  case True
  then obtain l r where lr: "t = Node l b r" by (cases t) auto
  then obtain h1 where h1: "skew_heap_merge cmp (rootp l) (rootp r) h = Some (rootp (smerge cmp l r), h1)"
    "htree h1 (smerge cmp l r)" "agree_off (set_tree l \<union> set_tree r) h h1"
    using skew_heap_merge_tree [of h l r cmp] t by auto
  let ?h = "case rootp (smerge cmp l r) of None \<Rightarrow> h1 | Some c \<Rightarrow> h1\<lparr>parent := (parent h1)(c := None)\<rparr>"
  have "hdistinct (smerge cmp l r)" using t(2) lr by (auto intro: hdistinct_smerge)
  then have "htree h1 (smerge cmp l r) = htree ?h (smerge cmp l r)"
    by (intro htree_cong) (auto split: option.splits)
  moreover have "agree_off (set_tree t) h ?h"
    using h1(3) lr rootp_in [of "smerge cmp l r"] by (auto simp: agree_off_def split: option.splits)
  moreover have "skew_heap_remove cmp (rootp t) b h = Some (rootp (smerge cmp l r), ?h)"
    using h1(1) lr t(1) root by (simp add: skew_heap_remove_def)
  ultimately show ?thesis using h1(2) lr by (auto intro!: exI [of _ ?h] split: option.splits)
next
  case False
  then obtain lb rb q where i: "inner_at h cmp b t lb rb q" using htree_inner [OF t] by blast
  let ?m = "smerge cmp lb rb"
  have sub: "set_tree (Node lb b rb) \<subseteq> set_tree t" "q \<in> set_tree t - set_tree (Node lb b rb)"
    "\<forall>c. rootp t = Some c \<longrightarrow> c \<notin> set_tree (Node lb b rb)" "parent h b = Some q"
    "lchild h b = rootp lb" "rchild h b = rootp rb" "htree h lb" "htree h rb" "hdistinct (Node lb b rb)"
    using i unfolding inner_at_def by blast+
  then obtain h1 where h1: "skew_heap_merge cmp (rootp lb) (rootp rb) h = Some (rootp ?m, h1)"
    "htree h1 ?m" "agree_off (set_tree lb \<union> set_tree rb) h h1"
    using skew_heap_merge_tree [of h lb rb cmp] by auto
  let ?h = "replace_child q b (rootp ?m) h1"
  have "htree ?h (sremove cmp b t)" using i h1(2,3) unfolding inner_at_def by blast
  moreover have "skew_heap_remove cmp (rootp t) b h = Some (rootp t, ?h)"
    using h1(1) sub(4-6) by (simp add: skew_heap_remove_def replace_child_def Let_def)
  moreover have m: "rootp ?m = Some c \<Longrightarrow> c \<in> set_tree lb \<union> set_tree rb" for c using rootp_in by fastforce
  have "agree_off (set_tree t) h ?h"
    using h1(3) sub(1,2) m by (auto simp: agree_off_def replace_child_reads)
  moreover have "parent ?h c = None" if "rootp t = Some c" for c
  proof -
    have "c \<notin> set_tree lb \<union> set_tree rb" using that sub(3) by auto
    then show ?thesis using h1(3) m root that by (auto simp: agree_off_def replace_child_reads)
  qed
  ultimately show ?thesis using rootp_sremove [OF False, of cmp] by (auto intro!: exI [of _ ?h])
qed

section \<open>Priority order\<close>

text \<open>
  \<open>cmp\<close> decides by a key on a set of entries.  The heap order is kept by merging and removing, and
  the root has the least key.
\<close>

definition compares :: "('a \<Rightarrow> 'a \<Rightarrow> int) \<Rightarrow> ('a \<Rightarrow> int) \<Rightarrow> 'a set \<Rightarrow> bool" where
  "compares cmp key X \<longleftrightarrow> (\<forall>x\<in>X. \<forall>y\<in>X. cmp x y = -1 \<longleftrightarrow> key x < key y)"

fun hordered :: "('a \<Rightarrow> int) \<Rightarrow> 'a tree \<Rightarrow> bool" where
  "hordered key Leaf \<longleftrightarrow> True"
| "hordered key (Node l x r) \<longleftrightarrow>
     hordered key l \<and> hordered key r \<and> (\<forall>y\<in>set_tree l \<union> set_tree r. key x \<le> key y)"

lemma hordered_root: "hordered key t \<Longrightarrow> rootp t = Some x \<Longrightarrow> y \<in> set_tree t \<Longrightarrow> key x \<le> key y"
  by (cases t) auto

lemma compares_mono: "compares cmp key Y \<Longrightarrow> X \<subseteq> Y \<Longrightarrow> compares cmp key X"
  by (auto simp: compares_def)

lemma hordered_smerge:
  "compares cmp key (set_tree t \<union> set_tree u) \<Longrightarrow> hordered key t \<Longrightarrow> hordered key u \<Longrightarrow>
   hordered key (smerge cmp t u)"
proof (induction cmp t u rule: smerge.induct)
  case (3 cmp l1 x r1 l2 y r2)
  have "cmp x y = -1 \<longleftrightarrow> key x < key y" using "3.prems"(1) by (simp add: compares_def)
  moreover have "cmp x y = -1 \<Longrightarrow> hordered key (smerge cmp r1 (Node l2 y r2))"
    using 3(1) "3.prems"(2,3)
      compares_mono [OF "3.prems"(1), of "set_tree r1 \<union> set_tree (Node l2 y r2)"] by auto
  moreover have "cmp x y \<noteq> -1 \<Longrightarrow> hordered key (smerge cmp (Node l1 x r1) r2)"
    using 3(2) "3.prems"(2,3)
      compares_mono [OF "3.prems"(1), of "set_tree (Node l1 x r1) \<union> set_tree r2"] by auto
  ultimately show ?case using "3.prems"(2,3) 
    by (cases "cmp x y = -1") (auto intro: order_trans less_imp_le dest!: bspec)
qed auto

lemma hordered_sremove:
  "compares cmp key (set_tree t) \<Longrightarrow> hdistinct t \<Longrightarrow> hordered key t \<Longrightarrow> hordered key (sremove cmp b t)"
proof (induction t)
  case (Node l x r)
  have sub: "compares cmp key (set_tree l)" "compares cmp key (set_tree r)" "compares cmp key (set_tree l \<union> set_tree r)"
    using Node.prems(1) by (auto simp: compares_def)
  then have "hordered key (sremove cmp b l)" "hordered key (sremove cmp b r)" "hordered key (smerge cmp l r)"
    using Node by (auto intro: hordered_smerge)
  then show ?case using Node.prems by (auto simp: sremove_set)
qed simp

text \<open>
  \<open>skew_repr h root t\<close>: the pointer \<open>root\<close> is a well-formed skew heap with the tree \<open>t\<close>.
\<close>

definition skew_repr :: "'a skew \<Rightarrow> 'a option \<Rightarrow> 'a tree \<Rightarrow> bool" where
  "skew_repr h root t \<longleftrightarrow>
     root = rootp t \<and> htree h t \<and> hdistinct t \<and> (\<forall>c. root = Some c \<longrightarrow> parent h c = None)"

text \<open>
  C7: \<^verbatim>\<open>skew_heap_insert\<close> on a well-formed heap of pointers ends and returns a well-formed heap
  with one entry more, in heap order, so that its root has the least key of all entries; no field
  of an entry outside the heap is written.
\<close>

theorem skew_heap_insert_correct:
  assumes "skew_repr h root t" and "b \<notin> set_tree t"
    and "compares cmp key (insert b (set_tree t))" and "hordered key t"
  shows "\<exists>root' h' t'. skew_heap_insert cmp root b h = Some (root', h') \<and> skew_repr h' root' t' \<and>
     mset_tree t' = mset_tree t + {#b#} \<and> hordered key t' \<and> agree_off (insert b (set_tree t)) h h' \<and>
     (\<forall>r y. root' = Some r \<and> y \<in># mset_tree t' \<longrightarrow> key r \<le> key y)"
proof -
  let ?t = "smerge cmp t (Node Leaf b Leaf)"
  have "hordered key ?t" using assms(3,4) by (intro hordered_smerge) auto
  moreover have "hdistinct ?t" using assms(1,2) by (intro hdistinct_smerge) (auto simp: skew_repr_def)
  moreover obtain h' where "skew_heap_insert cmp (rootp t) b h = Some (rootp ?t, h')" "htree h' ?t"
    "agree_off (insert b (set_tree t)) h h'" "\<forall>c. rootp ?t = Some c \<longrightarrow> parent h' c = None"
    using skew_heap_insert_tree [of h t b cmp] assms(1,2) by (auto simp: skew_repr_def)
  ultimately show ?thesis
    using assms(1) hordered_root [of key ?t]
    by (intro exI [of _ "rootp ?t"] exI [of _ h'] exI [of _ ?t]) (auto simp: skew_repr_def)
qed

definition demo_heap :: "nat skew" where
  "demo_heap = \<lparr>parent = (\<lambda>_. None), lchild = (\<lambda>_. None), rchild = (\<lambda>_. None)\<rparr>"

definition demo_cmp :: "nat \<Rightarrow> nat \<Rightarrow> int" where
  "demo_cmp x y = (if x < y then -1 else if x = y then 0 else 1)"

lemma demo_heap_repr: "skew_repr demo_heap (Some 4) (Node Leaf 4 Leaf)"
  by (simp add: skew_repr_def demo_heap_def)

lemma demo_compares: "compares demo_cmp int X"
  by (auto simp: compares_def demo_cmp_def)

theorem skew_heap_insert_correct_witness:
  "\<exists>root' h' t'. skew_heap_insert demo_cmp (Some 4) 2 demo_heap = Some (root', h') \<and> skew_repr h' root' t' \<and>
     mset_tree t' = {#4, 2#} \<and> hordered int t'"
proof -
  from skew_heap_insert_correct [OF demo_heap_repr _ demo_compares, of 2] obtain root' h' t' where
    "skew_heap_insert demo_cmp (Some 4) 2 demo_heap = Some (root', h')" "skew_repr h' root' t'"
    "mset_tree t' = mset_tree (Node Leaf 4 Leaf) + {#2#}" "hordered int t'"
    by auto
  then show ?thesis by (intro exI [of _ root'] exI [of _ h'] exI [of _ t']) simp
qed

text \<open>
  C8: \<^verbatim>\<open>skew_heap_remove\<close> takes exactly the given entry out of a well-formed heap, wherever it stands
  (it follows the parent pointer for an inner entry), and returns a well-formed heap in heap order.
\<close>

theorem skew_heap_remove_correct:
  assumes "skew_repr h root t" and "b \<in> set_tree t" and "compares cmp key (set_tree t)" and "hordered key t"
  shows "\<exists>root' h' t'. skew_heap_remove cmp root b h = Some (root', h') \<and> skew_repr h' root' t' \<and>
     mset_tree t' = mset_tree t - {#b#} \<and> hordered key t' \<and> agree_off (set_tree t) h h' \<and>
     (\<forall>r y. root' = Some r \<and> y \<in># mset_tree t' \<longrightarrow> key r \<le> key y)"
proof -
  let ?t = "sremove cmp b t"
  have t: "htree h t" "hdistinct t" "root = rootp t" using assms(1) by (simp_all add: skew_repr_def)
  have ord: "hordered key ?t" by (rule hordered_sremove [OF assms(3) t(2) assms(4)])
  moreover have "mset_tree ?t = mset_tree t - {#b#}"
    using sremove_mset [OF t(2) assms(2), of cmp] by (metis add_diff_cancel_right')
  moreover obtain h' where "skew_heap_remove cmp (rootp t) b h = Some (rootp ?t, h')" "htree h' ?t"
    "agree_off (set_tree t) h h'" "\<forall>c. rootp ?t = Some c \<longrightarrow> parent h' c = None"
    using skew_heap_remove_tree [OF t(1,2) assms(2), of cmp] assms(1) unfolding skew_repr_def by metis
  moreover have "\<forall>r y. rootp ?t = Some r \<and> y \<in># mset_tree ?t \<longrightarrow> key r \<le> key y"
    using hordered_root [OF ord] by simp
  ultimately show ?thesis
    using t sremove_hdistinct [OF t(2), of cmp b]
    by (intro exI [of _ "rootp ?t"] exI [of _ h'] exI [of _ ?t]) (auto simp: skew_repr_def)
qed

theorem skew_heap_remove_correct_witness:
  "\<exists>root' h' t'. skew_heap_remove demo_cmp (Some 4) 4 demo_heap = Some (root', h') \<and> skew_repr h' root' t' \<and>
     mset_tree t' = {#}"
proof -
  from skew_heap_remove_correct [OF demo_heap_repr _ demo_compares, of 4] obtain root' h' t' where
    "skew_heap_remove demo_cmp (Some 4) 4 demo_heap = Some (root', h')" "skew_repr h' root' t'"
    "mset_tree t' = mset_tree (Node Leaf 4 Leaf) - {#4#}" by auto
  then show ?thesis by (intro exI [of _ root'] exI [of _ h'] exI [of _ t']) simp
qed

end
