(* ===== verification/Kernel.thy ===== *)
theory Kernel
  imports KList SkewHeap
begin

text \<open>
  The state the scheduler, the synchronisation primitives and the process code of
  \<^verbatim>\<open>kern/schedule\<close>, \<^verbatim>\<open>kern/sync\<close> and \<^verbatim>\<open>kern/process\<close> share.  A \<^verbatim>\<open>struct proc_struct *\<close>, a
  \<^verbatim>\<open>timer_t *\<close>, a \<^verbatim>\<open>wait_t *\<close> and a semaphore are named by natural numbers (\<open>None\<close> is NULL); every
  list head and every embedded link is a node of one heap of links.  There is one processor: code
  between two calls of \<^verbatim>\<open>schedule\<close> runs with interrupts off (\<^verbatim>\<open>local_intr_save\<close>) where it touches
  this state, and is one atomic function here.  Dereferencing NULL is \<open>None\<close>, as a panic is.
\<close>

section \<open>Processes\<close>

datatype proc_state = PROC_UNINIT | PROC_SLEEPING | PROC_RUNNABLE | PROC_ZOMBIE

record ctx =
  ctx_ra :: "64 word"
  ctx_sp :: "64 word"
  ctx_s :: "64 word list"

record trapframe =
  gpr :: "nat \<Rightarrow> 64 word"
  tf_status :: "64 word"
  tf_epc :: "64 word"
  tf_tval :: "64 word"
  tf_cause :: "64 word"

record proc_struct =
  p_state :: proc_state
  pid :: int
  runs :: int
  kstack :: "64 word"
  need_resched :: bool
  p_parent :: "nat option"
  mm :: "nat option"
  p_context :: ctx
  p_tf :: "64 word"
  pgdir :: "64 word"
  p_flags :: "32 word"
  p_name :: string
  exit_code :: int
  wait_state :: "32 word"
  cptr :: "nat option"
  yptr :: "nat option"
  optr :: "nat option"
  on_rq :: bool
  time_slice :: int
  lab6_stride :: "32 word"
  lab6_priority :: "32 word"
  filesp :: "nat option"

definition PF_EXITING :: "32 word" where "PF_EXITING = 1"
definition WT_INTERRUPTED :: "32 word" where "WT_INTERRUPTED = 0x80000000"
definition WT_CHILD :: "32 word" where "WT_CHILD = 1 OR WT_INTERRUPTED"
definition WT_KSEM :: "32 word" where "WT_KSEM = 0x100"
definition WT_TIMER :: "32 word" where "WT_TIMER = 2 OR WT_INTERRUPTED"
definition WT_KBD :: "32 word" where "WT_KBD = 4 OR WT_INTERRUPTED"

section \<open>Run queue, timers, wait queue entries\<close>

datatype knode =
    ProcHead | ProcLink nat
  | HashHead nat | HashLink nat
  | RunHead | RunLink nat
  | TimerHead | TimerLink nat
  | WaitHead nat | WaitLink nat

record run_queue =
  proc_num :: nat
  max_time_slice :: int
  rq_pool :: "nat option"

record timer =
  expires :: nat
  t_proc :: "nat option"

record wait =
  w_proc :: "nat option"
  wakeup_flags :: "32 word"
  w_queue :: "nat option"

section \<open>The state\<close>

record kernel =
  procs :: "nat \<Rightarrow> proc_struct"
  klinks :: "knode links"
  run_pool :: "nat skew"
  rq :: run_queue
  timers :: "nat \<Rightarrow> timer"
  waits :: "nat \<Rightarrow> wait"
  sem_value :: "nat \<Rightarrow> int"
  current :: "nat option"
  idleproc :: "nat option"
  initproc :: "nat option"
  nr_process :: int
  last_pid :: int
  next_safe :: int
  tframes :: "64 word \<Rightarrow> trapframe"
  cpu :: ctx
  satp :: "64 word"
  boot_pgdir_pa :: "64 word"

definition upd_proc :: "nat \<Rightarrow> (proc_struct \<Rightarrow> proc_struct) \<Rightarrow> ('z kernel_scheme) \<Rightarrow> ('z kernel_scheme)" where
  "upd_proc p f s = s\<lparr>procs := (procs s)(p := f (procs s p))\<rparr>"

definition lsatp :: "64 word \<Rightarrow> ('z kernel_scheme) \<Rightarrow> ('z kernel_scheme)" where
  "lsatp pd s = s\<lparr>satp := 0x8000000000000000 OR drop_bit 12 pd\<rparr>"

definition switch_to :: "nat \<Rightarrow> nat \<Rightarrow> ('z kernel_scheme) \<Rightarrow> ('z kernel_scheme)" where
  "switch_to from_p to_p s =
     (let s1 = upd_proc from_p (\<lambda>g. g\<lparr>p_context := cpu s\<rparr>) s
      in s1\<lparr>cpu := p_context (procs s1 to_p)\<rparr>)"

text \<open>\<^verbatim>\<open>proc_run\<close> of \<^verbatim>\<open>proc.c\<close>; \<^verbatim>\<open>flush_tlb\<close> has no effect on this state.\<close>

definition proc_run :: "nat \<Rightarrow> ('z kernel_scheme) \<Rightarrow> ('z kernel_scheme) option" where
  "proc_run proc s =
     do {
       curr_proc \<leftarrow> current s;
       let s1 = s\<lparr>current := Some proc\<rparr>;
       let s2 = (if pgdir (procs s1 proc) \<noteq> 0 then lsatp (pgdir (procs s1 proc)) s1
                 else lsatp (boot_pgdir_pa s1) s1);
       Some (switch_to curr_proc proc s2)
     }"

section \<open>Frames\<close>

lemma procs_upd_proc [simp]: "procs (upd_proc p f s) q = (if q = p then f (procs s p) else procs s q)"
  by (simp add: upd_proc_def)

lemma upd_proc_frames [simp]:
  "klinks (upd_proc p f s) = klinks s" "run_pool (upd_proc p f s) = run_pool s"
  "rq (upd_proc p f s) = rq s" "timers (upd_proc p f s) = timers s" "waits (upd_proc p f s) = waits s"
  "sem_value (upd_proc p f s) = sem_value s" "current (upd_proc p f s) = current s"
  "idleproc (upd_proc p f s) = idleproc s" "initproc (upd_proc p f s) = initproc s"
  "nr_process (upd_proc p f s) = nr_process s" "last_pid (upd_proc p f s) = last_pid s"
  "next_safe (upd_proc p f s) = next_safe s" "tframes (upd_proc p f s) = tframes s"
  "cpu (upd_proc p f s) = cpu s" "satp (upd_proc p f s) = satp s"
  "boot_pgdir_pa (upd_proc p f s) = boot_pgdir_pa s" "kernel.more (upd_proc p f s) = kernel.more s"
  by (simp_all add: upd_proc_def)

text \<open>What a scheduling class may change: the run links, the run pool, the run queue, and four
  fields of the process.\<close>

definition run_node :: "knode \<Rightarrow> bool" where
  "run_node n = (case n of RunHead \<Rightarrow> True | RunLink _ \<Rightarrow> True | _ \<Rightarrow> False)"

definition no_sched :: "proc_struct \<Rightarrow> proc_struct" where
  "no_sched g = g\<lparr>on_rq := False, time_slice := 0, lab6_stride := 0, lab6_priority := 0\<rparr>"

definition sched_frame :: "'z kernel_scheme \<Rightarrow> 'z kernel_scheme \<Rightarrow> bool" where
  "sched_frame s t \<longleftrightarrow>
     t = s\<lparr>procs := procs t, klinks := klinks t, run_pool := run_pool t, rq := rq t\<rparr> \<and>
     (\<forall>p. no_sched (procs t p) = no_sched (procs s p)) \<and>
     (\<forall>n. \<not> run_node n \<longrightarrow> nxt (klinks t) n = nxt (klinks s) n \<and> prv (klinks t) n = prv (klinks s) n)"

lemma sched_frame_refl [simp]: "sched_frame s s"
  by (simp add: sched_frame_def)

lemma sched_frame_fields:
  assumes "sched_frame s t"
  shows "current t = current s" "idleproc t = idleproc s" "initproc t = initproc s" "timers t = timers s"
    "waits t = waits s" "sem_value t = sem_value s" "nr_process t = nr_process s" "satp t = satp s"
    "p_state (procs t p) = p_state (procs s p)" "wait_state (procs t p) = wait_state (procs s p)"
    "pid (procs t p) = pid (procs s p)" "need_resched (procs t p) = need_resched (procs s p)"
    "p_parent (procs t p) = p_parent (procs s p)" "cptr (procs t p) = cptr (procs s p)"
    "p_flags (procs t p) = p_flags (procs s p)" "runs (procs t p) = runs (procs s p)"
    "pgdir (procs t p) = pgdir (procs s p)"
proof -
  have t: "t = s\<lparr>procs := procs t, klinks := klinks t, run_pool := run_pool t, rq := rq t\<rparr>"
    and p: "no_sched (procs t p) = no_sched (procs s p)"
    using assms by (simp_all add: sched_frame_def)
  show "current t = current s" "idleproc t = idleproc s" "initproc t = initproc s" "timers t = timers s"
    "waits t = waits s" "sem_value t = sem_value s" "nr_process t = nr_process s" "satp t = satp s"
    by (subst t, simp)+
  show "p_state (procs t p) = p_state (procs s p)" "wait_state (procs t p) = wait_state (procs s p)"
    "pid (procs t p) = pid (procs s p)" "need_resched (procs t p) = need_resched (procs s p)"
    "p_parent (procs t p) = p_parent (procs s p)" "cptr (procs t p) = cptr (procs s p)"
    "p_flags (procs t p) = p_flags (procs s p)" "runs (procs t p) = runs (procs s p)"
    "pgdir (procs t p) = pgdir (procs s p)"
    using arg_cong [OF p, of p_state] arg_cong [OF p, of wait_state] arg_cong [OF p, of pid]
      arg_cong [OF p, of need_resched] arg_cong [OF p, of p_parent] arg_cong [OF p, of cptr]
      arg_cong [OF p, of p_flags] arg_cong [OF p, of runs] arg_cong [OF p, of pgdir]
    by (simp_all add: no_sched_def)
qed

lemma sched_frame_trans: "sched_frame s t \<Longrightarrow> sched_frame t u \<Longrightarrow> sched_frame s u"
proof -
  assume a: "sched_frame s t" "sched_frame t u"
  then have t: "t = s\<lparr>procs := procs t, klinks := klinks t, run_pool := run_pool t, rq := rq t\<rparr>"
    and u: "u = t\<lparr>procs := procs u, klinks := klinks u, run_pool := run_pool u, rq := rq u\<rparr>"
    unfolding sched_frame_def by blast+
  have "u = s\<lparr>procs := procs u, klinks := klinks u, run_pool := run_pool u, rq := rq u\<rparr>"
    by (subst u, subst t, simp)
  then show ?thesis using a by (simp add: sched_frame_def)
qed

end
