(* ===== verification/Sched.thy ===== *)
theory Sched
  imports Kernel
begin

text \<open>
  The core scheduler \<^verbatim>\<open>kern/schedule/sched.c\<close> with its two scheduling classes, round robin
  (\<^verbatim>\<open>default_sched.c\<close>) and stride (\<^verbatim>\<open>default_sched_stride.c\<close>), and the timer list.  A
  \<^verbatim>\<open>struct sched_class\<close> is a record of functions, the core is written over any class, and the
  contract between the two is the locale \<open>sched_policy\<close>.
\<close>

section \<open>Scheduling classes\<close>

record 'k sched_class =
  sc_init :: "'k \<Rightarrow> 'k"
  sc_enqueue :: "nat \<Rightarrow> 'k \<Rightarrow> 'k option"
  sc_dequeue :: "nat \<Rightarrow> 'k \<Rightarrow> 'k option"
  sc_pick_next :: "'k \<Rightarrow> (nat option \<times> 'k) option"
  sc_proc_tick :: "nat \<Rightarrow> 'k \<Rightarrow> 'k"

definition MAX_TIME_SLICE :: int where "MAX_TIME_SLICE = 5"

subsection \<open>Round robin\<close>

definition RR_init :: "'z kernel_scheme \<Rightarrow> 'z kernel_scheme" where
  "RR_init s = s\<lparr>klinks := list_init RunHead (klinks s), rq := (rq s)\<lparr>proc_num := 0\<rparr>\<rparr>"

definition refill_slice :: "nat \<Rightarrow> 'z kernel_scheme \<Rightarrow> 'z kernel_scheme" where
  "refill_slice p s =
     (if time_slice (procs s p) = 0 \<or> max_time_slice (rq s) < time_slice (procs s p)
      then upd_proc p (\<lambda>g. g\<lparr>time_slice := max_time_slice (rq s)\<rparr>) s else s)"

definition RR_enqueue :: "nat \<Rightarrow> 'z kernel_scheme \<Rightarrow> 'z kernel_scheme option" where
  "RR_enqueue p s =
     do {
       assertc (list_empty (RunLink p) (klinks s));
       let s1 = s\<lparr>klinks := list_add_before RunHead (RunLink p) (klinks s)\<rparr>;
       let s2 = refill_slice p s1;
       let s3 = upd_proc p (\<lambda>g. g\<lparr>on_rq := True\<rparr>) s2;
       Some (s3\<lparr>rq := (rq s3)\<lparr>proc_num := u32 (proc_num (rq s3) + 1)\<rparr>\<rparr>)
     }"

definition RR_dequeue :: "nat \<Rightarrow> 'z kernel_scheme \<Rightarrow> 'z kernel_scheme option" where
  "RR_dequeue p s =
     do {
       assertc (\<not> list_empty (RunLink p) (klinks s) \<and> on_rq (procs s p));
       let s1 = s\<lparr>klinks := list_del_init (RunLink p) (klinks s)\<rparr>;
       Some (s1\<lparr>rq := (rq s1)\<lparr>proc_num := sub32 (proc_num (rq s1)) 1\<rparr>\<rparr>)
     }"

definition le2proc_run :: "knode \<Rightarrow> nat option" where
  "le2proc_run le = (case le of RunLink p \<Rightarrow> Some p | _ \<Rightarrow> None)"

definition RR_pick_next :: "'z kernel_scheme \<Rightarrow> (nat option \<times> 'z kernel_scheme) option" where
  "RR_pick_next s =
     (let le = list_next RunHead (klinks s)
      in if le \<noteq> RunHead then do { p \<leftarrow> le2proc_run le; Some (Some p, s) } else Some (None, s))"

definition RR_proc_tick :: "nat \<Rightarrow> 'z kernel_scheme \<Rightarrow> 'z kernel_scheme" where
  "RR_proc_tick p s =
     (let s1 = (if 0 < time_slice (procs s p)
                then upd_proc p (\<lambda>g. g\<lparr>time_slice := time_slice g - 1\<rparr>) s else s)
      in if time_slice (procs s1 p) = 0 then upd_proc p (\<lambda>g. g\<lparr>need_resched := True\<rparr>) s1 else s1)"

definition default_sched_class :: "'z kernel_scheme sched_class" where
  "default_sched_class = \<lparr>sc_init = RR_init, sc_enqueue = RR_enqueue, sc_dequeue = RR_dequeue,
     sc_pick_next = RR_pick_next, sc_proc_tick = RR_proc_tick\<rparr>"

subsection \<open>Stride\<close>

text \<open>
  \<^verbatim>\<open>stride_pick_next\<close> divides by \<^verbatim>\<open>lab6_priority\<close>, which \<^verbatim>\<open>alloc_proc\<close> leaves at 0; division by zero is
  undefined in C and \<open>None\<close> here.
\<close>

definition BIG_STRIDE :: "32 word" where "BIG_STRIDE = 0x40000000"

definition proc_stride_comp_f :: "'z kernel_scheme \<Rightarrow> nat \<Rightarrow> nat \<Rightarrow> int" where
  "proc_stride_comp_f s p q =
     (let c = sint (lab6_stride (procs s p) - lab6_stride (procs s q))
      in if 0 < c then 1 else if c = 0 then 0 else -1)"

definition stride_init :: "'z kernel_scheme \<Rightarrow> 'z kernel_scheme" where
  "stride_init s =
     s\<lparr>klinks := list_init RunHead (klinks s), rq := (rq s)\<lparr>rq_pool := None, proc_num := 0\<rparr>\<rparr>"

definition stride_enqueue :: "nat \<Rightarrow> 'z kernel_scheme \<Rightarrow> 'z kernel_scheme option" where
  "stride_enqueue p s =
     do {
       (r, h) \<leftarrow> skew_heap_insert (proc_stride_comp_f s) (rq_pool (rq s)) p (run_pool s);
       let s1 = s\<lparr>run_pool := h, rq := (rq s)\<lparr>rq_pool := r\<rparr>\<rparr>;
       let s2 = refill_slice p s1;
       let s3 = upd_proc p (\<lambda>g. g\<lparr>on_rq := True\<rparr>) s2;
       Some (s3\<lparr>rq := (rq s3)\<lparr>proc_num := u32 (proc_num (rq s3) + 1)\<rparr>\<rparr>)
     }"

definition stride_dequeue :: "nat \<Rightarrow> 'z kernel_scheme \<Rightarrow> 'z kernel_scheme option" where
  "stride_dequeue p s =
     do {
       assertc (on_rq (procs s p) \<and> 0 < proc_num (rq s));
       (r, h) \<leftarrow> skew_heap_remove (proc_stride_comp_f s) (rq_pool (rq s)) p (run_pool s);
       let s1 = s\<lparr>run_pool := h, rq := (rq s)\<lparr>rq_pool := r\<rparr>\<rparr>;
       Some (s1\<lparr>rq := (rq s1)\<lparr>proc_num := sub32 (proc_num (rq s1)) 1\<rparr>\<rparr>)
     }"

definition stride_pick_next :: "'z kernel_scheme \<Rightarrow> (nat option \<times> 'z kernel_scheme) option" where
  "stride_pick_next s =
     (case rq_pool (rq s) of
        None \<Rightarrow> Some (None, s)
      | Some p \<Rightarrow>
          do {
            assertc (lab6_priority (procs s p) \<noteq> 0);
            Some (Some p, upd_proc p (\<lambda>g. g\<lparr>lab6_stride := lab6_stride g + BIG_STRIDE div lab6_priority g\<rparr>) s)
          })"

definition stride_proc_tick :: "nat \<Rightarrow> 'z kernel_scheme \<Rightarrow> 'z kernel_scheme" where
  "stride_proc_tick p s =
     (let s1 = (if 0 < time_slice (procs s p)
                then upd_proc p (\<lambda>g. g\<lparr>time_slice := time_slice g - 1\<rparr>) s else s)
      in if time_slice (procs s1 p) = 0 then upd_proc p (\<lambda>g. g\<lparr>need_resched := True\<rparr>) s1 else s1)"

definition stride_sched_class :: "'z kernel_scheme sched_class" where
  "stride_sched_class = \<lparr>sc_init = stride_init, sc_enqueue = stride_enqueue, sc_dequeue = stride_dequeue,
     sc_pick_next = stride_pick_next, sc_proc_tick = stride_proc_tick\<rparr>"

section \<open>The core\<close>

definition sched_class_enqueue ::
  "'z kernel_scheme sched_class \<Rightarrow> nat \<Rightarrow> 'z kernel_scheme \<Rightarrow> 'z kernel_scheme option" where
  "sched_class_enqueue cls p s = (if Some p \<noteq> idleproc s then sc_enqueue cls p s else Some s)"

definition sched_class_dequeue ::
  "'z kernel_scheme sched_class \<Rightarrow> nat \<Rightarrow> 'z kernel_scheme \<Rightarrow> 'z kernel_scheme option" where
  "sched_class_dequeue cls p s = sc_dequeue cls p s"

definition sched_class_pick_next ::
  "'z kernel_scheme sched_class \<Rightarrow> 'z kernel_scheme \<Rightarrow> (nat option \<times> 'z kernel_scheme) option" where
  "sched_class_pick_next cls s = sc_pick_next cls s"

definition sched_class_proc_tick ::
  "'z kernel_scheme sched_class \<Rightarrow> nat \<Rightarrow> 'z kernel_scheme \<Rightarrow> 'z kernel_scheme" where
  "sched_class_proc_tick cls p s =
     (if Some p \<noteq> idleproc s then sc_proc_tick cls p s
      else upd_proc p (\<lambda>g. g\<lparr>need_resched := True\<rparr>) s)"

definition sched_init :: "'z kernel_scheme sched_class \<Rightarrow> 'z kernel_scheme \<Rightarrow> 'z kernel_scheme" where
  "sched_init cls s =
     (let s1 = s\<lparr>klinks := list_init TimerHead (klinks s)\<rparr>;
          s2 = s1\<lparr>rq := (rq s1)\<lparr>max_time_slice := MAX_TIME_SLICE\<rparr>\<rparr>
      in sc_init cls s2)"

definition wakeup_proc ::
  "'z kernel_scheme sched_class \<Rightarrow> nat \<Rightarrow> 'z kernel_scheme \<Rightarrow> 'z kernel_scheme option" where
  "wakeup_proc cls p s =
     do {
       assertc (p_state (procs s p) \<noteq> PROC_ZOMBIE);
       if p_state (procs s p) \<noteq> PROC_RUNNABLE
       then let s1 = upd_proc p (\<lambda>g. g\<lparr>p_state := PROC_RUNNABLE, wait_state := 0\<rparr>) s
            in if Some p \<noteq> current s1 then sched_class_enqueue cls p s1 else Some s1
       else Some s
     }"

definition schedule :: "'z kernel_scheme sched_class \<Rightarrow> 'z kernel_scheme \<Rightarrow> 'z kernel_scheme option" where
  "schedule cls s =
     do {
       c \<leftarrow> current s;
       let s1 = upd_proc c (\<lambda>g. g\<lparr>need_resched := False\<rparr>) s;
       s2 \<leftarrow> (if p_state (procs s1 c) = PROC_RUNNABLE then sched_class_enqueue cls c s1 else Some s1);
       (picked, s3) \<leftarrow> sched_class_pick_next cls s2;
       s4 \<leftarrow> (case picked of Some n \<Rightarrow> sched_class_dequeue cls n s3 | None \<Rightarrow> Some s3);
       n \<leftarrow> (case picked of Some n \<Rightarrow> Some n | None \<Rightarrow> idleproc s4);
       let s5 = upd_proc n (\<lambda>g. g\<lparr>runs := runs g + 1\<rparr>) s4;
       if Some n \<noteq> current s5 then proc_run n s5 else Some s5
     }"

subsection \<open>Timers\<close>

definition upd_timer :: "nat \<Rightarrow> (timer \<Rightarrow> timer) \<Rightarrow> 'z kernel_scheme \<Rightarrow> 'z kernel_scheme" where
  "upd_timer i f s = s\<lparr>timers := (timers s)(i := f (timers s i))\<rparr>"

definition timer_init :: "nat \<Rightarrow> nat option \<Rightarrow> nat \<Rightarrow> 'z kernel_scheme \<Rightarrow> 'z kernel_scheme" where
  "timer_init i p time s =
     (let s1 = upd_timer i (\<lambda>t. t\<lparr>expires := time, t_proc := p\<rparr>) s
      in s1\<lparr>klinks := list_init (TimerLink i) (klinks s1)\<rparr>)"

partial_function (option) add_timer_loop ::
  "nat \<Rightarrow> knode \<Rightarrow> 'z kernel_scheme \<Rightarrow> (knode \<times> 'z kernel_scheme) option" where
  "add_timer_loop i le s =
     (case le of
        TimerLink j \<Rightarrow>
          if expires (timers s i) < expires (timers s j)
          then Some (le, upd_timer j (\<lambda>t. t\<lparr>expires := sub32 (expires t) (expires (timers s i))\<rparr>) s)
          else add_timer_loop i (list_next le (klinks s))
                 (upd_timer i (\<lambda>t. t\<lparr>expires := sub32 (expires t) (expires (timers s j))\<rparr>) s)
      | TimerHead \<Rightarrow> Some (le, s)
      | _ \<Rightarrow> None)"

definition add_timer :: "nat \<Rightarrow> 'z kernel_scheme \<Rightarrow> 'z kernel_scheme option" where
  "add_timer i s =
     do {
       assertc (0 < expires (timers s i) \<and> t_proc (timers s i) \<noteq> None);
       assertc (list_empty (TimerLink i) (klinks s));
       (le, s1) \<leftarrow> add_timer_loop i (list_next TimerHead (klinks s)) s;
       Some (s1\<lparr>klinks := list_add_before le (TimerLink i) (klinks s1)\<rparr>)
     }"

definition del_timer :: "nat \<Rightarrow> 'z kernel_scheme \<Rightarrow> 'z kernel_scheme option" where
  "del_timer i s =
     (if \<not> list_empty (TimerLink i) (klinks s)
      then do {
        s1 \<leftarrow> (if expires (timers s i) \<noteq> 0
               then case list_next (TimerLink i) (klinks s) of
                      TimerHead \<Rightarrow> Some s
                    | TimerLink j \<Rightarrow> Some (upd_timer j (\<lambda>t. t\<lparr>expires := u32 (expires t + expires (timers s i))\<rparr>) s)
                    | _ \<Rightarrow> None
               else Some s);
        Some (s1\<lparr>klinks := list_del_init (TimerLink i) (klinks s1)\<rparr>)
      }
      else Some s)"

partial_function (option) run_timers_loop ::
  "'z kernel_scheme sched_class \<Rightarrow> nat \<Rightarrow> 'z kernel_scheme \<Rightarrow> 'z kernel_scheme option" where
  "run_timers_loop cls i s =
     (if expires (timers s i) = 0
      then do {
        let le = list_next (TimerLink i) (klinks s);
        p \<leftarrow> t_proc (timers s i);
        assertc (wait_state (procs s p) \<noteq> 0 \<longrightarrow> wait_state (procs s p) AND WT_INTERRUPTED \<noteq> 0);
        s1 \<leftarrow> wakeup_proc cls p s;
        s2 \<leftarrow> del_timer i s1;
        (case le of TimerHead \<Rightarrow> Some s2 | TimerLink j \<Rightarrow> run_timers_loop cls j s2 | _ \<Rightarrow> None)
      }
      else Some s)"

definition run_timer_list :: "'z kernel_scheme sched_class \<Rightarrow> 'z kernel_scheme \<Rightarrow> 'z kernel_scheme option" where
  "run_timer_list cls s =
     do {
       s1 \<leftarrow> (case list_next TimerHead (klinks s) of
                TimerHead \<Rightarrow> Some s
              | TimerLink i \<Rightarrow>
                  do {
                    assertc (expires (timers s i) \<noteq> 0);
                    run_timers_loop cls i (upd_timer i (\<lambda>t. t\<lparr>expires := sub32 (expires t) 1\<rparr>) s)
                  }
              | _ \<Rightarrow> None);
       (case current s1 of None \<Rightarrow> Some s1 | Some c \<Rightarrow> Some (sched_class_proc_tick cls c s1))
     }"

section \<open>The contract of a scheduling class\<close>

lemma no_sched_upd [simp]:
  "no_sched (g\<lparr>on_rq := b\<rparr>) = no_sched g" "no_sched (g\<lparr>time_slice := n\<rparr>) = no_sched g"
  "no_sched (g\<lparr>lab6_stride := w\<rparr>) = no_sched g" "no_sched (g\<lparr>lab6_priority := w\<rparr>) = no_sched g"
  by (simp_all add: no_sched_def)

lemma refill_slice_frames [simp]:
  "klinks (refill_slice p s) = klinks s" "run_pool (refill_slice p s) = run_pool s"
  "rq (refill_slice p s) = rq s" "on_rq (procs (refill_slice p s) q) = on_rq (procs s q)"
  "lab6_priority (procs (refill_slice p s) q) = lab6_priority (procs s q)"
  "lab6_stride (procs (refill_slice p s) q) = lab6_stride (procs s q)"
  "no_sched (procs (refill_slice p s) q) = no_sched (procs s q)"
  by (auto simp: refill_slice_def)

lemma refill_slice_update: "refill_slice p s = s\<lparr>procs := procs (refill_slice p s)\<rparr>"
  by (simp add: refill_slice_def upd_proc_def)

text \<open>
  \<open>ready s Q\<close>: the run queue is well formed and holds the processes \<open>Q\<close>.  \<open>offline p s\<close>: \<open>p\<close> may be
  queued.  Both depend on the run queue's own data only (\<open>run_same\<close>).
\<close>

definition run_same :: "'z kernel_scheme \<Rightarrow> 'z kernel_scheme \<Rightarrow> bool" where
  "run_same s t \<longleftrightarrow>
     run_pool t = run_pool s \<and> rq t = rq s \<and>
     (\<forall>n. run_node n \<longrightarrow> nxt (klinks t) n = nxt (klinks s) n \<and> prv (klinks t) n = prv (klinks s) n) \<and>
     (\<forall>p. on_rq (procs t p) = on_rq (procs s p) \<and> lab6_priority (procs t p) = lab6_priority (procs s p))"

definition MAX_PROCESS :: nat where "MAX_PROCESS = 4096"

locale sched_policy =
  fixes cls :: "'z kernel_scheme sched_class"
    and ready :: "'z kernel_scheme \<Rightarrow> nat set \<Rightarrow> bool"
    and offline :: "nat \<Rightarrow> 'z kernel_scheme \<Rightarrow> bool"
  assumes enqueue_law: "ready s Q \<Longrightarrow> offline p s \<Longrightarrow> card Q < MAX_PROCESS \<Longrightarrow>
      \<exists>t. sc_enqueue cls p s = Some t \<and> ready t (insert p Q) \<and> sched_frame s t \<and>
        (\<forall>q. q \<noteq> p \<longrightarrow> offline q t = offline q s)"
    and pick_law: "ready s Q \<Longrightarrow>
      \<exists>r t. sc_pick_next cls s = Some (r, t) \<and> ready t Q \<and> sched_frame s t \<and>
        (\<forall>q. offline q t = offline q s) \<and> (case r of None \<Rightarrow> Q = {} | Some p \<Rightarrow> p \<in> Q)"
    and dequeue_law: "ready s Q \<Longrightarrow> p \<in> Q \<Longrightarrow>
      \<exists>t. sc_dequeue cls p s = Some t \<and> ready t (Q - {p}) \<and> sched_frame s t \<and> offline p t \<and>
        (\<forall>q. q \<noteq> p \<longrightarrow> offline q t = offline q s)"
    and offline_law: "ready s Q \<Longrightarrow> offline p s \<Longrightarrow> p \<notin> Q"
    and ready_other: "run_same s t \<Longrightarrow> ready t Q = ready s Q"
    and offline_other: "run_same s t \<Longrightarrow> offline p t = offline p s"

text \<open>What neither a wakeup nor a dispatch touches.\<close>

definition outside_run :: "'z kernel_scheme \<Rightarrow> 'z kernel_scheme \<Rightarrow> bool" where
  "outside_run s t \<longleftrightarrow>
     timers t = timers s \<and> waits t = waits s \<and> sem_value t = sem_value s \<and> idleproc t = idleproc s \<and>
     kernel.more t = kernel.more s \<and> initproc t = initproc s \<and> nr_process t = nr_process s \<and> last_pid t = last_pid s \<and>
     next_safe t = next_safe s \<and>
     (\<forall>n. \<not> run_node n \<longrightarrow> nxt (klinks t) n = nxt (klinks s) n \<and> prv (klinks t) n = prv (klinks s) n) \<and>
     (\<forall>p. pid (procs t p) = pid (procs s p) \<and> p_parent (procs t p) = p_parent (procs s p) \<and>
        mm (procs t p) = mm (procs s p) \<and> p_flags (procs t p) = p_flags (procs s p) \<and>
        exit_code (procs t p) = exit_code (procs s p) \<and> cptr (procs t p) = cptr (procs s p) \<and>
        yptr (procs t p) = yptr (procs s p) \<and> optr (procs t p) = optr (procs s p) \<and>
        filesp (procs t p) = filesp (procs s p) \<and> kstack (procs t p) = kstack (procs s p))"

lemma outside_run_refl [simp]: "outside_run s s"
  by (simp add: outside_run_def)

lemma outside_run_trans: "outside_run s t \<Longrightarrow> outside_run t u \<Longrightarrow> outside_run s u"
  by (simp add: outside_run_def)

lemma sched_frame_outside: "sched_frame s t \<Longrightarrow> outside_run s t"
proof -
  assume a: "sched_frame s t"
  then have t: "t = s\<lparr>procs := procs t, klinks := klinks t, run_pool := run_pool t, rq := rq t\<rparr>"
    and p: "\<And>p. no_sched (procs t p) = no_sched (procs s p)"
    and l: "\<And>n. \<not> run_node n \<Longrightarrow> nxt (klinks t) n = nxt (klinks s) n \<and> prv (klinks t) n = prv (klinks s) n"
    by (simp_all add: sched_frame_def)
  have "timers t = timers s" "waits t = waits s" "sem_value t = sem_value s" "idleproc t = idleproc s"
    "initproc t = initproc s" "nr_process t = nr_process s" "last_pid t = last_pid s" "next_safe t = next_safe s"
    "kernel.more t = kernel.more s"
    by (subst t, simp)+
  moreover have "pid (procs t q) = pid (procs s q)" "p_parent (procs t q) = p_parent (procs s q)"
    "mm (procs t q) = mm (procs s q)" "p_flags (procs t q) = p_flags (procs s q)"
    "exit_code (procs t q) = exit_code (procs s q)" "cptr (procs t q) = cptr (procs s q)"
    "yptr (procs t q) = yptr (procs s q)" "optr (procs t q) = optr (procs s q)"
    "filesp (procs t q) = filesp (procs s q)" "kstack (procs t q) = kstack (procs s q)" for q
    using arg_cong [OF p [of q], of pid] arg_cong [OF p [of q], of p_parent] arg_cong [OF p [of q], of mm]
      arg_cong [OF p [of q], of p_flags] arg_cong [OF p [of q], of exit_code] arg_cong [OF p [of q], of cptr]
      arg_cong [OF p [of q], of yptr] arg_cong [OF p [of q], of optr] arg_cong [OF p [of q], of filesp]
      arg_cong [OF p [of q], of kstack]
    by (simp_all add: no_sched_def)
  ultimately show ?thesis using l by (simp add: outside_run_def)
qed

text \<open>
  The invariant of the core over the processes \<open>D\<close>: the ready processes are exactly the runnable
  ones other than the running process and the idle process, and every other one may be queued.
\<close>

definition sched_inv ::
  "('z kernel_scheme \<Rightarrow> nat set \<Rightarrow> bool) \<Rightarrow> (nat \<Rightarrow> 'z kernel_scheme \<Rightarrow> bool) \<Rightarrow>
   nat set \<Rightarrow> nat \<Rightarrow> 'z kernel_scheme \<Rightarrow> nat set \<Rightarrow> bool" where
  "sched_inv ready offline D i s Q \<longleftrightarrow>
     finite D \<and> card D \<le> MAX_PROCESS \<and> idleproc s = Some i \<and> i \<in> D \<and> p_state (procs s i) = PROC_RUNNABLE \<and>
     (\<exists>c\<in>D. current s = Some c \<and> Q = {p\<in>D. p \<noteq> c \<and> p \<noteq> i \<and> p_state (procs s p) = PROC_RUNNABLE}) \<and>
     ready s Q \<and> (\<forall>p\<in>D. p \<notin> Q \<and> p \<noteq> i \<longrightarrow> offline p s)"

context sched_policy
begin

lemma sched_inv_transfer:
  assumes "sched_inv ready offline D i s Q" "run_same s t" "current t = current s" "idleproc t = idleproc s"
    and "\<And>p. p_state (procs t p) = p_state (procs s p)"
  shows "sched_inv ready offline D i t Q"
  using assms(1,3-5) by (simp add: sched_inv_def ready_other [OF assms(2)] offline_other [OF assms(2)])

lemma wakeup_inv:
  assumes inv: "sched_inv ready offline D i s Q" and p: "p \<in> D" "p_state (procs s p) \<noteq> PROC_ZOMBIE"
  shows "\<exists>t. wakeup_proc cls p s = Some t \<and> current t = current s \<and> outside_run s t \<and>
     sched_inv ready offline D i t (if Some p = current s \<or> p = i then Q else insert p Q) \<and>
     p_state (procs t p) = PROC_RUNNABLE \<and>
     (p_state (procs s p) \<noteq> PROC_RUNNABLE \<longrightarrow> wait_state (procs t p) = 0) \<and>
     (\<forall>q. q \<noteq> p \<longrightarrow> p_state (procs t q) = p_state (procs s q) \<and> wait_state (procs t q) = wait_state (procs s q))"
proof (cases "p_state (procs s p) = PROC_RUNNABLE")
  case True
  then have "wakeup_proc cls p s = Some s" by (simp add: wakeup_proc_def)
  moreover have "insert p Q = Q" if "Some p \<noteq> current s" "p \<noteq> i"
    using inv that True p(1) by (auto simp: sched_inv_def)
  ultimately show ?thesis using inv True by auto
next
  case False
  let ?s = "upd_proc p (\<lambda>g. g\<lparr>p_state := PROC_RUNNABLE, wait_state := 0\<rparr>) s"
  have same: "run_same s ?s" and out: "outside_run s ?s" by (simp_all add: run_same_def outside_run_def)
  have pi: "p \<noteq> i" "p \<notin> Q" using inv False by (auto simp: sched_inv_def)
  have off: "offline p s" using inv pi p(1) by (simp add: sched_inv_def)
  have rd: "ready ?s Q" "\<forall>q\<in>D. q \<notin> Q \<and> q \<noteq> i \<longrightarrow> offline q ?s"
    using inv ready_other [OF same] offline_other [OF same] by (simp_all add: sched_inv_def)
  show ?thesis
  proof (cases "Some p = current s")
    case True
    then have "wakeup_proc cls p s = Some ?s" using p(2) False by (simp add: wakeup_proc_def)
    moreover have "sched_inv ready offline D i ?s Q"
      using inv rd True pi(1) by (auto simp: sched_inv_def)
    ultimately show ?thesis using True out by auto
  next
    case no: False
    have "finite D" "Q \<subset> D" "card D \<le> MAX_PROCESS" using inv pi p(1) by (auto simp: sched_inv_def)
    then have "card Q < MAX_PROCESS" using psubset_card_mono [of D Q] by simp
    moreover have "offline p ?s" using off offline_other [OF same] by simp
    ultimately obtain t where t: "sc_enqueue cls p ?s = Some t" "ready t (insert p Q)" "sched_frame ?s t"
      "\<forall>q. q \<noteq> p \<longrightarrow> offline q t = offline q ?s" using enqueue_law rd(1) by blast
    note fr = sched_frame_fields [OF t(3)]
    have "wakeup_proc cls p s = Some t"
      using t(1) p(2) False no pi inv by (simp add: wakeup_proc_def sched_class_enqueue_def sched_inv_def)
    moreover have "sched_inv ready offline D i t (insert p Q)"
      using inv rd(2) t(2,4) p(1) pi(1) no by (auto simp: sched_inv_def fr)
    ultimately show ?thesis
      using no pi(1) outside_run_trans [OF out sched_frame_outside [OF t(3)]] by (auto simp: fr)
  qed
qed

lemma schedule_inv:
  assumes inv: "sched_inv ready offline D i s Q" and c: "current s = Some c"
  shows "\<exists>t n. schedule cls s = Some t \<and> current t = Some n \<and>
     (let R = (if p_state (procs s c) = PROC_RUNNABLE \<and> c \<noteq> i then insert c Q else Q)
      in (if R = {} then n = i else n \<in> R) \<and> sched_inv ready offline D i t (R - {n})) \<and>
     p_state (procs t n) = PROC_RUNNABLE \<and> outside_run s t \<and>
     (\<forall>p. p_state (procs t p) = p_state (procs s p) \<and> wait_state (procs t p) = wait_state (procs s p))"
proof -
  let ?R = "if p_state (procs s c) = PROC_RUNNABLE \<and> c \<noteq> i then insert c Q else Q"
  let ?s1 = "upd_proc c (\<lambda>g. g\<lparr>need_resched := False\<rparr>) s"
  have D: "finite D" "card D \<le> MAX_PROCESS" "idleproc s = Some i" "i \<in> D" "c \<in> D"
    and Q: "Q = {p\<in>D. p \<noteq> c \<and> p \<noteq> i \<and> p_state (procs s p) = PROC_RUNNABLE}"
    and idle: "p_state (procs s i) = PROC_RUNNABLE"
    using inv c by (auto simp: sched_inv_def)
  have R: "?R = {p\<in>D. p \<noteq> i \<and> p_state (procs s p) = PROC_RUNNABLE}" using Q D(5) by auto
  have same: "run_same s ?s1" by (simp add: run_same_def)
  have rd: "ready ?s1 Q" "\<And>q. q \<in> D \<Longrightarrow> q \<notin> Q \<Longrightarrow> q \<noteq> i \<Longrightarrow> offline q ?s1"
    using inv ready_other [OF same] offline_other [OF same] by (simp_all add: sched_inv_def)
  have "\<exists>s2. (if p_state (procs ?s1 c) = PROC_RUNNABLE then sched_class_enqueue cls c ?s1 else Some ?s1) = Some s2 \<and>
      ready s2 ?R \<and> sched_frame ?s1 s2 \<and> (\<forall>q. q \<in> D \<and> q \<notin> ?R \<and> q \<noteq> i \<longrightarrow> offline q s2)"
  proof (cases "p_state (procs s c) = PROC_RUNNABLE \<and> c \<noteq> i")
    case False
    then show ?thesis using rd D(3) by (auto simp: sched_class_enqueue_def)
  next
    case True
    have "card Q < card D" using psubset_card_mono [of D Q] D(1,5) Q by auto
    then obtain t where "sc_enqueue cls c ?s1 = Some t" "ready t (insert c Q)" "sched_frame ?s1 t"
      "\<forall>q. q \<noteq> c \<longrightarrow> offline q t = offline q ?s1"
      using enqueue_law [OF rd(1), of c] rd(2) [of c] True Q D(2,5) by auto
    then show ?thesis using True rd(2) D(3) by (auto simp: sched_class_enqueue_def)
  qed
  then obtain s2 where s2: "(if p_state (procs ?s1 c) = PROC_RUNNABLE then sched_class_enqueue cls c ?s1 else Some ?s1) = Some s2"
    "ready s2 ?R" "sched_frame ?s1 s2" "\<And>q. q \<in> D \<Longrightarrow> q \<notin> ?R \<Longrightarrow> q \<noteq> i \<Longrightarrow> offline q s2" by blast
  obtain r s3 where s3: "sc_pick_next cls s2 = Some (r, s3)" "ready s3 ?R" "sched_frame s2 s3"
    "\<And>q. offline q s3 = offline q s2" "case r of None \<Rightarrow> ?R = {} | Some p \<Rightarrow> p \<in> ?R"
    using pick_law [OF s2(2)] by blast
  define n where "n = (case r of None \<Rightarrow> i | Some p \<Rightarrow> p)"
  have n: "if ?R = {} then n = i else n \<in> ?R" using s3(5) by (auto simp: n_def split: option.splits)
  have "\<exists>s4. (case r of Some n \<Rightarrow> sched_class_dequeue cls n s3 | None \<Rightarrow> Some s3) = Some s4 \<and>
      ready s4 (?R - {n}) \<and> sched_frame s3 s4 \<and> (\<forall>q. q \<in> D \<and> q \<notin> ?R - {n} \<and> q \<noteq> i \<longrightarrow> offline q s4)"
  proof (cases r)
    case None
    then show ?thesis using s3 s2(4) by (auto simp: n_def)
  next
    case (Some p)
    then obtain t where t: "sc_dequeue cls p s3 = Some t" "ready t (?R - {p})" "sched_frame s3 t" "offline p t"
      "\<forall>q. q \<noteq> p \<longrightarrow> offline q t = offline q s3" using dequeue_law [OF s3(2)] s3(5) by auto
    have "offline q t" if "q \<in> D" "q \<notin> ?R - {p}" "q \<noteq> i" for q
      using t(4,5) s3(4) s2(4) [of q] that by (cases "q = p") auto
    then show ?thesis using Some t(1-3) by (auto simp: n_def sched_class_dequeue_def)
  qed
  then obtain s4 where s4: "(case r of Some n \<Rightarrow> sched_class_dequeue cls n s3 | None \<Rightarrow> Some s3) = Some s4"
    "ready s4 (?R - {n})" "sched_frame s3 s4" "\<And>q. q \<in> D \<Longrightarrow> q \<notin> ?R - {n} \<Longrightarrow> q \<noteq> i \<Longrightarrow> offline q s4" by blast
  have fr: "sched_frame ?s1 s4" using s2(3) s3(3) s4(3) sched_frame_trans by blast
  note ff = sched_frame_fields [OF fr]
  let ?s5 = "upd_proc n (\<lambda>g. g\<lparr>runs := runs g + 1\<rparr>) s4"
  have sel: "(case r of Some n \<Rightarrow> Some n | None \<Rightarrow> idleproc s4) = Some n"
    using D(3) by (auto simp: n_def ff split: option.splits)
  have "\<exists>t. (if Some n \<noteq> current ?s5 then proc_run n ?s5 else Some ?s5) = Some t \<and> current t = Some n \<and>
      run_same s4 t \<and> outside_run s4 t \<and>
      (\<forall>p. p_state (procs t p) = p_state (procs s p) \<and> wait_state (procs t p) = wait_state (procs s p))"
    using c by (auto simp: proc_run_def ff switch_to_def lsatp_def Let_def run_same_def outside_run_def)
  then obtain t where t: "(if Some n \<noteq> current ?s5 then proc_run n ?s5 else Some ?s5) = Some t"
    "current t = Some n" "run_same s4 t" "outside_run s4 t"
    "\<And>p. p_state (procs t p) = p_state (procs s p) \<and> wait_state (procs t p) = wait_state (procs s p)"
    by blast
  have out: "outside_run s t"
    using outside_run_trans [OF sched_frame_outside [OF fr] t(4)] by (simp add: outside_run_def)
  have idl: "idleproc t = idleproc s" using out by (simp add: outside_run_def)
  have st: "\<And>p. p_state (procs t p) = p_state (procs s p)" using t(5) by simp
  have "schedule cls s = Some t"
    using c s2(1) s3(1) s4(1) t(1) sel unfolding schedule_def sched_class_pick_next_def
    by (simp add: Let_def cong: option.case_cong)
  moreover have run: "p_state (procs t n) = PROC_RUNNABLE"
    using n idle R st by (auto split: if_splits)
  moreover have "sched_inv ready offline D i t (?R - {n})"
  proof -
    have "n \<in> D" using n R D(4) by (auto split: if_splits)
    moreover have "?R - {n} = {p\<in>D. p \<noteq> n \<and> p \<noteq> i \<and> p_state (procs t p) = PROC_RUNNABLE}"
      unfolding R st by blast
    moreover have "ready t (?R - {n})" using s4(2) ready_other [OF t(3)] by simp
    moreover have "offline q t" if "q \<in> D" "q \<notin> ?R - {n}" "q \<noteq> i" for q
      using s4(4) [OF that] offline_other [OF t(3)] by simp
    ultimately show ?thesis using D(1-4) idle t(2) idl st unfolding sched_inv_def by auto
  qed
  ultimately show ?thesis using t(2,5) n out by (auto simp: Let_def)
qed

end

section \<open>A concrete run queue\<close>

text \<open>Process 0 is idle, process 1 runs, processes 2 and 3 are ready, process 4 sleeps.\<close>

definition demo_proc :: proc_struct where
  "demo_proc = \<lparr>p_state = PROC_RUNNABLE, pid = 1, runs = 0, kstack = 0, need_resched = False, p_parent = None,
     mm = None, p_context = \<lparr>ctx_ra = 0, ctx_sp = 0, ctx_s = []\<rparr>, p_tf = 0, pgdir = 0, p_flags = 0,
     p_name = [], exit_code = 0, wait_state = 0, cptr = None, yptr = None, optr = None, on_rq = False,
     time_slice = 0, lab6_stride = 0, lab6_priority = 1, filesp = None\<rparr>"

definition demo_kernel :: kernel where
  "demo_kernel =
     \<lparr>procs = (\<lambda>p. if p = 4 then demo_proc\<lparr>p_state := PROC_SLEEPING, wait_state := WT_TIMER\<rparr>
                   else if p = 2 \<or> p = 3 then demo_proc\<lparr>on_rq := True\<rparr> else demo_proc),
      klinks = \<lparr>prv = (\<lambda>n. n)(RunHead := RunLink 3, RunLink 3 := RunLink 2, RunLink 2 := RunHead),
                nxt = (\<lambda>n. n)(RunHead := RunLink 2, RunLink 2 := RunLink 3, RunLink 3 := RunHead)\<rparr>,
      run_pool = \<lparr>parent = (\<lambda>_. None), lchild = (\<lambda>_. None), rchild = (\<lambda>_. None)\<rparr>,
      rq = \<lparr>proc_num = 2, max_time_slice = 5, rq_pool = None\<rparr>,
      timers = (\<lambda>_. \<lparr>expires = 0, t_proc = None\<rparr>),
      waits = (\<lambda>_. \<lparr>w_proc = None, wakeup_flags = 0, w_queue = None\<rparr>), sem_value = (\<lambda>_. 0),
      current = Some 1, idleproc = Some 0, initproc = Some 1, nr_process = 5, last_pid = 4, next_safe = 8192,
      tframes = (\<lambda>_. \<lparr>gpr = (\<lambda>_. 0), tf_status = 0, tf_epc = 0, tf_tval = 0, tf_cause = 0\<rparr>),
      cpu = \<lparr>ctx_ra = 0, ctx_sp = 0, ctx_s = []\<rparr>, satp = 0, boot_pgdir_pa = 0\<rparr>"

lemma demo_fields:
  "current demo_kernel = Some 1" "idleproc demo_kernel = Some 0"
  "p_state (procs demo_kernel p) = (if p = 4 then PROC_SLEEPING else PROC_RUNNABLE)"
  by (simp_all add: demo_kernel_def demo_proc_def)

end
