(* ===== verification/Stride.thy ===== *)
theory Stride
  imports Sched
begin

text \<open>
  The stride class \<^verbatim>\<open>default_sched_stride.c\<close> meets the same contract, its ready set being the entries
  of the skew heap, provided no priority is 0; and its comparison orders the strides correctly
  across the wrap-around of the 32-bit counters.
\<close>

section \<open>The heap behind the run pool\<close>

lemma htree_unique: "htree h t \<Longrightarrow> htree h u \<Longrightarrow> rootp t = rootp u \<Longrightarrow> t = u"
proof (induction t arbitrary: u)
  case (Node l x r)
  then obtain l' r' where "u = Node l' x r'" by (cases u) auto
  then show ?case using Node by auto
qed (metis rootp_None rootp.simps(1))

lemma skew_repr_unique: "skew_repr h root t \<Longrightarrow> skew_repr h root u \<Longrightarrow> t = u"
  by (auto simp: skew_repr_def intro: htree_unique)

lemma hdistinct_size: "hdistinct t \<Longrightarrow> size t = card (set_tree t)"
  by (metis hdistinct_def distinct_card length_inorder set_inorder)

lemma size_smerge [simp]: "size (smerge cmp t u) = size t + size u"
  by (induction cmp t u rule: smerge.induct) auto

definition stride_tree :: "'z kernel_scheme \<Rightarrow> nat tree \<Rightarrow> bool" where
  "stride_tree s t \<longleftrightarrow>
     skew_repr (run_pool s) (rq_pool (rq s)) t \<and> proc_num (rq s) = size t \<and> size t \<le> MAX_PROCESS \<and>
     (\<forall>p\<in>set_tree t. on_rq (procs s p) \<and> lab6_priority (procs s p) \<noteq> 0)"

definition stride_ready :: "'z kernel_scheme \<Rightarrow> nat set \<Rightarrow> bool" where
  "stride_ready s Q \<longleftrightarrow> (\<exists>t. set_tree t = Q \<and> stride_tree s t)"

definition stride_offline :: "nat \<Rightarrow> 'z kernel_scheme \<Rightarrow> bool" where
  "stride_offline p s \<longleftrightarrow>
     lab6_priority (procs s p) \<noteq> 0 \<and> (\<forall>t. skew_repr (run_pool s) (rq_pool (rq s)) t \<longrightarrow> p \<notin> set_tree t)"

lemma stride_offline_tree:
  "stride_tree s t \<Longrightarrow> stride_offline p s \<longleftrightarrow> lab6_priority (procs s p) \<noteq> 0 \<and> p \<notin> set_tree t"
  unfolding stride_offline_def stride_tree_def using skew_repr_unique by blast

section \<open>The contract\<close>

lemma stride_enqueue_tree:
  assumes t: "stride_tree s t" and off: "stride_offline p s" and len: "size t < MAX_PROCESS"
  shows "\<exists>s' t'. stride_enqueue p s = Some s' \<and> stride_tree s' t' \<and> mset_tree t' = mset_tree t + {#p#} \<and>
     t' = smerge (proc_stride_comp_f s) t (Node Leaf p Leaf) \<and> sched_frame s s' \<and>
     (\<forall>q. lab6_priority (procs s' q) = lab6_priority (procs s q))"
proof -
  let ?cmp = "proc_stride_comp_f s" let ?t = "smerge ?cmp t (Node Leaf p Leaf)"
  have p: "p \<notin> set_tree t" "lab6_priority (procs s p) \<noteq> 0" using off stride_offline_tree [OF t] by auto
  have r: "skew_repr (run_pool s) (rq_pool (rq s)) t" using t by (simp add: stride_tree_def)
  then obtain h where h: "skew_heap_insert ?cmp (rq_pool (rq s)) p (run_pool s) = Some (rootp ?t, h)"
    "htree h ?t" "\<forall>c. rootp ?t = Some c \<longrightarrow> parent h c = None"
    using skew_heap_insert_tree [of "run_pool s" t p ?cmp] p(1) by (auto simp: skew_repr_def)
  have hd: "hdistinct ?t" using r p(1) by (intro hdistinct_smerge) (auto simp: skew_repr_def)
  let ?s1 = "s\<lparr>run_pool := h, rq := (rq s)\<lparr>rq_pool := rootp ?t\<rparr>\<rparr>"
  let ?s3 = "upd_proc p (\<lambda>g. g\<lparr>on_rq := True\<rparr>) (refill_slice p ?s1)"
  let ?s' = "?s3\<lparr>rq := (rq ?s3)\<lparr>proc_num := u32 (proc_num (rq ?s3) + 1)\<rparr>\<rparr>"
  have "mset_tree ?t = mset_tree t + {#p#}" by simp
  moreover have "size ?t = size t + 1" by simp
  then have "stride_tree ?s' ?t"
    using t len h hd p(2) by (auto simp: stride_tree_def skew_repr_def MAX_PROCESS_def)
  moreover have "sched_frame s ?s'"
  proof -
    have "?s' = s\<lparr>procs := procs ?s', klinks := klinks ?s', run_pool := run_pool ?s', rq := rq ?s'\<rparr>"
      by (subst (1) refill_slice_update) (simp add: upd_proc_def)
    then show ?thesis unfolding sched_frame_def by simp
  qed
  moreover have "stride_enqueue p s = Some ?s'" using h(1) by (simp add: stride_enqueue_def Let_def)
  moreover have "lab6_priority (procs ?s' q) = lab6_priority (procs s q)" for q by simp
  ultimately show ?thesis by blast
qed

lemma stride_dequeue_tree:
  assumes t: "stride_tree s t" and p: "p \<in> set_tree t"
  shows "\<exists>s'. stride_dequeue p s = Some s' \<and> stride_tree s' (sremove (proc_stride_comp_f s) p t) \<and>
     sched_frame s s' \<and> procs s' = procs s"
proof -
  let ?cmp = "proc_stride_comp_f s" let ?t = "sremove ?cmp p t"
  have r: "skew_repr (run_pool s) (rq_pool (rq s)) t" using t by (simp add: stride_tree_def)
  then have hd: "hdistinct t" by (simp add: skew_repr_def)
  obtain h where h: "skew_heap_remove ?cmp (rq_pool (rq s)) p (run_pool s) = Some (rootp ?t, h)"
    "htree h ?t" "\<forall>c. rootp ?t = Some c \<longrightarrow> parent h c = None"
    using skew_heap_remove_tree [of "run_pool s" t p ?cmp] p r by (auto simp: skew_repr_def)
  let ?s1 = "s\<lparr>run_pool := h, rq := (rq s)\<lparr>rq_pool := rootp ?t\<rparr>\<rparr>"
  let ?s' = "?s1\<lparr>rq := (rq ?s1)\<lparr>proc_num := sub32 (proc_num (rq ?s1)) 1\<rparr>\<rparr>"
  have sz: "size ?t + 1 = size t" using arg_cong [OF sremove_mset [OF hd p, of ?cmp], of size] by simp
  moreover have "size t \<le> MAX_PROCESS" "proc_num (rq s) = size t" using t by (simp_all add: stride_tree_def)
  moreover from calculation have "sub32 (size t) 1 = size ?t"
    using sub32_le [of 1 "size t"] by (simp add: MAX_PROCESS_def)
  ultimately have "stride_tree ?s' ?t"
    using t h(2,3) sremove_hdistinct [OF hd] sremove_set [OF hd] by (auto simp: stride_tree_def skew_repr_def)
  moreover have "sched_frame s ?s'" by (simp add: sched_frame_def)
  moreover have "stride_dequeue p s = Some ?s'"
    using h(1) t p sz by (simp add: stride_dequeue_def stride_tree_def Let_def)
  ultimately show ?thesis by (intro exI [of _ ?s']) simp
qed

lemma stride_pick_tree:
  assumes t: "stride_tree s t"
  shows "\<exists>s'. stride_pick_next s = Some (rootp t, s') \<and> stride_tree s' t \<and> sched_frame s s' \<and>
     (\<forall>q. lab6_priority (procs s' q) = lab6_priority (procs s q))"
proof (cases t)
  case Leaf
  then show ?thesis using t by (simp add: stride_pick_next_def stride_tree_def skew_repr_def)
next
  case (Node l x r)
  let ?s = "upd_proc x (\<lambda>g. g\<lparr>lab6_stride := lab6_stride g + BIG_STRIDE div lab6_priority g\<rparr>) s"
  have "stride_pick_next s = Some (rootp t, ?s)"
    using t Node by (simp add: stride_pick_next_def stride_tree_def skew_repr_def)
  moreover have "stride_tree ?s t" using t by (simp add: stride_tree_def)
  moreover have "sched_frame s ?s" by (simp add: sched_frame_def upd_proc_def)
  ultimately show ?thesis by (intro exI [of _ ?s]) simp
qed

lemma stride_other:
  assumes "run_same s s'"
  shows "stride_tree s' t = stride_tree s t" "stride_offline p s' = stride_offline p s"
  using assms by (simp_all add: run_same_def stride_tree_def stride_offline_def)

interpretation stride: sched_policy stride_sched_class stride_ready stride_offline
proof unfold_locales
  fix s s' :: "'a kernel_scheme" and Q and p :: nat
  show "\<exists>s'. sc_enqueue stride_sched_class p s = Some s' \<and> stride_ready s' (insert p Q) \<and> sched_frame s s' \<and>
      (\<forall>q. q \<noteq> p \<longrightarrow> stride_offline q s' = stride_offline q s)"
    if h: "stride_ready s Q" "stride_offline p s" "card Q < MAX_PROCESS"
  proof -
    obtain t where t: "set_tree t = Q" "stride_tree s t" using h(1) by (auto simp: stride_ready_def)
    then have "size t < MAX_PROCESS" using h(3) hdistinct_size [of t] by (auto simp: stride_tree_def skew_repr_def)
    from stride_enqueue_tree [OF t(2) h(2) this] obtain s' t' where
      s': "stride_enqueue p s = Some s'" "stride_tree s' t'" "mset_tree t' = mset_tree t + {#p#}" "sched_frame s s'"
      "\<forall>q. lab6_priority (procs s' q) = lab6_priority (procs s q)" by blast
    have set': "set_tree t' = insert p Q" using arg_cong [OF s'(3), of set_mset] t(1) by simp
    then have "\<forall>q. q \<noteq> p \<longrightarrow> stride_offline q s' = stride_offline q s"
      using stride_offline_tree [OF s'(2)] stride_offline_tree [OF t(2)] t(1) s'(5) by auto
    then show ?thesis using s' set' by (auto simp: stride_ready_def stride_sched_class_def)
  qed
  show "\<exists>r s'. sc_pick_next stride_sched_class s = Some (r, s') \<and> stride_ready s' Q \<and> sched_frame s s' \<and>
      (\<forall>q. stride_offline q s' = stride_offline q s) \<and> (case r of None \<Rightarrow> Q = {} | Some p \<Rightarrow> p \<in> Q)"
    if h: "stride_ready s Q"
  proof -
    obtain t where t: "set_tree t = Q" "stride_tree s t" using h by (auto simp: stride_ready_def)
    from stride_pick_tree [OF t(2)] obtain s' where s': "stride_pick_next s = Some (rootp t, s')"
      "stride_tree s' t" "sched_frame s s'" "\<forall>q. lab6_priority (procs s' q) = lab6_priority (procs s q)" by blast
    moreover have "case rootp t of None \<Rightarrow> Q = {} | Some p \<Rightarrow> p \<in> Q" using t(1) by (cases t) auto
    moreover have "\<forall>q. stride_offline q s' = stride_offline q s"
      using stride_offline_tree [OF s'(2)] stride_offline_tree [OF t(2)] s'(4) by simp
    ultimately show ?thesis using t(1) by (auto simp: stride_ready_def stride_sched_class_def)
  qed
  show "\<exists>s'. sc_dequeue stride_sched_class p s = Some s' \<and> stride_ready s' (Q - {p}) \<and> sched_frame s s' \<and>
      stride_offline p s' \<and> (\<forall>q. q \<noteq> p \<longrightarrow> stride_offline q s' = stride_offline q s)"
    if h: "stride_ready s Q" "p \<in> Q"
  proof -
    obtain t where t: "set_tree t = Q" "stride_tree s t" using h(1) by (auto simp: stride_ready_def)
    let ?t = "sremove (proc_stride_comp_f s) p t"
    have set': "set_tree ?t = Q - {p}"
      using sremove_set [of t "proc_stride_comp_f s" p] t by (auto simp: stride_tree_def skew_repr_def)
    from stride_dequeue_tree [OF t(2)] t(1) h(2) obtain s' where
      s': "stride_dequeue p s = Some s'" "stride_tree s' ?t" "sched_frame s s'" "procs s' = procs s" by blast
    have "stride_offline p s'" "\<forall>q. q \<noteq> p \<longrightarrow> stride_offline q s' = stride_offline q s"
      using stride_offline_tree [OF s'(2)] stride_offline_tree [OF t(2)] s'(4) set' t h(2)
      by (auto simp: stride_tree_def)
    then show ?thesis using s' set' by (auto simp: stride_ready_def stride_sched_class_def)
  qed
  show "stride_ready s Q \<Longrightarrow> stride_offline p s \<Longrightarrow> p \<notin> Q"
    using stride_offline_tree by (auto simp: stride_ready_def)
  show "run_same s s' \<Longrightarrow> stride_ready s' Q = stride_ready s Q" by (simp add: stride_ready_def stride_other)
  show "run_same s s' \<Longrightarrow> stride_offline p s' = stride_offline p s" by (simp add: stride_other)
qed

section \<open>Scheduling under stride\<close>

text \<open>
  C11: \<^verbatim>\<open>schedule\<close> with the stride class returns and keeps the same bookkeeping as with round robin:
  the skew heap holds exactly the runnable processes other than the one that now runs and the idle
  process, and the idle process runs only when there is no other, provided every process has a
  priority other than 0.
\<close>

theorem stride_schedule_correct:
  assumes "sched_inv stride_ready stride_offline D i s Q" and "current s = Some c"
  shows "\<exists>t n. schedule stride_sched_class s = Some t \<and> current t = Some n \<and>
     (let R = (if p_state (procs s c) = PROC_RUNNABLE \<and> c \<noteq> i then insert c Q else Q)
      in (if R = {} then n = i else n \<in> R) \<and> sched_inv stride_ready stride_offline D i t (R - {n})) \<and>
     p_state (procs t n) = PROC_RUNNABLE \<and> outside_run s t \<and>
     (\<forall>p. p_state (procs t p) = p_state (procs s p) \<and> wait_state (procs t p) = wait_state (procs s p))"
  using assms by (rule stride.schedule_inv)

section \<open>The comparison\<close>

text \<open>The distance of a stride from \<open>b\<close>, counted upwards around the 32-bit circle.\<close>

definition stride_dist :: "32 word \<Rightarrow> 'z kernel_scheme \<Rightarrow> nat \<Rightarrow> int" where
  "stride_dist b s p = uint (lab6_stride (procs s p) - b)"

lemma signed_take_bit_small: "0 \<le> k \<Longrightarrow> k < 2 ^ 31 \<Longrightarrow> signed_take_bit 31 (k::int) = k"
  by (rule signed_take_bit_int_eq_self) simp_all

lemma signed_take_bit_diff:
  "0 \<le> i \<Longrightarrow> 0 \<le> j \<Longrightarrow> i < 2 ^ 31 \<Longrightarrow> j < 2 ^ 31 \<Longrightarrow> signed_take_bit 31 (i - j) = i - (j::int)"
  by (rule signed_take_bit_int_eq_self) simp_all

lemma sint_diff_small:
  fixes x y :: "32 word"
  assumes "uint x < 2 ^ 31" "uint y < 2 ^ 31"
  shows "sint (x - y) = uint x - uint y"
proof -
  have s: "sint x = uint x" "sint y = uint y"
    using assms by (simp_all add: sint_uint signed_take_bit_small)
  show ?thesis
    using assms signed_take_bit_diff [of "uint x" "uint y"] by (simp add: sint_word_ariths s)
qed

lemma stride_comp_sgn:
  assumes "stride_dist b s p < 2 ^ 31" and "stride_dist b s q < 2 ^ 31"
  shows "proc_stride_comp_f s p q = sgn (stride_dist b s p - stride_dist b s q)"
proof -
  have "sint (lab6_stride (procs s p) - lab6_stride (procs s q)) = stride_dist b s p - stride_dist b s q"
    using sint_diff_small [OF assms [unfolded stride_dist_def]] by (simp add: stride_dist_def)
  then show ?thesis by (simp add: proc_stride_comp_f_def sgn_if)
qed

lemma stride_compares:
  assumes "\<forall>p\<in>X. stride_dist b s p < 2 ^ 31"
  shows "compares (proc_stride_comp_f s) (stride_dist b s) X"
  using assms stride_comp_sgn [of b s] by (auto simp: compares_def sgn_if split: if_splits)

text \<open>
  C12: \<^verbatim>\<open>proc_stride_comp_f\<close> survives the overflow of the 32-bit strides: as long as the strides
  compared lie within \<open>2 ^ 31\<close> above some common value \<open>b\<close>, its sign is that of the difference of the
  true, unwrapped strides, wherever on the circle \<open>b\<close> is.
\<close>

theorem stride_comp_across_wrap:
  assumes "stride_dist b s p < 2 ^ 31" and "stride_dist b s q < 2 ^ 31"
  shows "proc_stride_comp_f s p q = sgn (stride_dist b s p - stride_dist b s q)"
  using assms by (rule stride_comp_sgn)

definition stride_ordered :: "'z kernel_scheme \<Rightarrow> 32 word \<Rightarrow> nat tree \<Rightarrow> bool" where
  "stride_ordered s b t \<longleftrightarrow>
     stride_tree s t \<and> hordered (stride_dist b s) t \<and> (\<forall>p\<in>set_tree t. stride_dist b s p < 2 ^ 31)"

lemma hordered_cong:
  "(\<And>p. p \<in> set_tree t \<Longrightarrow> f p = g p) \<Longrightarrow> hordered f t = hordered g t"
  by (induction t) auto

text \<open>
  C13: the stride class dispatches the process with the least stride: from an ordered run pool
  \<^verbatim>\<open>stride_pick_next\<close> and \<^verbatim>\<open>stride_dequeue\<close> return, the process they take out has the least stride
  (counted from the common base) of all ready processes and pays \<^verbatim>\<open>BIG_STRIDE / priority\<close> for it, and
  the remaining pool is ordered.
\<close>

theorem stride_dispatches_least:
  assumes "stride_ordered s b t" and "t \<noteq> Leaf"
  shows "\<exists>p s1 s2 t2. stride_pick_next s = Some (Some p, s1) \<and> stride_dequeue p s1 = Some s2 \<and>
     stride_ordered s2 b t2 \<and> mset_tree t2 = mset_tree t - {#p#} \<and>
     (\<forall>q\<in>set_tree t. stride_dist b s p \<le> stride_dist b s q) \<and>
     lab6_stride (procs s2 p) = lab6_stride (procs s p) + BIG_STRIDE div lab6_priority (procs s p)"
proof -
  obtain l p r where t: "t = Node l p r" using assms(2) by (cases t) auto
  have st: "stride_tree s t" and ord: "hordered (stride_dist b s) t"
    and win: "\<And>q. q \<in> set_tree t \<Longrightarrow> stride_dist b s q < 2 ^ 31"
    using assms(1) by (auto simp: stride_ordered_def)
  let ?s1 = "upd_proc p (\<lambda>g. g\<lparr>lab6_stride := lab6_stride g + BIG_STRIDE div lab6_priority g\<rparr>) s"
  have pick: "stride_pick_next s = Some (Some p, ?s1)"
    using st t by (simp add: stride_pick_next_def stride_tree_def skew_repr_def)
  have st1: "stride_tree ?s1 t" using st by (simp add: stride_tree_def)
  then obtain s2 where s2: "stride_dequeue p ?s1 = Some s2" "stride_tree s2 (smerge (proc_stride_comp_f ?s1) l r)"
    "procs s2 = procs ?s1" using stride_dequeue_tree [of ?s1 t p] t by auto
  have p: "p \<notin> set_tree l \<union> set_tree r" using st t by (auto simp: stride_tree_def skew_repr_def)
  have same: "stride_dist b s2 q = stride_dist b s q" "stride_dist b ?s1 q = stride_dist b s q"
    if "q \<in> set_tree l \<union> set_tree r" for q
    using p that s2(3) by (auto simp: stride_dist_def)
  have "compares (proc_stride_comp_f ?s1) (stride_dist b ?s1) (set_tree l \<union> set_tree r)"
    using win t same by (intro stride_compares) auto
  moreover have "hordered (stride_dist b ?s1) l" "hordered (stride_dist b ?s1) r"
    using ord t same hordered_cong [of l "stride_dist b ?s1" "stride_dist b s"]
      hordered_cong [of r "stride_dist b ?s1" "stride_dist b s"] by auto
  ultimately have "hordered (stride_dist b ?s1) (smerge (proc_stride_comp_f ?s1) l r)" by (rule hordered_smerge)
  moreover have "hordered (stride_dist b ?s1) u = hordered (stride_dist b s2) u" for u
    using s2(3) by (intro hordered_cong) (simp add: stride_dist_def)
  ultimately have "stride_ordered s2 b (smerge (proc_stride_comp_f ?s1) l r)"
    using s2(2) same win t by (auto simp: stride_ordered_def)
  moreover have "\<forall>q\<in>set_tree t. stride_dist b s p \<le> stride_dist b s q" using ord t by auto
  moreover have "mset_tree (smerge (proc_stride_comp_f ?s1) l r) = mset_tree t - {#p#}" using t by simp
  ultimately show ?thesis using pick s2(1,3) by (intro exI conjI) (assumption | simp)+
qed

section \<open>Witnesses\<close>

text \<open>The run pool of the processes 2 and 3; the stride of 2 is just below the wrap-around.\<close>

definition demo_stride :: kernel where
  "demo_stride =
     upd_proc 2 (\<lambda>g. g\<lparr>lab6_stride := 0xFFFFFFF0\<rparr>)
       (demo_kernel\<lparr>
          run_pool := \<lparr>parent = (\<lambda>_. None)(3 := Some 2), lchild = (\<lambda>_. None)(2 := Some 3), rchild = (\<lambda>_. None)\<rparr>,
          rq := \<lparr>proc_num = 2, max_time_slice = 5, rq_pool = Some 2\<rparr>\<rparr>)"

abbreviation demo_stride_tree :: "nat tree" where
  "demo_stride_tree \<equiv> Node (Node Leaf 3 Leaf) 2 Leaf"

lemma demo_stride_procs:
  "on_rq (procs demo_stride p) \<longleftrightarrow> p = 2 \<or> p = 3" "lab6_priority (procs demo_stride p) = 1"
  "p_state (procs demo_stride p) = (if p = 4 then PROC_SLEEPING else PROC_RUNNABLE)"
  "lab6_stride (procs demo_stride p) = (if p = 2 then 0xFFFFFFF0 else 0)"
  "current demo_stride = Some 1" "idleproc demo_stride = Some 0"
  by (simp_all add: demo_stride_def demo_kernel_def demo_proc_def)

lemma demo_stride_is_tree: "stride_tree demo_stride demo_stride_tree"
proof -
  have "skew_repr (run_pool demo_stride) (rq_pool (rq demo_stride)) demo_stride_tree"
    by (simp add: skew_repr_def demo_stride_def)
  moreover have "proc_num (rq demo_stride) = 2" by (simp add: demo_stride_def)
  ultimately show ?thesis by (simp add: stride_tree_def demo_stride_procs MAX_PROCESS_def)
qed

lemma demo_stride_inv: "sched_inv stride_ready stride_offline {0, 1, 2, 3, 4} 0 demo_stride {2, 3}"
proof -
  have "stride_ready demo_stride {2, 3}"
    unfolding stride_ready_def by (intro exI [of _ demo_stride_tree]) (auto simp: demo_stride_is_tree)
  then show ?thesis
    by (auto simp: sched_inv_def demo_stride_procs stride_offline_tree [OF demo_stride_is_tree] MAX_PROCESS_def)
qed

lemma demo_stride_dist: "stride_dist 0xFFFFFFF0 demo_stride p = (if p = 2 then 0 else 16)"
  by (simp add: stride_dist_def demo_stride_procs)

theorem stride_schedule_correct_witness:
  "\<exists>t n. schedule stride_sched_class demo_stride = Some t \<and> current t = Some n \<and> n \<in> {1, 2, 3} \<and>
     sched_inv stride_ready stride_offline {0, 1, 2, 3, 4} 0 t ({1, 2, 3} - {n})"
  using stride_schedule_correct [OF demo_stride_inv, of 1] by (auto simp: demo_stride_procs Let_def)

theorem stride_comp_across_wrap_witness:
  "proc_stride_comp_f demo_stride 2 3 = -1"
  using stride_comp_across_wrap [of "0xFFFFFFF0" demo_stride 2 3] by (simp add: demo_stride_dist)

theorem stride_dispatches_least_witness:
  "\<exists>s1 s2. stride_pick_next demo_stride = Some (Some 2, s1) \<and> stride_dequeue 2 s1 = Some s2 \<and>
     lab6_stride (procs s2 2) = 0x3FFFFFF0"
proof -
  have "stride_ordered demo_stride 0xFFFFFFF0 demo_stride_tree"
    by (simp add: stride_ordered_def demo_stride_is_tree demo_stride_dist)
  from stride_dispatches_least [OF this] obtain p s1 s2 where
    r: "stride_pick_next demo_stride = Some (Some p, s1)" "stride_dequeue p s1 = Some s2"
    "\<forall>q\<in>set_tree demo_stride_tree. stride_dist 0xFFFFFFF0 demo_stride p \<le> stride_dist 0xFFFFFFF0 demo_stride q"
    "lab6_stride (procs s2 p) = lab6_stride (procs demo_stride p) + BIG_STRIDE div lab6_priority (procs demo_stride p)"
    by auto
  have "p = 2" using r(3) by (auto simp: demo_stride_dist split: if_splits)
  with r show ?thesis by (auto simp: demo_stride_procs BIG_STRIDE_def)
qed

end
