(* ===== verification/RoundRobin.thy ===== *)
theory RoundRobin
  imports Sched
begin

text \<open>
  The round-robin class \<^verbatim>\<open>default_sched.c\<close> meets the contract of \<open>Sched\<close>: the run queue is a FIFO
  list, \<^verbatim>\<open>schedule\<close> and \<^verbatim>\<open>wakeup_proc\<close> keep the core's invariant, and every ready process gets its turn.
\<close>

section \<open>Round robin meets the contract\<close>

definition rr_list :: "'z kernel_scheme \<Rightarrow> nat list \<Rightarrow> bool" where
  "rr_list s xs \<longleftrightarrow>
     dlist (klinks s) RunHead (map RunLink xs) \<and> proc_num (rq s) = length xs \<and> length xs \<le> MAX_PROCESS \<and>
     (\<forall>p\<in>set xs. on_rq (procs s p))"

definition rr_ready :: "'z kernel_scheme \<Rightarrow> nat set \<Rightarrow> bool" where
  "rr_ready s Q \<longleftrightarrow> (\<exists>xs. set xs = Q \<and> rr_list s xs)"

definition rr_offline :: "nat \<Rightarrow> 'z kernel_scheme \<Rightarrow> bool" where
  "rr_offline p s \<longleftrightarrow> list_empty (RunLink p) (klinks s)"

lemma rr_listD:
  assumes "rr_list s xs"
  shows "dlist (klinks s) RunHead (map RunLink xs)" "distinct xs" "p \<in> set xs \<Longrightarrow> \<not> rr_offline p s"
    "p \<in> set xs \<Longrightarrow> on_rq (procs s p)"
  using assms list_empty_member [of "klinks s" RunHead "map RunLink xs" "RunLink p"]
  by (auto simp: rr_list_def rr_offline_def dlist_def distinct_map)

lemma dlist_run_ends:
  assumes "dlist h RunHead (map RunLink xs)"
  shows "run_node (prv h RunHead)" "\<And>p. p \<in> set xs \<Longrightarrow> run_node (nxt h (RunLink p)) \<and> run_node (prv h (RunLink p))"
proof -
  show "run_node (prv h RunHead)" using dlist_last [OF assms] by (cases xs rule: rev_cases) (auto simp: run_node_def)
  fix p assume "p \<in> set xs"
  then obtain us vs where "xs = us @ p # vs" by (auto dest: split_list)
  then show "run_node (nxt h (RunLink p)) \<and> run_node (prv h (RunLink p))"
    using assms dlist_next_mid [of h RunHead "map RunLink us" "RunLink p" "map RunLink vs"]
      dlist_prev_mid [of h RunHead "map RunLink us" "RunLink p" "map RunLink vs"]
    by (cases vs; cases us rule: rev_cases) (auto simp: run_node_def)
qed

lemma rr_enqueue_list:
  assumes l: "rr_list s xs" and off: "rr_offline p s" and len: "length xs < MAX_PROCESS"
  shows "\<exists>t. RR_enqueue p s = Some t \<and> rr_list t (xs @ [p]) \<and> sched_frame s t \<and>
     (\<forall>q. q \<noteq> p \<longrightarrow> rr_offline q t = rr_offline q s)"
proof -
  let ?h = "list_add_before RunHead (RunLink p) (klinks s)"
  let ?s1 = "s\<lparr>klinks := ?h\<rparr>"
  let ?s3 = "upd_proc p (\<lambda>g. g\<lparr>on_rq := True\<rparr>) (refill_slice p ?s1)"
  let ?t = "?s3\<lparr>rq := (rq ?s3)\<lparr>proc_num := u32 (proc_num (rq ?s3) + 1)\<rparr>\<rparr>"
  have pn: "p \<notin> set xs" using rr_listD(3) [OF l] off by blast
  then have d: "dlist ?h RunHead (map RunLink (xs @ [p]))"
    using list_add_tail [OF rr_listD(1) [OF l], of "RunLink p"] by auto
  then have t: "rr_list ?t (xs @ [p])"
    using l len rr_listD(4) [OF l] by (simp add: rr_list_def MAX_PROCESS_def)
  have "rr_offline q ?t = rr_offline q s" if "q \<noteq> p" for q
  proof (cases "q \<in> set xs")
    case True
    then show ?thesis using rr_listD(3) [OF l] rr_listD(3) [OF t] by simp
  next
    case False
    then have "RunLink q \<noteq> prv (klinks s) RunHead"
      using dlist_last [OF rr_listD(1) [OF l]] by (cases xs rule: rev_cases) auto
    then show ?thesis using that by (simp add: rr_offline_def list_empty_def list_add_before_def nxt_list_add_raw)
  qed
  moreover have "sched_frame s ?t"
  proof -
    have "\<not> run_node n \<Longrightarrow> n \<noteq> RunLink p \<and> n \<noteq> RunHead \<and> n \<noteq> prv (klinks s) RunHead" for n
      using dlist_run_ends(1) [OF rr_listD(1) [OF l]] by (auto simp: run_node_def)
    moreover have "no_sched (procs ?t q) = no_sched (procs s q)" for q
      by simp
    moreover have "?t = s\<lparr>procs := procs ?t, klinks := klinks ?t, run_pool := run_pool ?t, rq := rq ?t\<rparr>"
      by (subst (1) refill_slice_update) (simp add: upd_proc_def)
    ultimately show ?thesis
      unfolding sched_frame_def by (simp add: list_add_before_def nxt_list_add_raw prv_list_add_raw)
  qed
  moreover have "RR_enqueue p s = Some ?t"
    using off by (simp add: RR_enqueue_def rr_offline_def Let_def)
  ultimately show ?thesis using t by blast
qed

lemma rr_dequeue_list:
  assumes l: "rr_list s xs" and p: "p \<in> set xs"
  shows "\<exists>t. RR_dequeue p s = Some t \<and> rr_list t (remove1 p xs) \<and> sched_frame s t \<and> rr_offline p t \<and>
     (\<forall>q. q \<noteq> p \<longrightarrow> rr_offline q t = rr_offline q s)"
proof -
  let ?h = "list_del_init (RunLink p) (klinks s)"
  let ?s1 = "s\<lparr>klinks := ?h\<rparr>"
  let ?t = "?s1\<lparr>rq := (rq ?s1)\<lparr>proc_num := sub32 (proc_num (rq ?s1)) 1\<rparr>\<rparr>"
  note d = rr_listD(1) [OF l] and ends = dlist_run_ends [OF rr_listD(1) [OF l]]
  have "RunLink p \<in> set (map RunLink xs)" using p by simp
  note del = list_del_init_remove1 [OF d this]
  have "remove1 (RunLink p) (map RunLink xs) = map RunLink (remove1 p xs)" by (induction xs) auto
  then have d': "dlist ?h RunHead (map RunLink (remove1 p xs))" using del(1) by simp
  have "0 < length xs" "length xs \<le> MAX_PROCESS" using p l by (auto simp: rr_list_def)
  then have "sub32 (length xs) 1 = length xs - 1" by (intro sub32_le) (auto simp: MAX_PROCESS_def Suc_le_eq)
  then have t: "rr_list ?t (remove1 p xs)"
    using l d' p rr_listD(4) [OF l] by (auto simp: rr_list_def length_remove1 dest: subsetD [OF set_remove1_subset])
  have off: "rr_offline p ?t" using del(2) by (simp add: rr_offline_def)
  have "rr_offline q ?t = rr_offline q s" if "q \<noteq> p" for q
  proof (cases "q \<in> set xs")
    case True
    then show ?thesis using rr_listD(3) [OF l] rr_listD(3) [OF t] that by (simp add: in_set_remove1)
  next
    case False
    obtain us vs where us: "xs = us @ p # vs" using p by (auto dest: split_list)
    then have "prv (klinks s) (RunLink p) = last (RunHead # map RunLink us)"
      using dlist_prev_mid [of "klinks s" RunHead "map RunLink us" "RunLink p" "map RunLink vs"] d by simp
    then have "RunLink q \<noteq> prv (klinks s) (RunLink p)"
      using False us by (cases us rule: rev_cases) auto
    then show ?thesis
      using that by (simp add: rr_offline_def list_empty_def list_del_init_def list_del_def nxt_list_init nxt_list_del_raw)
  qed
  moreover have "sched_frame s ?t"
  proof -
    have "\<not> run_node n \<Longrightarrow> n \<noteq> RunLink p \<and> n \<noteq> nxt (klinks s) (RunLink p) \<and> n \<noteq> prv (klinks s) (RunLink p)" for n
      using ends(2) [OF p] by (auto simp: run_node_def)
    then show ?thesis
      unfolding sched_frame_def
      by (simp add: list_del_init_def list_del_def nxt_list_init prv_list_init nxt_list_del_raw prv_list_del_raw)
  qed
  moreover have "RR_dequeue p s = Some ?t"
    using rr_listD(3,4) [OF l p] by (simp add: RR_dequeue_def rr_offline_def Let_def)
  ultimately show ?thesis using t off by blast
qed

lemma rr_pick_list:
  assumes "rr_list s xs"
  shows "RR_pick_next s = Some (case xs of [] \<Rightarrow> None | x # _ \<Rightarrow> Some x, s)"
  using dlist_first [OF rr_listD(1) [OF assms]]
  by (cases xs) (simp_all add: RR_pick_next_def Let_def le2proc_run_def)

lemma rr_other:
  assumes "run_same s t"
  shows "rr_list t xs = rr_list s xs" "rr_offline p t = rr_offline p s"
proof -
  have "dlist (klinks s) RunHead (map RunLink xs) = dlist (klinks t) RunHead (map RunLink xs)"
    by (rule dlist_cong) (use assms in \<open>auto simp: run_same_def run_node_def\<close>)
  then show "rr_list t xs = rr_list s xs" using assms by (auto simp: rr_list_def run_same_def)
  show "rr_offline p t = rr_offline p s"
    using assms by (simp add: rr_offline_def list_empty_def run_same_def run_node_def)
qed

interpretation rr: sched_policy default_sched_class rr_ready rr_offline
proof unfold_locales
  fix s t :: "'a kernel_scheme" and Q and p :: nat
  show "\<exists>t. sc_enqueue default_sched_class p s = Some t \<and> rr_ready t (insert p Q) \<and> sched_frame s t \<and>
      (\<forall>q. q \<noteq> p \<longrightarrow> rr_offline q t = rr_offline q s)"
    if r: "rr_ready s Q" "rr_offline p s" "card Q < MAX_PROCESS"
  proof -
    obtain xs where xs: "set xs = Q" "rr_list s xs" using r(1) by (auto simp: rr_ready_def)
    then have "length xs < MAX_PROCESS" using r(3) rr_listD(2) by (metis distinct_card)
    from rr_enqueue_list [OF xs(2) r(2) this] xs(1) show ?thesis
      unfolding rr_ready_def default_sched_class_def sched_class.simps
      by (elim exE conjE) (intro exI conjI, assumption, auto)
  qed
  show "\<exists>r t. sc_pick_next default_sched_class s = Some (r, t) \<and> rr_ready t Q \<and> sched_frame s t \<and>
      (\<forall>q. rr_offline q t = rr_offline q s) \<and> (case r of None \<Rightarrow> Q = {} | Some p \<Rightarrow> p \<in> Q)"
    if r: "rr_ready s Q"
  proof -
    obtain xs where xs: "set xs = Q" "rr_list s xs" using r by (auto simp: rr_ready_def)
    from rr_pick_list [OF xs(2)] r xs(1) show ?thesis
      by (cases xs) (auto simp add: default_sched_class_def)
  qed
  show "\<exists>t. sc_dequeue default_sched_class p s = Some t \<and> rr_ready t (Q - {p}) \<and> sched_frame s t \<and>
      rr_offline p t \<and> (\<forall>q. q \<noteq> p \<longrightarrow> rr_offline q t = rr_offline q s)"
    if r: "rr_ready s Q" "p \<in> Q"
  proof -
    obtain xs where xs: "set xs = Q" "rr_list s xs" using r(1) by (auto simp: rr_ready_def)
    moreover have "set (remove1 p xs) = Q - {p}" using rr_listD(2) [OF xs(2)] xs(1) by simp
    ultimately show ?thesis
      using rr_dequeue_list [of s xs p] r(2) unfolding rr_ready_def default_sched_class_def sched_class.simps
      by metis
  qed
  show "rr_ready s Q \<Longrightarrow> rr_offline p s \<Longrightarrow> p \<notin> Q"
    using rr_listD(3) by (auto simp: rr_ready_def)
  show "run_same s t \<Longrightarrow> rr_ready t Q = rr_ready s Q" by (simp add: rr_ready_def rr_other)
  show "run_same s t \<Longrightarrow> rr_offline p t = rr_offline p s" by (simp add: rr_other)
qed

section \<open>Scheduling under round robin\<close>

text \<open>
  C9: \<^verbatim>\<open>schedule\<close> under round robin always returns (no assertion of the class fails), and keeps the
  bookkeeping exact: the run queue holds precisely the runnable processes other than the one now
  running and the idle process; the chosen process is runnable and came from the queue (to which a
  still runnable caller was first returned), and the idle process runs only when no other process
  is runnable.
\<close>

theorem rr_schedule_correct:
  assumes "sched_inv rr_ready rr_offline D i s Q" and "current s = Some c"
  shows "\<exists>t n. schedule default_sched_class s = Some t \<and> current t = Some n \<and>
     (let R = (if p_state (procs s c) = PROC_RUNNABLE \<and> c \<noteq> i then insert c Q else Q)
      in (if R = {} then n = i else n \<in> R) \<and> sched_inv rr_ready rr_offline D i t (R - {n})) \<and>
     p_state (procs t n) = PROC_RUNNABLE \<and> outside_run s t \<and>
     (\<forall>p. p_state (procs t p) = p_state (procs s p) \<and> wait_state (procs t p) = wait_state (procs s p))"
  using assms by (rule rr.schedule_inv)

text \<open>
  \<^verbatim>\<open>wakeup_proc\<close> of any process that is not a zombie returns with the process runnable, its wait
  state cleared if it was asleep, and queued exactly when it is neither running nor idle; no other
  process changes, so a wakeup is never lost and never queues a process twice.
\<close>

theorem rr_wakeup_correct:
  assumes "sched_inv rr_ready rr_offline D i s Q" and "p \<in> D" and "p_state (procs s p) \<noteq> PROC_ZOMBIE"
  shows "\<exists>t. wakeup_proc default_sched_class p s = Some t \<and> current t = current s \<and> outside_run s t \<and>
     sched_inv rr_ready rr_offline D i t (if Some p = current s \<or> p = i then Q else insert p Q) \<and>
     p_state (procs t p) = PROC_RUNNABLE \<and>
     (p_state (procs s p) \<noteq> PROC_RUNNABLE \<longrightarrow> wait_state (procs t p) = 0) \<and>
     (\<forall>q. q \<noteq> p \<longrightarrow> p_state (procs t q) = p_state (procs s q) \<and> wait_state (procs t q) = wait_state (procs s q))"
  using assms by (rule rr.wakeup_inv)

section \<open>Fairness\<close>

text \<open>
  \<open>rr_running s c xs\<close>: \<open>c\<close> is running, \<open>xs\<close> is the ready queue in order, all of them are runnable
  and none is the idle process.
\<close>

definition rr_running :: "'z kernel_scheme \<Rightarrow> nat \<Rightarrow> nat list \<Rightarrow> bool" where
  "rr_running s c xs \<longleftrightarrow>
     current s = Some c \<and> rr_list s xs \<and> length xs < MAX_PROCESS \<and> rr_offline c s \<and>
     p_state (procs s c) = PROC_RUNNABLE \<and> (\<forall>p\<in>insert c (set xs). idleproc s \<noteq> Some p \<and> p_state (procs s p) = PROC_RUNNABLE)"

lemma rr_running_step:
  assumes "rr_running s c xs"
  shows "\<exists>t. schedule default_sched_class s = Some t \<and> rr_running t (hd (xs @ [c])) (tl (xs @ [c]))"
proof -
  let ?s1 = "upd_proc c (\<lambda>g. g\<lparr>need_resched := False\<rparr>) s"
  have l: "rr_list s xs" and c: "current s = Some c" "p_state (procs s c) = PROC_RUNNABLE" "idleproc s \<noteq> Some c"
    and len: "length xs < MAX_PROCESS" and off: "rr_offline c s"
    and all: "\<And>p. p \<in> insert c (set xs) \<Longrightarrow> idleproc s \<noteq> Some p \<and> p_state (procs s p) = PROC_RUNNABLE"
    using assms by (auto simp: rr_running_def)
  have same: "run_same s ?s1" by (simp add: run_same_def)
  obtain s2 where s2: "RR_enqueue c ?s1 = Some s2" "rr_list s2 (xs @ [c])" "sched_frame ?s1 s2"
    using rr_enqueue_list [of ?s1 xs c] rr_other [OF same] l off len by auto
  obtain n ys where ys: "xs @ [c] = n # ys" by (cases "xs @ [c]") auto
  have pick: "RR_pick_next s2 = Some (Some n, s2)" using rr_pick_list [OF s2(2)] ys by simp
  obtain s4 where s4: "RR_dequeue n s2 = Some s4" "rr_list s4 ys" "sched_frame s2 s4" "rr_offline n s4"
    using rr_dequeue_list [OF s2(2), of n] ys by auto
  note ff = sched_frame_fields [OF sched_frame_trans [OF s2(3) s4(3)]]
  let ?s5 = "upd_proc n (\<lambda>g. g\<lparr>runs := runs g + 1\<rparr>) s4"
  have "\<exists>t. (if Some n \<noteq> current ?s5 then proc_run n ?s5 else Some ?s5) = Some t \<and> current t = Some n \<and>
      run_same s4 t \<and> idleproc t = idleproc s \<and> (\<forall>p. p_state (procs t p) = p_state (procs s p))"
    using c by (auto simp: proc_run_def ff switch_to_def lsatp_def Let_def run_same_def)
  then obtain t where t: "(if Some n \<noteq> current ?s5 then proc_run n ?s5 else Some ?s5) = Some t"
    "current t = Some n" "run_same s4 t" "idleproc t = idleproc s" "\<And>p. p_state (procs t p) = p_state (procs s p)"
    by blast
  have "schedule default_sched_class s = Some t"
    using c s2(1) pick s4(1) t(1)
    by (simp add: schedule_def sched_class_enqueue_def sched_class_dequeue_def sched_class_pick_next_def
        default_sched_class_def Let_def)
  moreover have "rr_list t ys" "rr_offline n t" using s4(2,4) rr_other [OF t(3)] by simp_all
  moreover have "insert n (set ys) = insert c (set xs)" using arg_cong [OF ys, of set] by auto
  moreover have "length ys = length xs" using arg_cong [OF ys, of length] by simp
  ultimately have "schedule default_sched_class s = Some t \<and> rr_running t n ys"
    using all t(2,4,5) len unfolding rr_running_def by auto
  then show ?thesis using ys by auto
qed

fun sched_rounds :: "nat \<Rightarrow> 'z kernel_scheme \<Rightarrow> 'z kernel_scheme option" where
  "sched_rounds 0 s = Some s"
| "sched_rounds (Suc k) s = do { t \<leftarrow> sched_rounds k s; schedule default_sched_class t }"

text \<open>
  C10: round robin is fair: if the running process and the ready queue \<open>xs\<close> stay runnable, the
  \<open>k\<close>-th call of \<^verbatim>\<open>schedule\<close> returns and hands the processor to the \<open>k\<close>-th process of the cycle
  \<open>c # xs\<close>, so every process runs once in every \<open>length xs + 1\<close> rounds, in queue order.
\<close>

theorem rr_fair:
  assumes "rr_running s c xs"
  shows "\<exists>t. sched_rounds k s = Some t \<and> current t = Some ((c # xs) ! (k mod length (c # xs)))"
proof -
  have "\<exists>t. sched_rounds k s = Some t \<and> rr_running t (hd (rotate k (c # xs))) (tl (rotate k (c # xs)))"
  proof (induction k)
    case (Suc k)
    then obtain t where t: "sched_rounds k s = Some t"
      "rr_running t (hd (rotate k (c # xs))) (tl (rotate k (c # xs)))" by blast
    obtain y ys where y: "rotate k (c # xs) = y # ys" by (cases "rotate k (c # xs)") auto
    then have "rotate (Suc k) (c # xs) = ys @ [y]" by (simp add: rotate_Suc)
    then show ?case using rr_running_step [OF t(2)] t(1) y by auto
  qed (use assms in simp)
  then show ?thesis using hd_rotate_conv_nth [of "c # xs" k] by (auto simp: rr_running_def)
qed

section \<open>Witnesses\<close>

lemma demo_rr_list: "rr_list demo_kernel [2, 3]"
  by (simp add: rr_list_def dlist_def demo_kernel_def demo_proc_def MAX_PROCESS_def)

lemma demo_offline: "rr_offline p demo_kernel \<longleftrightarrow> p \<noteq> 2 \<and> p \<noteq> 3"
  by (simp add: rr_offline_def list_empty_def demo_kernel_def)

lemma demo_inv: "sched_inv rr_ready rr_offline {0, 1, 2, 3, 4} 0 demo_kernel {2, 3}"
proof -
  have "rr_ready demo_kernel {2, 3}" unfolding rr_ready_def by (intro exI [of _ "[2, 3]"]) (simp add: demo_rr_list)
  then show ?thesis by (auto simp: sched_inv_def demo_fields demo_offline MAX_PROCESS_def)
qed

lemma demo_running: "rr_running demo_kernel 1 [2, 3]"
  by (simp add: rr_running_def demo_fields demo_rr_list demo_offline MAX_PROCESS_def)

theorem rr_schedule_correct_witness:
  "\<exists>t n. schedule default_sched_class demo_kernel = Some t \<and> current t = Some n \<and> n \<in> {1, 2, 3} \<and>
     sched_inv rr_ready rr_offline {0, 1, 2, 3, 4} 0 t ({1, 2, 3} - {n})"
  using rr_schedule_correct [OF demo_inv, of 1] by (auto simp: demo_fields Let_def)

theorem rr_wakeup_correct_witness:
  "\<exists>t. wakeup_proc default_sched_class 4 demo_kernel = Some t \<and>
     sched_inv rr_ready rr_offline {0, 1, 2, 3, 4} 0 t {4, 2, 3} \<and> p_state (procs t 4) = PROC_RUNNABLE"
  using rr_wakeup_correct [OF demo_inv, of 4] by (auto simp: demo_fields)

theorem rr_fair_witness:
  "\<exists>t. sched_rounds 5 demo_kernel = Some t \<and> current t = Some 3"
  using rr_fair [OF demo_running, of 5] by (auto simp: demo_fields)

end
