(* ===== verification/Timers.thy ===== *)
theory Timers
  imports RoundRobin
begin

text \<open>
  The timer list of \<^verbatim>\<open>sched.c\<close>.  Each timer stores the ticks that remain after the timer before it, so
  the deadline of a timer is a sum over a prefix of the list; adding and deleting keep all other
  deadlines, and a clock tick lowers every deadline by one and wakes the processes whose time has come.
\<close>

section \<open>Deadlines\<close>

fun deadline :: "(nat \<Rightarrow> nat) \<Rightarrow> nat list \<Rightarrow> nat \<Rightarrow> nat" where
  "deadline f [] j = 0"
| "deadline f (y # ys) j = f y + (if j = y then 0 else deadline f ys j)"

lemma deadline_append:
  "deadline f (xs @ ys) j = (if j \<in> set xs then deadline f xs j else sum_list (map f xs) + deadline f ys j)"
  by (induction xs) auto

lemma deadline_cong: "(\<And>y. y \<in> set xs \<Longrightarrow> f y = g y) \<Longrightarrow> deadline f xs j = deadline g xs j"
  by (induction xs) auto

lemma deadline_le: "deadline f xs j \<le> sum_list (map f xs)"
  by (induction xs) auto

abbreviation ticks :: "'z kernel_scheme \<Rightarrow> nat \<Rightarrow> nat" where
  "ticks s j \<equiv> expires (timers s j)"

definition timer_list :: "'z kernel_scheme \<Rightarrow> nat list \<Rightarrow> bool" where
  "timer_list s xs \<longleftrightarrow>
     dlist (klinks s) TimerHead (map TimerLink xs) \<and> sum_list (map (ticks s) xs) < 2 ^ 32 \<and>
     (\<forall>j\<in>set xs. t_proc (timers s j) \<noteq> None) \<and> (xs \<noteq> [] \<longrightarrow> 0 < ticks s (hd xs))"

lemma timer_listD:
  assumes "timer_list s xs"
  shows "dlist (klinks s) TimerHead (map TimerLink xs)" "distinct xs" "j \<in> set xs \<Longrightarrow> ticks s j < 2 ^ 32"
proof -
  show "dlist (klinks s) TimerHead (map TimerLink xs)" using assms by (simp add: timer_list_def)
  then show "distinct xs" by (auto simp: dlist_def distinct_map)
  show "j \<in> set xs \<Longrightarrow> ticks s j < 2 ^ 32"
    using assms member_le_sum_list [of "ticks s j" "map (ticks s) xs"] by (auto simp: timer_list_def)
qed

lemma upd_timer_frames [simp]:
  "klinks (upd_timer j f s) = klinks s" "procs (upd_timer j f s) = procs s" "current (upd_timer j f s) = current s"
  "timers (upd_timer j f s) = (timers s)(j := f (timers s j))"
  by (simp_all add: upd_timer_def)

section \<open>Adding a timer\<close>

lemma add_timer_loop_path:
  assumes "npath (klinks s) a (map TimerLink vs) TimerHead" "i \<notin> set vs" "distinct vs"
    and "ticks s i < 2 ^ 32" "\<forall>j\<in>set vs. ticks s j < 2 ^ 32"
  shows "\<exists>as bs s'. vs = as @ bs \<and>
     add_timer_loop i (nxt (klinks s) a) s = Some (hd (map TimerLink bs @ [TimerHead]), s') \<and>
     s' = s\<lparr>timers := timers s'\<rparr> \<and> sum_list (map (ticks s) as) \<le> ticks s i \<and>
     ticks s' i = ticks s i - sum_list (map (ticks s) as) \<and>
     (\<forall>j. j \<noteq> i \<and> (bs \<noteq> [] \<longrightarrow> j \<noteq> hd bs) \<longrightarrow> timers s' j = timers s j) \<and>
     (bs \<noteq> [] \<longrightarrow> ticks s' i < ticks s (hd bs) \<and> ticks s' (hd bs) = ticks s (hd bs) - ticks s' i) \<and>
     (\<forall>j. t_proc (timers s' j) = t_proc (timers s j))"
  using assms
proof (induction vs arbitrary: a s)
  case Nil
  then show ?case by (subst add_timer_loop.simps) (auto intro!: exI [of _ s])
next
  case (Cons j vs)
  have le: "nxt (klinks s) a = TimerLink j" "npath (klinks s) (TimerLink j) (map TimerLink vs) TimerHead"
    using Cons.prems(1) by simp_all
  have ij: "i \<noteq> j" "j \<notin> set vs" using Cons.prems(2,3) by auto
  show ?case
  proof (cases "ticks s i < ticks s j")
    case True
    let ?s = "upd_timer j (\<lambda>t. t\<lparr>expires := sub32 (expires t) (ticks s i)\<rparr>) s"
    have "add_timer_loop i (nxt (klinks s) a) s = Some (TimerLink j, ?s)"
      using True le by (subst add_timer_loop.simps) simp
    moreover have "sub32 (ticks s j) (ticks s i) = ticks s j - ticks s i"
      using True Cons.prems(5) by (intro sub32_le) auto
    moreover have "?s = s\<lparr>timers := timers ?s\<rparr>" by (simp add: upd_timer_def)
    ultimately show ?thesis
      using True ij by (intro ex3I [where a = "[]" and b = "j # vs" and c = ?s] conjI) (assumption | simp)+
  next
    case False
    let ?s = "upd_timer i (\<lambda>t. t\<lparr>expires := sub32 (expires t) (ticks s j)\<rparr>) s"
    have e: "sub32 (ticks s i) (ticks s j) = ticks s i - ticks s j"
      using False Cons.prems(4) by (intro sub32_le) auto
    have step: "add_timer_loop i (nxt (klinks s) a) s = add_timer_loop i (nxt (klinks ?s) (TimerLink j)) ?s"
      using False le by (subst add_timer_loop.simps) simp
    have same: "ticks ?s k = ticks s k" if "k \<in> set vs" for k using that Cons.prems(2) by auto
    have "\<exists>as bs s'. vs = as @ bs \<and>
     add_timer_loop i (nxt (klinks ?s) (TimerLink j)) ?s = Some (hd (map TimerLink bs @ [TimerHead]), s') \<and>
     s' = ?s\<lparr>timers := timers s'\<rparr> \<and> sum_list (map (ticks ?s) as) \<le> ticks ?s i \<and>
     ticks s' i = ticks ?s i - sum_list (map (ticks ?s) as) \<and>
     (\<forall>j. j \<noteq> i \<and> (bs \<noteq> [] \<longrightarrow> j \<noteq> hd bs) \<longrightarrow> timers s' j = timers ?s j) \<and>
     (bs \<noteq> [] \<longrightarrow> ticks s' i < ticks ?s (hd bs) \<and> ticks s' (hd bs) = ticks ?s (hd bs) - ticks s' i) \<and>
     (\<forall>j. t_proc (timers s' j) = t_proc (timers ?s j))"
      by (rule Cons.IH) (use le(2) Cons.prems e same in auto)
    then obtain as bs s' where r: "vs = as @ bs"
      "add_timer_loop i (nxt (klinks ?s) (TimerLink j)) ?s = Some (hd (map TimerLink bs @ [TimerHead]), s')"
      "s' = ?s\<lparr>timers := timers s'\<rparr>" "sum_list (map (ticks ?s) as) \<le> ticks ?s i"
      "ticks s' i = ticks ?s i - sum_list (map (ticks ?s) as)"
      "\<forall>j. j \<noteq> i \<and> (bs \<noteq> [] \<longrightarrow> j \<noteq> hd bs) \<longrightarrow> timers s' j = timers ?s j"
      "bs \<noteq> [] \<longrightarrow> ticks s' i < ticks ?s (hd bs) \<and> ticks s' (hd bs) = ticks ?s (hd bs) - ticks s' i"
      "\<forall>j. t_proc (timers s' j) = t_proc (timers ?s j)" by blast
    have as: "map (ticks ?s) as = map (ticks s) as" using same r(1) by (intro map_cong) auto
    have "s' = s\<lparr>timers := timers s'\<rparr>" by (subst r(3)) (simp add: upd_timer_def)
    moreover have "bs \<noteq> [] \<Longrightarrow> ticks ?s (hd bs) = ticks s (hd bs)" using same [of "hd bs"] r(1) by auto
    ultimately show ?thesis
      using r(1) step r(2,4-8) False e unfolding as
      by (intro ex3I [where a = "j # as" and b = bs and c = s']) auto
  qed
qed

text \<open>
  C14: \<^verbatim>\<open>add_timer\<close> ends and inserts the timer by its deadline: the new timer fires after exactly the
  ticks it asked for, all timers before it fire no later, all timers after it later, and no other
  timer's deadline moves.
\<close>

theorem add_timer_correct:
  assumes "timer_list s xs" and "i \<notin> set xs" and "list_empty (TimerLink i) (klinks s)"
    and "0 < ticks s i" and "ticks s i < 2 ^ 32" and "t_proc (timers s i) \<noteq> None"
    and "sum_list (map (ticks s) xs) + ticks s i < 2 ^ 32"
  shows "\<exists>t as bs. add_timer i s = Some t \<and> xs = as @ bs \<and> timer_list t (as @ i # bs) \<and>
     deadline (ticks t) (as @ i # bs) i = ticks s i \<and>
     (\<forall>j\<in>set xs. deadline (ticks t) (as @ i # bs) j = deadline (ticks s) xs j) \<and>
     (\<forall>j\<in>set as. deadline (ticks s) xs j \<le> ticks s i) \<and> (\<forall>j\<in>set bs. ticks s i < deadline (ticks s) xs j)"
proof -
  note d = timer_listD(1) [OF assms(1)] and dis = timer_listD(2) [OF assms(1)]
  have "npath (klinks s) TimerHead (map TimerLink xs) TimerHead" using dlist_npath [OF d] .
  moreover have "\<forall>j\<in>set xs. ticks s j < 2 ^ 32" using timer_listD(3) [OF assms(1)] by blast
  ultimately obtain as bs s' where r: "xs = as @ bs"
    "add_timer_loop i (nxt (klinks s) TimerHead) s = Some (hd (map TimerLink bs @ [TimerHead]), s')"
    "s' = s\<lparr>timers := timers s'\<rparr>" "sum_list (map (ticks s) as) \<le> ticks s i"
    "ticks s' i = ticks s i - sum_list (map (ticks s) as)"
    "\<And>j. j \<noteq> i \<Longrightarrow> bs \<noteq> [] \<longrightarrow> j \<noteq> hd bs \<Longrightarrow> timers s' j = timers s j"
    "bs \<noteq> [] \<Longrightarrow> ticks s' i < ticks s (hd bs) \<and> ticks s' (hd bs) = ticks s (hd bs) - ticks s' i"
    "\<And>j. t_proc (timers s' j) = t_proc (timers s j)"
    using add_timer_loop_path [of s TimerHead xs i] assms(2,5) dis by blast
  let ?le = "hd (map TimerLink bs @ [TimerHead])"
  let ?t = "s'\<lparr>klinks := list_add_before ?le (TimerLink i) (klinks s')\<rparr>"
  have kl: "klinks s' = klinks s" by (subst r(3)) simp
  have run: "add_timer i s = Some ?t"
    using assms(3,4,6) r(2) by (simp add: add_timer_def)
  have tt: "ticks ?t = ticks s'" "timers ?t = timers s'" by simp_all
  have ni: "TimerLink i \<notin> insert TimerHead (set (map TimerLink xs))" using assms(2) by auto
  have dl: "dlist (klinks ?t) TimerHead (map TimerLink (as @ i # bs))"
  proof (cases bs)
    case Nil
    then show ?thesis using list_add_tail [OF d ni] r(1) kl by simp
  next
    case (Cons b bs')
    then show ?thesis
      using list_add_before_mid [of "klinks s" TimerHead "map TimerLink as" "TimerLink b" "map TimerLink bs'" "TimerLink i"]
        d ni r(1) kl by simp
  qed
  have asm: "ticks s' j = ticks s j" if "j \<in> set as" for j
  proof -
    have "j \<noteq> i" "bs \<noteq> [] \<longrightarrow> j \<noteq> hd bs" using that r(1) assms(2) dis by (cases bs; auto)+
    then show ?thesis using r(6) by simp
  qed
  then have asl: "sum_list (map (ticks s') as) = sum_list (map (ticks s) as)"
    by (intro arg_cong [of _ _ sum_list] map_cong refl)
  have tail: "sum_list (map (ticks s') (i # bs)) + sum_list (map (ticks s) as) =
      (if bs = [] then ticks s i else sum_list (map (ticks s) xs))"
  proof (cases bs)
    case (Cons b bs')
    have "sum_list (map (ticks s') bs') = sum_list (map (ticks s) bs')"
    proof (intro arg_cong [of _ _ sum_list] map_cong refl)
      fix x assume "x \<in> set bs'"
      then have "x \<noteq> i" "bs \<noteq> [] \<longrightarrow> x \<noteq> hd bs" using r(1) assms(2) dis Cons by auto
      then show "ticks s' x = ticks s x" using r(6) by simp
    qed
    moreover have "ticks s' i < ticks s b" "ticks s' b = ticks s b - ticks s' i" using r(7) Cons by simp_all
    moreover have "ticks s' i + sum_list (map (ticks s) as) = ticks s i" using r(4,5) by simp
    ultimately show ?thesis using r(1) Cons by simp
  qed (use r(4,5) in simp)
  have dead: "deadline (ticks s') (as @ i # bs) i = ticks s i"
    using r(1,4,5) asl assms(2) by (simp add: deadline_append)
  have others: "deadline (ticks s') (as @ i # bs) j = deadline (ticks s) xs j" if "j \<in> set xs" for j
  proof (cases "j \<in> set as")
    case True
    then show ?thesis using r(1) deadline_cong [of as "ticks s'" "ticks s" j] asm by (simp add: deadline_append)
  next
    case False
    then obtain b bs' where b: "bs = b # bs'" using \<open>j \<in> set xs\<close> r(1) False by (cases bs) auto
    have "deadline (ticks s') bs' j = deadline (ticks s) bs' j"
    proof (rule deadline_cong)
      fix x assume "x \<in> set bs'"
      then have "x \<noteq> i" "bs \<noteq> [] \<longrightarrow> x \<noteq> hd bs" using r(1) assms(2) dis b by auto
      then show "ticks s' x = ticks s x" using r(6) by simp
    qed
    moreover have "j \<noteq> i" using that assms(2) by auto
    moreover have "ticks s' i < ticks s b" "ticks s' b = ticks s b - ticks s' i" using r(7) b by simp_all
    moreover have "ticks s' i + sum_list (map (ticks s) as) = ticks s i" using r(4,5) by simp
    ultimately show ?thesis using False r(1) b asl by (simp add: deadline_append)
  qed
  have "timer_list ?t (as @ i # bs)"
  proof -
    have "sum_list (map (ticks s') (as @ i # bs)) < 2 ^ 32"
      using tail asl assms(5,7) by (cases "bs = []") simp_all
    moreover have "0 < ticks s' (hd (as @ i # bs))"
      using assms(1,4) r(1,5) asm by (cases as) (auto simp: timer_list_def)
    ultimately show ?thesis
      using dl r(8) assms(1,6) r(1) by (auto simp: timer_list_def)
  qed
  moreover have "deadline (ticks s) xs j \<le> ticks s i" if "j \<in> set as" for j
    using that r(1,4) deadline_le [of "ticks s" as j] by (simp add: deadline_append)
  moreover have "ticks s i < deadline (ticks s) xs j" if "j \<in> set bs" for j
  proof -
    obtain b bs' where b: "bs = b # bs'" using \<open>j \<in> set bs\<close> by (cases bs) auto
    have "j \<notin> set as" using that r(1) dis by auto
    moreover have "ticks s' i < ticks s b" using r(7) b by simp
    then have "ticks s i < sum_list (map (ticks s) as) + ticks s b" using r(4,5) by linarith
    ultimately show ?thesis using r(1) b by (simp add: deadline_append)
  qed
  ultimately show ?thesis
    using run r(1) dead others by (intro ex3I [where a = ?t and b = as and c = bs]) simp
qed

section \<open>Deleting a timer\<close>

lemma del_timer_at:
  assumes t: "timer_list s (as @ i # bs)"
  shows "\<exists>t. del_timer i s = Some t \<and> dlist (klinks t) TimerHead (map TimerLink (as @ bs)) \<and>
     list_empty (TimerLink i) (klinks t) \<and> t = s\<lparr>timers := timers t, klinks := klinks t\<rparr> \<and>
     (\<forall>j. (bs \<noteq> [] \<longrightarrow> j \<noteq> hd bs) \<longrightarrow> timers t j = timers s j) \<and>
     (bs \<noteq> [] \<longrightarrow> ticks t (hd bs) = ticks s (hd bs) + ticks s i) \<and>
     (\<forall>j. t_proc (timers t j) = t_proc (timers s j)) \<and>
     (\<forall>n. (\<forall>j. n \<noteq> TimerLink j) \<and> n \<noteq> TimerHead \<longrightarrow>
        nxt (klinks t) n = nxt (klinks s) n \<and> prv (klinks t) n = prv (klinks s) n)"
proof -
  note d = timer_listD(1) [OF t]
  have mem: "TimerLink i \<in> set (map TimerLink (as @ i # bs))" by simp
  have ne: "\<not> list_empty (TimerLink i) (klinks s)" by (rule list_empty_member [OF d mem])
  have nx: "nxt (klinks s) (TimerLink i) = hd (map TimerLink bs @ [TimerHead])"
    and pv: "prv (klinks s) (TimerLink i) = last (TimerHead # map TimerLink as)"
    using d dlist_next_mid [of "klinks s" TimerHead "map TimerLink as" "TimerLink i" "map TimerLink bs"]
      dlist_prev_mid [of "klinks s" TimerHead "map TimerLink as" "TimerLink i" "map TimerLink bs"] by simp_all
  have "remove1 (TimerLink i) (map TimerLink (as @ i # bs)) = map TimerLink (as @ bs)"
    using timer_listD(2) [OF t] by (auto simp: remove1_append)
  note del = list_del_init_remove1 [OF d mem, unfolded this]
  let ?s = "case bs of [] \<Rightarrow> s | b # _ \<Rightarrow> upd_timer b (\<lambda>t. t\<lparr>expires := u32 (expires t + ticks s i)\<rparr>) s"
  let ?t = "?s\<lparr>klinks := list_del_init (TimerLink i) (klinks s)\<rparr>"
  have sum: "ticks s (hd bs) + ticks s i < 2 ^ 32" if "bs \<noteq> []"
    using t that by (cases bs) (simp_all add: timer_list_def)
  have run: "del_timer i s = Some (if ticks s i \<noteq> 0 then ?t else s\<lparr>klinks := list_del_init (TimerLink i) (klinks s)\<rparr>)"
    using ne nx by (cases bs) (simp_all add: del_timer_def)
  have links: "nxt (list_del_init (TimerLink i) (klinks s)) n = nxt (klinks s) n \<and>
      prv (list_del_init (TimerLink i) (klinks s)) n = prv (klinks s) n"
    if "\<forall>j. n \<noteq> TimerLink j" "n \<noteq> TimerHead" for n
    using that nx pv
    by (cases bs; cases as rule: rev_cases)
       (auto simp: list_del_init_def list_del_def nxt_list_init prv_list_init nxt_list_del_raw prv_list_del_raw)
  show ?thesis
  proof (cases "ticks s i = 0")
    case True
    then show ?thesis using run del links by simp
  next
    case False
    moreover have "klinks ?t = list_del_init (TimerLink i) (klinks s)" by simp
    moreover have "?t = s\<lparr>timers := timers ?t, klinks := klinks ?t\<rparr>"
      by (cases bs) (simp_all add: upd_timer_def)
    moreover have "timers ?t j = timers s j" if "bs \<noteq> [] \<longrightarrow> j \<noteq> hd bs" for j
      using that by (cases bs) auto
    moreover have "bs \<noteq> [] \<longrightarrow> ticks ?t (hd bs) = ticks s (hd bs) + ticks s i"
      using sum by (cases bs) auto
    moreover have "t_proc (timers ?t j) = t_proc (timers s j)" for j by (cases bs) auto
    ultimately show ?thesis using run del links by (intro exI [of _ ?t] conjI) (simp | assumption | blast)+
  qed
qed

text \<open>
  \<^verbatim>\<open>del_timer\<close> removes a pending timer without moving any other deadline: its remaining ticks are
  handed to the timer after it.
\<close>

theorem del_timer_correct:
  assumes "timer_list s (as @ i # bs)"
  shows "\<exists>t. del_timer i s = Some t \<and> timer_list t (as @ bs) \<and> list_empty (TimerLink i) (klinks t) \<and>
     (\<forall>j\<in>set (as @ bs). deadline (ticks t) (as @ bs) j = deadline (ticks s) (as @ i # bs) j)"
proof -
  obtain t where t: "del_timer i s = Some t" "dlist (klinks t) TimerHead (map TimerLink (as @ bs))"
    "list_empty (TimerLink i) (klinks t)" "\<And>j. bs \<noteq> [] \<longrightarrow> j \<noteq> hd bs \<Longrightarrow> timers t j = timers s j"
    "bs \<noteq> [] \<Longrightarrow> ticks t (hd bs) = ticks s (hd bs) + ticks s i" "\<And>j. t_proc (timers t j) = t_proc (timers s j)"
    using del_timer_at [OF assms] by blast
  have dis: "distinct (as @ i # bs)" using timer_listD(2) [OF assms] .
  have as: "ticks t j = ticks s j" if "j \<in> set as" for j
  proof -
    have "bs \<noteq> [] \<longrightarrow> j \<noteq> hd bs" using that dis by (cases bs) auto
    then show ?thesis using t(4) by simp
  qed
  then have asl: "sum_list (map (ticks t) as) = sum_list (map (ticks s) as)"
    by (intro arg_cong [of _ _ sum_list] map_cong refl)
  have tl: "ticks t j = ticks s j" if "j \<in> set (tl bs)" for j
  proof -
    have "bs \<noteq> [] \<longrightarrow> j \<noteq> hd bs" using that dis by (cases bs) auto
    then show ?thesis using t(4) by simp
  qed
  have suml: "sum_list (map (ticks t) bs) = (if bs = [] then 0 else ticks s i + sum_list (map (ticks s) bs))"
  proof (cases bs)
    case (Cons b bs')
    have "sum_list (map (ticks t) bs') = sum_list (map (ticks s) bs')"
      using tl Cons by (intro arg_cong [of _ _ sum_list] map_cong) auto
    then show ?thesis using t(5) Cons by simp
  qed simp
  have "deadline (ticks t) (as @ bs) j = deadline (ticks s) (as @ i # bs) j" if "j \<in> set (as @ bs)" for j
  proof (cases "j \<in> set as")
    case True
    then show ?thesis using deadline_cong [of as "ticks t" "ticks s" j] as by (simp add: deadline_append)
  next
    case False
    then obtain b bs' where b: "bs = b # bs'" using \<open>j \<in> set (as @ bs)\<close> by (cases bs) auto
    have "deadline (ticks t) bs' j = deadline (ticks s) bs' j"
      by (rule deadline_cong) (use tl b in auto)
    moreover have "j \<noteq> i" using that dis by auto
    ultimately show ?thesis using False t(5) b asl by (simp add: deadline_append)
  qed
  moreover have "timer_list t (as @ bs)"
  proof -
    have "sum_list (map (ticks t) (as @ bs)) < 2 ^ 32"
      using assms suml asl by (auto simp: timer_list_def)
    moreover have "0 < ticks t (hd (as @ bs))" if "as @ bs \<noteq> []"
      using assms that as t(5) by (cases as; cases bs) (auto simp: timer_list_def)
    ultimately show ?thesis using t(2,6) assms by (auto simp: timer_list_def)
  qed
  ultimately show ?thesis using t(1,3) by blast
qed

section \<open>The clock tick\<close>

lemma del_timer_zero:
  assumes "dlist (klinks s) TimerHead (map TimerLink xs)" "i \<in> set xs" "ticks s i = 0"
  shows "del_timer i s = Some (s\<lparr>klinks := list_del_init (TimerLink i) (klinks s)\<rparr>)"
  using list_empty_member [OF assms(1), of "TimerLink i"] assms(2,3) by (simp add: del_timer_def)

lemma del_head_link_reads:
  assumes "dlist h TimerHead (map TimerLink (i # bs))" "n \<noteq> TimerHead" "\<forall>j\<in>set (i # bs). n \<noteq> TimerLink j"
  shows "nxt (list_del_init (TimerLink i) h) n = nxt h n \<and> prv (list_del_init (TimerLink i) h) n = prv h n"
proof -
  have "nxt h (TimerLink i) = hd (map TimerLink bs @ [TimerHead])" "prv h (TimerLink i) = TimerHead"
    using assms(1) dlist_next_mid [of h TimerHead "[]" "TimerLink i" "map TimerLink bs"]
      dlist_prev_mid [of h TimerHead "[]" "TimerLink i" "map TimerLink bs"] by simp_all
  then show ?thesis
    using assms(2,3)
    by (cases bs) (auto simp: list_del_init_def list_del_def nxt_list_init prv_list_init nxt_list_del_raw prv_list_del_raw)
qed

definition timer_procs_ok :: "nat set \<Rightarrow> 'z kernel_scheme \<Rightarrow> nat list \<Rightarrow> bool" where
  "timer_procs_ok D s xs \<longleftrightarrow>
     (\<forall>j\<in>set xs. \<exists>p\<in>D. t_proc (timers s j) = Some p \<and> p_state (procs s p) \<noteq> PROC_ZOMBIE \<and>
        (wait_state (procs s p) \<noteq> 0 \<longrightarrow> wait_state (procs s p) AND WT_INTERRUPTED \<noteq> 0))"

text \<open>The processes in \<open>W\<close> are woken, and no other process changes its state.\<close>

definition wakes :: "nat set \<Rightarrow> 'z kernel_scheme \<Rightarrow> 'z kernel_scheme \<Rightarrow> bool" where
  "wakes W s t \<longleftrightarrow> (\<forall>q. p_state (procs t q) = (if q \<in> W then PROC_RUNNABLE else p_state (procs s q)) \<and>
     wait_state (procs t q) = (if q \<in> W \<and> p_state (procs s q) \<noteq> PROC_RUNNABLE then 0 else wait_state (procs s q)))"

definition timer_targets :: "'z kernel_scheme \<Rightarrow> nat list \<Rightarrow> nat set" where
  "timer_targets s js = {q. \<exists>j\<in>set js. t_proc (timers s j) = Some q}"

lemma wakes_trans: "wakes V s t \<Longrightarrow> wakes W t u \<Longrightarrow> wakes (V \<union> W) s u"
  by (auto simp: wakes_def)

lemma wakes_none: "wakes {} s s"
  by (simp add: wakes_def)

context sched_policy
begin

lemma timer_unlink_inv:
  assumes "sched_inv ready offline D i s Q" "dlist (klinks s) TimerHead (map TimerLink (j # bs))"
  shows "sched_inv ready offline D i (s\<lparr>klinks := list_del_init (TimerLink j) (klinks s)\<rparr>) Q"
proof -
  have "run_same s (s\<lparr>klinks := list_del_init (TimerLink j) (klinks s)\<rparr>)"
    using del_head_link_reads [OF assms(2)] by (auto simp: run_same_def run_node_def split: knode.splits)
  then show ?thesis by (rule sched_inv_transfer [OF assms(1)]) simp_all
qed

lemma run_timers_step:
  assumes d: "dlist (klinks s) TimerHead (map TimerLink (j # bs))" and inv: "sched_inv ready offline D i s Q"
    and ok: "timer_procs_ok D s (j # bs)" and zero: "ticks s j = 0"
  shows "\<exists>s2 Q2. run_timers_loop cls j s = (case bs of [] \<Rightarrow> Some s2 | k # _ \<Rightarrow> run_timers_loop cls k s2) \<and>
     sched_inv ready offline D i s2 Q2 \<and> dlist (klinks s2) TimerHead (map TimerLink bs) \<and>
     timers s2 = timers s \<and> current s2 = current s \<and> timer_procs_ok D s2 bs \<and>
     p_state (procs s2 (the (t_proc (timers s j)))) = PROC_RUNNABLE \<and> list_empty (TimerLink j) (klinks s2) \<and>
     (\<forall>k. k \<notin> set (j # bs) \<longrightarrow> nxt (klinks s2) (TimerLink k) = nxt (klinks s) (TimerLink k)) \<and>
     wakes (timer_targets s [j]) s s2"
proof -
  obtain p where p: "p \<in> D" "t_proc (timers s j) = Some p" "p_state (procs s p) \<noteq> PROC_ZOMBIE"
    "wait_state (procs s p) \<noteq> 0 \<longrightarrow> wait_state (procs s p) AND WT_INTERRUPTED \<noteq> 0"
    using ok by (auto simp: timer_procs_ok_def)
  obtain s1 Q1 where s1: "wakeup_proc cls p s = Some s1" "current s1 = current s" "outside_run s s1"
    "sched_inv ready offline D i s1 Q1" "p_state (procs s1 p) = PROC_RUNNABLE"
    "p_state (procs s p) \<noteq> PROC_RUNNABLE \<longrightarrow> wait_state (procs s1 p) = 0"
    "\<forall>q. q \<noteq> p \<longrightarrow> p_state (procs s1 q) = p_state (procs s q) \<and> wait_state (procs s1 q) = wait_state (procs s q)"
    using wakeup_inv [OF inv p(1,3)] by blast
  have same: "wait_state (procs s1 p) = wait_state (procs s p)" if "p_state (procs s p) = PROC_RUNNABLE"
    using that s1(1) p(3) by (simp add: wakeup_proc_def)
  have tm: "timers s1 = timers s" and lk: "\<And>n. \<not> run_node n \<Longrightarrow> nxt (klinks s1) n = nxt (klinks s) n \<and> prv (klinks s1) n = prv (klinks s) n"
    using s1(3) by (simp_all add: outside_run_def)
  have d1: "dlist (klinks s1) TimerHead (map TimerLink (j # bs))"
  proof -
    have "\<not> run_node u" if "u \<in> insert TimerHead (set (map TimerLink (j # bs)))" for u
      using that by (auto simp: run_node_def)
    then show ?thesis
      using d dlist_cong [of TimerHead "map TimerLink (j # bs)" "klinks s" "klinks s1"] lk by metis
  qed
  let ?s2 = "s1\<lparr>klinks := list_del_init (TimerLink j) (klinks s1)\<rparr>"
  have del: "del_timer j s1 = Some ?s2" by (rule del_timer_zero [OF d1]) (use zero tm in simp_all)
  have mem: "TimerLink j \<in> set (map TimerLink (j # bs))" by simp
  note dd = list_del_init_remove1 [OF d1 mem]
  have nx: "nxt (klinks s) (TimerLink j) = hd (map TimerLink bs @ [TimerHead])"
    using d dlist_next_mid [of "klinks s" TimerHead "[]" "TimerLink j" "map TimerLink bs"] by simp
  have run: "run_timers_loop cls j s = (case bs of [] \<Rightarrow> Some ?s2 | k # _ \<Rightarrow> run_timers_loop cls k ?s2)"
    using zero nx p(2,4) s1(1) del by (subst run_timers_loop.simps) (cases bs; simp add: Let_def)
  have ok2: "timer_procs_ok D ?s2 bs"
    unfolding timer_procs_ok_def
  proof
    fix k assume "k \<in> set bs"
    then obtain q where q: "q \<in> D" "t_proc (timers s k) = Some q" "p_state (procs s q) \<noteq> PROC_ZOMBIE"
      "wait_state (procs s q) \<noteq> 0 \<longrightarrow> wait_state (procs s q) AND WT_INTERRUPTED \<noteq> 0"
      using ok by (auto simp: timer_procs_ok_def)
    then show "\<exists>q\<in>D. t_proc (timers ?s2 k) = Some q \<and> p_state (procs ?s2 q) \<noteq> PROC_ZOMBIE \<and>
        (wait_state (procs ?s2 q) \<noteq> 0 \<longrightarrow> wait_state (procs ?s2 q) AND WT_INTERRUPTED \<noteq> 0)"
      using s1(5-7) same tm by (intro bexI [of _ q]; cases "q = p") auto
  qed
  have frame: "nxt (klinks ?s2) (TimerLink k) = nxt (klinks s) (TimerLink k)" if "k \<notin> set (j # bs)" for k
  proof -
    have "\<forall>l\<in>set (j # bs). TimerLink k \<noteq> TimerLink l" using that by auto
    then show ?thesis
      using del_head_link_reads [OF d1, of "TimerLink k"] lk [of "TimerLink k"] by (simp add: run_node_def)
  qed
  have "timer_targets s [j] = {p}" using p(2) by (auto simp: timer_targets_def)
  then have "wakes (timer_targets s [j]) s ?s2" using s1(5-7) same by (auto simp: wakes_def)
  then show ?thesis
    using run timer_unlink_inv [OF s1(4) d1] dd tm s1(2,5) p(2) ok2 frame
    by (intro exI [of _ ?s2] exI [of _ Q1] conjI) simp_all
qed

lemma run_timers_loop_inv:
  assumes "dlist (klinks s) TimerHead (map TimerLink (j # bs))" "sched_inv ready offline D i s Q"
    "timer_procs_ok D s (j # bs)"
  shows "\<exists>t Q'. run_timers_loop cls j s = Some t \<and> sched_inv ready offline D i t Q' \<and>
     timers t = timers s \<and> current t = current s \<and>
     dlist (klinks t) TimerHead (map TimerLink (dropWhile (\<lambda>k. ticks s k = 0) (j # bs))) \<and>
     (\<forall>k\<in>set (takeWhile (\<lambda>k. ticks s k = 0) (j # bs)).
        p_state (procs t (the (t_proc (timers s k)))) = PROC_RUNNABLE \<and> list_empty (TimerLink k) (klinks t)) \<and>
     (\<forall>k. k \<notin> set (j # bs) \<longrightarrow> nxt (klinks t) (TimerLink k) = nxt (klinks s) (TimerLink k)) \<and>
     wakes (timer_targets s (takeWhile (\<lambda>k. ticks s k = 0) (j # bs))) s t"
  using assms
proof (induction bs arbitrary: j s Q)
  case (Nil j s Q)
  show ?case
  proof (cases "ticks s j = 0")
    case False
    then show ?thesis using Nil wakes_none [of s] by (subst run_timers_loop.simps) (auto simp: timer_targets_def)
  next
    case True
    from run_timers_step [OF Nil True] show ?thesis using True by auto
  qed
next
  case (Cons k bs j s Q)
  show ?case
  proof (cases "ticks s j = 0")
    case False
    then show ?thesis using Cons.prems wakes_none [of s] by (subst run_timers_loop.simps) (auto simp: timer_targets_def)
  next
    case True
    obtain s2 Q2 where s2: "run_timers_loop cls j s = run_timers_loop cls k s2"
      "sched_inv ready offline D i s2 Q2" "dlist (klinks s2) TimerHead (map TimerLink (k # bs))"
      "timers s2 = timers s" "current s2 = current s" "timer_procs_ok D s2 (k # bs)"
      "p_state (procs s2 (the (t_proc (timers s j)))) = PROC_RUNNABLE" "list_empty (TimerLink j) (klinks s2)"
      "\<And>l. l \<notin> set (j # k # bs) \<Longrightarrow> nxt (klinks s2) (TimerLink l) = nxt (klinks s) (TimerLink l)"
      "wakes (timer_targets s [j]) s s2"
      using run_timers_step [OF Cons.prems True] by auto
    obtain t Q' where t: "run_timers_loop cls k s2 = Some t" "sched_inv ready offline D i t Q'"
      "timers t = timers s2" "current t = current s2"
      "dlist (klinks t) TimerHead (map TimerLink (dropWhile (\<lambda>l. ticks s2 l = 0) (k # bs)))"
      "\<And>l. l \<in> set (takeWhile (\<lambda>l. ticks s2 l = 0) (k # bs)) \<Longrightarrow>
        p_state (procs t (the (t_proc (timers s2 l)))) = PROC_RUNNABLE \<and> list_empty (TimerLink l) (klinks t)"
      "\<And>l. l \<notin> set (k # bs) \<Longrightarrow> nxt (klinks t) (TimerLink l) = nxt (klinks s2) (TimerLink l)"
      "wakes (timer_targets s2 (takeWhile (\<lambda>l. ticks s2 l = 0) (k # bs))) s2 t"
      using Cons.IH [OF s2(3,2,6)] by blast
    have "timer_targets s [j] \<union> timer_targets s2 (takeWhile (\<lambda>l. ticks s2 l = 0) (k # bs)) =
        timer_targets s (takeWhile (\<lambda>l. ticks s l = 0) (j # k # bs))"
      unfolding timer_targets_def s2(4) using True by (auto simp del: takeWhile.simps(2) simp: takeWhile.simps(2) [of _ j])
    then have w: "wakes (timer_targets s (takeWhile (\<lambda>l. ticks s l = 0) (j # k # bs))) s t"
      using wakes_trans [OF s2(10) t(8)] by simp
    have "j \<notin> set (k # bs)" using Cons.prems(1) by (auto simp: dlist_def)
    then have "list_empty (TimerLink j) (klinks t)" using s2(8) t(7) by (simp add: list_empty_def)
    moreover have "p_state (procs t (the (t_proc (timers s j)))) = PROC_RUNNABLE" using t(8) s2(7) by (simp add: wakes_def)
    ultimately have "\<forall>l\<in>set (takeWhile (\<lambda>l. ticks s l = 0) (j # k # bs)).
        p_state (procs t (the (t_proc (timers s l)))) = PROC_RUNNABLE \<and> list_empty (TimerLink l) (klinks t)"
      using True t(6) s2(4) by (simp del: takeWhile.simps(2) add: takeWhile.simps(2) [of _ j])
    moreover have "dlist (klinks t) TimerHead (map TimerLink (dropWhile (\<lambda>l. ticks s l = 0) (j # k # bs)))"
      using t(5) s2(4) True by (simp del: dropWhile.simps(2) add: dropWhile.simps(2) [of _ j])
    ultimately show ?thesis
      using s2(1,4,5) t(1-4) s2(9) t(7) w by (intro exI [of _ t] exI [of _ Q'] conjI) auto
  qed
qed

end

lemma takeWhile_zero_deadline:
  "j \<in> set (takeWhile (\<lambda>k. f k = 0) xs) \<Longrightarrow> deadline f xs j = 0"
  by (induction xs) (auto split: if_splits)

lemma dropWhile_zero_deadline:
  "distinct xs \<Longrightarrow> j \<in> set (dropWhile (\<lambda>k. f k = 0) xs) \<Longrightarrow>
   deadline f (dropWhile (\<lambda>k. f k = (0::nat)) xs) j = deadline f xs j \<and> 0 < deadline f xs j"
  by (induction xs) (auto split: if_splits dest: set_dropWhileD)

lemma filter_zero_deadline:
  "distinct xs \<Longrightarrow> dropWhile (\<lambda>k. f k = 0) xs = List.filter (\<lambda>j. 0 < deadline f xs j) xs"
proof -
  assume d: "distinct xs"
  have "List.filter (\<lambda>j. 0 < deadline f xs j) (takeWhile (\<lambda>k. f k = 0) xs) = []"
    using takeWhile_zero_deadline [of _ f xs] by (auto simp: filter_empty_conv)
  moreover have "List.filter (\<lambda>j. 0 < deadline f xs j) (dropWhile (\<lambda>k. f k = 0) xs) = dropWhile (\<lambda>k. f k = 0) xs"
    using dropWhile_zero_deadline [OF d] by (auto simp: filter_id_conv)
  ultimately show ?thesis
    by (metis append_Nil filter_append takeWhile_dropWhile_id)
qed

lemma rr_tick_frames:
  "klinks (sched_class_proc_tick default_sched_class c s) = klinks s"
  "timers (sched_class_proc_tick default_sched_class c s) = timers s"
  "current (sched_class_proc_tick default_sched_class c s) = current s"
  "idleproc (sched_class_proc_tick default_sched_class c s) = idleproc s"
  "p_state (procs (sched_class_proc_tick default_sched_class c s) p) = p_state (procs s p)"
  "wait_state (procs (sched_class_proc_tick default_sched_class c s) p) = wait_state (procs s p)"
  "run_same s (sched_class_proc_tick default_sched_class c s)"
  by (auto simp: sched_class_proc_tick_def default_sched_class_def RR_proc_tick_def Let_def run_same_def)

lemma rr_tick_inv:
  assumes "sched_inv rr_ready rr_offline D i s Q"
  shows "sched_inv rr_ready rr_offline D i (sched_class_proc_tick default_sched_class c s) Q"
  by (rule rr.sched_inv_transfer [OF assms rr_tick_frames(7)]) (simp_all add: rr_tick_frames)

lemma upd_timer_inv:
  assumes "sched_inv rr_ready rr_offline D i s Q"
  shows "sched_inv rr_ready rr_offline D i (upd_timer j f s) Q"
  by (rule rr.sched_inv_transfer [OF assms]) (simp_all add: run_same_def upd_timer_def)

lemma tick_deadline:
  assumes "distinct (j # bs)" "0 < f j" "k \<in> set (j # bs)"
  shows "deadline (f(j := f j - 1)) (j # bs) k + 1 = deadline f (j # bs) k"
proof -
  have "deadline (f(j := f j - 1)) bs k = deadline f bs k"
    by (rule deadline_cong) (use assms(1) in auto)
  then show ?thesis using assms(2) by simp
qed

lemma run_timer_list_cons:
  assumes tl: "timer_list s (j # bs)" and inv: "sched_inv rr_ready rr_offline D i s Q"
    and ok: "timer_procs_ok D s (j # bs)"
  shows "\<exists>t Q'. run_timer_list default_sched_class s = Some t \<and> sched_inv rr_ready rr_offline D i t Q' \<and>
     timers t = (timers s)(j := (timers s j)\<lparr>expires := ticks s j - 1\<rparr>) \<and>
     dlist (klinks t) TimerHead (map TimerLink (dropWhile (\<lambda>k. ticks t k = 0) (j # bs))) \<and>
     (\<forall>k\<in>set (takeWhile (\<lambda>k. ticks t k = 0) (j # bs)).
        p_state (procs t (the (t_proc (timers s k)))) = PROC_RUNNABLE \<and> list_empty (TimerLink k) (klinks t)) \<and>
     current t = current s \<and> wakes (timer_targets s (takeWhile (\<lambda>k. ticks t k = 0) (j # bs))) s t"
proof -
  let ?s = "upd_timer j (\<lambda>t. t\<lparr>expires := sub32 (expires t) 1\<rparr>) s"
  note d = timer_listD(1) [OF tl]
  have pos: "0 < ticks s j" using tl by (simp add: timer_list_def)
  have "ticks s j < 2 ^ 32" using timer_listD(3) [OF tl] by simp
  with pos have sub: "sub32 (ticks s j) 1 = ticks s j - 1" by (intro sub32_le) auto
  then have tm: "timers ?s = (timers s)(j := (timers s j)\<lparr>expires := ticks s j - 1\<rparr>)" by simp
  have ok': "timer_procs_ok D ?s (j # bs)" using ok by (auto simp: timer_procs_ok_def)
  have d': "dlist (klinks ?s) TimerHead (map TimerLink (j # bs))" using d by simp
  obtain t Q' where t: "run_timers_loop default_sched_class j ?s = Some t"
    "sched_inv rr_ready rr_offline D i t Q'" "timers t = timers ?s" "current t = current ?s"
    "dlist (klinks t) TimerHead (map TimerLink (dropWhile (\<lambda>k. ticks ?s k = 0) (j # bs)))"
    "\<forall>k\<in>set (takeWhile (\<lambda>k. ticks ?s k = 0) (j # bs)).
       p_state (procs t (the (t_proc (timers ?s k)))) = PROC_RUNNABLE \<and> list_empty (TimerLink k) (klinks t)"
    "wakes (timer_targets ?s (takeWhile (\<lambda>k. ticks ?s k = 0) (j # bs))) ?s t"
    using rr.run_timers_loop_inv [OF d' upd_timer_inv [OF inv] ok'] by blast
  obtain c where c: "current t = Some c" using t(2) by (auto simp: sched_inv_def)
  have "nxt (klinks s) TimerHead = TimerLink j" using dlist_first [OF d] by simp
  then have "run_timer_list default_sched_class s = Some (sched_class_proc_tick default_sched_class c t)"
    using pos t(1) c by (simp add: run_timer_list_def)
  moreover define u where "u = sched_class_proc_tick default_sched_class c t"
  ultimately have run: "run_timer_list default_sched_class s = Some u" by simp
  have fr: "klinks u = klinks t" "timers u = timers ?s" "\<And>p. p_state (procs u p) = p_state (procs t p)"
    "\<And>p. wait_state (procs u p) = wait_state (procs t p)" "current u = current t"
    using t(3) by (simp_all only: u_def rr_tick_frames)
  have "t_proc (timers ?s k) = t_proc (timers s k)" for k by simp
  with t(6) have "\<forall>k\<in>set (takeWhile (\<lambda>k. ticks u k = 0) (j # bs)).
       p_state (procs u (the (t_proc (timers s k)))) = PROC_RUNNABLE \<and> list_empty (TimerLink k) (klinks u)"
    unfolding fr by (simp only: )
  moreover have "dlist (klinks u) TimerHead (map TimerLink (dropWhile (\<lambda>k. ticks u k = 0) (j # bs)))"
    using t(5) unfolding fr .
  moreover have "timers u = (timers s)(j := (timers s j)\<lparr>expires := ticks s j - 1\<rparr>)" unfolding fr by (rule tm)
  moreover have "sched_inv rr_ready rr_offline D i u Q'" unfolding u_def by (rule rr_tick_inv [OF t(2)])
  moreover have "wakes (timer_targets s (takeWhile (\<lambda>k. ticks u k = 0) (j # bs))) s u"
  proof -
    have tt: "timer_targets ?s ks = timer_targets s ks" for ks by (auto simp: timer_targets_def)
    have ws: "wakes W ?s t = wakes W s t" for W by (simp add: wakes_def)
    have wu: "wakes W s u = wakes W s t" for W by (simp add: wakes_def fr)
    show ?thesis unfolding wu fr using t(7) unfolding tt ws .
  qed
  moreover have "current u = current s" using t(4) fr by simp
  ultimately show ?thesis using run by blast
qed

text \<open>
  C15: a clock tick, \<^verbatim>\<open>run_timer_list\<close>, always returns when the processes that wait on timers are alive
  and interruptibly asleep.  Exactly the timers due at this tick leave the list; every other timer stays, one
  tick closer to its deadline.  The processes of the due timers are runnable afterwards, and those that slept no
  longer wait for anything; every other process keeps its state and what it waits for, the current process
  goes on, and the scheduler's invariant holds.
\<close>

theorem run_timer_list_correct:
  assumes "timer_list s xs" and "sched_inv rr_ready rr_offline D i s Q" and "timer_procs_ok D s xs"
  shows "\<exists>t Q'. run_timer_list default_sched_class s = Some t \<and> sched_inv rr_ready rr_offline D i t Q' \<and>
     (let ys = List.filter (\<lambda>j. 1 < deadline (ticks s) xs j) xs
      in timer_list t ys \<and> (\<forall>j\<in>set ys. deadline (ticks t) ys j + 1 = deadline (ticks s) xs j)) \<and>
     (\<forall>j\<in>set xs. deadline (ticks s) xs j = 1 \<longrightarrow>
        p_state (procs t (the (t_proc (timers s j)))) = PROC_RUNNABLE \<and> list_empty (TimerLink j) (klinks t)) \<and>
     current t = current s \<and>
     (\<forall>q. let due = (\<exists>j\<in>set xs. deadline (ticks s) xs j = 1 \<and> t_proc (timers s j) = Some q)
      in p_state (procs t q) = (if due then PROC_RUNNABLE else p_state (procs s q)) \<and>
         wait_state (procs t q) = (if due \<and> p_state (procs s q) \<noteq> PROC_RUNNABLE then 0 else wait_state (procs s q)))"
proof (cases xs)
  case Nil
  obtain c where c: "current s = Some c" using assms(2) by (auto simp: sched_inv_def)
  have "nxt (klinks s) TimerHead = TimerHead" using dlist_first [OF timer_listD(1) [OF assms(1)]] Nil by simp
  then have "run_timer_list default_sched_class s = Some (sched_class_proc_tick default_sched_class c s)"
    using c by (simp add: run_timer_list_def)
  then show ?thesis
    using rr_tick_inv [OF assms(2), of c] assms(1) Nil by (auto simp: timer_list_def rr_tick_frames)
next
  case (Cons j bs)
  obtain t Q' where t: "run_timer_list default_sched_class s = Some t" "sched_inv rr_ready rr_offline D i t Q'"
    "timers t = (timers s)(j := (timers s j)\<lparr>expires := ticks s j - 1\<rparr>)"
    "dlist (klinks t) TimerHead (map TimerLink (dropWhile (\<lambda>k. ticks t k = 0) xs))"
    "\<And>k. k \<in> set (takeWhile (\<lambda>k. ticks t k = 0) xs) \<Longrightarrow>
        p_state (procs t (the (t_proc (timers s k)))) = PROC_RUNNABLE \<and> list_empty (TimerLink k) (klinks t)"
    "current t = current s" "wakes (timer_targets s (takeWhile (\<lambda>k. ticks t k = 0) xs)) s t"
    using run_timer_list_cons [of s j bs D i Q] assms Cons by blast
  have dis: "distinct xs" and pos: "0 < ticks s j" and bound: "sum_list (map (ticks s) xs) < 2 ^ 32"
    using timer_listD(2) [OF assms(1)] assms(1) Cons by (simp_all add: timer_list_def)
  have tk: "ticks t = (ticks s)(j := ticks s j - 1)" using t(3) by auto
  then have tk': "ticks t k = (if k = j then ticks s j - 1 else ticks s k)" for k by (simp add: fun_eq_iff)
  have dead: "deadline (ticks t) xs k + 1 = deadline (ticks s) xs k" if "k \<in> set xs" for k
    using tick_deadline [of j bs "ticks s" k] dis pos that unfolding tk Cons by simp
  let ?ys = "dropWhile (\<lambda>k. ticks t k = 0) xs"
  have "List.filter (\<lambda>k. 1 < deadline (ticks s) xs k) xs = List.filter (\<lambda>k. 0 < deadline (ticks t) xs k) xs"
    using dead by (intro filter_cong) (auto simp flip: dead)
  then have ys: "List.filter (\<lambda>k. 1 < deadline (ticks s) xs k) xs = ?ys"
    using filter_zero_deadline [OF dis, of "ticks t"] by simp
  have "timer_list t ?ys"
  proof -
    have "sum_list (map (ticks t) xs) \<le> sum_list (map (ticks s) xs)"
      by (rule sum_list_mono) (simp add: tk')
    moreover have "sum_list (map (ticks t) xs) =
        sum_list (map (ticks t) (takeWhile (\<lambda>k. ticks t k = 0) xs)) + sum_list (map (ticks t) ?ys)"
      by (metis map_append sum_list_append takeWhile_dropWhile_id)
    ultimately have "sum_list (map (ticks t) ?ys) < 2 ^ 32" using bound by linarith
    moreover have "?ys \<noteq> [] \<Longrightarrow> 0 < ticks t (hd ?ys)" using hd_dropWhile [of "\<lambda>k. ticks t k = 0" xs] by simp
    moreover have "t_proc (timers t k) \<noteq> None" if "k \<in> set ?ys" for k
      using assms(1) set_dropWhileD [OF that] t(3) by (auto simp: timer_list_def)
    ultimately show ?thesis using t(4) by (simp add: timer_list_def)
  qed
  moreover have "deadline (ticks t) ?ys k + 1 = deadline (ticks s) xs k" if "k \<in> set ?ys" for k
    using dropWhile_zero_deadline [OF dis that] dead set_dropWhileD [OF that] by simp
  moreover have due: "k \<in> set (takeWhile (\<lambda>k. ticks t k = 0) xs) \<longleftrightarrow> k \<in> set xs \<and> deadline (ticks s) xs k = 1" for k
  proof (cases "k \<in> set ?ys")
    case True
    then have "k \<notin> set (takeWhile (\<lambda>k. ticks t k = 0) xs)" using dis
      by (metis disjoint_iff distinct_append takeWhile_dropWhile_id)
    then show ?thesis using dropWhile_zero_deadline [OF dis True] dead [OF set_dropWhileD [OF True]] by simp
  next
    case False
    then have "k \<in> set xs \<longleftrightarrow> k \<in> set (takeWhile (\<lambda>k. ticks t k = 0) xs)"
      by (metis Un_iff set_append takeWhile_dropWhile_id)
    then show ?thesis using takeWhile_zero_deadline [of k "ticks t" xs] dead [of k] by auto
  qed
  moreover have "timer_targets s (takeWhile (\<lambda>k. ticks t k = 0) xs) =
      {q. \<exists>j\<in>set xs. deadline (ticks s) xs j = 1 \<and> t_proc (timers s j) = Some q}"
    using due by (auto simp: timer_targets_def)
  then have "\<forall>q. let due = (\<exists>j\<in>set xs. deadline (ticks s) xs j = 1 \<and> t_proc (timers s j) = Some q)
      in p_state (procs t q) = (if due then PROC_RUNNABLE else p_state (procs s q)) \<and>
         wait_state (procs t q) = (if due \<and> p_state (procs s q) \<noteq> PROC_RUNNABLE then 0 else wait_state (procs s q))"
    using t(7) by (simp add: wakes_def Let_def)
  moreover have "\<forall>j\<in>set xs. deadline (ticks s) xs j = 1 \<longrightarrow>
      p_state (procs t (the (t_proc (timers s j)))) = PROC_RUNNABLE \<and> list_empty (TimerLink j) (klinks t)"
    using t(5) due by blast
  ultimately show ?thesis using t(1,2,6) unfolding ys Let_def by blast

qed

section \<open>Witnesses\<close>

text \<open>Timer 7 wakes process 4 in one tick, timer 8 would wake it three ticks later; timer 9 is free.\<close>

definition demo_timers :: kernel where
  "demo_timers = demo_kernel\<lparr>
     klinks := \<lparr>prv = (prv (klinks demo_kernel))(TimerHead := TimerLink 8, TimerLink 8 := TimerLink 7, TimerLink 7 := TimerHead),
                nxt = (nxt (klinks demo_kernel))(TimerHead := TimerLink 7, TimerLink 7 := TimerLink 8, TimerLink 8 := TimerHead)\<rparr>,
     timers := (\<lambda>i. \<lparr>expires = (if i = 7 then 1 else if i = 8 then 3 else 2), t_proc = Some 4\<rparr>)\<rparr>"

lemma demo_timers_list: "timer_list demo_timers [7, 8]"
  by (simp add: timer_list_def demo_timers_def dlist_def demo_kernel_def)

lemma demo_timers_inv: "sched_inv rr_ready rr_offline {0, 1, 2, 3, 4} 0 demo_timers {2, 3}"
proof -
  have same: "run_same demo_kernel demo_timers"
    by (simp add: run_same_def demo_timers_def run_node_def split: knode.splits)
  then show ?thesis by (rule rr.sched_inv_transfer [OF demo_inv]) (simp_all add: demo_timers_def)
qed

lemma demo_timers_ok: "timer_procs_ok {0, 1, 2, 3, 4} demo_timers [7, 8]"
  by (simp add: timer_procs_ok_def demo_timers_def demo_kernel_def demo_proc_def WT_TIMER_def WT_INTERRUPTED_def)

theorem add_timer_correct_witness:
  "\<exists>t as bs. add_timer 9 demo_timers = Some t \<and> [7, 8] = as @ bs \<and> timer_list t (as @ 9 # bs) \<and>
     deadline (ticks t) (as @ 9 # bs) 9 = 2 \<and> deadline (ticks t) (as @ 9 # bs) 8 = 4"
proof -
  have f: "ticks demo_timers 7 = 1" "ticks demo_timers 8 = 3" "ticks demo_timers 9 = 2"
    "t_proc (timers demo_timers 9) = Some 4" by (simp_all add: demo_timers_def)
  have "list_empty (TimerLink 9) (klinks demo_timers)"
    by (simp add: list_empty_def demo_timers_def demo_kernel_def)
  from add_timer_correct [OF demo_timers_list _ this] show ?thesis by (simp add: f) blast
qed

theorem del_timer_correct_witness:
  "\<exists>t. del_timer 7 demo_timers = Some t \<and> timer_list t [8] \<and> deadline (ticks t) [8] 8 = 4"
proof -
  have f: "ticks demo_timers 7 = 1" "ticks demo_timers 8 = 3" by (simp_all add: demo_timers_def)
  from del_timer_correct [of demo_timers "[]" 7 "[8]"] demo_timers_list show ?thesis by (simp add: f) blast
qed

theorem run_timer_list_correct_witness:
  "\<exists>t. run_timer_list default_sched_class demo_timers = Some t \<and> timer_list t [8] \<and>
     deadline (ticks t) [8] 8 = 3 \<and> p_state (procs t 4) = PROC_RUNNABLE"
proof -
  have f: "ticks demo_timers 7 = 1" "ticks demo_timers 8 = 3" "t_proc (timers demo_timers 7) = Some 4"
    by (simp_all add: demo_timers_def)
  from run_timer_list_correct [OF demo_timers_list demo_timers_inv demo_timers_ok] show ?thesis
    by (auto simp: f Let_def)
qed

end
