(* ===== verification/Sync.thy ===== *)
theory Sync
  imports RoundRobin
begin

text \<open>
  Wait queues and semaphores: \<^verbatim>\<open>kern/sync/wait.c\<close> and \<^verbatim>\<open>sem.c\<close>.  A wait queue and
  the semaphore around it share one name; a \<^verbatim>\<open>wait_t\<close> is named by its address.  A function that
  calls \<^verbatim>\<open>schedule\<close> in the middle is split there: \<open>..._enter\<close> runs up to and including the switch to
  another process, \<open>..._resume\<close> is the rest, run when the caller is dispatched again.
\<close>

section \<open>Wait queues\<close>

definition upd_wait :: "nat \<Rightarrow> (wait \<Rightarrow> wait) \<Rightarrow> 'z kernel_scheme \<Rightarrow> 'z kernel_scheme" where
  "upd_wait w f s = s\<lparr>waits := (waits s)(w := f (waits s w))\<rparr>"

definition wait_init :: "nat \<Rightarrow> nat \<Rightarrow> 'z kernel_scheme \<Rightarrow> 'z kernel_scheme" where
  "wait_init w p s =
     (let s1 = upd_wait w (\<lambda>v. v\<lparr>w_proc := Some p, wakeup_flags := WT_INTERRUPTED\<rparr>) s
      in s1\<lparr>klinks := list_init (WaitLink w) (klinks s1)\<rparr>)"

definition wait_queue_init :: "nat \<Rightarrow> 'z kernel_scheme \<Rightarrow> 'z kernel_scheme" where
  "wait_queue_init q s = s\<lparr>klinks := list_init (WaitHead q) (klinks s)\<rparr>"

definition wait_queue_add :: "nat \<Rightarrow> nat \<Rightarrow> 'z kernel_scheme \<Rightarrow> 'z kernel_scheme option" where
  "wait_queue_add q w s =
     do {
       assertc (list_empty (WaitLink w) (klinks s) \<and> w_proc (waits s w) \<noteq> None);
       let s1 = upd_wait w (\<lambda>v. v\<lparr>w_queue := Some q\<rparr>) s;
       Some (s1\<lparr>klinks := list_add_before (WaitHead q) (WaitLink w) (klinks s1)\<rparr>)
     }"

definition wait_queue_del :: "nat \<Rightarrow> nat \<Rightarrow> 'z kernel_scheme \<Rightarrow> 'z kernel_scheme option" where
  "wait_queue_del q w s =
     do {
       assertc (\<not> list_empty (WaitLink w) (klinks s) \<and> w_queue (waits s w) = Some q);
       Some (s\<lparr>klinks := list_del_init (WaitLink w) (klinks s)\<rparr>)
     }"

definition le2wait :: "knode \<Rightarrow> nat option" where
  "le2wait le = (case le of WaitLink w \<Rightarrow> Some w | _ \<Rightarrow> None)"

definition wait_queue_next :: "nat \<Rightarrow> nat \<Rightarrow> 'z kernel_scheme \<Rightarrow> nat option option" where
  "wait_queue_next q w s =
     do {
       assertc (\<not> list_empty (WaitLink w) (klinks s) \<and> w_queue (waits s w) = Some q);
       let le = list_next (WaitLink w) (klinks s);
       if le \<noteq> WaitHead q then do { v \<leftarrow> le2wait le; Some (Some v) } else Some None
     }"

definition wait_queue_prev :: "nat \<Rightarrow> nat \<Rightarrow> 'z kernel_scheme \<Rightarrow> nat option option" where
  "wait_queue_prev q w s =
     do {
       assertc (\<not> list_empty (WaitLink w) (klinks s) \<and> w_queue (waits s w) = Some q);
       let le = list_prev (WaitLink w) (klinks s);
       if le \<noteq> WaitHead q then do { v \<leftarrow> le2wait le; Some (Some v) } else Some None
     }"

definition wait_queue_first :: "nat \<Rightarrow> 'z kernel_scheme \<Rightarrow> nat option option" where
  "wait_queue_first q s =
     (let le = list_next (WaitHead q) (klinks s)
      in if le \<noteq> WaitHead q then do { v \<leftarrow> le2wait le; Some (Some v) } else Some None)"

definition wait_queue_last :: "nat \<Rightarrow> 'z kernel_scheme \<Rightarrow> nat option option" where
  "wait_queue_last q s =
     (let le = list_prev (WaitHead q) (klinks s)
      in if le \<noteq> WaitHead q then do { v \<leftarrow> le2wait le; Some (Some v) } else Some None)"

definition wait_queue_empty :: "nat \<Rightarrow> 'z kernel_scheme \<Rightarrow> bool" where
  "wait_queue_empty q s = list_empty (WaitHead q) (klinks s)"

definition wait_in_queue :: "nat \<Rightarrow> 'z kernel_scheme \<Rightarrow> bool" where
  "wait_in_queue w s \<longleftrightarrow> \<not> list_empty (WaitLink w) (klinks s)"

definition wakeup_wait ::
  "'z kernel_scheme sched_class \<Rightarrow> nat \<Rightarrow> nat \<Rightarrow> 32 word \<Rightarrow> bool \<Rightarrow> 'z kernel_scheme \<Rightarrow> 'z kernel_scheme option" where
  "wakeup_wait cls q w fl del s =
     do {
       s1 \<leftarrow> (if del then wait_queue_del q w s else Some s);
       let s2 = upd_wait w (\<lambda>v. v\<lparr>wakeup_flags := fl\<rparr>) s1;
       p \<leftarrow> w_proc (waits s2 w);
       wakeup_proc cls p s2
     }"

definition wakeup_first ::
  "'z kernel_scheme sched_class \<Rightarrow> nat \<Rightarrow> 32 word \<Rightarrow> bool \<Rightarrow> 'z kernel_scheme \<Rightarrow> 'z kernel_scheme option" where
  "wakeup_first cls q fl del s =
     do {
       first \<leftarrow> wait_queue_first q s;
       (case first of None \<Rightarrow> Some s | Some w \<Rightarrow> wakeup_wait cls q w fl del s)
     }"

partial_function (option) wakeup_all_del ::
  "'z kernel_scheme sched_class \<Rightarrow> nat \<Rightarrow> nat \<Rightarrow> 32 word \<Rightarrow> 'z kernel_scheme \<Rightarrow> 'z kernel_scheme option" where
  "wakeup_all_del cls q w fl s =
     do {
       s1 \<leftarrow> wakeup_wait cls q w fl True s;
       first \<leftarrow> wait_queue_first q s1;
       (case first of None \<Rightarrow> Some s1 | Some v \<Rightarrow> wakeup_all_del cls q v fl s1)
     }"

partial_function (option) wakeup_all_keep ::
  "'z kernel_scheme sched_class \<Rightarrow> nat \<Rightarrow> nat \<Rightarrow> 32 word \<Rightarrow> 'z kernel_scheme \<Rightarrow> 'z kernel_scheme option" where
  "wakeup_all_keep cls q w fl s =
     do {
       s1 \<leftarrow> wakeup_wait cls q w fl False s;
       nx \<leftarrow> wait_queue_next q w s1;
       (case nx of None \<Rightarrow> Some s1 | Some v \<Rightarrow> wakeup_all_keep cls q v fl s1)
     }"

definition wakeup_queue ::
  "'z kernel_scheme sched_class \<Rightarrow> nat \<Rightarrow> 32 word \<Rightarrow> bool \<Rightarrow> 'z kernel_scheme \<Rightarrow> 'z kernel_scheme option" where
  "wakeup_queue cls q fl del s =
     do {
       first \<leftarrow> wait_queue_first q s;
       (case first of
          None \<Rightarrow> Some s
        | Some w \<Rightarrow> if del then wakeup_all_del cls q w fl s else wakeup_all_keep cls q w fl s)
     }"

definition wait_current_set :: "nat \<Rightarrow> nat \<Rightarrow> 32 word \<Rightarrow> 'z kernel_scheme \<Rightarrow> 'z kernel_scheme option" where
  "wait_current_set q w ws s =
     do {
       c \<leftarrow> current s;
       let s1 = wait_init w c s;
       let s2 = upd_proc c (\<lambda>g. g\<lparr>p_state := PROC_SLEEPING, wait_state := ws\<rparr>) s1;
       wait_queue_add q w s2
     }"

definition wait_current_del :: "nat \<Rightarrow> nat \<Rightarrow> 'z kernel_scheme \<Rightarrow> 'z kernel_scheme option" where
  "wait_current_del q w s = (if wait_in_queue w s then wait_queue_del q w s else Some s)"

section \<open>Semaphores\<close>

definition upd_sem :: "nat \<Rightarrow> (int \<Rightarrow> int) \<Rightarrow> 'z kernel_scheme \<Rightarrow> 'z kernel_scheme" where
  "upd_sem sm f s = s\<lparr>sem_value := (sem_value s)(sm := f (sem_value s sm))\<rparr>"

definition sem_init :: "nat \<Rightarrow> int \<Rightarrow> 'z kernel_scheme \<Rightarrow> 'z kernel_scheme" where
  "sem_init sm v s = wait_queue_init sm (upd_sem sm (\<lambda>_. v) s)"

definition up_with ::
  "'z kernel_scheme sched_class \<Rightarrow> nat \<Rightarrow> 32 word \<Rightarrow> 'z kernel_scheme \<Rightarrow> 'z kernel_scheme option" where
  "up_with cls sm ws s =
     do {
       first \<leftarrow> wait_queue_first sm s;
       (case first of
          None \<Rightarrow> Some (upd_sem sm (\<lambda>v. v + 1) s)
        | Some w \<Rightarrow>
            do {
              p \<leftarrow> w_proc (waits s w);
              assertc (wait_state (procs s p) = ws);
              wakeup_wait cls sm w ws True s
            })
     }"

text \<open>\<^verbatim>\<open>__down\<close>: \<open>True\<close> says that it returned 0 at once, \<open>False\<close> that the caller has been put to sleep.\<close>

definition down_enter ::
  "'z kernel_scheme sched_class \<Rightarrow> nat \<Rightarrow> nat \<Rightarrow> 32 word \<Rightarrow> 'z kernel_scheme \<Rightarrow> (bool \<times> 'z kernel_scheme) option" where
  "down_enter cls sm w ws s =
     (if 0 < sem_value s sm then Some (True, upd_sem sm (\<lambda>v. v - 1) s)
      else do {
        s1 \<leftarrow> wait_current_set sm w ws s;
        s2 \<leftarrow> schedule cls s1;
        Some (False, s2)
      })"

definition down_resume :: "nat \<Rightarrow> nat \<Rightarrow> 32 word \<Rightarrow> 'z kernel_scheme \<Rightarrow> (32 word \<times> 'z kernel_scheme) option" where
  "down_resume sm w ws s =
     do {
       s1 \<leftarrow> wait_current_del sm w s;
       Some (if wakeup_flags (waits s1 w) \<noteq> ws then wakeup_flags (waits s1 w) else 0, s1)
     }"

definition up :: "'z kernel_scheme sched_class \<Rightarrow> nat \<Rightarrow> 'z kernel_scheme \<Rightarrow> 'z kernel_scheme option" where
  "up cls sm s = up_with cls sm WT_KSEM s"

text \<open>\<^verbatim>\<open>down\<close> asserts that \<^verbatim>\<open>__down\<close> returned 0.\<close>

definition down_finish :: "nat \<Rightarrow> nat \<Rightarrow> 'z kernel_scheme \<Rightarrow> 'z kernel_scheme option" where
  "down_finish sm w s =
     do {
       (fl, s1) \<leftarrow> down_resume sm w WT_KSEM s;
       assertc (fl = 0);
       Some s1
     }"

definition try_down :: "nat \<Rightarrow> 'z kernel_scheme \<Rightarrow> bool \<times> 'z kernel_scheme" where
  "try_down sm s =
     (if 0 < sem_value s sm then (True, upd_sem sm (\<lambda>v. v - 1) s) else (False, s))"

section \<open>The state of the semaphores\<close>

text \<open>
  \<open>sems_ok D s W\<close>: \<open>W sm\<close> are the waiters of semaphore \<open>sm\<close> in order; a semaphore with waiters has
  value 0; every waiter stands for one sleeping process, and no process waits twice.
\<close>

definition waits_on :: "nat set \<Rightarrow> 'z kernel_scheme \<Rightarrow> nat \<Rightarrow> nat \<Rightarrow> bool" where
  "waits_on D s sm w \<longleftrightarrow>
     w_queue (waits s w) = Some sm \<and>
     (\<exists>p\<in>D. w_proc (waits s w) = Some p \<and> p_state (procs s p) = PROC_SLEEPING \<and> wait_state (procs s p) = WT_KSEM)"

definition sems_ok :: "nat set \<Rightarrow> 'z kernel_scheme \<Rightarrow> (nat \<Rightarrow> nat list) \<Rightarrow> bool" where
  "sems_ok D s W \<longleftrightarrow>
     (\<forall>sm. dlist (klinks s) (WaitHead sm) (map WaitLink (W sm)) \<and> 0 \<le> sem_value s sm \<and>
        (W sm \<noteq> [] \<longrightarrow> sem_value s sm = 0) \<and> (\<forall>w\<in>set (W sm). waits_on D s sm w)) \<and>
     (\<forall>a b v w. v \<in> set (W a) \<and> w \<in> set (W b) \<and> w_proc (waits s v) = w_proc (waits s w) \<longrightarrow> v = w)"

lemma sems_okD:
  assumes "sems_ok D s W"
  shows "dlist (klinks s) (WaitHead sm) (map WaitLink (W sm))" "0 \<le> sem_value s sm"
    "W sm \<noteq> [] \<Longrightarrow> sem_value s sm = 0" "w \<in> set (W sm) \<Longrightarrow> waits_on D s sm w" "distinct (W sm)"
    "v \<in> set (W a) \<Longrightarrow> w \<in> set (W b) \<Longrightarrow> w_proc (waits s v) = w_proc (waits s w) \<Longrightarrow> v = w"
proof -
  show d: "dlist (klinks s) (WaitHead sm) (map WaitLink (W sm))" using assms by (simp add: sems_ok_def)
  show "distinct (W sm)" using d by (auto simp: dlist_def distinct_map)
  show "v \<in> set (W a) \<Longrightarrow> w \<in> set (W b) \<Longrightarrow> w_proc (waits s v) = w_proc (waits s w) \<Longrightarrow> v = w"
    using assms unfolding sems_ok_def by blast
qed (use assms in \<open>auto simp: sems_ok_def\<close>)

lemma sems_ok_disjoint:
  "sems_ok D s W \<Longrightarrow> w \<in> set (W a) \<Longrightarrow> w \<in> set (W b) \<Longrightarrow> a = b"
  using sems_okD(4) [of D s W w a] sems_okD(4) [of D s W w b] by (simp add: waits_on_def)

text \<open>The heads and links of two wait queues do not meet.\<close>

lemma wait_nodes_disjoint:
  assumes "sems_ok D s W" "a \<noteq> b"
  shows "insert (WaitHead a) (set (map WaitLink (W a))) \<inter> insert (WaitHead b) (set (map WaitLink (W b))) = {}"
  using sems_ok_disjoint [OF assms(1)] assms(2) by auto

lemma sems_ok_transfer:
  assumes "sems_ok D s W"
    and "\<And>n. \<not> run_node n \<Longrightarrow> nxt (klinks t) n = nxt (klinks s) n \<and> prv (klinks t) n = prv (klinks s) n"
    and "waits t = waits s" "sem_value t = sem_value s"
    and "\<And>sm w p. w \<in> set (W sm) \<Longrightarrow> w_proc (waits s w) = Some p \<Longrightarrow>
      p_state (procs t p) = p_state (procs s p) \<and> wait_state (procs t p) = wait_state (procs s p)"
  shows "sems_ok D t W"
proof -
  have "dlist (klinks t) (WaitHead sm) (map WaitLink (W sm))" for sm
    using sems_okD(1) [OF assms(1), of sm] assms(2)
    by (subst dlist_cong [where h' = "klinks s"]) (auto simp: run_node_def)
  moreover have "waits_on D t sm w" if "w \<in> set (W sm)" for sm w
    using sems_okD(4) [OF assms(1) that] assms(3,5) that by (auto simp: waits_on_def)
  ultimately show ?thesis
    using sems_okD(2,3,6) [OF assms(1)] assms(3,4) unfolding sems_ok_def by metis
qed

lemma wait_first:
  assumes "sems_ok D s W"
  shows "wait_queue_first sm s = Some (case W sm of [] \<Rightarrow> None | w # ws \<Rightarrow> Some w)"
  using dlist_first [OF sems_okD(1) [OF assms, of sm]]
  by (cases "W sm") (simp_all add: wait_queue_first_def le2wait_def)

lemma upd_wait_frames [simp]:
  "klinks (upd_wait w f s) = klinks s" "procs (upd_wait w f s) = procs s" "current (upd_wait w f s) = current s"
  "sem_value (upd_wait w f s) = sem_value s" "idleproc (upd_wait w f s) = idleproc s"
  "rq (upd_wait w f s) = rq s" "run_pool (upd_wait w f s) = run_pool s" "timers (upd_wait w f s) = timers s"
  "kernel.more (upd_wait w f s) = kernel.more s"
  "waits (upd_wait w f s) v = (if v = w then f (waits s w) else waits s v)"
  by (simp_all add: upd_wait_def)

lemma upd_sem_frames [simp]:
  "klinks (upd_sem sm f s) = klinks s" "procs (upd_sem sm f s) = procs s" "current (upd_sem sm f s) = current s"
  "waits (upd_sem sm f s) = waits s" "idleproc (upd_sem sm f s) = idleproc s"
  "rq (upd_sem sm f s) = rq s" "run_pool (upd_sem sm f s) = run_pool s" "timers (upd_sem sm f s) = timers s"
  "kernel.more (upd_sem sm f s) = kernel.more s"
  "sem_value (upd_sem sm f s) k = (if k = sm then f (sem_value s sm) else sem_value s k)"
  by (simp_all add: upd_sem_def)

text \<open>Unlinking a waiter, and linking one at the tail.\<close>

lemma wait_unlink:
  assumes ok: "sems_ok D s W" and w: "W sm = w # ws"
  defines "h \<equiv> list_del_init (WaitLink w) (klinks s)"
  shows "dlist h (WaitHead sm) (map WaitLink ws)" "list_empty (WaitLink w) h"
    "k \<noteq> sm \<Longrightarrow> dlist h (WaitHead k) (map WaitLink (W k))"
    "run_node n \<Longrightarrow> nxt h n = nxt (klinks s) n \<and> prv h n = prv (klinks s) n"
proof -
  note d = sems_okD(1) [OF ok, of sm]
  have m: "WaitLink w \<in> set (map WaitLink (W sm))" using w by simp
  show "dlist h (WaitHead sm) (map WaitLink ws)" "list_empty (WaitLink w) h"
    using list_del_init_remove1 [OF d m] w by (simp_all add: h_def)
  show "dlist h (WaitHead k) (map WaitLink (W k))" if "k \<noteq> sm"
  proof -
    have "WaitLink w \<notin> insert (WaitHead k) (set (map WaitLink (W k)))"
      using wait_nodes_disjoint [OF ok, of sm k] m that by blast
    then show ?thesis
      using dlist_frame_del [OF d m sems_okD(1) [OF ok, of k] wait_nodes_disjoint [OF ok, of sm k]] that
      by (simp add: h_def list_del_init_def dlist_init_frame)
  qed
  have "prv (klinks s) (WaitLink w) = WaitHead sm"
    using dlist_prev_mid [of "klinks s" "WaitHead sm" "[]"] d w by simp
  moreover have "nxt (klinks s) (WaitLink w) \<in> insert (WaitHead sm) (WaitLink ` set ws)"
    using dlist_next_mid [of "klinks s" "WaitHead sm" "[]"] d w by (cases ws) simp_all
  ultimately show "nxt h n = nxt (klinks s) n \<and> prv h n = prv (klinks s) n" if "run_node n"
    using that unfolding h_def list_del_init_def list_del_def
    by (auto simp: link_reads run_node_def)
qed

lemma wait_link:
  fixes sm :: nat
  assumes ok: "sems_ok D s W" and w: "\<And>k. w \<notin> set (W k)"
  defines "h \<equiv> list_add_before (WaitHead sm) (WaitLink w) (list_init (WaitLink w) (klinks s))"
  shows "dlist h (WaitHead sm) (map WaitLink (W sm @ [w]))"
    "k \<noteq> sm \<Longrightarrow> dlist h (WaitHead k) (map WaitLink (W k))"
    "run_node n \<Longrightarrow> nxt h n = nxt (klinks s) n \<and> prv h n = prv (klinks s) n"
proof -
  let ?h = "list_init (WaitLink w) (klinks s)"
  have d: "dlist ?h (WaitHead k) (map WaitLink (W k))" for k
    using sems_okD(1) [OF ok, of k] w [of k] by (subst dlist_init_frame) auto
  show "dlist h (WaitHead sm) (map WaitLink (W sm @ [w]))"
    using list_add_tail [OF d, of "WaitLink w" sm] w [of sm] by (auto simp: h_def)
  show "dlist h (WaitHead k) (map WaitLink (W k))" if "k \<noteq> sm"
    unfolding h_def
    by (rule dlist_frame_add_tail [OF d d]) (use w [of k] wait_nodes_disjoint [OF ok, of sm k] that in auto)
  have "prv ?h (WaitHead sm) = last (WaitHead sm # map WaitLink (W sm))"
    using d [of sm] by (auto simp: dlist_def dest: dpath_last)
  then have "prv ?h (WaitHead sm) \<in> insert (WaitHead sm) (WaitLink ` set (W sm))"
    by (cases "W sm" rule: rev_cases) auto
  then show "nxt h n = nxt (klinks s) n \<and> prv h n = prv (klinks s) n" if "run_node n"
    using that unfolding h_def list_add_before_def by (auto simp: link_reads run_node_def)
qed

context sched_policy
begin

text \<open>\<^verbatim>\<open>up\<close>: without waiters a token is added; with waiters the first one is handed the semaphore.\<close>

lemma up_inv:
  assumes inv: "sched_inv ready offline D i s Q" and ok: "sems_ok D s W"
  shows "W sm = [] \<Longrightarrow> up cls sm s = Some (upd_sem sm (\<lambda>v. v + 1) s) \<and>
      sched_inv ready offline D i (upd_sem sm (\<lambda>v. v + 1) s) Q \<and> sems_ok D (upd_sem sm (\<lambda>v. v + 1) s) W"
    and "W sm = w # ws \<Longrightarrow>
      \<exists>t p. up cls sm s = Some t \<and> w_proc (waits s w) = Some p \<and> p \<in> D \<and> current t = current s \<and>
        sched_inv ready offline D i t (if Some p = current s then Q else insert p Q) \<and>
        sems_ok D t (W(sm := ws)) \<and> sem_value t = sem_value s \<and>
        p_state (procs s p) = PROC_SLEEPING \<and> p_state (procs t p) = PROC_RUNNABLE \<and>
        (\<forall>q. q \<noteq> p \<longrightarrow> p_state (procs t q) = p_state (procs s q) \<and> wait_state (procs t q) = wait_state (procs s q)) \<and>
        list_empty (WaitLink w) (klinks t) \<and> wakeup_flags (waits t w) = WT_KSEM \<and>
        (\<forall>v. w_proc (waits t v) = w_proc (waits s v)) \<and> kernel.more t = kernel.more s"
proof -
  assume e: "W sm = []"
  let ?t = "upd_sem sm (\<lambda>v. v + 1) s"
  have "up cls sm s = Some ?t" using wait_first [OF ok, of sm] e by (simp add: up_def up_with_def)
  moreover have "sched_inv ready offline D i ?t Q"
    by (rule sched_inv_transfer [OF inv]) (simp_all add: run_same_def)
  moreover have "sems_ok D ?t W"
    using ok e unfolding sems_ok_def waits_on_def by auto
  ultimately show "up cls sm s = Some ?t \<and> sched_inv ready offline D i ?t Q \<and> sems_ok D ?t W" by simp
next
  assume w: "W sm = w # ws"
  have "waits_on D s sm w" using sems_okD(4) [OF ok] w by simp
  then obtain p where p: "p \<in> D" "w_proc (waits s w) = Some p" "p_state (procs s p) = PROC_SLEEPING"
    "wait_state (procs s p) = WT_KSEM" "w_queue (waits s w) = Some sm" by (auto simp: waits_on_def)
  define s1 where "s1 = s\<lparr>klinks := list_del_init (WaitLink w) (klinks s)\<rparr>"
  define s2 where "s2 = upd_wait w (\<lambda>v. v\<lparr>wakeup_flags := WT_KSEM\<rparr>) s1"
  note un = wait_unlink [where s = s and D = D and W = W and sm = sm, OF ok w]
  have same: "run_same s s2"
    using un(4) by (simp add: run_same_def s2_def s1_def)
  have inv2: "sched_inv ready offline D i s2 Q"
    by (rule sched_inv_transfer [OF inv same]) (simp_all add: s2_def s1_def)
  obtain t where t: "wakeup_proc cls p s2 = Some t" "current t = current s2" "outside_run s2 t"
    "sched_inv ready offline D i t (if Some p = current s2 \<or> p = i then Q else insert p Q)"
    "p_state (procs t p) = PROC_RUNNABLE"
    "\<And>q. q \<noteq> p \<Longrightarrow> p_state (procs t q) = p_state (procs s2 q) \<and> wait_state (procs t q) = wait_state (procs s2 q)"
    using wakeup_inv [OF inv2 p(1)] p(3) by (auto simp: s2_def s1_def)
  have pi: "p \<noteq> i" using inv p(3) by (auto simp: sched_inv_def)
  have ne: "\<not> list_empty (WaitLink w) (klinks s)"
    by (rule list_empty_member [OF sems_okD(1) [OF ok, of sm]]) (simp add: w)
  have run: "up cls sm s = Some t"
    using wait_first [OF ok, of sm] w p(2,4,5) ne t(1)
    by (simp add: up_def up_with_def wakeup_wait_def wait_queue_del_def s1_def s2_def)
  have wt: "waits t = waits s2" "sem_value t = sem_value s" "kernel.more t = kernel.more s"
    using t(3) by (simp_all add: outside_run_def s2_def s1_def)
  have wp: "w_proc (waits t v) = w_proc (waits s v)" "w_queue (waits t v) = w_queue (waits s v)" for v
    by (simp_all add: wt s2_def s1_def)
  have link: "\<not> run_node n \<Longrightarrow> nxt (klinks t) n = nxt (klinks s1) n \<and> prv (klinks t) n = prv (klinks s1) n" for n
    using t(3) by (simp add: outside_run_def s2_def)
  have dl: "dlist (klinks t) (WaitHead k) (map WaitLink ((W(sm := ws)) k))" for k
  proof -
    have "dlist (klinks s1) (WaitHead k) (map WaitLink ((W(sm := ws)) k))"
      using un(1) un(3) [of k] by (simp add: s1_def)
    then show ?thesis using link by (subst dlist_cong [where h' = "klinks s1"]) (auto simp: run_node_def)
  qed
  have mem: "v \<in> set ((W(sm := ws)) k) \<Longrightarrow> v \<in> set (W k) \<and> v \<noteq> w" for v k
    using sems_okD(5) [OF ok, of sm] sems_ok_disjoint [OF ok, of w k sm] w by (auto split: if_splits)
  have on: "waits_on D t k v" if v: "v \<in> set ((W(sm := ws)) k)" for k v
  proof -
    have "w_proc (waits s v) \<noteq> Some p" using sems_okD(6) [OF ok, of v k w sm] mem [OF v] w p(2) by auto
    then show ?thesis
      using sems_okD(4) [OF ok, of v k] mem [OF v] t(6) wp by (auto simp: waits_on_def s2_def s1_def)
  qed
  have "sems_ok D t (W(sm := ws))"
    unfolding sems_ok_def
  proof (intro conjI allI impI ballI)
    fix k a b v u
    show "(W(sm := ws)) k \<noteq> [] \<Longrightarrow> sem_value t k = 0"
      using sems_okD(3) [OF ok, of k] w wt(2) by (auto split: if_splits)
    show "0 \<le> sem_value t k" using sems_okD(2) [OF ok] wt(2) by simp
    show "v \<in> set ((W(sm := ws)) a) \<and> u \<in> set ((W(sm := ws)) b) \<and> w_proc (waits t v) = w_proc (waits t u) \<Longrightarrow> v = u"
      using sems_okD(6) [OF ok] mem wp by metis
  qed (use dl on in auto)
  moreover have "list_empty (WaitLink w) (klinks t)"
    using un(2) link [of "WaitLink w"] by (simp add: list_empty_def s1_def run_node_def)
  moreover have "\<forall>q. q \<noteq> p \<longrightarrow> p_state (procs t q) = p_state (procs s q) \<and> wait_state (procs t q) = wait_state (procs s q)"
    using t(6) by (simp add: s2_def s1_def)
  ultimately show "\<exists>t p. up cls sm s = Some t \<and> w_proc (waits s w) = Some p \<and> p \<in> D \<and> current t = current s \<and>
        sched_inv ready offline D i t (if Some p = current s then Q else insert p Q) \<and>
        sems_ok D t (W(sm := ws)) \<and> sem_value t = sem_value s \<and>
        p_state (procs s p) = PROC_SLEEPING \<and> p_state (procs t p) = PROC_RUNNABLE \<and>
        (\<forall>q. q \<noteq> p \<longrightarrow> p_state (procs t q) = p_state (procs s q) \<and> wait_state (procs t q) = wait_state (procs s q)) \<and>
        list_empty (WaitLink w) (klinks t) \<and> wakeup_flags (waits t w) = WT_KSEM \<and>
        (\<forall>v. w_proc (waits t v) = w_proc (waits s v)) \<and> kernel.more t = kernel.more s"
    using run p(1-3) t(2,4,5) pi wp wt by (intro exI [of _ t] exI [of _ p]) (simp add: s2_def s1_def)
qed

text \<open>\<^verbatim>\<open>down\<close>: a token is taken at once, or the caller sleeps at the tail and another process runs.\<close>

lemma down_inv:
  assumes inv: "sched_inv ready offline D i s Q" and ok: "sems_ok D s W"
    and c: "current s = Some c" "p_state (procs s c) = PROC_RUNNABLE" "c \<noteq> i"
  shows "0 < sem_value s sm \<Longrightarrow>
      down_enter cls sm w WT_KSEM s = Some (True, upd_sem sm (\<lambda>v. v - 1) s) \<and>
      sched_inv ready offline D i (upd_sem sm (\<lambda>v. v - 1) s) Q \<and> sems_ok D (upd_sem sm (\<lambda>v. v - 1) s) W"
    and "sem_value s sm = 0 \<Longrightarrow> \<forall>k. w \<notin> set (W k) \<Longrightarrow>
      \<exists>t n. down_enter cls sm w WT_KSEM s = Some (False, t) \<and> current t = Some n \<and>
        (if Q = {} then n = i else n \<in> Q) \<and> p_state (procs t n) = PROC_RUNNABLE \<and>
        sched_inv ready offline D i t (Q - {n}) \<and> sems_ok D t (W(sm := W sm @ [w])) \<and>
        sem_value t = sem_value s \<and> p_state (procs t c) = PROC_SLEEPING \<and>
        (\<forall>q. q \<noteq> c \<longrightarrow> p_state (procs t q) = p_state (procs s q) \<and> wait_state (procs t q) = wait_state (procs s q)) \<and>
        w_proc (waits t w) = Some c \<and> (\<forall>v. v \<noteq> w \<longrightarrow> w_proc (waits t v) = w_proc (waits s v)) \<and>
        kernel.more t = kernel.more s"
proof -
  assume v: "0 < sem_value s sm"
  let ?t = "upd_sem sm (\<lambda>v. v - 1) s"
  have "W sm = []" using sems_okD(3) [OF ok, of sm] v by fastforce
  then have "sems_ok D ?t W" using ok v unfolding sems_ok_def waits_on_def by auto
  moreover have "sched_inv ready offline D i ?t Q"
    by (rule sched_inv_transfer [OF inv]) (simp_all add: run_same_def)
  ultimately show "down_enter cls sm w WT_KSEM s = Some (True, ?t) \<and>
      sched_inv ready offline D i ?t Q \<and> sems_ok D ?t W" using v by (simp add: down_enter_def)
next
  assume v: "sem_value s sm = 0" and w: "\<forall>k. w \<notin> set (W k)"
  define s1 where "s1 = wait_init w c s"
  define s2 where "s2 = upd_proc c (\<lambda>g. g\<lparr>p_state := PROC_SLEEPING, wait_state := WT_KSEM\<rparr>) s1"
  define s3 where "s3 = (upd_wait w (\<lambda>v. v\<lparr>w_queue := Some sm\<rparr>) s2)\<lparr>klinks :=
     list_add_before (WaitHead sm) (WaitLink w) (klinks s2)\<rparr>"
  have kl: "klinks s2 = list_init (WaitLink w) (klinks s)" by (simp add: s2_def s1_def wait_init_def)
  have k3: "klinks s3 = list_add_before (WaitHead sm) (WaitLink w) (list_init (WaitLink w) (klinks s))"
    by (simp add: s3_def kl)
  note lk = wait_link [where s = s and D = D and W = W and w = w and sm = sm, OF ok, folded k3]
  have cur: "wait_current_set sm w WT_KSEM s = Some s3"
    using c(1) kl by (simp add: wait_current_set_def wait_queue_add_def s1_def [symmetric] s2_def [symmetric]
      s3_def Let_def list_empty_def nxt_list_init) (simp add: s2_def s1_def wait_init_def nxt_list_init)
  have fr: "waits s3 u = (if u = w then \<lparr>w_proc = Some c, wakeup_flags = WT_INTERRUPTED, w_queue = Some sm\<rparr> else waits s u)"
    "sem_value s3 = sem_value s" "current s3 = current s" "idleproc s3 = idleproc s" "kernel.more s3 = kernel.more s" for u
    by (auto simp: s3_def s2_def s1_def wait_init_def)
  have st: "p_state (procs s3 q) = (if q = c then PROC_SLEEPING else p_state (procs s q))"
    "wait_state (procs s3 q) = (if q = c then WT_KSEM else wait_state (procs s q))" for q
    by (auto simp: s3_def s2_def s1_def wait_init_def)
  have same: "run_same s s3"
    using lk(3) w by (auto simp: run_same_def s3_def s2_def s1_def wait_init_def)
  have inv3: "sched_inv ready offline D i s3 Q"
    using inv c(1,3) ready_other [OF same] offline_other [OF same]
    by (auto simp: sched_inv_def fr st)
  have cD: "c \<in> D" using inv c(1) by (auto simp: sched_inv_def)
  obtain t n where t: "schedule cls s3 = Some t" "current t = Some n" "if Q = {} then n = i else n \<in> Q"
    "sched_inv ready offline D i t (Q - {n})" "p_state (procs t n) = PROC_RUNNABLE" "outside_run s3 t"
    "\<And>p. p_state (procs t p) = p_state (procs s3 p) \<and> wait_state (procs t p) = wait_state (procs s3 p)"
    using schedule_inv [OF inv3, of c] c(1) fr(3) st(1) [of c] by (auto simp: Let_def)
  have wt: "waits t = waits s3" "sem_value t = sem_value s3" "kernel.more t = kernel.more s3"
    using t(6) by (simp_all add: outside_run_def)
  have link: "\<not> run_node n \<Longrightarrow> nxt (klinks t) n = nxt (klinks s3) n \<and> prv (klinks t) n = prv (klinks s3) n" for n
    using t(6) by (simp add: outside_run_def)
  let ?W = "W(sm := W sm @ [w])"
  have dl: "dlist (klinks t) (WaitHead k) (map WaitLink (?W k))" for k
  proof -
    have "dlist (klinks s3) (WaitHead k) (map WaitLink (?W k))" using lk(1) lk(2) [of k] w by simp
    then show ?thesis using link by (subst dlist_cong [where h' = "klinks s3"]) (auto simp: run_node_def)
  qed
  have old: "w_proc (waits s u) \<noteq> Some c \<and> u \<noteq> w" if "u \<in> set (W k)" for u k
    using sems_okD(4) [OF ok that] w that c(2) by (auto simp: waits_on_def)
  have on: "waits_on D t k u" if "u \<in> set (?W k)" for k u
  proof (cases "u = w")
    case True
    then show ?thesis using that w cD t(7) by (auto simp: waits_on_def wt fr st split: if_splits)
  next
    case False
    then have u: "u \<in> set (W k)" using that by (auto split: if_splits)
    show ?thesis using sems_okD(4) [OF ok u] old [OF u] t(7) by (auto simp: waits_on_def wt fr st)
  qed
  have "sems_ok D t ?W"
    unfolding sems_ok_def
  proof (intro conjI allI impI ballI)
    fix k a b u y
    show "?W k \<noteq> [] \<Longrightarrow> sem_value t k = 0"
      using sems_okD(3) [OF ok, of k] v by (auto simp: wt fr split: if_splits)
    show "0 \<le> sem_value t k" using sems_okD(2) [OF ok] by (simp add: wt fr)
    assume uy: "u \<in> set (?W a) \<and> y \<in> set (?W b) \<and> w_proc (waits t u) = w_proc (waits t y)"
    then have "(u = w \<or> u \<in> set (W a)) \<and> (y = w \<or> y \<in> set (W b))" by (auto split: if_splits)
    then show "u = y" using old [of u a] old [of y b] uy sems_okD(6) [OF ok, of u a y b] by (auto simp: wt fr)
  qed (use dl on in auto)
  moreover have "down_enter cls sm w WT_KSEM s = Some (False, t)"
    using v cur t(1) by (simp add: down_enter_def)
  moreover have "p_state (procs t c) = PROC_SLEEPING" using t(7) st by simp
  ultimately show "\<exists>t n. down_enter cls sm w WT_KSEM s = Some (False, t) \<and> current t = Some n \<and>
        (if Q = {} then n = i else n \<in> Q) \<and> p_state (procs t n) = PROC_RUNNABLE \<and>
        sched_inv ready offline D i t (Q - {n}) \<and> sems_ok D t ?W \<and>
        sem_value t = sem_value s \<and> p_state (procs t c) = PROC_SLEEPING \<and>
        (\<forall>q. q \<noteq> c \<longrightarrow> p_state (procs t q) = p_state (procs s q) \<and> wait_state (procs t q) = wait_state (procs s q)) \<and>
        w_proc (waits t w) = Some c \<and> (\<forall>v. v \<noteq> w \<longrightarrow> w_proc (waits t v) = w_proc (waits s v)) \<and>
        kernel.more t = kernel.more s"
    using t(2-5,7) by (intro exI [of _ t] exI [of _ n]) (auto simp: wt fr st)
qed

end

text \<open>After the hand-off the woken process finds its \<^verbatim>\<open>down\<close> complete: the assertion holds, nothing moves.\<close>

lemma down_finish_handed:
  assumes "list_empty (WaitLink w) (klinks s)" "wakeup_flags (waits s w) = WT_KSEM"
  shows "down_finish sm w s = Some s"
  using assms by (simp add: down_finish_def down_resume_def wait_current_del_def wait_in_queue_def)

section \<open>The contract of a semaphore\<close>

text \<open>A semaphore seen from outside: its value and the processes waiting, in order.\<close>

type_synonym asem = "int \<times> nat list"

fun asem_up :: "asem \<Rightarrow> asem \<times> nat option" where
  "asem_up (v, []) = ((v + 1, []), None)"
| "asem_up (v, p # ps) = ((v, ps), Some p)"

fun asem_down :: "nat \<Rightarrow> asem \<Rightarrow> asem \<times> bool" where
  "asem_down p (v, ps) = (if 0 < v then ((v - 1, ps), True) else ((v, ps @ [p]), False))"

definition sem_abs :: "'z kernel_scheme \<Rightarrow> (nat \<Rightarrow> nat list) \<Rightarrow> nat \<Rightarrow> asem" where
  "sem_abs s W sm = (sem_value s sm, map (\<lambda>w. the (w_proc (waits s w))) (W sm))"

lemma up_contract:
  assumes "sched_inv rr_ready rr_offline D i s Q" and "sems_ok D s W"
  shows "\<exists>t. up default_sched_class sm s = Some t \<and> current t = current s \<and> sems_ok D t (W(sm := tl (W sm))) \<and>
     sem_abs t (W(sm := tl (W sm))) = (sem_abs s W)(sm := fst (asem_up (sem_abs s W sm))) \<and>
     sched_inv rr_ready rr_offline D i t
       (case snd (asem_up (sem_abs s W sm)) of None \<Rightarrow> Q | Some p \<Rightarrow> if Some p = current s then Q else insert p Q) \<and>
     (\<forall>w ws. W sm = w # ws \<longrightarrow> down_finish sm w t = Some t) \<and>
     (\<forall>q. p_state (procs t q) = (if snd (asem_up (sem_abs s W sm)) = Some q then PROC_RUNNABLE else p_state (procs s q))) \<and>
     (\<forall>q. snd (asem_up (sem_abs s W sm)) = Some q \<longrightarrow> q \<in> D \<and> p_state (procs s q) = PROC_SLEEPING) \<and>
     kernel.more t = kernel.more s"
proof (cases "W sm")
  case Nil
  then have "W(sm := tl (W sm)) = W" by auto
  then show ?thesis
    using rr.up_inv(1) [OF assms, of sm] Nil
    by (intro exI [of _ "upd_sem sm (\<lambda>v. v + 1) s"]) (auto simp: sem_abs_def)
next
  case (Cons w ws)
  obtain t p where t: "up default_sched_class sm s = Some t" "w_proc (waits s w) = Some p"
    "current t = current s" "sched_inv rr_ready rr_offline D i t (if Some p = current s then Q else insert p Q)"
    "sems_ok D t (W(sm := ws))" "sem_value t = sem_value s" "list_empty (WaitLink w) (klinks t)"
    "wakeup_flags (waits t w) = WT_KSEM" "\<And>v. w_proc (waits t v) = w_proc (waits s v)" "kernel.more t = kernel.more s"
    "p_state (procs s p) = PROC_SLEEPING" "p_state (procs t p) = PROC_RUNNABLE"
    "\<And>q. q \<noteq> p \<Longrightarrow> p_state (procs t q) = p_state (procs s q)" "p \<in> D"
    using rr.up_inv(2) [OF assms Cons] by blast
  then show ?thesis
    using Cons down_finish_handed [OF t(7,8)]
    by (intro exI [of _ t]) (auto simp: sem_abs_def)
qed

lemma down_contract:
  assumes "sched_inv rr_ready rr_offline D i s Q" and "sems_ok D s W"
    and "current s = Some c" and "p_state (procs s c) = PROC_RUNNABLE" and "c \<noteq> i"
    and "\<forall>k. w \<notin> set (W k)"
  shows "\<exists>r t W'. down_enter default_sched_class sm w WT_KSEM s = Some (r, t) \<and> sems_ok D t W' \<and>
     (sem_abs t W' sm, r) = asem_down c (sem_abs s W sm) \<and> (\<forall>k. k \<noteq> sm \<longrightarrow> sem_abs t W' k = sem_abs s W k) \<and>
     (if r then current t = Some c \<and> sched_inv rr_ready rr_offline D i t Q
      else \<exists>n. current t = Some n \<and> (if Q = {} then n = i else n \<in> Q) \<and> p_state (procs t n) = PROC_RUNNABLE \<and>
        p_state (procs t c) = PROC_SLEEPING \<and> sched_inv rr_ready rr_offline D i t (Q - {n})) \<and>
     (\<forall>q. q \<noteq> c \<longrightarrow> p_state (procs t q) = p_state (procs s q)) \<and>
     kernel.more t = kernel.more s \<and> W' = (if r then W else W(sm := W sm @ [w]))"
proof (cases "0 < sem_value s sm")
  case True
  show ?thesis
    using rr.down_inv(1) [OF assms(1-5) True, of w] True assms(3)
    by (intro ex3I [where a = True and b = "upd_sem sm (\<lambda>v. v - 1) s" and c = W]) (auto simp: sem_abs_def)
next
  case False
  then have z: "sem_value s sm = 0" using sems_okD(2) [OF assms(2), of sm] by simp
  obtain t n where t: "down_enter default_sched_class sm w WT_KSEM s = Some (False, t)" "current t = Some n"
    "if Q = {} then n = i else n \<in> Q" "p_state (procs t n) = PROC_RUNNABLE"
    "sched_inv rr_ready rr_offline D i t (Q - {n})" "sems_ok D t (W(sm := W sm @ [w]))"
    "sem_value t = sem_value s" "p_state (procs t c) = PROC_SLEEPING"
    "\<forall>q. q \<noteq> c \<longrightarrow> p_state (procs t q) = p_state (procs s q) \<and> wait_state (procs t q) = wait_state (procs s q)"
    "w_proc (waits t w) = Some c" "\<forall>v. v \<noteq> w \<longrightarrow> w_proc (waits t v) = w_proc (waits s v)"
    "kernel.more t = kernel.more s"
    using rr.down_inv(2) [OF assms(1-5) z assms(6)] by blast
  have "map (\<lambda>w. the (w_proc (waits t w))) (W k) = map (\<lambda>w. the (w_proc (waits s w))) (W k)" for k
    using t(11) assms(6) by (intro map_cong refl) metis
  then show ?thesis
    using t z by (intro ex3I [where a = False and b = t and c = "W(sm := W sm @ [w])"]) (auto simp: sem_abs_def)
qed

text \<open>
  C16: \<^verbatim>\<open>up\<close> implements the contract: without waiters the value grows by one, otherwise it is handed
  to the process that has waited longest, which becomes runnable and is queued exactly once, while
  value and all other semaphores stay; that process' \<^verbatim>\<open>down\<close> then completes without its assertion
  failing and without taking anything more.
\<close>

theorem sem_up_refines:
  assumes "sched_inv rr_ready rr_offline D i s Q" and "sems_ok D s W"
  shows "\<exists>t W'. up default_sched_class sm s = Some t \<and> current t = current s \<and> sems_ok D t W' \<and>
     sem_abs t W' = (sem_abs s W)(sm := fst (asem_up (sem_abs s W sm))) \<and>
     sched_inv rr_ready rr_offline D i t
       (case snd (asem_up (sem_abs s W sm)) of None \<Rightarrow> Q | Some p \<Rightarrow> if Some p = current s then Q else insert p Q) \<and>
     (\<forall>w ws. W sm = w # ws \<longrightarrow> down_finish sm w t = Some t)"
  using up_contract [OF assms, of sm] by blast

text \<open>
  C17: \<^verbatim>\<open>down\<close> implements the contract: with a positive value it takes one at once; otherwise the caller
  is put to sleep behind all processes that already wait and another runnable process runs (the
  idle process if there is no other).  No other semaphore and no other process changes.
\<close>

theorem sem_down_refines:
  assumes "sched_inv rr_ready rr_offline D i s Q" and "sems_ok D s W"
    and "current s = Some c" and "p_state (procs s c) = PROC_RUNNABLE" and "c \<noteq> i"
    and "\<forall>k. w \<notin> set (W k)"
  shows "\<exists>r t W'. down_enter default_sched_class sm w WT_KSEM s = Some (r, t) \<and> sems_ok D t W' \<and>
     (sem_abs t W' sm, r) = asem_down c (sem_abs s W sm) \<and> (\<forall>k. k \<noteq> sm \<longrightarrow> sem_abs t W' k = sem_abs s W k) \<and>
     (if r then current t = Some c \<and> sched_inv rr_ready rr_offline D i t Q
      else \<exists>n. current t = Some n \<and> (if Q = {} then n = i else n \<in> Q) \<and> p_state (procs t n) = PROC_RUNNABLE \<and>
        p_state (procs t c) = PROC_SLEEPING \<and> sched_inv rr_ready rr_offline D i t (Q - {n})) \<and>
     (\<forall>q. q \<noteq> c \<longrightarrow> p_state (procs t q) = p_state (procs s q))"
  using down_contract [OF assms, of sm] by blast

section \<open>Counting and mutual exclusion\<close>

text \<open>
  Processes that use semaphore \<open>sm\<close> as a pool of permits, with \<open>H\<close> the holders: a process that holds
  none may ask, a holder may release, the scheduler may run at any time, and any process may work
  on any other semaphore.  A process handed the semaphore holds it from that moment on.
\<close>

definition woken :: "'z kernel_scheme \<Rightarrow> 'z kernel_scheme \<Rightarrow> nat set" where
  "woken s t = {p. p_state (procs s p) = PROC_SLEEPING \<and> p_state (procs t p) = PROC_RUNNABLE}"

inductive sem_step :: "nat \<Rightarrow> nat set \<times> 'z kernel_scheme \<Rightarrow> nat set \<times> 'z kernel_scheme \<Rightarrow> bool" for sm :: nat where
  take: "current s = Some c \<Longrightarrow> idleproc s \<noteq> Some c \<Longrightarrow> c \<notin> H \<Longrightarrow> \<not> wait_in_queue w s \<Longrightarrow>
     down_enter default_sched_class sm w WT_KSEM s = Some (got, t) \<Longrightarrow>
     sem_step sm (H, s) (if got then insert c H else H, t)"
| release: "current s = Some c \<Longrightarrow> c \<in> H \<Longrightarrow> up default_sched_class sm s = Some t \<Longrightarrow>
     sem_step sm (H, s) (H - {c} \<union> woken s t, t)"
| other_down: "current s = Some c \<Longrightarrow> idleproc s \<noteq> Some c \<Longrightarrow> k \<noteq> sm \<Longrightarrow> \<not> wait_in_queue w s \<Longrightarrow>
     down_enter default_sched_class k w WT_KSEM s = Some (got, t) \<Longrightarrow> sem_step sm (H, s) (H, t)"
| other_up: "k \<noteq> sm \<Longrightarrow> up default_sched_class k s = Some t \<Longrightarrow> sem_step sm (H, s) (H, t)"
| resched: "schedule default_sched_class s = Some t \<Longrightarrow> sem_step sm (H, s) (H, t)"

definition sem_pool :: "nat set \<Rightarrow> nat \<Rightarrow> nat \<Rightarrow> int \<Rightarrow> nat set \<times> 'z kernel_scheme \<Rightarrow> bool" where
  "sem_pool D i sm n x \<longleftrightarrow>
     (case x of (H, s) \<Rightarrow>
        \<exists>Q W. sched_inv rr_ready rr_offline D i s Q \<and> sems_ok D s W \<and>
          (\<forall>c. current s = Some c \<longrightarrow> p_state (procs s c) = PROC_RUNNABLE) \<and>
          H \<subseteq> D \<and> sem_value s sm + int (card H) = n \<and> (\<forall>w\<in>set (W sm). the (w_proc (waits s w)) \<notin> H))"

lemma not_in_queue:
  assumes "sems_ok D s W" "\<not> wait_in_queue w s"
  shows "w \<notin> set (W k)"
  using list_empty_member [OF sems_okD(1) [OF assms(1), of k]] assms(2) by (auto simp: wait_in_queue_def)

lemma sem_pool_take:
  assumes "sem_pool D i sm n (H, s)" and c: "current s = Some c" "idleproc s \<noteq> Some c"
    and w: "\<not> wait_in_queue w s" and r: "down_enter default_sched_class k w WT_KSEM s = Some (got, t)"
    and H: "k = sm \<Longrightarrow> c \<notin> H"
  shows "sem_pool D i sm n (if got \<and> k = sm then insert c H else H, t)"
proof -
  obtain Q W where a: "sched_inv rr_ready rr_offline D i s Q" "sems_ok D s W" "p_state (procs s c) = PROC_RUNNABLE"
    "H \<subseteq> D" "sem_value s sm + int (card H) = n" "\<And>w. w \<in> set (W sm) \<Longrightarrow> the (w_proc (waits s w)) \<notin> H"
    using assms(1) c(1) by (auto simp: sem_pool_def)
  have ci: "c \<noteq> i" "c \<in> D" "finite D" using a(1) c by (auto simp: sched_inv_def)
  have fresh: "\<forall>k. w \<notin> set (W k)" using not_in_queue [OF a(2) w] by blast
  show ?thesis
  proof (cases "0 < sem_value s k")
    case True
    note d = rr.down_inv(1) [OF a(1,2) c(1) a(3) ci(1) True, of w]
    then have g: "got" "t = upd_sem k (\<lambda>v. v - 1) s" using r by simp_all
    have "W k = []" using sems_okD(3) [OF a(2), of k] True by fastforce
    then have "\<forall>w\<in>set (W sm). the (w_proc (waits t w)) \<notin> (if k = sm then insert c H else H)"
      using a(6) g by auto
    moreover have "sem_value t sm + int (card (if k = sm then insert c H else H)) = n"
      using a(4,5) H ci(3) g finite_subset [OF a(4)] by auto
    ultimately show ?thesis
      using d g a(3,4) c(1) ci(2) unfolding sem_pool_def by auto
  next
    case False
    then have z: "sem_value s k = 0" using sems_okD(2) [OF a(2), of k] by simp
    obtain t' m where d: "down_enter default_sched_class k w WT_KSEM s = Some (False, t')" "current t' = Some m"
      "p_state (procs t' m) = PROC_RUNNABLE" "sched_inv rr_ready rr_offline D i t' (Q - {m})"
      "sems_ok D t' (W(k := W k @ [w]))" "sem_value t' = sem_value s" "w_proc (waits t' w) = Some c"
      "\<forall>v. v \<noteq> w \<longrightarrow> w_proc (waits t' v) = w_proc (waits s v)"
      using rr.down_inv(2) [OF a(1,2) c(1) a(3) ci(1) z fresh] by blast
    have g: "\<not> got" "t = t'" using d(1) r by simp_all
    have "the (w_proc (waits t v)) \<notin> H" if v: "v \<in> set ((W(k := W k @ [w])) sm)" for v
    proof (cases "v = w")
      case True
      then have "k = sm" using v fresh by (auto split: if_splits)
      then show ?thesis using True d(7) H g by simp
    next
      case False
      then have "v \<in> set (W sm)" using v by (auto split: if_splits)
      then show ?thesis using False d(8) a(6) g by simp
    qed
    then show ?thesis
      using d(2-6) g a(4,5) unfolding sem_pool_def by (auto simp del: fun_upd_apply)
  qed
qed

lemma sem_pool_up:
  assumes "sem_pool D i sm n (H, s)" and r: "up default_sched_class k s = Some t"
    and c: "k = sm \<Longrightarrow> current s = Some c \<and> c \<in> H"
  shows "sem_pool D i sm n (if k = sm then H - {c} \<union> woken s t else H, t)"
proof -
  obtain Q W where a: "sched_inv rr_ready rr_offline D i s Q" "sems_ok D s W"
    "\<And>c. current s = Some c \<Longrightarrow> p_state (procs s c) = PROC_RUNNABLE"
    "H \<subseteq> D" "sem_value s sm + int (card H) = n" "\<And>w. w \<in> set (W sm) \<Longrightarrow> the (w_proc (waits s w)) \<notin> H"
    using assms(1) by (auto simp: sem_pool_def)
  have fin: "finite H" using a(1,4) finite_subset by (auto simp: sched_inv_def)
  show ?thesis
  proof (cases "W k")
    case Nil
    note u = rr.up_inv(1) [OF a(1,2) Nil]
    have t: "t = upd_sem k (\<lambda>v. v + 1) s" using u r by simp
    have "woken s t = {}" by (auto simp: woken_def t)
    moreover have "k = sm \<Longrightarrow> int (card (H - {c})) = int (card H) - 1"
      using c fin card_Suc_Diff1 [of H c] by simp
    ultimately show ?thesis
      using u t a c Nil unfolding sem_pool_def by (auto intro!: exI [of _ Q] exI [of _ W])
  next
    case (Cons w ws)
    obtain t' p where u: "up default_sched_class k s = Some t'" "w_proc (waits s w) = Some p" "p \<in> D"
      "current t' = current s" "sched_inv rr_ready rr_offline D i t' (if Some p = current s then Q else insert p Q)"
      "sems_ok D t' (W(k := ws))" "sem_value t' = sem_value s" "p_state (procs s p) = PROC_SLEEPING"
      "p_state (procs t' p) = PROC_RUNNABLE"
      "\<And>q. q \<noteq> p \<Longrightarrow> p_state (procs t' q) = p_state (procs s q)"
      "\<And>v. w_proc (waits t' v) = w_proc (waits s v)"
      using rr.up_inv(2) [OF a(1,2) Cons] by blast
    have t: "t' = t" using u(1) r by simp
    have "x = p" if "x \<in> woken s t" for x
      using that u(10) [of x] t by (cases "x = p") (auto simp: woken_def)
    moreover have "p \<in> woken s t" using u(8,9) t by (simp add: woken_def)
    ultimately have wk: "woken s t = {p}" by blast
    let ?H = "if k = sm then H - {c} \<union> woken s t else H"
    have pn: "k = sm \<Longrightarrow> p \<notin> H" using a(6) [of w] Cons u(2) by auto
    have "card ?H = card H"
      using c fin pn card_Suc_Diff1 [of H c] by (auto simp: wk)
    moreover have "the (w_proc (waits t v)) \<notin> ?H" if v: "v \<in> set ((W(k := ws)) sm)" for v
    proof -
      have vm: "v \<in> set (W sm)" "k = sm \<Longrightarrow> v \<noteq> w"
        using v Cons sems_okD(5) [OF a(2), of k] by (auto split: if_splits)
      obtain q where q: "w_proc (waits s v) = Some q" using sems_okD(4) [OF a(2) vm(1)] by (auto simp: waits_on_def)
      have "k = sm \<Longrightarrow> q \<noteq> p"
        using sems_okD(6) [OF a(2), of v sm w k] vm Cons u(2) q by auto
      then show ?thesis using a(6) [OF vm(1)] q u(11) t by (auto simp: wk)
    qed
    moreover have "?H \<subseteq> D" using a(4) u(3) by (auto simp: wk)
    moreover have "p_state (procs t d) = PROC_RUNNABLE" if "current t = Some d" for d
      using a(3) [of d] u(4,9,10) t that by (cases "d = p") auto
    ultimately show ?thesis
      using u(5-7) a(5) t unfolding sem_pool_def by (auto simp del: fun_upd_apply)
  qed
qed

lemma sem_pool_resched:
  assumes "sem_pool D i sm n (H, s)" and r: "schedule default_sched_class s = Some t"
  shows "sem_pool D i sm n (H, t)"
proof -
  obtain Q W where a: "sched_inv rr_ready rr_offline D i s Q" "sems_ok D s W"
    "H \<subseteq> D" "sem_value s sm + int (card H) = n" "\<And>w. w \<in> set (W sm) \<Longrightarrow> the (w_proc (waits s w)) \<notin> H"
    using assms(1) by (auto simp: sem_pool_def)
  obtain c where c: "current s = Some c" using a(1) by (auto simp: sched_inv_def)
  obtain m R where t: "current t = Some m" "sched_inv rr_ready rr_offline D i t R" "p_state (procs t m) = PROC_RUNNABLE"
    "outside_run s t" "\<And>p. p_state (procs t p) = p_state (procs s p) \<and> wait_state (procs t p) = wait_state (procs s p)"
    using rr.schedule_inv [OF a(1) c] r by (auto simp: Let_def)
  have "sems_ok D t W"
    by (rule sems_ok_transfer [OF a(2)]) (use t(4,5) in \<open>auto simp: outside_run_def\<close>)
  then show ?thesis
    using t a(3-5) unfolding sem_pool_def by (auto simp: outside_run_def)
qed

lemma sem_pool_step:
  assumes "sem_step sm x y" "sem_pool D i sm n x"
  shows "sem_pool D i sm n y"
  using assms
proof (cases rule: sem_step.cases)
  case (take s c H w got t)
  then show ?thesis using sem_pool_take [of D i sm n H s c w sm got t] assms(2) by auto
next
  case (release s c H t)
  then show ?thesis using sem_pool_up [of D i sm n H s sm t c] assms(2) by auto
next
  case (other_down s c k w got t H)
  then show ?thesis using sem_pool_take [of D i sm n H s c w k got t] assms(2) by auto
next
  case (other_up k s t H)
  then show ?thesis using sem_pool_up [of D i sm n H s k t] assms(2) by auto
next
  case (resched s t H)
  then show ?thesis using sem_pool_resched assms(2) by auto
qed

text \<open>
  C18: permits are conserved: in every state reached from a semaphore that holds \<open>n\<close> permits nobody
  has, free permits and holders add up to \<open>n\<close>, so at most \<open>n\<close> processes hold one; for \<open>n = 1\<close> this
  is mutual exclusion.  If a process waits, all permits are held, so no wakeup is ever lost.
\<close>

theorem semaphore_exclusion:
  assumes "(sem_step sm)\<^sup>*\<^sup>* ({}, s0) (H, s)" and "sem_value s0 sm = int n"
    and "sched_inv rr_ready rr_offline D i s0 Q0" and "sems_ok D s0 W0"
    and "current s0 = Some c" and "p_state (procs s0 c) = PROC_RUNNABLE"
  shows "sem_value s sm + int (card H) = int n \<and> card H \<le> n \<and>
     (\<exists>W. sems_ok D s W \<and> (W sm \<noteq> [] \<longrightarrow> card H = n))"
proof -
  have "sem_pool D i sm (int n) ({}, s0)"
    using assms(2-6) unfolding sem_pool_def by auto
  with assms(1) have "sem_pool D i sm (int n) (H, s)"
    by (induction rule: rtranclp_induct) (auto intro: sem_pool_step)
  then obtain W where W: "sems_ok D s W" "sem_value s sm + int (card H) = int n"
    by (auto simp: sem_pool_def)
  then show ?thesis using sems_okD(2,3) [OF W(1), of sm] by auto
qed

section \<open>Witnesses\<close>

lemma demo_sems: "sems_ok {0, 1, 2, 3, 4} demo_kernel (\<lambda>_. [])"
  by (simp add: sems_ok_def dlist_def demo_kernel_def)

theorem sem_down_refines_witness:
  "\<exists>t W. down_enter default_sched_class 7 9 WT_KSEM demo_kernel = Some (False, t) \<and>
     sems_ok {0, 1, 2, 3, 4} t W \<and> sem_abs t W 7 = (0, [1])"
proof -
  have v: "sem_abs demo_kernel (\<lambda>_. []) 7 = (0, [])" by (simp add: sem_abs_def demo_kernel_def)
  show ?thesis
    using sem_down_refines [OF demo_inv demo_sems, of 1 9 7] by (auto simp: demo_fields v)
qed

text \<open>Process 1 sleeps on semaphore 7; process \<open>n\<close> runs and wakes it.\<close>

theorem sem_up_refines_witness:
  "\<exists>s t W. down_enter default_sched_class 7 9 WT_KSEM demo_kernel = Some (False, s) \<and>
     up default_sched_class 7 s = Some t \<and> sems_ok {0, 1, 2, 3, 4} t W \<and> sem_abs t W 7 = (0, []) \<and>
     down_finish 7 9 t = Some t"
proof -
  have v: "sem_abs demo_kernel (\<lambda>_. []) 7 = (0, [])" by (simp add: sem_abs_def demo_kernel_def)
  obtain s R where s: "down_enter default_sched_class 7 9 WT_KSEM demo_kernel = Some (False, s)"
    "sems_ok {0, 1, 2, 3, 4} s ((\<lambda>_. [])(7 := [9]))" "sem_abs s ((\<lambda>_. [])(7 := [9])) 7 = (0, [1])"
    "sched_inv rr_ready rr_offline {0, 1, 2, 3, 4} 0 s R"
    using down_contract [OF demo_inv demo_sems, of 1 9 7] by (auto simp: demo_fields v)
  obtain t W where t: "up default_sched_class 7 s = Some t" "sems_ok {0, 1, 2, 3, 4} t W" "sem_abs t W 7 = (0, [])"
    "down_finish 7 9 t = Some t"
    using sem_up_refines [OF s(4,2), of 7] by (auto simp: s(3))
  show ?thesis using s(1) t by (intro ex3I [where a = s and b = t and c = W]) simp
qed

definition demo_mutex :: kernel where
  "demo_mutex = demo_kernel\<lparr>sem_value := (\<lambda>_. 0)(7 := 1)\<rparr>"

theorem semaphore_exclusion_witness:
  "\<exists>s. (sem_step 7)\<^sup>*\<^sup>* ({}, demo_mutex) ({1}, s) \<and> sem_value s 7 + int (card {1 :: nat}) = 1"
proof -
  have same: "run_same demo_kernel demo_mutex" by (simp add: run_same_def demo_mutex_def)
  have inv: "sched_inv rr_ready rr_offline {0, 1, 2, 3, 4} 0 demo_mutex {2, 3}"
    by (rule rr.sched_inv_transfer [OF demo_inv same]) (simp_all add: demo_mutex_def)
  have ok: "sems_ok {0, 1, 2, 3, 4} demo_mutex (\<lambda>_. [])"
    by (simp add: sems_ok_def dlist_def demo_mutex_def demo_kernel_def)
  let ?t = "upd_sem 7 (\<lambda>v. v - 1) demo_mutex"
  have "sem_step 7 ({}, demo_mutex) (if True then insert 1 {} else {}, ?t)"
    by (rule sem_step.take [where w = 9])
      (simp_all add: demo_mutex_def demo_kernel_def wait_in_queue_def list_empty_def down_enter_def)
  then have st: "(sem_step 7)\<^sup>*\<^sup>* ({}, demo_mutex) ({1}, ?t)" by auto
  show ?thesis
    using st semaphore_exclusion [OF st _ inv ok, of 1 1] by (auto simp: demo_mutex_def demo_kernel_def demo_proc_def)
qed

end
