(* ===== verification/Monitor.thy ===== *)
theory Monitor
  imports Sync
begin

text \<open>
  Monitors with condition variables: \<^verbatim>\<open>kern/sync/monitor.c\<close>.  Kernel code is not preempted, so each
  function runs to the point where it calls \<^verbatim>\<open>schedule\<close> inside \<^verbatim>\<open>down\<close>; \<open>..._resume\<close> is what is left
  when the caller is dispatched again.
\<close>

section \<open>Monitors\<close>

text \<open>
  The state of one monitor; the condition variable \<open>k\<close> is the semaphore \<open>cv_sem k\<close> with its count of
  waiters.
\<close>

record mkernel = kernel +
  mt_mutex :: nat
  mt_next :: nat
  next_count :: int
  cv_sem :: "nat \<Rightarrow> nat"
  cv_count :: "nat \<Rightarrow> int"

fun init_condvars :: "nat \<Rightarrow> 'z mkernel_scheme \<Rightarrow> 'z mkernel_scheme" where
  "init_condvars 0 s = s"
| "init_condvars (Suc k) s =
     (let s1 = init_condvars k s
      in sem_init (cv_sem s1 k) 0 (s1\<lparr>cv_count := (cv_count s1)(k := 0)\<rparr>))"

text \<open>\<^verbatim>\<open>monitor_init\<close>; \<open>mem\<close> says whether \<^verbatim>\<open>kmalloc\<close> found room for the condition variables.\<close>

definition monitor_init :: "bool \<Rightarrow> nat \<Rightarrow> 'z mkernel_scheme \<Rightarrow> 'z mkernel_scheme option" where
  "monitor_init mem num_cv s =
     do {
       assertc (0 < num_cv);
       let s1 = s\<lparr>next_count := 0\<rparr>;
       let s2 = sem_init (mt_mutex s1) 1 s1;
       let s3 = sem_init (mt_next s2) 0 s2;
       assertc mem;
       Some (init_condvars num_cv s3)
     }"

definition upd_count :: "nat \<Rightarrow> int \<Rightarrow> 'z mkernel_scheme \<Rightarrow> 'z mkernel_scheme" where
  "upd_count k d s = s\<lparr>cv_count := (cv_count s)(k := cv_count s k + d)\<rparr>"

text \<open>
  \<^verbatim>\<open>cond_signal\<close> up to the end of \<^verbatim>\<open>down(next)\<close>: \<open>True\<close> says that it is finished (nobody waited, or a
  token was in \<^verbatim>\<open>next\<close>), \<open>False\<close> that the caller sleeps in \<^verbatim>\<open>next\<close> through \<open>w\<close>.
\<close>

definition cond_signal_enter ::
  "'z mkernel_scheme sched_class \<Rightarrow> nat \<Rightarrow> nat \<Rightarrow> 'z mkernel_scheme \<Rightarrow> (bool \<times> 'z mkernel_scheme) option" where
  "cond_signal_enter cls cv w s =
     (if 0 < cv_count s cv
      then do {
        let s1 = s\<lparr>next_count := next_count s + 1\<rparr>;
        s2 \<leftarrow> up cls (cv_sem s1 cv) s1;
        (now, s3) \<leftarrow> down_enter cls (mt_next s2) w WT_KSEM s2;
        Some (now, if now then s3\<lparr>next_count := next_count s3 - 1\<rparr> else s3)
      }
      else Some (True, s))"

definition cond_signal_resume :: "nat \<Rightarrow> 'z mkernel_scheme \<Rightarrow> 'z mkernel_scheme option" where
  "cond_signal_resume w s =
     do {
       s1 \<leftarrow> down_finish (mt_next s) w s;
       Some (s1\<lparr>next_count := next_count s1 - 1\<rparr>)
     }"

definition cond_wait_enter ::
  "'z mkernel_scheme sched_class \<Rightarrow> nat \<Rightarrow> nat \<Rightarrow> 'z mkernel_scheme \<Rightarrow> (bool \<times> 'z mkernel_scheme) option" where
  "cond_wait_enter cls cv w s =
     do {
       let s1 = upd_count cv 1 s;
       s2 \<leftarrow> (if 0 < next_count s1 then up cls (mt_next s1) s1 else up cls (mt_mutex s1) s1);
       (now, s3) \<leftarrow> down_enter cls (cv_sem s2 cv) w WT_KSEM s2;
       Some (now, if now then upd_count cv (-1) s3 else s3)
     }"

definition cond_wait_resume :: "nat \<Rightarrow> nat \<Rightarrow> 'z mkernel_scheme \<Rightarrow> 'z mkernel_scheme option" where
  "cond_wait_resume cv w s =
     do {
       s1 \<leftarrow> down_finish (cv_sem s cv) w s;
       Some (upd_count cv (-1) s1)
     }"


lemma mkernel_more:
  assumes "kernel.more t = kernel.more s"
  shows "mt_mutex t = mt_mutex s" "mt_next t = mt_next s" "next_count t = next_count s" "cv_sem t = cv_sem s"
    "cv_count t = cv_count s"
  using assms by (cases t; cases s; simp)+

lemma mkernel_updates [simp]:
  "kernel.more (s\<lparr>next_count := c\<rparr>) = mkernel_ext (mt_mutex s) (mt_next s) c (cv_sem s) (cv_count s) (mkernel.more s)"
  "klinks (s\<lparr>next_count := c\<rparr>) = klinks s" "procs (s\<lparr>next_count := c\<rparr>) = procs s"
  "klinks (upd_count k d s) = klinks s" "procs (upd_count k d s) = procs s" "waits (upd_count k d s) = waits s"
  "sem_value (upd_count k d s) = sem_value s" "current (upd_count k d s) = current s"
  "idleproc (upd_count k d s) = idleproc s" "rq (upd_count k d s) = rq s" "run_pool (upd_count k d s) = run_pool s"
  "next_count (upd_count k d s) = next_count s" "mt_next (upd_count k d s) = mt_next s"
  "mt_mutex (upd_count k d s) = mt_mutex s" "cv_sem (upd_count k d s) = cv_sem s"
  "cv_count (upd_count k d s) = (cv_count s)(k := cv_count s k + d)"
  by (cases s; simp add: upd_count_def)+

text \<open>Changing the counters of the monitor touches neither the scheduler nor the semaphores.\<close>

lemma monitor_counters:
  fixes s :: "'z mkernel_scheme"
  assumes "sched_inv rr_ready rr_offline D i s Q" "sems_ok D s W"
  shows "sched_inv rr_ready rr_offline D i (s\<lparr>next_count := c\<rparr>) Q" "sems_ok D (s\<lparr>next_count := c\<rparr>) W"
    "sched_inv rr_ready rr_offline D i (upd_count k d s) Q" "sems_ok D (upd_count k d s) W"
    "sem_abs (s\<lparr>next_count := c\<rparr>) W = sem_abs s W" "sem_abs (upd_count k d s) W = sem_abs s W"
  by (rule rr.sched_inv_transfer [OF assms(1)] sems_ok_transfer [OF assms(2)] | simp add: run_same_def sem_abs_def fun_eq_iff)+

lemma asem_down_zero: "(a, r) = asem_down c (0, ps) \<Longrightarrow> a = (0, ps @ [c]) \<and> \<not> r"
  by simp

text \<open>An \<^verbatim>\<open>up\<close> of \<open>a\<close> followed by a \<^verbatim>\<open>down\<close> of \<open>b\<close>, which has no token, by the same process.\<close>

lemma up_then_down:
  assumes inv: "sched_inv rr_ready rr_offline D i s Q" and ok: "sems_ok D s W"
    and c: "current s = Some c" "p_state (procs s c) = PROC_RUNNABLE" "c \<noteq> i"
    and w: "\<forall>k. w \<notin> set (W k)" and ab: "a \<noteq> b" "sem_value s b = 0"
  shows "\<exists>u t W' R n. up default_sched_class a s = Some u \<and> down_enter default_sched_class b w WT_KSEM u = Some (False, t) \<and>
     kernel.more u = kernel.more s \<and> kernel.more t = kernel.more s \<and> sems_ok D t W' \<and> sched_inv rr_ready rr_offline D i t R \<and>
     sem_abs t W' = (sem_abs s W)(a := fst (asem_up (sem_abs s W a)), b := (0, snd (sem_abs s W b) @ [c])) \<and>
     current t = Some n \<and> n \<noteq> c \<and> p_state (procs t n) = PROC_RUNNABLE \<and> p_state (procs t c) = PROC_SLEEPING \<and>
     (\<forall>p. snd (asem_up (sem_abs s W a)) = Some p \<longrightarrow> p_state (procs t p) = PROC_RUNNABLE)"
proof -
  let ?W = "W(a := tl (W a))"
  obtain u R where u: "up default_sched_class a s = Some u" "current u = current s" "sems_ok D u ?W"
    "sem_abs u ?W = (sem_abs s W)(a := fst (asem_up (sem_abs s W a)))" "sched_inv rr_ready rr_offline D i u R"
    "\<And>q. p_state (procs u q) = (if snd (asem_up (sem_abs s W a)) = Some q then PROC_RUNNABLE else p_state (procs s q))"
    "\<And>q. snd (asem_up (sem_abs s W a)) = Some q \<Longrightarrow> p_state (procs s q) = PROC_SLEEPING"
    "kernel.more u = kernel.more s"
    using up_contract [OF inv ok, of a] by blast
  have cu: "current u = Some c" "p_state (procs u c) = PROC_RUNNABLE" using c u(2,6) by simp_all
  have fresh: "\<forall>k. w \<notin> set (?W k)" using w by (auto dest: list.set_sel(2) split: if_splits) (metis list.sel(2) list.set_sel(2))
  have vb: "sem_abs u ?W b = (0, snd (sem_abs s W b))" using u(4) ab by (simp add: sem_abs_def)
  obtain r t W' where t: "down_enter default_sched_class b w WT_KSEM u = Some (r, t)" "sems_ok D t W'"
    "(sem_abs t W' b, r) = asem_down c (sem_abs u ?W b)" "\<forall>k. k \<noteq> b \<longrightarrow> sem_abs t W' k = sem_abs u ?W k"
    "if r then current t = Some c \<and> sched_inv rr_ready rr_offline D i t R
      else \<exists>n. current t = Some n \<and> (if R = {} then n = i else n \<in> R) \<and> p_state (procs t n) = PROC_RUNNABLE \<and>
        p_state (procs t c) = PROC_SLEEPING \<and> sched_inv rr_ready rr_offline D i t (R - {n})"
    "\<forall>q. q \<noteq> c \<longrightarrow> p_state (procs t q) = p_state (procs u q)" "kernel.more t = kernel.more u"
    using down_contract [OF u(5,3) cu c(3) fresh, of b] by blast
  have r: "\<not> r" "sem_abs t W' b = (0, snd (sem_abs s W b) @ [c])" using t(3) unfolding vb by simp_all
  obtain n where n: "current t = Some n" "p_state (procs t n) = PROC_RUNNABLE"
    "p_state (procs t c) = PROC_SLEEPING" "sched_inv rr_ready rr_offline D i t (R - {n})"
    using t(5) r(1) by auto
  have "sem_abs t W' = (sem_abs s W)(a := fst (asem_up (sem_abs s W a)), b := (0, snd (sem_abs s W b) @ [c]))"
    using r(2) t(4) u(4) ab(1) by (auto simp: fun_eq_iff)
  moreover have "p_state (procs t p) = PROC_RUNNABLE" if "snd (asem_up (sem_abs s W a)) = Some p" for p
    using u(6) [of p] u(7) [OF that] t(6) that c(2) by (cases "p = c") auto
  moreover have "n \<noteq> c" using n by auto
  ultimately show ?thesis using u(1,8) t(1,2,7) r(1) n by (intro exI conjI) (assumption | simp | blast)+
qed

text \<open>
  C19: \<^verbatim>\<open>cond_wait\<close> gives the monitor away exactly once, to a process suspended in \<^verbatim>\<open>cond_signal\<close> if
  there is one and else through the mutex, counts the caller as a waiter and puts it to sleep
  behind the waiters of the condition variable; no other semaphore changes.
\<close>

theorem cond_wait_correct:
  fixes s :: "'z mkernel_scheme"
  defines "a \<equiv> if 0 < next_count s then mt_next s else mt_mutex s"
  assumes "sched_inv rr_ready rr_offline D i s Q" and "sems_ok D s W"
    and "current s = Some c" and "p_state (procs s c) = PROC_RUNNABLE" and "c \<noteq> i" and "\<forall>k. w \<notin> set (W k)"
    and "distinct [mt_mutex s, mt_next s, cv_sem s k]" and "sem_value s (cv_sem s k) = 0"
  shows "\<exists>t W' R n. cond_wait_enter default_sched_class k w s = Some (False, t) \<and>
     sems_ok D t W' \<and> sched_inv rr_ready rr_offline D i t R \<and>
     sem_abs t W' = (sem_abs s W)(a := fst (asem_up (sem_abs s W a)), cv_sem s k := (0, snd (sem_abs s W (cv_sem s k)) @ [c])) \<and>
     (\<forall>p. snd (asem_up (sem_abs s W a)) = Some p \<longrightarrow> p_state (procs t p) = PROC_RUNNABLE) \<and>
     current t = Some n \<and> n \<noteq> c \<and> p_state (procs t n) = PROC_RUNNABLE \<and> p_state (procs t c) = PROC_SLEEPING \<and>
     cv_count t = (cv_count s)(k := cv_count s k + 1) \<and> next_count t = next_count s"
proof -
  let ?s = "upd_count k 1 s"
  note m = monitor_counters(3,4) [OF assms(2,3), of k 1] and eq = monitor_counters(6) [OF assms(2,3), of k 1]
  have ab: "a \<noteq> cv_sem s k" using assms(8) by (auto simp: a_def)
  obtain u t W' R n where t: "up default_sched_class a ?s = Some u" "down_enter default_sched_class (cv_sem s k) w WT_KSEM u = Some (False, t)"
    "kernel.more u = kernel.more ?s" "kernel.more t = kernel.more ?s" "sems_ok D t W'" "sched_inv rr_ready rr_offline D i t R"
    "sem_abs t W' = (sem_abs s W)(a := fst (asem_up (sem_abs s W a)), cv_sem s k := (0, snd (sem_abs s W (cv_sem s k)) @ [c]))"
    "current t = Some n" "n \<noteq> c" "p_state (procs t n) = PROC_RUNNABLE" "p_state (procs t c) = PROC_SLEEPING"
    "\<forall>p. snd (asem_up (sem_abs s W a)) = Some p \<longrightarrow> p_state (procs t p) = PROC_RUNNABLE"
    using up_then_down [OF m, of c w a "cv_sem s k"] assms(4-7,9) ab unfolding eq by auto
  have "cond_wait_enter default_sched_class k w s = Some (False, t)"
    using t(1,2) mkernel_more [OF t(3)] by (auto simp: cond_wait_enter_def a_def Let_def split: if_splits)
  moreover have "cv_count t = (cv_count s)(k := cv_count s k + 1)" "next_count t = next_count s"
    using mkernel_more [OF t(4)] by simp_all
  ultimately show ?thesis using t(5-12) by (intro exI [of _ t] exI [of _ W'] exI [of _ R] exI [of _ n]) simp
qed

text \<open>
  C20: \<^verbatim>\<open>cond_signal\<close> with a waiter hands the condition to the one that waited longest, which becomes
  runnable, and suspends the caller in \<^verbatim>\<open>next\<close> until the monitor is given back; a signal without a
  waiter has no effect at all.
\<close>

theorem cond_signal_correct:
  fixes s :: "'z mkernel_scheme"
  assumes "sched_inv rr_ready rr_offline D i s Q" and "sems_ok D s W"
    and "current s = Some c" and "p_state (procs s c) = PROC_RUNNABLE" and "c \<noteq> i" and "\<forall>k. w \<notin> set (W k)"
    and "distinct [mt_mutex s, mt_next s, cv_sem s k]" and "sem_value s (mt_next s) = 0"
    and "cv_count s k = int (length (W (cv_sem s k)))"
  shows "if W (cv_sem s k) = [] then cond_signal_enter default_sched_class k w s = Some (True, s)
     else \<exists>t W' R n p ps. cond_signal_enter default_sched_class k w s = Some (False, t) \<and>
       sems_ok D t W' \<and> sched_inv rr_ready rr_offline D i t R \<and>
       snd (sem_abs s W (cv_sem s k)) = p # ps \<and> p_state (procs t p) = PROC_RUNNABLE \<and>
       sem_abs t W' = (sem_abs s W)(cv_sem s k := (sem_value s (cv_sem s k), ps), mt_next s := (0, snd (sem_abs s W (mt_next s)) @ [c])) \<and>
       current t = Some n \<and> n \<noteq> c \<and> p_state (procs t n) = PROC_RUNNABLE \<and> p_state (procs t c) = PROC_SLEEPING \<and>
       next_count t = next_count s + 1 \<and> cv_count t = cv_count s"
proof (cases "W (cv_sem s k)")
  case Nil
  then show ?thesis using assms(9) by (simp add: cond_signal_enter_def)
next
  case (Cons v vs)
  let ?s = "s\<lparr>next_count := next_count s + 1\<rparr>"
  define p where "p = the (w_proc (waits s v))"
  define ps where "ps = map (\<lambda>w. the (w_proc (waits s w))) vs"
  have abs: "sem_abs s W (cv_sem s k) = (sem_value s (cv_sem s k), p # ps)"
    by (simp add: sem_abs_def Cons p_def ps_def)
  note m = monitor_counters(1,2) [OF assms(1,2), of "next_count s + 1"]
    and eq = monitor_counters(5) [OF assms(1,2), of "next_count s + 1"]
  have ab: "cv_sem s k \<noteq> mt_next s" using assms(7) by auto
  obtain u t W' R n where t: "up default_sched_class (cv_sem s k) ?s = Some u"
    "down_enter default_sched_class (mt_next s) w WT_KSEM u = Some (False, t)"
    "kernel.more u = kernel.more ?s" "kernel.more t = kernel.more ?s" "sems_ok D t W'" "sched_inv rr_ready rr_offline D i t R"
    "sem_abs t W' = (sem_abs s W)(cv_sem s k := (sem_value s (cv_sem s k), ps), mt_next s := (0, snd (sem_abs s W (mt_next s)) @ [c]))"
    "current t = Some n" "n \<noteq> c" "p_state (procs t n) = PROC_RUNNABLE" "p_state (procs t c) = PROC_SLEEPING"
    "p_state (procs t p) = PROC_RUNNABLE"
    using up_then_down [OF m, of c w "cv_sem s k" "mt_next s"] assms(3-6,8) ab unfolding eq abs by auto
  have "cond_signal_enter default_sched_class k w s = Some (False, t)"
    using t(1,2) mkernel_more [OF t(3)] assms(9) Cons by (simp add: cond_signal_enter_def)
  moreover have "cv_count t = cv_count s" "next_count t = next_count s + 1"
    using mkernel_more [OF t(4)] by simp_all
  moreover have "snd (sem_abs s W (cv_sem s k)) = p # ps" by (simp add: abs)
  ultimately have "cond_signal_enter default_sched_class k w s = Some (False, t) \<and>
       sems_ok D t W' \<and> sched_inv rr_ready rr_offline D i t R \<and>
       snd (sem_abs s W (cv_sem s k)) = p # ps \<and> p_state (procs t p) = PROC_RUNNABLE \<and>
       sem_abs t W' = (sem_abs s W)(cv_sem s k := (sem_value s (cv_sem s k), ps), mt_next s := (0, snd (sem_abs s W (mt_next s)) @ [c])) \<and>
       current t = Some n \<and> n \<noteq> c \<and> p_state (procs t n) = PROC_RUNNABLE \<and> p_state (procs t c) = PROC_SLEEPING \<and>
       next_count t = next_count s + 1 \<and> cv_count t = cv_count s" using t(5-12) by blast
  then show ?thesis using Cons by auto
qed

section \<open>Witnesses\<close>

text \<open>Semaphore 1 is the mutex (held by the running process 1), 2 is \<^verbatim>\<open>next\<close>, 3 the condition.\<close>

definition demo_monitor :: mkernel where
  "demo_monitor = kernel.extend demo_kernel
     \<lparr>mt_mutex = 1, mt_next = 2, next_count = 0, cv_sem = (\<lambda>k. 3 + k), cv_count = (\<lambda>_. 0)\<rparr>"

lemma demo_monitor_facts:
  "sched_inv rr_ready rr_offline {0, 1, 2, 3, 4} 0 demo_monitor {2, 3}"
  "sems_ok {0, 1, 2, 3, 4} demo_monitor (\<lambda>_. [])" "current demo_monitor = Some 1"
  "p_state (procs demo_monitor 1) = PROC_RUNNABLE" "mt_mutex demo_monitor = 1" "mt_next demo_monitor = 2"
  "cv_sem demo_monitor 0 = 3" "next_count demo_monitor = 0" "sem_value demo_monitor k = 0"
  "cv_count demo_monitor k = 0"
proof -
  have l: "rr_list demo_monitor [2, 3]"
    by (simp add: rr_list_def dlist_def demo_monitor_def demo_kernel_def demo_proc_def MAX_PROCESS_def kernel.extend_def)
  then have "rr_ready demo_monitor {2, 3}" unfolding rr_ready_def by (intro exI [of _ "[2, 3]"]) simp
  then show "sched_inv rr_ready rr_offline {0, 1, 2, 3, 4} 0 demo_monitor {2, 3}"
    by (auto simp: sched_inv_def rr_offline_def list_empty_def demo_monitor_def demo_kernel_def demo_proc_def
        MAX_PROCESS_def kernel.extend_def)
  show "sems_ok {0, 1, 2, 3, 4} demo_monitor (\<lambda>_. [])"
    by (simp add: sems_ok_def dlist_def demo_monitor_def demo_kernel_def kernel.extend_def)
qed (simp_all add: demo_monitor_def demo_kernel_def demo_proc_def kernel.extend_def)

theorem cond_wait_correct_witness:
  "\<exists>t W. cond_wait_enter default_sched_class 0 9 demo_monitor = Some (False, t) \<and>
     sem_abs t W = (\<lambda>_. (0, []))(1 := (1, []), 3 := (0, [1])) \<and> cv_count t 0 = 1"
proof -
  have v: "sem_abs demo_monitor (\<lambda>_. []) = (\<lambda>_. (0, []))" by (simp add: sem_abs_def demo_monitor_facts fun_eq_iff)
  have w: "\<forall>k. (9 :: nat) \<notin> set ((\<lambda>_. []) k)" by simp
  show ?thesis
    using cond_wait_correct [OF demo_monitor_facts(1-4) _ w, of 0]
    by (simp add: demo_monitor_facts v) (elim exE conjE, intro exI conjI, assumption+, simp add: demo_monitor_facts)
qed

text \<open>Process 4 waits on the condition through the entry 9.\<close>

definition demo_signal :: mkernel where
  "demo_signal = demo_monitor\<lparr>
     procs := (procs demo_monitor)(4 := (procs demo_monitor 4)\<lparr>wait_state := WT_KSEM\<rparr>),
     klinks := \<lparr>prv = (prv (klinks demo_monitor))(WaitHead 3 := WaitLink 9, WaitLink 9 := WaitHead 3),
                nxt = (nxt (klinks demo_monitor))(WaitHead 3 := WaitLink 9, WaitLink 9 := WaitHead 3)\<rparr>,
     waits := (waits demo_monitor)(9 := \<lparr>w_proc = Some 4, wakeup_flags = WT_INTERRUPTED, w_queue = Some 3\<rparr>),
     cv_count := (\<lambda>_. 0)(0 := 1)\<rparr>"

lemma demo_signal_facts:
  "sched_inv rr_ready rr_offline {0, 1, 2, 3, 4} 0 demo_signal {2, 3}"
  "sems_ok {0, 1, 2, 3, 4} demo_signal ((\<lambda>_. [])(3 := [9]))" "current demo_signal = Some 1"
  "p_state (procs demo_signal 1) = PROC_RUNNABLE" "mt_mutex demo_signal = 1" "mt_next demo_signal = 2"
  "cv_sem demo_signal 0 = 3" "next_count demo_signal = 0" "sem_value demo_signal k = 0"
  "cv_count demo_signal 0 = 1" "w_proc (waits demo_signal 9) = Some 4"
proof -
  have l: "rr_list demo_signal [2, 3]"
    by (simp add: rr_list_def dlist_def demo_signal_def demo_monitor_def demo_kernel_def demo_proc_def
        MAX_PROCESS_def kernel.extend_def)
  then have "rr_ready demo_signal {2, 3}" unfolding rr_ready_def by (intro exI [of _ "[2, 3]"]) simp
  then show "sched_inv rr_ready rr_offline {0, 1, 2, 3, 4} 0 demo_signal {2, 3}"
    by (auto simp: sched_inv_def rr_offline_def list_empty_def demo_signal_def demo_monitor_def demo_kernel_def
        demo_proc_def MAX_PROCESS_def kernel.extend_def)
  show "sems_ok {0, 1, 2, 3, 4} demo_signal ((\<lambda>_. [])(3 := [9]))"
    by (simp add: sems_ok_def waits_on_def dlist_def demo_signal_def demo_monitor_def demo_kernel_def demo_proc_def
        kernel.extend_def)
qed (simp_all add: demo_signal_def demo_monitor_def demo_kernel_def demo_proc_def kernel.extend_def)

theorem cond_signal_correct_witness:
  "\<exists>t. cond_signal_enter default_sched_class 0 8 demo_signal = Some (False, t) \<and>
     p_state (procs t 4) = PROC_RUNNABLE \<and> p_state (procs t 1) = PROC_SLEEPING \<and> next_count t = 1"
proof -
  have v: "sem_abs demo_signal ((\<lambda>_. [])(3 := [9])) 3 = (0, [4])" by (simp add: sem_abs_def demo_signal_facts)
  have c: "\<forall>k. (8 :: nat) \<notin> set (((\<lambda>_. [])(3 := [9])) k)" "distinct [mt_mutex demo_signal, mt_next demo_signal, cv_sem demo_signal 0]"
    "cv_count demo_signal 0 = int (length (((\<lambda>_. [])(3 := [9])) (cv_sem demo_signal 0)))"
    by (simp_all add: demo_signal_facts)
  show ?thesis
    using cond_signal_correct [OF demo_signal_facts(1-4) _ c(1,2) demo_signal_facts(9) c(3)]
    by (simp add: demo_signal_facts v) blast
qed

end
