(* ===== verification/Philosophers.thy ===== *)
theory Philosophers
  imports Sync
begin

text \<open>
  The dining philosophers of \<^verbatim>\<open>kern/sync/check_sync.c\<close>, the semaphore version.  Semaphores are used
  through their contract (\<open>asem_up\<close>, \<open>asem_down\<close>), which \<open>sem_up_refines\<close> and \<open>sem_down_refines\<close> tie to
  the kernel's semaphores.  A philosopher is interrupted at every semaphore operation, so each
  function is the sequence of its segments between them and a phase says where a philosopher is.
\<close>

section \<open>The table\<close>

definition N :: nat where "N = 5"
definition LEFT :: "nat \<Rightarrow> nat" where "LEFT i = (i + N - 1) mod N"
definition RIGHT :: "nat \<Rightarrow> nat" where "RIGHT i = (i + 1) mod N"

datatype hunger = THINKING | HUNGRY | EATING

text \<open>
  \<open>WaitTake\<close>, \<open>WaitPut\<close> and \<open>WaitFork\<close> are asleep in a \<^verbatim>\<open>down\<close>; \<open>InTake\<close>, \<open>OutTake\<close>, \<open>InPut\<close>, \<open>OutPut\<close> hold
  the mutex, before and after the body of the critical section.
\<close>

datatype phase = Away | WaitTake | InTake | OutTake | WantFork | WaitFork | AtTable | WaitPut | InPut | OutPut

record table =
  mutex :: asem
  fork_sem :: "nat \<Rightarrow> asem"
  state_sema :: "nat \<Rightarrow> hunger"
  phase :: "nat \<Rightarrow> phase"

definition go :: "nat \<Rightarrow> phase \<Rightarrow> table \<Rightarrow> table" where
  "go i ph t = t\<lparr>phase := (phase t)(i := ph)\<rparr>"

text \<open>A sleeping philosopher who is handed the semaphore continues behind its \<^verbatim>\<open>down\<close>.\<close>

definition wake :: "nat option \<Rightarrow> table \<Rightarrow> table" where
  "wake who t =
     (case who of
        None \<Rightarrow> t
      | Some p \<Rightarrow> go p (case phase t p of WaitTake \<Rightarrow> InTake | WaitPut \<Rightarrow> InPut | _ \<Rightarrow> AtTable) t)"

definition up_mutex :: "table \<Rightarrow> table" where
  "up_mutex t = (let (m, p) = asem_up (mutex t) in wake p (t\<lparr>mutex := m\<rparr>))"

definition up_fork :: "nat \<Rightarrow> table \<Rightarrow> table" where
  "up_fork i t = (let (m, p) = asem_up (fork_sem t i) in wake p (t\<lparr>fork_sem := (fork_sem t)(i := m)\<rparr>))"

definition down_mutex :: "nat \<Rightarrow> phase \<Rightarrow> phase \<Rightarrow> table \<Rightarrow> table" where
  "down_mutex i got blocked t =
     (let (m, r) = asem_down i (mutex t) in go i (if r then got else blocked) (t\<lparr>mutex := m\<rparr>))"

definition down_fork :: "nat \<Rightarrow> phase \<Rightarrow> phase \<Rightarrow> table \<Rightarrow> table" where
  "down_fork i got blocked t =
     (let (m, r) = asem_down i (fork_sem t i)
      in go i (if r then got else blocked) (t\<lparr>fork_sem := (fork_sem t)(i := m)\<rparr>))"

definition set_state :: "nat \<Rightarrow> hunger \<Rightarrow> table \<Rightarrow> table" where
  "set_state i x t = t\<lparr>state_sema := (state_sema t)(i := x)\<rparr>"

definition phi_test_sema :: "nat \<Rightarrow> table \<Rightarrow> table" where
  "phi_test_sema i t =
     (if state_sema t i = HUNGRY \<and> state_sema t (LEFT i) \<noteq> EATING \<and> state_sema t (RIGHT i) \<noteq> EATING
      then up_fork i (set_state i EATING t) else t)"

text \<open>The segments of \<^verbatim>\<open>phi_take_forks_sema\<close> and \<^verbatim>\<open>phi_put_forks_sema\<close>.\<close>

definition take_enter :: "nat \<Rightarrow> table \<Rightarrow> table" where "take_enter i = down_mutex i InTake WaitTake"
definition take_body :: "nat \<Rightarrow> table \<Rightarrow> table" where
  "take_body i t = go i OutTake (phi_test_sema i (set_state i HUNGRY t))"
definition take_leave :: "nat \<Rightarrow> table \<Rightarrow> table" where "take_leave i t = go i WantFork (up_mutex t)"
definition take_fork :: "nat \<Rightarrow> table \<Rightarrow> table" where "take_fork i = down_fork i AtTable WaitFork"
definition put_enter :: "nat \<Rightarrow> table \<Rightarrow> table" where "put_enter i = down_mutex i InPut WaitPut"
definition put_body :: "nat \<Rightarrow> table \<Rightarrow> table" where
  "put_body i t = go i OutPut (phi_test_sema (RIGHT i) (phi_test_sema (LEFT i) (set_state i THINKING t)))"
definition put_leave :: "nat \<Rightarrow> table \<Rightarrow> table" where "put_leave i t = go i Away (up_mutex t)"

text \<open>One philosopher of \<^verbatim>\<open>philosopher_using_semaphore\<close> takes a step; any one that is not asleep may.\<close>

fun phi_step :: "nat \<Rightarrow> table \<Rightarrow> table option" where
  "phi_step i t =
     (case phase t i of
        Away \<Rightarrow> Some (take_enter i t)
      | InTake \<Rightarrow> Some (take_body i t)
      | OutTake \<Rightarrow> Some (take_leave i t)
      | WantFork \<Rightarrow> Some (take_fork i t)
      | AtTable \<Rightarrow> Some (put_enter i t)
      | InPut \<Rightarrow> Some (put_body i t)
      | OutPut \<Rightarrow> Some (put_leave i t)
      | _ \<Rightarrow> None)"

inductive dine :: "table \<Rightarrow> table \<Rightarrow> bool" where
  "i < N \<Longrightarrow> phi_step i t = Some t' \<Longrightarrow> dine t t'"

text \<open>\<^verbatim>\<open>check_sync\<close> initialises the semaphores; \<^verbatim>\<open>state_sema\<close> is a zeroed global.\<close>

definition table_init :: table where
  "table_init = \<lparr>mutex = (1, []), fork_sem = (\<lambda>_. (0, [])), state_sema = (\<lambda>_. THINKING), phase = (\<lambda>_. Away)\<rparr>"

section \<open>Geometry\<close>

lemma neighbours:
  assumes "i < N"
  shows "LEFT i < N" "RIGHT i < N" "LEFT i \<noteq> i" "RIGHT i \<noteq> i" "LEFT i \<noteq> RIGHT i"
    "LEFT (RIGHT i) = i" "RIGHT (LEFT i) = i" "LEFT (LEFT i) \<noteq> i" "RIGHT (RIGHT i) \<noteq> i"
    "LEFT (LEFT i) \<noteq> RIGHT i" "RIGHT (RIGHT i) \<noteq> LEFT i"
proof -
  have "i = 0 \<or> i = 1 \<or> i = 2 \<or> i = 3 \<or> i = 4" using assms by (auto simp: N_def)
  then show "LEFT i < N" "RIGHT i < N" "LEFT i \<noteq> i" "RIGHT i \<noteq> i" "LEFT i \<noteq> RIGHT i"
    "LEFT (RIGHT i) = i" "RIGHT (LEFT i) = i" "LEFT (LEFT i) \<noteq> i" "RIGHT (RIGHT i) \<noteq> i"
    "LEFT (LEFT i) \<noteq> RIGHT i" "RIGHT (RIGHT i) \<noteq> LEFT i"
    by (elim disjE; simp add: N_def LEFT_def RIGHT_def)+
qed

lemma neighbour_sym: "i < N \<Longrightarrow> j < N \<Longrightarrow> (i = LEFT j \<longleftrightarrow> j = RIGHT i) \<and> (i = RIGHT j \<longleftrightarrow> j = LEFT i)"
  using neighbours by metis

section \<open>The invariant\<close>

definition holds_mutex :: "phase \<Rightarrow> bool" where
  "holds_mutex ph \<longleftrightarrow> ph = InTake \<or> ph = OutTake \<or> ph = InPut \<or> ph = OutPut"

definition in_mutex_queue :: "phase \<Rightarrow> bool" where
  "in_mutex_queue ph \<longleftrightarrow> ph = WaitTake \<or> ph = WaitPut"

definition mutex_ok :: "table \<Rightarrow> bool" where
  "mutex_ok t \<longleftrightarrow>
     0 \<le> fst (mutex t) \<and> fst (mutex t) + int (card {i. i < N \<and> holds_mutex (phase t i)}) = 1 \<and>
     (snd (mutex t) \<noteq> [] \<longrightarrow> fst (mutex t) = 0) \<and> distinct (snd (mutex t)) \<and>
     set (snd (mutex t)) = {i. i < N \<and> in_mutex_queue (phase t i)}"

text \<open>What phase, recorded state and private semaphore of a philosopher say together.\<close>

definition phil_ok :: "nat \<Rightarrow> phase \<Rightarrow> hunger \<Rightarrow> asem \<Rightarrow> bool" where
  "phil_ok i ph x f \<longleftrightarrow>
     (case ph of
        OutTake \<Rightarrow> x = EATING \<and> f = (1, []) \<or> x = HUNGRY \<and> f = (0, [])
      | WantFork \<Rightarrow> x = EATING \<and> f = (1, []) \<or> x = HUNGRY \<and> f = (0, [])
      | WaitFork \<Rightarrow> x = HUNGRY \<and> f = (0, [i])
      | AtTable \<Rightarrow> x = EATING \<and> f = (0, [])
      | WaitPut \<Rightarrow> x = EATING \<and> f = (0, [])
      | InPut \<Rightarrow> x = EATING \<and> f = (0, [])
      | _ \<Rightarrow> x = THINKING \<and> f = (0, []))"

definition phils_ok :: "table \<Rightarrow> bool" where
  "phils_ok t \<longleftrightarrow> (\<forall>i<N. phil_ok i (phase t i) (state_sema t i) (fork_sem t i))"

definition exclusive :: "table \<Rightarrow> bool" where
  "exclusive t \<longleftrightarrow> (\<forall>i<N. state_sema t i = EATING \<longrightarrow> state_sema t (RIGHT i) \<noteq> EATING)"

definition served :: "table \<Rightarrow> bool" where
  "served t \<longleftrightarrow> (\<forall>i<N. state_sema t i = HUNGRY \<longrightarrow> state_sema t (LEFT i) = EATING \<or> state_sema t (RIGHT i) = EATING)"

definition table_ok :: "table \<Rightarrow> bool" where
  "table_ok t \<longleftrightarrow> mutex_ok t \<and> phils_ok t \<and> exclusive t \<and> served t"

lemma table_init_ok: "table_ok table_init"
  by (simp add: table_ok_def mutex_ok_def phils_ok_def phil_ok_def exclusive_def served_def table_init_def
      holds_mutex_def in_mutex_queue_def)

section \<open>Every step keeps it\<close>

lemma go_simps [simp]:
  "mutex (go i ph t) = mutex t" "fork_sem (go i ph t) = fork_sem t" "state_sema (go i ph t) = state_sema t"
  "phase (go i ph t) = (phase t)(i := ph)"
  by (simp_all add: go_def)

lemma set_state_simps [simp]:
  "mutex (set_state i x t) = mutex t" "fork_sem (set_state i x t) = fork_sem t" "phase (set_state i x t) = phase t"
  "state_sema (set_state i x t) = (state_sema t)(i := x)"
  by (simp_all add: set_state_def)

lemma holders_insert:
  assumes "i < N" "\<not> holds_mutex (phase t i)" "holds_mutex ph"
  shows "card {j. j < N \<and> holds_mutex (((phase t)(i := ph)) j)} = Suc (card {j. j < N \<and> holds_mutex (phase t j)})"
proof -
  have "{j. j < N \<and> holds_mutex (((phase t)(i := ph)) j)} = insert i {j. j < N \<and> holds_mutex (phase t j)}"
    using assms by auto
  then show ?thesis using assms by simp
qed

lemma holders_remove:
  assumes "i < N" "holds_mutex (phase t i)" "\<not> holds_mutex ph"
  shows "Suc (card {j. j < N \<and> holds_mutex (((phase t)(i := ph)) j)}) = card {j. j < N \<and> holds_mutex (phase t j)}"
proof -
  have "{j. j < N \<and> holds_mutex (phase t j)} = insert i {j. j < N \<and> holds_mutex (((phase t)(i := ph)) j)}"
    using assms by auto
  moreover have "i \<notin> {j. j < N \<and> holds_mutex (((phase t)(i := ph)) j)}" using assms(3) by simp
  moreover have "finite {j. j < N \<and> holds_mutex (((phase t)(i := ph)) j)}" by simp
  ultimately show ?thesis by (metis card_insert_disjoint)
qed

lemma holders_same:
  assumes "holds_mutex (phase t i) = holds_mutex ph"
  shows "{j. j < N \<and> holds_mutex (((phase t)(i := ph)) j)} = {j. j < N \<and> holds_mutex (phase t j)}"
  using assms by auto

lemma down_mutex_ok:
  assumes "mutex_ok t" "i < N" "\<not> holds_mutex (phase t i)" "\<not> in_mutex_queue (phase t i)"
    "holds_mutex got" "in_mutex_queue blocked"
  shows "mutex_ok (down_mutex i got blocked t)"
    and "fork_sem (down_mutex i got blocked t) = fork_sem t" "state_sema (down_mutex i got blocked t) = state_sema t"
    and "\<exists>ph. (ph = got \<or> ph = blocked) \<and> phase (down_mutex i got blocked t) = (phase t)(i := ph)"
proof -
  obtain v ps where m: "mutex t = (v, ps)" by (cases "mutex t")
  have ni: "i \<notin> set ps" using assms(1,4) m by (auto simp: mutex_ok_def)
  have q: "\<not> in_mutex_queue got" "\<not> holds_mutex blocked"
    using assms(5,6) by (auto simp: holds_mutex_def in_mutex_queue_def)
  show "mutex_ok (down_mutex i got blocked t)"
  proof (cases "0 < v")
    case True
    have "set ps = {j. j < N \<and> in_mutex_queue (((phase t)(i := got)) j)}"
      using assms(1,2,4) q m by (auto simp: mutex_ok_def)
    then show ?thesis
      using assms(1) True m holders_insert [OF assms(2,3,5)]
      by (auto simp: mutex_ok_def down_mutex_def simp del: fun_upd_apply)
  next
    case False
    have "insert i (set ps) = {j. j < N \<and> in_mutex_queue (((phase t)(i := blocked)) j)}"
      using assms(1,2,6) m by (auto simp: mutex_ok_def)
    moreover have "card {j. j < N \<and> holds_mutex (((phase t)(i := blocked)) j)} = card {j. j < N \<and> holds_mutex (phase t j)}"
      using holders_same [of t i blocked] assms(3) q by simp
    ultimately show ?thesis
      using assms(1) False m ni by (auto simp: mutex_ok_def down_mutex_def simp del: fun_upd_apply)
  qed
  show "fork_sem (down_mutex i got blocked t) = fork_sem t" "state_sema (down_mutex i got blocked t) = state_sema t"
    "\<exists>ph. (ph = got \<or> ph = blocked) \<and> phase (down_mutex i got blocked t) = (phase t)(i := ph)"
    by (auto simp: down_mutex_def m)
qed

lemma mutex_ok_cong:
  assumes "mutex_ok t" "mutex t' = mutex t"
    "\<And>j. holds_mutex (phase t' j) = holds_mutex (phase t j)" "\<And>j. in_mutex_queue (phase t' j) = in_mutex_queue (phase t j)"
  shows "mutex_ok t'"
  using assms by (simp add: mutex_ok_def)

lemma leave_ok:
  assumes ok: "mutex_ok t" "i < N" "holds_mutex (phase t i)" and ph: "\<not> holds_mutex ph" "\<not> in_mutex_queue ph"
  defines "t' \<equiv> go i ph (up_mutex t)"
  shows "mutex_ok t'" and "fork_sem t' = fork_sem t" "state_sema t' = state_sema t" "phase t' i = ph"
    and "j \<noteq> i \<Longrightarrow> phase t' j = phase t j \<or> phase t j = WaitTake \<and> phase t' j = InTake \<or>
      phase t j = WaitPut \<and> phase t' j = InPut"
proof -
  obtain v ps where m: "mutex t = (v, ps)" by (cases "mutex t")
  have "\<not> in_mutex_queue (phase t i)" using ok(3) by (auto simp: in_mutex_queue_def holds_mutex_def)
  then have iq: "i \<notin> set ps" using ok(1) m by (simp add: mutex_ok_def)
  have "mutex_ok t' \<and> fork_sem t' = fork_sem t \<and> state_sema t' = state_sema t \<and> phase t' i = ph \<and>
    (j \<noteq> i \<longrightarrow> phase t' j = phase t j \<or> phase t j = WaitTake \<and> phase t' j = InTake \<or>
      phase t j = WaitPut \<and> phase t' j = InPut)"
  proof (cases ps)
    case Nil
    have t': "t' = go i ph (t\<lparr>mutex := (v + 1, [])\<rparr>)"
      by (simp add: t'_def up_mutex_def m Nil wake_def)
    have "{} = {j. j < N \<and> in_mutex_queue (((phase t)(i := ph)) j)}"
      using ok(1) ph(2) m Nil by (auto simp: mutex_ok_def)
    moreover have "0 \<le> v" using ok(1) m by (simp add: mutex_ok_def)
    ultimately have "mutex_ok t'"
      using ok(1) m Nil holders_remove [OF ok(2,3) ph(1)] unfolding t' mutex_ok_def
      by (simp add: del: fun_upd_apply)
    then show ?thesis by (simp add: t')
  next
    case (Cons p qs)
    have p: "p < N" "in_mutex_queue (phase t p)" "p \<noteq> i" "p \<notin> set qs" "v = 0" "distinct qs"
      using ok(1) iq m Cons by (auto simp: mutex_ok_def)
    define nx where "nx = (if phase t p = WaitTake then InTake else InPut)"
    have t': "t' = go i ph (go p nx (t\<lparr>mutex := (0, qs)\<rparr>))"
      using p(2,5) by (auto simp: t'_def up_mutex_def m Cons wake_def in_mutex_queue_def nx_def)
    have nx: "holds_mutex nx" "\<not> in_mutex_queue nx" by (auto simp: nx_def holds_mutex_def in_mutex_queue_def)
    have phs: "phase t' = ((phase t)(i := ph))(p := nx)" using p(3) by (auto simp: t')
    have "set qs = {j. j < N \<and> in_mutex_queue (phase t' j)}"
    proof -
      have "insert p (set qs) = {j. j < N \<and> in_mutex_queue (phase t j)}" using ok(1) m Cons by (simp add: mutex_ok_def)
      then have q: "j \<in> set qs \<longleftrightarrow> j < N \<and> in_mutex_queue (phase t j) \<and> j \<noteq> p" for j using p(4) by blast
      moreover have "\<not> in_mutex_queue (phase t i)" using ok(3) by (auto simp: holds_mutex_def in_mutex_queue_def)
      ultimately show ?thesis using nx(2) ph(2) by (auto simp: phs)
    qed
    moreover have "card {j. j < N \<and> holds_mutex (phase t' j)} = card {j. j < N \<and> holds_mutex (phase t j)}"
    proof -
      have "\<not> holds_mutex (((phase t)(i := ph)) p)" using p(2,3) by (auto simp: holds_mutex_def in_mutex_queue_def)
      then have "card {j. j < N \<and> holds_mutex (phase t' j)} = Suc (card {j. j < N \<and> holds_mutex (((phase t)(i := ph)) j)})"
        using holders_insert [of p "t\<lparr>phase := (phase t)(i := ph)\<rparr>" nx] p(1) nx(1) unfolding phs by simp
      then show ?thesis using holders_remove [OF ok(2,3) ph(1)] by simp
    qed
    ultimately have "mutex_ok t'" using ok(1) m Cons p(5,6) by (simp add: mutex_ok_def t')
    moreover have "fork_sem t' = fork_sem t" "state_sema t' = state_sema t" by (simp_all add: t')
    moreover have "phase t' i = ph" using p(3) by (simp add: phs)
    ultimately show ?thesis
      using p(2) by (auto simp: phs nx_def in_mutex_queue_def)
  qed
  then show "mutex_ok t'" "fork_sem t' = fork_sem t" "state_sema t' = state_sema t" "phase t' i = ph"
    "j \<noteq> i \<Longrightarrow> phase t' j = phase t j \<or> phase t j = WaitTake \<and> phase t' j = InTake \<or>
      phase t j = WaitPut \<and> phase t' j = InPut" by blast+
qed

text \<open>The test of a philosopher whose own data agree.\<close>

lemma test_ok:
  assumes "phil_ok j (phase t j) (state_sema t j) (fork_sem t j)"
  defines "t' \<equiv> phi_test_sema j t"
  shows "phil_ok j (phase t' j) (state_sema t' j) (fork_sem t' j)" "mutex t' = mutex t"
    "k \<noteq> j \<Longrightarrow> phase t' k = phase t k" "k \<noteq> j \<Longrightarrow> fork_sem t' k = fork_sem t k"
    "state_sema t' = (if state_sema t j = HUNGRY \<and> state_sema t (LEFT j) \<noteq> EATING \<and> state_sema t (RIGHT j) \<noteq> EATING
       then (state_sema t)(j := EATING) else state_sema t)"
    "holds_mutex (phase t' k) = holds_mutex (phase t k)" "in_mutex_queue (phase t' k) = in_mutex_queue (phase t k)"
proof -
  have h: "state_sema t j = HUNGRY \<Longrightarrow>
      fork_sem t j = (0, []) \<and> (phase t j = OutTake \<or> phase t j = WantFork) \<or> fork_sem t j = (0, [j]) \<and> phase t j = WaitFork"
    using assms(1) by (auto simp: phil_ok_def split: phase.splits)
  show "phil_ok j (phase t' j) (state_sema t' j) (fork_sem t' j)" "mutex t' = mutex t"
    "k \<noteq> j \<Longrightarrow> phase t' k = phase t k" "k \<noteq> j \<Longrightarrow> fork_sem t' k = fork_sem t k"
    "state_sema t' = (if state_sema t j = HUNGRY \<and> state_sema t (LEFT j) \<noteq> EATING \<and> state_sema t (RIGHT j) \<noteq> EATING
       then (state_sema t)(j := EATING) else state_sema t)"
    "holds_mutex (phase t' k) = holds_mutex (phase t k)" "in_mutex_queue (phase t' k) = in_mutex_queue (phase t k)"
    using assms(1) h
    by (cases "k = j"; auto simp: t'_def phi_test_sema_def up_fork_def wake_def phil_ok_def holds_mutex_def in_mutex_queue_def)+
qed

lemma exclusive_eat:
  assumes "exclusive t" "j < N" "state_sema t (LEFT j) \<noteq> EATING" "state_sema t (RIGHT j) \<noteq> EATING"
    "state_sema t' = (state_sema t)(j := EATING)"
  shows "exclusive t'"
  unfolding exclusive_def
proof (intro allI impI)
  fix i assume i: "i < N" "state_sema t' i = EATING"
  show "state_sema t' (RIGHT i) \<noteq> EATING"
  proof (cases "i = j")
    case True
    then show ?thesis using assms(4,5) neighbours(4) [OF i(1)] by simp
  next
    case False
    then have e: "state_sema t i = EATING" using i(2) assms(5) by simp
    then have "RIGHT i \<noteq> j" using assms(3) neighbours(6) [OF i(1)] by auto
    then show ?thesis using assms(1,5) i(1) e by (simp add: exclusive_def)
  qed
qed

lemma take_body_ok:
  assumes "table_ok t" "i < N" "phase t i = InTake"
  shows "table_ok (take_body i t)"
proof -
  let ?c = "state_sema t (LEFT i) \<noteq> EATING \<and> state_sema t (RIGHT i) \<noteq> EATING"
  note nb = neighbours [OF assms(2)]
  have p: "state_sema t i = THINKING" "fork_sem t i = (0, [])"
    using assms by (auto simp: table_ok_def phils_ok_def phil_ok_def dest!: spec [of _ i])
  have b: "mutex (take_body i t) = mutex t" "phase (take_body i t) = (phase t)(i := OutTake)"
    "state_sema (take_body i t) = (state_sema t)(i := if ?c then EATING else HUNGRY)"
    "fork_sem (take_body i t) = (fork_sem t)(i := if ?c then (1, []) else (0, []))"
    using p(2) nb by (auto simp: take_body_def phi_test_sema_def up_fork_def wake_def)
  have "mutex_ok (take_body i t)"
    by (rule mutex_ok_cong [of t]) (use assms(1,3) b in \<open>auto simp: table_ok_def holds_mutex_def in_mutex_queue_def\<close>)
  moreover have "phils_ok (take_body i t)"
    using assms(1) b by (auto simp: phils_ok_def table_ok_def phil_ok_def)
  moreover have "exclusive (take_body i t)"
  proof (cases ?c)
    case True
    then show ?thesis using exclusive_eat [of t i] assms(1,2) b(3) by (auto simp: table_ok_def)
  next
    case False
    then show ?thesis using assms(1) b(3) by (auto simp: exclusive_def table_ok_def)
  qed
  moreover have "served (take_body i t)"
    using assms(1) p(1) b(3) nb unfolding served_def table_ok_def by auto
  ultimately show ?thesis by (simp add: table_ok_def)
qed

lemma put_body_ok:
  assumes "table_ok t" "i < N" "phase t i = InPut"
  shows "table_ok (put_body i t)"
proof -
  note nb = neighbours [OF assms(2)]
  let ?L = "LEFT i" and ?R = "RIGHT i"
  define t1 where "t1 = set_state i THINKING t"
  define t2 where "t2 = phi_test_sema ?L t1"
  define t3 where "t3 = phi_test_sema ?R t2"
  have all: "\<And>j. j < N \<Longrightarrow> phil_ok j (phase t j) (state_sema t j) (fork_sem t j)"
    and ex: "exclusive t" and sv: "served t" and mt: "mutex_ok t"
    using assms(1) by (auto simp: table_ok_def phils_ok_def)
  have fi: "fork_sem t i = (0, [])" using all [OF assms(2)] assms(3) by (simp add: phil_ok_def)
  have pL: "phil_ok ?L (phase t1 ?L) (state_sema t1 ?L) (fork_sem t1 ?L)" using all [of ?L] nb by (simp add: t1_def)
  note L = test_ok [OF pL, folded t2_def]
  have pR: "phil_ok ?R (phase t2 ?R) (state_sema t2 ?R) (fork_sem t2 ?R)"
    using all [of ?R] nb L(3) [of ?R] L(4) [of ?R] L(5) by (auto simp: t1_def)
  note R = test_ok [OF pR, folded t3_def]
  have t': "put_body i t = go i OutPut t3" by (simp add: put_body_def t1_def t2_def t3_def)
  have ex1: "exclusive t1" using ex by (auto simp: exclusive_def t1_def)
  have ex2: "exclusive t2"
  proof (cases "state_sema t1 ?L = HUNGRY \<and> state_sema t1 (LEFT ?L) \<noteq> EATING \<and> state_sema t1 (RIGHT ?L) \<noteq> EATING")
    case True
    then show ?thesis using exclusive_eat [OF ex1 nb(1)] L(5) by simp
  next
    case False
    then have "state_sema t2 = state_sema t1" using L(5) by (simp only: if_False)
    then show ?thesis using ex1 by (simp add: exclusive_def)
  qed
  have ex3: "exclusive t3"
  proof (cases "state_sema t2 ?R = HUNGRY \<and> state_sema t2 (LEFT ?R) \<noteq> EATING \<and> state_sema t2 (RIGHT ?R) \<noteq> EATING")
    case True
    then show ?thesis using exclusive_eat [OF ex2 nb(2)] R(5) by simp
  next
    case False
    then have "state_sema t3 = state_sema t2" using R(5) by (simp only: if_False)
    then show ?thesis using ex2 by (simp add: exclusive_def)
  qed
  have st2: "state_sema t2 i = THINKING" "state_sema t3 i = THINKING" using nb L(5) R(5) by (auto simp: t1_def)
  have mono: "state_sema t1 j = EATING \<Longrightarrow> state_sema t3 j = EATING" "state_sema t3 j = HUNGRY \<Longrightarrow> state_sema t1 j = HUNGRY" for j
    using L(5) R(5) by (auto split: if_splits)
  have sv3: "served t3"
    unfolding served_def
  proof (intro allI impI)
    fix j assume j: "j < N" "state_sema t3 j = HUNGRY"
    note nj = neighbours [OF j(1)]
    have h1: "state_sema t1 j = HUNGRY" using mono j(2) by simp
    then have h: "state_sema t j = HUNGRY" "j \<noteq> i" by (auto simp: t1_def split: if_splits)
    consider "j = ?L" | "j = ?R" | "j \<noteq> ?L" "j \<noteq> ?R" by blast
    then show "state_sema t3 (LEFT j) = EATING \<or> state_sema t3 (RIGHT j) = EATING"
    proof cases
      case 1
      have "state_sema t2 ?L \<noteq> EATING" using 1 j(2) mono R(5) nb by (auto split: if_splits)
      then have "state_sema t1 (LEFT ?L) = EATING \<or> state_sema t1 (RIGHT ?L) = EATING"
        using L(5) h1 1 by (auto split: if_splits)
      then show ?thesis using mono 1 by blast
    next
      case 2
      have "state_sema t3 ?R \<noteq> EATING" using 2 j(2) by auto
      moreover have "state_sema t2 ?R = HUNGRY" using 2 h1 L(5) nb by auto
      ultimately have "state_sema t2 (LEFT ?R) = EATING \<or> state_sema t2 (RIGHT ?R) = EATING"
        using R(5) by (auto split: if_splits)
      moreover have "state_sema t2 k = EATING \<Longrightarrow> state_sema t3 k = EATING" for k using R(5) by (auto split: if_splits)
      ultimately show ?thesis using 2 by blast
    next
      case 3
      have "state_sema t (LEFT j) = EATING \<or> state_sema t (RIGHT j) = EATING" using sv j(1) h(1) by (auto simp: served_def)
      moreover have "LEFT j \<noteq> i" "RIGHT j \<noteq> i" using neighbour_sym [OF assms(2) j(1)] 3 by metis+
      ultimately show ?thesis using mono by (auto simp: t1_def)
    qed
  qed
  have "mutex_ok (put_body i t)"
    by (rule mutex_ok_cong [OF mt])
      (use L(2,6,7) R(2,6,7) assms(3) in \<open>auto simp: t' t1_def holds_mutex_def in_mutex_queue_def\<close>)
  moreover have "phils_ok (put_body i t)"
    unfolding phils_ok_def
  proof (intro allI impI)
    fix j assume j: "j < N"
    consider "j = i" | "j = ?R" | "j = ?L" | "j \<noteq> i" "j \<noteq> ?R" "j \<noteq> ?L" by blast
    then show "phil_ok j (phase (put_body i t) j) (state_sema (put_body i t) j) (fork_sem (put_body i t) j)"
    proof cases
      case 1
      then show ?thesis using nb L(4) [of i] R(4) [of i] fi st2 by (simp add: t' phil_ok_def t1_def)
    next
      case 2
      then show ?thesis using R(1) nb by (simp add: t')
    next
      case 3
      then show ?thesis using L(1) R(3) [of ?L] R(4) [of ?L] R(5) nb by (auto simp: t')
    next
      case 4
      then show ?thesis using all [OF j] L(3,4) [of j] R(3,4) [of j] L(5) R(5) by (auto simp: t' t1_def)
    qed
  qed
  moreover have "exclusive (put_body i t)" "served (put_body i t)"
    using ex3 sv3 by (simp_all add: t' exclusive_def served_def)
  ultimately show ?thesis by (simp add: table_ok_def)
qed

lemma leave_table_ok:
  assumes "table_ok t" "i < N" "phase t i = a" "holds_mutex a" "\<not> holds_mutex b" "\<not> in_mutex_queue b"
    and same: "\<And>x f. phil_ok i a x f \<Longrightarrow> phil_ok i b x f"
  shows "table_ok (go i b (up_mutex t))"
proof -
  have h: "holds_mutex (phase t i)" using assms(3,4) by simp
  have mt: "mutex_ok t" using assms(1) by (simp add: table_ok_def)
  note l = leave_ok [OF mt assms(2) h assms(5,6)]
  have "phil_ok j (phase (go i b (up_mutex t)) j) (state_sema t j) (fork_sem t j)" if "j < N" for j
  proof (cases "j = i")
    case True
    have "phil_ok i a (state_sema t i) (fork_sem t i)" using assms(1-3) by (auto simp: table_ok_def phils_ok_def)
    from same [OF this] True show ?thesis using l(4) by simp
  next
    case False
    then show ?thesis using l(5) [of j] assms(1) that by (auto simp: table_ok_def phils_ok_def phil_ok_def)
  qed
  then show ?thesis
    using l(1-3) assms(1) by (simp add: table_ok_def phils_ok_def exclusive_def served_def)
qed

lemma enter_table_ok:
  assumes "table_ok t" "i < N" "phase t i = a" "\<not> holds_mutex a" "\<not> in_mutex_queue a" "holds_mutex got" "in_mutex_queue blocked"
    and same: "\<And>x f. phil_ok i a x f \<Longrightarrow> phil_ok i got x f \<and> phil_ok i blocked x f"
  shows "table_ok (down_mutex i got blocked t)"
proof -
  have mt: "mutex_ok t" "\<not> holds_mutex (phase t i)" "\<not> in_mutex_queue (phase t i)"
    using assms(1,3-5) by (simp_all add: table_ok_def)
  note d = down_mutex_ok [OF mt(1) assms(2) mt(2,3) assms(6,7)]
  moreover have "phil_ok i a (state_sema t i) (fork_sem t i)" using assms(1-3) by (auto simp: table_ok_def phils_ok_def)
  note same [OF this]
  ultimately show ?thesis
    using assms(1,2) by (auto simp: table_ok_def phils_ok_def exclusive_def served_def)
qed

lemma take_fork_ok:
  assumes "table_ok t" "i < N" "phase t i = WantFork"
  shows "table_ok (take_fork i t)"
proof -
  have p: "state_sema t i = EATING \<and> fork_sem t i = (1, []) \<or> state_sema t i = HUNGRY \<and> fork_sem t i = (0, [])"
    using assms by (auto simp: table_ok_def phils_ok_def phil_ok_def dest!: spec [of _ i])
  have "holds_mutex (phase (take_fork i t) j) = holds_mutex (phase t j) \<and>
      in_mutex_queue (phase (take_fork i t) j) = in_mutex_queue (phase t j)" for j
    using assms(3) p
    by (cases "j = i") (auto simp: take_fork_def down_fork_def holds_mutex_def in_mutex_queue_def)
  moreover have "mutex (take_fork i t) = mutex t" using p by (auto simp: take_fork_def down_fork_def)
  ultimately have "mutex_ok (take_fork i t)"
    using mutex_ok_cong assms(1) unfolding table_ok_def by blast
  moreover have "state_sema (take_fork i t) = state_sema t"
    using p by (auto simp: take_fork_def down_fork_def)
  moreover have "phase (take_fork i t) = (phase t)(i := if state_sema t i = EATING then AtTable else WaitFork)"
    "fork_sem (take_fork i t) = (fork_sem t)(i := if state_sema t i = EATING then (0, []) else (0, [i]))"
    using p by (auto simp: take_fork_def down_fork_def)
  then have "phils_ok (take_fork i t)"
    using p assms(1) calculation by (auto simp: table_ok_def phils_ok_def phil_ok_def)
  ultimately show ?thesis using assms(1) by (simp add: table_ok_def exclusive_def served_def)
qed

lemma phi_step_ok:
  assumes "table_ok t" "i < N" "phi_step i t = Some t'"
  shows "table_ok t'"
  using assms
  by (cases "phase t i")
    (auto simp: take_enter_def take_leave_def put_enter_def put_leave_def phil_ok_def holds_mutex_def in_mutex_queue_def
      intro: take_body_ok put_body_ok take_fork_ok intro!: leave_table_ok enter_table_ok)

lemma dine_ok: "dine\<^sup>*\<^sup>* t t' \<Longrightarrow> table_ok t \<Longrightarrow> table_ok t'"
  by (induction rule: rtranclp_induct) (auto elim!: dine.cases intro: phi_step_ok)

text \<open>
  C21: in every state reached from \<^verbatim>\<open>check_sync\<close>'s initial state under any interleaving, two neighbours
  are never at the table together, at most one philosopher is inside the critical section, and a
  philosopher at the table is recorded as eating.
\<close>

theorem philosophers_safe:
  assumes "dine\<^sup>*\<^sup>* table_init t" and "i < N"
  shows "\<not> (phase t i = AtTable \<and> phase t (RIGHT i) = AtTable) \<and>
    card {j. j < N \<and> holds_mutex (phase t j)} \<le> 1 \<and>
    (phase t i = AtTable \<longrightarrow> state_sema t i = EATING)"
proof (intro conjI)
  have ok: "table_ok t" using dine_ok [OF assms(1)] table_init_ok by simp
  have e: "phase t j = AtTable \<Longrightarrow> state_sema t j = EATING" if "j < N" for j
    using ok that by (auto simp: table_ok_def phils_ok_def phil_ok_def dest!: spec [of _ j])
  show "\<not> (phase t i = AtTable \<and> phase t (RIGHT i) = AtTable)"
    using e [of i] e [of "RIGHT i"] ok assms(2) neighbours(2) [of i] by (auto simp: table_ok_def exclusive_def)
  show "card {j. j < N \<and> holds_mutex (phase t j)} \<le> 1" using ok by (auto simp: table_ok_def mutex_ok_def)
  show "phase t i = AtTable \<longrightarrow> state_sema t i = EATING" using e assms(2) by simp
qed

text \<open>
  C22: the protocol never deadlocks: in every reachable state some philosopher can take a step, and a
  hungry philosopher always has a neighbour who eats (nobody is left waiting for free forks).
\<close>

theorem philosophers_progress:
  assumes "dine\<^sup>*\<^sup>* table_init t"
  shows "(\<exists>i<N. phi_step i t \<noteq> None) \<and>
    (\<forall>i<N. state_sema t i = HUNGRY \<longrightarrow> state_sema t (LEFT i) = EATING \<or> state_sema t (RIGHT i) = EATING)"
proof
  have ok: "table_ok t" using dine_ok [OF assms] table_init_ok by simp
  then show sv: "\<forall>i<N. state_sema t i = HUNGRY \<longrightarrow> state_sema t (LEFT i) = EATING \<or> state_sema t (RIGHT i) = EATING"
    by (simp add: table_ok_def served_def)
  show "\<exists>i<N. phi_step i t \<noteq> None"
  proof (rule ccontr)
    assume "\<not> (\<exists>i<N. phi_step i t \<noteq> None)"
    then have stuck: "phase t i = WaitTake \<or> phase t i = WaitPut \<or> phase t i = WaitFork" if "i < N" for i
      using that by (cases "phase t i") auto
    then have "{j. j < N \<and> holds_mutex (phase t j)} = {}"
      using stuck by (fastforce simp: holds_mutex_def)
    then have "card {j. j < N \<and> holds_mutex (phase t j)} = 0" by (simp only: card.empty)
    moreover have "fst (mutex t) + int (card {j. j < N \<and> holds_mutex (phase t j)}) = 1"
      using ok unfolding table_ok_def mutex_ok_def by blast
    ultimately have "fst (mutex t) = 1" by linarith
    then have "snd (mutex t) = []" using ok by (auto simp: table_ok_def mutex_ok_def)
    then have "{i. i < N \<and> in_mutex_queue (phase t i)} = {}" using ok by (auto simp: table_ok_def mutex_ok_def)
    then have "phase t i = WaitFork" if "i < N" for i using stuck [OF that] that by (auto simp: in_mutex_queue_def)
    then have h: "state_sema t i = HUNGRY" if "i < N" for i
      using ok that by (auto simp: table_ok_def phils_ok_def phil_ok_def)
    have z: "0 < N" by (simp add: N_def)
    then have "state_sema t (LEFT 0) = EATING \<or> state_sema t (RIGHT 0) = EATING" using sv h by blast
    then show False using h [of "LEFT 0"] h [of "RIGHT 0"] neighbours(1,2) [OF z] by auto
  qed
qed

section \<open>Witnesses\<close>

text \<open>Philosopher 0 takes both forks and sits at the table.\<close>

fun phi_run :: "nat list \<Rightarrow> table \<Rightarrow> table option" where
  "phi_run [] t = Some t"
| "phi_run (i # is) t = (case phi_step i t of None \<Rightarrow> None | Some t' \<Rightarrow> phi_run is t')"

lemma phi_run_dine: "phi_run is t = Some t' \<Longrightarrow> \<forall>i\<in>set is. i < N \<Longrightarrow> dine\<^sup>*\<^sup>* t t'"
proof (induction "is" arbitrary: t)
  case (Cons i "is")
  then obtain u where u: "phi_step i t = Some u" "phi_run is u = Some t'" by (auto split: option.splits)
  then have "dine t u" using Cons.prems(2) by (auto intro: dine.intros)
  then show ?case using Cons.IH [OF u(2)] Cons.prems(2) by simp
qed simp

lemma phi_run_0:
  "\<exists>t. phi_run [0, 0, 0, 0] table_init = Some t \<and> phase t 0 = AtTable"
  by (simp add: table_init_def take_enter_def take_body_def take_leave_def take_fork_def down_mutex_def
      down_fork_def up_mutex_def phi_test_sema_def up_fork_def wake_def set_state_def go_def LEFT_def RIGHT_def N_def)

theorem philosophers_safe_witness:
  "\<exists>t. dine\<^sup>*\<^sup>* table_init t \<and> phase t 0 = AtTable \<and> phase t 1 \<noteq> AtTable"
proof -
  obtain t where t: "phi_run [0, 0, 0, 0] table_init = Some t" "phase t 0 = AtTable" using phi_run_0 by blast
  from t(1) have d: "dine\<^sup>*\<^sup>* table_init t" by (elim phi_run_dine) (simp add: N_def)
  show ?thesis using philosophers_safe [OF d, of 0] t(2) d by (auto simp: N_def RIGHT_def)
qed

theorem philosophers_progress_witness:
  "\<exists>t. dine\<^sup>*\<^sup>* table_init t \<and> phase t 0 = AtTable \<and> (\<exists>i<N. phi_step i t \<noteq> None)"
proof -
  obtain t where t: "phi_run [0, 0, 0, 0] table_init = Some t" "phase t 0 = AtTable" using phi_run_0 by blast
  from t(1) have d: "dine\<^sup>*\<^sup>* table_init t" by (elim phi_run_dine) (simp add: N_def)
  show ?thesis using philosophers_progress [OF d] t(2) d by blast
qed

end
