(* ===== verification/Kmalloc.thy ===== *)
theory Kmalloc
  imports Paging
begin

text \<open>
  The kernel's allocator for small objects, \<^verbatim>\<open>kern/mm/kmalloc.c\<close>: a circular list of free blocks
  (SLOB) and a list of big blocks.  Addresses count units of \<^verbatim>\<open>sizeof(slob_t)\<close> = 16 bytes: page \<open>p\<close>
  starts at unit \<open>256 * p\<close>, and \<^verbatim>\<open>arena\<close>, which lies below every page handed out, is at unit 0.
  The fields of a free block are kept apart from those of a \<^verbatim>\<open>bigblock_t\<close>, which lies in an allocated one.
\<close>

record bigblock =
  bb_order :: nat
  bb_pages :: nat
  bb_next :: "nat option"

record kheap =
  units :: "nat \<Rightarrow> int"
  snext :: "nat \<Rightarrow> nat"
  slobfree :: nat
  bigbs :: "nat \<Rightarrow> bigblock"
  bigblocks :: "nat option"
  kpm :: pmem

definition PAGE_SIZE :: nat where "PAGE_SIZE = 4096"
definition SLOB_UNIT :: nat where "SLOB_UNIT = 16"
definition SLOB_UNITS :: "nat \<Rightarrow> nat" where "SLOB_UNITS sz = (sz + SLOB_UNIT - 1) div SLOB_UNIT"
definition arena :: nat where "arena = 0"
definition page2unit :: "nat \<Rightarrow> nat" where "page2unit p = 256 * p"
definition unit2page :: "nat \<Rightarrow> nat" where "unit2page a = a div 256"

definition slob_get_free_pages :: "nat \<Rightarrow> kheap \<Rightarrow> nat option \<times> kheap" where
  "slob_get_free_pages order h =
     (case alloc_pages (2 ^ order) (kpm h) of
        (None, m) \<Rightarrow> (None, h\<lparr>kpm := m\<rparr>)
      | (Some p, m) \<Rightarrow> (Some (page2unit p), h\<lparr>kpm := m\<rparr>))"

definition slob_free_pages :: "nat \<Rightarrow> nat \<Rightarrow> kheap \<Rightarrow> kheap" where
  "slob_free_pages a order h = h\<lparr>kpm := free_pages (unit2page a) (2 ^ order) (kpm h)\<rparr>"

text \<open>The search for the place of a freed block in the circular list.\<close>

partial_function (option) find_slot :: "nat \<Rightarrow> nat \<Rightarrow> kheap \<Rightarrow> nat option" where
  "find_slot b cur h =
     (if b > cur \<and> b < snext h cur then Some cur
      else if cur \<ge> snext h cur \<and> (b > cur \<or> b < snext h cur) then Some cur
      else find_slot b (snext h cur) h)"

definition slob_free :: "nat option \<Rightarrow> nat \<Rightarrow> kheap \<Rightarrow> kheap option" where
  "slob_free block sz h =
     (case block of
        None \<Rightarrow> Some h
      | Some b \<Rightarrow>
          do {
            let h0 = (if sz \<noteq> 0 then h\<lparr>units := (units h)(b := int (SLOB_UNITS sz))\<rparr> else h);
            cur \<leftarrow> find_slot b (slobfree h0) h0;
            let nx = snext h0 cur;
            let h1 = (if int b + units h0 b = int nx
                      then h0\<lparr>units := (units h0)(b := units h0 b + units h0 nx), snext := (snext h0)(b := snext h0 nx)\<rparr>
                      else h0\<lparr>snext := (snext h0)(b := nx)\<rparr>);
            let h2 = (if int cur + units h1 cur = int b
                      then h1\<lparr>units := (units h1)(cur := units h1 cur + units h1 b), snext := (snext h1)(cur := snext h1 b)\<rparr>
                      else h1\<lparr>snext := (snext h1)(cur := b)\<rparr>);
            Some (h2\<lparr>slobfree := cur\<rparr>)
          })"

text \<open>The block found: cut off its head to align it, take it whole or take its first units.\<close>

definition slob_take :: "nat \<Rightarrow> nat \<Rightarrow> nat \<Rightarrow> nat \<Rightarrow> kheap \<Rightarrow> nat \<times> kheap" where
  "slob_take prev cur delta u h =
     (let (prev1, cur1, h1) =
        (if delta \<noteq> 0
         then (cur, cur + delta,
               h\<lparr>units := (units h)(cur + delta := units h cur - int delta, cur := int delta),
                 snext := (snext h)(cur + delta := snext h cur, cur := cur + delta)\<rparr>)
         else (prev, cur, h));
          h2 =
        (if units h1 cur1 = int u then h1\<lparr>snext := (snext h1)(prev1 := snext h1 cur1)\<rparr>
         else h1\<lparr>units := (units h1)(cur1 + u := units h1 cur1 - int u, cur1 := int u),
                 snext := (snext h1)(prev1 := cur1 + u, cur1 + u := snext h1 cur1)\<rparr>)
      in (cur1, h2\<lparr>slobfree := prev1\<rparr>))"

definition align_delta :: "nat \<Rightarrow> nat \<Rightarrow> nat" where
  "align_delta cur align =
     (if align \<noteq> 0 then ((SLOB_UNIT * cur + align - 1) div align * align - SLOB_UNIT * cur) div SLOB_UNIT else 0)"

partial_function (option) slob_loop :: "nat \<Rightarrow> nat \<Rightarrow> nat \<Rightarrow> nat \<Rightarrow> kheap \<Rightarrow> (nat option \<times> kheap) option" where
  "slob_loop sz align prev cur h =
     (let u = SLOB_UNITS sz; delta = align_delta cur align
      in if units h cur \<ge> int (u + delta)
         then (let (b, h1) = slob_take prev cur delta u h in Some (Some b, h1))
         else if cur = slobfree h
         then (if sz = PAGE_SIZE then Some (None, h)
               else case slob_get_free_pages 0 h of
                      (None, h1) \<Rightarrow> Some (None, h1)
                    | (Some pg, h1) \<Rightarrow>
                        do {
                          h2 \<leftarrow> slob_free (Some pg) PAGE_SIZE h1;
                          slob_loop sz align (slobfree h2) (snext h2 (slobfree h2)) h2
                        })
         else slob_loop sz align cur (snext h cur) h)"

definition slob_alloc :: "nat \<Rightarrow> nat \<Rightarrow> kheap \<Rightarrow> (nat option \<times> kheap) option" where
  "slob_alloc sz align h =
     do {
       assertc (sz + SLOB_UNIT < PAGE_SIZE);
       slob_loop sz align (slobfree h) (snext h (slobfree h)) h
     }"

text \<open>The size is cut to a signed 32-bit \<^verbatim>\<open>int\<close> when it is passed.\<close>

fun find_order_k :: "nat \<Rightarrow> nat" where
  "find_order_k sz = (if sz > 4096 then find_order_k (sz div 2) + 1 else 0)"

declare find_order_k.simps [simp del]

definition SIZEOF_BIGBLOCK :: nat where "SIZEOF_BIGBLOCK = 24"

definition kmalloc :: "nat \<Rightarrow> kheap \<Rightarrow> (nat option \<times> kheap) option" where
  "kmalloc sz h =
     (if sz < PAGE_SIZE - SLOB_UNIT
      then do { (m, h1) \<leftarrow> slob_alloc (sz + SLOB_UNIT) 0 h; Some (map_option (\<lambda>a. a + 1) m, h1) }
      else do {
        (bo, h1) \<leftarrow> slob_alloc SIZEOF_BIGBLOCK 0 h;
        (case bo of
           None \<Rightarrow> Some (None, h1)
         | Some bb \<Rightarrow>
             (let order = find_order_k (nat (sint (of_nat sz :: 32 word)))
              in case slob_get_free_pages order h1 of
                   (Some pg, h2) \<Rightarrow>
                     Some (Some pg, h2\<lparr>bigbs := (bigbs h2)(bb := \<lparr>bb_order = order, bb_pages = pg, bb_next = bigblocks h2\<rparr>),
                                       bigblocks := Some bb\<rparr>)
                 | (None, h2) \<Rightarrow> do { h3 \<leftarrow> slob_free (Some bb) SIZEOF_BIGBLOCK h2; Some (None, h3) }))
      })"

text \<open>\<open>lst\<close> is the block whose \<^verbatim>\<open>next\<close> leads to the current one, \<open>None\<close> for the head of the list.\<close>

partial_function (option) find_big :: "nat \<Rightarrow> nat option \<Rightarrow> nat option \<Rightarrow> kheap \<Rightarrow> (nat option \<times> nat option) option" where
  "find_big block lst bb h =
     (case bb of
        None \<Rightarrow> Some (None, lst)
      | Some b \<Rightarrow> if bb_pages (bigbs h b) = block then Some (Some b, lst)
                  else find_big block (Some b) (bb_next (bigbs h b)) h)"

definition kfree :: "nat option \<Rightarrow> kheap \<Rightarrow> kheap option" where
  "kfree block h =
     (case block of
        None \<Rightarrow> Some h
      | Some a \<Rightarrow>
          do {
            (found, lst) \<leftarrow> (if a mod 256 = 0 then find_big a None (bigblocks h) h else Some (None, None));
            (case found of
               Some bb \<Rightarrow>
                 do {
                   let nx = bb_next (bigbs h bb);
                   let h1 = (case lst of
                               None \<Rightarrow> h\<lparr>bigblocks := nx\<rparr>
                             | Some l \<Rightarrow> h\<lparr>bigbs := (bigbs h)(l := (bigbs h l)\<lparr>bb_next := nx\<rparr>)\<rparr>);
                   slob_free (Some bb) SIZEOF_BIGBLOCK (slob_free_pages a (bb_order (bigbs h bb)) h1)
                 }
             | None \<Rightarrow> slob_free (Some (a - 1)) 0 h)
          })"

definition ksize :: "nat option \<Rightarrow> kheap \<Rightarrow> int option" where
  "ksize block h =
     (case block of
        None \<Rightarrow> Some 0
      | Some a \<Rightarrow>
          do {
            (found, _) \<leftarrow> (if a mod 256 = 0 then find_big a None (bigblocks h) h else Some (None, None));
            Some (case found of
                    Some bb \<Rightarrow> int (PAGE_SIZE * 2 ^ bb_order (bigbs h bb))
                  | None \<Rightarrow> units h (a - 1) * int SLOB_UNIT)
          })"

section \<open>Size classes\<close>

lemma find_order_k_bounds:
  "sz div 2 ^ find_order_k sz \<le> 4096 \<and> (\<forall>k<find_order_k sz. 4096 < sz div 2 ^ k)"
proof (induction sz rule: find_order_k.induct)
  case (1 sz)
  show ?case
  proof (cases "sz > 4096")
    case False
    then have "find_order_k sz = 0" by (subst find_order_k.simps) simp
    then show ?thesis using False by simp
  next
    case True
    then have o': "find_order_k sz = find_order_k (sz div 2) + 1" by (subst find_order_k.simps) simp
    have "4096 < sz div 2 ^ k" if "k < find_order_k (sz div 2) + 1" for k
      using that "1.IH" [OF True] True by (cases k) (auto simp: div_mult2_eq)
    then show ?thesis using "1.IH" [OF True] by (simp add: o' div_mult2_eq)
  qed
qed

lemma find_order_k_eq:
  assumes "sz div 2 ^ k \<le> 4096" "\<forall>j<k. 4096 < sz div 2 ^ j"
  shows "find_order_k sz = k"
  using assms find_order_k_bounds [of sz] by (metis linorder_neqE_nat not_le)

lemma find_order_k_short: "find_order_k (4096 * 2 ^ k + 1) = k" if "k > 0"
proof (rule find_order_k_eq)
  show "(4096 * 2 ^ k + 1) div 2 ^ k \<le> (4096 :: nat)"
    unfolding div_mult_self3 [of "2 ^ k" 4096 1, OF power_not_zero, OF zero_neq_numeral [symmetric]]
    using that one_less_power [of "2 :: nat" k] by (simp add: div_less)
  show "\<forall>j<k. (4096 :: nat) < (4096 * 2 ^ k + 1) div 2 ^ j"
  proof (intro allI impI)
    fix j assume "j < k"
    then obtain d where d: "k = j + Suc d" by (metis add_Suc_right less_imp_Suc_add)
    have "4096 < 4096 * (2 :: nat) ^ Suc d" using one_less_power [of "2 :: nat" "Suc d"] by linarith
    also have "\<dots> = 4096 * 2 ^ k div 2 ^ j" by (simp add: d power_add)
    also have "\<dots> \<le> (4096 * 2 ^ k + 1) div 2 ^ j" by (rule div_le_mono) simp
    finally show "(4096 :: nat) < (4096 * 2 ^ k + 1) div 2 ^ j" .
  qed
qed

text \<open>
  The size classes of \<^verbatim>\<open>kmalloc\<close>.  Requests of 4064 to 4079 bytes pass the test for small objects but
  fail the assertion in \<^verbatim>\<open>slob_alloc\<close> and stop the kernel.  \<^verbatim>\<open>find_order\<close> ends with the least order whose
  shifted size is at most a page; as the shift rounds down, a request of one byte more than a power
  of two pages gets a block that is too small by that byte.
\<close>

theorem kmalloc_size_classes:
  "(4064 \<le> sz \<and> sz < 4080 \<longrightarrow> kmalloc sz h = None) \<and>
   sz div 2 ^ find_order_k sz \<le> PAGE_SIZE \<and> (\<forall>k<find_order_k sz. PAGE_SIZE < sz div 2 ^ k) \<and>
   (0 < k \<longrightarrow> PAGE_SIZE * 2 ^ find_order_k (PAGE_SIZE * 2 ^ k + 1) < PAGE_SIZE * 2 ^ k + 1)"
proof (intro conjI impI)
  assume "4064 \<le> sz \<and> sz < 4080"
  then show "kmalloc sz h = None" by (simp add: kmalloc_def slob_alloc_def PAGE_SIZE_def SLOB_UNIT_def)
next
  show "sz div 2 ^ find_order_k sz \<le> PAGE_SIZE" "\<forall>k<find_order_k sz. PAGE_SIZE < sz div 2 ^ k"
    using find_order_k_bounds [of sz] by (simp_all add: PAGE_SIZE_def)
next
  assume "0 < k"
  then show "PAGE_SIZE * 2 ^ find_order_k (PAGE_SIZE * 2 ^ k + 1) < PAGE_SIZE * 2 ^ k + 1"
    using find_order_k_short [of k] by (simp add: PAGE_SIZE_def)
qed

theorem kmalloc_size_classes_witness:
  "\<exists>h :: kheap. kmalloc 4070 h = None \<and> PAGE_SIZE * 2 ^ find_order_k (PAGE_SIZE * 2 ^ 1 + 1) < PAGE_SIZE * 2 ^ 1 + 1"
  using kmalloc_size_classes [where sz = 4070 and k = 1] by (intro exI) (simp del: One_nat_def power_one_right)

end
