(* ===== verification/Vmm.thy ===== *)
theory Vmm
  imports Paging
begin

text \<open>
  Address spaces: \<^verbatim>\<open>kern/mm/vmm.c\<close> and \<^verbatim>\<open>vmm.h\<close>.  A \<^verbatim>\<open>struct vma_struct *\<close> and a \<^verbatim>\<open>struct mm_struct *\<close> are
  names of objects; the objects \<^verbatim>\<open>kmalloc\<close> would hand out next are in \<open>vma_pool\<close> and \<open>mm_pool\<close>.  The
  \<^verbatim>\<open>mmap_list\<close> is the list of names in its order (its pointers are those of \<open>KList\<close>).  User memory is
  reached through the page directory that is loaded; an unmapped address is a page fault, which the
  kernel does not survive.
\<close>

record vma_struct =
  vm_mm :: "nat option"
  vm_start :: "64 word"
  vm_end :: "64 word"
  vm_flags :: "32 word"

record mm_struct =
  mmap_list :: "nat list"
  mmap_cache :: "nat option"
  mm_pgdir :: nat
  map_count :: int
  mm_count :: int
  mm_sem :: int
  locked_by :: int

record vm =
  vmas :: "nat \<Rightarrow> vma_struct"
  mms :: "nat \<Rightarrow> mm_struct"
  vma_pool :: "nat list"
  mm_pool :: "nat list"
  pm :: pmem

definition VM_READ :: "32 word" where "VM_READ = 1"
definition VM_WRITE :: "32 word" where "VM_WRITE = 2"
definition VM_EXEC :: "32 word" where "VM_EXEC = 4"
definition VM_STACK :: "32 word" where "VM_STACK = 8"

definition upd_mm :: "nat \<Rightarrow> (mm_struct \<Rightarrow> mm_struct) \<Rightarrow> vm \<Rightarrow> vm" where
  "upd_mm k f v = v\<lparr>mms := (mms v)(k := f (mms v k))\<rparr>"

definition upd_vma :: "nat \<Rightarrow> (vma_struct \<Rightarrow> vma_struct) \<Rightarrow> vm \<Rightarrow> vm" where
  "upd_vma k f v = v\<lparr>vmas := (vmas v)(k := f (vmas v k))\<rparr>"

definition set_mm_count :: "nat \<Rightarrow> int \<Rightarrow> vm \<Rightarrow> vm" where "set_mm_count k c = upd_mm k (\<lambda>m. m\<lparr>mm_count := c\<rparr>)"
definition mm_count_inc :: "nat \<Rightarrow> vm \<Rightarrow> vm" where "mm_count_inc k = upd_mm k (\<lambda>m. m\<lparr>mm_count := mm_count m + 1\<rparr>)"
definition mm_count_dec :: "nat \<Rightarrow> vm \<Rightarrow> vm" where "mm_count_dec k = upd_mm k (\<lambda>m. m\<lparr>mm_count := mm_count m - 1\<rparr>)"

text \<open>
  \<^verbatim>\<open>lock_mm\<close> and \<^verbatim>\<open>unlock_mm\<close>: no code between the two gives up the processor, so the semaphore is
  free whenever \<^verbatim>\<open>lock_mm\<close> is called; \<open>None\<close> if it were not.
\<close>

definition lock_mm :: "nat option \<Rightarrow> int option \<Rightarrow> vm \<Rightarrow> vm option" where
  "lock_mm mo curr_pid v =
     (case mo of
        None \<Rightarrow> Some v
      | Some k \<Rightarrow> do { assertc (0 < mm_sem (mms v k));
                       Some (upd_mm k (\<lambda>m. m\<lparr>mm_sem := mm_sem m - 1,
                                              locked_by := (case curr_pid of Some i \<Rightarrow> i | None \<Rightarrow> locked_by m)\<rparr>) v) })"

definition unlock_mm :: "nat option \<Rightarrow> vm \<Rightarrow> vm" where
  "unlock_mm mo v =
     (case mo of None \<Rightarrow> v | Some k \<Rightarrow> upd_mm k (\<lambda>m. m\<lparr>mm_sem := mm_sem m + 1, locked_by := 0\<rparr>) v)"

definition mm_create :: "vm \<Rightarrow> nat option \<times> vm" where
  "mm_create v =
     (case mm_pool v of
        [] \<Rightarrow> (None, v)
      | k # ks \<Rightarrow> (Some k, (upd_mm k (\<lambda>m. \<lparr>mmap_list = [], mmap_cache = None, mm_pgdir = 0, map_count = 0, mm_count = 0,
                                          mm_sem = 1, locked_by = locked_by m\<rparr>) v)\<lparr>mm_pool := ks\<rparr>))"

definition vma_create :: "64 word \<Rightarrow> 64 word \<Rightarrow> 32 word \<Rightarrow> vm \<Rightarrow> nat option \<times> vm" where
  "vma_create s e fl v =
     (case vma_pool v of
        [] \<Rightarrow> (None, v)
      | k # ks \<Rightarrow> (Some k, (upd_vma k (\<lambda>a. a\<lparr>vm_start := s, vm_end := e, vm_flags := fl\<rparr>) v)\<lparr>vma_pool := ks\<rparr>))"

definition in_vma :: "vm \<Rightarrow> 64 word \<Rightarrow> nat \<Rightarrow> bool" where
  "in_vma v addr k \<longleftrightarrow> vm_start (vmas v k) \<le> addr \<and> addr < vm_end (vmas v k)"

definition find_vma :: "nat option \<Rightarrow> 64 word \<Rightarrow> vm \<Rightarrow> nat option \<times> vm" where
  "find_vma mo addr v =
     (case mo of
        None \<Rightarrow> (None, v)
      | Some k \<Rightarrow>
          (let hit = (case mmap_cache (mms v k) of Some a \<Rightarrow> in_vma v addr a | None \<Rightarrow> False);
               vma = (if hit then mmap_cache (mms v k) else find (in_vma v addr) (mmap_list (mms v k)))
           in (vma, if vma \<noteq> None then upd_mm k (\<lambda>m. m\<lparr>mmap_cache := vma\<rparr>) v else v)))"

definition check_vma_overlap :: "nat \<Rightarrow> nat \<Rightarrow> vm \<Rightarrow> unit option" where
  "check_vma_overlap prv nx v =
     do {
       assertc (vm_start (vmas v prv) < vm_end (vmas v prv));
       assertc (vm_end (vmas v prv) \<le> vm_start (vmas v nx));
       assertc (vm_start (vmas v nx) < vm_end (vmas v nx))
     }"

text \<open>The walk stops in front of the first area that starts above the new one.\<close>

definition insert_vma_struct :: "nat \<Rightarrow> nat \<Rightarrow> vm \<Rightarrow> vm option" where
  "insert_vma_struct k a v =
     do {
       assertc (vm_start (vmas v a) < vm_end (vmas v a));
       let below = takeWhile (\<lambda>b. vm_start (vmas v b) \<le> vm_start (vmas v a)) (mmap_list (mms v k));
       let above = dropWhile (\<lambda>b. vm_start (vmas v b) \<le> vm_start (vmas v a)) (mmap_list (mms v k));
       (if below \<noteq> [] then check_vma_overlap (last below) a v else Some ());
       (if above \<noteq> [] then check_vma_overlap a (hd above) v else Some ());
       let v1 = upd_vma a (\<lambda>x. x\<lparr>vm_mm := Some k\<rparr>) v;
       Some (upd_mm k (\<lambda>m. m\<lparr>mmap_list := below @ a # above, map_count := map_count m + 1\<rparr>) v1)
     }"

definition mm_destroy :: "nat \<Rightarrow> vm \<Rightarrow> vm option" where
  "mm_destroy k v =
     do {
       assertc (mm_count (mms v k) = 0);
       Some ((upd_mm k (\<lambda>m. m\<lparr>mmap_list := []\<rparr>) v)\<lparr>vma_pool := rev (mmap_list (mms v k)) @ vma_pool v, mm_pool := k # mm_pool v\<rparr>)
     }"

definition mm_map :: "nat \<Rightarrow> 64 word \<Rightarrow> 64 word \<Rightarrow> 32 word \<Rightarrow> vm \<Rightarrow> (int \<times> vm) option" where
  "mm_map k addr len fl v =
     (let s = ROUNDDOWN addr PGSIZE; e = ROUNDUP (addr + len) PGSIZE
      in if \<not> USER_ACCESS s e then Some (- E_INVAL, v)
         else case find_vma (Some k) s v of
                (Some a, v1) \<Rightarrow>
                  if vm_start (vmas v1 a) < e then Some (- E_INVAL, v1)
                  else (case vma_create s e fl v1 of
                          (None, v2) \<Rightarrow> Some (- E_NO_MEM, v2)
                        | (Some b, v2) \<Rightarrow> do { v3 \<leftarrow> insert_vma_struct k b v2; Some (0, v3) })
              | (None, v1) \<Rightarrow>
                  (case vma_create s e fl v1 of
                     (None, v2) \<Rightarrow> Some (- E_NO_MEM, v2)
                   | (Some b, v2) \<Rightarrow> do { v3 \<leftarrow> insert_vma_struct k b v2; Some (0, v3) }))"

text \<open>\<^verbatim>\<open>dup_mmap\<close> walks the list backwards.\<close>

fun dup_vmas :: "nat list \<Rightarrow> nat \<Rightarrow> nat \<Rightarrow> vm \<Rightarrow> (int \<times> vm) option" where
  "dup_vmas [] to from v = Some (0, v)"
| "dup_vmas (a # as) to from v =
     (case vma_create (vm_start (vmas v a)) (vm_end (vmas v a)) (vm_flags (vmas v a)) v of
        (None, v1) \<Rightarrow> Some (- E_NO_MEM, v1)
      | (Some b, v1) \<Rightarrow>
          do {
            v2 \<leftarrow> insert_vma_struct to b v1;
            (r, m) \<leftarrow> copy_range (mm_pgdir (mms v2 to)) (mm_pgdir (mms v2 from)) (vm_start (vmas v2 a)) (vm_end (vmas v2 a)) (pm v2);
            if r \<noteq> 0 then Some (- E_NO_MEM, v2\<lparr>pm := m\<rparr>) else dup_vmas as to from (v2\<lparr>pm := m\<rparr>)
          })"

definition dup_mmap :: "nat \<Rightarrow> nat \<Rightarrow> vm \<Rightarrow> (int \<times> vm) option" where
  "dup_mmap to from v = dup_vmas (rev (mmap_list (mms v from))) to from v"

fun unmap_vmas :: "nat list \<Rightarrow> nat \<Rightarrow> vm \<Rightarrow> vm option" where
  "unmap_vmas [] pd v = Some v"
| "unmap_vmas (a # as) pd v =
     do { m \<leftarrow> unmap_range pd (vm_start (vmas v a)) (vm_end (vmas v a)) (pm v); unmap_vmas as pd (v\<lparr>pm := m\<rparr>) }"

fun exit_vmas :: "nat list \<Rightarrow> nat \<Rightarrow> vm \<Rightarrow> vm option" where
  "exit_vmas [] pd v = Some v"
| "exit_vmas (a # as) pd v =
     do { m \<leftarrow> exit_range pd (vm_start (vmas v a)) (vm_end (vmas v a)) (pm v); exit_vmas as pd (v\<lparr>pm := m\<rparr>) }"

definition exit_mmap :: "nat \<Rightarrow> vm \<Rightarrow> vm option" where
  "exit_mmap k v =
     do {
       assertc (mm_count (mms v k) = 0);
       v1 \<leftarrow> unmap_vmas (mmap_list (mms v k)) (mm_pgdir (mms v k)) v;
       exit_vmas (mmap_list (mms v k)) (mm_pgdir (mms v k)) v1
     }"

section \<open>Access to user memory\<close>

partial_function (option) user_check_loop :: "nat \<Rightarrow> 64 word \<Rightarrow> 64 word \<Rightarrow> bool \<Rightarrow> vm \<Rightarrow> (bool \<times> vm) option" where
  "user_check_loop k s e wr v =
     (if s < e
      then case find_vma (Some k) s v of
             (None, v1) \<Rightarrow> Some (False, v1)
           | (Some a, v1) \<Rightarrow>
               if s < vm_start (vmas v1 a) then Some (False, v1)
               else if vm_flags (vmas v1 a) AND (if wr then VM_WRITE else VM_READ) = 0 then Some (False, v1)
               else if wr \<and> vm_flags (vmas v1 a) AND VM_STACK \<noteq> 0 \<and> s < vm_start (vmas v1 a) + PGSIZE then Some (False, v1)
               else user_check_loop k (vm_end (vmas v1 a)) e wr v1
      else Some (True, v))"

definition user_mem_check :: "nat option \<Rightarrow> 64 word \<Rightarrow> 64 word \<Rightarrow> bool \<Rightarrow> vm \<Rightarrow> (bool \<times> vm) option" where
  "user_mem_check mo addr len wr v =
     (case mo of
        None \<Rightarrow> Some (KERN_ACCESS addr (addr + len), v)
      | Some k \<Rightarrow> if \<not> USER_ACCESS addr (addr + len) then Some (False, v) else user_check_loop k addr (addr + len) wr v)"

definition get_byte :: "pmem \<Rightarrow> nat \<Rightarrow> nat \<Rightarrow> 8 word" where
  "get_byte m f off = ucast (drop_bit (8 * (off mod 8)) (fr m f (off div 8)))"

definition put_byte :: "nat \<Rightarrow> nat \<Rightarrow> 8 word \<Rightarrow> pmem \<Rightarrow> pmem" where
  "put_byte f off b m =
     set_pte (f, off div 8)
       ((fr m f (off div 8) AND NOT (push_bit (8 * (off mod 8)) 0xFF)) OR push_bit (8 * (off mod 8)) (ucast b)) m"

definition uread :: "nat \<Rightarrow> 64 word \<Rightarrow> pmem \<Rightarrow> 8 word option" where
  "uread pd a m =
     (if valid (pte_of m pd a) then Some (get_byte m (pte_ppn (pte_of m pd a)) (unat (PGOFF a))) else None)"

definition uwrite :: "nat \<Rightarrow> 64 word \<Rightarrow> 8 word \<Rightarrow> pmem \<Rightarrow> pmem option" where
  "uwrite pd a b m =
     (if valid (pte_of m pd a) then Some (put_byte (pte_ppn (pte_of m pd a)) (unat (PGOFF a)) b m) else None)"

fun uread_n :: "nat \<Rightarrow> 64 word \<Rightarrow> nat \<Rightarrow> pmem \<Rightarrow> 8 word list option" where
  "uread_n pd a 0 m = Some []"
| "uread_n pd a (Suc n) m = do { b \<leftarrow> uread pd a m; bs \<leftarrow> uread_n pd (a + 1) n m; Some (b # bs) }"

fun uwrite_n :: "nat \<Rightarrow> 64 word \<Rightarrow> 8 word list \<Rightarrow> pmem \<Rightarrow> pmem option" where
  "uwrite_n pd a [] m = Some m"
| "uwrite_n pd a (b # bs) m = do { m1 \<leftarrow> uwrite pd a b m; uwrite_n pd (a + 1) bs m1 }"

text \<open>The buffer in the kernel is a list of bytes; \<open>None\<close> inside is the result 0.\<close>

definition copy_from_user ::
  "nat option \<Rightarrow> nat \<Rightarrow> 64 word \<Rightarrow> 64 word \<Rightarrow> bool \<Rightarrow> vm \<Rightarrow> (8 word list option \<times> vm) option" where
  "copy_from_user mo pd src len wr v =
     do {
       (ok, v1) \<leftarrow> user_mem_check mo src len wr v;
       if \<not> ok then Some (None, v1)
       else do { bs \<leftarrow> uread_n pd src (unat len) (pm v1); Some (Some bs, v1) }
     }"

definition copy_to_user ::
  "nat option \<Rightarrow> nat \<Rightarrow> 64 word \<Rightarrow> 8 word list \<Rightarrow> vm \<Rightarrow> (bool \<times> vm) option" where
  "copy_to_user mo pd dst bs v =
     do {
       (ok, v1) \<leftarrow> user_mem_check mo dst (of_nat (length bs)) True v;
       if \<not> ok then Some (False, v1)
       else do { m \<leftarrow> uwrite_n pd dst bs (pm v1); Some (True, v1\<lparr>pm := m\<rparr>) }
     }"

text \<open>\<^verbatim>\<open>strnlen\<close> on user memory: the bytes before the first zero, at most \<open>n\<close> of them.\<close>

fun ustr_n :: "nat \<Rightarrow> 64 word \<Rightarrow> nat \<Rightarrow> pmem \<Rightarrow> 8 word list option" where
  "ustr_n pd a 0 m = Some []"
| "ustr_n pd a (Suc n) m =
     do { b \<leftarrow> uread pd a m; if b = 0 then Some [] else do { bs \<leftarrow> ustr_n pd (a + 1) n m; Some (b # bs) } }"

partial_function (option) copy_string_loop ::
  "nat option \<Rightarrow> nat \<Rightarrow> 64 word \<Rightarrow> 64 word \<Rightarrow> 64 word \<Rightarrow> 8 word list \<Rightarrow> vm \<Rightarrow> (8 word list option \<times> vm) option" where
  "copy_string_loop mo pd src part maxn acc v =
     do {
       let part1 = (if maxn < part then maxn else part);
       (ok, v1) \<leftarrow> user_mem_check mo src part1 False v;
       if \<not> ok then Some (None, v1)
       else do {
         bs \<leftarrow> ustr_n pd src (unat part1) (pm v1);
         if length bs < unat part1 then Some (Some (acc @ bs @ [0]), v1)
         else if part1 = maxn then Some (None, v1)
         else copy_string_loop mo pd (src + part1) PGSIZE (maxn - part1) (acc @ bs) v1
       }
     }"

definition copy_string :: "nat option \<Rightarrow> nat \<Rightarrow> 64 word \<Rightarrow> 64 word \<Rightarrow> vm \<Rightarrow> (8 word list option \<times> vm) option" where
  "copy_string mo pd src maxn v = copy_string_loop mo pd src (ROUNDDOWN (src + PGSIZE) PGSIZE - src) maxn [] v"

section \<open>Well-formed address spaces\<close>

definition mm_ok :: "vm \<Rightarrow> nat \<Rightarrow> bool" where
  "mm_ok v k \<longleftrightarrow>
     sorted_wrt (\<lambda>a b. vm_end (vmas v a) \<le> vm_start (vmas v b)) (mmap_list (mms v k)) \<and>
     distinct (mmap_list (mms v k)) \<and>
     (\<forall>a\<in>set (mmap_list (mms v k)). vm_start (vmas v a) < vm_end (vmas v a)) \<and>
     (\<forall>a. mmap_cache (mms v k) = Some a \<longrightarrow> a \<in> set (mmap_list (mms v k)))"

lemma sorted_wrt_pair:
  "sorted_wrt P xs \<Longrightarrow> a \<in> set xs \<Longrightarrow> b \<in> set xs \<Longrightarrow> a = b \<or> P a b \<or> P b a"
  by (induction xs) auto

lemma in_vma_unique:
  assumes "mm_ok v k" "a \<in> set (mmap_list (mms v k))" "b \<in> set (mmap_list (mms v k))" "in_vma v x a" "in_vma v x b"
  shows "a = b"
  using assms sorted_wrt_pair [of "\<lambda>a b. vm_end (vmas v a) \<le> vm_start (vmas v b)" "mmap_list (mms v k)" a b]
  by (auto simp: mm_ok_def in_vma_def)

lemma find_unique:
  assumes "\<And>a b. a \<in> set xs \<Longrightarrow> b \<in> set xs \<Longrightarrow> P a \<Longrightarrow> P b \<Longrightarrow> a = b"
  shows "find P xs = Some a \<longleftrightarrow> a \<in> set xs \<and> P a"
proof
  show "find P xs = Some a \<Longrightarrow> a \<in> set xs \<and> P a" by (auto simp: find_Some_iff)
  assume a: "a \<in> set xs \<and> P a"
  then obtain b where b: "find P xs = Some b" by (cases "find P xs") (auto simp: find_None_iff)
  then have "b \<in> set xs" "P b" by (auto simp: find_Some_iff)
  then show "find P xs = Some a" using assms a b by blast
qed

lemma find_vma_facts:
  assumes ok: "mm_ok v k" and f: "find_vma (Some k) x v = (r, v')"
  shows "r = Some a \<longleftrightarrow> a \<in> set (mmap_list (mms v k)) \<and> in_vma v x a" "mm_ok v' k"
    "vmas v' = vmas v" "mmap_list (mms v' k) = mmap_list (mms v k)" "pm v' = pm v" "vma_pool v' = vma_pool v"
    "mm_pgdir (mms v' k) = mm_pgdir (mms v k)" "map_count (mms v' k) = map_count (mms v k)"
    "r = find (in_vma v x) (mmap_list (mms v k))"
proof -
  let ?hit = "case mmap_cache (mms v k) of Some a \<Rightarrow> in_vma v x a | None \<Rightarrow> False"
  have r: "r = (if ?hit then mmap_cache (mms v k) else find (in_vma v x) (mmap_list (mms v k)))"
    and v': "v' = (if r \<noteq> None then upd_mm k (\<lambda>m. m\<lparr>mmap_cache := r\<rparr>) v else v)"
    using f unfolding find_vma_def by (auto simp: Let_def)
  note u = find_unique [OF in_vma_unique [OF ok, where x = x]]
  have eq: "r = find (in_vma v x) (mmap_list (mms v k))"
  proof (cases ?hit)
    case True
    then obtain b where b: "mmap_cache (mms v k) = Some b" "in_vma v x b" by (auto split: option.splits)
    moreover have "b \<in> set (mmap_list (mms v k))" using ok b(1) by (simp add: mm_ok_def)
    ultimately have "find (in_vma v x) (mmap_list (mms v k)) = Some b" using u by blast
    then show ?thesis using r True b(1) by simp
  qed (use r in simp)
  then show "r = find (in_vma v x) (mmap_list (mms v k))" .
  show m: "r = Some a \<longleftrightarrow> a \<in> set (mmap_list (mms v k)) \<and> in_vma v x a" for a using eq u by simp
  show "mm_ok v' k" using ok m by (auto simp: mm_ok_def v' upd_mm_def)
  show "vmas v' = vmas v" "mmap_list (mms v' k) = mmap_list (mms v k)" "pm v' = pm v" "vma_pool v' = vma_pool v"
    "mm_pgdir (mms v' k) = mm_pgdir (mms v k)" "map_count (mms v' k) = map_count (mms v k)"
    by (simp_all add: v' upd_mm_def)
qed

text \<open>
  \<^verbatim>\<open>find_vma\<close> returns the one area of the address space that contains the address, or NULL when
  none does; the \<^verbatim>\<open>mmap_cache\<close> shortcut never changes the answer and stays a member of the list.
\<close>

theorem find_vma_correct:
  assumes "mm_ok v k" and "find_vma (Some k) x v = (r, v')"
  shows "mm_ok v' k \<and> (\<forall>a. r = Some a \<longleftrightarrow> a \<in> set (mmap_list (mms v k)) \<and> in_vma v x a) \<and>
    r = find (in_vma v x) (mmap_list (mms v k)) \<and> vmas v' = vmas v \<and> mmap_list (mms v' k) = mmap_list (mms v k)"
  using find_vma_facts [OF assms] by blast

definition may_access :: "vm \<Rightarrow> bool \<Rightarrow> nat \<Rightarrow> 64 word \<Rightarrow> bool" where
  "may_access v wr a x \<longleftrightarrow>
     in_vma v x a \<and> vm_flags (vmas v a) AND (if wr then VM_WRITE else VM_READ) \<noteq> 0 \<and>
     (wr \<and> vm_flags (vmas v a) AND VM_STACK \<noteq> 0 \<longrightarrow> vm_start (vmas v a) + PGSIZE \<le> x)"

lemma user_check_loop_correct:
  assumes "mm_ok v k" "\<forall>a\<in>set (mmap_list (mms v k)). vm_start (vmas v a) \<le> vm_start (vmas v a) + PGSIZE"
  shows "\<exists>r v'. user_check_loop k s e wr v = Some (r, v') \<and> mm_ok v' k \<and> vmas v' = vmas v \<and>
    mmap_list (mms v' k) = mmap_list (mms v k) \<and>
    (r \<longleftrightarrow> (\<forall>x. s \<le> x \<and> x < e \<longrightarrow> (\<exists>a\<in>set (mmap_list (mms v k)). may_access v wr a x)))"
  using assms
proof (induction "unat e - unat s" arbitrary: s v rule: less_induct)
  case less
  show ?case
  proof (cases "s < e")
    case False
    then have "user_check_loop k s e wr v = Some (True, v)" by (subst user_check_loop.simps) simp
    then show ?thesis using False less.prems(1) by (intro exI [of _ True] exI [of _ v]) auto
  next
    case True
    let ?L = "mmap_list (mms v k)"
    obtain r v1 where f0: "find_vma (Some k) s v = (r, v1)" by (cases "find_vma (Some k) s v")
    note ff = find_vma_facts [OF less.prems(1) f0]
    have f: "find_vma (Some k) s v = (r, v1)" "vmas v1 = vmas v" "mmap_list (mms v1 k) = ?L"
      "mm_ok v1 k" "\<And>a. r = Some a \<longleftrightarrow> a \<in> set ?L \<and> in_vma v s a" using f0 ff by simp_all
    show ?thesis
    proof (cases r)
      case None
      have "\<not> (\<exists>a\<in>set ?L. may_access v wr a s)" using f(5) None by (auto simp: may_access_def)
      moreover have "user_check_loop k s e wr v = Some (False, v1)"
        using True f(1) None by (subst user_check_loop.simps) simp
      ultimately show ?thesis using f(2-4) True by (intro exI [of _ False] exI [of _ v1]) auto
    next
      case (Some a)
      have a: "a \<in> set ?L" "in_vma v s a" using f(5) Some by auto
      have uniq: "b = a" if "b \<in> set ?L" "may_access v wr b s" for b
        using in_vma_unique [OF less.prems(1) that(1) a(1) _ a(2)] that(2) by (simp add: may_access_def)
      have ge: "vm_start (vmas v a) \<le> s" "s < vm_end (vmas v a)" using a(2) by (simp_all add: in_vma_def)
      show ?thesis
      proof (cases "may_access v wr a s")
        case False
        then have "\<not> (\<exists>b\<in>set ?L. may_access v wr b s)" using uniq by blast
        moreover have "user_check_loop k s e wr v = Some (False, v1)"
          using True f(1,2) Some False ge a(2) by (subst user_check_loop.simps) (auto simp: may_access_def not_le)
        ultimately show ?thesis using f(2-4) True by (intro exI [of _ False] exI [of _ v1]) auto
      next
        case acc: True
        let ?s = "vm_end (vmas v a)"
        have step: "user_check_loop k s e wr v = user_check_loop k ?s e wr v1"
          using True f(1,2) Some acc ge by (subst user_check_loop.simps) (auto simp: may_access_def not_less)
        have "unat s < unat ?s" "unat s < unat e" using ge(2) True by (simp_all add: word_less_nat_alt)
        then have m: "unat e - unat ?s < unat e - unat s" by simp
        have p: "\<forall>a\<in>set (mmap_list (mms v1 k)). vm_start (vmas v1 a) \<le> vm_start (vmas v1 a) + PGSIZE"
          using less.prems(2) f(2,3) by simp
        obtain r' v' where r': "user_check_loop k ?s e wr v1 = Some (r', v')" "mm_ok v' k" "vmas v' = vmas v"
          "mmap_list (mms v' k) = ?L"
          "r' \<longleftrightarrow> (\<forall>x. ?s \<le> x \<and> x < e \<longrightarrow> (\<exists>a\<in>set ?L. may_access v1 wr a x))"
          using less.hyps [OF m f(4) p] f(2,3) by auto
        have same: "may_access v1 wr b x = may_access v wr b x" for b x by (simp add: may_access_def in_vma_def f(2))
        have here: "may_access v wr a x" if "s \<le> x" "x < ?s" for x
          using acc that ge by (auto simp: may_access_def in_vma_def)
        have "(\<forall>x. ?s \<le> x \<and> x < e \<longrightarrow> (\<exists>a\<in>set ?L. may_access v wr a x)) \<longleftrightarrow>
            (\<forall>x. s \<le> x \<and> x < e \<longrightarrow> (\<exists>a\<in>set ?L. may_access v wr a x))"
        proof (intro iffI allI impI)
          fix x assume h: "\<forall>x. ?s \<le> x \<and> x < e \<longrightarrow> (\<exists>a\<in>set ?L. may_access v wr a x)" "s \<le> x \<and> x < e"
          then show "\<exists>a\<in>set ?L. may_access v wr a x" using here [of x] a(1) by (cases "x < ?s") (auto simp: not_less)
        next
          fix x assume h: "\<forall>x. s \<le> x \<and> x < e \<longrightarrow> (\<exists>a\<in>set ?L. may_access v wr a x)" "?s \<le> x \<and> x < e"
          then show "\<exists>a\<in>set ?L. may_access v wr a x" using ge(2) by auto
        qed
        then show ?thesis using step r' same by (intro exI [of _ r'] exI [of _ v']) simp
      qed
    qed
  qed
qed

text \<open>
  C25: \<^verbatim>\<open>user_mem_check\<close> ends and answers exactly: it accepts a user range if and only if the range
  lies in user space, every address of it lies in an area with the permission asked for, and a
  write does not touch the lowest page of a stack area.
\<close>

theorem user_mem_check_correct:
  assumes "mm_ok v k" and "\<forall>a\<in>set (mmap_list (mms v k)). vm_start (vmas v a) \<le> vm_start (vmas v a) + PGSIZE"
  shows "\<exists>r v'. user_mem_check (Some k) addr len wr v = Some (r, v') \<and> mm_ok v' k \<and> vmas v' = vmas v \<and>
    mmap_list (mms v' k) = mmap_list (mms v k) \<and>
    (r \<longleftrightarrow> USER_ACCESS addr (addr + len) \<and>
      (\<forall>x. addr \<le> x \<and> x < addr + len \<longrightarrow> (\<exists>a\<in>set (mmap_list (mms v k)). may_access v wr a x)))"
proof (cases "USER_ACCESS addr (addr + len)")
  case False
  then show ?thesis using assms(1) by (intro exI [of _ False] exI [of _ v]) (simp add: user_mem_check_def)
next
  case True
  then show ?thesis using user_check_loop_correct [OF assms, of addr "addr + len" wr] by (simp add: user_mem_check_def)
qed

lemma insert_vma_asserts:
  assumes srt: "sorted_wrt (\<lambda>a b. vm_end (vmas v a) \<le> vm_start (vmas v b)) (A @ B)"
    and pos: "\<And>x. x \<in> set A \<union> set B \<Longrightarrow> vm_start (vmas v x) < vm_end (vmas v x)"
    and b: "vm_start (vmas v b) < vm_end (vmas v b)"
  shows "(A \<noteq> [] \<longrightarrow> check_vma_overlap (last A) b v = Some ()) \<and> (B \<noteq> [] \<longrightarrow> check_vma_overlap b (hd B) v = Some ()) \<longleftrightarrow>
    (\<forall>x\<in>set A. vm_end (vmas v x) \<le> vm_start (vmas v b)) \<and> (\<forall>x\<in>set B. vm_end (vmas v b) \<le> vm_start (vmas v x))"
proof -
  let ?R = "\<lambda>a b. vm_end (vmas v a) \<le> vm_start (vmas v b)"
  have below: "vm_end (vmas v x) \<le> vm_end (vmas v (last A))" if x: "x \<in> set A" for x
  proof (cases A rule: rev_cases)
    case (snoc As a)
    then have "x = a \<or> ?R x a" using srt x by (auto simp: sorted_wrt_append)
    then show ?thesis using snoc pos [of a] by (auto intro: order_trans less_imp_le)
  qed (use x in simp)
  have above: "vm_start (vmas v (hd B)) \<le> vm_start (vmas v x)" if x: "x \<in> set B" for x
  proof (cases B)
    case (Cons y ys)
    then have "x = y \<or> ?R y x" using srt x by (auto simp: sorted_wrt_append)
    then show ?thesis using pos [of y] Cons by (auto intro: order_trans less_imp_le)
  qed (use x in simp)
  have 1: "(A \<noteq> [] \<longrightarrow> check_vma_overlap (last A) b v = Some ()) \<longleftrightarrow> (\<forall>x\<in>set A. ?R x b)"
  proof (cases "A = []")
    case False
    then show ?thesis using below pos b last_in_set [OF False]
      by (auto simp: check_vma_overlap_def intro: order_trans)
  qed simp
  have 2: "(B \<noteq> [] \<longrightarrow> check_vma_overlap b (hd B) v = Some ()) \<longleftrightarrow> (\<forall>x\<in>set B. ?R b x)"
  proof (cases "B = []")
    case False
    then show ?thesis using above pos b hd_in_set [OF False]
      by (auto simp: check_vma_overlap_def intro: order_trans)
  qed simp
  show ?thesis using 1 2 by blast
qed

definition disjoint_vma :: "vm \<Rightarrow> nat \<Rightarrow> nat \<Rightarrow> bool" where
  "disjoint_vma v a b \<longleftrightarrow> vm_end (vmas v a) \<le> vm_start (vmas v b) \<or> vm_end (vmas v b) \<le> vm_start (vmas v a)"

lemma insert_vma_facts:
  assumes ok: "mm_ok v k" and b: "vm_start (vmas v b) < vm_end (vmas v b)" and new: "b \<notin> set (mmap_list (mms v k))"
  shows "insert_vma_struct k b v = None \<longleftrightarrow> (\<exists>a\<in>set (mmap_list (mms v k)). \<not> disjoint_vma v a b)"
    "insert_vma_struct k b v = Some v' \<Longrightarrow>
       mm_ok v' k \<and> set (mmap_list (mms v' k)) = insert b (set (mmap_list (mms v k))) \<and>
       vmas v' = (vmas v)(b := (vmas v b)\<lparr>vm_mm := Some k\<rparr>) \<and> map_count (mms v' k) = map_count (mms v k) + 1 \<and>
       pm v' = pm v"
proof -
  define P where "P = (\<lambda>x. vm_start (vmas v x) \<le> vm_start (vmas v b))"
  define L where "L = mmap_list (mms v k)"
  obtain A B where AB: "takeWhile P L = A" "dropWhile P L = B" by blast
  have L: "L = A @ B" unfolding AB [symmetric] by simp
  have un: "set L = set A \<union> set B" by (simp add: L)
  have t: "P x" if "x \<in> set A" for x using that by (auto simp: AB [symmetric] dest: set_takeWhileD)
  have srt: "sorted_wrt (\<lambda>a b. vm_end (vmas v a) \<le> vm_start (vmas v b)) (A @ B)" and ds: "distinct (A @ B)"
    using ok by (simp_all add: mm_ok_def L_def [symmetric] L)
  have pos: "\<And>x. x \<in> set A \<union> set B \<Longrightarrow> vm_start (vmas v x) < vm_end (vmas v x)" using ok un by (simp add: mm_ok_def L_def)
  have d: "\<not> vm_start (vmas v x) \<le> vm_start (vmas v b)" if x: "x \<in> set B" for x
  proof (cases B)
    case (Cons y ys)
    then have "\<not> P y" using AB(2) by (simp add: dropWhile_eq_Cons_conv)
    moreover have "x = y \<or> vm_end (vmas v y) \<le> vm_start (vmas v x)" using srt x Cons by (auto simp: sorted_wrt_append)
    ultimately show ?thesis using pos [of y] Cons by (auto simp: P_def)
  qed (use x in simp)
  let ?ok = "(\<forall>x\<in>set A. vm_end (vmas v x) \<le> vm_start (vmas v b)) \<and> (\<forall>x\<in>set B. vm_end (vmas v b) \<le> vm_start (vmas v x))"
  let ?v = "upd_mm k (\<lambda>m. m\<lparr>mmap_list := A @ b # B, map_count := map_count m + 1\<rparr>) (upd_vma b (\<lambda>x. x\<lparr>vm_mm := Some k\<rparr>) v)"
  have as: "(A \<noteq> [] \<longrightarrow> check_vma_overlap (last A) b v = Some ()) \<and>
      (B \<noteq> [] \<longrightarrow> check_vma_overlap b (hd B) v = Some ()) \<longleftrightarrow> ?ok"
    by (rule insert_vma_asserts [OF srt _ b]) (rule pos)
  have "insert_vma_struct k b v = (if (A \<noteq> [] \<longrightarrow> check_vma_overlap (last A) b v = Some ()) \<and>
      (B \<noteq> [] \<longrightarrow> check_vma_overlap b (hd B) v = Some ()) then Some ?v else None)"
    unfolding insert_vma_struct_def P_def [symmetric] L_def [symmetric] AB
    using b by (cases "check_vma_overlap (last A) b v"; cases "check_vma_overlap b (hd B) v") (simp_all add: Let_def)
  then have ins: "insert_vma_struct k b v = (if ?ok then Some ?v else None)" by (simp only: as)
  have eq: "?ok \<longleftrightarrow> (\<forall>a\<in>set L. disjoint_vma v a b)"
  proof
    assume h: "\<forall>a\<in>set L. disjoint_vma v a b"
    have "vm_end (vmas v x) \<le> vm_start (vmas v b)" if "x \<in> set A" for x
      using h [unfolded un, rule_format, of x] t [OF that] b that by (auto simp: disjoint_vma_def P_def)
    moreover have "vm_end (vmas v b) \<le> vm_start (vmas v x)" if "x \<in> set B" for x
      using h [unfolded un, rule_format, of x] d [OF that] pos [of x] that by (auto simp: disjoint_vma_def)
    ultimately show ?ok by blast
  qed (auto simp: un disjoint_vma_def)
  show "insert_vma_struct k b v = None \<longleftrightarrow> (\<exists>a\<in>set (mmap_list (mms v k)). \<not> disjoint_vma v a b)"
    unfolding ins L_def [symmetric] using eq by auto
  assume "insert_vma_struct k b v = Some v'"
  then have o: ?ok and v': "v' = ?v" using ins by (simp_all split: if_splits)
  have vm: "vmas v' = (vmas v)(b := (vmas v b)\<lparr>vm_mm := Some k\<rparr>)"
    "mmap_list (mms v' k) = A @ b # B" "mmap_cache (mms v' k) = mmap_cache (mms v k)"
    "map_count (mms v' k) = map_count (mms v k) + 1" "pm v' = pm v"
    by (simp_all add: v' upd_mm_def upd_vma_def)
  have se: "vm_start (vmas v' x) = vm_start (vmas v x)" "vm_end (vmas v' x) = vm_end (vmas v x)" for x
    by (simp_all add: vm(1))
  have c: "mmap_cache (mms v k) = Some a \<Longrightarrow> a \<in> set A \<union> set B" for a using ok un by (simp add: mm_ok_def L_def)
  have "mm_ok v' k" using o new b pos c srt ds
    by (auto simp: mm_ok_def se vm(2,3) L_def [symmetric] L sorted_wrt_append)
  then show "mm_ok v' k \<and> set (mmap_list (mms v' k)) = insert b (set (mmap_list (mms v k))) \<and>
       vmas v' = (vmas v)(b := (vmas v b)\<lparr>vm_mm := Some k\<rparr>) \<and> map_count (mms v' k) = map_count (mms v k) + 1 \<and>
       pm v' = pm v"
    using vm un by (auto simp: L_def [symmetric])
qed

text \<open>
  C26: \<^verbatim>\<open>mm_map\<close> keeps the areas of an address space sorted and disjoint.  It returns 0 exactly when the
  page-rounded range lies in user space, is disjoint from every area and memory is left, and then adds
  exactly that area; on an error return no area changes, and the error is -E_INVAL exactly when the range is not
  in user space or an area contains its start, and -E_NO_MEM exactly when neither holds and memory is out.  The
  physical memory is left alone and \<^verbatim>\<open>map_count\<close> counts the new area.  It panics, in the overlap check of
  \<^verbatim>\<open>insert_vma_struct\<close>, exactly when no area contains the start of the range but one begins inside it.
\<close>

theorem mm_map_correct:
  fixes addr len :: "64 word"
  assumes ok: "mm_ok v k" and fresh: "\<forall>b\<in>set (vma_pool v). b \<notin> set (mmap_list (mms v k))"
  defines "s \<equiv> ROUNDDOWN addr PGSIZE" and "e \<equiv> ROUNDUP (addr + len) PGSIZE" and "L \<equiv> mmap_list (mms v k)"
  shows "(mm_map k addr len fl v = None \<longleftrightarrow>
      USER_ACCESS s e \<and> vma_pool v \<noteq> [] \<and> (\<forall>a\<in>set L. \<not> in_vma v s a) \<and>
      (\<exists>a\<in>set L. s < vm_start (vmas v a) \<and> vm_start (vmas v a) < e)) \<and>
    (\<forall>r v'. mm_map k addr len fl v = Some (r, v') \<longrightarrow>
      mm_ok v' k \<and>
      (r = 0 \<longleftrightarrow> USER_ACCESS s e \<and> vma_pool v \<noteq> [] \<and>
        (\<forall>a\<in>set L. vm_end (vmas v a) \<le> s \<or> e \<le> vm_start (vmas v a))) \<and>
      (r = 0 \<longrightarrow> (\<exists>b. b \<notin> set L \<and> set (mmap_list (mms v' k)) = insert b (set L) \<and> vm_start (vmas v' b) = s \<and>
        vm_end (vmas v' b) = e \<and> vm_flags (vmas v' b) = fl \<and> (\<forall>a. a \<noteq> b \<longrightarrow> vmas v' a = vmas v a))) \<and>
      (r \<noteq> 0 \<longrightarrow> r \<in> {- E_INVAL, - E_NO_MEM} \<and> mmap_list (mms v' k) = L \<and> vmas v' = vmas v) \<and>
      (r = - E_INVAL \<longleftrightarrow> \<not> USER_ACCESS s e \<or> (\<exists>a\<in>set L. in_vma v s a)) \<and>
      (r = - E_NO_MEM \<longleftrightarrow> USER_ACCESS s e \<and> (\<forall>a\<in>set L. \<not> in_vma v s a) \<and> vma_pool v = []) \<and>
      pm v' = pm v \<and> map_count (mms v' k) = map_count (mms v k) + (if r = 0 then 1 else 0))"
proof (cases "USER_ACCESS s e")
  case False
  then show ?thesis using ok by (simp add: mm_map_def s_def [symmetric] e_def [symmetric] Let_def L_def error_codes)
next
  case ua: True
  then have se: "s < e" by (simp add: USER_ACCESS_def)
  obtain r v1 where f: "find_vma (Some k) s v = (r, v1)" by (cases "find_vma (Some k) s v")
  note ff = find_vma_facts [OF ok f]
  have r: "r = Some a \<longleftrightarrow> a \<in> set L \<and> in_vma v s a" for a using ff(1) by (simp add: L_def)
  have L1: "mmap_list (mms v1 k) = L" "vmas v1 = vmas v" "vma_pool v1 = vma_pool v" "mm_ok v1 k"
    "pm v1 = pm v" "map_count (mms v1 k) = map_count (mms v k)"
    using ff(2-6,8) by (simp_all add: L_def)
  show ?thesis
  proof (cases r)
    case (Some a)
    have a: "a \<in> set L" "in_vma v s a" using r [of a] Some by simp_all
    then have "vm_start (vmas v a) < e" "\<not> vm_end (vmas v a) \<le> s" using se by (auto simp: in_vma_def)
    moreover from this have "mm_map k addr len fl v = Some (- E_INVAL, v1)"
      using ua f Some by (simp add: mm_map_def s_def [symmetric] e_def [symmetric] Let_def L1)
    ultimately show ?thesis using a L1 by (auto simp: error_codes)
  next
    case None
    then have no: "\<not> in_vma v s a" if "a \<in> set L" for a using r that by blast
    show ?thesis
    proof (cases "vma_pool v")
      case Nil
      then have "mm_map k addr len fl v = Some (- E_NO_MEM, v1)"
        using ua f None by (simp add: mm_map_def s_def [symmetric] e_def [symmetric] Let_def vma_create_def L1)
      then show ?thesis using Nil L1 ua no by (auto simp: error_codes)
    next
      case (Cons b bs)
      define v2 where "v2 = snd (vma_create s e fl v1)"
      have c: "vma_create s e fl v1 = (Some b, v2)" using Cons by (simp add: v2_def vma_create_def L1)
      have v2: "vmas v2 = (vmas v)(b := (vmas v b)\<lparr>vm_start := s, vm_end := e, vm_flags := fl\<rparr>)" "mms v2 = mms v1" "pm v2 = pm v"
        using Cons by (simp_all add: v2_def vma_create_def L1 upd_vma_def)
      have b: "b \<notin> set L" using fresh Cons by (simp add: L_def)
      have ok2: "mm_ok v2 k" using L1(4) b unfolding mm_ok_def v2 L1
        by (auto intro: sorted_wrt_mono_rel [rotated])
      have L2: "mmap_list (mms v2 k) = L" by (simp add: v2 L1)
      have m: "mm_map k addr len fl v = do { v3 \<leftarrow> insert_vma_struct k b v2; Some (0, v3) }"
        using ua f None c by (simp add: mm_map_def s_def [symmetric] e_def [symmetric] Let_def)
      have b2: "vm_start (vmas v2 b) < vm_end (vmas v2 b)" "b \<notin> set (mmap_list (mms v2 k))"
        using se b by (simp_all add: v2 L1)
      note ins = insert_vma_facts [OF ok2 b2, unfolded L2]
      have dj: "disjoint_vma v2 a b \<longleftrightarrow> vm_end (vmas v a) \<le> s \<or> e \<le> vm_start (vmas v a)" if "a \<in> set L" for a
        using that b by (auto simp: disjoint_vma_def v2)
      have ov: "disjoint_vma v2 a b \<longleftrightarrow> \<not> (s < vm_start (vmas v a) \<and> vm_start (vmas v a) < e)" if "a \<in> set L" for a
        using no [OF that] se ok that unfolding dj [OF that] by (auto simp: in_vma_def mm_ok_def L_def not_less not_le)
      show ?thesis
      proof (cases "insert_vma_struct k b v2")
        case None
        then show ?thesis using m ins(1) ov no ua Cons by auto
      next
        case (Some v3)
        have "\<forall>a\<in>set L. disjoint_vma v2 a b" using ins(1) Some by auto
        then have d: "(\<forall>a\<in>set L. vm_end (vmas v a) \<le> s \<or> e \<le> vm_start (vmas v a))"
          "\<not> (\<exists>a\<in>set L. s < vm_start (vmas v a) \<and> vm_start (vmas v a) < e)" using dj ov by blast+
        then show ?thesis using m Some ins(2) [OF Some] ua Cons b no
          by (auto simp: v2 L1 error_codes intro!: exI [of _ b])
      qed
    qed
  qed
qed

section \<open>Witnesses\<close>

text \<open>An address space with an ordinary area and, above it, a stack area; the cache holds the stack.\<close>

definition demo_vm :: vm where
  "demo_vm =
     \<lparr>vmas = (\<lambda>a. if a = 0 then \<lparr>vm_mm = Some 5, vm_start = 0x200000, vm_end = 0x400000, vm_flags = 3\<rparr>
                  else \<lparr>vm_mm = Some 5, vm_start = 0x600000, vm_end = 0x800000, vm_flags = 0xB\<rparr>),
      mms = (\<lambda>_. \<lparr>mmap_list = [0, 1], mmap_cache = Some 1, mm_pgdir = 10, map_count = 2, mm_count = 1,
                    mm_sem = 1, locked_by = 0\<rparr>),
      vma_pool = [7, 8], mm_pool = [6], pm = demo_mem\<rparr>"

lemma demo_vm_ok: "mm_ok demo_vm 5"
  by (simp add: mm_ok_def demo_vm_def)

theorem find_vma_correct_witness:
  "\<exists>v'. find_vma (Some 5) 0x201000 demo_vm = (Some 0, v') \<and> mm_ok v' 5"
proof -
  obtain r v' where f: "find_vma (Some 5) 0x201000 demo_vm = (r, v')" by (cases "find_vma (Some 5) 0x201000 demo_vm")
  then show ?thesis using find_vma_correct [OF demo_vm_ok f] by (auto simp: in_vma_def demo_vm_def)
qed

theorem user_mem_check_correct_witness:
  "\<exists>v' w'. user_mem_check (Some 5) 0x300000 0x1000 True demo_vm = Some (True, v') \<and>
     user_mem_check (Some 5) 0x600800 0x1000 True demo_vm = Some (False, w')"
proof -
  have st: "\<forall>a\<in>set (mmap_list (mms demo_vm 5)). vm_start (vmas demo_vm a) \<le> vm_start (vmas demo_vm a) + PGSIZE"
    by (simp add: demo_vm_def PGSIZE_def)
  have L: "set (mmap_list (mms demo_vm 5)) = {0, 1}" by (simp add: demo_vm_def)
  have a: "may_access demo_vm True 0 x" if "0x300000 \<le> x" "x < 0x301000" for x
    using order_trans [of "0x200000" "0x300000" x] less_trans [of x "0x301000" "0x400000"] that
    by (simp add: may_access_def in_vma_def demo_vm_def VM_WRITE_def VM_STACK_def)
  have b: "\<not> may_access demo_vm True 0 0x600800" "\<not> may_access demo_vm True 1 0x600800"
    by (simp_all add: may_access_def in_vma_def demo_vm_def VM_WRITE_def VM_STACK_def PGSIZE_def)
  have u: "USER_ACCESS 0x300000 0x301000" by (simp add: USER_ACCESS_def USERBASE_def USERTOP_def)
  have "\<exists>v'. user_mem_check (Some 5) 0x300000 0x1000 True demo_vm = Some (True, v')"
    using user_mem_check_correct [OF demo_vm_ok st, of "0x300000" "0x1000" True] a u unfolding L by auto
  moreover have "\<exists>v'. user_mem_check (Some 5) 0x600800 0x1000 True demo_vm = Some (False, v')"
    using user_mem_check_correct [OF demo_vm_ok st, of "0x600800" "0x1000" True] b unfolding L
    by (auto intro!: exI [of _ "0x600800"])
  ultimately show ?thesis by blast
qed

theorem mm_map_correct_witness:
  "mm_map 5 0x500000 0x200000 3 demo_vm = None \<and> (\<exists>v'. mm_map 5 0x4FF123 0x1000 3 demo_vm = Some (0, v') \<and> mm_ok v' 5)"
proof -
  have fr: "\<forall>b\<in>set (vma_pool demo_vm). b \<notin> set (mmap_list (mms demo_vm 5))" by (simp add: demo_vm_def)
  have 1: "mm_map 5 0x500000 0x200000 3 demo_vm = None"
    using mm_map_correct [OF demo_vm_ok fr, of "0x500000" "0x200000" 3]
    by (simp add: demo_vm_def in_vma_def USER_ACCESS_def USERBASE_def USERTOP_def ROUNDDOWN_def ROUNDUP_def PGSIZE_def)
  obtain z where z: "mm_map 5 0x4FF123 0x1000 3 demo_vm = z" by blast
  show ?thesis
    using 1 mm_map_correct [OF demo_vm_ok fr, of "0x4FF123" "0x1000" 3] unfolding z
    by (cases z) (auto simp: demo_vm_def in_vma_def USER_ACCESS_def USERBASE_def USERTOP_def ROUNDDOWN_def ROUNDUP_def PGSIZE_def)
qed

end
