(* ===== verification/Inode.thy ===== *)
theory Inode
  imports Vmm
begin

text \<open>
  The objects of the file layer: inodes and their reference counts (\<^verbatim>\<open>kern/fs/vfs/inode.c\<close>,
  \<^verbatim>\<open>inode.h\<close>), open files (\<^verbatim>\<open>file.h\<close>, \<^verbatim>\<open>fs.h\<close>) and io buffers (\<^verbatim>\<open>iobuf.c\<close>).  The operations of an
  inode and of a file system are called through tables of function pointers, so they are parameters:
  a \<open>world\<close> gives for the name of a table its functions, each a function on the whole state; a NULL
  pointer in a table is \<open>None\<close>.  \<open>devs\<close> is the private state of the file systems and devices.
\<close>

section \<open>Data\<close>

datatype in_type = device_info | sfs_inode_info

record inode =
  in_type :: in_type
  ref_count :: int
  open_count :: int
  in_fs :: "nat option"
  in_ops :: "nat option"

datatype fd_status = FD_NONE | FD_INIT | FD_OPENED | FD_CLOSED

record ufile =
  f_status :: fd_status
  readable :: bool
  writable :: bool
  fd_no :: int
  f_pos :: "64 word"
  f_node :: "nat option"
  fopen_count :: int

record files_struct =
  pwd :: "nat option"
  fd_array :: "ufile list"
  files_count :: int
  files_sem :: int

record vfs_dev =
  devname :: string
  devnode :: "nat option"
  v_fs :: "nat option"
  mountable :: bool

text \<open>The buffer behind an \<^verbatim>\<open>iobuf\<close> is a list of bytes; \<^verbatim>\<open>io_base\<close> is an index into it.\<close>

record iobuf =
  io_mem :: "8 word list"
  io_base :: nat
  io_offset :: "64 word"
  io_len :: nat
  io_resid :: nat

record stat =
  st_mode :: "32 word"
  st_nlinks :: "64 word"
  st_blocks :: "64 word"
  st_size :: "64 word"

text \<open>
  \<open>kmem\<close> holds the outcomes of the coming calls of \<^verbatim>\<open>kmalloc\<close> for buffers and strings (success when
  it is used up); the objects it would hand out for an inode or a \<^verbatim>\<open>files_struct\<close> are in the pools.
  \<open>cur_filesp\<close>, \<open>cur_mm\<close>, \<open>cur_pgdir\<close> and \<open>cur_pid\<close> are the fields of \<^verbatim>\<open>current\<close> that the file layer reads.
\<close>

record 'd fsys =
  um :: vm
  inodes :: "nat \<Rightarrow> inode"
  inode_pool :: "nat list"
  filess :: "nat \<Rightarrow> files_struct"
  files_pool :: "nat list"
  bootfs_node :: "nat option"
  bootfs_sem :: int
  vdev_list :: "vfs_dev list"
  vdev_list_sem :: int
  kmem :: "bool list"
  cur_filesp :: "nat option"
  cur_mm :: "nat option"
  cur_pgdir :: nat
  cur_pid :: "int option"
  devs :: 'd

record 's inode_ops =
  vop_magic :: "32 word"
  o_open :: "(nat \<Rightarrow> 32 word \<Rightarrow> 's \<Rightarrow> (int \<times> 's) option) option"
  o_close :: "(nat \<Rightarrow> 's \<Rightarrow> (int \<times> 's) option) option"
  o_read :: "(nat \<Rightarrow> iobuf \<Rightarrow> 's \<Rightarrow> (int \<times> iobuf \<times> 's) option) option"
  o_write :: "(nat \<Rightarrow> iobuf \<Rightarrow> 's \<Rightarrow> (int \<times> iobuf \<times> 's) option) option"
  o_fstat :: "(nat \<Rightarrow> 's \<Rightarrow> (int \<times> stat \<times> 's) option) option"
  o_fsync :: "(nat \<Rightarrow> 's \<Rightarrow> (int \<times> 's) option) option"
  o_namefile :: "(nat \<Rightarrow> iobuf \<Rightarrow> 's \<Rightarrow> (int \<times> iobuf \<times> 's) option) option"
  o_getdirentry :: "(nat \<Rightarrow> iobuf \<Rightarrow> 's \<Rightarrow> (int \<times> iobuf \<times> 's) option) option"
  o_reclaim :: "(nat \<Rightarrow> 's \<Rightarrow> (int \<times> 's) option) option"
  o_gettype :: "(nat \<Rightarrow> 's \<Rightarrow> (int \<times> 32 word \<times> 's) option) option"
  o_tryseek :: "(nat \<Rightarrow> 64 word \<Rightarrow> 's \<Rightarrow> (int \<times> 's) option) option"
  o_truncate :: "(nat \<Rightarrow> 64 word \<Rightarrow> 's \<Rightarrow> (int \<times> 's) option) option"
  o_create :: "(nat \<Rightarrow> string \<Rightarrow> bool \<Rightarrow> 's \<Rightarrow> (int \<times> nat option \<times> 's) option) option"
  o_lookup :: "(nat \<Rightarrow> string \<Rightarrow> 's \<Rightarrow> (int \<times> nat option \<times> 's) option) option"

record 's fs_ops =
  fs_sync :: "'s \<Rightarrow> (int \<times> 's) option"
  fs_get_root :: "'s \<Rightarrow> (nat option \<times> 's) option"
  fs_unmount :: "'s \<Rightarrow> (int \<times> 's) option"
  fs_cleanup :: "'s \<Rightarrow> 's option"

record 'd world =
  iops :: "nat \<Rightarrow> 'd fsys inode_ops"
  fsops :: "nat \<Rightarrow> 'd fsys fs_ops"

definition kmalloc_ok :: "'d fsys \<Rightarrow> bool \<times> 'd fsys" where
  "kmalloc_ok s = (case kmem s of [] \<Rightarrow> (True, s) | b # bs \<Rightarrow> (b, s\<lparr>kmem := bs\<rparr>))"

definition upd_inode :: "nat \<Rightarrow> (inode \<Rightarrow> inode) \<Rightarrow> 'd fsys \<Rightarrow> 'd fsys" where
  "upd_inode n f s = s\<lparr>inodes := (inodes s)(n := f (inodes s n))\<rparr>"

definition upd_files :: "nat \<Rightarrow> (files_struct \<Rightarrow> files_struct) \<Rightarrow> 'd fsys \<Rightarrow> 'd fsys" where
  "upd_files k f s = s\<lparr>filess := (filess s)(k := f (filess s k))\<rparr>"

text \<open>A \<^verbatim>\<open>struct file *\<close> is a table and an index.\<close>

definition file_at :: "nat \<times> nat \<Rightarrow> 'd fsys \<Rightarrow> ufile" where
  "file_at f s = fd_array (filess s (fst f)) ! snd f"

definition upd_file :: "nat \<times> nat \<Rightarrow> (ufile \<Rightarrow> ufile) \<Rightarrow> 'd fsys \<Rightarrow> 'd fsys" where
  "upd_file f g s = upd_files (fst f) (\<lambda>t. t\<lparr>fd_array := (fd_array t)[snd f := g (fd_array t ! snd f)]\<rparr>) s"

section \<open>Inodes\<close>

definition MAX_INODE_COUNT :: int where "MAX_INODE_COUNT = 0x10000"
definition VOP_MAGIC :: "32 word" where "VOP_MAGIC = 0x8c4ba476"

definition inode_check :: "'d world \<Rightarrow> nat \<Rightarrow> 'd fsys \<Rightarrow> unit option" where
  "inode_check W n s =
     do {
       t \<leftarrow> in_ops (inodes s n);
       assertc (vop_magic (iops W t) = VOP_MAGIC);
       let rc = ref_count (inodes s n);
       let oc = open_count (inodes s n);
       assertc (rc \<ge> oc \<and> oc \<ge> 0);
       assertc (rc < MAX_INODE_COUNT \<and> oc < MAX_INODE_COUNT)
     }"

text \<open>\<^verbatim>\<open>__vop_op(node, sym)\<close>: the function of the inode's table, or a failed assertion.\<close>

definition vop_op :: "'d world \<Rightarrow> nat \<Rightarrow> ('d fsys inode_ops \<Rightarrow> 'f option) \<Rightarrow> 'd fsys \<Rightarrow> 'f option" where
  "vop_op W n opsym s =
     do {
       t \<leftarrow> in_ops (inodes s n);
       f \<leftarrow> opsym (iops W t);
       inode_check W n s;
       Some f
     }"

definition vop_open where "vop_open W n fl s = do { f \<leftarrow> vop_op W n o_open s; f n fl s }"
definition vop_close where "vop_close W n s = do { f \<leftarrow> vop_op W n o_close s; f n s }"
definition vop_read where "vop_read W n iob s = do { f \<leftarrow> vop_op W n o_read s; f n iob s }"
definition vop_write where "vop_write W n iob s = do { f \<leftarrow> vop_op W n o_write s; f n iob s }"
definition vop_fstat where "vop_fstat W n s = do { f \<leftarrow> vop_op W n o_fstat s; f n s }"
definition vop_fsync where "vop_fsync W n s = do { f \<leftarrow> vop_op W n o_fsync s; f n s }"
definition vop_namefile where "vop_namefile W n iob s = do { f \<leftarrow> vop_op W n o_namefile s; f n iob s }"
definition vop_getdirentry where "vop_getdirentry W n iob s = do { f \<leftarrow> vop_op W n o_getdirentry s; f n iob s }"
definition vop_reclaim where "vop_reclaim W n s = do { f \<leftarrow> vop_op W n o_reclaim s; f n s }"
definition vop_gettype where "vop_gettype W n s = do { f \<leftarrow> vop_op W n o_gettype s; f n s }"
definition vop_tryseek where "vop_tryseek W n pos s = do { f \<leftarrow> vop_op W n o_tryseek s; f n pos s }"
definition vop_truncate where "vop_truncate W n len s = do { f \<leftarrow> vop_op W n o_truncate s; f n len s }"
definition vop_create where "vop_create W n name excl s = do { f \<leftarrow> vop_op W n o_create s; f n name excl s }"
definition vop_lookup where "vop_lookup W n path s = do { f \<leftarrow> vop_op W n o_lookup s; f n path s }"

definition alloc_inode :: "in_type \<Rightarrow> 'd fsys \<Rightarrow> nat option \<times> 'd fsys" where
  "alloc_inode ty s =
     (case inode_pool s of
        [] \<Rightarrow> (None, s)
      | n # ns \<Rightarrow> (Some n, upd_inode n (\<lambda>i. i\<lparr>in_type := ty\<rparr>) (s\<lparr>inode_pool := ns\<rparr>)))"

definition inode_ref_inc :: "nat \<Rightarrow> 'd fsys \<Rightarrow> 'd fsys" where
  "inode_ref_inc n = upd_inode n (\<lambda>i. i\<lparr>ref_count := ref_count i + 1\<rparr>)"

definition inode_open_inc :: "nat \<Rightarrow> 'd fsys \<Rightarrow> 'd fsys" where
  "inode_open_inc n = upd_inode n (\<lambda>i. i\<lparr>open_count := open_count i + 1\<rparr>)"

definition inode_init :: "nat \<Rightarrow> nat \<Rightarrow> nat option \<Rightarrow> 'd fsys \<Rightarrow> 'd fsys" where
  "inode_init n ops fs s =
     inode_ref_inc n (upd_inode n (\<lambda>i. i\<lparr>ref_count := 0, open_count := 0, in_ops := Some ops, in_fs := fs\<rparr>) s)"

definition inode_kill :: "nat \<Rightarrow> 'd fsys \<Rightarrow> 'd fsys option" where
  "inode_kill n s =
     do {
       assertc (ref_count (inodes s n) = 0);
       assertc (open_count (inodes s n) = 0);
       Some (s\<lparr>inode_pool := n # inode_pool s\<rparr>)
     }"

definition inode_ref_dec :: "'d world \<Rightarrow> nat \<Rightarrow> 'd fsys \<Rightarrow> (int \<times> 'd fsys) option" where
  "inode_ref_dec W n s =
     do {
       assertc (ref_count (inodes s n) > 0);
       let s1 = upd_inode n (\<lambda>i. i\<lparr>ref_count := ref_count i - 1\<rparr>) s;
       let rc = ref_count (inodes s1 n);
       if rc = 0 then do { (ret, s2) \<leftarrow> vop_reclaim W n s1; Some (rc, s2) } else Some (rc, s1)
     }"

definition inode_open_dec :: "'d world \<Rightarrow> nat \<Rightarrow> 'd fsys \<Rightarrow> (int \<times> 'd fsys) option" where
  "inode_open_dec W n s =
     do {
       assertc (open_count (inodes s n) > 0);
       let s1 = upd_inode n (\<lambda>i. i\<lparr>open_count := open_count i - 1\<rparr>) s;
       let oc = open_count (inodes s1 n);
       if oc = 0 then do { (ret, s2) \<leftarrow> vop_close W n s1; Some (oc, s2) } else Some (oc, s1)
     }"

section \<open>iobuf.c\<close>

definition iobuf_used :: "iobuf \<Rightarrow> nat" where "iobuf_used iob = io_len iob - io_resid iob"

definition iobuf_init :: "8 word list \<Rightarrow> nat \<Rightarrow> 64 word \<Rightarrow> iobuf" where
  "iobuf_init base len offset = \<lparr>io_mem = base, io_base = 0, io_offset = offset, io_len = len, io_resid = len\<rparr>"

definition iobuf_skip :: "iobuf \<Rightarrow> nat \<Rightarrow> iobuf option" where
  "iobuf_skip iob n =
     do {
       assertc (io_resid iob \<ge> n);
       Some (iob\<lparr>io_base := io_base iob + n, io_offset := io_offset iob + of_nat n, io_resid := io_resid iob - n\<rparr>)
     }"

definition splice :: "nat \<Rightarrow> 'a list \<Rightarrow> 'a list \<Rightarrow> 'a list" where
  "splice i xs m = take i m @ xs @ drop (i + length xs) m"

text \<open>The result is the return value, the io buffer, the data, and \<^verbatim>\<open>*copiedp\<close>.\<close>

definition iobuf_move :: "iobuf \<Rightarrow> 8 word list \<Rightarrow> nat \<Rightarrow> bool \<Rightarrow> (int \<times> iobuf \<times> 8 word list \<times> nat) option" where
  "iobuf_move iob data len m2b =
     do {
       let alen = min (io_resid iob) len;
       (iob1, data1) \<leftarrow>
         (if alen > 0
          then do {
            let iob0 = (if m2b then iob\<lparr>io_mem := splice (io_base iob) (take alen data) (io_mem iob)\<rparr> else iob);
            let data0 = (if m2b then data else splice 0 (take alen (drop (io_base iob) (io_mem iob))) data);
            iob1 \<leftarrow> iobuf_skip iob0 alen;
            Some (iob1, data0)
          }
          else Some (iob, data));
       Some (if len - alen = 0 then 0 else - E_NO_MEM, iob1, data1, alen)
     }"

definition iobuf_move_zeros :: "iobuf \<Rightarrow> nat \<Rightarrow> (int \<times> iobuf \<times> nat) option" where
  "iobuf_move_zeros iob len =
     do {
       let alen = min (io_resid iob) len;
       iob1 \<leftarrow> (if alen > 0
               then iobuf_skip (iob\<lparr>io_mem := splice (io_base iob) (replicate alen 0) (io_mem iob)\<rparr>) alen
               else Some iob);
       Some (if len - alen = 0 then 0 else - E_NO_MEM, iob1, alen)
     }"

end
