(* ===== verification/Vfs.thy ===== *)
theory Vfs
  imports Inode
begin

text \<open>
  The virtual file system: \<^verbatim>\<open>kern/fs/vfs/vfs.c\<close>, \<^verbatim>\<open>vfsdev.c\<close>, \<^verbatim>\<open>vfslookup.c\<close>, \<^verbatim>\<open>vfspath.c\<close> and
  \<^verbatim>\<open>vfsfile.c\<close>.  A path is a string; a function that stores an inode through a pointer returns it as
  an option, \<open>None\<close> where nothing was stored, and reading such a variable is \<open>None\<close> as a panic is.
  The semaphores here are never held while another process runs; taking one that is not free is \<open>None\<close>.
\<close>

section \<open>vfspath.c: the current directory\<close>

definition lock_files :: "nat \<Rightarrow> 'd fsys \<Rightarrow> 'd fsys option" where
  "lock_files k s = do { assertc (0 < files_sem (filess s k)); Some (upd_files k (\<lambda>t. t\<lparr>files_sem := files_sem t - 1\<rparr>) s) }"

definition unlock_files :: "nat \<Rightarrow> 'd fsys \<Rightarrow> 'd fsys" where
  "unlock_files k = upd_files k (\<lambda>t. t\<lparr>files_sem := files_sem t + 1\<rparr>)"

definition get_cwd_nolock :: "'d fsys \<Rightarrow> nat option option" where
  "get_cwd_nolock s = do { k \<leftarrow> cur_filesp s; Some (pwd (filess s k)) }"

definition set_cwd_nolock :: "nat option \<Rightarrow> 'd fsys \<Rightarrow> 'd fsys option" where
  "set_cwd_nolock d s = do { k \<leftarrow> cur_filesp s; Some (upd_files k (\<lambda>t. t\<lparr>pwd := d\<rparr>) s) }"

definition lock_cfs :: "'d fsys \<Rightarrow> 'd fsys option" where "lock_cfs s = do { k \<leftarrow> cur_filesp s; lock_files k s }"
definition unlock_cfs :: "'d fsys \<Rightarrow> 'd fsys option" where "unlock_cfs s = do { k \<leftarrow> cur_filesp s; Some (unlock_files k s) }"

definition vfs_get_curdir :: "'d fsys \<Rightarrow> (int \<times> nat option \<times> 'd fsys) option" where
  "vfs_get_curdir s =
     do {
       d \<leftarrow> get_cwd_nolock s;
       (case d of
          Some node \<Rightarrow> Some (0, Some node, inode_ref_inc node s)
        | None \<Rightarrow> Some (- E_NOENT, None, s))
     }"

definition S_IFMT :: "32 word" where "S_IFMT = 0x7000"
definition S_IFDIR :: "32 word" where "S_IFDIR = 0x2000"
definition S_ISDIR :: "32 word \<Rightarrow> bool" where "S_ISDIR md \<longleftrightarrow> md AND S_IFMT = S_IFDIR"

definition ref_dec :: "'d world \<Rightarrow> nat \<Rightarrow> 'd fsys \<Rightarrow> 'd fsys option" where
  "ref_dec W n s = map_option snd (inode_ref_dec W n s)"

definition open_dec :: "'d world \<Rightarrow> nat \<Rightarrow> 'd fsys \<Rightarrow> 'd fsys option" where
  "open_dec W n s = map_option snd (inode_open_dec W n s)"

definition vfs_set_curdir :: "'d world \<Rightarrow> nat option \<Rightarrow> 'd fsys \<Rightarrow> (int \<times> 'd fsys) option" where
  "vfs_set_curdir W dir s =
     do {
       s1 \<leftarrow> lock_cfs s;
       old \<leftarrow> get_cwd_nolock s1;
       (ret, s2) \<leftarrow>
         (if old \<noteq> dir
          then do {
            (ret, s2) \<leftarrow>
              (case dir of
                 None \<Rightarrow> Some (0, s1)
               | Some d \<Rightarrow>
                   do {
                     (ret, type, s2) \<leftarrow> vop_gettype W d s1;
                     if ret \<noteq> 0 then Some (ret, s2)
                     else if \<not> S_ISDIR type then Some (- E_NOTDIR, s2)
                     else Some (0, inode_ref_inc d s2)
                   });
            if ret \<noteq> 0 then Some (ret, s2)
            else do {
              s3 \<leftarrow> set_cwd_nolock dir s2;
              s4 \<leftarrow> (case old of None \<Rightarrow> Some s3 | Some od \<Rightarrow> ref_dec W od s3);
              Some (0, s4)
            }
          }
          else Some (0, s1));
       s3 \<leftarrow> unlock_cfs s2;
       Some (ret, s3)
     }"

section \<open>vfsdev.c: the table of devices\<close>

definition FS_MAX_DNAME_LEN :: nat where "FS_MAX_DNAME_LEN = 31"

definition lock_vdev_list :: "'d fsys \<Rightarrow> 'd fsys option" where
  "lock_vdev_list s = do { assertc (0 < vdev_list_sem s); Some (s\<lparr>vdev_list_sem := vdev_list_sem s - 1\<rparr>) }"

definition unlock_vdev_list :: "'d fsys \<Rightarrow> 'd fsys" where
  "unlock_vdev_list s = s\<lparr>vdev_list_sem := vdev_list_sem s + 1\<rparr>"

definition vfs_devlist_init :: "'d fsys \<Rightarrow> 'd fsys" where
  "vfs_devlist_init s = s\<lparr>vdev_list := [], vdev_list_sem := 1\<rparr>"

definition upd_vdev :: "nat \<Rightarrow> (vfs_dev \<Rightarrow> vfs_dev) \<Rightarrow> 'd fsys \<Rightarrow> 'd fsys" where
  "upd_vdev i f s = s\<lparr>vdev_list := (vdev_list s)[i := f (vdev_list s ! i)]\<rparr>"

fun cleanup_devs :: "'d world \<Rightarrow> vfs_dev list \<Rightarrow> 'd fsys \<Rightarrow> 'd fsys option" where
  "cleanup_devs W [] s = Some s"
| "cleanup_devs W (v # vs) s =
     (case v_fs v of
        None \<Rightarrow> cleanup_devs W vs s
      | Some f \<Rightarrow> do { s1 \<leftarrow> fs_cleanup (fsops W f) s; cleanup_devs W vs s1 })"

definition vfs_cleanup :: "'d world \<Rightarrow> 'd fsys \<Rightarrow> 'd fsys option" where
  "vfs_cleanup W s =
     (if vdev_list s \<noteq> []
      then do { s1 \<leftarrow> lock_vdev_list s; s2 \<leftarrow> cleanup_devs W (vdev_list s1) s1; Some (unlock_vdev_list s2) }
      else Some s)"

definition vfs_get_root :: "'d world \<Rightarrow> string \<Rightarrow> 'd fsys \<Rightarrow> (int \<times> nat option \<times> 'd fsys) option" where
  "vfs_get_root W name s =
     (if vdev_list s \<noteq> []
      then do {
        s1 \<leftarrow> lock_vdev_list s;
        (ret, node, s2) \<leftarrow>
          (case find (\<lambda>v. devname v = name) (vdev_list s1) of
             None \<Rightarrow> Some (- E_NO_DEV, None, s1)
           | Some v \<Rightarrow>
               do {
                 (found, s2) \<leftarrow>
                   (case v_fs v of
                      Some f \<Rightarrow> fs_get_root (fsops W f) s1
                    | None \<Rightarrow> if \<not> mountable v then do { d \<leftarrow> devnode v; Some (Some d, inode_ref_inc d s1) }
                              else Some (None, s1));
                 Some (if found \<noteq> None then (0, found, s2) else (- E_NA_DEV, None, s2))
               });
        Some (ret, node, unlock_vdev_list s2)
      }
      else Some (- E_NO_DEV, None, s))"

definition vfs_get_devname :: "nat \<Rightarrow> 'd fsys \<Rightarrow> string option" where
  "vfs_get_devname f s = map_option devname (find (\<lambda>v. v_fs v = Some f) (vdev_list s))"

definition check_devname_conflict :: "string \<Rightarrow> 'd fsys \<Rightarrow> bool" where
  "check_devname_conflict name s \<longleftrightarrow> (\<forall>v\<in>set (vdev_list s). devname v \<noteq> name)"

definition vfs_do_add :: "string \<Rightarrow> nat option \<Rightarrow> nat option \<Rightarrow> bool \<Rightarrow> 'd fsys \<Rightarrow> (int \<times> 'd fsys) option" where
  "vfs_do_add name node f mnt s =
     do {
       assertc (case node of None \<Rightarrow> \<not> mnt | Some n \<Rightarrow> in_type (inodes s n) = device_info);
       if length name > FS_MAX_DNAME_LEN then Some (- E_TOO_BIG, s)
       else
         (let (ok1, s1) = kmalloc_ok s
          in if \<not> ok1 then Some (- E_NO_MEM, s1)
             else
               (let (ok2, s2) = kmalloc_ok s1
                in if \<not> ok2 then Some (- E_NO_MEM, s2)
                   else do {
                     s3 \<leftarrow> lock_vdev_list s2;
                     if \<not> check_devname_conflict name s3 then Some (- E_EXISTS, unlock_vdev_list s3)
                     else (let s4 = s3\<lparr>vdev_list := \<lparr>devname = name, devnode = node, v_fs = f, mountable = mnt\<rparr> # vdev_list s3\<rparr>
                           in Some (0, unlock_vdev_list s4))
                   }))
     }"

definition vfs_add_fs :: "string \<Rightarrow> nat \<Rightarrow> 'd fsys \<Rightarrow> (int \<times> 'd fsys) option" where
  "vfs_add_fs name f s = vfs_do_add name None (Some f) False s"

definition vfs_add_dev :: "string \<Rightarrow> nat \<Rightarrow> bool \<Rightarrow> 'd fsys \<Rightarrow> (int \<times> 'd fsys) option" where
  "vfs_add_dev name node mnt s = vfs_do_add name (Some node) None mnt s"

definition find_mount :: "string \<Rightarrow> 'd fsys \<Rightarrow> nat option" where
  "find_mount name s =
     find (\<lambda>i. mountable (vdev_list s ! i) \<and> devname (vdev_list s ! i) = name) [0..<length (vdev_list s)]"

text \<open>The function that mounts takes the device's inode and hands back the new file system.\<close>

definition vfs_mount ::
  "string \<Rightarrow> (nat \<Rightarrow> 'd fsys \<Rightarrow> (int \<times> nat option \<times> 'd fsys) option) \<Rightarrow> 'd fsys \<Rightarrow> (int \<times> 'd fsys) option" where
  "vfs_mount name mountfunc s =
     do {
       s1 \<leftarrow> lock_vdev_list s;
       (ret, s2) \<leftarrow>
         (case find_mount name s1 of
            None \<Rightarrow> Some (- E_NO_DEV, s1)
          | Some i \<Rightarrow>
              if v_fs (vdev_list s1 ! i) \<noteq> None then Some (- E_BUSY, s1)
              else do {
                n \<leftarrow> devnode (vdev_list s1 ! i);
                assertc (in_type (inodes s1 n) = device_info);
                (ret, f, s2) \<leftarrow> mountfunc n s1;
                assertc (ret = 0 \<longrightarrow> f \<noteq> None);
                Some (ret, if f \<noteq> None then upd_vdev i (\<lambda>v. v\<lparr>v_fs := f\<rparr>) s2 else s2)
              });
       Some (ret, unlock_vdev_list s2)
     }"

definition vfs_unmount :: "'d world \<Rightarrow> string \<Rightarrow> 'd fsys \<Rightarrow> (int \<times> 'd fsys) option" where
  "vfs_unmount W name s =
     do {
       s1 \<leftarrow> lock_vdev_list s;
       (ret, s2) \<leftarrow>
         (case find_mount name s1 of
            None \<Rightarrow> Some (- E_NO_DEV, s1)
          | Some i \<Rightarrow>
              (case v_fs (vdev_list s1 ! i) of
                 None \<Rightarrow> Some (- E_INVAL, s1)
               | Some f \<Rightarrow>
                   do {
                     (r1, s2) \<leftarrow> fs_sync (fsops W f) s1;
                     if r1 \<noteq> 0 then Some (r1, s2)
                     else do {
                       (r2, s3) \<leftarrow> fs_unmount (fsops W f) s2;
                       Some (r2, if r2 = 0 then upd_vdev i (\<lambda>v. v\<lparr>v_fs := None\<rparr>) s3 else s3)
                     }
                   }));
       Some (ret, unlock_vdev_list s2)
     }"

fun unmount_devs :: "'d world \<Rightarrow> nat list \<Rightarrow> 'd fsys \<Rightarrow> 'd fsys option" where
  "unmount_devs W [] s = Some s"
| "unmount_devs W (i # is) s =
     (case (mountable (vdev_list s ! i), v_fs (vdev_list s ! i)) of
        (True, Some f) \<Rightarrow>
          do {
            (r1, s1) \<leftarrow> fs_sync (fsops W f) s;
            if r1 \<noteq> 0 then unmount_devs W is s1
            else do {
              (r2, s2) \<leftarrow> fs_unmount (fsops W f) s1;
              unmount_devs W is (if r2 \<noteq> 0 then s2 else upd_vdev i (\<lambda>v. v\<lparr>v_fs := None\<rparr>) s2)
            }
          }
      | _ \<Rightarrow> unmount_devs W is s)"

definition vfs_unmount_all :: "'d world \<Rightarrow> 'd fsys \<Rightarrow> (int \<times> 'd fsys) option" where
  "vfs_unmount_all W s =
     (if vdev_list s \<noteq> []
      then do {
        s1 \<leftarrow> lock_vdev_list s;
        s2 \<leftarrow> unmount_devs W [0..<length (vdev_list s1)] s1;
        Some (0, unlock_vdev_list s2)
      }
      else Some (0, s))"

section \<open>vfs.c: the boot file system\<close>

definition lock_bootfs :: "'d fsys \<Rightarrow> 'd fsys option" where
  "lock_bootfs s = do { assertc (0 < bootfs_sem s); Some (s\<lparr>bootfs_sem := bootfs_sem s - 1\<rparr>) }"

definition unlock_bootfs :: "'d fsys \<Rightarrow> 'd fsys" where
  "unlock_bootfs s = s\<lparr>bootfs_sem := bootfs_sem s + 1\<rparr>"

definition vfs_init :: "'d fsys \<Rightarrow> 'd fsys" where
  "vfs_init s = vfs_devlist_init (s\<lparr>bootfs_sem := 1\<rparr>)"

definition change_bootfs :: "'d world \<Rightarrow> nat option \<Rightarrow> 'd fsys \<Rightarrow> 'd fsys option" where
  "change_bootfs W node s =
     do {
       s1 \<leftarrow> lock_bootfs s;
       let old = bootfs_node s1;
       let s2 = unlock_bootfs (s1\<lparr>bootfs_node := node\<rparr>);
       (case old of None \<Rightarrow> Some s2 | Some o' \<Rightarrow> ref_dec W o' s2)
     }"

definition vfs_get_bootfs :: "'d fsys \<Rightarrow> (int \<times> nat option \<times> 'd fsys) option" where
  "vfs_get_bootfs s =
     (case bootfs_node s of
        None \<Rightarrow> Some (- E_NOENT, None, s)
      | Some _ \<Rightarrow>
          do {
            s1 \<leftarrow> lock_bootfs s;
            (case bootfs_node s1 of
               None \<Rightarrow> Some (- E_NOENT, None, unlock_bootfs s1)
             | Some n \<Rightarrow> Some (0, Some n, unlock_bootfs (inode_ref_inc n s1)))
          })"

section \<open>vfslookup.c\<close>

definition first_sep :: "string \<Rightarrow> nat option" where
  "first_sep path = find (\<lambda>i. path ! i \<in> {CHR '':'', CHR ''/''}) [0..<length path]"

text \<open>The result is the return value, the rest of the path and the inode to start from.\<close>

definition get_device :: "'d world \<Rightarrow> string \<Rightarrow> 'd fsys \<Rightarrow> (int \<times> string \<times> nat option \<times> 'd fsys) option" where
  "get_device W path s =
     (let sep = first_sep path;
          colon = (case sep of Some i \<Rightarrow> if path ! i = CHR '':'' then Some i else None | None \<Rightarrow> None);
          slash = (case sep of Some i \<Rightarrow> if path ! i = CHR ''/'' then Some i else None | None \<Rightarrow> None)
      in if colon = None \<and> slash \<noteq> Some 0
         then do { (r, n, s1) \<leftarrow> vfs_get_curdir s; Some (r, path, n, s1) }
         else if (case colon of Some i \<Rightarrow> i > 0 | None \<Rightarrow> False)
         then do {
           i \<leftarrow> colon;
           (r, n, s1) \<leftarrow> vfs_get_root W (take i path) s;
           Some (r, dropWhile (\<lambda>c. c = CHR ''/'') (drop (i + 1) path), n, s1)
         }
         else do {
           (r, n, s1) \<leftarrow>
             (if path ! 0 = CHR ''/'' then vfs_get_bootfs s
              else do {
                (r, cd, s1) \<leftarrow> vfs_get_curdir s;
                if r \<noteq> 0 then Some (r, None, s1)
                else do {
                  node \<leftarrow> cd;
                  f \<leftarrow> in_fs (inodes s1 node);
                  (root, s2) \<leftarrow> fs_get_root (fsops W f) s1;
                  s3 \<leftarrow> ref_dec W node s2;
                  Some (0, root, s3)
                }
              });
           Some (r, dropWhile (\<lambda>c. c = CHR ''/'') (tl path), n, s1)
         })"

definition vfs_lookup :: "'d world \<Rightarrow> string \<Rightarrow> 'd fsys \<Rightarrow> (int \<times> nat option \<times> 'd fsys) option" where
  "vfs_lookup W path s =
     do {
       (ret, sub, node, s1) \<leftarrow> get_device W path s;
       if ret \<noteq> 0 then Some (ret, None, s1)
       else if sub \<noteq> []
       then do {
         n \<leftarrow> node;
         (ret2, res, s2) \<leftarrow> vop_lookup W n sub s1;
         s3 \<leftarrow> ref_dec W n s2;
         Some (ret2, res, s3)
       }
       else Some (0, node, s1)
     }"

definition vfs_lookup_parent :: "'d world \<Rightarrow> string \<Rightarrow> 'd fsys \<Rightarrow> (int \<times> string \<times> nat option \<times> 'd fsys) option" where
  "vfs_lookup_parent W path s =
     do {
       (ret, sub, node, s1) \<leftarrow> get_device W path s;
       if ret \<noteq> 0 then Some (ret, [], None, s1) else Some (0, sub, node, s1)
     }"

definition vfs_chdir :: "'d world \<Rightarrow> string \<Rightarrow> 'd fsys \<Rightarrow> (int \<times> 'd fsys) option" where
  "vfs_chdir W path s =
     do {
       (ret, node, s1) \<leftarrow> vfs_lookup W path s;
       if ret \<noteq> 0 then Some (ret, s1)
       else do {
         n \<leftarrow> node;
         (ret2, s2) \<leftarrow> vfs_set_curdir W (Some n) s1;
         s3 \<leftarrow> ref_dec W n s2;
         Some (ret2, s3)
       }
     }"

definition vfs_set_bootfs :: "'d world \<Rightarrow> string option \<Rightarrow> 'd fsys \<Rightarrow> (int \<times> 'd fsys) option" where
  "vfs_set_bootfs W fsname s =
     (case fsname of
        None \<Rightarrow> do { s1 \<leftarrow> change_bootfs W None s; Some (0, s1) }
      | Some name \<Rightarrow>
          if CHR '':'' \<notin> set name \<or> dropWhile (\<lambda>c. c \<noteq> CHR '':'') name \<noteq> '':'' then Some (- E_INVAL, s)
          else do {
            (ret, s1) \<leftarrow> vfs_chdir W name s;
            if ret \<noteq> 0 then Some (ret, s1)
            else do {
              (ret2, node, s2) \<leftarrow> vfs_get_curdir s1;
              if ret2 \<noteq> 0 then Some (ret2, s2)
              else do { s3 \<leftarrow> change_bootfs W node s2; Some (0, s3) }
            }
          })"

definition bytes_of :: "string \<Rightarrow> 8 word list" where
  "bytes_of = map (\<lambda>c. of_nat (of_char c))"

definition vfs_getcwd :: "'d world \<Rightarrow> iobuf \<Rightarrow> 'd fsys \<Rightarrow> (int \<times> iobuf \<times> 'd fsys) option" where
  "vfs_getcwd W iob s =
     do {
       (ret, node, s1) \<leftarrow> vfs_get_curdir s;
       if ret \<noteq> 0 then Some (ret, iob, s1)
       else do {
         n \<leftarrow> node;
         f \<leftarrow> in_fs (inodes s1 n);
         name \<leftarrow> vfs_get_devname f s1;
         (r1, iob1, _, _) \<leftarrow> iobuf_move iob (bytes_of name) (length name) True;
         (r2, iob2, s2) \<leftarrow>
           (if r1 \<noteq> 0 then Some (r1, iob1, s1)
            else do {
              (r2, iob2, _, _) \<leftarrow> iobuf_move iob1 (bytes_of '':'') 1 True;
              if r2 \<noteq> 0 then Some (r2, iob2, s1) else vop_namefile W n iob2 s1
            });
         s3 \<leftarrow> ref_dec W n s2;
         Some (r2, iob2, s3)
       }
     }"

section \<open>vfsfile.c\<close>

definition O_RDONLY :: "32 word" where "O_RDONLY = 0"
definition O_WRONLY :: "32 word" where "O_WRONLY = 1"
definition O_RDWR :: "32 word" where "O_RDWR = 2"
definition O_CREAT :: "32 word" where "O_CREAT = 4"
definition O_EXCL :: "32 word" where "O_EXCL = 8"
definition O_TRUNC :: "32 word" where "O_TRUNC = 0x10"
definition O_APPEND :: "32 word" where "O_APPEND = 0x20"
definition O_ACCMODE :: "32 word" where "O_ACCMODE = 3"

definition vfs_open_node :: "'d world \<Rightarrow> nat \<Rightarrow> 32 word \<Rightarrow> 'd fsys \<Rightarrow> (int \<times> nat option \<times> 'd fsys) option" where
  "vfs_open_node W node fl s =
     do {
       (ret, s1) \<leftarrow> vop_open W node fl s;
       if ret \<noteq> 0 then do { s2 \<leftarrow> ref_dec W node s1; Some (ret, None, s2) }
       else do {
         let s2 = inode_open_inc node s1;
         if fl AND O_TRUNC \<noteq> 0 \<or> fl AND O_CREAT \<noteq> 0
         then do {
           (ret2, s3) \<leftarrow> vop_truncate W node 0 s2;
           if ret2 \<noteq> 0
           then do { s4 \<leftarrow> open_dec W node s3; s5 \<leftarrow> ref_dec W node s4; Some (ret2, None, s5) }
           else Some (0, Some node, s3)
         }
         else Some (0, Some node, s2)
       }
     }"

text \<open>
  \<^verbatim>\<open>get_device\<close> ends the device name with a zero byte, inside the path: this is what is left of it
  (neither \<^verbatim>\<open>vop_lookup\<close> writes to its path).  The return value of \<^verbatim>\<open>vop_create\<close> is not looked at.
\<close>

definition path_left :: "string \<Rightarrow> string" where
  "path_left path =
     (case first_sep path of Some i \<Rightarrow> if path ! i = CHR '':'' \<and> i > 0 then take i path else path | None \<Rightarrow> path)"

definition vfs_open :: "'d world \<Rightarrow> string \<Rightarrow> 32 word \<Rightarrow> 'd fsys \<Rightarrow> (int \<times> nat option \<times> 'd fsys) option" where
  "vfs_open W path fl s =
     (let acc = fl AND O_ACCMODE; can_write = (acc = O_WRONLY \<or> acc = O_RDWR);
          excl = (fl AND O_EXCL \<noteq> 0); creat = (fl AND O_CREAT \<noteq> 0)
      in if acc \<noteq> O_RDONLY \<and> acc \<noteq> O_WRONLY \<and> acc \<noteq> O_RDWR then Some (- E_INVAL, None, s)
         else if fl AND O_TRUNC \<noteq> 0 \<and> \<not> can_write then Some (- E_INVAL, None, s)
         else do {
           (ret, node, s1) \<leftarrow> vfs_lookup W path s;
           if ret \<noteq> 0
           then (if ret = -16 \<and> creat
                 then do {
                   (ret2, name, dir, s2) \<leftarrow> vfs_lookup_parent W (path_left path) s1;
                   if ret2 \<noteq> 0 then Some (ret2, None, s2)
                   else do {
                     d \<leftarrow> dir;
                     (ret3, node3, s3) \<leftarrow> vop_create W d name excl s2;
                     n \<leftarrow> (if node3 \<noteq> None then node3 else node);
                     vfs_open_node W n fl s3
                   }
                 }
                 else Some (ret, None, s1))
           else if excl \<and> creat then Some (- E_EXISTS, None, s1)
           else do { n \<leftarrow> node; vfs_open_node W n fl s1 }
         })"

definition vfs_close :: "'d world \<Rightarrow> nat \<Rightarrow> 'd fsys \<Rightarrow> 'd fsys option" where
  "vfs_close W node s = do { s1 \<leftarrow> open_dec W node s; ref_dec W node s1 }"

end
