(* ===== verification/Files.thy ===== *)
theory Files
  imports Vfs
begin

text \<open>
  Open files: \<^verbatim>\<open>kern/fs/file.c\<close>, the tables of open files of \<^verbatim>\<open>kern/fs/fs.c\<close>, and the system calls
  of \<^verbatim>\<open>kern/fs/sysfile.c\<close>.  A \<^verbatim>\<open>struct file *\<close> is a pair of a table and an index.  Kernel buffers are
  lists of bytes; what comes back in one is part of the result.
\<close>

section \<open>file.h, fs.h\<close>

text \<open>\<^verbatim>\<open>sizeof\<close> of \<^verbatim>\<open>struct files_struct\<close> is 48 and of \<^verbatim>\<open>struct file\<close> 56 (\<^verbatim>\<open>bool\<close> is a \<^verbatim>\<open>long long\<close>).\<close>

definition FILES_STRUCT_NENTRY :: nat where "FILES_STRUCT_NENTRY = (4096 - 48) div 56"
definition NO_FD :: int where "NO_FD = - 0x9527"

definition files_count_inc :: "nat \<Rightarrow> 'd fsys \<Rightarrow> 'd fsys" where
  "files_count_inc k = upd_files k (\<lambda>t. t\<lparr>files_count := files_count t + 1\<rparr>)"
definition files_count_dec :: "nat \<Rightarrow> 'd fsys \<Rightarrow> 'd fsys" where
  "files_count_dec k = upd_files k (\<lambda>t. t\<lparr>files_count := files_count t - 1\<rparr>)"

definition fopen_count_inc :: "nat \<times> nat \<Rightarrow> 'd fsys \<Rightarrow> 'd fsys" where
  "fopen_count_inc f = upd_file f (\<lambda>x. x\<lparr>fopen_count := fopen_count x + 1\<rparr>)"
definition fopen_count_dec :: "nat \<times> nat \<Rightarrow> 'd fsys \<Rightarrow> 'd fsys" where
  "fopen_count_dec f = upd_file f (\<lambda>x. x\<lparr>fopen_count := fopen_count x - 1\<rparr>)"

section \<open>file.c: entries of the table\<close>

definition testfd :: "int \<Rightarrow> bool" where "testfd fd \<longleftrightarrow> 0 \<le> fd \<and> fd < int FILES_STRUCT_NENTRY"

definition get_fd_array :: "'d fsys \<Rightarrow> nat option" where
  "get_fd_array s = do { k \<leftarrow> cur_filesp s; assertc (files_count (filess s k) > 0); Some k }"

definition fd_array_init :: "ufile list \<Rightarrow> ufile list" where
  "fd_array_init a =
     map (\<lambda>i. (a ! i)\<lparr>fopen_count := 0, f_status := FD_NONE, fd_no := int i\<rparr>) [0..<FILES_STRUCT_NENTRY]"

definition fd_array_alloc :: "int \<Rightarrow> 'd fsys \<Rightarrow> ((nat \<times> nat) option \<times> int \<times> 'd fsys) option" where
  "fd_array_alloc fd s =
     do {
       k \<leftarrow> get_fd_array s;
       let found = (\<lambda>i. do {
         assertc (fopen_count (file_at (k, i) s) = 0);
         Some (Some (k, i), 0, upd_file (k, i) (\<lambda>x. x\<lparr>f_status := FD_INIT, f_node := None\<rparr>) s) });
       if fd = NO_FD
       then (case find (\<lambda>i. f_status (file_at (k, i) s) = FD_NONE) [0..<FILES_STRUCT_NENTRY] of
               Some i \<Rightarrow> found i
             | None \<Rightarrow> Some (None, - E_MAX_OPEN, s))
       else if testfd fd
       then (if f_status (file_at (k, nat fd) s) = FD_NONE then found (nat fd) else Some (None, - E_BUSY, s))
       else Some (None, - E_INVAL, s)
     }"

definition fd_array_free :: "'d world \<Rightarrow> nat \<times> nat \<Rightarrow> 'd fsys \<Rightarrow> 'd fsys option" where
  "fd_array_free W f s =
     do {
       assertc (f_status (file_at f s) = FD_INIT \<or> f_status (file_at f s) = FD_CLOSED);
       assertc (fopen_count (file_at f s) = 0);
       s1 \<leftarrow> (if f_status (file_at f s) = FD_CLOSED
             then do { n \<leftarrow> f_node (file_at f s); vfs_close W n s }
             else Some s);
       Some (upd_file f (\<lambda>x. x\<lparr>f_status := FD_NONE\<rparr>) s1)
     }"

definition fd_array_acquire :: "nat \<times> nat \<Rightarrow> 'd fsys \<Rightarrow> 'd fsys option" where
  "fd_array_acquire f s = do { assertc (f_status (file_at f s) = FD_OPENED); Some (fopen_count_inc f s) }"

definition fd_array_release :: "'d world \<Rightarrow> nat \<times> nat \<Rightarrow> 'd fsys \<Rightarrow> 'd fsys option" where
  "fd_array_release W f s =
     do {
       assertc (f_status (file_at f s) = FD_OPENED \<or> f_status (file_at f s) = FD_CLOSED);
       assertc (fopen_count (file_at f s) > 0);
       let s1 = fopen_count_dec f s;
       if fopen_count (file_at f s1) = 0 then fd_array_free W f s1 else Some s1
     }"

definition fd_array_open :: "nat \<times> nat \<Rightarrow> 'd fsys \<Rightarrow> 'd fsys option" where
  "fd_array_open f s =
     do {
       assertc (f_status (file_at f s) = FD_INIT \<and> f_node (file_at f s) \<noteq> None);
       Some (fopen_count_inc f (upd_file f (\<lambda>x. x\<lparr>f_status := FD_OPENED\<rparr>) s))
     }"

definition fd_array_close :: "'d world \<Rightarrow> nat \<times> nat \<Rightarrow> 'd fsys \<Rightarrow> 'd fsys option" where
  "fd_array_close W f s =
     do {
       assertc (f_status (file_at f s) = FD_OPENED);
       assertc (fopen_count (file_at f s) > 0);
       let s1 = fopen_count_dec f (upd_file f (\<lambda>x. x\<lparr>f_status := FD_CLOSED\<rparr>) s);
       if fopen_count (file_at f s1) = 0 then fd_array_free W f s1 else Some s1
     }"

definition fd_array_dup :: "nat \<times> nat \<Rightarrow> nat \<times> nat \<Rightarrow> 'd fsys \<Rightarrow> 'd fsys option" where
  "fd_array_dup to from s =
     do {
       assertc (f_status (file_at to s) = FD_INIT \<and> f_status (file_at from s) = FD_OPENED);
       let g = file_at from s;
       let s1 = upd_file to (\<lambda>x. x\<lparr>f_pos := f_pos g, readable := readable g, writable := writable g\<rparr>) s;
       n \<leftarrow> f_node (file_at from s1);
       let s2 = inode_open_inc n (inode_ref_inc n s1);
       fd_array_open to (upd_file to (\<lambda>x. x\<lparr>f_node := Some n\<rparr>) s2)
     }"

definition fd2file :: "int \<Rightarrow> 'd fsys \<Rightarrow> ((nat \<times> nat) option) option" where
  "fd2file fd s =
     (if testfd fd
      then do {
        k \<leftarrow> get_fd_array s;
        let f = (k, nat fd);
        Some (if f_status (file_at f s) = FD_OPENED \<and> fd_no (file_at f s) = fd then Some f else None)
      }
      else Some None)"

definition file_testfd :: "int \<Rightarrow> bool \<Rightarrow> bool \<Rightarrow> 'd fsys \<Rightarrow> bool option" where
  "file_testfd fd rd wr s =
     do {
       fo \<leftarrow> fd2file fd s;
       Some (case fo of
               None \<Rightarrow> False
             | Some f \<Rightarrow> (if rd \<and> \<not> readable (file_at f s) then False
                         else if wr \<and> \<not> writable (file_at f s) then False else True))
     }"

section \<open>file.c: operations\<close>

definition file_open :: "'d world \<Rightarrow> string \<Rightarrow> 32 word \<Rightarrow> 'd fsys \<Rightarrow> (int \<times> 'd fsys) option" where
  "file_open W path fl s =
     (let acc = fl AND O_ACCMODE; rd = (acc = O_RDONLY \<or> acc = O_RDWR); wr = (acc = O_WRONLY \<or> acc = O_RDWR)
      in if \<not> rd \<and> \<not> wr then Some (- E_INVAL, s)
         else do {
           (fo, ret, s1) \<leftarrow> fd_array_alloc NO_FD s;
           (case fo of
              None \<Rightarrow> Some (ret, s1)
            | Some f \<Rightarrow>
                do {
                  (ret, node, s2) \<leftarrow> vfs_open W path fl s1;
                  if ret \<noteq> 0 then do { s3 \<leftarrow> fd_array_free W f s2; Some (ret, s3) }
                  else do {
                    n \<leftarrow> node;
                    (ret, sz, s3) \<leftarrow>
                      (if fl AND O_APPEND \<noteq> 0
                       then do { (ret, st, s3) \<leftarrow> vop_fstat W n s2; Some (ret, st_size st, s3) }
                       else Some (0, 0, s2));
                    if ret \<noteq> 0
                    then do { s4 \<leftarrow> vfs_close W n s3; s5 \<leftarrow> fd_array_free W f s4; Some (ret, s5) }
                    else do {
                      s4 \<leftarrow> fd_array_open f (upd_file f (\<lambda>x. x\<lparr>f_pos := sz, f_node := Some n, readable := rd, writable := wr\<rparr>) s3);
                      Some (fd_no (file_at f s4), s4)
                    }
                  }
                })
         })"

definition file_close :: "'d world \<Rightarrow> int \<Rightarrow> 'd fsys \<Rightarrow> (int \<times> 'd fsys) option" where
  "file_close W fd s =
     do {
       fo \<leftarrow> fd2file fd s;
       (case fo of None \<Rightarrow> Some (- E_INVAL, s) | Some f \<Rightarrow> do { s1 \<leftarrow> fd_array_close W f s; Some (0, s1) })
     }"

text \<open>The result is the return value, the buffer, \<^verbatim>\<open>*copied_store\<close> and the state.\<close>

definition file_read ::
  "'d world \<Rightarrow> int \<Rightarrow> 8 word list \<Rightarrow> nat \<Rightarrow> 'd fsys \<Rightarrow> (int \<times> 8 word list \<times> nat \<times> 'd fsys) option" where
  "file_read W fd base len s =
     do {
       fo \<leftarrow> fd2file fd s;
       (case fo of
          None \<Rightarrow> Some (- E_INVAL, base, 0, s)
        | Some f \<Rightarrow>
            if \<not> readable (file_at f s) then Some (- E_INVAL, base, 0, s)
            else do {
              s1 \<leftarrow> fd_array_acquire f s;
              n \<leftarrow> f_node (file_at f s1);
              (ret, iob, s2) \<leftarrow> vop_read W n (iobuf_init base len (f_pos (file_at f s1))) s1;
              let copied = iobuf_used iob;
              let s3 = (if f_status (file_at f s2) = FD_OPENED
                        then upd_file f (\<lambda>x. x\<lparr>f_pos := f_pos x + of_nat copied\<rparr>) s2 else s2);
              s4 \<leftarrow> fd_array_release W f s3;
              Some (ret, io_mem iob, copied, s4)
            })
     }"

definition file_write ::
  "'d world \<Rightarrow> int \<Rightarrow> 8 word list \<Rightarrow> nat \<Rightarrow> 'd fsys \<Rightarrow> (int \<times> nat \<times> 'd fsys) option" where
  "file_write W fd base len s =
     do {
       fo \<leftarrow> fd2file fd s;
       (case fo of
          None \<Rightarrow> Some (- E_INVAL, 0, s)
        | Some f \<Rightarrow>
            if \<not> writable (file_at f s) then Some (- E_INVAL, 0, s)
            else do {
              s1 \<leftarrow> fd_array_acquire f s;
              n \<leftarrow> f_node (file_at f s1);
              (ret, iob, s2) \<leftarrow> vop_write W n (iobuf_init base len (f_pos (file_at f s1))) s1;
              let copied = iobuf_used iob;
              let s3 = (if f_status (file_at f s2) = FD_OPENED
                        then upd_file f (\<lambda>x. x\<lparr>f_pos := f_pos x + of_nat copied\<rparr>) s2 else s2);
              s4 \<leftarrow> fd_array_release W f s3;
              Some (ret, copied, s4)
            })
     }"

definition LSEEK_SET :: int where "LSEEK_SET = 0"
definition LSEEK_CUR :: int where "LSEEK_CUR = 1"
definition LSEEK_END :: int where "LSEEK_END = 2"

definition file_seek :: "'d world \<Rightarrow> int \<Rightarrow> 64 word \<Rightarrow> int \<Rightarrow> 'd fsys \<Rightarrow> (int \<times> 'd fsys) option" where
  "file_seek W fd pos whence s =
     do {
       fo \<leftarrow> fd2file fd s;
       (case fo of
          None \<Rightarrow> Some (- E_INVAL, s)
        | Some f \<Rightarrow>
            do {
              s1 \<leftarrow> fd_array_acquire f s;
              n \<leftarrow> f_node (file_at f s1);
              (ret, pos1, s2) \<leftarrow>
                (if whence = LSEEK_SET then Some (0, pos, s1)
                 else if whence = LSEEK_CUR then Some (0, pos + f_pos (file_at f s1), s1)
                 else if whence = LSEEK_END
                 then do { (ret, st, s2) \<leftarrow> vop_fstat W n s1; Some (ret, if ret = 0 then pos + st_size st else pos, s2) }
                 else Some (- E_INVAL, pos, s1));
              (ret2, s3) \<leftarrow>
                (if ret = 0
                 then do {
                   (r, s3) \<leftarrow> vop_tryseek W n pos1 s2;
                   Some (r, if r = 0 then upd_file f (\<lambda>x. x\<lparr>f_pos := pos1\<rparr>) s3 else s3)
                 }
                 else Some (ret, s2));
              s4 \<leftarrow> fd_array_release W f s3;
              Some (ret2, s4)
            })
     }"

definition file_fstat :: "'d world \<Rightarrow> int \<Rightarrow> 'd fsys \<Rightarrow> (int \<times> stat option \<times> 'd fsys) option" where
  "file_fstat W fd s =
     do {
       fo \<leftarrow> fd2file fd s;
       (case fo of
          None \<Rightarrow> Some (- E_INVAL, None, s)
        | Some f \<Rightarrow>
            do {
              s1 \<leftarrow> fd_array_acquire f s;
              n \<leftarrow> f_node (file_at f s1);
              (ret, st, s2) \<leftarrow> vop_fstat W n s1;
              s3 \<leftarrow> fd_array_release W f s2;
              Some (ret, Some st, s3)
            })
     }"

definition file_fsync :: "'d world \<Rightarrow> int \<Rightarrow> 'd fsys \<Rightarrow> (int \<times> 'd fsys) option" where
  "file_fsync W fd s =
     do {
       fo \<leftarrow> fd2file fd s;
       (case fo of
          None \<Rightarrow> Some (- E_INVAL, s)
        | Some f \<Rightarrow>
            do {
              s1 \<leftarrow> fd_array_acquire f s;
              n \<leftarrow> f_node (file_at f s1);
              (ret, s2) \<leftarrow> vop_fsync W n s1;
              s3 \<leftarrow> fd_array_release W f s2;
              Some (ret, s3)
            })
     }"

record dirent =
  d_offset :: "64 word"
  d_name :: "8 word list"

definition file_getdirentry :: "'d world \<Rightarrow> int \<Rightarrow> dirent \<Rightarrow> 'd fsys \<Rightarrow> (int \<times> dirent \<times> 'd fsys) option" where
  "file_getdirentry W fd d s =
     do {
       fo \<leftarrow> fd2file fd s;
       (case fo of
          None \<Rightarrow> Some (- E_INVAL, d, s)
        | Some f \<Rightarrow>
            do {
              s1 \<leftarrow> fd_array_acquire f s;
              n \<leftarrow> f_node (file_at f s1);
              (ret, iob, s2) \<leftarrow> vop_getdirentry W n (iobuf_init (d_name d) 256 (d_offset d)) s1;
              let d1 = d\<lparr>d_name := io_mem iob\<rparr>;
              let d2 = (if ret = 0 then d1\<lparr>d_offset := d_offset d1 + of_nat (iobuf_used iob)\<rparr> else d1);
              s3 \<leftarrow> fd_array_release W f s2;
              Some (ret, d2, s3)
            })
     }"

definition file_dup :: "int \<Rightarrow> int \<Rightarrow> 'd fsys \<Rightarrow> (int \<times> 'd fsys) option" where
  "file_dup fd1 fd2 s =
     do {
       fo \<leftarrow> fd2file fd1 s;
       (case fo of
          None \<Rightarrow> Some (- E_INVAL, s)
        | Some f1 \<Rightarrow>
            do {
              (go, ret, s1) \<leftarrow> fd_array_alloc fd2 s;
              (case go of
                 None \<Rightarrow> Some (ret, s1)
               | Some f2 \<Rightarrow> do { s2 \<leftarrow> fd_array_dup f2 f1 s1; Some (fd_no (file_at f2 s2), s2) })
            })
     }"

section \<open>fs.c\<close>

definition files_create :: "'d fsys \<Rightarrow> nat option \<times> 'd fsys" where
  "files_create s =
     (case files_pool s of
        [] \<Rightarrow> (None, s)
      | k # ks \<Rightarrow> (Some k, upd_files k (\<lambda>t. \<lparr>pwd = None, fd_array = fd_array_init (fd_array t), files_count = 0,
                                            files_sem = 1\<rparr>) (s\<lparr>files_pool := ks\<rparr>)))"

fun close_entries :: "'d world \<Rightarrow> nat \<Rightarrow> nat list \<Rightarrow> bool \<Rightarrow> 'd fsys \<Rightarrow> 'd fsys option" where
  "close_entries W k [] chk s = Some s"
| "close_entries W k (i # is) chk s =
     do {
       s1 \<leftarrow> (if f_status (file_at (k, i) s) = FD_OPENED then fd_array_close W (k, i) s else Some s);
       assertc (chk \<longrightarrow> f_status (file_at (k, i) s1) = FD_NONE);
       close_entries W k is chk s1
     }"

definition files_destroy :: "'d world \<Rightarrow> nat \<Rightarrow> 'd fsys \<Rightarrow> 'd fsys option" where
  "files_destroy W k s =
     do {
       assertc (files_count (filess s k) = 0);
       s1 \<leftarrow> (case pwd (filess s k) of None \<Rightarrow> Some s | Some d \<Rightarrow> ref_dec W d s);
       s2 \<leftarrow> close_entries W k [0..<FILES_STRUCT_NENTRY] True s1;
       Some (s2\<lparr>files_pool := k # files_pool s2\<rparr>)
     }"

definition files_closeall :: "'d world \<Rightarrow> nat \<Rightarrow> 'd fsys \<Rightarrow> 'd fsys option" where
  "files_closeall W k s =
     do {
       assertc (files_count (filess s k) > 0);
       close_entries W k [2..<FILES_STRUCT_NENTRY] False s
     }"

fun dup_entries :: "nat \<Rightarrow> nat \<Rightarrow> nat list \<Rightarrow> 'd fsys \<Rightarrow> 'd fsys option" where
  "dup_entries to from [] s = Some s"
| "dup_entries to from (i # is) s =
     do {
       s1 \<leftarrow> (if f_status (file_at (from, i) s) = FD_OPENED
             then fd_array_dup (to, i) (from, i) (upd_file (to, i) (\<lambda>x. x\<lparr>f_status := FD_INIT\<rparr>) s)
             else Some s);
       dup_entries to from is s1
     }"

definition dup_files :: "nat \<Rightarrow> nat \<Rightarrow> 'd fsys \<Rightarrow> (int \<times> 'd fsys) option" where
  "dup_files to from s =
     do {
       assertc (files_count (filess s to) = 0 \<and> files_count (filess s from) > 0);
       let s1 = upd_files to (\<lambda>t. t\<lparr>pwd := pwd (filess s from)\<rparr>) s;
       let s2 = (case pwd (filess s1 to) of None \<Rightarrow> s1 | Some d \<Rightarrow> inode_ref_inc d s1);
       s3 \<leftarrow> dup_entries to from [0..<FILES_STRUCT_NENTRY] s2;
       Some (0, s3)
     }"

section \<open>Frames\<close>

lemma upd_simps [simp]:
  "inodes (upd_files k f s) = inodes s" "filess (upd_inode n g s) = filess s"
  "cur_filesp (upd_files k f s) = cur_filesp s" "cur_filesp (upd_inode n g s) = cur_filesp s"
  "files_pool (upd_files k f s) = files_pool s" "files_pool (upd_inode n g s) = files_pool s"
  "inodes (upd_inode n g s) = (inodes s)(n := g (inodes s n))"
  "filess (upd_files k f s) = (filess s)(k := f (filess s k))"
  "inodes (upd_file p h s) = inodes s" "cur_filesp (upd_file p h s) = cur_filesp s" "files_pool (upd_file p h s) = files_pool s"
  by (simp_all add: upd_files_def upd_inode_def upd_file_def)

lemma filess_upd_file [simp]:
  "pwd (filess (upd_file p h s) k) = pwd (filess s k)"
  "files_count (filess (upd_file p h s) k) = files_count (filess s k)"
  "files_sem (filess (upd_file p h s) k) = files_sem (filess s k)"
  "length (fd_array (filess (upd_file p h s) k)) = length (fd_array (filess s k))"
  "k \<noteq> fst p \<Longrightarrow> filess (upd_file p h s) k = filess s k"
  by (simp_all add: upd_file_def)

lemma file_at_simps [simp]: "file_at p (upd_inode n g s) = file_at p s"
  by (simp add: file_at_def)

lemma file_at_upd [simp]:
  "snd p < length (fd_array (filess s (fst p))) \<Longrightarrow>
     file_at q (upd_file p h s) = (if q = p then h (file_at p s) else file_at q s)"
  by (cases p; cases q) (auto simp: file_at_def upd_file_def)

lemma upd_file_fuse: "snd p < length (fd_array (filess s (fst p))) \<Longrightarrow> upd_file p g (upd_file p h s) = upd_file p (\<lambda>x. g (h x)) s"
  by (simp add: upd_file_def upd_files_def)

lemma upd_file_inode: "upd_file p h (upd_inode n g s) = upd_inode n g (upd_file p h s)"
  by (simp add: upd_file_def upd_files_def upd_inode_def)

lemma upd_inode_fuse: "upd_inode n g (upd_inode n h s) = upd_inode n (\<lambda>x. g (h x)) s"
  by (simp add: upd_inode_def)

lemma file_upd_cong: "h (file_at p s) = h' (file_at p s) \<Longrightarrow> upd_file p h s = upd_file p h' s"
  by (simp add: upd_file_def upd_files_def file_at_def)

section \<open>Tables at rest\<close>

text \<open>
  Between operations an entry is either unused, with no count, or open with count one and an inode;
  \<open>uses\<close> counts the entries among some indices that hold an inode open.
\<close>

definition entry_ok :: "nat \<Rightarrow> ufile \<Rightarrow> bool" where
  "entry_ok i x \<longleftrightarrow> fd_no x = int i \<and>
     (f_status x = FD_NONE \<and> fopen_count x = 0 \<or> f_status x = FD_OPENED \<and> fopen_count x = 1 \<and> f_node x \<noteq> None)"

definition files_ok :: "'d fsys \<Rightarrow> nat \<Rightarrow> bool" where
  "files_ok s k \<longleftrightarrow> length (fd_array (filess s k)) = FILES_STRUCT_NENTRY \<and>
     (\<forall>i<FILES_STRUCT_NENTRY. entry_ok i (file_at (k, i) s))"

definition holds :: "'d fsys \<Rightarrow> nat \<Rightarrow> nat \<Rightarrow> nat \<Rightarrow> bool" where
  "holds s k n i \<longleftrightarrow> f_status (file_at (k, i) s) = FD_OPENED \<and> f_node (file_at (k, i) s) = Some n"

definition uses :: "'d fsys \<Rightarrow> nat \<Rightarrow> nat list \<Rightarrow> nat \<Rightarrow> int" where
  "uses s k is n = int (length (filter (holds s k n) is))"

lemma uses_Nil [simp]: "uses s k [] n = 0"
  by (simp add: uses_def)

lemma uses_Cons: "uses s k (i # is) n = (if holds s k n i then 1 else 0) + uses s k is n"
  by (simp add: uses_def)

definition add_counts :: "(nat \<Rightarrow> int) \<Rightarrow> (nat \<Rightarrow> int) \<Rightarrow> 'd fsys \<Rightarrow> 'd fsys" where
  "add_counts r c s = s\<lparr>inodes := (\<lambda>n. (inodes s n)\<lparr>ref_count := ref_count (inodes s n) + r n, open_count := open_count (inodes s n) + c n\<rparr>)\<rparr>"

text \<open>Everything but the inodes and one table of open files.\<close>

definition files_frame :: "nat \<Rightarrow> 'd fsys \<Rightarrow> 'd fsys \<Rightarrow> bool" where
  "files_frame k s s' \<longleftrightarrow> s' = s\<lparr>inodes := inodes s', filess := filess s'\<rparr> \<and> (\<forall>j. j \<noteq> k \<longrightarrow> filess s' j = filess s j) \<and>
     pwd (filess s' k) = pwd (filess s k) \<and> files_count (filess s' k) = files_count (filess s k) \<and>
     length (fd_array (filess s' k)) = length (fd_array (filess s k))"

lemma files_frame_refl [simp]: "files_frame k s s"
  by (simp add: files_frame_def)

lemma files_frame_trans: "files_frame k s t \<Longrightarrow> files_frame k t u \<Longrightarrow> files_frame k s u"
  unfolding files_frame_def by (elim conjE, intro conjI) (erule ssubst, erule ssubst, simp_all)

lemma files_frame_pool: "files_frame k s s' \<Longrightarrow> files_pool s' = files_pool s"
  unfolding files_frame_def by (elim conjE, erule ssubst) simp

lemma files_frame_upd: "files_frame k s (upd_inode n g (upd_file (k, i) h s))"
  by (simp add: files_frame_def upd_inode_def upd_file_def upd_files_def)

lemma fd_array_dup_facts:
  assumes "f_status (file_at (from, i) s) = FD_OPENED" "f_node (file_at (from, i) s) = Some n" "to \<noteq> from"
    "i < length (fd_array (filess s to))"
  shows "fd_array_dup (to, i) (from, i) (upd_file (to, i) (\<lambda>x. x\<lparr>f_status := FD_INIT\<rparr>) s) =
    Some (upd_inode n (\<lambda>m. m\<lparr>ref_count := ref_count m + 1, open_count := open_count m + 1\<rparr>)
      (upd_file (to, i) (\<lambda>x. x\<lparr>f_pos := f_pos (file_at (from, i) s),
         readable := readable (file_at (from, i) s), writable := writable (file_at (from, i) s),
         f_node := Some n, f_status := FD_OPENED, fopen_count := fopen_count x + 1\<rparr>) s))"
  using assms
  by (simp add: fd_array_dup_def fd_array_open_def fopen_count_inc_def upd_file_fuse upd_file_inode inode_ref_inc_def
      inode_open_inc_def upd_inode_fuse Let_def)

lemma dup_entries_facts:
  assumes "to \<noteq> from" "distinct is" "\<forall>i\<in>set is. i < length (fd_array (filess s to)) \<and>
      (f_status (file_at (from, i) s) = FD_OPENED \<longrightarrow> f_node (file_at (from, i) s) \<noteq> None)"
  shows "\<exists>s'. dup_entries to from is s = Some s' \<and> files_frame to s s' \<and>
    (\<forall>n. inodes s' n = (inodes s n)\<lparr>ref_count := ref_count (inodes s n) + uses s from is n,
                                     open_count := open_count (inodes s n) + uses s from is n\<rparr>) \<and>
    (\<forall>i. file_at (to, i) s' =
      (if i \<in> set is \<and> f_status (file_at (from, i) s) = FD_OPENED
       then (file_at (to, i) s)\<lparr>f_pos := f_pos (file_at (from, i) s),
         readable := readable (file_at (from, i) s), writable := writable (file_at (from, i) s),
         f_node := f_node (file_at (from, i) s), f_status := FD_OPENED, fopen_count := fopen_count (file_at (to, i) s) + 1\<rparr>
       else file_at (to, i) s))"
  using assms
proof (induction "is" arbitrary: s)
  case (Cons i "is")
  show ?case
  proof (cases "f_status (file_at (from, i) s) = FD_OPENED")
    case False
    have u: "uses s from (i # is) n = uses s from is n" for n using False by (simp add: uses_Cons holds_def)
    have m: "j \<in> set (i # is) \<and> f_status (file_at (from, j) s) = FD_OPENED \<longleftrightarrow>
      j \<in> set is \<and> f_status (file_at (from, j) s) = FD_OPENED" for j using False by auto
    have st: "dup_entries to from (i # is) s = dup_entries to from is s" using False by simp
    show ?thesis unfolding u m st by (rule Cons.IH) (use Cons.prems in auto)
  next
    case True
    then obtain n where n: "f_node (file_at (from, i) s) = Some n" using Cons.prems by auto
    have i: "i < length (fd_array (filess s to))" using Cons.prems by simp
    define s1 where "s1 = upd_inode n (\<lambda>m. m\<lparr>ref_count := ref_count m + 1, open_count := open_count m + 1\<rparr>)
      (upd_file (to, i) (\<lambda>x. x\<lparr>f_pos := f_pos (file_at (from, i) s),
         readable := readable (file_at (from, i) s), writable := writable (file_at (from, i) s),
         f_node := Some n, f_status := FD_OPENED, fopen_count := fopen_count x + 1\<rparr>) s)"
    have step: "dup_entries to from (i # is) s = dup_entries to from is s1"
      using fd_array_dup_facts [OF True n Cons.prems(1) i] True by (simp add: s1_def)
    have fr: "file_at (from, j) s1 = file_at (from, j) s" for j using i Cons.prems(1) by (simp add: s1_def)
    have u: "uses s1 from is m = uses s from is m" for m by (simp add: uses_def holds_def [abs_def] fr)
    have len: "length (fd_array (filess s1 to)) = length (fd_array (filess s to))" by (simp add: s1_def)
    obtain s' where s': "dup_entries to from is s1 = Some s'" "files_frame to s1 s'"
      "\<forall>n. inodes s' n = (inodes s1 n)\<lparr>ref_count := ref_count (inodes s1 n) + uses s from is n,
                                     open_count := open_count (inodes s1 n) + uses s from is n\<rparr>"
      "\<forall>i. file_at (to, i) s' =
      (if i \<in> set is \<and> f_status (file_at (from, i) s) = FD_OPENED
       then (file_at (to, i) s1)\<lparr>f_pos := f_pos (file_at (from, i) s),
         readable := readable (file_at (from, i) s), writable := writable (file_at (from, i) s),
         f_node := f_node (file_at (from, i) s), f_status := FD_OPENED, fopen_count := fopen_count (file_at (to, i) s1) + 1\<rparr>
       else file_at (to, i) s1)"
      using Cons.IH [of s1] Cons.prems by (auto simp: fr u len)
    have "files_frame to s s1" unfolding s1_def by (rule files_frame_upd)
    then have "files_frame to s s'" using s'(2) by (rule files_frame_trans)
    moreover have "inodes s1 m = (inodes s m)\<lparr>ref_count := ref_count (inodes s m) + (if m = n then 1 else 0),
        open_count := open_count (inodes s m) + (if m = n then 1 else 0)\<rparr>" for m by (simp add: s1_def)
    moreover have "holds s from m i \<longleftrightarrow> m = n" for m using True n by (auto simp: holds_def)
    ultimately show ?thesis using s' step i True n Cons.prems(2)
      by (intro exI [of _ s']) (auto simp: uses_Cons s1_def)
  qed
qed simp

lemma inode_upd_swap: "x\<lparr>open_count := a, ref_count := b\<rparr> = x\<lparr>ref_count := b, open_count := a\<rparr>"
  by simp

lemma vfs_close_facts:
  assumes "open_count (inodes s n) \<ge> 2" "ref_count (inodes s n) \<ge> 2"
  shows "vfs_close W n s =
    Some (upd_inode n (\<lambda>m. m\<lparr>ref_count := ref_count m - 1, open_count := open_count m - 1\<rparr>) s)"
  using assms
  by (simp add: vfs_close_def open_dec_def ref_dec_def inode_open_dec_def inode_ref_dec_def upd_inode_fuse inode_upd_swap Let_def)

lemma fd_array_close_facts:
  assumes "f_status (file_at (k, i) s) = FD_OPENED" "fopen_count (file_at (k, i) s) = 1" "f_node (file_at (k, i) s) = Some n"
    "open_count (inodes s n) \<ge> 2" "ref_count (inodes s n) \<ge> 2" "i < length (fd_array (filess s k))"
  shows "fd_array_close W (k, i) s =
    Some (upd_inode n (\<lambda>m. m\<lparr>ref_count := ref_count m - 1, open_count := open_count m - 1\<rparr>)
      (upd_file (k, i) (\<lambda>x. x\<lparr>f_status := FD_NONE, fopen_count := 0\<rparr>) s))"
  using assms
  by (simp add: fd_array_close_def fopen_count_dec_def fd_array_free_def vfs_close_facts upd_file_fuse upd_file_inode Let_def)
    (rule arg_cong [where f = "upd_inode n _"], rule file_upd_cong, simp)

lemma close_entries_facts:
  assumes "distinct is" "\<forall>i\<in>set is. i < length (fd_array (filess s k)) \<and> entry_ok i (file_at (k, i) s)"
    "\<forall>n. uses s k is n > 0 \<longrightarrow> open_count (inodes s n) > uses s k is n \<and> ref_count (inodes s n) > uses s k is n"
  shows "\<exists>s'. close_entries W k is chk s = Some s' \<and> files_frame k s s' \<and>
    (\<forall>n. inodes s' n = (inodes s n)\<lparr>ref_count := ref_count (inodes s n) - uses s k is n,
                                     open_count := open_count (inodes s n) - uses s k is n\<rparr>) \<and>
    (\<forall>i. file_at (k, i) s' =
      (if i \<in> set is then (file_at (k, i) s)\<lparr>f_status := FD_NONE, fopen_count := 0\<rparr> else file_at (k, i) s))"
  using assms
proof (induction "is" arbitrary: s)
  case (Cons i "is")
  have e: "entry_ok i (file_at (k, i) s)" and i: "i < length (fd_array (filess s k))" using Cons.prems by simp_all
  show ?case
  proof (cases "f_status (file_at (k, i) s) = FD_OPENED")
    case False
    then have no: "f_status (file_at (k, i) s) = FD_NONE" "fopen_count (file_at (k, i) s) = 0" using e by (auto simp: entry_ok_def)
    have u: "uses s k (i # is) n = uses s k is n" for n using False by (simp add: uses_Cons holds_def)
    have same: "(file_at (k, i) s)\<lparr>f_status := FD_NONE, fopen_count := 0\<rparr> = file_at (k, i) s" using no by simp
    have st: "close_entries W k (i # is) chk s = close_entries W k is chk s" using no by simp
    have mm: "(if j \<in> set (i # is) then (file_at (k, j) s)\<lparr>f_status := FD_NONE, fopen_count := 0\<rparr> else file_at (k, j) s) =
      (if j \<in> set is then (file_at (k, j) s)\<lparr>f_status := FD_NONE, fopen_count := 0\<rparr> else file_at (k, j) s)" for j
      using same by auto
    show ?thesis unfolding u st mm by (rule Cons.IH) (use Cons.prems u in auto)
  next
    case True
    then obtain n where n: "f_node (file_at (k, i) s) = Some n" and c1: "fopen_count (file_at (k, i) s) = 1"
      using e by (auto simp: entry_ok_def)
    have h: "holds s k m i \<longleftrightarrow> m = n" for m using True n by (auto simp: holds_def)
    have c: "open_count (inodes s n) \<ge> 2 + uses s k is n" "ref_count (inodes s n) \<ge> 2 + uses s k is n"
      using Cons.prems(3) [rule_format, of n] by (simp_all add: uses_Cons h) (simp_all add: uses_def)
    have nn: "uses s k is n \<ge> 0" by (simp add: uses_def)
    define s1 where "s1 = upd_inode n (\<lambda>m. m\<lparr>ref_count := ref_count m - 1, open_count := open_count m - 1\<rparr>)
      (upd_file (k, i) (\<lambda>x. x\<lparr>f_status := FD_NONE, fopen_count := 0\<rparr>) s)"
    have cl: "fd_array_close W (k, i) s = Some s1"
      unfolding s1_def using c nn by (intro fd_array_close_facts True c1 n i) simp_all
    have st: "f_status (file_at (k, i) s1) = FD_NONE" using i by (simp add: s1_def)
    have step: "close_entries W k (i # is) chk s = close_entries W k is chk s1" using True cl st by simp
    have fr: "file_at (k, j) s1 = file_at (k, j) s" if "j \<in> set is" for j using i that Cons.prems(1) by (auto simp: s1_def)
    have u: "uses s1 k is m = uses s k is m" for m
      unfolding uses_def by (simp add: holds_def fr cong: filter_cong)
    have len: "length (fd_array (filess s1 k)) = length (fd_array (filess s k))" by (simp add: s1_def)
    have ino: "inodes s1 m = (inodes s m)\<lparr>ref_count := ref_count (inodes s m) - (if m = n then 1 else 0),
        open_count := open_count (inodes s m) - (if m = n then 1 else 0)\<rparr>" for m by (simp add: s1_def)
    have p3: "\<forall>m. uses s1 k is m > 0 \<longrightarrow> open_count (inodes s1 m) > uses s1 k is m \<and> ref_count (inodes s1 m) > uses s1 k is m"
    proof
      fix m
      show "uses s1 k is m > 0 \<longrightarrow> open_count (inodes s1 m) > uses s1 k is m \<and> ref_count (inodes s1 m) > uses s1 k is m"
        using Cons.prems(3) [rule_format, of m] c by (cases "m = n") (simp_all add: u ino uses_Cons h)
    qed
    obtain s' where s': "close_entries W k is chk s1 = Some s'" "files_frame k s1 s'"
      "\<forall>n. inodes s' n = (inodes s1 n)\<lparr>ref_count := ref_count (inodes s1 n) - uses s k is n,
                                     open_count := open_count (inodes s1 n) - uses s k is n\<rparr>"
      "\<forall>i. file_at (k, i) s' =
      (if i \<in> set is then (file_at (k, i) s1)\<lparr>f_status := FD_NONE, fopen_count := 0\<rparr> else file_at (k, i) s1)"
      using Cons.IH [of s1] Cons.prems p3 by (auto simp: fr u len)
    have "files_frame k s s1" unfolding s1_def by (rule files_frame_upd)
    then have "files_frame k s s'" using s'(2) by (rule files_frame_trans)
    then show ?thesis using s' step i Cons.prems(1)
      by (intro exI [of _ s']) (auto simp: uses_Cons h ino s1_def)
  qed
qed simp


text \<open>
  C27: \<^verbatim>\<open>dup_files\<close> gives the child an open entry for every open entry of the parent, at the same
  index and with the same inode, position and modes, and raises the reference and open counts of each
  inode by exactly the entries that hold it (the working directory's by one more); \<^verbatim>\<open>files_destroy\<close> of
  the child undoes this exactly and closes no inode the parent still uses.
\<close>

theorem dup_files_destroy_roundtrip:
  assumes par: "files_ok s from" "files_count (filess s from) > 0" "to \<noteq> from" and new: "files_create s0 = (Some to, s)"
    and cnt: "\<forall>n. uses s from [0..<FILES_STRUCT_NENTRY] n > 0 \<or> pwd (filess s from) = Some n \<longrightarrow>
      ref_count (inodes s n) \<ge> 1" "\<forall>n. uses s from [0..<FILES_STRUCT_NENTRY] n > 0 \<longrightarrow> open_count (inodes s n) \<ge> 1"
  shows "\<exists>s1 s2. dup_files to from s = Some (0, s1) \<and> files_ok s1 to \<and> pwd (filess s1 to) = pwd (filess s from) \<and>
    (\<forall>i<FILES_STRUCT_NENTRY. f_status (file_at (to, i) s1) = f_status (file_at (from, i) s) \<and>
      (f_status (file_at (from, i) s) = FD_OPENED \<longrightarrow>
        f_node (file_at (to, i) s1) = f_node (file_at (from, i) s) \<and> f_pos (file_at (to, i) s1) = f_pos (file_at (from, i) s) \<and>
        readable (file_at (to, i) s1) = readable (file_at (from, i) s) \<and>
        writable (file_at (to, i) s1) = writable (file_at (from, i) s))) \<and>
    (\<forall>n. open_count (inodes s1 n) = open_count (inodes s n) + uses s from [0..<FILES_STRUCT_NENTRY] n \<and>
      ref_count (inodes s1 n) = ref_count (inodes s n) + uses s from [0..<FILES_STRUCT_NENTRY] n +
        (if pwd (filess s from) = Some n then 1 else 0)) \<and>
    files_destroy W to s1 = Some s2 \<and> inodes s2 = inodes s \<and> files_pool s2 = files_pool s0 \<and>
    (\<forall>k. k \<noteq> to \<longrightarrow> filess s2 k = filess s k)"
proof -
  let ?is = "[0..<FILES_STRUCT_NENTRY]"
  have t: "files_count (filess s to) = 0" "length (fd_array (filess s to)) = FILES_STRUCT_NENTRY" "files_pool s0 = to # files_pool s"
    and tn: "\<And>i. i < FILES_STRUCT_NENTRY \<Longrightarrow> f_status (file_at (to, i) s) = FD_NONE \<and> fopen_count (file_at (to, i) s) = 0 \<and>
      fd_no (file_at (to, i) s) = int i"
    using new by (auto simp: files_create_def fd_array_init_def file_at_def split: list.splits)
  define sa where "sa = upd_files to (\<lambda>t. t\<lparr>pwd := pwd (filess s from)\<rparr>) s"
  define sb where "sb = (case pwd (filess sa to) of None \<Rightarrow> sa | Some d \<Rightarrow> inode_ref_inc d sa)"
  have fa: "file_at p sb = file_at p s" for p
    by (auto simp: sb_def sa_def file_at_def inode_ref_inc_def split: option.splits)
  have pw: "pwd (filess sb to) = pwd (filess s from)" "files_count (filess sb to) = 0"
    "length (fd_array (filess sb to)) = FILES_STRUCT_NENTRY" "\<And>k. k \<noteq> to \<Longrightarrow> filess sb k = filess s k" "files_pool sb = files_pool s"
    using t by (auto simp: sb_def sa_def inode_ref_inc_def split: option.splits)
  have u: "uses sb from ?is n = uses s from ?is n" for n by (simp add: uses_def holds_def [abs_def] fa)
  have ib: "inodes sb n = (inodes s n)\<lparr>ref_count := ref_count (inodes s n) + (if pwd (filess s from) = Some n then 1 else 0)\<rparr>" for n
    by (auto simp: sb_def sa_def inode_ref_inc_def split: option.splits)
  have par_ok: "entry_ok i (file_at (from, i) s)" if "i < FILES_STRUCT_NENTRY" for i using par(1) that by (simp add: files_ok_def)
  have cond: "\<forall>i\<in>set ?is. i < length (fd_array (filess sb to)) \<and>
      (f_status (file_at (from, i) sb) = FD_OPENED \<longrightarrow> f_node (file_at (from, i) sb) \<noteq> None)"
    using pw(3) by (auto simp: fa entry_ok_def dest!: par_ok)
  obtain s1 where s1: "dup_entries to from ?is sb = Some s1" "files_frame to sb s1"
    "\<And>n. inodes s1 n = (inodes sb n)\<lparr>ref_count := ref_count (inodes sb n) + uses s from ?is n,
                                     open_count := open_count (inodes sb n) + uses s from ?is n\<rparr>"
    and s1f: "\<And>i. i < FILES_STRUCT_NENTRY \<Longrightarrow> file_at (to, i) s1 =
      (if f_status (file_at (from, i) s) = FD_OPENED
       then (file_at (to, i) s)\<lparr>f_pos := f_pos (file_at (from, i) s),
         readable := readable (file_at (from, i) s), writable := writable (file_at (from, i) s),
         f_node := f_node (file_at (from, i) s), f_status := FD_OPENED, fopen_count := fopen_count (file_at (to, i) s) + 1\<rparr>
       else file_at (to, i) s)"
    using dup_entries_facts [OF par(3) distinct_upt cond] unfolding u fa by auto
  have dup: "dup_files to from s = Some (0, s1)"
    using s1(1) t(1) par(2) by (simp add: dup_files_def sa_def [symmetric] sb_def [symmetric] Let_def)
  have fr: "pwd (filess s1 to) = pwd (filess s from)" "files_count (filess s1 to) = 0"
    "length (fd_array (filess s1 to)) = FILES_STRUCT_NENTRY" "\<And>k. k \<noteq> to \<Longrightarrow> filess s1 k = filess s k" "files_pool s1 = files_pool s"
    using s1(2) pw files_frame_pool [OF s1(2)] by (simp_all add: files_frame_def)
  have st: "f_status (file_at (to, i) s1) = f_status (file_at (from, i) s)" if "i < FILES_STRUCT_NENTRY" for i
    using s1f [OF that] tn [OF that] par_ok [OF that] by (auto simp: entry_ok_def)
  have e1: "entry_ok i (file_at (to, i) s1)" if "i < FILES_STRUCT_NENTRY" for i
    using s1f [OF that] tn [OF that] par_ok [OF that] by (auto simp: entry_ok_def)
  have ok1: "files_ok s1 to" using e1 fr(3) by (simp add: files_ok_def)
  have hs: "holds s1 to n i \<longleftrightarrow> holds s from n i" if "i < FILES_STRUCT_NENTRY" for n i
    using s1f [OF that] st [OF that] by (auto simp: holds_def)
  have us: "uses s1 to ?is n = uses s from ?is n" for n
  proof -
    have "filter (holds s1 to n) ?is = filter (holds s from n) ?is" using hs by (intro filter_cong) auto
    then show ?thesis by (simp only: uses_def)
  qed
  define sd where "sd = (case pwd (filess s1 to) of None \<Rightarrow> s1 | Some d \<Rightarrow> upd_inode d (\<lambda>i. i\<lparr>ref_count := ref_count i - 1\<rparr>) s1)"
  have ref1: "ref_count (inodes s1 d) \<ge> 2" if "pwd (filess s from) = Some d" for d
    using cnt(1) that by (auto simp: s1(3) ib uses_def)
  have rd: "(case pwd (filess s1 to) of None \<Rightarrow> Some s1 | Some d \<Rightarrow> ref_dec W d s1) = Some sd"
    using ref1 by (auto simp: sd_def ref_dec_def inode_ref_dec_def fr(1) split: option.splits)
  have fd: "file_at p sd = file_at p s1" "filess sd = filess s1" "files_pool sd = files_pool s1" for p
    by (auto simp: sd_def file_at_def split: option.splits)
  have hd: "holds sd to n = holds s1 to n" for n by (simp add: fun_eq_iff holds_def fd(1))
  have ud: "uses sd to ?is n = uses s from ?is n" for n by (simp only: us [symmetric]) (simp only: uses_def hd)
  have id: "inodes sd n = (inodes s n)\<lparr>ref_count := ref_count (inodes s n) + uses s from ?is n,
                                     open_count := open_count (inodes s n) + uses s from ?is n\<rparr>" for n
    by (auto simp: sd_def s1(3) ib fr(1) split: option.splits)
  have c1: "\<forall>i\<in>set ?is. i < length (fd_array (filess sd to)) \<and> entry_ok i (file_at (to, i) sd)"
    using e1 fr(3) by (simp add: fd)
  have c2: "\<forall>n. uses sd to ?is n > 0 \<longrightarrow> open_count (inodes sd n) > uses sd to ?is n \<and> ref_count (inodes sd n) > uses sd to ?is n"
    using cnt by (auto simp: ud id)
  obtain s2 where s2: "close_entries W to ?is True sd = Some s2" "files_frame to sd s2"
    "\<And>n. inodes s2 n = (inodes sd n)\<lparr>ref_count := ref_count (inodes sd n) - uses s from ?is n,
                                     open_count := open_count (inodes sd n) - uses s from ?is n\<rparr>"
    using close_entries_facts [OF distinct_upt c1 c2, of W True] unfolding ud by auto
  have de: "files_destroy W to s1 = Some (s2\<lparr>files_pool := to # files_pool s2\<rparr>)"
    using rd s2(1) fr(2) by (simp add: files_destroy_def)
  have "\<forall>k. k \<noteq> to \<longrightarrow> filess s2 k = filess sd k" using s2(2) by (simp add: files_frame_def)
  moreover have "files_pool s2 = files_pool sd" using s2(2) by (rule files_frame_pool)
  moreover have "inodes s2 = inodes s" by (rule ext) (simp add: s2(3) id)
  ultimately show ?thesis
    using dup ok1 fr de st s1f t(3)
    by (intro exI [of _ s1] exI [of _ "s2\<lparr>files_pool := to # files_pool s2\<rparr>"]) (auto simp: fd s1(3) ib)
qed


section \<open>Creating a file\<close>

lemma first_sep_None: "CHR '':'' \<notin> set path \<Longrightarrow> CHR ''/'' \<notin> set path \<Longrightarrow> first_sep path = None"
  unfolding first_sep_def find_None_iff by (metis atLeastLessThan_iff empty_iff insert_iff nth_mem set_upt)

lemma upd_inode_id: "f (inodes s n) = inodes s n \<Longrightarrow> upd_inode n f s = s"
  by (simp add: upd_inode_def)

lemma lookup_absent:
  assumes cur: "cur_filesp s = Some k" "pwd (filess s k) = Some d"
    and path: "CHR '':'' \<notin> set path" "CHR ''/'' \<notin> set path" "path \<noteq> []"
    and dir: "in_ops (inodes s d) = Some t" "vop_magic (iops W t) = VOP_MAGIC"
      "o_lookup (iops W t) = Some f" "\<And>s'. f d path s' = Some (- E_NOENT, None, s')"
      "0 \<le> open_count (inodes s d)" "open_count (inodes s d) \<le> ref_count (inodes s d)" "1 \<le> ref_count (inodes s d)"
      "ref_count (inodes s d) < MAX_INODE_COUNT - 1"
  shows "vfs_lookup W path s = Some (- E_NOENT, None, s)"
    "vfs_lookup_parent W path s = Some (0, path, Some d, inode_ref_inc d s)"
proof -
  have g: "get_device W path s = Some (0, path, Some d, inode_ref_inc d s)"
    using first_sep_None [OF path(1,2)] cur
    by (simp add: get_device_def Let_def vfs_get_curdir_def get_cwd_nolock_def)
  then show "vfs_lookup_parent W path s = Some (0, path, Some d, inode_ref_inc d s)" by (simp add: vfs_lookup_parent_def)
  have "vop_lookup W d path (inode_ref_inc d s) = Some (- E_NOENT, None, inode_ref_inc d s)"
    using dir by (simp add: vop_lookup_def vop_op_def inode_check_def inode_ref_inc_def Let_def MAX_INODE_COUNT_def)
  moreover have "ref_dec W d (inode_ref_inc d s) = Some s"
    using dir(7) by (simp add: ref_dec_def inode_ref_dec_def inode_ref_inc_def upd_inode_fuse upd_inode_id Let_def)
  ultimately show "vfs_lookup W path s = Some (- E_NOENT, None, s)"
    using g path(3) by (simp add: vfs_lookup_def)
qed

text \<open>
  Opening an absent file in a directory whose table of operations has no \<^verbatim>\<open>vop_create\<close>, which is so
  for every directory of the file system, fails with -E_NOENT without \<^verbatim>\<open>O_CREAT\<close>, but with \<^verbatim>\<open>O_CREAT\<close>
  the assertion in \<^verbatim>\<open>__vop_op\<close> stops the kernel.
\<close>

theorem open_create_panics:
  assumes cur: "cur_filesp s = Some k" "pwd (filess s k) = Some d"
    and path: "CHR '':'' \<notin> set path" "CHR ''/'' \<notin> set path" "path \<noteq> []"
    and dir: "in_ops (inodes s d) = Some t" "vop_magic (iops W t) = VOP_MAGIC"
      "o_lookup (iops W t) = Some f" "\<And>s'. f d path s' = Some (- E_NOENT, None, s')"
      "0 \<le> open_count (inodes s d)" "open_count (inodes s d) \<le> ref_count (inodes s d)" "1 \<le> ref_count (inodes s d)"
      "ref_count (inodes s d) < MAX_INODE_COUNT - 1"
    and nocreate: "o_create (iops W t) = None"
    and fl: "fl AND O_ACCMODE = O_RDWR"
  shows "vfs_open W path fl s = (if fl AND O_CREAT = 0 then Some (- E_NOENT, None, s) else None)"
proof -
  note lk = lookup_absent [OF cur path dir]
  have pl: "path_left path = path" using first_sep_None [OF path(1,2)] by (simp add: path_left_def)
  have "vop_create W d path x (inode_ref_inc d s) = None" for x
    using dir(1) nocreate by (simp add: vop_create_def vop_op_def inode_ref_inc_def)
  then show ?thesis
    using lk fl by (simp add: vfs_open_def Let_def pl error_codes O_RDONLY_def O_WRONLY_def O_RDWR_def)
qed

section \<open>Witnesses\<close>

text \<open>A world whose directories find nothing and cannot create; a process with two open files.\<close>

definition demo_world :: "unit world" where
  "demo_world =
     \<lparr>iops = (\<lambda>_. \<lparr>vop_magic = VOP_MAGIC, o_open = None, o_close = None, o_read = None, o_write = None, o_fstat = None,
        o_fsync = None, o_namefile = None, o_getdirentry = None, o_reclaim = None, o_gettype = None, o_tryseek = None,
        o_truncate = None, o_create = None, o_lookup = Some (\<lambda>n p s. Some (- E_NOENT, None, s))\<rparr>),
      fsops = (\<lambda>_. \<lparr>fs_sync = (\<lambda>s. Some (0, s)), fs_get_root = (\<lambda>s. Some (None, s)), fs_unmount = (\<lambda>s. Some (0, s)),
        fs_cleanup = Some\<rparr>)\<rparr>"

definition demo_file :: "nat \<Rightarrow> ufile" where
  "demo_file i = \<lparr>f_status = (if i < 2 then FD_OPENED else FD_NONE), readable = True, writable = (i = 1), fd_no = int i,
     f_pos = 7, f_node = (if i < 2 then Some 5 else None), fopen_count = (if i < 2 then 1 else 0)\<rparr>"

definition demo_fs :: "unit fsys" where
  "demo_fs =
     \<lparr>um = demo_vm, inodes = (\<lambda>_. \<lparr>in_type = sfs_inode_info, ref_count = 10, open_count = 4, in_fs = Some 0, in_ops = Some 0\<rparr>),
      inode_pool = [], filess = (\<lambda>k. \<lparr>pwd = Some 3, fd_array = map demo_file [0..<FILES_STRUCT_NENTRY],
        files_count = 1, files_sem = 1\<rparr>), files_pool = [2], bootfs_node = None, bootfs_sem = 1, vdev_list = [],
      vdev_list_sem = 1, kmem = [], cur_filesp = Some 1, cur_mm = None, cur_pgdir = 10, cur_pid = Some 1, devs = ()\<rparr>"

theorem dup_files_destroy_roundtrip_witness:
  "\<exists>s s1 s2. files_create demo_fs = (Some 2, s) \<and> dup_files 2 1 s = Some (0, s1) \<and> f_node (file_at (2, 1) s1) = Some 5 \<and>
     files_destroy demo_world 2 s1 = Some s2 \<and> inodes s2 = inodes demo_fs"
proof -
  define s where "s = snd (files_create demo_fs)"
  have new: "files_create demo_fs = (Some 2, s)" by (simp add: s_def files_create_def demo_fs_def)
  have s: "filess s (Suc 0) = filess demo_fs (Suc 0)" "inodes s = inodes demo_fs" by (simp_all add: s_def files_create_def demo_fs_def upd_files_def)
  have at: "file_at (1, i) s = demo_file i" if "i < FILES_STRUCT_NENTRY" for i using that by (simp add: file_at_def s) (simp add: demo_fs_def)
  have ok: "files_ok s 1" using at by (auto simp: files_ok_def entry_ok_def demo_file_def s) (simp add: demo_fs_def)
  have c: "files_count (filess s 1) > 0" by (simp add: s) (simp add: demo_fs_def)
  have r: "\<forall>n. uses s 1 [0..<FILES_STRUCT_NENTRY] n > 0 \<or> pwd (filess s 1) = Some n \<longrightarrow> ref_count (inodes s n) \<ge> 1"
    and o': "\<forall>n. uses s 1 [0..<FILES_STRUCT_NENTRY] n > 0 \<longrightarrow> open_count (inodes s n) \<ge> 1"
    by (simp_all add: s) (simp_all add: demo_fs_def)
  have one: "(1 :: nat) < FILES_STRUCT_NENTRY" by (simp add: FILES_STRUCT_NENTRY_def)
  show ?thesis
    using dup_files_destroy_roundtrip [OF ok c _ new r o', of demo_world] new s(2) at [OF one] one by (force simp: demo_file_def)
qed

theorem open_create_panics_witness:
  "vfs_open demo_world ''new'' (O_RDWR OR O_CREAT) demo_fs = None \<and>
   vfs_open demo_world ''new'' O_RDWR demo_fs = Some (- E_NOENT, None, demo_fs)"
  using open_create_panics [of demo_fs 1 3 "''new''" 0 demo_world "\<lambda>n p s. Some (- E_NOENT, None, s)" "O_RDWR OR O_CREAT"]
    open_create_panics [of demo_fs 1 3 "''new''" 0 demo_world "\<lambda>n p s. Some (- E_NOENT, None, s)" O_RDWR]
  by (simp add: demo_fs_def demo_world_def O_RDWR_def O_CREAT_def O_ACCMODE_def MAX_INODE_COUNT_def)

end
