(* ===== verification/Sysfile.thy ===== *)
theory Sysfile
  imports Files
begin

text \<open>
  The file system calls of \<^verbatim>\<open>kern/fs/sysfile.c\<close>: they check and copy user memory and loop over a
  one-page kernel buffer.  The bytes of a fresh kernel buffer are zeros here; none of them reaches
  the user before an operation of the inode has written it.
\<close>

definition IOBUF_SIZE :: nat where "IOBUF_SIZE = 4096"
definition FS_MAX_FPATH_LEN :: nat where "FS_MAX_FPATH_LEN = 4095"

definition int_of_size :: "64 word \<Rightarrow> int" where "int_of_size n = sint (ucast n :: 32 word)"

definition lock_cur :: "'d fsys \<Rightarrow> 'd fsys option" where
  "lock_cur s = do { v \<leftarrow> lock_mm (cur_mm s) (cur_pid s) (um s); Some (s\<lparr>um := v\<rparr>) }"

definition unlock_cur :: "'d fsys \<Rightarrow> 'd fsys" where
  "unlock_cur s = s\<lparr>um := unlock_mm (cur_mm s) (um s)\<rparr>"

definition to_user :: "64 word \<Rightarrow> 8 word list \<Rightarrow> 'd fsys \<Rightarrow> (bool \<times> 'd fsys) option" where
  "to_user dst bs s = do { (ok, v) \<leftarrow> copy_to_user (cur_mm s) (cur_pgdir s) dst bs (um s); Some (ok, s\<lparr>um := v\<rparr>) }"

definition from_user :: "64 word \<Rightarrow> 64 word \<Rightarrow> bool \<Rightarrow> 'd fsys \<Rightarrow> (8 word list option \<times> 'd fsys) option" where
  "from_user src len wr s =
     do { (r, v) \<leftarrow> copy_from_user (cur_mm s) (cur_pgdir s) src len wr (um s); Some (r, s\<lparr>um := v\<rparr>) }"

definition path_of :: "8 word list \<Rightarrow> string" where
  "path_of bs = map (\<lambda>b. char_of (unat b)) (takeWhile (\<lambda>b. b \<noteq> 0) bs)"

definition copy_path :: "64 word \<Rightarrow> 'd fsys \<Rightarrow> (int \<times> string \<times> 'd fsys) option" where
  "copy_path from s =
     (let (ok, s1) = kmalloc_ok s
      in if \<not> ok then Some (- E_NO_MEM, [], s1)
         else do {
           s2 \<leftarrow> lock_cur s1;
           (r, v) \<leftarrow> copy_string (cur_mm s2) (cur_pgdir s2) from (of_nat (FS_MAX_FPATH_LEN + 1)) (um s2);
           let s3 = unlock_cur (s2\<lparr>um := v\<rparr>);
           Some (case r of None \<Rightarrow> (- E_INVAL, [], s3) | Some bs \<Rightarrow> (0, path_of bs, s3))
         })"

definition sysfile_open :: "'d world \<Rightarrow> 64 word \<Rightarrow> 32 word \<Rightarrow> 'd fsys \<Rightarrow> (int \<times> 'd fsys) option" where
  "sysfile_open W upath fl s =
     do { (ret, path, s1) \<leftarrow> copy_path upath s; if ret \<noteq> 0 then Some (ret, s1) else file_open W path fl s1 }"

definition sysfile_close :: "'d world \<Rightarrow> int \<Rightarrow> 'd fsys \<Rightarrow> (int \<times> 'd fsys) option" where
  "sysfile_close W fd s = file_close W fd s"

partial_function (option) read_loop ::
  "'d world \<Rightarrow> int \<Rightarrow> 8 word list \<Rightarrow> 64 word \<Rightarrow> 64 word \<Rightarrow> 64 word \<Rightarrow> int \<Rightarrow> 'd fsys \<Rightarrow> (int \<times> 64 word \<times> 'd fsys) option" where
  "read_loop W fd buf base len copied ret s =
     (if len \<noteq> 0
      then do {
        let want = (if of_nat IOBUF_SIZE > len then len else of_nat IOBUF_SIZE);
        (r, buf1, alen, s1) \<leftarrow> file_read W fd buf (unat want) s;
        (r1, base1, len1, copied1, s3) \<leftarrow>
          (if alen \<noteq> 0
           then do {
             s2 \<leftarrow> lock_cur s1;
             (ok, s3) \<leftarrow> to_user base (take alen buf1) s2;
             x \<leftarrow> (if ok
                  then do {
                    assertc (len \<ge> of_nat alen);
                    Some (r, base + of_nat alen, len - of_nat alen, copied + of_nat alen)
                  }
                  else Some (if r = 0 then - E_INVAL else r, base, len, copied));
             Some (fst x, fst (snd x), fst (snd (snd x)), snd (snd (snd x)), unlock_cur s3)
           }
           else Some (r, base, len, copied, s1));
        if r1 \<noteq> 0 \<or> alen = 0 then Some (r1, copied1, s3) else read_loop W fd buf1 base1 len1 copied1 r1 s3
      }
      else Some (ret, copied, s))"

definition sysfile_read :: "'d world \<Rightarrow> int \<Rightarrow> 64 word \<Rightarrow> 64 word \<Rightarrow> 'd fsys \<Rightarrow> (int \<times> 'd fsys) option" where
  "sysfile_read W fd base len s =
     (if len = 0 then Some (0, s)
      else do {
        ok \<leftarrow> file_testfd fd True False s;
        if \<not> ok then Some (- E_INVAL, s)
        else
          (let (mem, s1) = kmalloc_ok s
           in if \<not> mem then Some (- E_NO_MEM, s1)
              else do {
                (ret, copied, s2) \<leftarrow> read_loop W fd (replicate IOBUF_SIZE 0) base len 0 0 s1;
                Some (if copied \<noteq> 0 then int_of_size copied else ret, s2)
              })
      })"

partial_function (option) write_loop ::
  "'d world \<Rightarrow> int \<Rightarrow> 64 word \<Rightarrow> 64 word \<Rightarrow> 64 word \<Rightarrow> int \<Rightarrow> 'd fsys \<Rightarrow> (int \<times> 64 word \<times> 'd fsys) option" where
  "write_loop W fd base len copied ret s =
     (if len \<noteq> 0
      then do {
        let want = (if of_nat IOBUF_SIZE > len then len else of_nat IOBUF_SIZE);
        s1 \<leftarrow> lock_cur s;
        (bs, s2) \<leftarrow> from_user base want False s1;
        let s3 = unlock_cur s2;
        (case bs of
           None \<Rightarrow> Some (- E_INVAL, copied, s3)
         | Some buf \<Rightarrow>
             do {
               (r, alen, s4) \<leftarrow> file_write W fd buf (unat want) s3;
               assertc (alen \<noteq> 0 \<longrightarrow> len \<ge> of_nat alen);
               if r \<noteq> 0 \<or> alen = 0 then Some (r, copied + of_nat alen, s4)
               else write_loop W fd (base + of_nat alen) (len - of_nat alen) (copied + of_nat alen) r s4
             })
      }
      else Some (ret, copied, s))"

definition sysfile_write :: "'d world \<Rightarrow> int \<Rightarrow> 64 word \<Rightarrow> 64 word \<Rightarrow> 'd fsys \<Rightarrow> (int \<times> 'd fsys) option" where
  "sysfile_write W fd base len s =
     (if len = 0 then Some (0, s)
      else do {
        ok \<leftarrow> file_testfd fd False True s;
        if \<not> ok then Some (- E_INVAL, s)
        else
          (let (mem, s1) = kmalloc_ok s
           in if \<not> mem then Some (- E_NO_MEM, s1)
              else do {
                (ret, copied, s2) \<leftarrow> write_loop W fd base len 0 0 s1;
                Some (if copied \<noteq> 0 then int_of_size copied else ret, s2)
              })
      })"

definition sysfile_seek :: "'d world \<Rightarrow> int \<Rightarrow> 64 word \<Rightarrow> int \<Rightarrow> 'd fsys \<Rightarrow> (int \<times> 'd fsys) option" where
  "sysfile_seek W fd pos whence s = file_seek W fd pos whence s"

fun le_bytes :: "nat \<Rightarrow> 64 word \<Rightarrow> 8 word list" where
  "le_bytes 0 w = []"
| "le_bytes (Suc n) w = ucast w # le_bytes n (drop_bit 8 w)"

text \<open>\<^verbatim>\<open>struct stat\<close> in memory: the mode, four bytes of padding, three 64-bit fields.\<close>

definition stat_bytes :: "stat \<Rightarrow> 8 word list" where
  "stat_bytes st =
     le_bytes 4 (ucast (st_mode st)) @ replicate 4 0 @ le_bytes 8 (st_nlinks st) @ le_bytes 8 (st_blocks st) @ le_bytes 8 (st_size st)"

definition sysfile_fstat :: "'d world \<Rightarrow> int \<Rightarrow> 64 word \<Rightarrow> 'd fsys \<Rightarrow> (int \<times> 'd fsys) option" where
  "sysfile_fstat W fd ustat s =
     do {
       (ret, sto, s1) \<leftarrow> file_fstat W fd s;
       if ret \<noteq> 0 then Some (ret, s1)
       else do {
         st \<leftarrow> sto;
         s2 \<leftarrow> lock_cur s1;
         (ok, s3) \<leftarrow> to_user ustat (stat_bytes st) s2;
         Some (if ok then 0 else - E_INVAL, unlock_cur s3)
       }
     }"

definition sysfile_fsync :: "'d world \<Rightarrow> int \<Rightarrow> 'd fsys \<Rightarrow> (int \<times> 'd fsys) option" where
  "sysfile_fsync W fd s = file_fsync W fd s"

definition sysfile_chdir :: "'d world \<Rightarrow> 64 word \<Rightarrow> 'd fsys \<Rightarrow> (int \<times> 'd fsys) option" where
  "sysfile_chdir W upath s =
     do { (ret, path, s1) \<leftarrow> copy_path upath s; if ret \<noteq> 0 then Some (ret, s1) else vfs_chdir W path s1 }"

text \<open>\<^verbatim>\<open>vfs_link\<close>, \<^verbatim>\<open>vfs_rename\<close> and \<^verbatim>\<open>vfs_unlink\<close> are not implemented.\<close>

definition vfs_link :: "string \<Rightarrow> string \<Rightarrow> int" where "vfs_link old_path new_path = - E_UNIMP"
definition vfs_rename :: "string \<Rightarrow> string \<Rightarrow> int" where "vfs_rename old_path new_path = - E_UNIMP"
definition vfs_unlink :: "string \<Rightarrow> int" where "vfs_unlink path = - E_UNIMP"

definition sysfile_link :: "64 word \<Rightarrow> 64 word \<Rightarrow> 'd fsys \<Rightarrow> (int \<times> 'd fsys) option" where
  "sysfile_link p1 p2 s =
     do {
       (r1, old_path, s1) \<leftarrow> copy_path p1 s;
       if r1 \<noteq> 0 then Some (r1, s1)
       else do {
         (r2, new_path, s2) \<leftarrow> copy_path p2 s1;
         if r2 \<noteq> 0 then Some (r2, s2) else Some (vfs_link old_path new_path, s2)
       }
     }"

definition sysfile_rename :: "64 word \<Rightarrow> 64 word \<Rightarrow> 'd fsys \<Rightarrow> (int \<times> 'd fsys) option" where
  "sysfile_rename p1 p2 s =
     do {
       (r1, old_path, s1) \<leftarrow> copy_path p1 s;
       if r1 \<noteq> 0 then Some (r1, s1)
       else do {
         (r2, new_path, s2) \<leftarrow> copy_path p2 s1;
         if r2 \<noteq> 0 then Some (r2, s2) else Some (vfs_rename old_path new_path, s2)
       }
     }"

definition sysfile_unlink :: "64 word \<Rightarrow> 'd fsys \<Rightarrow> (int \<times> 'd fsys) option" where
  "sysfile_unlink p s =
     do { (ret, path, s1) \<leftarrow> copy_path p s; if ret \<noteq> 0 then Some (ret, s1) else Some (vfs_unlink path, s1) }"

text \<open>\<^verbatim>\<open>vfs_getcwd\<close> fills user memory directly; here it fills a list whose used part is then stored.\<close>

definition sysfile_getcwd :: "'d world \<Rightarrow> 64 word \<Rightarrow> 64 word \<Rightarrow> 'd fsys \<Rightarrow> (int \<times> 'd fsys) option" where
  "sysfile_getcwd W buf len s =
     (if len = 0 then Some (- E_INVAL, s)
      else do {
        s1 \<leftarrow> lock_cur s;
        (ok, v) \<leftarrow> user_mem_check (cur_mm s1) buf len True (um s1);
        let s2 = s1\<lparr>um := v\<rparr>;
        (ret, s3) \<leftarrow>
          (if ok
           then do {
             (ret, iob, s3) \<leftarrow> vfs_getcwd W (iobuf_init (replicate (unat len) 0) (unat len) 0) s2;
             m \<leftarrow> uwrite_n (cur_pgdir s3) buf (take (iobuf_used iob) (io_mem iob)) (pm (um s3));
             Some (ret, s3\<lparr>um := (um s3)\<lparr>pm := m\<rparr>\<rparr>)
           }
           else Some (- E_INVAL, s2));
        Some (ret, unlock_cur s3)
      })"

definition of_le_bytes :: "8 word list \<Rightarrow> 64 word" where
  "of_le_bytes bs = foldr (\<lambda>b w. push_bit 8 w OR ucast b) bs 0"

definition sysfile_getdirentry :: "'d world \<Rightarrow> int \<Rightarrow> 64 word \<Rightarrow> 'd fsys \<Rightarrow> (int \<times> 'd fsys) option" where
  "sysfile_getdirentry W fd direntp s =
     (let (mem, s0) = kmalloc_ok s
      in if \<not> mem then Some (- E_NO_MEM, s0)
         else do {
           s1 \<leftarrow> lock_cur s0;
           (off, s2) \<leftarrow> from_user direntp 8 True s1;
           let s3 = unlock_cur s2;
           (case off of
              None \<Rightarrow> Some (- E_INVAL, s3)
            | Some bs \<Rightarrow>
                do {
                  (ret, d, s4) \<leftarrow> file_getdirentry W fd \<lparr>d_offset = of_le_bytes bs, d_name = replicate 256 0\<rparr> s3;
                  if ret \<noteq> 0 then Some (ret, s4)
                  else do {
                    s5 \<leftarrow> lock_cur s4;
                    (ok, s6) \<leftarrow> to_user direntp (le_bytes 8 (d_offset d) @ d_name d) s5;
                    Some (if ok then 0 else - E_INVAL, unlock_cur s6)
                  }
                })
         })"

definition sysfile_dup :: "int \<Rightarrow> int \<Rightarrow> 'd fsys \<Rightarrow> (int \<times> 'd fsys) option" where
  "sysfile_dup fd1 fd2 s = file_dup fd1 fd2 s"

definition sysfile_pipe :: int where "sysfile_pipe = - E_UNIMP"
definition sysfile_mkfifo :: int where "sysfile_mkfifo = - E_UNIMP"

end
