(* ===== verification/ProcList.thy ===== *)
theory ProcList
  imports Sched Sysfile
begin

text \<open>
  The processes as a whole: \<^verbatim>\<open>alloc_proc\<close>, names, the list and the tree of all processes, process
  numbers and the hash list of \<^verbatim>\<open>kern/process/proc.c\<close>, with \<^verbatim>\<open>hash32\<close> of \<^verbatim>\<open>libs/hash.c\<close>.  The state adds
  to the kernel's the file layer with the user memory below it, the free process structures and
  the addresses and register values the code takes from the machine.
\<close>

record 'd pkernel = kernel +
  fsx :: "'d fsys"
  proc_pool :: "nat list"
  boot_pgdir :: nat
  bootstack :: "64 word"
  sym_forkret :: "64 word"
  sym_kernel_thread_entry :: "64 word"
  csr_sstatus :: "64 word"

definition PROC_NAME_LEN :: nat where "PROC_NAME_LEN = 15"
definition MAX_PID :: int where "MAX_PID = int MAX_PROCESS * 2"
definition HASH_SHIFT :: nat where "HASH_SHIFT = 10"
definition HASH_LIST_SIZE :: nat where "HASH_LIST_SIZE = 2 ^ HASH_SHIFT"
definition GOLDEN_RATIO_PRIME_32 :: "32 word" where "GOLDEN_RATIO_PRIME_32 = 0x9e370001"

definition hash32 :: "32 word \<Rightarrow> nat \<Rightarrow> 32 word" where
  "hash32 val bits = drop_bit (32 - bits) (val * GOLDEN_RATIO_PRIME_32)"

definition pid_hashfn :: "int \<Rightarrow> nat" where "pid_hashfn x = unat (hash32 (of_int x) HASH_SHIFT)"

definition null_ctx :: ctx where "null_ctx = \<lparr>ctx_ra = 0, ctx_sp = 0, ctx_s = replicate 12 0\<rparr>"

text \<open>The fields \<^verbatim>\<open>alloc_proc\<close> does not set, like \<^verbatim>\<open>exit_code\<close>, keep what the memory held.\<close>

definition alloc_proc :: "'d pkernel \<Rightarrow> nat option \<times> 'd pkernel" where
  "alloc_proc s =
     (case proc_pool s of
        [] \<Rightarrow> (None, s)
      | p # ps \<Rightarrow>
          (let s1 = upd_proc p (\<lambda>g. g\<lparr>p_state := PROC_UNINIT, pid := -1, runs := 0, kstack := 0, need_resched := False,
                 p_parent := None, mm := None, p_context := null_ctx, p_tf := 0, pgdir := boot_pgdir_pa s, p_flags := 0,
                 p_name := [], wait_state := 0, cptr := None, optr := None, yptr := None, on_rq := False,
                 time_slice := 0, lab6_stride := 0, lab6_priority := 0, filesp := None\<rparr>) s
           in (Some p, s1\<lparr>klinks := list_init (RunLink p) (klinks s1), run_pool := skew_heap_init p (run_pool s1),
                          proc_pool := ps\<rparr>)))"

definition kfree_proc :: "nat \<Rightarrow> 'd pkernel \<Rightarrow> 'd pkernel" where
  "kfree_proc p s = s\<lparr>proc_pool := p # proc_pool s\<rparr>"

definition set_proc_name :: "nat \<Rightarrow> string \<Rightarrow> 'z kernel_scheme \<Rightarrow> 'z kernel_scheme" where
  "set_proc_name p name s = upd_proc p (\<lambda>g. g\<lparr>p_name := take PROC_NAME_LEN name\<rparr>) s"

definition get_proc_name :: "nat \<Rightarrow> 'z kernel_scheme \<Rightarrow> string" where
  "get_proc_name p s = take PROC_NAME_LEN (p_name (procs s p))"

section \<open>The list and the tree of processes\<close>

definition set_links :: "nat \<Rightarrow> 'z kernel_scheme \<Rightarrow> 'z kernel_scheme option" where
  "set_links p s =
     do {
       let s1 = s\<lparr>klinks := list_add ProcHead (ProcLink p) (klinks s)\<rparr>;
       let s2 = upd_proc p (\<lambda>g. g\<lparr>yptr := None\<rparr>) s1;
       f \<leftarrow> p_parent (procs s2 p);
       let s3 = upd_proc p (\<lambda>g. g\<lparr>optr := cptr (procs s2 f)\<rparr>) s2;
       let s4 = (case optr (procs s3 p) of None \<Rightarrow> s3 | Some q \<Rightarrow> upd_proc q (\<lambda>g. g\<lparr>yptr := Some p\<rparr>) s3);
       let s5 = upd_proc f (\<lambda>g. g\<lparr>cptr := Some p\<rparr>) s4;
       Some (s5\<lparr>nr_process := nr_process s5 + 1\<rparr>)
     }"

definition remove_links :: "nat \<Rightarrow> 'z kernel_scheme \<Rightarrow> 'z kernel_scheme option" where
  "remove_links p s =
     do {
       let s1 = s\<lparr>klinks := list_del (ProcLink p) (klinks s)\<rparr>;
       let s2 = (case optr (procs s1 p) of
                   None \<Rightarrow> s1 | Some q \<Rightarrow> upd_proc q (\<lambda>g. g\<lparr>yptr := yptr (procs s1 p)\<rparr>) s1);
       s3 \<leftarrow> (case yptr (procs s2 p) of
                Some q \<Rightarrow> Some (upd_proc q (\<lambda>g. g\<lparr>optr := optr (procs s2 p)\<rparr>) s2)
              | None \<Rightarrow> do { f \<leftarrow> p_parent (procs s2 p); Some (upd_proc f (\<lambda>g. g\<lparr>cptr := optr (procs s2 p)\<rparr>) s2) });
       Some (s3\<lparr>nr_process := nr_process s3 - 1\<rparr>)
     }"

definition hash_proc :: "nat \<Rightarrow> 'z kernel_scheme \<Rightarrow> 'z kernel_scheme" where
  "hash_proc p s = s\<lparr>klinks := list_add (HashHead (pid_hashfn (pid (procs s p)))) (HashLink p) (klinks s)\<rparr>"

definition unhash_proc :: "nat \<Rightarrow> 'z kernel_scheme \<Rightarrow> 'z kernel_scheme" where
  "unhash_proc p s = s\<lparr>klinks := list_del (HashLink p) (klinks s)\<rparr>"

partial_function (option) find_proc_loop :: "int \<Rightarrow> knode \<Rightarrow> knode \<Rightarrow> 'z kernel_scheme \<Rightarrow> nat option option" where
  "find_proc_loop i lst le s =
     (let le1 = list_next le (klinks s)
      in if le1 = lst then Some None
         else case le1 of
                HashLink p \<Rightarrow> if pid (procs s p) = i then Some (Some p) else find_proc_loop i lst le1 s
              | _ \<Rightarrow> None)"

definition find_proc :: "int \<Rightarrow> 'z kernel_scheme \<Rightarrow> nat option option" where
  "find_proc i s =
     (if 0 < i \<and> i < MAX_PID
      then find_proc_loop i (HashHead (pid_hashfn i)) (HashHead (pid_hashfn i)) s
      else Some None)"

section \<open>Process numbers\<close>

text \<open>The loop of \<^verbatim>\<open>get_pid\<close> after \<^verbatim>\<open>repeat\<close>, with the two static variables as arguments.\<close>

partial_function (option) pid_scan :: "'z kernel_scheme \<Rightarrow> knode \<Rightarrow> int \<Rightarrow> int \<Rightarrow> (int \<times> int) option" where
  "pid_scan s le lst nxts =
     (case list_next le (klinks s) of
        ProcHead \<Rightarrow> Some (lst, nxts)
      | ProcLink p \<Rightarrow>
          if pid (procs s p) = lst
          then (if lst + 1 \<ge> nxts then pid_scan s ProcHead (if lst + 1 \<ge> MAX_PID then 1 else lst + 1) MAX_PID
                else pid_scan s (ProcLink p) (lst + 1) nxts)
          else if pid (procs s p) > lst \<and> nxts > pid (procs s p) then pid_scan s (ProcLink p) lst (pid (procs s p))
          else pid_scan s (ProcLink p) lst nxts
      | _ \<Rightarrow> None)"

definition get_pid :: "'z kernel_scheme \<Rightarrow> (int \<times> 'z kernel_scheme) option" where
  "get_pid s =
     do {
       let l = last_pid s + 1;
       (i, n) \<leftarrow> (if l \<ge> MAX_PID then pid_scan s ProcHead 1 MAX_PID
                  else if l \<ge> next_safe s then pid_scan s ProcHead l MAX_PID
                  else Some (l, next_safe s));
       Some (i, s\<lparr>last_pid := i, next_safe := n\<rparr>)
     }"

text \<open>The numbers strictly between the two static variables are free, as far as processes \<open>ps\<close> go.\<close>

definition pids_safe :: "'z kernel_scheme \<Rightarrow> nat list \<Rightarrow> bool" where
  "pids_safe s ps \<longleftrightarrow> 1 \<le> last_pid s \<and> last_pid s \<le> MAX_PID \<and> next_safe s \<le> MAX_PID \<and>
     (\<forall>p\<in>set ps. \<not> (last_pid s < pid (procs s p) \<and> pid (procs s p) < next_safe s))"

definition pid_free :: "'z kernel_scheme \<Rightarrow> nat list \<Rightarrow> int \<Rightarrow> bool" where
  "pid_free s ps i \<longleftrightarrow> 1 \<le> i \<and> i < MAX_PID \<and> (\<forall>p\<in>set ps. pid (procs s p) \<noteq> i)"

lemma pid_free_exists:
  assumes "length ps < nat MAX_PID - 1"
  shows "\<exists>i. pid_free s ps i"
proof (rule ccontr)
  assume "\<not> ?thesis"
  then have sub: "{1..<MAX_PID} \<subseteq> (\<lambda>p. pid (procs s p)) ` set ps" by (auto simp: pid_free_def)
  have "card {1..<MAX_PID} \<le> card ((\<lambda>p. pid (procs s p)) ` set ps)" by (rule card_mono [OF _ sub]) simp
  also have "\<dots> \<le> length ps" by (rule order_trans [OF card_image_le card_length]) simp
  finally show False using assms by (simp add: nat_diff_distrib' MAX_PID_def MAX_PROCESS_def)
qed

lemma dpath_nxt_last: "dpath h a us b \<Longrightarrow> nxt h (last (a # us)) = b"
  by (induction us arbitrary: a) auto

text \<open>How many more starts of the scan there can be: it does not pass a free number.\<close>

definition pid_rest :: "'z kernel_scheme \<Rightarrow> nat list \<Rightarrow> int \<Rightarrow> nat" where
  "pid_rest s ps l = (if \<exists>i. pid_free s ps i \<and> l \<le> i then nat (MAX_PID - l) else nat (2 * MAX_PID - l))"

lemma pid_rest_step:
  assumes "\<not> pid_free s ps l" "1 \<le> l" "l < MAX_PID"
  shows "pid_rest s ps (l + 1) < pid_rest s ps l"
proof -
  have "(\<exists>i. pid_free s ps i \<and> l + 1 \<le> i) \<longleftrightarrow> (\<exists>i. pid_free s ps i \<and> l \<le> i)"
    using assms(1) by (metis add_le_imp_le_left order_le_less zless_add1_eq zle_add1_eq_le not_le less_le_trans less_add_one order_trans)
  then show ?thesis using assms(2,3) by (auto simp: pid_rest_def)
qed

lemma pid_rest_wrap:
  assumes "\<not> pid_free s ps l" "MAX_PID \<le> l + 1" "l < MAX_PID" "\<exists>i. pid_free s ps i"
  shows "pid_rest s ps 1 < pid_rest s ps l"
proof -
  have "\<not> (\<exists>i. pid_free s ps i \<and> l \<le> i)"
  proof
    assume "\<exists>i. pid_free s ps i \<and> l \<le> i"
    then obtain i where i: "pid_free s ps i" "l \<le> i" by blast
    then have "i = l" using assms(2,3) by (simp add: pid_free_def)
    then show False using i assms(1) by simp
  qed
  moreover have "\<exists>i. pid_free s ps i \<and> 1 \<le> i" using assms(4) by (auto simp: pid_free_def)
  ultimately show ?thesis using assms(3) by (auto simp: pid_rest_def MAX_PID_def MAX_PROCESS_def)
qed

lemma pid_scan_correct:
  assumes d: "dlist (klinks s) ProcHead (map ProcLink ps)" and free: "\<exists>i. pid_free s ps i"
    and j: "ps = zs @ xs" "1 \<le> l" "l < n" "n \<le> MAX_PID" "\<forall>p\<in>set zs. pid (procs s p) < l \<or> n \<le> pid (procs s p)"
  shows "\<exists>i m. pid_scan s (last (ProcHead # map ProcLink zs)) l n = Some (i, m) \<and> pid_free s ps i \<and> m \<le> MAX_PID \<and>
    (\<forall>p\<in>set ps. \<not> (i < pid (procs s p) \<and> pid (procs s p) < m))"
  using j
proof (induction "pid_rest s ps l * Suc (length ps) + length xs" arbitrary: zs xs l n rule: less_induct)
  case less
  have dp: "dpath (klinks s) ProcHead (map ProcLink zs @ map ProcLink xs) ProcHead" using d less.prems(1) by (simp add: dlist_def)
  show ?case
  proof (cases xs)
    case Nil
    then have "list_next (last (ProcHead # map ProcLink zs)) (klinks s) = ProcHead"
      using dpath_nxt_last [of "klinks s" ProcHead "map ProcLink zs" ProcHead] dp by (simp add: list_next_def)
    then have "pid_scan s (last (ProcHead # map ProcLink zs)) l n = Some (l, n)" by (subst pid_scan.simps) simp
    moreover have "pid_free s ps l" using less.prems Nil by (auto simp: pid_free_def)
    ultimately show ?thesis using less.prems Nil by (auto intro!: exI [of _ l] exI [of _ n])
  next
    case (Cons p ys)
    have nx: "list_next (last (ProcHead # map ProcLink zs)) (klinks s) = ProcLink p"
      using dpath_nxt_last [of "klinks s" ProcHead "map ProcLink zs" "ProcLink p"] dp Cons by (simp add: list_next_def)
    have lst: "last (ProcHead # map ProcLink (zs @ [p])) = ProcLink p" by simp
    have ps: "ps = (zs @ [p]) @ ys" using less.prems(1) Cons by simp
    have shorter: "pid_rest s ps l * Suc (length ps) + length ys < pid_rest s ps l * Suc (length ps) + length xs" using Cons by simp
    note step = pid_scan.simps [of s "last (ProcHead # map ProcLink zs)" l n, unfolded nx]
    let ?p = "pid (procs s p)"
    consider (hit) "?p = l" "l + 1 < n" | (again) "?p = l" "n \<le> l + 1" | (near) "l < ?p" "?p < n" | (far) "?p < l \<or> n \<le> ?p"
      by linarith
    then show ?thesis
    proof cases
      case hit
      have nf: "\<not> pid_free s ps l" using hit ps by (auto simp: pid_free_def)
      have "pid_rest s ps (l + 1) < pid_rest s ps l" by (rule pid_rest_step [OF nf]) (use less.prems hit in auto)
      then have "pid_rest s ps (l + 1) * Suc (length ps) + length ys < pid_rest s ps l * Suc (length ps) + length xs"
        by (intro add_le_less_mono mult_le_mono1) (simp_all add: Cons)
      then have "\<exists>i m. pid_scan s (last (ProcHead # map ProcLink (zs @ [p]))) (l + 1) n = Some (i, m) \<and> pid_free s ps i \<and> m \<le> MAX_PID \<and>
        (\<forall>p\<in>set ps. \<not> (i < pid (procs s p) \<and> pid (procs s p) < m))"
        by (rule less.hyps [OF _ ps]) (use less.prems hit in auto)
      then show ?thesis using step hit unfolding lst by simp
    next
      case again
      have nf: "\<not> pid_free s ps l" using again ps by (auto simp: pid_free_def)
      let ?l = "if l + 1 \<ge> MAX_PID then 1 else l + 1"
      have "pid_rest s ps ?l < pid_rest s ps l"
        using pid_rest_step [OF nf] pid_rest_wrap [OF nf _ _ free] less.prems by auto
      then have "Suc (pid_rest s ps ?l) * Suc (length ps) \<le> pid_rest s ps l * Suc (length ps)" by (intro mult_le_mono1) simp
      then have "pid_rest s ps ?l * Suc (length ps) + length ps < pid_rest s ps l * Suc (length ps) + length xs" by simp
      moreover have "?l < MAX_PID" "1 \<le> ?l" using less.prems by (auto simp: MAX_PID_def MAX_PROCESS_def)
      ultimately have "\<exists>i m. pid_scan s (last (ProcHead # map ProcLink [])) ?l MAX_PID = Some (i, m) \<and> pid_free s ps i \<and> m \<le> MAX_PID \<and>
        (\<forall>p\<in>set ps. \<not> (i < pid (procs s p) \<and> pid (procs s p) < m))"
        by (intro less.hyps [of ?l ps "[]" MAX_PID]) simp_all
      moreover have "pid_scan s (last (ProcHead # map ProcLink zs)) l n = pid_scan s ProcHead ?l MAX_PID"
        using step again by simp
      ultimately show ?thesis by simp
    next
      case near
      have "\<exists>i m. pid_scan s (last (ProcHead # map ProcLink (zs @ [p]))) l ?p = Some (i, m) \<and> pid_free s ps i \<and> m \<le> MAX_PID \<and>
        (\<forall>p\<in>set ps. \<not> (i < pid (procs s p) \<and> pid (procs s p) < m))"
        by (rule less.hyps [OF shorter ps]) (use less.prems near in auto)
      then show ?thesis using step near unfolding lst by simp
    next
      case far
      have "\<exists>i m. pid_scan s (last (ProcHead # map ProcLink (zs @ [p]))) l n = Some (i, m) \<and> pid_free s ps i \<and> m \<le> MAX_PID \<and>
        (\<forall>p\<in>set ps. \<not> (i < pid (procs s p) \<and> pid (procs s p) < m))"
        by (rule less.hyps [OF shorter ps]) (use less.prems far in auto)
      moreover have "?p \<noteq> l" using far less.prems by auto
      ultimately show ?thesis using step far unfolding lst by auto
    qed
  qed
qed


text \<open>
  C28: \<^verbatim>\<open>get_pid\<close> ends, whatever jumps back to \<^verbatim>\<open>repeat\<close> it takes, and returns a number between 1 and
  MAX_PID that no process on the list has, provided one is left; the window between its two static
  variables is free again afterwards, also with the new process on the list.
\<close>

theorem get_pid_unique:
  assumes d: "dlist (klinks s) ProcHead (map ProcLink ps)" and len: "length ps < nat MAX_PID - 1" and safe: "pids_safe s ps"
  shows "\<exists>i s'. get_pid s = Some (i, s') \<and> 1 \<le> i \<and> i < MAX_PID \<and> (\<forall>p\<in>set ps. pid (procs s p) \<noteq> i) \<and>
    s' = s\<lparr>last_pid := i, next_safe := next_safe s'\<rparr> \<and>
    (\<forall>p. p \<notin> set ps \<longrightarrow> pids_safe (upd_proc p (\<lambda>g. g\<lparr>pid := i\<rparr>) s') (p # ps))"
proof -
  note free = pid_free_exists [OF len, of s]
  let ?l = "last_pid s + 1"
  have scan: "\<exists>i m. pid_scan s ProcHead l MAX_PID = Some (i, m) \<and> pid_free s ps i \<and> m \<le> MAX_PID \<and>
    (\<forall>p\<in>set ps. \<not> (i < pid (procs s p) \<and> pid (procs s p) < m))" if "1 \<le> l" "l < MAX_PID" for l
    using pid_scan_correct [OF d free, of "[]" ps l MAX_PID] that by simp
  have "\<exists>i m. (if ?l \<ge> MAX_PID then pid_scan s ProcHead 1 MAX_PID else if ?l \<ge> next_safe s then pid_scan s ProcHead ?l MAX_PID
      else Some (?l, next_safe s)) = Some (i, m) \<and> pid_free s ps i \<and> m \<le> MAX_PID \<and>
      (\<forall>p\<in>set ps. \<not> (i < pid (procs s p) \<and> pid (procs s p) < m))"
  proof (cases "?l \<ge> MAX_PID \<or> ?l \<ge> next_safe s")
    case True
    then show ?thesis using scan [of 1] scan [of ?l] safe by (auto simp: pids_safe_def MAX_PID_def MAX_PROCESS_def)
  next
    case False
    then have "pid_free s ps ?l" using safe by (auto simp: pids_safe_def pid_free_def)
    moreover have "\<forall>p\<in>set ps. \<not> (?l < pid (procs s p) \<and> pid (procs s p) < next_safe s)"
      using safe by (auto simp: pids_safe_def)
    ultimately show ?thesis using False safe by (auto simp: pids_safe_def)
  qed
  then obtain i m where im: "get_pid s = Some (i, s\<lparr>last_pid := i, next_safe := m\<rparr>)" "pid_free s ps i" "m \<le> MAX_PID"
    "\<forall>p\<in>set ps. \<not> (i < pid (procs s p) \<and> pid (procs s p) < m)"
    by (auto simp: get_pid_def)
  have "pids_safe (upd_proc p (\<lambda>g. g\<lparr>pid := i\<rparr>) (s\<lparr>last_pid := i, next_safe := m\<rparr>)) (p # ps)" if "p \<notin> set ps" for p
    using im that by (auto simp: pids_safe_def pid_free_def)
  then show ?thesis using im by (intro exI [of _ i] exI [of _ "s\<lparr>last_pid := i, next_safe := m\<rparr>"]) (auto simp: pid_free_def)
qed

text \<open>A kernel with three processes, the last number handed out being 2 and number 3 taken.\<close>

definition demo_links :: "knode links" where
  "demo_links =
     \<lparr>prv = (\<lambda>n. if n = ProcHead then ProcLink 2 else if n = ProcLink 2 then ProcLink 1 else if n = ProcLink 1 then ProcLink 0 else ProcHead),
      nxt = (\<lambda>n. if n = ProcHead then ProcLink 0 else if n = ProcLink 0 then ProcLink 1 else if n = ProcLink 1 then ProcLink 2 else ProcHead)\<rparr>"

definition demo_pids :: "kernel \<Rightarrow> kernel" where
  "demo_pids k = upd_proc 0 (\<lambda>g. g\<lparr>pid := 1\<rparr>) (upd_proc 1 (\<lambda>g. g\<lparr>pid := 3\<rparr>) (upd_proc 2 (\<lambda>g. g\<lparr>pid := 2\<rparr>)
     (k\<lparr>klinks := demo_links, last_pid := 2, next_safe := 3\<rparr>)))"

theorem get_pid_unique_witness:
  "\<forall>k. \<exists>i s'. get_pid (demo_pids k) = Some (i, s') \<and> i \<notin> {1, 2, 3} \<and> 1 \<le> i"
proof
  fix k
  let ?s = "demo_pids k"
  have l: "klinks ?s = demo_links" by (simp add: demo_pids_def)
  have p: "pid (procs ?s 0) = 1" "pid (procs ?s 1) = 3" "pid (procs ?s 2) = 2" by (simp_all add: demo_pids_def)
  have "dlist (klinks ?s) ProcHead (map ProcLink [0, 1, 2])" by (simp add: l dlist_def) (simp add: demo_links_def)
  moreover have "pids_safe ?s [0, 1, 2]" using p by (simp add: pids_safe_def) (simp add: demo_pids_def MAX_PID_def MAX_PROCESS_def)
  ultimately show "\<exists>i s'. get_pid ?s = Some (i, s') \<and> i \<notin> {1, 2, 3} \<and> 1 \<le> i"
    using get_pid_unique [of ?s "[0, 1, 2]"] p by (auto simp: MAX_PID_def MAX_PROCESS_def)
qed

end
