(* ===== verification/Proc.thy ===== *)
theory Proc
  imports ProcList RoundRobin
begin

text \<open>
  The life of a process, \<^verbatim>\<open>kern/process/proc.c\<close>: \<^verbatim>\<open>do_fork\<close>, \<^verbatim>\<open>do_exit\<close>, \<^verbatim>\<open>do_wait\<close>, \<^verbatim>\<open>do_kill\<close>,
  \<^verbatim>\<open>do_yield\<close>, \<^verbatim>\<open>do_sleep\<close>.  A function that calls \<^verbatim>\<open>schedule\<close> in its middle is cut there into the part
  before and the part after.
\<close>

section \<open>Kernel addresses, memory and files of the current process\<close>

definition page2kva :: "nat \<Rightarrow> pmem \<Rightarrow> 64 word option" where
  "page2kva p m = do { assertc (p < npage m); Some (push_bit 12 (of_nat p) + PHYSICAL_MEMORY_OFFSET) }"

definition kva2page :: "64 word \<Rightarrow> pmem \<Rightarrow> nat option" where
  "kva2page a m = do { assertc (KERNBASE \<le> a); pa2page (a - PHYSICAL_MEMORY_OFFSET) m }"

text \<open>\<^verbatim>\<open>PADDR(mm->pgdir)\<close>.\<close>

definition paddr :: "nat \<Rightarrow> 64 word" where "paddr pg = push_bit 12 (of_nat pg)"

definition get_vm :: "'d pkernel \<Rightarrow> vm" where "get_vm s = um (fsx s)"
definition set_vm :: "vm \<Rightarrow> 'd pkernel \<Rightarrow> 'd pkernel" where "set_vm v s = s\<lparr>fsx := (fsx s)\<lparr>um := v\<rparr>\<rparr>"
definition get_pm :: "'d pkernel \<Rightarrow> pmem" where "get_pm s = pm (get_vm s)"
definition set_pm :: "pmem \<Rightarrow> 'd pkernel \<Rightarrow> 'd pkernel" where "set_pm m s = set_vm ((get_vm s)\<lparr>pm := m\<rparr>) s"

definition setup_kstack :: "nat \<Rightarrow> 'd pkernel \<Rightarrow> (int \<times> 'd pkernel) option" where
  "setup_kstack p s =
     (case alloc_pages KSTACKPAGE (get_pm s) of
        (None, m) \<Rightarrow> Some (- E_NO_MEM, set_pm m s)
      | (Some pg, m) \<Rightarrow>
          do { a \<leftarrow> page2kva pg m; Some (0, upd_proc p (\<lambda>g. g\<lparr>kstack := a\<rparr>) (set_pm m s)) })"

definition put_kstack :: "nat \<Rightarrow> 'd pkernel \<Rightarrow> 'd pkernel option" where
  "put_kstack p s =
     do { pg \<leftarrow> kva2page (kstack (procs s p)) (get_pm s); Some (set_pm (free_pages pg KSTACKPAGE (get_pm s)) s) }"

definition setup_pgdir :: "nat \<Rightarrow> 'd pkernel \<Rightarrow> int \<times> 'd pkernel" where
  "setup_pgdir k s =
     (case alloc_page (get_pm s) of
        (None, m) \<Rightarrow> (- E_NO_MEM, set_pm m s)
      | (Some pg, m) \<Rightarrow>
          (let s1 = set_pm (copy_frame pg (boot_pgdir s) m) s
           in (0, set_vm (upd_mm k (\<lambda>x. x\<lparr>mm_pgdir := pg\<rparr>) (get_vm s1)) s1)))"

definition put_pgdir :: "nat \<Rightarrow> 'd pkernel \<Rightarrow> 'd pkernel" where
  "put_pgdir k s = set_pm (free_page (mm_pgdir (mms (get_vm s) k)) (get_pm s)) s"

section \<open>fork\<close>

definition CLONE_VM :: "32 word" where "CLONE_VM = 0x100"
definition CLONE_FS :: "32 word" where "CLONE_FS = 0x800"

text \<open>What all error paths that give up an address space do.\<close>

definition drop_mm :: "nat \<Rightarrow> 'd pkernel \<Rightarrow> 'd pkernel option" where
  "drop_mm k s =
     do {
       v \<leftarrow> exit_mmap k (get_vm s);
       let s1 = put_pgdir k (set_vm v s);
       v1 \<leftarrow> mm_destroy k (get_vm s1);
       Some (set_vm v1 s1)
     }"

definition copy_mm :: "32 word \<Rightarrow> nat \<Rightarrow> 'd pkernel \<Rightarrow> (int \<times> 'd pkernel) option" where
  "copy_mm fl p s =
     do {
       c \<leftarrow> current s;
       let good = (\<lambda>k s. let s1 = set_vm (mm_count_inc k (get_vm s)) s
                        in Some (0, upd_proc p (\<lambda>g. g\<lparr>mm := Some k, pgdir := paddr (mm_pgdir (mms (get_vm s1) k))\<rparr>) s1));
       (case mm (procs s c) of
          None \<Rightarrow> Some (0, s)
        | Some old \<Rightarrow>
            if fl AND CLONE_VM \<noteq> 0 then good old s
            else case mm_create (get_vm s) of
                   (None, v) \<Rightarrow> Some (- E_NO_MEM, set_vm v s)
                 | (Some k, v) \<Rightarrow>
                     (let (r, s1) = setup_pgdir k (set_vm v s)
                      in if r \<noteq> 0 then do { v1 \<leftarrow> mm_destroy k (get_vm s1); Some (- E_NO_MEM, set_vm v1 s1) }
                         else do {
                           v1 \<leftarrow> lock_mm (Some old) (Some (pid (procs s1 c))) (get_vm s1);
                           (ret, v2) \<leftarrow> dup_mmap k old v1;
                           let s2 = set_vm (unlock_mm (Some old) v2) s1;
                           if ret \<noteq> 0 then do { s3 \<leftarrow> drop_mm k s2; Some (ret, s3) } else good k s2
                         }))
     }"

definition TRAPFRAME_SIZE :: "64 word" where "TRAPFRAME_SIZE = 36 * 8"
definition REG_SP :: nat where "REG_SP = 2"
definition REG_S0 :: nat where "REG_S0 = 8"
definition REG_S1 :: nat where "REG_S1 = 9"
definition REG_A0 :: nat where "REG_A0 = 10"

definition copy_thread :: "nat \<Rightarrow> 64 word \<Rightarrow> trapframe \<Rightarrow> 'd pkernel \<Rightarrow> 'd pkernel" where
  "copy_thread p esp tf s =
     (let a = kstack (procs s p) + KSTACKSIZE - TRAPFRAME_SIZE;
          t1 = tf\<lparr>gpr := (gpr tf)(REG_A0 := 0)\<rparr>;
          t2 = t1\<lparr>gpr := (gpr t1)(REG_SP := (if esp = 0 then a else esp))\<rparr>;
          s1 = s\<lparr>tframes := (tframes s)(a := t2)\<rparr>
      in upd_proc p (\<lambda>g. g\<lparr>p_tf := a, p_context := (p_context g)\<lparr>ctx_ra := sym_forkret s, ctx_sp := a\<rparr>\<rparr>) s1)"

definition copy_files :: "'d world \<Rightarrow> 32 word \<Rightarrow> nat \<Rightarrow> 'd pkernel \<Rightarrow> (int \<times> 'd pkernel) option" where
  "copy_files W fl p s =
     do {
       c \<leftarrow> current s;
       old \<leftarrow> filesp (procs s c);
       let good = (\<lambda>k s. Some (0, upd_proc p (\<lambda>g. g\<lparr>filesp := Some k\<rparr>) (s\<lparr>fsx := files_count_inc k (fsx s)\<rparr>)));
       if fl AND CLONE_FS \<noteq> 0 then good old s
       else case files_create (fsx s) of
              (None, f) \<Rightarrow> Some (- E_NO_MEM, s\<lparr>fsx := f\<rparr>)
            | (Some k, f) \<Rightarrow>
                do {
                  (ret, f1) \<leftarrow> dup_files k old f;
                  if ret \<noteq> 0 then do { f2 \<leftarrow> files_destroy W k f1; Some (ret, s\<lparr>fsx := f2\<rparr>) }
                  else good k (s\<lparr>fsx := f1\<rparr>)
                }
     }"

definition put_files :: "'d world \<Rightarrow> nat \<Rightarrow> 'd pkernel \<Rightarrow> 'd pkernel option" where
  "put_files W p s =
     (case filesp (procs s p) of
        None \<Rightarrow> Some s
      | Some k \<Rightarrow>
          (let f = files_count_dec k (fsx s)
           in if files_count (filess f k) = 0 then do { f1 \<leftarrow> files_destroy W k f; Some (s\<lparr>fsx := f1\<rparr>) }
              else Some (s\<lparr>fsx := f\<rparr>)))"

text \<open>The label \<^verbatim>\<open>bad_fork_cleanup_fs\<close> is never jumped to.\<close>

definition do_fork ::
  "'d pkernel sched_class \<Rightarrow> 'd world \<Rightarrow> 32 word \<Rightarrow> 64 word \<Rightarrow> trapframe \<Rightarrow> 'd pkernel \<Rightarrow> (int \<times> 'd pkernel) option" where
  "do_fork cls W fl stack tf s =
     (if nr_process s \<ge> int MAX_PROCESS then Some (- E_NO_FREE_PROC, s)
      else case alloc_proc s of
             (None, s1) \<Rightarrow> Some (- E_NO_MEM, s1)
           | (Some p, s0) \<Rightarrow>
               do {
                 c \<leftarrow> current s0;
                 let s1 = upd_proc p (\<lambda>g. g\<lparr>p_parent := Some c\<rparr>) s0;
                 assertc (wait_state (procs s1 c) = 0);
                 (r1, s2) \<leftarrow> setup_kstack p s1;
                 if r1 \<noteq> 0 then Some (- E_NO_MEM, kfree_proc p s2)
                 else do {
                   (r2, s3) \<leftarrow> copy_mm fl p s2;
                   if r2 \<noteq> 0 then do { s4 \<leftarrow> put_kstack p s3; Some (- E_NO_MEM, kfree_proc p s4) }
                   else do {
                     (r3, s4) \<leftarrow> copy_files W fl p s3;
                     if r3 \<noteq> 0 then do { s5 \<leftarrow> put_kstack p s4; Some (- E_NO_MEM, kfree_proc p s5) }
                     else do {
                       let s5 = copy_thread p stack tf s4;
                       (i, s6) \<leftarrow> get_pid s5;
                       let s7 = hash_proc p (upd_proc p (\<lambda>g. g\<lparr>pid := i\<rparr>) s6);
                       s8 \<leftarrow> set_links p s7;
                       s9 \<leftarrow> wakeup_proc cls p s8;
                       Some (pid (procs s9 p), s9)
                     }
                   }
                 }
               })"

definition SSTATUS_SIE :: "64 word" where "SSTATUS_SIE = 2"
definition SSTATUS_SPIE :: "64 word" where "SSTATUS_SPIE = 0x20"
definition SSTATUS_SPP :: "64 word" where "SSTATUS_SPP = 0x100"

definition kernel_thread ::
  "'d pkernel sched_class \<Rightarrow> 'd world \<Rightarrow> 64 word \<Rightarrow> 64 word \<Rightarrow> 32 word \<Rightarrow> 'd pkernel \<Rightarrow> (int \<times> 'd pkernel) option" where
  "kernel_thread cls W fn arg fl s =
     (let tf = \<lparr>gpr = (\<lambda>_. 0)(REG_S0 := fn, REG_S1 := arg),
                tf_status = (csr_sstatus s OR SSTATUS_SPP OR SSTATUS_SPIE) AND NOT SSTATUS_SIE,
                tf_epc = sym_kernel_thread_entry s, tf_tval = 0, tf_cause = 0\<rparr>
      in do_fork cls W (fl OR CLONE_VM) 0 tf s)"

section \<open>exit\<close>

text \<open>The loop that hands the children to \<^verbatim>\<open>initproc\<close>, with the relinking of one child on its own.\<close>

definition hand_over :: "nat \<Rightarrow> nat \<Rightarrow> nat \<Rightarrow> 'z kernel_scheme \<Rightarrow> 'z kernel_scheme" where
  "hand_over c n p s =
     (let s1 = upd_proc c (\<lambda>g. g\<lparr>cptr := optr (procs s p)\<rparr>) s;
          s2 = upd_proc p (\<lambda>g. g\<lparr>yptr := None\<rparr>) s1;
          s3 = upd_proc p (\<lambda>g. g\<lparr>optr := cptr (procs s2 n)\<rparr>) s2;
          s4 = (case optr (procs s3 p) of
                  None \<Rightarrow> s3
                | Some _ \<Rightarrow> (case cptr (procs s3 n) of None \<Rightarrow> s3 | Some q \<Rightarrow> upd_proc q (\<lambda>g. g\<lparr>yptr := Some p\<rparr>) s3));
          s5 = upd_proc p (\<lambda>g. g\<lparr>p_parent := Some n\<rparr>) s4
      in upd_proc n (\<lambda>g. g\<lparr>cptr := Some p\<rparr>) s5)"

partial_function (option) reparent :: "'z kernel_scheme sched_class \<Rightarrow> nat \<Rightarrow> 'z kernel_scheme \<Rightarrow> 'z kernel_scheme option" where
  "reparent cls c s =
     (case cptr (procs s c) of
        None \<Rightarrow> Some s
      | Some p \<Rightarrow>
          do {
            n \<leftarrow> initproc s;
            let s1 = hand_over c n p s;
            s2 \<leftarrow> (if p_state (procs s1 p) = PROC_ZOMBIE \<and> wait_state (procs s1 n) = WT_CHILD
                   then wakeup_proc cls n s1 else Some s1);
            reparent cls c s2
          })"

definition release_mm :: "nat \<Rightarrow> nat \<Rightarrow> 'd pkernel \<Rightarrow> 'd pkernel option" where
  "release_mm c k s =
     do {
       let s1 = lsatp (boot_pgdir_pa s) s;
       let s2 = set_vm (mm_count_dec k (get_vm s1)) s1;
       s3 \<leftarrow> (if mm_count (mms (get_vm s2) k) = 0 then drop_mm k s2 else Some s2);
       Some (upd_proc c (\<lambda>g. g\<lparr>mm := None\<rparr>) s3)
     }"

definition do_exit :: "'d pkernel sched_class \<Rightarrow> 'd world \<Rightarrow> int \<Rightarrow> 'd pkernel \<Rightarrow> 'd pkernel option" where
  "do_exit cls W code s =
     do {
       assertc (current s \<noteq> idleproc s);
       assertc (current s \<noteq> initproc s);
       c \<leftarrow> current s;
       s1 \<leftarrow> (case mm (procs s c) of
                None \<Rightarrow> Some s
              | Some k \<Rightarrow> do { s1 \<leftarrow> release_mm c k s; put_files W c s1 });
       let s2 = upd_proc c (\<lambda>g. g\<lparr>p_state := PROC_ZOMBIE, exit_code := code\<rparr>) s1;
       f \<leftarrow> p_parent (procs s2 c);
       s3 \<leftarrow> (if wait_state (procs s2 f) = WT_CHILD then wakeup_proc cls f s2 else Some s2);
       s4 \<leftarrow> reparent cls c s3;
       schedule cls s4
     }"

section \<open>yield, kill, wait, sleep\<close>

definition do_yield :: "'z kernel_scheme \<Rightarrow> (int \<times> 'z kernel_scheme) option" where
  "do_yield s = do { c \<leftarrow> current s; Some (0, upd_proc c (\<lambda>g. g\<lparr>need_resched := True\<rparr>) s) }"

definition do_kill :: "'z kernel_scheme sched_class \<Rightarrow> int \<Rightarrow> 'z kernel_scheme \<Rightarrow> (int \<times> 'z kernel_scheme) option" where
  "do_kill cls i s =
     do {
       found \<leftarrow> find_proc i s;
       (case found of
          None \<Rightarrow> Some (- E_INVAL, s)
        | Some p \<Rightarrow>
            if p_flags (procs s p) AND PF_EXITING = 0
            then do {
              let s1 = upd_proc p (\<lambda>g. g\<lparr>p_flags := p_flags g OR PF_EXITING\<rparr>) s;
              s2 \<leftarrow> (if wait_state (procs s1 p) AND WT_INTERRUPTED \<noteq> 0 then wakeup_proc cls p s1 else Some s1);
              Some (0, s2)
            }
            else Some (- E_KILLED, s))
     }"

text \<open>The walk over the children: the first zombie, and whether there is a child at all.\<close>

partial_function (option) zombie_child :: "nat option \<Rightarrow> bool \<Rightarrow> 'z kernel_scheme \<Rightarrow> (nat option \<times> bool) option" where
  "zombie_child po haskid s =
     (case po of
        None \<Rightarrow> Some (None, haskid)
      | Some p \<Rightarrow> if p_state (procs s p) = PROC_ZOMBIE then Some (Some p, True)
                  else zombie_child (optr (procs s p)) True s)"

definition wait_search :: "int \<Rightarrow> 'z kernel_scheme \<Rightarrow> (nat option \<times> bool) option" where
  "wait_search i s =
     do {
       c \<leftarrow> current s;
       if i \<noteq> 0
       then do {
         found \<leftarrow> find_proc i s;
         Some (case found of
                 None \<Rightarrow> (None, False)
               | Some p \<Rightarrow> if p_parent (procs s p) = Some c
                           then (if p_state (procs s p) = PROC_ZOMBIE then (Some p, True) else (None, True))
                           else (None, False))
       }
       else zombie_child (cptr (procs s c)) False s
     }"

definition le32 :: "int \<Rightarrow> 8 word list" where
  "le32 x = map (\<lambda>k. ucast (drop_bit (8 * k) (of_int x :: 32 word))) [0..<4]"

text \<open>
  The store goes through the page table of the current process: \<^verbatim>\<open>user_mem_check\<close> has found the address
  writable for it.  No kernel thread passes an address.
\<close>

definition store_code :: "64 word \<Rightarrow> int \<Rightarrow> 'd pkernel \<Rightarrow> 'd pkernel option" where
  "store_code addr code s =
     do {
       c \<leftarrow> current s;
       k \<leftarrow> mm (procs s c);
       m \<leftarrow> uwrite_n (mm_pgdir (mms (get_vm s) k)) addr (le32 code) (get_pm s);
       Some (set_pm m s)
     }"

definition reap :: "nat \<Rightarrow> 64 word \<Rightarrow> 'd pkernel \<Rightarrow> 'd pkernel option" where
  "reap p code_store s =
     do {
       assertc (Some p \<noteq> idleproc s \<and> Some p \<noteq> initproc s);
       s1 \<leftarrow> (if code_store \<noteq> 0 then store_code code_store (exit_code (procs s p)) s else Some s);
       s2 \<leftarrow> remove_links p (unhash_proc p s1);
       s3 \<leftarrow> put_kstack p s2;
       Some (kfree_proc p s3)
     }"

text \<open>One round from \<^verbatim>\<open>repeat\<close>: \<open>Some r\<close> is the result, \<open>None\<close> inside says that the process now sleeps.\<close>

definition wait_round ::
  "'d pkernel sched_class \<Rightarrow> int \<Rightarrow> 64 word \<Rightarrow> 'd pkernel \<Rightarrow> (int option \<times> 'd pkernel) option" where
  "wait_round cls i code_store s =
     do {
       (zombie, haskid) \<leftarrow> wait_search i s;
       (case zombie of
          Some p \<Rightarrow> do { s1 \<leftarrow> reap p code_store s; Some (Some 0, s1) }
        | None \<Rightarrow>
            if haskid
            then do {
              c \<leftarrow> current s;
              s1 \<leftarrow> schedule cls (upd_proc c (\<lambda>g. g\<lparr>p_state := PROC_SLEEPING, wait_state := WT_CHILD\<rparr>) s);
              Some (None, s1)
            }
            else Some (Some (- E_BAD_PROC), s))
     }"

definition do_wait ::
  "'d pkernel sched_class \<Rightarrow> int \<Rightarrow> 64 word \<Rightarrow> 'd pkernel \<Rightarrow> (int option \<times> 'd pkernel) option" where
  "do_wait cls i code_store s =
     do {
       c \<leftarrow> current s;
       (ok, s1) \<leftarrow>
         (if code_store \<noteq> 0
          then do { (ok, v) \<leftarrow> user_mem_check (mm (procs s c)) code_store 4 True (get_vm s); Some (ok, set_vm v s) }
          else Some (True, s));
       if \<not> ok then Some (Some (- E_INVAL), s1) else wait_round cls i code_store s1
     }"

definition do_wait_resume ::
  "'d pkernel sched_class \<Rightarrow> 'd world \<Rightarrow> int \<Rightarrow> 64 word \<Rightarrow> 'd pkernel \<Rightarrow> (int option \<times> 'd pkernel) option" where
  "do_wait_resume cls W i code_store s =
     do {
       c \<leftarrow> current s;
       if p_flags (procs s c) AND PF_EXITING \<noteq> 0
       then do { s1 \<leftarrow> do_exit cls W (- E_KILLED) s; Some (None, s1) }
       else wait_round cls i code_store s
     }"

text \<open>The timer lies on the stack of the sleeping process; \<open>t\<close> names it.\<close>

definition do_sleep_enter :: "'z kernel_scheme sched_class \<Rightarrow> nat \<Rightarrow> nat \<Rightarrow> 'z kernel_scheme \<Rightarrow> (int option \<times> 'z kernel_scheme) option" where
  "do_sleep_enter cls t time s =
     (if time = 0 then Some (Some 0, s)
      else do {
        c \<leftarrow> current s;
        let s1 = timer_init t (Some c) time s;
        let s2 = upd_proc c (\<lambda>g. g\<lparr>p_state := PROC_SLEEPING, wait_state := WT_TIMER\<rparr>) s1;
        s3 \<leftarrow> add_timer t s2;
        s4 \<leftarrow> schedule cls s3;
        Some (None, s4)
      })"

definition do_sleep_resume :: "nat \<Rightarrow> 'z kernel_scheme \<Rightarrow> (int \<times> 'z kernel_scheme) option" where
  "do_sleep_resume t s = do { s1 \<leftarrow> del_timer t s; Some (0, s1) }"

definition lab6_set_priority :: "32 word \<Rightarrow> 'z kernel_scheme \<Rightarrow> 'z kernel_scheme option" where
  "lab6_set_priority prio s =
     do { c \<leftarrow> current s; Some (upd_proc c (\<lambda>g. g\<lparr>lab6_priority := (if prio = 0 then 1 else prio)\<rparr>) s) }"

definition cpu_idle_step :: "'z kernel_scheme sched_class \<Rightarrow> 'z kernel_scheme \<Rightarrow> 'z kernel_scheme option" where
  "cpu_idle_step cls s = do { c \<leftarrow> current s; if need_resched (procs s c) then schedule cls s else Some s }"

section \<open>Boot\<close>

definition proc_init :: "'d pkernel sched_class \<Rightarrow> 'd world \<Rightarrow> 64 word \<Rightarrow> 'd pkernel \<Rightarrow> 'd pkernel option" where
  "proc_init cls W init_main s =
     do {
       let s1 = s\<lparr>klinks := fold (\<lambda>i. list_init (HashHead i)) [0..<HASH_LIST_SIZE] (list_init ProcHead (klinks s))\<rparr>;
       let (po, s2) = alloc_proc s1;
       idle \<leftarrow> po;
       let s3 = (upd_proc idle (\<lambda>g. g\<lparr>pid := 0, p_state := PROC_RUNNABLE, kstack := bootstack s2, need_resched := True\<rparr>) s2)
                  \<lparr>idleproc := Some idle\<rparr>;
       let (fo, f) = files_create (fsx s3);
       k \<leftarrow> fo;
       let s4 = upd_proc idle (\<lambda>g. g\<lparr>filesp := Some k\<rparr>) (s3\<lparr>fsx := files_count_inc k f\<rparr>);
       let s5 = set_proc_name idle ''idle'' s4;
       let s6 = s5\<lparr>nr_process := nr_process s5 + 1, current := Some idle\<rparr>;
       (i, s7) \<leftarrow> kernel_thread cls W init_main 0 0 s6;
       assertc (i > 0);
       init \<leftarrow> find_proc i s7;
       p \<leftarrow> init;
       let s8 = set_proc_name p ''init'' (s7\<lparr>initproc := Some p\<rparr>);
       assertc (pid (procs s8 p) = 1);
       Some s8
     }"

section \<open>The children of an exiting process\<close>

text \<open>
  \<open>sibs s po xs\<close>: following \<^verbatim>\<open>optr\<close> from \<open>po\<close> visits \<open>xs\<close>; \<open>kids s f xs\<close>: the children of \<open>f\<close>, youngest
  first, are \<open>xs\<close>, with \<^verbatim>\<open>cptr\<close>, \<^verbatim>\<open>optr\<close>, \<^verbatim>\<open>yptr\<close> and \<^verbatim>\<open>parent\<close> consistent.
\<close>

fun sibs :: "'z kernel_scheme \<Rightarrow> nat option \<Rightarrow> nat list \<Rightarrow> bool" where
  "sibs s po [] \<longleftrightarrow> po = None"
| "sibs s po (x # xs) \<longleftrightarrow> po = Some x \<and> sibs s (optr (procs s x)) xs"

fun younger :: "'z kernel_scheme \<Rightarrow> nat option \<Rightarrow> nat list \<Rightarrow> bool" where
  "younger s y [] \<longleftrightarrow> True"
| "younger s y (x # xs) \<longleftrightarrow> yptr (procs s x) = y \<and> younger s (Some x) xs"

definition kids :: "'z kernel_scheme \<Rightarrow> nat \<Rightarrow> nat list \<Rightarrow> bool" where
  "kids s f xs \<longleftrightarrow> distinct xs \<and> sibs s (cptr (procs s f)) xs \<and> younger s None xs \<and> (\<forall>x\<in>set xs. p_parent (procs s x) = Some f)"

lemma sibs_cong: "(\<And>x. x \<in> set xs \<Longrightarrow> optr (procs s x) = optr (procs t x)) \<Longrightarrow> sibs s po xs = sibs t po xs"
  by (induction xs arbitrary: po) auto

lemma younger_cong: "(\<And>x. x \<in> set xs \<Longrightarrow> yptr (procs s x) = yptr (procs t x)) \<Longrightarrow> younger s y xs = younger t y xs"
  by (induction xs arbitrary: y) auto

lemma kids_cong:
  assumes "\<And>x. cptr (procs t x) = cptr (procs s x) \<and> yptr (procs t x) = yptr (procs s x) \<and>
    optr (procs t x) = optr (procs s x) \<and> p_parent (procs t x) = p_parent (procs s x)"
  shows "kids t f xs = kids s f xs"
  using sibs_cong [of xs t s] younger_cong [of xs t s] assms by (simp add: kids_def)

lemma kids_outside: "outside_run s t \<Longrightarrow> kids t f xs = kids s f xs"
  by (rule kids_cong) (simp add: outside_run_def)

text \<open>Fields that neither relinking nor the run queue is concerned with.\<close>

lemma hand_over_simps:
  assumes "c \<noteq> n" "p \<noteq> c" "p \<noteq> n" "cptr (procs s n) \<noteq> Some p"
  shows "optr (procs (hand_over c n p s) x) = (if x = p then cptr (procs s n) else optr (procs s x))"
    "cptr (procs (hand_over c n p s) x) = (if x = n then Some p else if x = c then optr (procs s p) else cptr (procs s x))"
    "yptr (procs (hand_over c n p s) x) =
      (if x = p then None else if cptr (procs s n) = Some x then Some p else yptr (procs s x))"
    "p_parent (procs (hand_over c n p s) x) = (if x = p then Some n else p_parent (procs s x))"
  using assms by (auto simp: hand_over_def Let_def split: option.splits)

definition tree_same :: "'z kernel_scheme \<Rightarrow> 'z kernel_scheme \<Rightarrow> bool" where
  "tree_same s t \<longleftrightarrow> run_same s t \<and> current t = current s \<and> idleproc t = idleproc s \<and> initproc t = initproc s \<and>
     kernel.more t = kernel.more s \<and>
     (\<forall>x. p_state (procs t x) = p_state (procs s x) \<and> wait_state (procs t x) = wait_state (procs s x) \<and>
        exit_code (procs t x) = exit_code (procs s x))"

lemma tree_same_refl: "tree_same s s"
  by (simp add: tree_same_def run_same_def)

lemma tree_same_upd:
  assumes "tree_same s t" "\<And>g. on_rq (f g) = on_rq g \<and> lab6_priority (f g) = lab6_priority g \<and> p_state (f g) = p_state g \<and>
    wait_state (f g) = wait_state g \<and> exit_code (f g) = exit_code g"
  shows "tree_same s (upd_proc p f t)"
  using assms by (simp add: tree_same_def run_same_def)

lemma hand_over_tree: "tree_same s (hand_over c n p s)"
  unfolding hand_over_def Let_def
  by (split option.split, intro conjI allI impI; (split option.split, intro conjI allI impI)?;
      (intro tree_same_upd tree_same_refl; simp)?)

lemmas hand_over_same = hand_over_tree [unfolded tree_same_def, THEN conjunct1]
  hand_over_tree [unfolded tree_same_def, THEN conjunct2, THEN conjunct1]
  hand_over_tree [unfolded tree_same_def, THEN conjunct2, THEN conjunct2, THEN conjunct1]
  hand_over_tree [unfolded tree_same_def, THEN conjunct2, THEN conjunct2, THEN conjunct2, THEN conjunct1]
  hand_over_tree [unfolded tree_same_def, THEN conjunct2, THEN conjunct2, THEN conjunct2, THEN conjunct2, THEN conjunct1]
  hand_over_tree [unfolded tree_same_def, THEN conjunct2, THEN conjunct2, THEN conjunct2, THEN conjunct2, THEN conjunct2, rule_format]

lemma hand_over_kids:
  assumes "sibs s (cptr (procs s c)) (p # xs)" "kids s n ys" "c \<noteq> n" "p \<noteq> c" "p \<noteq> n" "p \<notin> set xs" "set (p # xs) \<inter> set ys = {}"
  shows "sibs (hand_over c n p s) (cptr (procs (hand_over c n p s) c)) xs" "kids (hand_over c n p s) n (p # ys)"
proof -
  have np: "cptr (procs s n) \<noteq> Some p" using assms(2,7) by (cases ys) (auto simp: kids_def)
  note ho = hand_over_simps [OF assms(3-5) np]
  show "sibs (hand_over c n p s) (cptr (procs (hand_over c n p s) c)) xs"
    using assms by (simp add: ho) (subst sibs_cong [where t = s]; auto simp: ho)
  have "sibs (hand_over c n p s) (cptr (procs s n)) ys"
    using assms(2,7) by (subst sibs_cong [where t = s]) (auto simp: ho kids_def)
  moreover have "younger (hand_over c n p s) (Some p) ys"
  proof (cases ys)
    case (Cons y zs)
    have "y \<noteq> p" "cptr (procs s n) = Some y" "younger s (Some y) zs" "y \<notin> set zs" "p \<notin> set zs"
      using assms(2,7) Cons by (auto simp: kids_def)
    moreover from this have "younger (hand_over c n p s) (Some y) zs"
      by (subst younger_cong [where t = s]) (auto simp: ho)
    ultimately show ?thesis using Cons by (simp add: ho)
  qed simp
  ultimately show "kids (hand_over c n p s) n (p # ys)" using assms(2,7) by (auto simp: kids_def ho)
qed

lemma fsx_more: "kernel.more (t :: 'd pkernel) = kernel.more s \<Longrightarrow> fsx t = fsx s"
  by (cases t; cases s) simp

context sched_policy
begin

lemma reparent_inv:
  assumes "sched_inv ready offline D i s Q" "initproc s = Some n" "n \<in> D" "c \<noteq> n" "p_state (procs s n) \<noteq> PROC_ZOMBIE"
    and "sibs s (cptr (procs s c)) xs" "kids s n ys" "distinct xs" "c \<notin> set xs" "n \<notin> set xs" "set xs \<inter> set ys = {}"
    and "wait_state (procs s n) = WT_CHILD \<longrightarrow> p_state (procs s n) = PROC_SLEEPING"
  shows "\<exists>t Q'. reparent cls c s = Some t \<and> sched_inv ready offline D i t Q' \<and> current t = current s \<and>
    cptr (procs t c) = None \<and> kids t n (rev xs @ ys) \<and> kernel.more t = kernel.more s \<and> initproc t = initproc s \<and>
    (\<forall>x. exit_code (procs t x) = exit_code (procs s x)) \<and> (\<forall>x. x \<noteq> n \<longrightarrow> p_state (procs t x) = p_state (procs s x)) \<and>
    (if wait_state (procs s n) = WT_CHILD \<and> (\<exists>x\<in>set xs. p_state (procs s x) = PROC_ZOMBIE)
     then p_state (procs t n) = PROC_RUNNABLE \<and> wait_state (procs t n) = 0
     else p_state (procs t n) = p_state (procs s n) \<and> wait_state (procs t n) = wait_state (procs s n))"
  using assms
proof (induction xs arbitrary: s ys Q)
  case Nil
  then have "reparent cls c s = Some s" by (subst reparent.simps) simp
  then show ?case using Nil by auto
next
  case (Cons p xs)
  let ?s = "hand_over c n p s"
  have h: "sibs s (cptr (procs s c)) (p # xs)" "p \<noteq> c" "p \<noteq> n" "p \<notin> set xs" using Cons.prems by auto
  note k = hand_over_kids [OF h(1) Cons.prems(7,4) h(2-4) Cons.prems(11)]
  have inv: "sched_inv ready offline D i ?s Q"
    by (rule sched_inv_transfer [OF Cons.prems(1)]) (simp_all add: hand_over_same)
  let ?wake = "p_state (procs s p) = PROC_ZOMBIE \<and> wait_state (procs s n) = WT_CHILD"
  obtain t1 Q1 where t1: "(if ?wake then wakeup_proc cls n ?s else Some ?s) = Some t1" "sched_inv ready offline D i t1 Q1"
    "current t1 = current s" "outside_run ?s t1"
    "\<And>x. x \<noteq> n \<Longrightarrow> p_state (procs t1 x) = p_state (procs s x)"
    "if ?wake then p_state (procs t1 n) = PROC_RUNNABLE \<and> wait_state (procs t1 n) = 0
     else p_state (procs t1 n) = p_state (procs s n) \<and> wait_state (procs t1 n) = wait_state (procs s n)"
  proof (cases ?wake)
    case True
    then have "p_state (procs ?s n) \<noteq> PROC_RUNNABLE" using Cons.prems(12) by (simp add: hand_over_same)
    with wakeup_inv [OF inv Cons.prems(3)] Cons.prems(5) True that show ?thesis by (auto simp: hand_over_same)
  qed (use inv that in \<open>auto simp: hand_over_same\<close>)
  have step: "reparent cls c s = reparent cls c t1"
    using h(1) t1(1) Cons.prems(2) by (subst reparent.simps) (simp add: hand_over_same)
  have out: "optr (procs t1 x) = optr (procs ?s x)" "cptr (procs t1 x) = cptr (procs ?s x)" for x
    using t1(4) by (simp_all add: outside_run_def)
  have s1: "sibs t1 (cptr (procs t1 c)) xs" using k(1) by (subst sibs_cong [where t = ?s]) (simp_all add: out)
  have k1: "kids t1 n (p # ys)" using k(2) kids_outside [OF t1(4)] by simp
  have ini: "initproc t1 = Some n" using t1(4) Cons.prems(2) by (simp add: outside_run_def hand_over_same)
  have nz: "p_state (procs t1 n) \<noteq> PROC_ZOMBIE" using t1(6) Cons.prems(5) by (auto split: if_splits)
  have wc: "wait_state (procs t1 n) = WT_CHILD \<longrightarrow> p_state (procs t1 n) = PROC_SLEEPING"
    using t1(6) Cons.prems(12) by (auto simp: WT_CHILD_def WT_INTERRUPTED_def split: if_splits)
  have d: "distinct xs" "c \<notin> set xs" "n \<notin> set xs" "set xs \<inter> set (p # ys) = {}"
    using Cons.prems(8-11) by auto
  obtain t Q' where t: "reparent cls c t1 = Some t" "sched_inv ready offline D i t Q'" "current t = current t1"
    "cptr (procs t c) = None" "kids t n (rev xs @ p # ys)" "kernel.more t = kernel.more t1" "initproc t = initproc t1"
    "\<forall>x. exit_code (procs t x) = exit_code (procs t1 x)" "\<forall>x. x \<noteq> n \<longrightarrow> p_state (procs t x) = p_state (procs t1 x)"
    "if wait_state (procs t1 n) = WT_CHILD \<and> (\<exists>x\<in>set xs. p_state (procs t1 x) = PROC_ZOMBIE)
     then p_state (procs t n) = PROC_RUNNABLE \<and> wait_state (procs t n) = 0
     else p_state (procs t n) = p_state (procs t1 n) \<and> wait_state (procs t n) = wait_state (procs t1 n)"
  proof -
    have "\<exists>t Q'. reparent cls c t1 = Some t \<and> sched_inv ready offline D i t Q' \<and> current t = current t1 \<and>
      cptr (procs t c) = None \<and> kids t n (rev xs @ (p # ys)) \<and> kernel.more t = kernel.more t1 \<and> initproc t = initproc t1 \<and>
      (\<forall>x. exit_code (procs t x) = exit_code (procs t1 x)) \<and> (\<forall>x. x \<noteq> n \<longrightarrow> p_state (procs t x) = p_state (procs t1 x)) \<and>
      (if wait_state (procs t1 n) = WT_CHILD \<and> (\<exists>x\<in>set xs. p_state (procs t1 x) = PROC_ZOMBIE)
       then p_state (procs t n) = PROC_RUNNABLE \<and> wait_state (procs t n) = 0
       else p_state (procs t n) = p_state (procs t1 n) \<and> wait_state (procs t n) = wait_state (procs t1 n))"
      by (rule Cons.IH [OF t1(2) ini Cons.prems(3,4) nz s1 k1 d wc])
    then show ?thesis using that by blast
  qed
  have "x \<noteq> n" if "x \<in> set xs" for x using that Cons.prems(10) by auto
  then have z: "(\<exists>x\<in>set xs. p_state (procs t1 x) = PROC_ZOMBIE) \<longleftrightarrow> (\<exists>x\<in>set xs. p_state (procs s x) = PROC_ZOMBIE)"
    using t1(5) by auto
  have w0: "WT_CHILD \<noteq> 0" by (simp add: WT_CHILD_def WT_INTERRUPTED_def)
  show ?case
  proof (intro exI conjI)
    show "reparent cls c s = Some t" using step t(1) by simp
    show "kids t n (rev (p # xs) @ ys)" using t(5) by simp
    show "if wait_state (procs s n) = WT_CHILD \<and> (\<exists>x\<in>set (p # xs). p_state (procs s x) = PROC_ZOMBIE)
      then p_state (procs t n) = PROC_RUNNABLE \<and> wait_state (procs t n) = 0
      else p_state (procs t n) = p_state (procs s n) \<and> wait_state (procs t n) = wait_state (procs s n)"
    proof (cases ?wake)
      case True
      then have "wait_state (procs t1 n) \<noteq> WT_CHILD" "p_state (procs t1 n) = PROC_RUNNABLE" "wait_state (procs t1 n) = 0"
        using t1(6) w0 by simp_all
      then show ?thesis using t(10) True by simp
    next
      case False
      then have e: "p_state (procs t1 n) = p_state (procs s n)" "wait_state (procs t1 n) = wait_state (procs s n)"
        using t1(6) by (simp_all only: if_False)
      have "(\<exists>x\<in>set (p # xs). p_state (procs s x) = PROC_ZOMBIE) \<longleftrightarrow> (\<exists>x\<in>set xs. p_state (procs s x) = PROC_ZOMBIE)"
        if "wait_state (procs s n) = WT_CHILD" using False that by simp
      then show ?thesis using t(10) unfolding z e by (cases "wait_state (procs s n) = WT_CHILD") simp_all
    qed
    show "sched_inv ready offline D i t Q'" by (rule t(2))
    show "cptr (procs t c) = None" by (rule t(4))
    show "current t = current s" using t(3) t1(3) by simp
    show "kernel.more t = kernel.more s" using t(6) t1(4) by (simp add: outside_run_def hand_over_same)
    show "initproc t = initproc s" using t(7) ini Cons.prems(2) by simp
    show "\<forall>x. exit_code (procs t x) = exit_code (procs s x)" using t(8) t1(4) by (simp add: outside_run_def hand_over_same)
    show "\<forall>x. x \<noteq> n \<longrightarrow> p_state (procs t x) = p_state (procs s x)" using t(9) t1(5) by simp
  qed
qed

text \<open>From the point where the exiting process is a zombie to the dispatch of another one.\<close>

lemma exit_rest:
  assumes inv: "sched_inv ready offline D i s Q" and c: "current s = Some c" "p_state (procs s c) = PROC_ZOMBIE"
    and ini: "initproc s = Some n" "n \<in> D" "c \<noteq> n" "p_state (procs s n) \<noteq> PROC_ZOMBIE" and f: "f \<in> D" "f \<noteq> c"
    and sleep: "\<forall>x. x \<noteq> c \<and> wait_state (procs s x) = WT_CHILD \<longrightarrow> p_state (procs s x) = PROC_SLEEPING"
    and kids: "kids s c xs" "kids s n ys" "c \<notin> set xs" "n \<notin> set xs" "set xs \<inter> set ys = {}"
  shows "\<exists>s3 s4 t. (if wait_state (procs s f) = WT_CHILD then wakeup_proc cls f s else Some s) = Some s3 \<and>
    reparent cls c s3 = Some s4 \<and> schedule cls s4 = Some t \<and> (\<exists>m. current t = Some m \<and> m \<noteq> c) \<and>
    (\<exists>Q'. sched_inv ready offline D i t Q') \<and>
    p_state (procs t c) = PROC_ZOMBIE \<and> exit_code (procs t c) = exit_code (procs s c) \<and>
    cptr (procs t c) = None \<and> kids t n (rev xs @ ys) \<and>
    (wait_state (procs s f) = WT_CHILD \<longrightarrow> p_state (procs t f) = PROC_RUNNABLE) \<and>
    (wait_state (procs s n) = WT_CHILD \<and> (\<exists>x\<in>set xs. p_state (procs s x) = PROC_ZOMBIE) \<longrightarrow> p_state (procs t n) = PROC_RUNNABLE) \<and>
    kernel.more t = kernel.more s \<and>
    (\<forall>x. p_state (procs t x) = (if x = f \<and> wait_state (procs s f) = WT_CHILD \<or>
        x = n \<and> wait_state (procs s n) = WT_CHILD \<and> (\<exists>z\<in>set xs. p_state (procs s z) = PROC_ZOMBIE)
      then PROC_RUNNABLE else p_state (procs s x)))"
proof -
  let ?w = "wait_state (procs s f) = WT_CHILD"
  obtain s3 Q3 where s3: "(if ?w then wakeup_proc cls f s else Some s) = Some s3" "sched_inv ready offline D i s3 Q3"
    "current s3 = current s" "outside_run s s3" "\<And>x. x \<noteq> f \<Longrightarrow> p_state (procs s3 x) = p_state (procs s x)"
    "\<And>x. x \<noteq> f \<Longrightarrow> wait_state (procs s3 x) = wait_state (procs s x)"
    "if ?w then p_state (procs s3 f) = PROC_RUNNABLE \<and> wait_state (procs s3 f) = 0
     else p_state (procs s3 f) = p_state (procs s f) \<and> wait_state (procs s3 f) = wait_state (procs s f)"
  proof (cases ?w)
    case True
    then have "p_state (procs s f) = PROC_SLEEPING" using sleep f(2) by simp
    with wakeup_inv [OF inv f(1)] True that show ?thesis by auto
  qed (use inv that in auto)
  have w0: "WT_CHILD \<noteq> 0" by (simp add: WT_CHILD_def WT_INTERRUPTED_def)
  have k3: "kids s3 c xs" "kids s3 n ys" using kids(1,2) kids_outside [OF s3(4)] by simp_all
  have n3: "p_state (procs s3 n) \<noteq> PROC_ZOMBIE" "wait_state (procs s3 n) = WT_CHILD \<longrightarrow> p_state (procs s3 n) = PROC_SLEEPING"
    using s3(5-7) ini(3,4) sleep w0 by (cases "n = f"; auto split: if_splits)+
  have i3: "initproc s3 = Some n" using s3(4) ini(1) by (simp add: outside_run_def)
  have d: "distinct xs" "sibs s3 (cptr (procs s3 c)) xs" using k3(1) by (simp_all add: kids_def)
  obtain s4 Q4 where s4: "reparent cls c s3 = Some s4" "sched_inv ready offline D i s4 Q4" "current s4 = current s3"
    "cptr (procs s4 c) = None" "kids s4 n (rev xs @ ys)" "kernel.more s4 = kernel.more s3"
    "\<forall>x. exit_code (procs s4 x) = exit_code (procs s3 x)" "\<forall>x. x \<noteq> n \<longrightarrow> p_state (procs s4 x) = p_state (procs s3 x)"
    "if wait_state (procs s3 n) = WT_CHILD \<and> (\<exists>x\<in>set xs. p_state (procs s3 x) = PROC_ZOMBIE)
     then p_state (procs s4 n) = PROC_RUNNABLE \<and> wait_state (procs s4 n) = 0
     else p_state (procs s4 n) = p_state (procs s3 n) \<and> wait_state (procs s4 n) = wait_state (procs s3 n)"
    using reparent_inv [OF s3(2) i3 ini(2,3) n3(1) d(2) k3(2) d(1) kids(3-5) n3(2)] by blast
  have c4: "current s4 = Some c" using s4(3) s3(3) c(1) by simp
  obtain t m where t: "schedule cls s4 = Some t" "current t = Some m" "p_state (procs t m) = PROC_RUNNABLE" "outside_run s4 t"
    "\<forall>p. p_state (procs t p) = p_state (procs s4 p) \<and> wait_state (procs t p) = wait_state (procs s4 p)"
    "\<exists>Q'. sched_inv ready offline D i t Q'"
    using schedule_inv [OF s4(2) c4, unfolded Let_def] by blast
  have z: "p_state (procs t c) = PROC_ZOMBIE" using t(5) s4(8) s3(5) f(2) ini(3) c(2) by simp
  have pf: "p_state (procs t f) = PROC_RUNNABLE" if ?w
    using that t(5) s4(8,9) s3(7) by (cases "f = n") (auto split: if_splits)
  have pn: "p_state (procs t n) = PROC_RUNNABLE"
    if wn: "wait_state (procs s n) = WT_CHILD" and zx: "\<exists>x\<in>set xs. p_state (procs s x) = PROC_ZOMBIE"
  proof (cases "n = f")
    case True
    then show ?thesis using pf wn by simp
  next
    case False
    from zx obtain x where x: "x \<in> set xs" "p_state (procs s x) = PROC_ZOMBIE" by blast
    have "\<not> (x = f \<and> ?w)" using x sleep f(2) by auto
    then have "p_state (procs s3 x) = PROC_ZOMBIE" using s3(5,7) x(2) by (cases "x = f") auto
    moreover have "wait_state (procs s3 n) = WT_CHILD" using s3(6) [OF False] wn by simp
    moreover have "\<exists>x\<in>set xs. p_state (procs s3 x) = PROC_ZOMBIE" using calculation(1) x(1) by blast
    ultimately show ?thesis using s4(9) t(5) by simp
  qed
  have ex: "exit_code (procs t c) = exit_code (procs s c)" using t(4) s4(7) s3(4) by (simp add: outside_run_def)
  have mo: "kernel.more t = kernel.more s" using t(4) s4(6) s3(4) by (simp add: outside_run_def)
  have cp: "cptr (procs t c) = None" "kids t n (rev xs @ ys)"
    using t(4) s4(4,5) kids_outside [OF t(4)] by (simp_all add: outside_run_def)
  have mc: "m \<noteq> c" using z t(3) by auto
  have zs: "(\<exists>z\<in>set xs. p_state (procs s3 z) = PROC_ZOMBIE) \<longleftrightarrow> (\<exists>z\<in>set xs. p_state (procs s z) = PROC_ZOMBIE)"
  proof -
    have "p_state (procs s3 z) = PROC_ZOMBIE \<longleftrightarrow> p_state (procs s z) = PROC_ZOMBIE" for z
      using s3(5,7) sleep f(2) by (cases "z = f") (auto split: if_splits)
    then show ?thesis by simp
  qed
  have all: "p_state (procs t x) = (if x = f \<and> ?w \<or>
        x = n \<and> wait_state (procs s n) = WT_CHILD \<and> (\<exists>z\<in>set xs. p_state (procs s z) = PROC_ZOMBIE)
      then PROC_RUNNABLE else p_state (procs s x))" for x
  proof (cases "x = n")
    case False
    then show ?thesis using t(5) s4(8) s3(5,7) by (cases "x = f") (auto split: if_splits)
  next
    case True
    then show ?thesis using t(5) s4(9) s3(5-7) w0 unfolding zs by (cases "n = f") (auto split: if_splits)
  qed
  have al: "\<forall>x. p_state (procs t x) = (if x = f \<and> ?w \<or>
        x = n \<and> wait_state (procs s n) = WT_CHILD \<and> (\<exists>z\<in>set xs. p_state (procs s z) = PROC_ZOMBIE)
      then PROC_RUNNABLE else p_state (procs s x))" using all by (rule allI)
  show ?thesis
    by (intro exI [of _ s3] exI [of _ s4] exI [of _ t] conjI) (rule s3(1) s4(1) t(1) z ex cp mo al t(6) | use t(2) mc pf pn in blast)+
qed

end

text \<open>
  C29: \<^verbatim>\<open>do_exit\<close> of a process without an address space (a kernel thread, or a process whose \<^verbatim>\<open>execve\<close>
  failed) ends with another process running: it is a zombie with its exit code, its parent is runnable
  again if it waited for children, its children are, in order, at the front of \<^verbatim>\<open>initproc\<close>'s, which is
  runnable again if it waited and one of them is a zombie, and the scheduler's invariant holds.  No other
  process changes its state; in particular \<^verbatim>\<open>initproc\<close> sleeps on when none of the children handed over is
  a zombie, unless it is itself the parent.  The file layer is untouched: the process's table of open files keeps its count and is never destroyed.
  The process is neither \<open>idleproc\<close> nor \<open>initproc\<close>, its parent is a known process, \<open>initproc\<close> is no zombie, and whoever
  waits for children sleeps.
\<close>

theorem do_exit_correct:
  assumes inv: "sched_inv rr_ready rr_offline D i s Q" and c: "current s = Some c" "c \<noteq> i"
    and ini: "initproc s = Some n" "n \<in> D" "c \<noteq> n" "p_state (procs s n) \<noteq> PROC_ZOMBIE"
    and f: "p_parent (procs s c) = Some f" "f \<in> D" "f \<noteq> c"
    and sleep: "\<forall>x. wait_state (procs s x) = WT_CHILD \<longrightarrow> p_state (procs s x) = PROC_SLEEPING"
    and kids: "kids s c xs" "kids s n ys" "c \<notin> set xs" "n \<notin> set xs" "set xs \<inter> set ys = {}"
    and nomm: "mm (procs s c) = None"
  shows "\<exists>t m Q'. do_exit default_sched_class W code s = Some t \<and> current t = Some m \<and> m \<noteq> c \<and>
    sched_inv rr_ready rr_offline D i t Q' \<and> p_state (procs t c) = PROC_ZOMBIE \<and> exit_code (procs t c) = code \<and>
    cptr (procs t c) = None \<and> kids t n (rev xs @ ys) \<and>
    (wait_state (procs s f) = WT_CHILD \<longrightarrow> p_state (procs t f) = PROC_RUNNABLE) \<and>
    (wait_state (procs s n) = WT_CHILD \<and> (\<exists>x\<in>set xs. p_state (procs s x) = PROC_ZOMBIE) \<longrightarrow> p_state (procs t n) = PROC_RUNNABLE) \<and>
    (\<forall>x. p_state (procs t x) = (if x = c then PROC_ZOMBIE
      else if x = f \<and> wait_state (procs s f) = WT_CHILD \<or>
        x = n \<and> wait_state (procs s n) = WT_CHILD \<and> (\<exists>z\<in>set xs. p_state (procs s z) = PROC_ZOMBIE)
      then PROC_RUNNABLE else p_state (procs s x))) \<and>
    fsx t = fsx s"
proof -
  define s2 where "s2 = upd_proc c (\<lambda>g. g\<lparr>p_state := PROC_ZOMBIE, exit_code := code\<rparr>) s"
  have st2: "p_state (procs s2 x) = (if x = c then PROC_ZOMBIE else p_state (procs s x))"
    "wait_state (procs s2 x) = wait_state (procs s x)" "exit_code (procs s2 c) = code" "current s2 = Some c"
    "initproc s2 = initproc s" "kernel.more s2 = kernel.more s" for x
    using c(1) by (simp_all add: s2_def)
  have same: "run_same s s2" by (simp add: run_same_def s2_def)
  have inv2: "sched_inv rr_ready rr_offline D i s2 Q"
    using inv c rr.ready_other [OF same] rr.offline_other [OF same] by (auto simp: sched_inv_def s2_def)
  have "kids s2 g zs = kids s g zs" for g zs by (rule kids_cong) (simp add: s2_def)
  then have k2: "kids s2 c xs" "kids s2 n ys" using kids(1,2) by simp_all
  have idle: "idleproc s = Some i" using inv by (simp add: sched_inv_def)
  have e: "do_exit default_sched_class W code s = do {
      s3 \<leftarrow> (if wait_state (procs s2 f) = WT_CHILD then wakeup_proc default_sched_class f s2 else Some s2);
      s4 \<leftarrow> reparent default_sched_class c s3;
      schedule default_sched_class s4 }"
    using idle c ini(1,3) nomm f(1) by (simp add: do_exit_def s2_def Let_def)
  have "\<exists>s3 s4 t. (if wait_state (procs s2 f) = WT_CHILD then wakeup_proc default_sched_class f s2 else Some s2) = Some s3 \<and>
    reparent default_sched_class c s3 = Some s4 \<and> schedule default_sched_class s4 = Some t \<and> (\<exists>m. current t = Some m \<and> m \<noteq> c) \<and>
    (\<exists>Q'. sched_inv rr_ready rr_offline D i t Q') \<and>
    p_state (procs t c) = PROC_ZOMBIE \<and> exit_code (procs t c) = exit_code (procs s2 c) \<and>
    cptr (procs t c) = None \<and> kids t n (rev xs @ ys) \<and>
    (wait_state (procs s2 f) = WT_CHILD \<longrightarrow> p_state (procs t f) = PROC_RUNNABLE) \<and>
    (wait_state (procs s2 n) = WT_CHILD \<and> (\<exists>x\<in>set xs. p_state (procs s2 x) = PROC_ZOMBIE) \<longrightarrow> p_state (procs t n) = PROC_RUNNABLE) \<and>
    kernel.more t = kernel.more s2 \<and>
    (\<forall>x. p_state (procs t x) = (if x = f \<and> wait_state (procs s2 f) = WT_CHILD \<or>
        x = n \<and> wait_state (procs s2 n) = WT_CHILD \<and> (\<exists>z\<in>set xs. p_state (procs s2 z) = PROC_ZOMBIE)
      then PROC_RUNNABLE else p_state (procs s2 x)))"
    by (rule rr.exit_rest [OF inv2 st2(4) _ _ ini(2,3) _ f(2,3) _ k2 kids(3-5)]) (use ini sleep in \<open>auto simp: st2\<close>)
  then obtain s3 s4 t m Q' where t: "(if wait_state (procs s2 f) = WT_CHILD then wakeup_proc default_sched_class f s2 else Some s2) = Some s3"
    "reparent default_sched_class c s3 = Some s4" "schedule default_sched_class s4 = Some t" "current t = Some m" "m \<noteq> c"
    "sched_inv rr_ready rr_offline D i t Q'" "p_state (procs t c) = PROC_ZOMBIE" "exit_code (procs t c) = code"
    "cptr (procs t c) = None" "kids t n (rev xs @ ys)"
    "wait_state (procs s f) = WT_CHILD \<longrightarrow> p_state (procs t f) = PROC_RUNNABLE"
    "wait_state (procs s n) = WT_CHILD \<and> (\<exists>x\<in>set xs. p_state (procs s2 x) = PROC_ZOMBIE) \<longrightarrow> p_state (procs t n) = PROC_RUNNABLE"
    "kernel.more t = kernel.more s2"
    "\<forall>x. p_state (procs t x) = (if x = f \<and> wait_state (procs s f) = WT_CHILD \<or>
        x = n \<and> wait_state (procs s n) = WT_CHILD \<and> (\<exists>z\<in>set xs. p_state (procs s2 z) = PROC_ZOMBIE)
      then PROC_RUNNABLE else p_state (procs s2 x))"
    unfolding st2(2,3) by blast
  have "x \<noteq> c" if "x \<in> set xs" for x using that kids(3) by auto
  then have z: "(\<exists>x\<in>set xs. p_state (procs s2 x) = PROC_ZOMBIE) \<longleftrightarrow> (\<exists>x\<in>set xs. p_state (procs s x) = PROC_ZOMBIE)"
    by (auto simp: st2)
  show ?thesis
  proof (intro exI conjI)
    show "do_exit default_sched_class W code s = Some t" by (simp only: e t(1-3) Option.bind.simps)
    show "fsx t = fsx s" by (rule fsx_more) (simp only: t(13) st2(6))
    show "wait_state (procs s n) = WT_CHILD \<and> (\<exists>x\<in>set xs. p_state (procs s x) = PROC_ZOMBIE) \<longrightarrow> p_state (procs t n) = PROC_RUNNABLE"
      using t(12) unfolding z .
    show "\<forall>x. p_state (procs t x) = (if x = c then PROC_ZOMBIE
      else if x = f \<and> wait_state (procs s f) = WT_CHILD \<or>
        x = n \<and> wait_state (procs s n) = WT_CHILD \<and> (\<exists>z\<in>set xs. p_state (procs s z) = PROC_ZOMBIE)
      then PROC_RUNNABLE else p_state (procs s x))"
      using t(14) ini(3) f(3) unfolding z by (auto simp: st2)
  qed (rule t(4-11))+
qed

text \<open>Process 1 runs, its father and \<^verbatim>\<open>initproc\<close> is the waiting 4, its child 5 is a zombie.\<close>

definition demo_exit :: "unit pkernel" where
  "demo_exit =
     \<lparr>procs = (\<lambda>p. if p = 4 then demo_proc\<lparr>p_state := PROC_SLEEPING, wait_state := WT_CHILD, cptr := Some 1\<rparr>
                   else if p = 5 then demo_proc\<lparr>p_state := PROC_ZOMBIE, p_parent := Some 1\<rparr>
                   else if p = 1 then demo_proc\<lparr>p_parent := Some 4, cptr := Some 5\<rparr>
                   else if p = 2 \<or> p = 3 then demo_proc\<lparr>on_rq := True\<rparr> else demo_proc),
      klinks = klinks demo_kernel, run_pool = run_pool demo_kernel, rq = rq demo_kernel, timers = timers demo_kernel,
      waits = waits demo_kernel, sem_value = (\<lambda>_. 0), current = Some 1, idleproc = Some 0, initproc = Some 4,
      nr_process = 6, last_pid = 4, next_safe = 8192, tframes = tframes demo_kernel, cpu = cpu demo_kernel, satp = 0,
      boot_pgdir_pa = 0, fsx = demo_fs, proc_pool = [], boot_pgdir = 9, bootstack = 0, sym_forkret = 0,
      sym_kernel_thread_entry = 0, csr_sstatus = 0\<rparr>"

lemma demo_exit_inv: "sched_inv rr_ready rr_offline {0, 1, 2, 3, 4} 0 demo_exit {2, 3}"
proof -
  have "rr_list demo_exit [2, 3]"
    by (simp add: rr_list_def dlist_def demo_exit_def demo_kernel_def demo_proc_def MAX_PROCESS_def)
  then have "rr_ready demo_exit {2, 3}" unfolding rr_ready_def by (intro exI [of _ "[2, 3]"]) simp
  moreover have "rr_offline p demo_exit \<longleftrightarrow> p \<noteq> 2 \<and> p \<noteq> 3" for p
    by (simp add: rr_offline_def list_empty_def demo_exit_def demo_kernel_def)
  moreover have "p_state (procs demo_exit p) = (if p = 4 then PROC_SLEEPING else if p = 5 then PROC_ZOMBIE else PROC_RUNNABLE)" for p
    by (simp add: demo_exit_def demo_proc_def)
  moreover have "current demo_exit = Some 1" "idleproc demo_exit = Some 0" by (simp_all add: demo_exit_def)
  ultimately show ?thesis by (auto simp: sched_inv_def MAX_PROCESS_def)
qed

theorem do_exit_correct_witness:
  "\<exists>t. do_exit default_sched_class demo_world 7 demo_exit = Some t \<and> exit_code (procs t 1) = 7 \<and>
     kids t 4 [5, 1] \<and> p_state (procs t 4) = PROC_RUNNABLE \<and> files_count (filess (fsx t) 1) = 1"
proof -
  have k: "kids demo_exit 1 [5]" "kids demo_exit 4 [1]"
    by (simp_all add: kids_def demo_exit_def demo_proc_def)
  have p: "p_state (procs demo_exit p) = (if p = 4 then PROC_SLEEPING else if p = 5 then PROC_ZOMBIE else PROC_RUNNABLE)"
    "wait_state (procs demo_exit p) = (if p = 4 then WT_CHILD else 0)" "mm (procs demo_exit p) = None" for p
    by (simp_all add: demo_exit_def demo_proc_def)
  have g: "current demo_exit = Some 1" "initproc demo_exit = Some 4" "p_parent (procs demo_exit 1) = Some 4"
    "files_count (filess (fsx demo_exit) 1) = 1"
    by (simp_all add: demo_exit_def demo_fs_def)
  have w: "WT_CHILD \<noteq> 0" by (simp add: WT_CHILD_def WT_INTERRUPTED_def)
  have sl: "\<forall>x. wait_state (procs demo_exit x) = WT_CHILD \<longrightarrow> p_state (procs demo_exit x) = PROC_SLEEPING"
    using w by (simp add: p)
  obtain t where "do_exit default_sched_class demo_world 7 demo_exit = Some t" "exit_code (procs t 1) = 7"
    "kids t 4 (rev [5] @ [1])" "wait_state (procs demo_exit 4) = WT_CHILD \<longrightarrow> p_state (procs t 4) = PROC_RUNNABLE"
    "fsx t = fsx demo_exit"
    using do_exit_correct [OF demo_exit_inv g(1) _ g(2) _ _ _ g(3) _ _ sl k _ _ _ p(3), of demo_world 7] by (auto simp: p)
  then show ?thesis using g(4) by (auto simp: p)
qed

end
