(* ===== verification/UserMem.thy ===== *)
theory UserMem
  imports Vmm
begin

text \<open>
  User memory as the kernel's copy functions see it: through the page table of an address space in
  which every page is mapped once (\<open>data_excl\<close>), the bytes below \<^verbatim>\<open>USERTOP\<close> behave like one map from
  addresses to bytes, whatever frames hold them.
\<close>

definition uview :: "pmem \<Rightarrow> nat \<Rightarrow> 64 word \<Rightarrow> 8 word option" where
  "uview m pd x = (if x < USERTOP then uread pd x m else None)"

section \<open>Bytes of a word\<close>

lemma byte_of_update:
  fixes w :: "64 word" and b :: "8 word"
  assumes "k < 8" "k' < 8"
  shows "ucast (drop_bit (8 * k') ((w AND NOT (push_bit (8 * k) 0xFF)) OR push_bit (8 * k) (ucast b))) =
    (if k' = k then b else (ucast (drop_bit (8 * k') w) :: 8 word))"
proof (rule bit_word_eqI)
  fix n :: nat assume n: "n < LENGTH(8)"
  have m: "(0xFF :: 64 word) = mask 8" by (simp add: mask_eq_exp_minus_1)
  have l: "8 * k' + n < 64" using assms n by simp
  consider "k' = k" | "8 * k' + n < 8 * k" | "8 * k + 8 \<le> 8 * k' + n" using n by (cases "k' < k"; cases "k < k'") auto
  then show "bit (ucast (drop_bit (8 * k') ((w AND NOT (push_bit (8 * k) 0xFF)) OR push_bit (8 * k) (ucast b))) :: 8 word) n =
    bit (if k' = k then b else (ucast (drop_bit (8 * k') w) :: 8 word)) n"
  proof cases
    case 3
    then have "\<not> bit b (8 * k' + n - 8 * k)" "k' \<noteq> k" using n by (auto dest: bit_imp_le_length)
    then show ?thesis using 3 n l unfolding m by (auto simp: bit_simps)
  qed (use n l in \<open>auto simp: m bit_simps\<close>)
qed

lemma get_put_byte:
  "get_byte (put_byte f off b m) g off' = (if g = f \<and> off' = off then b else get_byte m g off')"
proof -
  have "off' div 8 = off div 8 \<Longrightarrow> off' mod 8 = off mod 8 \<longleftrightarrow> off' = off" by (metis div_mult_mod_eq)
  then show ?thesis
    using byte_of_update [of "off mod 8" "off' mod 8" "fr m f (off div 8)" b]
    by (auto simp: get_byte_def put_byte_def set_pte_def)
qed

lemma put_byte_fr: "g \<noteq> f \<Longrightarrow> fr (put_byte f off b m) g = fr m g"
  by (simp add: put_byte_def set_pte_def)

lemma put_byte_frames [simp]:
  "free_pg (put_byte f off b m) = free_pg m" "npage (put_byte f off b m) = npage m" "page_ref (put_byte f off b m) = page_ref m"
  by (simp_all add: put_byte_def)

section \<open>Addresses\<close>

lemma and_low_eq:
  fixes a x :: "64 word"
  assumes "drop_bit d a AND mask w = drop_bit d x AND mask w" "d \<le> n" "n < d + w" "n < 64"
  shows "bit a n = bit x n"
proof -
  have "bit (drop_bit d a AND mask w) (n - d) = bit (drop_bit d x AND mask w) (n - d)" using assms(1) by simp
  moreover have "n - d < w" "d + (n - d) = n" using assms(2,3) by auto
  ultimately show ?thesis using assms(4) by (simp add: bit_simps)
qed

lemma user_high_bits: "(x :: 64 word) < USERTOP \<Longrightarrow> 39 \<le> n \<Longrightarrow> \<not> bit x n"
proof -
  assume x: "x < USERTOP" "39 \<le> n"
  then have "unat x < 2 ^ 39" by (simp add: USERTOP_def word_less_nat_alt)
  then have "take_bit 39 (unat x) = unat x" by (rule take_bit_nat_eq_self)
  then have "\<not> bit (unat x) n" using x(2) by (metis bit_take_bit_iff not_le)
  then show ?thesis by (auto simp: bit_unsigned_iff dest: bit_imp_le_length)
qed

lemma same_address:
  assumes "a < USERTOP" "x < USERTOP" "PDX1 a = PDX1 x" "PDX0 a = PDX0 x" "PTX a = PTX x" "PGOFF a = PGOFF x"
  shows "a = x"
proof (rule bit_word_eqI)
  fix n assume "n < LENGTH(64)"
  then have n: "n < 64" by simp
  have m: "(0x1FF :: 64 word) = mask 9" "(0xFFF :: 64 word) = mask 12" by (simp_all add: mask_eq_exp_minus_1)
  have "drop_bit 30 a AND mask 9 = drop_bit 30 x AND mask 9" "drop_bit 21 a AND mask 9 = drop_bit 21 x AND mask 9"
    "drop_bit 12 a AND mask 9 = drop_bit 12 x AND mask 9" "drop_bit 0 a AND mask 12 = drop_bit 0 x AND mask 12"
    using assms(3-6) unfolding PDX1_def PDX0_def PTX_def PGOFF_def m by (simp_all add: word_unat_eq_iff)
  note eq = this [THEN and_low_eq]
  show "bit a n = bit x n"
  proof (cases "n < 39")
    case False
    then show ?thesis using user_high_bits assms(1,2) by simp
  next
    case True
    then show ?thesis using eq [of n] n by (cases "n < 12"; cases "n < 21"; cases "n < 30") auto
  qed
qed

section \<open>One byte\<close>

lemma tables_cong:
  assumes "\<And>f. f \<in> tables m pd \<Longrightarrow> fr m' f = fr m f"
  shows "i < 512 \<Longrightarrow> t1 m' pd i = t1 m pd i" "i < 512 \<Longrightarrow> j < 512 \<Longrightarrow> t0 m' pd i j = t0 m pd i j"
    "i < 512 \<Longrightarrow> j < 512 \<Longrightarrow> leaf m' pd i j k = leaf m pd i j k" "tables m' pd = tables m pd"
proof -
  have p: "fr m' pd = fr m pd" by (rule assms) (simp add: tables_def)
  then show 1: "t1 m' pd i = t1 m pd i" for i by (simp add: t1_def)
  have f: "fr m' f = fr m f" if "i < 512" "t1 m pd i = Some f" for i f
    using that by (intro assms) (auto simp: tables_def)
  have 2: "t0 m' pd i j = t0 m pd i j" if "i < 512" for i j
    using f [OF that] by (simp add: t0_def 1 split: option.split) (simp add: t1_def)
  then show "i < 512 \<Longrightarrow> t0 m' pd i j = t0 m pd i j" for i j .
  have g: "fr m' g = fr m g" if "i < 512" "j < 512" "t0 m pd i j = Some g" for i j g
    using that by (intro assms) (auto simp: tables_def)
  show "leaf m' pd i j k = leaf m pd i j k" if "i < 512" "j < 512" for i j k
    using g [OF that] 2 [OF that(1)] by (simp add: leaf_def split: option.splits)
  show "tables m' pd = tables m pd" using 1 2 by (auto simp: tables_def)
qed

lemma uwrite_view:
  assumes ex: "data_excl m pd" and a: "a < USERTOP" "uread pd a m \<noteq> None"
  shows "\<exists>m'. uwrite pd a b m = Some m' \<and> data_excl m' pd \<and> uview m' pd = (uview m pd)(a \<mapsto> b) \<and>
    npage m' = npage m \<and> free_pg m' = free_pg m"
proof -
  define f where "f = pte_ppn (pte_of m pd a)"
  define m' where "m' = put_byte f (unat (PGOFF a)) b m"
  have v: "valid (pte_of m pd a)" using a(2) by (simp add: uread_def split: if_splits)
  have w: "uwrite pd a b m = Some m'" using v by (simp add: uwrite_def m'_def f_def)
  note D = data_exclD [OF ex index_bounds [of a] v [unfolded pte_of_def], folded pte_of_def]
  have nt: "f \<notin> tables m pd" using D(3) by (simp add: f_def)
  have fr: "fr m' g = fr m g" if "g \<noteq> f" for g using that by (simp add: m'_def put_byte_fr)
  have tc: "g \<in> tables m pd \<Longrightarrow> fr m' g = fr m g" for g using fr nt by (cases "g = f") auto
  note T = tables_cong [OF tc]
  have pte: "pte_of m' pd x = pte_of m pd x" for x using T(3) by (simp add: pte_of_def)
  have "data_excl m' pd" using ex T(3,4) by (simp add: data_excl_def data_ok_def m'_def)
  moreover have "uview m' pd x = ((uview m pd)(a \<mapsto> b)) x" for x
  proof (cases "x < USERTOP \<and> valid (pte_of m pd x)")
    case True
    have "pte_ppn (pte_of m pd x) = f \<and> unat (PGOFF x) = unat (PGOFF a) \<longleftrightarrow> x = a"
    proof
      assume h: "pte_ppn (pte_of m pd x) = f \<and> unat (PGOFF x) = unat (PGOFF a)"
      have "PDX1 x = PDX1 a \<and> PDX0 x = PDX0 a \<and> PTX x = PTX a"
        using D(5) [of "PDX1 x" "PDX0 x" "PTX x"] True h by (simp add: f_def pte_of_def [symmetric])
      then show "x = a" using same_address [of x a] h True a(1) by (simp add: word_unat_eq_iff)
    qed (simp add: f_def)
    then show ?thesis using True by (auto simp: uview_def uread_def pte) (simp_all add: m'_def get_put_byte)
  next
    case False
    then show ?thesis using v a(1) by (auto simp: uview_def uread_def pte)
  qed
  ultimately show ?thesis using w by (intro exI [of _ m']) (auto simp: m'_def)
qed

section \<open>Blocks of bytes\<close>

lemma offset_Suc:
  fixes x a :: "64 word"
  assumes "x \<noteq> a"
  shows "unat (x - a) = Suc (unat (x - (a + 1)))"
proof -
  have "x - (a + 1) = (x - a) - 1" by simp
  then have "unat (x - (a + 1)) = unat (x - a - 1)" by (simp only:)
  moreover have "x - a \<noteq> 0" using assms by simp
  ultimately show ?thesis using unat_minus_one [of "x - a"] unat_gt_0 [of "x - a"] by simp
qed

lemma uwrite_n_view:
  assumes "data_excl m pd" "\<forall>i<length bs. uview m pd (a + of_nat i) \<noteq> None" "length bs < 2 ^ 64"
  shows "\<exists>m'. uwrite_n pd a bs m = Some m' \<and> data_excl m' pd \<and> npage m' = npage m \<and> free_pg m' = free_pg m \<and>
    uview m' pd = (\<lambda>x. if unat (x - a) < length bs then Some (bs ! unat (x - a)) else uview m pd x)"
  using assms
proof (induction bs arbitrary: a m)
  case (Cons b bs)
  have "uview m pd a \<noteq> None" using Cons.prems(2) by auto
  then have "a < USERTOP" "uread pd a m \<noteq> None" by (auto simp: uview_def split: if_splits)
  from uwrite_view [OF Cons.prems(1) this] obtain m1 where m1: "uwrite pd a b m = Some m1" "data_excl m1 pd"
    "uview m1 pd = (uview m pd)(a \<mapsto> b)" "npage m1 = npage m" "free_pg m1 = free_pg m" by blast
  have "uview m1 pd (a + 1 + of_nat i) \<noteq> None" if "i < length bs" for i
    using Cons.prems(2) [rule_format, of "Suc i"] that by (simp add: m1(3) add.assoc)
  then obtain m' where m': "uwrite_n pd (a + 1) bs m1 = Some m'" "data_excl m' pd" "npage m' = npage m1" "free_pg m' = free_pg m1"
    "uview m' pd = (\<lambda>x. if unat (x - (a + 1)) < length bs then Some (bs ! unat (x - (a + 1))) else uview m1 pd x)"
    using Cons.IH [OF m1(2), of "a + 1"] Cons.prems(3) by auto
  have "uview m' pd x = (if unat (x - a) < length (b # bs) then Some ((b # bs) ! unat (x - a)) else uview m pd x)" for x
  proof (cases "x = a")
    case True
    have "a - (a + 1) = - 1" by simp
    moreover have "unat (- 1 :: 64 word) = 2 ^ 64 - 1" by (simp add: unsigned_minus_1_eq_mask mask_eq_exp_minus_1)
    ultimately have "unat (a - (a + 1)) = 2 ^ 64 - 1" by (simp only:)
    then show ?thesis using True Cons.prems(3) by (simp add: m'(5) m1(3))
  next
    case False
    then show ?thesis by (simp add: m'(5) m1(3) offset_Suc [OF False])
  qed
  then show ?case using m1 m' by auto
qed (auto intro: exI)

lemma uread_n_view:
  "\<forall>i<n. uview m pd (a + of_nat i) = Some (f i) \<Longrightarrow> uread_n pd a n m = Some (map f [0..<n])"
proof (induction n arbitrary: a f)
  case (Suc n)
  have "uview m pd a = Some (f 0)" using Suc.prems by auto
  then have "uread pd a m = Some (f 0)" by (simp add: uview_def split: if_splits)
  moreover have "uread_n pd (a + 1) n m = Some (map (f \<circ> Suc) [0..<n])"
    using Suc.prems by (intro Suc.IH) (force simp: add.assoc)
  moreover have "map f [0..<Suc n] = f 0 # map (f \<circ> Suc) [0..<n]" by (simp add: upt_conv_Cons map_Suc_upt [symmetric] del: upt_Suc)
  ultimately show ?case by simp
qed simp

lemma unat_offset: "n < 2 ^ 64 \<Longrightarrow> unat ((a + of_nat n) - a :: 64 word) = n"
  by (simp add: unat_of_nat take_bit_nat_eq_self)

lemma uread_n_written:
  assumes "length bs < 2 ^ 64" "uview m pd = (\<lambda>x. if unat (x - a) < length bs then Some (bs ! unat (x - a)) else g x)"
  shows "uread_n pd a (length bs) m = Some bs"
proof -
  have "uview m pd (a + of_nat i) = Some (bs ! i)" if "i < length bs" for i
    using that assms(1) by (simp only: assms(2) unat_offset if_True)
  then show ?thesis using uread_n_view [of "length bs" m pd a "nth bs"] by (simp add: map_nth)
qed

text \<open>The same with addresses as numbers: \<open>holds\<close> says where a block of bytes lies.\<close>

definition holds :: "pmem \<Rightarrow> nat \<Rightarrow> 64 word \<Rightarrow> 8 word list \<Rightarrow> bool" where
  "holds m pd a bs \<longleftrightarrow> (\<forall>j<length bs. uview m pd (a + of_nat j) = Some (bs ! j))"

definition same_mapped :: "pmem \<Rightarrow> pmem \<Rightarrow> nat \<Rightarrow> bool" where
  "same_mapped m m' pd \<longleftrightarrow> (\<forall>x. uview m' pd x = None \<longleftrightarrow> uview m pd x = None)"

lemma holds_uread: "holds m pd a bs \<Longrightarrow> uread_n pd a (length bs) m = Some bs"
  using uread_n_view [of "length bs" m pd a "nth bs"] by (simp add: holds_def map_nth)

lemma unat_plus_small: "unat (a :: 64 word) + n < 2 ^ 64 \<Longrightarrow> unat (a + of_nat n) = unat a + n"
  by (simp add: unat_word_ariths unat_of_nat take_bit_nat_eq_self)

lemma holds_frame:
  assumes "holds m pd a bs" "unat a + length bs < 2 ^ 64"
    and "\<And>x. unat a \<le> unat x \<Longrightarrow> unat x < unat a + length bs \<Longrightarrow> uview m' pd x = uview m pd x"
  shows "holds m' pd a bs"
  using assms by (simp add: holds_def unat_plus_small)

lemma uwrite_n_holds:
  assumes ex: "data_excl m pd" and len: "unat a + length bs < 2 ^ 64"
    and mapped: "\<And>x. unat a \<le> unat x \<Longrightarrow> unat x < unat a + length bs \<Longrightarrow> uview m pd x \<noteq> None"
  shows "\<exists>m'. uwrite_n pd a bs m = Some m' \<and> data_excl m' pd \<and> holds m' pd a bs \<and> same_mapped m m' pd \<and>
    (\<forall>x. unat x < unat a \<or> unat a + length bs \<le> unat x \<longrightarrow> uview m' pd x = uview m pd x)"
proof -
  have "\<forall>i<length bs. uview m pd (a + of_nat i) \<noteq> None" using mapped len by (simp add: unat_plus_small)
  then obtain m' where m': "uwrite_n pd a bs m = Some m'" "data_excl m' pd"
    "uview m' pd = (\<lambda>x. if unat (x - a) < length bs then Some (bs ! unat (x - a)) else uview m pd x)"
    using uwrite_n_view [OF ex _] len by fastforce
  have r: "unat (x - a) < length bs \<longleftrightarrow> unat a \<le> unat x \<and> unat x < unat a + length bs" for x :: "64 word"
    using len unsigned_less [of x] by (auto simp: unat_sub_if')
  have "holds m' pd a bs"
    unfolding holds_def
  proof (intro allI impI)
    fix j assume j: "j < length bs"
    then have "unat ((a + of_nat j) - a) = j" using len by (intro unat_offset) simp
    then show "uview m' pd (a + of_nat j) = Some (bs ! j)" using j by (simp only: m'(3) if_True)
  qed
  moreover have "same_mapped m m' pd" using mapped r by (auto simp: same_mapped_def m'(3))
  ultimately show ?thesis using m' r by auto
qed

section \<open>Copying between the kernel and a process\<close>

lemma user_check_loop_pm: "user_check_loop k s e wr v = Some y \<Longrightarrow> pm (snd y) = pm v"
proof (induction rule: user_check_loop.raw_induct [rotated 1, consumes 1, case_names step, where P = "\<lambda>k s e wr v y. pm (snd y) = pm v"])
  case (step loop k s e wr v y)
  obtain r v1 where f: "find_vma (Some k) s v = (r, v1)" by (cases "find_vma (Some k) s v")
  then have p: "pm v1 = pm v" by (auto simp: find_vma_def Let_def upd_mm_def split: if_splits)
  then have "loop k' s' e' wr' v1 = Some y \<Longrightarrow> pm (snd y) = pm v" for k' s' e' wr' using step(1) by simp
  then show ?case using step(2) f p by (auto split: if_splits option.splits)
qed

lemma user_mem_check_pm: "user_mem_check mo a len wr v = Some (r, v') \<Longrightarrow> pm v' = pm v"
  by (auto simp: user_mem_check_def split: option.splits if_splits dest!: user_check_loop_pm)

definition accessible :: "vm \<Rightarrow> nat \<Rightarrow> bool \<Rightarrow> 64 word \<Rightarrow> 64 word \<Rightarrow> bool" where
  "accessible v k wr a e \<longleftrightarrow> USER_ACCESS a e \<and> (\<forall>x. a \<le> x \<and> x < e \<longrightarrow> (\<exists>b\<in>set (mmap_list (mms v k)). may_access v wr b x))"

lemma user_mem_check_facts:
  assumes "mm_ok v k" "\<forall>a\<in>set (mmap_list (mms v k)). vm_start (vmas v a) \<le> vm_start (vmas v a) + PGSIZE"
  shows "\<exists>v'. user_mem_check (Some k) a len wr v = Some (accessible v k wr a (a + len), v') \<and> mm_ok v' k \<and> vmas v' = vmas v \<and>
    mmap_list (mms v' k) = mmap_list (mms v k) \<and> pm v' = pm v"
proof (cases "USER_ACCESS a (a + len)")
  case False
  then show ?thesis using assms(1) by (intro exI [of _ v]) (simp add: user_mem_check_def accessible_def)
next
  case True
  then show ?thesis
    using user_check_loop_correct [OF assms, of a "a + len" wr] user_check_loop_pm [of k a "a + len" wr v]
    by (auto simp: user_mem_check_def accessible_def)
qed

text \<open>
  C30: \<^verbatim>\<open>copy_to_user\<close> succeeds exactly on a range that lies in user space and in writable areas (above the
  guard page of a stack); it then replaces exactly the bytes of that range, and \<^verbatim>\<open>copy_from_user\<close> of the
  range brings the same bytes back where the areas allow it.  Otherwise no byte changes.
\<close>

theorem user_copy_roundtrip:
  assumes ok: "mm_ok v k" "\<forall>a\<in>set (mmap_list (mms v k)). vm_start (vmas v a) \<le> vm_start (vmas v a) + PGSIZE"
    and ex: "data_excl (pm v) pd" and mapped: "\<forall>i<length bs. uview (pm v) pd (dst + of_nat i) \<noteq> None"
    and len: "length bs < 2 ^ 64" "n = of_nat (length bs)"
  shows "\<exists>v1. copy_to_user (Some k) pd dst bs v = Some (accessible v k True dst (dst + n), v1) \<and> data_excl (pm v1) pd \<and>
    uview (pm v1) pd = (if accessible v k True dst (dst + n)
      then (\<lambda>x. if unat (x - dst) < length bs then Some (bs ! unat (x - dst)) else uview (pm v) pd x)
      else uview (pm v) pd) \<and>
    (accessible v k True dst (dst + n) \<longrightarrow>
      (\<forall>wr. \<exists>v2. copy_from_user (Some k) pd dst n wr v1 =
        Some (if accessible v k wr dst (dst + n) then Some bs else None, v2)))"
proof -
  obtain w where w: "user_mem_check (Some k) dst n True v = Some (accessible v k True dst (dst + n), w)" "mm_ok w k"
    "vmas w = vmas v" "mmap_list (mms w k) = mmap_list (mms v k)" "pm w = pm v"
    using user_mem_check_facts [OF ok] by blast
  show ?thesis
  proof (cases "accessible v k True dst (dst + n)")
    case False
    then show ?thesis using w ex len(2) by (auto simp: copy_to_user_def)
  next
    case True
    obtain m where m: "uwrite_n pd dst bs (pm v) = Some m" "data_excl m pd"
      "uview m pd = (\<lambda>x. if unat (x - dst) < length bs then Some (bs ! unat (x - dst)) else uview (pm v) pd x)"
      using uwrite_n_view [OF ex mapped len(1)] by blast
    let ?v1 = "w\<lparr>pm := m\<rparr>"
    have c: "copy_to_user (Some k) pd dst bs v = Some (True, ?v1)" using True w(1,5) m(1) len(2) by (simp add: copy_to_user_def)
    have acc: "accessible ?v1 k wr dst (dst + n) = accessible v k wr dst (dst + n)" for wr
      using w(3,4) by (simp add: accessible_def may_access_def in_vma_def)
    have again: "\<exists>v2. copy_from_user (Some k) pd dst n wr ?v1 = Some (if accessible v k wr dst (dst + n) then Some bs else None, v2)" for wr
    proof -
      have "mm_ok ?v1 k" "\<forall>a\<in>set (mmap_list (mms ?v1 k)). vm_start (vmas ?v1 a) \<le> vm_start (vmas ?v1 a) + PGSIZE"
        using w(2-4) ok(2) by (simp_all add: mm_ok_def)
      from user_mem_check_facts [OF this] obtain v2 where
        v2: "user_mem_check (Some k) dst n wr ?v1 = Some (accessible ?v1 k wr dst (dst + n), v2)" "pm v2 = pm ?v1" by blast
      moreover have "uread_n pd dst (unat n) m = Some bs"
        using uread_n_written [OF len(1) m(3)] len by (simp add: unat_of_nat take_bit_nat_eq_self)
      ultimately show ?thesis by (simp add: copy_from_user_def acc)
    qed
    show ?thesis using True c m(2,3) again by (intro exI [of _ ?v1]) simp
  qed
qed

theorem user_copy_roundtrip_witness:
  "\<exists>v1 v2. copy_to_user (Some 5) 10 0x200010 [1, 2, 3] demo_vm = Some (True, v1) \<and>
     copy_from_user (Some 5) 10 0x200010 3 False v1 = Some (Some [1, 2, 3], v2)"
proof -
  have p: "pm demo_vm = demo_mem" "mmap_list (mms demo_vm 5) = [0, 1]" by (simp_all add: demo_vm_def)
  have st: "\<forall>a\<in>set (mmap_list (mms demo_vm 5)). vm_start (vmas demo_vm a) \<le> vm_start (vmas demo_vm a) + PGSIZE"
    by (simp add: demo_vm_def PGSIZE_def)
  have ex: "data_excl (pm demo_vm) 10" by (simp add: p demo_data_excl)
  have i: "PDX1 x = 0 \<and> PDX0 x = 1 \<and> PTX x = 0" if "x \<in> {0x200010, 0x200011, 0x200012}" for x
    using that by (auto simp: PDX1_def PDX0_def PTX_def)
  have "uview (pm demo_vm) 10 (0x200010 + of_nat i) \<noteq> None" if "i < length [1, 2, 3 :: 8 word]" for i
  proof -
    have "i = 0 \<or> i = 1 \<or> i = 2" using that by auto
    then have x: "0x200010 + of_nat i \<in> {0x200010, 0x200011, 0x200012 :: 64 word}" by auto
    then have "0x200010 + of_nat i < USERTOP" by (auto simp: USERTOP_def)
    then show ?thesis using i [OF x] by (simp add: uview_def uread_def p pte_of_def demo_tables)
  qed
  then have m: "\<forall>i<length [1, 2, 3 :: 8 word]. uview (pm demo_vm) 10 (0x200010 + of_nat i) \<noteq> None" by blast
  have a: "accessible demo_vm 5 wr 0x200010 (0x200010 + 3)" for wr
  proof -
    have "may_access demo_vm wr 0 x" if "0x200010 \<le> x" "x < 0x200013" for x
    proof -
      have "0x200000 \<le> x" "x < 0x400000" using that by (simp_all add: word_le_nat_alt word_less_nat_alt)
      then show ?thesis by (simp add: may_access_def in_vma_def demo_vm_def VM_READ_def VM_WRITE_def VM_STACK_def)
    qed
    then show ?thesis by (auto simp: accessible_def p USER_ACCESS_def USERBASE_def USERTOP_def)
  qed
  show ?thesis using user_copy_roundtrip [OF demo_vm_ok st ex m _ refl] a by fastforce
qed

end
