(* ===== verification/Exec.thy ===== *)
theory Exec
  imports Proc UserMem
begin

text \<open>
  Loading a program: \<^verbatim>\<open>load_icode\<close> and \<^verbatim>\<open>do_execve\<close> of \<^verbatim>\<open>kern/process/proc.c\<close> with the file format of
  \<^verbatim>\<open>libs/elf.h\<close>.  The buffers that \<^verbatim>\<open>sysfile_read\<close> fills for the kernel (structures on its stack, frames of
  the new process) lie between \<^verbatim>\<open>KERNBASE\<close> and \<^verbatim>\<open>KERNTOP\<close>, so the check of the destination succeeds there;
  the bytes read are a result.  A kernel thread passes strings of the kernel's image, which the argument
  \<open>kimg\<close> gives.
\<close>

section \<open>The file layer on behalf of the current process\<close>

definition loaded_pgdir :: "'z kernel_scheme \<Rightarrow> nat" where
  "loaded_pgdir s = unat (satp s AND 0xFFFFFFFFFFF)"

definition as_current :: "'d pkernel \<Rightarrow> 'd fsys" where
  "as_current s =
     (case current s of
        None \<Rightarrow> fsx s
      | Some c \<Rightarrow> (fsx s)\<lparr>cur_filesp := filesp (procs s c), cur_mm := mm (procs s c), cur_pgdir := loaded_pgdir s,
                          cur_pid := Some (pid (procs s c))\<rparr>)"

definition fs_call :: "('d fsys \<Rightarrow> ('a \<times> 'd fsys) option) \<Rightarrow> 'd pkernel \<Rightarrow> ('a \<times> 'd pkernel) option" where
  "fs_call f s = do { (r, g) \<leftarrow> f (as_current s); Some (r, s\<lparr>fsx := g\<rparr>) }"

section \<open>Reading a file into kernel memory\<close>

text \<open>The loop of \<^verbatim>\<open>sysfile_read\<close> for a destination in the kernel; \<open>acc\<close> holds the bytes delivered so far.\<close>

partial_function (option) kread_loop ::
  "'d world \<Rightarrow> int \<Rightarrow> 8 word list \<Rightarrow> 64 word \<Rightarrow> 8 word list \<Rightarrow> int \<Rightarrow> 'd fsys \<Rightarrow> (int \<times> 8 word list \<times> 'd fsys) option" where
  "kread_loop W fd buf len acc ret s =
     (if len \<noteq> 0
      then do {
        let want = (if of_nat IOBUF_SIZE > len then len else of_nat IOBUF_SIZE);
        (r, buf1, alen, s1) \<leftarrow> file_read W fd buf (unat want) s;
        (len1, acc1, s2) \<leftarrow>
          (if alen \<noteq> 0
           then do {
             s2 \<leftarrow> lock_cur s1;
             assertc (len \<ge> of_nat alen);
             Some (len - of_nat alen, acc @ take alen buf1, unlock_cur s2)
           }
           else Some (len, acc, s1));
        if r \<noteq> 0 \<or> alen = 0 then Some (r, acc1, s2) else kread_loop W fd buf1 len1 acc1 r s2
      }
      else Some (ret, acc, s))"

definition sysfile_kread :: "'d world \<Rightarrow> int \<Rightarrow> 64 word \<Rightarrow> 'd fsys \<Rightarrow> (int \<times> 8 word list \<times> 'd fsys) option" where
  "sysfile_kread W fd len s =
     (if len = 0 then Some (0, [], s)
      else do {
        ok \<leftarrow> file_testfd fd True False s;
        if \<not> ok then Some (- E_INVAL, [], s)
        else
          (let (mem, s1) = kmalloc_ok s
           in if \<not> mem then Some (- E_NO_MEM, [], s1)
              else do {
                (ret, bs, s2) \<leftarrow> kread_loop W fd (replicate IOBUF_SIZE 0) len [] 0 s1;
                Some (if bs \<noteq> [] then int_of_size (of_nat (length bs)) else ret, bs, s2)
              })
      })"

definition load_icode_read ::
  "'d world \<Rightarrow> int \<Rightarrow> 64 word \<Rightarrow> 64 word \<Rightarrow> 'd pkernel \<Rightarrow> ((int \<times> 8 word list) \<times> 'd pkernel) option" where
  "load_icode_read W fd len offset s =
     do {
       (r, s1) \<leftarrow> fs_call (sysfile_seek W fd offset LSEEK_SET) s;
       if r \<noteq> 0 then Some ((r, []), s1)
       else do {
         ((r1, bs), s2) \<leftarrow>
           fs_call (\<lambda>f. do { (r1, bs, f1) \<leftarrow> sysfile_kread W fd len f; Some ((r1, bs), f1) }) s1;
         if (of_int r1 :: 64 word) \<noteq> len then Some ((if r1 < 0 then r1 else -1, bs), s2) else Some ((0, bs), s2)
       }
     }"

section \<open>The format of a program file\<close>

fun le_word :: "8 word list \<Rightarrow> 64 word" where
  "le_word [] = 0"
| "le_word (b # bs) = ucast b OR push_bit 8 (le_word bs)"

definition field :: "nat \<Rightarrow> nat \<Rightarrow> 8 word list \<Rightarrow> 64 word" where
  "field off n bs = le_word (take n (drop off bs))"

record elfhdr =
  e_magic :: "32 word"
  e_entry :: "64 word"
  e_phoff :: "64 word"
  e_phentsize :: "16 word"
  e_phnum :: "16 word"

record proghdr =
  ph_type :: "32 word"
  ph_flags :: "32 word"
  ph_offset :: "64 word"
  ph_va :: "64 word"
  ph_filesz :: "64 word"
  ph_memsz :: "64 word"

definition ELF_MAGIC :: "32 word" where "ELF_MAGIC = 0x464C457F"
definition ELF_PT_LOAD :: "32 word" where "ELF_PT_LOAD = 1"
definition ELF_PF_X :: "32 word" where "ELF_PF_X = 1"
definition ELF_PF_W :: "32 word" where "ELF_PF_W = 2"
definition ELF_PF_R :: "32 word" where "ELF_PF_R = 4"
definition SIZEOF_ELFHDR :: "64 word" where "SIZEOF_ELFHDR = 64"
definition SIZEOF_PROGHDR :: "64 word" where "SIZEOF_PROGHDR = 56"

text \<open>The fields the loader uses, at their offsets in the structures.\<close>

definition elf_of :: "8 word list \<Rightarrow> elfhdr" where
  "elf_of bs = \<lparr>e_magic = ucast (field 0 4 bs), e_entry = field 24 8 bs, e_phoff = field 32 8 bs,
                e_phentsize = ucast (field 54 2 bs), e_phnum = ucast (field 56 2 bs)\<rparr>"

definition ph_of :: "8 word list \<Rightarrow> proghdr" where
  "ph_of bs = \<lparr>ph_type = ucast (field 0 4 bs), ph_flags = ucast (field 4 4 bs), ph_offset = field 8 8 bs,
               ph_va = field 16 8 bs, ph_filesz = field 32 8 bs, ph_memsz = field 40 8 bs\<rparr>"

section \<open>One segment\<close>

definition seg_flags :: "32 word \<Rightarrow> 32 word" where
  "seg_flags fl = (if fl AND ELF_PF_X \<noteq> 0 then VM_EXEC else 0) OR (if fl AND ELF_PF_W \<noteq> 0 then VM_WRITE else 0) OR
     (if fl AND ELF_PF_R \<noteq> 0 then VM_READ else 0)"

definition seg_perm :: "32 word \<Rightarrow> 64 word" where
  "seg_perm v = PTE_U OR PTE_V OR (if v AND VM_READ \<noteq> 0 then PTE_R else 0) OR
     (if v AND VM_WRITE \<noteq> 0 then PTE_W OR PTE_R else 0) OR (if v AND VM_EXEC \<noteq> 0 then PTE_X else 0)"

fun put_bytes :: "nat \<Rightarrow> nat \<Rightarrow> 8 word list \<Rightarrow> pmem \<Rightarrow> pmem" where
  "put_bytes f off [] m = m"
| "put_bytes f off (b # bs) m = put_bytes f (off + 1) bs (put_byte f off b m)"

definition alloc_at :: "nat \<Rightarrow> 64 word \<Rightarrow> 64 word \<Rightarrow> 'd pkernel \<Rightarrow> (nat option \<times> 'd pkernel) option" where
  "alloc_at k la perm s =
     do { (po, m) \<leftarrow> pgdir_alloc_page (mm_pgdir (mms (get_vm s) k)) la perm (get_pm s); Some (po, set_pm m s) }"

text \<open>
  The steps (3.5) and (3.6).  \<open>Some r\<close> inside is the jump to \<^verbatim>\<open>bad_cleanup_mmap\<close> with \<^verbatim>\<open>ret\<close> equal to \<open>r\<close>;
  where no page is left, \<^verbatim>\<open>ret\<close> still has the 0 of the last call that succeeded.
\<close>

partial_function (option) load_data ::
  "'d world \<Rightarrow> int \<Rightarrow> nat \<Rightarrow> proghdr \<Rightarrow> 64 word \<Rightarrow> 64 word \<Rightarrow> 64 word \<Rightarrow> 64 word \<Rightarrow> 'd pkernel \<Rightarrow> (int option \<times> 'd pkernel) option"
where
  "load_data W fd k ph perm start en la s =
     (if start < en
      then do {
        (po, s1) \<leftarrow> alloc_at k la perm s;
        (case po of
           None \<Rightarrow> Some (Some 0, s1)
         | Some page \<Rightarrow>
             do {
               let off = start - la;
               let sz = (if en < la + PGSIZE then en - start else PGSIZE - off);
               page2kva page (get_pm s1);
               ((r, bs), s2) \<leftarrow> load_icode_read W fd sz (ph_offset ph + (start - ph_va ph)) s1;
               let s3 = set_pm (put_bytes page (unat off) bs (get_pm s2)) s2;
               if r \<noteq> 0 then Some (Some r, s3) else load_data W fd k ph perm (start + sz) en (la + PGSIZE) s3
             })
      }
      else Some (None, s))"

definition clear_at :: "nat \<Rightarrow> nat \<Rightarrow> nat \<Rightarrow> 'd pkernel \<Rightarrow> 'd pkernel option" where
  "clear_at page off n s =
     do { page2kva page (get_pm s); Some (set_pm (put_bytes page off (replicate n 0) (get_pm s)) s) }"

partial_function (option) load_bss :: "nat \<Rightarrow> 64 word \<Rightarrow> 64 word \<Rightarrow> 64 word \<Rightarrow> 64 word \<Rightarrow> 'd pkernel \<Rightarrow> (bool \<times> 'd pkernel) option" where
  "load_bss k perm start en la s =
     (if start < en
      then do {
        (po, s1) \<leftarrow> alloc_at k la perm s;
        (case po of
           None \<Rightarrow> Some (False, s1)
         | Some page \<Rightarrow> do { s2 \<leftarrow> clear_at page 0 4096 s1; load_bss k perm (start + PGSIZE) en (la + PGSIZE) s2 })
      }
      else Some (True, s))"

definition load_bss_head ::
  "nat \<Rightarrow> 64 word \<Rightarrow> 64 word \<Rightarrow> 64 word \<Rightarrow> 64 word \<Rightarrow> 'd pkernel \<Rightarrow> ((64 word \<times> 64 word) option \<times> 'd pkernel) option" where
  "load_bss_head k perm start en la s =
     (if start < la + PGSIZE
      then do {
        (po, s1) \<leftarrow> alloc_at k la perm s;
        (case po of
           None \<Rightarrow> Some (None, s1)
         | Some page \<Rightarrow>
             do {
               let off = start - la;
               let sz = (if en < la + PGSIZE then en - start else PGSIZE - off);
               s2 \<leftarrow> clear_at page (unat off) (unat sz) s1;
               Some (Some (start + sz, la + PGSIZE), s2)
             })
      }
      else Some (Some (start, la), s))"

definition load_segment ::
  "'d world \<Rightarrow> int \<Rightarrow> nat \<Rightarrow> proghdr \<Rightarrow> 'd pkernel \<Rightarrow> (int option \<times> 'd pkernel) option" where
  "load_segment W fd k ph s =
     (if ph_type ph \<noteq> ELF_PT_LOAD then Some (None, s)
      else if ph_filesz ph > ph_memsz ph then Some (Some (- E_INVAL_ELF), s)
      else do {
        let fl = seg_flags (ph_flags ph);
        let perm = seg_perm fl;
        (r, v) \<leftarrow> mm_map k (ph_va ph) (ph_memsz ph) fl (get_vm s);
        let s1 = set_vm v s;
        if r \<noteq> 0 then Some (Some r, s1)
        else do {
          (bad, s2) \<leftarrow>
            (if ph_filesz ph > 0
             then load_data W fd k ph perm (ph_va ph) (ph_va ph + ph_filesz ph) (ROUNDDOWN (ph_va ph) PGSIZE) s1
             else Some (None, s1));
          if bad \<noteq> None then Some (bad, s2)
          else if ph_memsz ph > ph_filesz ph
          then do {
            let start = ph_va ph + ph_filesz ph;
            let en = ph_va ph + ph_memsz ph;
            (h, s3) \<leftarrow> load_bss_head k perm start en (ROUNDDOWN start PGSIZE) s2;
            (case h of
               None \<Rightarrow> Some (Some 0, s3)
             | Some (start1, la1) \<Rightarrow>
                 do { (ok, s4) \<leftarrow> load_bss k perm start1 en la1 s3; Some (if ok then None else Some 0, s4) })
          }
          else Some (None, s2)
        }
      })"

text \<open>The loop over the program headers; \<open>n\<close> of them are left, \<open>i\<close> is the next one.\<close>

fun load_segments ::
  "'d world \<Rightarrow> int \<Rightarrow> nat \<Rightarrow> elfhdr \<Rightarrow> nat \<Rightarrow> nat \<Rightarrow> 'd pkernel \<Rightarrow> (int option \<times> 'd pkernel) option" where
  "load_segments W fd k elf i 0 s = Some (None, s)"
| "load_segments W fd k elf i (Suc n) s =
     do {
       ((r, bs), s1) \<leftarrow> load_icode_read W fd SIZEOF_PROGHDR (e_phoff elf + of_nat i * ucast (e_phentsize elf)) s;
       if r \<noteq> 0 then Some (Some r, s1)
       else do {
         (bad, s2) \<leftarrow> load_segment W fd k (ph_of bs) s1;
         if bad \<noteq> None then Some (bad, s2) else load_segments W fd k elf (i + 1) n s2
       }
     }"

section \<open>The arguments on the user stack\<close>

definition c_string :: "8 word list \<Rightarrow> 8 word list" where "c_string bs = takeWhile (\<lambda>b. b \<noteq> 0) bs @ [0]"

fun push_strings :: "nat \<Rightarrow> 64 word \<Rightarrow> 8 word list list \<Rightarrow> pmem \<Rightarrow> (64 word list \<times> 64 word \<times> pmem) option" where
  "push_strings pd stk [] m = Some ([], stk, m)"
| "push_strings pd stk (a # as) m =
     do {
       let stk1 = stk - of_nat (length (c_string a));
       m1 \<leftarrow> uwrite_n pd stk1 (c_string a) m;
       (ps, stk2, m2) \<leftarrow> push_strings pd stk1 as m1;
       Some (stk1 # ps, stk2, m2)
     }"

definition push_args :: "nat \<Rightarrow> 8 word list list \<Rightarrow> pmem \<Rightarrow> (64 word \<times> pmem) option" where
  "push_args pd kargv m =
     do {
       (ps, stk, m1) \<leftarrow> push_strings pd USTACKTOP kargv m;
       let argvp = ROUNDDOWN stk 16 - of_nat (length kargv + 1) * 8;
       m2 \<leftarrow> uwrite_n pd argvp (concat (map (le_bytes 8) (ps @ [0]))) m1;
       let sp = argvp - 4;
       m3 \<leftarrow> uwrite_n pd sp (le_bytes 4 (of_nat (length kargv))) m2;
       Some (sp, m3)
     }"

definition user_frame :: "64 word \<Rightarrow> 64 word \<Rightarrow> trapframe \<Rightarrow> trapframe" where
  "user_frame entry sp tf =
     \<lparr>gpr = (\<lambda>_. 0)(REG_SP := sp),
      tf_status = (tf_status tf AND NOT (SSTATUS_SPP OR SSTATUS_SPIE OR SSTATUS_SIE)) OR SSTATUS_SPIE,
      tf_epc = entry, tf_tval = 0, tf_cause = 0\<rparr>"

section \<open>load\_icode\<close>

fun alloc_stack :: "nat \<Rightarrow> nat list \<Rightarrow> 'd pkernel \<Rightarrow> 'd pkernel option" where
  "alloc_stack k [] s = Some s"
| "alloc_stack k (i # is') s =
     do {
       (po, s1) \<leftarrow> alloc_at k (USTACKTOP - of_nat i * PGSIZE) PTE_USER s;
       assertc (po \<noteq> None);
       alloc_stack k is' s1
     }"

text \<open>The steps (5) to (7), after which the new address space is the process's.\<close>

definition enter_user :: "nat \<Rightarrow> elfhdr \<Rightarrow> 8 word list list \<Rightarrow> 'd pkernel \<Rightarrow> 'd pkernel option" where
  "enter_user k elf kargv s =
     do {
       c \<leftarrow> current s;
       let s1 = set_vm (mm_count_inc k (get_vm s)) s;
       let pd = mm_pgdir (mms (get_vm s1) k);
       let s2 = lsatp (paddr pd) (upd_proc c (\<lambda>g. g\<lparr>mm := Some k, pgdir := paddr pd\<rparr>) s1);
       (sp, m) \<leftarrow> push_args pd kargv (get_pm s2);
       let s3 = set_pm m s2;
       let a = p_tf (procs s3 c);
       Some (s3\<lparr>tframes := (tframes s3)(a := user_frame (e_entry elf) sp (tframes s3 a))\<rparr>)
     }"

text \<open>The cleanup labels: with or without the areas of the address space.\<close>

definition load_fail :: "bool \<Rightarrow> nat \<Rightarrow> int \<Rightarrow> 'd pkernel \<Rightarrow> (int \<times> 'd pkernel) option" where
  "load_fail areas k ret s =
     do {
       v \<leftarrow> (if areas then exit_mmap k (get_vm s) else Some (get_vm s));
       let s1 = put_pgdir k (set_vm v s);
       v1 \<leftarrow> mm_destroy k (get_vm s1);
       Some (ret, set_vm v1 s1)
     }"

definition load_icode :: "'d world \<Rightarrow> int \<Rightarrow> 8 word list list \<Rightarrow> 'd pkernel \<Rightarrow> (int \<times> 'd pkernel) option" where
  "load_icode W fd kargv s =
     do {
       c \<leftarrow> current s;
       assertc (mm (procs s c) = None);
       (case mm_create (get_vm s) of
          (None, v) \<Rightarrow> Some (- E_NO_MEM, set_vm v s)
        | (Some k, v) \<Rightarrow>
            (let (r, s1) = setup_pgdir k (set_vm v s)
             in if r \<noteq> 0 then do { v1 \<leftarrow> mm_destroy k (get_vm s1); Some (- E_NO_MEM, set_vm v1 s1) }
                else do {
                  ((r1, bs), s2) \<leftarrow> load_icode_read W fd SIZEOF_ELFHDR 0 s1;
                  if r1 \<noteq> 0 then load_fail False k r1 s2
                  else if e_magic (elf_of bs) \<noteq> ELF_MAGIC then load_fail False k (- E_INVAL_ELF) s2
                  else do {
                    (bad, s3) \<leftarrow> load_segments W fd k (elf_of bs) 0 (unat (e_phnum (elf_of bs))) s2;
                    (case bad of
                       Some r2 \<Rightarrow> load_fail True k r2 s3
                     | None \<Rightarrow>
                         do {
                           (r2, v2) \<leftarrow> mm_map k (USTACKTOP - USTACKSIZE) USTACKSIZE (VM_READ OR VM_WRITE OR VM_STACK) (get_vm s3);
                           let s4 = set_vm v2 s3;
                           if r2 \<noteq> 0 then load_fail True k r2 s4
                           else do {
                             s5 \<leftarrow> alloc_stack k [1, 2, 3, 4] s4;
                             s6 \<leftarrow> enter_user k (elf_of bs) kargv s5;
                             Some (0, s6)
                           }
                         })
                  }
                }))
     }"

section \<open>execve\<close>

definition EXEC_MAX_ARG_NUM :: int where "EXEC_MAX_ARG_NUM = 32"
definition EXEC_MAX_ARG_LEN :: nat where "EXEC_MAX_ARG_LEN = 4095"

text \<open>
  \<^verbatim>\<open>copy_string\<close> and the access to \<^verbatim>\<open>argv\<close>, on user memory or, without an address space, on the kernel's image.
\<close>

fun kstr_n :: "(64 word \<Rightarrow> 8 word) \<Rightarrow> 64 word \<Rightarrow> nat \<Rightarrow> 8 word list" where
  "kstr_n kimg a 0 = []"
| "kstr_n kimg a (Suc n) = (if kimg a = 0 then [] else kimg a # kstr_n kimg (a + 1) n)"

partial_function (option) kstring_loop ::
  "(64 word \<Rightarrow> 8 word) \<Rightarrow> 64 word \<Rightarrow> 64 word \<Rightarrow> 64 word \<Rightarrow> 8 word list \<Rightarrow> 8 word list option option" where
  "kstring_loop kimg src part maxn acc =
     (let part1 = (if maxn < part then maxn else part)
      in if \<not> KERN_ACCESS src (src + part1) then Some None
         else
           (let bs = kstr_n kimg src (unat part1)
            in if length bs < unat part1 then Some (Some (acc @ bs @ [0]))
               else if part1 = maxn then Some None
               else kstring_loop kimg (src + part1) PGSIZE (maxn - part1) (acc @ bs)))"

definition fetch_string ::
  "(64 word \<Rightarrow> 8 word) \<Rightarrow> nat option \<Rightarrow> 64 word \<Rightarrow> 64 word \<Rightarrow> 'd pkernel \<Rightarrow> (8 word list option \<times> 'd pkernel) option" where
  "fetch_string kimg mo src maxn s =
     (case mo of
        Some k \<Rightarrow> do { (r, v) \<leftarrow> copy_string mo (loaded_pgdir s) src maxn (get_vm s); Some (r, set_vm v s) }
      | None \<Rightarrow> do { r \<leftarrow> kstring_loop kimg src (ROUNDDOWN (src + PGSIZE) PGSIZE - src) maxn []; Some (r, s) })"

definition fetch_ptr :: "(64 word \<Rightarrow> 8 word) \<Rightarrow> nat option \<Rightarrow> 64 word \<Rightarrow> 'd pkernel \<Rightarrow> 64 word option" where
  "fetch_ptr kimg mo a s =
     (case mo of
        Some k \<Rightarrow> do { bs \<leftarrow> uread_n (loaded_pgdir s) a 8 (get_pm s); Some (le_word bs) }
      | None \<Rightarrow> Some (le_word (map (\<lambda>i. kimg (a + of_nat i)) [0..<8])))"

text \<open>
  \<^verbatim>\<open>copy_kargv\<close>: \<open>n\<close> arguments are left, \<open>acc\<close> is \<^verbatim>\<open>kargv\<close> so far.  On failure \<^verbatim>\<open>put_kargv\<close> frees its
  buffers.
\<close>

fun copy_kargv_loop ::
  "(64 word \<Rightarrow> 8 word) \<Rightarrow> nat option \<Rightarrow> nat \<Rightarrow> 64 word \<Rightarrow> 8 word list list \<Rightarrow> 'd pkernel \<Rightarrow>
   ((int \<times> 8 word list list) \<times> 'd pkernel) option" where
  "copy_kargv_loop kimg mo 0 argv acc s = Some ((0, acc), s)"
| "copy_kargv_loop kimg mo (Suc n) argv acc s =
     (let (ok, f) = kmalloc_ok (fsx s); s1 = s\<lparr>fsx := f\<rparr>
      in if \<not> ok then Some ((- E_NO_MEM, []), s1)
         else do {
           a \<leftarrow> fetch_ptr kimg mo argv s1;
           (r, s2) \<leftarrow> fetch_string kimg mo a (of_nat (EXEC_MAX_ARG_LEN + 1)) s1;
           (case r of
              None \<Rightarrow> Some ((- E_INVAL, []), s2)
            | Some bs \<Rightarrow> copy_kargv_loop kimg mo n (argv + 8) (acc @ [bs]) s2)
         })"

definition copy_kargv ::
  "(64 word \<Rightarrow> 8 word) \<Rightarrow> nat option \<Rightarrow> int \<Rightarrow> 64 word \<Rightarrow> 'd pkernel \<Rightarrow> ((int \<times> 8 word list list) \<times> 'd pkernel) option" where
  "copy_kargv kimg mo argc argv s =
     do {
       (ok, v) \<leftarrow> user_mem_check mo argv (8 * of_int argc) False (get_vm s);
       let s1 = set_vm v s;
       if \<not> ok then Some ((- E_INVAL, []), s1) else copy_kargv_loop kimg mo (nat argc) argv [] s1
     }"

text \<open>The decimal digits \<^verbatim>\<open>snprintf\<close> writes for \<^verbatim>\<open>%d\<close>.\<close>

fun decimal :: "nat \<Rightarrow> string" where
  "decimal n = (if n < 10 then [] else decimal (n div 10)) @ [char_of (48 + n mod 10)]"

declare decimal.simps [simp del]

definition null_name :: "int \<Rightarrow> string" where
  "null_name i = take PROC_NAME_LEN (''<null> '' @ (if i < 0 then ''-'' else []) @ decimal (nat (abs i)))"

text \<open>\<^verbatim>\<open>sysfile_open(path, O_RDONLY)\<close>.\<close>

definition exec_open ::
  "'d world \<Rightarrow> (64 word \<Rightarrow> 8 word) \<Rightarrow> nat option \<Rightarrow> 64 word \<Rightarrow> 'd pkernel \<Rightarrow> (int \<times> 'd pkernel) option" where
  "exec_open W kimg mo path s =
     (case mo of
        Some k \<Rightarrow> fs_call (sysfile_open W path O_RDONLY) s
      | None \<Rightarrow>
          (let (ok, f) = kmalloc_ok (fsx s); s1 = s\<lparr>fsx := f\<rparr>
           in if \<not> ok then Some (- E_NO_MEM, s1)
              else do {
                (r, s2) \<leftarrow> fetch_string kimg mo path (of_nat (FS_MAX_FPATH_LEN + 1)) s1;
                (case r of
                   None \<Rightarrow> Some (- E_INVAL, s2)
                 | Some bs \<Rightarrow> fs_call (file_open W (path_of bs) O_RDONLY) s2)
              }))"

text \<open>
  The result \<open>Some r\<close> inside is a return to the caller; \<open>None\<close> says that the process has exited and
  another one runs.
\<close>

definition exec_fail ::
  "'d pkernel sched_class \<Rightarrow> 'd world \<Rightarrow> int \<Rightarrow> 'd pkernel \<Rightarrow> (int option \<times> 'd pkernel) option" where
  "exec_fail cls W ret s = do { t \<leftarrow> do_exit cls W ret s; Some (None, t) }"

definition do_execve ::
  "'d pkernel sched_class \<Rightarrow> 'd world \<Rightarrow> (64 word \<Rightarrow> 8 word) \<Rightarrow> 64 word \<Rightarrow> int \<Rightarrow> 64 word \<Rightarrow> 'd pkernel \<Rightarrow>
   (int option \<times> 'd pkernel) option" where
  "do_execve cls W kimg name argc argv s =
     do {
       c \<leftarrow> current s;
       let mo = mm (procs s c);
       if \<not> (argc \<ge> 1 \<and> argc \<le> EXEC_MAX_ARG_NUM) then Some (Some (- E_INVAL), s)
       else do {
         v0 \<leftarrow> lock_mm mo (Some (pid (procs s c))) (get_vm s);
         let s0 = set_vm v0 s;
         (nm, s1) \<leftarrow>
           (if name = 0 then Some (Some (null_name (pid (procs s c))), s0)
            else do {
              (r, s1) \<leftarrow> fetch_string kimg mo name (of_nat (PROC_NAME_LEN + 1)) s0;
              Some (map_option path_of r, s1)
            });
         (case nm of
            None \<Rightarrow> Some (Some (- E_INVAL), set_vm (unlock_mm mo (get_vm s1)) s1)
          | Some local_name \<Rightarrow>
              do {
                ((r1, kargv), s2) \<leftarrow> copy_kargv kimg mo argc argv s1;
                if r1 \<noteq> 0 then Some (Some r1, set_vm (unlock_mm mo (get_vm s2)) s2)
                else do {
                  path \<leftarrow> fetch_ptr kimg mo argv s2;
                  let s3 = set_vm (unlock_mm mo (get_vm s2)) s2;
                  k \<leftarrow> filesp (procs s3 c);
                  f4 \<leftarrow> files_closeall W k (as_current s3);
                  (fd, s5) \<leftarrow> exec_open W kimg mo path (s3\<lparr>fsx := f4\<rparr>);
                  if fd < 0 then exec_fail cls W fd s5
                  else do {
                    s6 \<leftarrow> (case mo of None \<Rightarrow> Some s5 | Some k \<Rightarrow> release_mm c k s5);
                    (r2, s7) \<leftarrow> load_icode W fd kargv s6;
                    if r2 \<noteq> 0 then exec_fail cls W r2 s7
                    else Some (Some 0, set_proc_name c local_name s7)
                  }
                }
              })
       }
     }"

section \<open>The first programs\<close>

text \<open>
  \<^verbatim>\<open>kernel_execve\<close> up to the jump to \<^verbatim>\<open>__trapret\<close>; \<^verbatim>\<open>init_main\<close> up to its first call of \<^verbatim>\<open>do_wait\<close>, and after the
  call of \<^verbatim>\<open>do_wait\<close> that finds no child.
\<close>

partial_function (option) count_args :: "(64 word \<Rightarrow> 8 word) \<Rightarrow> 64 word \<Rightarrow> int \<Rightarrow> 'd pkernel \<Rightarrow> int option" where
  "count_args kimg argv argc s =
     do {
       a \<leftarrow> fetch_ptr kimg None (argv + 8 * of_int argc) s;
       if a = 0 then Some argc else count_args kimg argv (argc + 1) s
     }"

definition kernel_execve ::
  "'d pkernel sched_class \<Rightarrow> 'd world \<Rightarrow> (64 word \<Rightarrow> 8 word) \<Rightarrow> 64 word \<Rightarrow> 64 word \<Rightarrow> 'd pkernel \<Rightarrow>
   (int option \<times> 'd pkernel) option" where
  "kernel_execve cls W kimg name argv s =
     do {
       c \<leftarrow> current s;
       argc \<leftarrow> count_args kimg argv 0 s;
       let new_tf = kstack (procs s c) + KSTACKSIZE - TRAPFRAME_SIZE;
       let s1 = s\<lparr>tframes := (tframes s)(new_tf := tframes s (p_tf (procs s c)))\<rparr>;
       do_execve cls W kimg name (sint (of_int argc :: 32 word)) argv (upd_proc c (\<lambda>g. g\<lparr>p_tf := new_tf\<rparr>) s1)
     }"

definition init_main_enter :: "'d pkernel sched_class \<Rightarrow> 'd world \<Rightarrow> 64 word \<Rightarrow> 'd pkernel \<Rightarrow> 'd pkernel option" where
  "init_main_enter cls W user_main s =
     do {
       (r, s1) \<leftarrow> fs_call (vfs_set_bootfs W (Some ''disk0:'')) s;
       assertc (r = 0);
       (i, s2) \<leftarrow> kernel_thread cls W user_main 0 0 s1;
       assertc (i > 0);
       Some s2
     }"

definition init_main_quit :: "'d world \<Rightarrow> 'd pkernel \<Rightarrow> (int \<times> 'd pkernel) option" where
  "init_main_quit W s =
     do {
       ((), s1) \<leftarrow> fs_call (\<lambda>f. do { g \<leftarrow> vfs_cleanup W f; Some ((), g) }) s;
       n \<leftarrow> initproc s1;
       assertc (cptr (procs s1 n) = None \<and> yptr (procs s1 n) = None \<and> optr (procs s1 n) = None);
       assertc (nr_process s1 = 2);
       assertc (list_next ProcHead (klinks s1) = ProcLink n);
       assertc (list_prev ProcHead (klinks s1) = ProcLink n);
       Some (0, s1)
     }"

section \<open>What lies on the user stack\<close>

definition args_size :: "8 word list list \<Rightarrow> nat" where "args_size as = sum_list (map (\<lambda>a. length (c_string a)) as)"

lemma push_strings_spec:
  assumes "data_excl m pd" "args_size as + lo \<le> unat stk"
    and "\<And>x. lo \<le> unat x \<Longrightarrow> unat x < unat stk \<Longrightarrow> uview m pd x \<noteq> None"
  shows "\<exists>ps stk' m'. push_strings pd stk as m = Some (ps, stk', m') \<and> length ps = length as \<and>
    unat stk' = unat stk - args_size as \<and> data_excl m' pd \<and> same_mapped m m' pd \<and>
    (\<forall>x. unat x < unat stk' \<or> unat stk \<le> unat x \<longrightarrow> uview m' pd x = uview m pd x) \<and>
    (\<forall>i<length as. unat stk' \<le> unat (ps ! i) \<and> unat (ps ! i) + length (c_string (as ! i)) \<le> unat stk \<and>
       holds m' pd (ps ! i) (c_string (as ! i)))"
  using assms
proof (induction as arbitrary: stk m)
  case (Cons a as)
  define stk1 where "stk1 = stk - of_nat (length (c_string a))"
  have sz: "args_size (a # as) = length (c_string a) + args_size as" by (simp add: args_size_def)
  have lt: "unat stk < 2 ^ 64" using unsigned_less [of stk] by simp
  have u1: "unat stk1 = unat stk - length (c_string a)"
    using Cons.prems(2) sz lt by (simp add: stk1_def unat_sub_if' unat_of_nat take_bit_nat_eq_self)
  have b1: "unat stk1 + length (c_string a) = unat stk" using u1 Cons.prems(2) sz by simp
  have lo1: "args_size as + lo \<le> unat stk1" using u1 Cons.prems(2) sz by simp
  obtain m1 where m1: "uwrite_n pd stk1 (c_string a) m = Some m1" "data_excl m1 pd" "holds m1 pd stk1 (c_string a)" "same_mapped m m1 pd"
    "\<And>x. unat x < unat stk1 \<or> unat stk1 + length (c_string a) \<le> unat x \<Longrightarrow> uview m1 pd x = uview m pd x"
    using uwrite_n_holds [OF Cons.prems(1), of stk1 "c_string a"] Cons.prems(3) b1 lo1 lt by fastforce
  have "uview m1 pd x \<noteq> None" if "lo \<le> unat x" "unat x < unat stk1" for x
    using m1(4) Cons.prems(3) [OF that(1)] that(2) b1 by (simp add: same_mapped_def)
  from Cons.IH [OF m1(2) lo1 this] obtain ps stk' m' where
    ih: "push_strings pd stk1 as m1 = Some (ps, stk', m')" "length ps = length as" "unat stk' = unat stk1 - args_size as"
      "data_excl m' pd" "same_mapped m1 m' pd" "\<And>x. unat x < unat stk' \<or> unat stk1 \<le> unat x \<Longrightarrow> uview m' pd x = uview m1 pd x"
      "\<And>i. i < length as \<Longrightarrow> unat stk' \<le> unat (ps ! i) \<and> unat (ps ! i) + length (c_string (as ! i)) \<le> unat stk1 \<and>
         holds m' pd (ps ! i) (c_string (as ! i))" by blast
  have h: "holds m' pd stk1 (c_string a)" by (rule holds_frame [OF m1(3)]) (use b1 lt ih(6) in auto)
  show ?case
  proof (intro exI conjI)
    show "push_strings pd stk (a # as) m = Some (stk1 # ps, stk', m')" using m1(1) ih(1) by (simp add: stk1_def [symmetric])
    show "unat stk' = unat stk - args_size (a # as)" using ih(3) u1 sz by simp
    show "same_mapped m m' pd" using m1(4) ih(5) by (simp add: same_mapped_def)
    show "\<forall>x. unat x < unat stk' \<or> unat stk \<le> unat x \<longrightarrow> uview m' pd x = uview m pd x"
      using m1(5) ih(3,6) b1 by force
    show "\<forall>i<length (a # as). unat stk' \<le> unat ((stk1 # ps) ! i) \<and>
        unat ((stk1 # ps) ! i) + length (c_string ((a # as) ! i)) \<le> unat stk \<and> holds m' pd ((stk1 # ps) ! i) (c_string ((a # as) ! i))"
      using h ih(3,7) b1 by (force simp: less_Suc_eq_0_disj)
  qed (use ih in auto)
qed (auto simp: args_size_def same_mapped_def)

lemma length_pointers: "length (concat (map (le_bytes 8) ps)) = 8 * length ps"
proof -
  have "length (le_bytes n w) = n" for n w by (induction n arbitrary: w) auto
  then show ?thesis by (induction ps) auto
qed

text \<open>
  C31: With enough mapped stack below \<^verbatim>\<open>USTACKTOP\<close>, pushing the arguments of \<^verbatim>\<open>execve\<close> leaves, upwards from
  the new stack pointer, the count, the pointers closed by NULL, and at each pointer its string with
  its zero.  The stack pointer is never aligned to 16 bytes, nor to 8.  The registers in which
  \<^verbatim>\<open>umain\<close> takes its arguments are 0 in the trapframe, so no program sees them.
\<close>

theorem push_args_correct:
  assumes ex: "data_excl m pd" and room: "args_size kargv + 8 * length kargv + 32 + lo \<le> unat USTACKTOP"
    and mapped: "\<forall>x. lo \<le> unat x \<and> unat x < unat USTACKTOP \<longrightarrow> uview m pd x \<noteq> None"
  shows "\<exists>sp m' ps. push_args pd kargv m = Some (sp, m') \<and> length ps = length kargv \<and> lo \<le> unat sp \<and>
    uread_n pd sp 4 m' = Some (le_bytes 4 (of_nat (length kargv))) \<and>
    uread_n pd (sp + 4) (8 * (length kargv + 1)) m' = Some (concat (map (le_bytes 8) (ps @ [0]))) \<and>
    (\<forall>i<length kargv. uread_n pd (ps ! i) (length (c_string (kargv ! i))) m' = Some (c_string (kargv ! i))) \<and>
    unat sp mod 8 = 4 \<and> gpr (user_frame entry sp tf) REG_SP = sp \<and> gpr (user_frame entry sp tf) REG_A0 = 0 \<and>
    gpr (user_frame entry sp tf) (REG_A0 + 1) = 0"
proof -
  let ?n = "length kargv"
  have top: "unat USTACKTOP = 2 ^ 31" by (simp add: USTACKTOP_def USERTOP_def)
  obtain ps stk m1 where s: "push_strings pd USTACKTOP kargv m = Some (ps, stk, m1)" "length ps = ?n"
    "unat stk = unat USTACKTOP - args_size kargv" "data_excl m1 pd" "same_mapped m m1 pd"
    "\<And>i. i < ?n \<Longrightarrow> unat stk \<le> unat (ps ! i) \<and> unat (ps ! i) + length (c_string (kargv ! i)) \<le> unat USTACKTOP \<and>
       holds m1 pd (ps ! i) (c_string (kargv ! i))"
    using push_strings_spec [OF ex, of kargv lo USTACKTOP] room mapped by auto
  define al where "al = ROUNDDOWN stk 16"
  define argvp where "argvp = al - of_nat (?n + 1) * 8"
  define sp where "sp = argvp - 4"
  have ual: "unat al = unat stk - unat stk mod 16"
    by (simp add: al_def ROUNDDOWN_def unat_sub_if' unat_mod)
  have big: "8 * ?n + 32 + lo \<le> unat stk" "unat stk \<le> 2 ^ 31" using s(3) room top by simp_all
  have n8: "unat (of_nat (?n + 1) * 8 :: 64 word) = 8 * (?n + 1)"
    using big by (simp add: unat_word_ariths unat_of_nat take_bit_nat_eq_self)
  have m16: "unat stk mod 16 < 16" by simp
  have uargvp: "unat argvp = unat al - 8 * (?n + 1)" using n8 ual big m16 by (simp add: argvp_def unat_sub_if')
  have usp: "unat sp = unat argvp - 4" using uargvp ual big m16 by (simp add: sp_def unat_sub_if')
  let ?ptrs = "concat (map (le_bytes 8) (ps @ [0]))"
  have lp: "length ?ptrs = 8 * (?n + 1)" using length_pointers [of "ps @ [0]"] s(2) by simp
  have end1: "unat argvp + length ?ptrs = unat al" "unat al \<le> unat stk" "lo + 4 \<le> unat argvp"
    using uargvp lp ual big m16 by simp_all
  have mp1: "uview m1 pd x \<noteq> None" if "lo \<le> unat x" "unat x < unat USTACKTOP" for x
    using s(5) mapped that by (simp add: same_mapped_def)
  obtain m2 where m2: "uwrite_n pd argvp ?ptrs m1 = Some m2" "data_excl m2 pd" "holds m2 pd argvp ?ptrs" "same_mapped m1 m2 pd"
    "\<And>x. unat x < unat argvp \<or> unat al \<le> unat x \<Longrightarrow> uview m2 pd x = uview m1 pd x"
    using uwrite_n_holds [OF s(4), of argvp ?ptrs] end1 mp1 big top by fastforce
  have l4: "length (le_bytes 4 w) = 4" for w by (simp add: eval_nat_numeral)
  have sp4: "unat sp + 4 = unat argvp" "lo \<le> unat sp" "sp + 4 = argvp" using usp end1(3) by (simp_all add: sp_def)
  have r: "unat sp + length (le_bytes 4 (of_nat ?n :: 64 word)) = unat argvp" using sp4(1) by (simp only: l4)
  have lt: "unat argvp < 2 ^ 64" using unsigned_less [of argvp] by simp
  have mp2: "uview m2 pd x \<noteq> None" if "unat sp \<le> unat x" "unat x < unat argvp" for x
  proof -
    have "uview m1 pd x \<noteq> None" using that sp4(2) end1(1,2) big(2) top by (intro mp1) simp_all
    then show ?thesis using m2(4) by (simp add: same_mapped_def)
  qed
  obtain m3 where m3: "uwrite_n pd sp (le_bytes 4 (of_nat ?n)) m2 = Some m3" "holds m3 pd sp (le_bytes 4 (of_nat ?n))"
    "\<And>x. unat x < unat sp \<or> unat argvp \<le> unat x \<Longrightarrow> uview m3 pd x = uview m2 pd x"
    using uwrite_n_holds [OF m2(2), of sp "le_bytes 4 (of_nat ?n)", unfolded r, OF lt mp2] by blast
  have h2: "holds m3 pd argvp ?ptrs" by (rule holds_frame [OF m2(3)]) (use m3(3) end1 big in auto)
  have h1: "holds m3 pd (ps ! i) (c_string (kargv ! i))" if "i < ?n" for i
    by (rule holds_frame [OF s(6) [OF that, THEN conjunct2, THEN conjunct2]])
       (use s(6) [OF that] m3(3) m2(5) end1 top in auto)
  have al8: "unat al mod 8 = 0"
  proof -
    have "unat al = 16 * (unat stk div 16)" using ual by (simp add: minus_mod_eq_mult_div)
    then show ?thesis by simp
  qed
  have "unat sp + 4 + 8 * (?n + 1) = unat al" using sp4(1) end1(1) lp by simp
  then have "unat sp mod 8 = 4" using al8 by presburger
  moreover have "push_args pd kargv m = Some (sp, m3)"
    using s(1) m2(1) m3(1) by (simp add: push_args_def al_def argvp_def sp_def Let_def)
  ultimately show ?thesis
    using s(2) sp4 holds_uread [OF m3(2)] holds_uread [OF h2] holds_uread [OF h1] lp
    by (intro exI [of _ sp] exI [of _ m3] exI [of _ ps])
       (auto simp: l4 user_frame_def REG_SP_def REG_A0_def)
qed

section \<open>The page between data and bss\<close>

lemma put_bytes_frames:
  "g \<noteq> f \<Longrightarrow> fr (put_bytes f off bs m) g = fr m g" "free_pg (put_bytes f off bs m) = free_pg m"
  "npage (put_bytes f off bs m) = npage m" "page_ref (put_bytes f off bs m) = page_ref m"
  "j < off \<Longrightarrow> get_byte (put_bytes f off bs m) g j = get_byte m g j"
  by (induction bs arbitrary: off m) (auto simp: put_byte_fr get_put_byte)

lemma alloc_over_mapped:
  assumes ok: "pt_ok m pd" and ex: "data_excl m pd"
    and mapped: "valid (pte_of m pd la)" "p = pte_ppn (pte_of m pd la)" and free: "free_pg m = q # qs" "page_ref m q = 0"
    and perm: "perm AND NOT 0x3FF = 0"
  shows "\<exists>m'. pgdir_alloc_page pd la perm m = Some (Some q, m') \<and> npage m' = npage m \<and> fr m' q = fr m q \<and> q \<notin> tables m' pd \<and>
    pte_of m' pd la = pte_create q (PTE_V OR perm) \<and> q \<noteq> p \<and> p \<in> set (free_pg m') \<and> q < npage m \<and> q < 2 ^ 40"
proof -
  define m1 where "m1 = m\<lparr>free_pg := qs\<rparr>"
  note O = pt_okD [OF ok]
  have al: "alloc_page m = (Some q, m1)" using alloc_page_spec [OF O(2)] free(1) by (simp add: m1_def)
  have q: "q < npage m" "q \<notin> tables m pd" "distinct qs" "q \<notin> set qs" using O(2,3,5) free(1) by auto
  have m1: "fr m1 = fr m" "npage m1 = npage m" "distinct (free_pg m1)" "page_ref m1 = page_ref m" "free_pg m1 = qs"
    using q(3) by (simp_all add: m1_def)
  have fo: "f \<in> set (free_pg m1) \<Longrightarrow> f < npage m \<and> f \<notin> tables m pd" for f using O(3,5) free(1) m1(5) by auto
  have o: "pt_ok m1 pd" "\<And>i j. t0 m1 pd i j = t0 m pd i j" "\<And>i j k. leaf m1 pd i j k = leaf m pd i j k" "tables m1 pd = tables m pd"
    by (rule pt_ok_outside [OF ok m1(1-3)], erule fo)+
  obtain g where g: "t0 m pd (PDX1 la) (PDX0 la) = Some g" using mapped(1) by (cases "t0 m pd (PDX1 la) (PDX0 la)") (auto simp: pte_of_def leaf_def)
  have gt: "g \<in> tables m pd" using g by (auto simp: tables_def intro: index_bounds)
  have e: "fr m g (PTX la) = pte_of m pd la" using g by (simp add: pte_of_def leaf_def)
  have pte: "get_pte pd la True m1 = Some (Some (g, PTX la), m1)"
  proof -
    obtain f where f: "t1 m pd (PDX1 la) = Some f" "t1 m f (PDX0 la) = Some g" using g by (auto simp: t0_def split: option.splits)
    have lt: "f < npage m1" "g < npage m1" using O(4) gt f(1) m1(2) by (auto simp: tables_def intro!: index_bounds)
    have "t1 m1 pd (PDX1 la) = Some f" "t1 m1 f (PDX0 la) = Some g" using f by (simp_all only: t1_def m1(1))
    then show ?thesis using pt_level_found [of m1 pd "PDX1 la" f True] pt_level_found [of m1 f "PDX0 la" g True] lt
      by (simp add: get_pte_def)
  qed
  note D = data_exclD [OF ex index_bounds [of la] mapped(1) [unfolded pte_of_def], folded pte_of_def mapped(2)]
  have pq: "p \<noteq> q" "p < npage m" "page_ref m p = 1" using D(1,2,4) free(1) by auto
  define m2 where "m2 = page_ref_inc q m1"
  define m3 where "m3 = set_pte (g, PTX la) 0 (free_page p (page_ref_dec p m2))"
  define m' where "m' = set_pte (g, PTX la) (pte_create q (PTE_V OR perm)) m3"
  have r2: "page_ref m2 q = 1" "page_ref m2 p = 1" "fr m2 = fr m" "npage m2 = npage m" "free_pg m2 = qs"
    using free(2) pq(1,3) m1 by (simp_all add: m2_def page_ref_inc_def set_page_ref_def)
  have p2: "pte2page (get_pte_at (g, PTX la) m2) m2 = Some p"
    using mapped pq(2) r2(3,4) e by (simp add: get_pte_at_def pte2page_def pa2page_def pte_ppn_def)
  have rm: "page_remove_pte (g, PTX la) m2 = Some m3"
    using p2 mapped(1) e r2(2,3) by (simp add: page_remove_pte_def get_pte_at_def m3_def page_ref_dec_def set_page_ref_def)
  have ins: "page_insert pd q la perm m1 = Some (0, m')"
    using pte p2 rm pq(1) e mapped(1) r2(3) by (simp add: page_insert_def m2_def [symmetric] get_pte_at_def m'_def)
  have f': "fr m' h x = (if h = g \<and> x = PTX la then pte_create q (PTE_V OR perm) else fr m h x)" for h x
    using r2(3) by (simp add: m'_def m3_def set_pte_def free_page_set page_ref_dec_def set_page_ref_def)
  have m': "page_ref m' q = 1" "npage m' = npage m" "p \<in> set (free_pg m')"
    using r2 pq(1) by (simp_all add: m'_def m3_def free_page_set page_ref_dec_def set_page_ref_def)
  have al': "pgdir_alloc_page pd la perm m = Some (Some q, m')" using al ins m'(1) by (simp add: pgdir_alloc_page_def)
  have gq: "g \<noteq> q" using gt q(2) by auto
  have T: "fr m' = fr (set_pte (g, PTX la) (pte_create q (PTE_V OR perm)) m1)"
    using f' m1(1) by (auto simp: set_pte_def fun_eq_iff)
  have t: "t0 m1 pd (PDX1 la) (PDX0 la) = Some g" using o(2) g by simp
  note S = set_leaf [OF o(1) index_bounds(1,2) t, where k = "PTX la" and e = "pte_create q (PTE_V OR perm)"]
  have same: "t1 m' x i = t1 (set_pte (g, PTX la) (pte_create q (PTE_V OR perm)) m1) x i" for x i by (simp add: t1_def T)
  have same0: "t0 m' x i j = t0 (set_pte (g, PTX la) (pte_create q (PTE_V OR perm)) m1) x i j" for x i j
    by (simp add: t0_def same split: option.split)
  have tab: "tables m' pd = tables m pd"
    using S(4) o(4) by (simp add: tables_def same same0)
  have "pte_of m' pd la = pte_create q (PTE_V OR perm)"
    using S(3) [of "PDX1 la" "PDX0 la" "PTX la"] by (simp only: pte_of_def leaf_def same0 T) simp
  then show ?thesis using al' m' f' gq tab q pq(1) O(1) by (intro exI [of _ m']) (auto simp: fun_eq_iff)
qed

text \<open>
  Where the zeroed part of a segment begins inside a page that already holds the end of its data,
  \<^verbatim>\<open>load_icode\<close> maps a fresh frame over that page: the frame with the data goes back to the allocator, and
  the addresses below the zeroed part now show what the fresh frame happened to contain.
\<close>

theorem bss_replaces_data_page:
  assumes pd: "pd = mm_pgdir (mms (get_vm s) k)" "m = get_pm s" and ok: "pt_ok m pd" "data_excl m pd"
    and start: "la = ROUNDDOWN start PGSIZE" "start < USERTOP"
    and mapped: "valid (pte_of m pd la)" "p = pte_ppn (pte_of m pd la)"
    and free: "free_pg m = q # qs" "page_ref m q = 0" and perm: "perm AND NOT 0x3FF = 0"
  shows "\<exists>h s'. load_bss_head k perm start en la s = Some (Some h, s') \<and> pte_ppn (pte_of (get_pm s') pd la) = q \<and> q \<noteq> p \<and>
    p \<in> set (free_pg (get_pm s')) \<and> (\<forall>off < unat (start - la). get_byte (get_pm s') q off = get_byte m q off)"
proof -
  obtain m1 where m1: "pgdir_alloc_page pd la perm m = Some (Some q, m1)" "npage m1 = npage m" "fr m1 q = fr m q" "q \<notin> tables m1 pd"
    "pte_of m1 pd la = pte_create q (PTE_V OR perm)" "q \<noteq> p" "p \<in> set (free_pg m1)" "q < npage m" "q < 2 ^ 40"
    using alloc_over_mapped [OF ok mapped free perm] by blast
  have "unat la = unat start - unat start mod 4096" by (simp add: start(1) ROUNDDOWN_def PGSIZE_def unat_sub_if' unat_mod)
  moreover have "unat start < 2 ^ 31" using start(2) by (simp add: USERTOP_def word_less_nat_alt)
  moreover have "unat start mod 4096 < 4096" by simp
  ultimately have "unat start < unat la + 4096" "unat la + 4096 < 2 ^ 64" by simp_all
  then have lt: "start < la + PGSIZE"
    using unat_plus_small [of la 4096] by (simp add: word_less_nat_alt PGSIZE_def)
  define s1 where "s1 = set_pm m1 s"
  define sz where "sz = (if en < la + PGSIZE then en - start else PGSIZE - (start - la))"
  define m2 where "m2 = put_bytes q (unat (start - la)) (replicate (unat sz) 0) m1"
  have g1: "get_pm s1 = m1" by (simp add: s1_def get_pm_def set_pm_def get_vm_def set_vm_def)
  have al: "alloc_at k la perm s = Some (Some q, s1)" using m1(1) pd by (simp add: alloc_at_def s1_def)
  have c: "clear_at q (unat (start - la)) (unat sz) s1 = Some (set_pm m2 s1)"
    using m1(2,8) by (simp add: clear_at_def page2kva_def g1 m2_def)
  have run: "load_bss_head k perm start en la s = Some (Some (start + sz, la + PGSIZE), set_pm m2 s1)"
    using al c lt by (simp add: load_bss_head_def sz_def)
  have g2: "get_pm (set_pm m2 s1) = m2" by (simp add: get_pm_def set_pm_def get_vm_def set_vm_def)
  have "f \<in> tables m1 pd \<Longrightarrow> fr m2 f = fr m1 f" for f
    using m1(4) put_bytes_frames(1) [of f q] by (cases "f = q") (auto simp: m2_def)
  note T = tables_cong [OF this]
  have "pte_of m2 pd la = pte_of m1 pd la" using T(3) by (simp add: pte_of_def)
  then have pq: "pte_ppn (pte_of m2 pd la) = q" using m1(5) pte_ppn_create [OF m1(9) perm_or_V [OF perm]] by simp
  have kept: "get_byte m2 q off = get_byte m q off" if "off < unat (start - la)" for off
    using that m1(3) by (simp add: m2_def put_bytes_frames) (simp add: get_byte_def)
  show ?thesis
    using run pq m1(6,7) kept by (intro exI [of _ "(start + sz, la + PGSIZE)"] exI [of _ "set_pm m2 s1"])
      (simp only: g2, simp add: m2_def put_bytes_frames)
qed

theorem bss_replaces_data_page_witness:
  "\<exists>h s'. load_bss_head 5 PTE_USER 0x200010 0x200020 0x200000 demo_exit = Some (Some h, s') \<and>
     pte_ppn (pte_of (get_pm s') 10 0x200000) = 50 \<and> 20 \<in> set (free_pg (get_pm s'))"
proof -
  have pd: "10 = mm_pgdir (mms (get_vm demo_exit) 5)" "demo_mem = get_pm demo_exit"
    by (simp_all add: get_vm_def get_pm_def demo_exit_def demo_fs_def demo_vm_def)
  have la: "(0x200000 :: 64 word) = ROUNDDOWN 0x200010 PGSIZE" "(0x200010 :: 64 word) < USERTOP"
    by (simp_all add: ROUNDDOWN_def PGSIZE_def USERTOP_def)
  have "PDX1 0x200000 = 0" "PDX0 0x200000 = 1" "PTX 0x200000 = 0" by (simp_all add: PDX1_def PDX0_def PTX_def)
  then have "pte_of demo_mem 10 0x200000 = pte_create 20 PTE_USER" by (simp add: pte_of_def demo_tables)
  then have mp: "valid (pte_of demo_mem 10 0x200000)" "20 = pte_ppn (pte_of demo_mem 10 0x200000)" by (simp_all add: demo_ppn)
  have fp: "free_pg demo_mem = 50 # [51, 52]" "page_ref demo_mem 50 = 0" "PTE_USER AND NOT 0x3FF = 0"
    by (simp_all add: demo_mem_def mmu_consts)
  show ?thesis using bss_replaces_data_page [OF pd demo_pt_ok demo_data_excl la mp fp, of "0x200020"] by blast
qed

definition demo_stack :: pmem where
  "demo_stack = demo_mem\<lparr>fr := (\<lambda>f k. if f = 10 \<and> k = 1 then pte_create 11 (PTE_U OR PTE_V)
     else if f = 11 \<and> k = 511 then pte_create 12 (PTE_U OR PTE_V)
     else if f = 12 \<and> k = 511 then pte_create 20 PTE_USER else 0)\<rparr>"

lemma demo_stack_leaf: "leaf demo_stack 10 i j k = (if i = 1 \<and> j = 511 \<and> k = 511 then pte_create 20 PTE_USER else 0)"
  by (simp add: leaf_def t0_def t1_def demo_stack_def demo_ppn)

lemma demo_stack_excl: "data_excl demo_stack 10"
proof -
  have "t1 demo_stack 10 i = (if i = 1 then Some 11 else None)" "t0 demo_stack 10 i j = (if i = 1 \<and> j = 511 then Some 12 else None)" for i j
    by (simp_all add: t0_def t1_def demo_stack_def demo_ppn)
  then have "tables demo_stack 10 \<subseteq> {10, 11, 12}" by (auto simp: tables_def split: if_splits)
  then have "20 \<notin> tables demo_stack 10" by auto
  moreover have "npage demo_stack = 100" "free_pg demo_stack = [50, 51, 52]" "page_ref demo_stack 20 = 1"
    by (simp_all add: demo_stack_def demo_mem_fields)
  ultimately show ?thesis
    by (auto simp: data_excl_def data_ok_def demo_stack_leaf demo_ppn split: if_splits)
qed

theorem push_args_correct_witness:
  "\<exists>sp m' p. push_args 10 [[0x61, 0x62, 0]] demo_stack = Some (sp, m') \<and> uread_n 10 sp 4 m' = Some [1, 0, 0, 0] \<and>
     uread_n 10 p 3 m' = Some [0x61, 0x62, 0]"
proof -
  have "uview demo_stack 10 x \<noteq> None" if "0x7FFFF000 \<le> unat x" "unat x < unat USTACKTOP" for x :: "64 word"
  proof -
    have x: "x < USERTOP" "unat x < 0x80000000" using that(2) by (simp_all add: USTACKTOP_def USERTOP_def word_less_nat_alt)
    have "unat (drop_bit 12 x) = unat x div 4096" by (simp add: unat_drop_bit_eq drop_bit_eq_div unat_div)
    also have "\<dots> = 0x7FFFF" by (rule div_nat_eqI) (use that(1) x(2) in simp_all)
    finally have d: "drop_bit 12 x = 0x7FFFF" by (simp add: word_unat_eq_iff)
    have "drop_bit 21 x = drop_bit 9 (drop_bit 12 x)" "drop_bit 30 x = drop_bit 18 (drop_bit 12 x)" by simp_all
    then have "PDX1 x = 1" "PDX0 x = 511" "PTX x = 511" unfolding PDX1_def PDX0_def PTX_def d by simp_all
    then show ?thesis using x(1) by (simp add: uview_def uread_def pte_of_def demo_stack_leaf)
  qed
  then have m: "\<forall>x. 0x7FFFF000 \<le> unat x \<and> unat x < unat USTACKTOP \<longrightarrow> uview demo_stack 10 x \<noteq> None" by blast
  have c: "c_string [0x61, 0x62, 0] = [0x61, 0x62, 0]" by (simp add: c_string_def)
  have room: "args_size [[0x61, 0x62, 0]] + 8 * length [[0x61, 0x62, 0 :: 8 word]] + 32 + 0x7FFFF000 \<le> unat USTACKTOP"
    by (simp add: args_size_def c USTACKTOP_def USERTOP_def)
  have l: "le_bytes 4 1 = [1, 0, 0, 0]" by (simp add: eval_nat_numeral)
  obtain sp m' ps where r: "push_args 10 [[0x61, 0x62, 0]] demo_stack = Some (sp, m')"
    "uread_n 10 sp 4 m' = Some (le_bytes 4 (of_nat (length [[0x61, 0x62, 0 :: 8 word]])))"
    "\<forall>i<length [[0x61, 0x62, 0 :: 8 word]]. uread_n 10 (ps ! i) (length (c_string ([[0x61, 0x62, 0]] ! i))) m' =
       Some (c_string ([[0x61, 0x62, 0]] ! i))"
    using push_args_correct [OF demo_stack_excl room m, of 0 undefined] by blast
  have "uread_n 10 sp 4 m' = Some [1, 0, 0, 0]" using r(2) l by simp
  moreover have "uread_n 10 (ps ! 0) 3 m' = Some [0x61, 0x62, 0]" using r(3) [rule_format, of 0] by (simp add: c numeral_3_eq_3 del: uread_n.simps)
  ultimately show ?thesis using r(1) by blast
qed

end
