(* ===== verification/Devices.thy ===== *)
theory Devices
  imports Vfs
begin

text \<open>
  The ram disks (\<^verbatim>\<open>kern/driver/ide.c\<close>, \<^verbatim>\<open>ramdisk.c\<close>) and the devices of the file layer
  (\<^verbatim>\<open>kern/fs/devs\<close>): the table of operations of a device inode, standard output, the disk with its
  staging buffer, and the ring buffer of standard input.  A \<^verbatim>\<open>struct device\<close> lives inside its inode and is
  named by the inode's number; its function pointers are a tag, and \<open>dop_io\<close> calls through it.
\<close>

section \<open>State\<close>

text \<open>\<open>ide_data\<close> is the memory from \<^verbatim>\<open>iobase\<close> on, also past the end of the image.\<close>

record ide_device =
  ide_valid :: bool
  ide_size :: nat
  ide_data :: "nat \<Rightarrow> 8 word"

datatype dev_ops = NoOps | StdinOps | StdoutOps | Disk0Ops

record device =
  d_blocks :: nat
  d_blocksize :: nat
  d_ops :: dev_ops

record stdin_state =
  stdin_buffer :: "8 word list"
  p_rpos :: int
  p_wpos :: int

record devices =
  ide_devices :: "nat \<Rightarrow> ide_device"
  device_at :: "nat \<Rightarrow> device"
  disk0_buffer :: "8 word list"
  disk0_sem :: int
  stdin :: stdin_state
  console :: "8 word list"

type_synonym 'z dfs = "'z devices_scheme fsys"

definition upd_devs :: "('d \<Rightarrow> 'd) \<Rightarrow> 'd fsys \<Rightarrow> 'd fsys" where "upd_devs f s = s\<lparr>devs := f (devs s)\<rparr>"

definition upd_ide :: "nat \<Rightarrow> (ide_device \<Rightarrow> ide_device) \<Rightarrow> 'z dfs \<Rightarrow> 'z dfs" where
  "upd_ide k f = upd_devs (\<lambda>d. d\<lparr>ide_devices := (ide_devices d)(k := f (ide_devices d k))\<rparr>)"

section \<open>ramdisk.c\<close>

definition SECTSIZE :: nat where "SECTSIZE = 512"
definition SWAP_DEV_NO :: nat where "SWAP_DEV_NO = 1"
definition DISK0_DEV_NO :: nat where "DISK0_DEV_NO = 2"

text \<open>\<^verbatim>\<open>MIN(nsecs, dev->size - secno)\<close> on \<^verbatim>\<open>size_t\<close>; the test \<^verbatim>\<open>nsecs < 0\<close> that follows is never true.\<close>

definition sectors_left :: "ide_device \<Rightarrow> nat \<Rightarrow> nat \<Rightarrow> nat" where
  "sectors_left dev secno nsecs = min nsecs (nat ((int (ide_size dev) - int secno) mod 2 ^ 64))"

definition ramdisk_read :: "nat \<Rightarrow> nat \<Rightarrow> 8 word list \<Rightarrow> nat \<Rightarrow> 'z dfs \<Rightarrow> int \<times> 8 word list" where
  "ramdisk_read k secno dst nsecs s =
     (let dev = ide_devices (devs s) k; n = sectors_left dev secno nsecs
      in (0, splice 0 (map (ide_data dev) [secno * SECTSIZE ..< secno * SECTSIZE + n * SECTSIZE]) dst))"

definition store_bytes :: "nat \<Rightarrow> 8 word list \<Rightarrow> (nat \<Rightarrow> 8 word) \<Rightarrow> nat \<Rightarrow> 8 word" where
  "store_bytes a bs m = (\<lambda>i. if a \<le> i \<and> i < a + length bs then bs ! (i - a) else m i)"

definition ramdisk_write :: "nat \<Rightarrow> nat \<Rightarrow> 8 word list \<Rightarrow> nat \<Rightarrow> 'z dfs \<Rightarrow> int \<times> 'z dfs" where
  "ramdisk_write k secno src nsecs s =
     (let n = sectors_left (ide_devices (devs s) k) secno nsecs
      in (0, upd_ide k (\<lambda>dev. dev\<lparr>ide_data := store_bytes (secno * SECTSIZE) (take (n * SECTSIZE) src) (ide_data dev)\<rparr>) s))"

text \<open>The image that the linker put into the kernel: its bytes and its length.\<close>

definition check_initrd :: "nat \<Rightarrow> bool" where "check_initrd len \<longleftrightarrow> len \<noteq> 0"

definition ramdisk_init :: "nat \<Rightarrow> (nat \<Rightarrow> 8 word) \<times> nat \<Rightarrow> (nat \<Rightarrow> 8 word) \<times> nat \<Rightarrow> 'z dfs \<Rightarrow> 'z dfs option" where
  "ramdisk_init devno swap_img sfs_img s =
     (let s0 = upd_ide devno (\<lambda>_. \<lparr>ide_valid = False, ide_size = 0, ide_data = (\<lambda>_. 0)\<rparr>) s
      in do {
        img \<leftarrow> (if devno = SWAP_DEV_NO then Some swap_img else if devno = DISK0_DEV_NO then Some sfs_img else None);
        Some (if check_initrd (snd img)
              then upd_ide devno (\<lambda>_. \<lparr>ide_valid = True, ide_size = u32 (snd img) div SECTSIZE, ide_data = fst img\<rparr>) s0
              else s0)
      })"

section \<open>ide.c\<close>

definition MAX_IDE :: nat where "MAX_IDE = 4"
definition MAX_NSECS :: nat where "MAX_NSECS = 128"
definition MAX_DISK_NSECS :: nat where "MAX_DISK_NSECS = 0x10000000"

definition ide_device_valid :: "nat \<Rightarrow> 'z dfs \<Rightarrow> bool" where
  "ide_device_valid k s \<longleftrightarrow> k < MAX_IDE \<and> ide_valid (ide_devices (devs s) k)"

definition ide_init :: "(nat \<Rightarrow> 8 word) \<times> nat \<Rightarrow> (nat \<Rightarrow> 8 word) \<times> nat \<Rightarrow> 'z dfs \<Rightarrow> 'z dfs option" where
  "ide_init swap_img sfs_img s =
     do {
       let s0 = fold (\<lambda>k. upd_ide k (\<lambda>d. d\<lparr>ide_valid := False\<rparr>)) [0..<MAX_IDE] s;
       s1 \<leftarrow> ramdisk_init SWAP_DEV_NO swap_img sfs_img s0;
       assertc (ide_device_valid SWAP_DEV_NO s1);
       s2 \<leftarrow> ramdisk_init DISK0_DEV_NO swap_img sfs_img s1;
       assertc (ide_device_valid DISK0_DEV_NO s2);
       Some s2
     }"

definition ide_device_size :: "nat \<Rightarrow> 'z dfs \<Rightarrow> nat" where
  "ide_device_size k s = (if ide_device_valid k s then ide_size (ide_devices (devs s) k) else 0)"

text \<open>\<^verbatim>\<open>secno\<close> is an \<^verbatim>\<open>uint32_t\<close> and \<^verbatim>\<open>nsecs\<close> a \<^verbatim>\<open>size_t\<close>: their sum does not wrap.\<close>

definition ide_read_secs :: "nat \<Rightarrow> nat \<Rightarrow> 8 word list \<Rightarrow> nat \<Rightarrow> 'z dfs \<Rightarrow> (int \<times> 8 word list) option" where
  "ide_read_secs k secno dst nsecs s =
     do {
       assertc (nsecs \<le> MAX_NSECS \<and> ide_device_valid k s);
       assertc (secno < MAX_DISK_NSECS \<and> secno + nsecs \<le> MAX_DISK_NSECS);
       Some (ramdisk_read k secno dst nsecs s)
     }"

definition ide_write_secs :: "nat \<Rightarrow> nat \<Rightarrow> 8 word list \<Rightarrow> nat \<Rightarrow> 'z dfs \<Rightarrow> (int \<times> 'z dfs) option" where
  "ide_write_secs k secno src nsecs s =
     do {
       assertc (nsecs \<le> MAX_NSECS \<and> ide_device_valid k s);
       assertc (secno < MAX_DISK_NSECS \<and> secno + nsecs \<le> MAX_DISK_NSECS);
       Some (ramdisk_write k secno src nsecs s)
     }"

section \<open>dev\_disk0.c\<close>

definition DISK0_BLKSIZE :: nat where "DISK0_BLKSIZE = 4096"
definition DISK0_BUFSIZE :: nat where "DISK0_BUFSIZE = 4 * DISK0_BLKSIZE"
definition DISK0_BLK_NSECT :: nat where "DISK0_BLK_NSECT = DISK0_BLKSIZE div SECTSIZE"

definition lock_disk0 :: "'z dfs \<Rightarrow> 'z dfs option" where
  "lock_disk0 s = do { assertc (0 < disk0_sem (devs s)); Some (upd_devs (\<lambda>d. d\<lparr>disk0_sem := disk0_sem d - 1\<rparr>) s) }"

definition unlock_disk0 :: "'z dfs \<Rightarrow> 'z dfs" where
  "unlock_disk0 = upd_devs (\<lambda>d. d\<lparr>disk0_sem := disk0_sem d + 1\<rparr>)"

definition disk0_open :: "32 word \<Rightarrow> int" where "disk0_open fl = 0"
definition disk0_close :: int where "disk0_close = 0"

definition disk0_read_blks_nolock :: "nat \<Rightarrow> nat \<Rightarrow> 'z dfs \<Rightarrow> 'z dfs option" where
  "disk0_read_blks_nolock blkno nblks s =
     do {
       (ret, data) \<leftarrow> ide_read_secs DISK0_DEV_NO (u32 (blkno * DISK0_BLK_NSECT)) (disk0_buffer (devs s)) (u32 (nblks * DISK0_BLK_NSECT)) s;
       assertc (ret = 0);
       Some (upd_devs (\<lambda>d. d\<lparr>disk0_buffer := data\<rparr>) s)
     }"

definition disk0_write_blks_nolock :: "nat \<Rightarrow> nat \<Rightarrow> 'z dfs \<Rightarrow> 'z dfs option" where
  "disk0_write_blks_nolock blkno nblks s =
     do {
       (ret, s1) \<leftarrow> ide_write_secs DISK0_DEV_NO (u32 (blkno * DISK0_BLK_NSECT)) (disk0_buffer (devs s)) (u32 (nblks * DISK0_BLK_NSECT)) s;
       assertc (ret = 0);
       Some s1
     }"

partial_function (option) disk0_loop :: "bool \<Rightarrow> iobuf \<Rightarrow> nat \<Rightarrow> nat \<Rightarrow> 'z dfs \<Rightarrow> (iobuf \<times> 'z dfs) option" where
  "disk0_loop wr iob blkno resid s =
     (if resid = 0 then Some (iob, s)
      else if wr then do {
        (r, iob1, data, copied) \<leftarrow> iobuf_move iob (disk0_buffer (devs s)) DISK0_BUFSIZE False;
        assertc (copied \<noteq> 0 \<and> copied \<le> resid \<and> copied mod DISK0_BLKSIZE = 0);
        let nblks = copied div DISK0_BLKSIZE;
        s1 \<leftarrow> disk0_write_blks_nolock blkno nblks (upd_devs (\<lambda>d. d\<lparr>disk0_buffer := data\<rparr>) s);
        disk0_loop wr iob1 (u32 (blkno + nblks)) (resid - copied) s1
      }
      else do {
        let alen = min DISK0_BUFSIZE resid;
        let nblks = alen div DISK0_BLKSIZE;
        s1 \<leftarrow> disk0_read_blks_nolock blkno nblks s;
        (r, iob1, _, copied) \<leftarrow> iobuf_move iob (disk0_buffer (devs s1)) alen True;
        assertc (copied = alen \<and> copied mod DISK0_BLKSIZE = 0);
        disk0_loop wr iob1 (u32 (blkno + nblks)) (resid - copied) s1
      })"

text \<open>
  The block number is only used when the offset is a multiple of the block size, so that the division needs
  no rounding.
\<close>

definition disk0_io :: "nat \<Rightarrow> iobuf \<Rightarrow> bool \<Rightarrow> 'z dfs \<Rightarrow> (int \<times> iobuf \<times> 'z dfs) option" where
  "disk0_io dev iob wr s =
     (let offset = sint (io_offset iob); resid = io_resid iob;
          blkno = nat (offset div int DISK0_BLKSIZE mod 2 ^ 32); nblks = u32 (resid div DISK0_BLKSIZE)
      in if offset mod int DISK0_BLKSIZE \<noteq> 0 \<or> resid mod DISK0_BLKSIZE \<noteq> 0 then Some (- E_INVAL, iob, s)
         else if u32 (blkno + nblks) > d_blocks (device_at (devs s) dev) then Some (- E_INVAL, iob, s)
         else if nblks = 0 then Some (0, iob, s)
         else do {
           s1 \<leftarrow> lock_disk0 s;
           (iob1, s2) \<leftarrow> disk0_loop wr iob blkno resid s1;
           Some (0, iob1, unlock_disk0 s2)
         })"

definition disk0_ioctl :: int where "disk0_ioctl = - E_UNIMP"

definition disk0_device_init :: "nat \<Rightarrow> 'z dfs \<Rightarrow> 'z dfs option" where
  "disk0_device_init node s =
     do {
       assertc (ide_device_valid DISK0_DEV_NO s);
       let dev = \<lparr>d_blocks = ide_device_size DISK0_DEV_NO s div DISK0_BLK_NSECT, d_blocksize = DISK0_BLKSIZE, d_ops = Disk0Ops\<rparr>;
       let s1 = upd_devs (\<lambda>d. d\<lparr>device_at := (device_at d)(node := dev), disk0_sem := 1\<rparr>) s;
       let (ok, s2) = kmalloc_ok s1;
       assertc ok;
       Some (upd_devs (\<lambda>d. d\<lparr>disk0_buffer := replicate DISK0_BUFSIZE 0\<rparr>) s2)
     }"

section \<open>dev\_stdout.c\<close>

definition stdout_open :: "32 word \<Rightarrow> int" where "stdout_open fl = (if fl \<noteq> O_WRONLY then - E_INVAL else 0)"
definition stdout_close :: int where "stdout_close = 0"
definition stdout_ioctl :: int where "stdout_ioctl = - E_INVAL"

fun stdout_loop :: "8 word list \<Rightarrow> nat \<Rightarrow> nat \<Rightarrow> 8 word list \<Rightarrow> 8 word list" where
  "stdout_loop mem a 0 con = con"
| "stdout_loop mem a (Suc n) con = stdout_loop mem (a + 1) n (con @ [mem ! a])"

definition stdout_io :: "iobuf \<Rightarrow> bool \<Rightarrow> 'z dfs \<Rightarrow> (int \<times> iobuf \<times> 'z dfs) option" where
  "stdout_io iob wr s =
     (if wr
      then Some (0, iob\<lparr>io_resid := 0\<rparr>,
        upd_devs (\<lambda>d. d\<lparr>console := stdout_loop (io_mem iob) (io_base iob) (io_resid iob) (console d)\<rparr>) s)
      else Some (- E_INVAL, iob, s))"

definition stdout_device_init :: "nat \<Rightarrow> 'z dfs \<Rightarrow> 'z dfs" where
  "stdout_device_init node =
     upd_devs (\<lambda>d. d\<lparr>device_at := (device_at d)(node := \<lparr>d_blocks = 0, d_blocksize = 1, d_ops = StdoutOps\<rparr>)\<rparr>)"

section \<open>dev\_stdin.c\<close>

definition STDIN_BUFSIZE :: nat where "STDIN_BUFSIZE = 4096"

text \<open>The part of \<^verbatim>\<open>dev_stdin_write\<close> that stores the character.\<close>

definition stdin_put :: "8 word \<Rightarrow> stdin_state \<Rightarrow> stdin_state" where
  "stdin_put c st =
     (let st1 = st\<lparr>stdin_buffer := (stdin_buffer st)[nat (p_wpos st mod int STDIN_BUFSIZE) := c]\<rparr>
      in if p_wpos st1 - p_rpos st1 < int STDIN_BUFSIZE then st1\<lparr>p_wpos := p_wpos st1 + 1\<rparr> else st1)"

text \<open>
  The loop of \<^verbatim>\<open>dev_stdin_read\<close> up to the point where it has to wait: the bytes, and whether all were there.
\<close>

fun stdin_take :: "nat \<Rightarrow> stdin_state \<Rightarrow> 8 word list \<times> bool \<times> stdin_state" where
  "stdin_take 0 st = ([], True, st)"
| "stdin_take (Suc n) st =
     (if p_rpos st < p_wpos st
      then (let c = stdin_buffer st ! nat (p_rpos st mod int STDIN_BUFSIZE);
                (bs, full, st1) = stdin_take n (st\<lparr>p_rpos := p_rpos st + 1\<rparr>)
            in (c # bs, full, st1))
      else ([], False, st))"

definition stdin_open :: "32 word \<Rightarrow> int" where "stdin_open fl = (if fl \<noteq> O_RDONLY then - E_INVAL else 0)"
definition stdin_close :: int where "stdin_close = 0"
definition stdin_ioctl :: int where "stdin_ioctl = - E_INVAL"

text \<open>A read that has to wait for the keyboard does not come back here, so it is \<open>None\<close>.\<close>

definition stdin_io :: "iobuf \<Rightarrow> bool \<Rightarrow> 'z dfs \<Rightarrow> (int \<times> iobuf \<times> 'z dfs) option" where
  "stdin_io iob wr s =
     (if \<not> wr
      then (let (bs, full, st) = stdin_take (io_resid iob) (stdin (devs s)); ret = length bs
            in do {
              assertc full;
              Some (int ret, iob\<lparr>io_mem := splice (io_base iob) bs (io_mem iob), io_resid := io_resid iob - ret\<rparr>,
                upd_devs (\<lambda>d. d\<lparr>stdin := st\<rparr>) s)
            })
      else Some (- E_INVAL, iob, s))"

definition stdin_device_init :: "nat \<Rightarrow> 'z dfs \<Rightarrow> 'z dfs" where
  "stdin_device_init node =
     upd_devs (\<lambda>d. d\<lparr>device_at := (device_at d)(node := \<lparr>d_blocks = 0, d_blocksize = 1, d_ops = StdinOps\<rparr>),
       stdin := (stdin d)\<lparr>p_rpos := 0, p_wpos := 0\<rparr>\<rparr>)"

section \<open>dev.c\<close>

definition dop_open :: "nat \<Rightarrow> 32 word \<Rightarrow> 'z dfs \<Rightarrow> int option" where
  "dop_open dev fl s =
     (case d_ops (device_at (devs s) dev) of
        NoOps \<Rightarrow> None | StdinOps \<Rightarrow> Some (stdin_open fl) | StdoutOps \<Rightarrow> Some (stdout_open fl) | Disk0Ops \<Rightarrow> Some (disk0_open fl))"

definition dop_close :: "nat \<Rightarrow> 'z dfs \<Rightarrow> int option" where
  "dop_close dev s =
     (case d_ops (device_at (devs s) dev) of
        NoOps \<Rightarrow> None | StdinOps \<Rightarrow> Some stdin_close | StdoutOps \<Rightarrow> Some stdout_close | Disk0Ops \<Rightarrow> Some disk0_close)"

definition dop_io :: "nat \<Rightarrow> iobuf \<Rightarrow> bool \<Rightarrow> 'z dfs \<Rightarrow> (int \<times> iobuf \<times> 'z dfs) option" where
  "dop_io dev iob wr s =
     (case d_ops (device_at (devs s) dev) of
        NoOps \<Rightarrow> None | StdinOps \<Rightarrow> stdin_io iob wr s | StdoutOps \<Rightarrow> stdout_io iob wr s | Disk0Ops \<Rightarrow> disk0_io dev iob wr s)"

definition dop_ioctl :: "nat \<Rightarrow> 'z dfs \<Rightarrow> int option" where
  "dop_ioctl dev s =
     (case d_ops (device_at (devs s) dev) of
        NoOps \<Rightarrow> None | StdinOps \<Rightarrow> Some stdin_ioctl | StdoutOps \<Rightarrow> Some stdout_ioctl | Disk0Ops \<Rightarrow> Some disk0_ioctl)"

text \<open>\<^verbatim>\<open>vop_info(node, device)\<close>\<close>

definition device_of :: "nat \<Rightarrow> 'd fsys \<Rightarrow> nat option" where
  "device_of n s = do { assertc (in_type (inodes s n) = device_info); Some n }"

definition dev_open :: "nat \<Rightarrow> 32 word \<Rightarrow> 'z dfs \<Rightarrow> (int \<times> 'z dfs) option" where
  "dev_open node fl s =
     (if fl AND (O_CREAT OR O_TRUNC OR O_EXCL OR O_APPEND) \<noteq> 0 then Some (- E_INVAL, s)
      else do { dev \<leftarrow> device_of node s; r \<leftarrow> dop_open dev fl s; Some (r, s) })"

definition dev_close :: "nat \<Rightarrow> 'z dfs \<Rightarrow> (int \<times> 'z dfs) option" where
  "dev_close node s = do { dev \<leftarrow> device_of node s; r \<leftarrow> dop_close dev s; Some (r, s) }"

definition dev_read :: "nat \<Rightarrow> iobuf \<Rightarrow> 'z dfs \<Rightarrow> (int \<times> iobuf \<times> 'z dfs) option" where
  "dev_read node iob s = do { dev \<leftarrow> device_of node s; dop_io dev iob False s }"

definition dev_write :: "nat \<Rightarrow> iobuf \<Rightarrow> 'z dfs \<Rightarrow> (int \<times> iobuf \<times> 'z dfs) option" where
  "dev_write node iob s = do { dev \<leftarrow> device_of node s; dop_io dev iob True s }"

definition dev_ioctl :: "nat \<Rightarrow> 'z dfs \<Rightarrow> int option" where
  "dev_ioctl node s = do { dev \<leftarrow> device_of node s; dop_ioctl dev s }"

definition S_IFREG :: "32 word" where "S_IFREG = 0x1000"
definition S_IFLNK :: "32 word" where "S_IFLNK = 0x3000"
definition S_IFCHR :: "32 word" where "S_IFCHR = 0x4000"
definition S_IFBLK :: "32 word" where "S_IFBLK = 0x5000"

definition dev_gettype :: "nat \<Rightarrow> 'z dfs \<Rightarrow> (int \<times> 32 word \<times> 'z dfs) option" where
  "dev_gettype node s =
     do { dev \<leftarrow> device_of node s; Some (0, if d_blocks (device_at (devs s) dev) > 0 then S_IFBLK else S_IFCHR, s) }"

definition dev_fstat :: "'z devices_scheme world \<Rightarrow> nat \<Rightarrow> 'z dfs \<Rightarrow> (int \<times> stat \<times> 'z dfs) option" where
  "dev_fstat W node s =
     do {
       (ret, md, s1) \<leftarrow> vop_gettype W node s;
       let st = \<lparr>st_mode = md, st_nlinks = 0, st_blocks = 0, st_size = 0\<rparr>;
       if ret \<noteq> 0 then Some (ret, st, s1)
       else do {
         dev \<leftarrow> device_of node s1;
         let d = device_at (devs s1) dev;
         Some (0, st\<lparr>st_nlinks := 1, st_blocks := of_nat (d_blocks d), st_size := of_nat (d_blocks d) * of_nat (d_blocksize d)\<rparr>, s1)
       }
     }"

definition dev_tryseek :: "nat \<Rightarrow> 64 word \<Rightarrow> 'z dfs \<Rightarrow> (int \<times> 'z dfs) option" where
  "dev_tryseek node pos s =
     do {
       dev \<leftarrow> device_of node s;
       let d = device_at (devs s) dev;
       Some (if d_blocks d > 0 \<and> unat pos mod d_blocksize d = 0 \<and> sint pos \<ge> 0 \<and>
                unat pos < d_blocks d * d_blocksize d mod 2 ^ 64
             then 0 else - E_INVAL, s)
     }"

definition dev_lookup :: "nat \<Rightarrow> string \<Rightarrow> 'z dfs \<Rightarrow> (int \<times> nat option \<times> 'z dfs) option" where
  "dev_lookup node path s = (if path \<noteq> [] then Some (- E_NOENT, None, s) else Some (0, Some node, inode_ref_inc node s))"

text \<open>The operations of a device inode; those the table does not name are NULL.\<close>

definition dev_node_ops :: "'z devices_scheme world \<Rightarrow> 'z dfs inode_ops" where
  "dev_node_ops W =
     \<lparr>vop_magic = VOP_MAGIC, o_open = Some dev_open, o_close = Some dev_close, o_read = Some dev_read,
      o_write = Some dev_write, o_fstat = Some (dev_fstat W), o_fsync = None, o_namefile = None,
      o_getdirentry = None, o_reclaim = None, o_gettype = Some dev_gettype, o_tryseek = Some dev_tryseek,
      o_truncate = None, o_create = None, o_lookup = Some dev_lookup\<rparr>"

text \<open>The op_tables of the kernel by number.\<close>

definition DEV_NODE_OPS :: nat where "DEV_NODE_OPS = 0"
definition SFS_NODE_DIROPS :: nat where "SFS_NODE_DIROPS = 1"
definition SFS_NODE_FILEOPS :: nat where "SFS_NODE_FILEOPS = 2"

definition dev_create_inode :: "'z dfs \<Rightarrow> nat option \<times> 'z dfs" where
  "dev_create_inode s =
     (case alloc_inode device_info s of
        (None, s1) \<Rightarrow> (None, s1)
      | (Some n, s1) \<Rightarrow> (Some n, inode_init n DEV_NODE_OPS None s1))"

definition dev_init_with :: "string \<Rightarrow> bool \<Rightarrow> (nat \<Rightarrow> 'z dfs \<Rightarrow> 'z dfs option) \<Rightarrow> 'z dfs \<Rightarrow> 'z dfs option" where
  "dev_init_with name mnt device_init s =
     (case dev_create_inode s of
        (None, s1) \<Rightarrow> None
      | (Some node, s1) \<Rightarrow>
          do {
            s2 \<leftarrow> device_init node s1;
            (ret, s3) \<leftarrow> vfs_add_dev name node mnt s2;
            assertc (ret = 0);
            Some s3
          })"

definition dev_init_stdin :: "'z dfs \<Rightarrow> 'z dfs option" where
  "dev_init_stdin = dev_init_with ''stdin'' False (\<lambda>n s. Some (stdin_device_init n s))"

definition dev_init_stdout :: "'z dfs \<Rightarrow> 'z dfs option" where
  "dev_init_stdout = dev_init_with ''stdout'' False (\<lambda>n s. Some (stdout_device_init n s))"

definition dev_init_disk0 :: "'z dfs \<Rightarrow> 'z dfs option" where
  "dev_init_disk0 = dev_init_with ''disk0'' True disk0_device_init"

definition dev_init :: "'z dfs \<Rightarrow> 'z dfs option" where
  "dev_init s = do { s1 \<leftarrow> dev_init_stdin s; s2 \<leftarrow> dev_init_stdout s1; dev_init_disk0 s2 }"

section \<open>The disk as an array of blocks\<close>

definition disk_bytes :: "'z devices_scheme \<Rightarrow> nat \<Rightarrow> 8 word" where
  "disk_bytes d = ide_data (ide_devices d DISK0_DEV_NO)"

definition dblock :: "'z devices_scheme \<Rightarrow> nat \<Rightarrow> 8 word list" where
  "dblock d k = map (disk_bytes d) [k * DISK0_BLKSIZE ..< k * DISK0_BLKSIZE + DISK0_BLKSIZE]"

definition put_block :: "nat \<Rightarrow> 8 word list \<Rightarrow> 'z devices_scheme \<Rightarrow> 'z devices_scheme" where
  "put_block k bs d =
     d\<lparr>ide_devices := (ide_devices d)(DISK0_DEV_NO :=
         (ide_devices d DISK0_DEV_NO)\<lparr>ide_data := store_bytes (k * DISK0_BLKSIZE) bs (disk_bytes d)\<rparr>)\<rparr>"

text \<open>The disk is there, not larger than 4 GB, and not locked.\<close>

definition disk_ready :: "nat \<Rightarrow> 'z dfs \<Rightarrow> bool" where
  "disk_ready dev s \<longleftrightarrow> d_ops (device_at (devs s) dev) = Disk0Ops \<and> ide_device_valid DISK0_DEV_NO s \<and>
     d_blocks (device_at (devs s) dev) * DISK0_BLK_NSECT \<le> ide_size (ide_devices (devs s) DISK0_DEV_NO) \<and>
     ide_size (ide_devices (devs s) DISK0_DEV_NO) < 2 ^ 23 \<and>
     0 < disk0_sem (devs s) \<and> length (disk0_buffer (devs s)) = DISK0_BUFSIZE"

lemmas disk_consts = DISK0_BLKSIZE_def DISK0_BUFSIZE_def DISK0_BLK_NSECT_def SECTSIZE_def MAX_NSECS_def MAX_DISK_NSECS_def

lemma length_block [simp]: "length (dblock d k) = DISK0_BLKSIZE"
  by (simp add: dblock_def)

lemma block_put_block:
  assumes "length bs = DISK0_BLKSIZE"
  shows "dblock (put_block k bs d) j = (if j = k then bs else dblock d j)"
proof (rule nth_equalityI)
  show "length (dblock (put_block k bs d) j) = length (if j = k then bs else dblock d j)" using assms by simp
  fix i assume i: "i < length (dblock (put_block k bs d) j)"
  have far: "\<not> (k * 4096 \<le> j * 4096 + i \<and> j * 4096 + i < k * 4096 + 4096)" if "j \<noteq> k"
  proof (cases "j < k")
    case True
    then have "(j + 1) * 4096 \<le> k * 4096" by (intro mult_le_mono1) simp
    then show ?thesis using i by (simp add: DISK0_BLKSIZE_def)
  next
    case False
    then have "(k + 1) * 4096 \<le> j * 4096" using that by (intro mult_le_mono1) simp
    then show ?thesis by simp
  qed
  show "dblock (put_block k bs d) j ! i = (if j = k then bs else dblock d j) ! i"
    using i far assms by (auto simp: dblock_def put_block_def disk_bytes_def store_bytes_def DISK0_BLKSIZE_def)
qed

lemma put_block_simps [simp]:
  "device_at (put_block k bs d) = device_at d" "disk0_sem (put_block k bs d) = disk0_sem d"
  "disk0_buffer (put_block k bs d) = disk0_buffer d" "stdin (put_block k bs d) = stdin d" "console (put_block k bs d) = console d"
  "more (put_block k bs d) = more d"
  by (simp_all add: put_block_def)

lemma iobuf_move_out:
  assumes "io_resid iob = n" "n \<noteq> 0" "n \<le> length data" "io_base iob = 0" "length (io_mem iob) = n" "n \<le> len"
  shows "iobuf_move iob data len False =
    Some (if len - n = 0 then 0 else - E_NO_MEM, iob\<lparr>io_base := n, io_offset := io_offset iob + of_nat n, io_resid := 0\<rparr>,
      io_mem iob @ drop n data, n)"
  using assms by (simp add: iobuf_move_def iobuf_skip_def splice_def min_def)

lemma iobuf_move_in:
  assumes "io_resid iob = n" "n \<noteq> 0" "n \<le> length data" "io_base iob = 0" "length (io_mem iob) = n"
  shows "iobuf_move iob data n True =
    Some (0, iob\<lparr>io_mem := take n data, io_base := n, io_offset := io_offset iob + of_nat n, io_resid := 0\<rparr>, data, n)"
  using assms by (simp add: iobuf_move_def iobuf_skip_def splice_def min_def)

definition used_iobuf :: "nat \<Rightarrow> 8 word list \<Rightarrow> iobuf" where
  "used_iobuf blkno bs =
     \<lparr>io_mem = bs, io_base = DISK0_BLKSIZE, io_offset = of_nat (blkno * DISK0_BLKSIZE) + of_nat DISK0_BLKSIZE,
      io_len = DISK0_BLKSIZE, io_resid = 0\<rparr>"

lemma sint_of_nat64: "n < 2 ^ 63 \<Longrightarrow> sint (of_nat n :: 64 word) = int n"
  by (simp add: sint_uint unsigned_of_nat signed_take_bit_int_eq_self take_bit_nat_eq_self)

lemma disk_readyD:
  assumes "disk_ready dev s" "k < d_blocks (device_at (devs s) dev)"
  shows "d_ops (device_at (devs s) dev) = Disk0Ops" "ide_device_valid DISK0_DEV_NO s" "0 < disk0_sem (devs s)"
    "length (disk0_buffer (devs s)) = 16384" "k < 2 ^ 20" "d_blocks (device_at (devs s) dev) < 2 ^ 21"
    "sectors_left (ide_devices (devs s) DISK0_DEV_NO) (k * 8) 8 = 8"
proof -
  show r: "d_ops (device_at (devs s) dev) = Disk0Ops" "ide_device_valid DISK0_DEV_NO s" "0 < disk0_sem (devs s)"
    "length (disk0_buffer (devs s)) = 16384"
    using assms by (simp_all add: disk_ready_def disk_consts)
  have z: "d_blocks (device_at (devs s) dev) * 8 \<le> ide_size (ide_devices (devs s) DISK0_DEV_NO)"
    "ide_size (ide_devices (devs s) DISK0_DEV_NO) < 2 ^ 23"
    using assms(1) by (simp_all add: disk_ready_def disk_consts)
  show "k < 2 ^ 20" "d_blocks (device_at (devs s) dev) < 2 ^ 21" using assms(2) z by simp_all
  let ?z = "ide_size (ide_devices (devs s) DISK0_DEV_NO)"
  have "(int ?z - int (k * 8)) mod 2 ^ 64 = int ?z - int (k * 8)" using z assms(2) by (intro mod_pos_pos_trivial) simp_all
  then show "sectors_left (ide_devices (devs s) DISK0_DEV_NO) (k * 8) 8 = 8"
    using z(1) assms(2) unfolding sectors_left_def by simp
qed

lemma disk0_io_block:
  assumes ready: "disk_ready dev s" and k: "k < d_blocks (device_at (devs s) dev)" and iob: "iob = iobuf_init buf 4096 (of_nat (k * 4096))"
  shows "disk0_io dev iob wr s = do {
      s1 \<leftarrow> lock_disk0 s;
      (iob1, s2) \<leftarrow> disk0_loop wr iob k 4096 s1;
      Some (0, iob1, unlock_disk0 s2) }"
proof -
  note r = disk_readyD [OF ready k]
  have off: "sint (io_offset iob) = int (k * 4096)" unfolding iob iobuf_init_def iobuf.simps by (rule sint_of_nat64) (use r(5) in simp)
  have blk: "int (k * 4096) div int DISK0_BLKSIZE mod 2 ^ 32 = int k" "int (k * 4096) mod int DISK0_BLKSIZE = 0"
    using r(5) by (simp_all add: DISK0_BLKSIZE_def)
  have sz: "u32 (4096 div DISK0_BLKSIZE) = 1" "(4096::nat) mod DISK0_BLKSIZE = 0" by (simp_all add: DISK0_BLKSIZE_def u32_def)
  have le: "\<not> u32 (k + 1) > d_blocks (device_at (devs s) dev)" using r(5) k by (simp add: u32_def)
  have res: "io_resid iob = 4096" by (simp add: iob iobuf_init_def)
  show ?thesis unfolding disk0_io_def Let_def off blk res sz nat_int using le by (simp only: simp_thms if_False one_neq_zero)
qed

lemma disk0_loop_done: "disk0_loop wr iob k 0 s = Some (iob, s)"
  by (subst disk0_loop.simps) simp

lemma sector_arith:
  assumes "k < 2 ^ 20"
  shows "u32 (k * DISK0_BLK_NSECT) = k * 8" "u32 DISK0_BLK_NSECT = 8" "k * 8 * SECTSIZE = k * DISK0_BLKSIZE"
    "8 * SECTSIZE = DISK0_BLKSIZE" "k * 8 < MAX_DISK_NSECS" "k * 8 + 8 \<le> MAX_DISK_NSECS" "8 \<le> MAX_NSECS"
  using assms by (simp_all add: disk_consts u32_def)

lemma dop_io_block_read:
  assumes ready: "disk_ready dev s" and k: "k < d_blocks (device_at (devs s) dev)" and len: "length buf = DISK0_BLKSIZE"
  shows "\<exists>b. length b = DISK0_BUFSIZE \<and>
    dop_io dev (iobuf_init buf DISK0_BLKSIZE (of_nat (k * DISK0_BLKSIZE))) False s =
      Some (0, used_iobuf k (dblock (devs s) k), upd_devs (\<lambda>d. d\<lparr>disk0_buffer := b\<rparr>) s)"
proof -
  note r = disk_readyD [OF ready k]
  let ?iob = "iobuf_init buf 4096 (of_nat (k * 4096))"
  let ?s1 = "upd_devs (\<lambda>d. d\<lparr>disk0_sem := disk0_sem d - 1\<rparr>) s"
  let ?b = "dblock (devs s) k @ drop 4096 (disk0_buffer (devs s))"
  have dv: "devs ?s1 = (devs s)\<lparr>disk0_sem := disk0_sem (devs s) - 1\<rparr>" by (simp add: upd_devs_def)
  have "ramdisk_read DISK0_DEV_NO (k * 8) (disk0_buffer (devs s)) 8 ?s1 = (0, ?b)"
    unfolding ramdisk_read_def Let_def dv using r(7)
    by (simp only: devices.simps sector_arith [OF r(5)]) (simp add: splice_def dblock_def disk_bytes_def DISK0_BLKSIZE_def SECTSIZE_def)
  then have read: "disk0_read_blks_nolock k 1 ?s1 = Some (upd_devs (\<lambda>d. d\<lparr>disk0_buffer := ?b\<rparr>) ?s1)"
    using r(2) sector_arith [OF r(5)]
    by (simp add: disk0_read_blks_nolock_def ide_read_secs_def dv ide_device_valid_def)
  have move: "iobuf_move ?iob ?b 4096 True = Some (0, used_iobuf k (dblock (devs s) k), ?b, 4096)"
    using r len by (subst iobuf_move_in) (simp_all add: iobuf_init_def used_iobuf_def DISK0_BLKSIZE_def)
  have "disk0_loop False ?iob k 4096 ?s1 =
    Some (used_iobuf k (dblock (devs s) k), upd_devs (\<lambda>d. d\<lparr>disk0_buffer := ?b\<rparr>) ?s1)"
    using read move by (subst disk0_loop.simps) (simp add: disk_consts disk0_loop_done upd_devs_def)
  moreover have "dop_io dev ?iob False s = do { s1 \<leftarrow> lock_disk0 s; (iob1, s2) \<leftarrow> disk0_loop False ?iob k 4096 s1; Some (0, iob1, unlock_disk0 s2) }"
    by (simp only: dop_io_def r(1) dev_ops.case disk0_io_block [OF ready k refl])
  ultimately have "dop_io dev ?iob False s = Some (0, used_iobuf k (dblock (devs s) k), upd_devs (\<lambda>d. d\<lparr>disk0_buffer := ?b\<rparr>) s)"
    using r(3) by (simp add: lock_disk0_def unlock_disk0_def upd_devs_def)
  then show ?thesis using r(4) by (intro exI [of _ ?b] conjI) (simp add: disk_consts, simp only: disk_consts)
qed

lemma dop_io_block_write:
  assumes ready: "disk_ready dev s" and k: "k < d_blocks (device_at (devs s) dev)" and len: "length bs = DISK0_BLKSIZE"
  shows "\<exists>b. length b = DISK0_BUFSIZE \<and>
    dop_io dev (iobuf_init bs DISK0_BLKSIZE (of_nat (k * DISK0_BLKSIZE))) True s =
      Some (0, used_iobuf k bs, upd_devs (\<lambda>d. put_block k bs (d\<lparr>disk0_buffer := b\<rparr>)) s)"
proof -
  note r = disk_readyD [OF ready k]
  let ?iob = "iobuf_init bs 4096 (of_nat (k * 4096))"
  let ?s1 = "upd_devs (\<lambda>d. d\<lparr>disk0_sem := disk0_sem d - 1\<rparr>) s"
  let ?b = "bs @ drop 4096 (disk0_buffer (devs s))"
  let ?s2 = "upd_devs (\<lambda>d. d\<lparr>disk0_buffer := ?b\<rparr>) ?s1"
  have move: "iobuf_move ?iob (disk0_buffer (devs s)) 16384 False = Some (- E_NO_MEM, used_iobuf k bs, ?b, 4096)"
    using r len by (subst iobuf_move_out [where n = 4096]) (simp_all add: iobuf_init_def used_iobuf_def DISK0_BLKSIZE_def)
  have dv: "devs ?s2 = (devs s)\<lparr>disk0_sem := disk0_sem (devs s) - 1, disk0_buffer := ?b\<rparr>" by (simp add: upd_devs_def)
  have bs: "take DISK0_BLKSIZE ?b = bs" using len by simp
  have "ramdisk_write DISK0_DEV_NO (k * 8) ?b 8 ?s2 = (0, upd_devs (put_block k bs) ?s2)"
    unfolding ramdisk_write_def Let_def dv using r(7)
    by (simp only: devices.simps sector_arith [OF r(5)] bs) (use len in \<open>simp add: upd_ide_def upd_devs_def put_block_def disk_bytes_def DISK0_BLKSIZE_def SECTSIZE_def\<close>)
  then have stored: "disk0_write_blks_nolock k 1 ?s2 = Some (upd_devs (put_block k bs) ?s2)"
    using r(2) sector_arith [OF r(5)]
    by (simp add: disk0_write_blks_nolock_def ide_write_secs_def dv ide_device_valid_def)
  have "disk0_loop True ?iob k 4096 ?s1 = Some (used_iobuf k bs, upd_devs (put_block k bs) ?s2)"
    using stored move by (subst disk0_loop.simps) (simp add: disk_consts disk0_loop_done upd_devs_def)
  moreover have "dop_io dev ?iob True s = do { s1 \<leftarrow> lock_disk0 s; (iob1, s2) \<leftarrow> disk0_loop True ?iob k 4096 s1; Some (0, iob1, unlock_disk0 s2) }"
    by (simp only: dop_io_def r(1) dev_ops.case disk0_io_block [OF ready k refl])
  ultimately have "dop_io dev ?iob True s = Some (0, used_iobuf k bs, upd_devs (\<lambda>d. put_block k bs (d\<lparr>disk0_buffer := ?b\<rparr>)) s)"
    using r(3) by (simp add: lock_disk0_def unlock_disk0_def upd_devs_def put_block_def disk_bytes_def)
  then show ?thesis using r(4) len by (intro exI [of _ ?b] conjI) (simp add: disk_consts, simp only: disk_consts)
qed

section \<open>The keyboard buffer is a queue\<close>

text \<open>The characters that have arrived and have not been read, in order.\<close>

definition stdin_queue :: "stdin_state \<Rightarrow> 8 word list" where
  "stdin_queue st =
     map (\<lambda>k. stdin_buffer st ! nat ((p_rpos st + int k) mod int STDIN_BUFSIZE)) [0 ..< nat (p_wpos st - p_rpos st)]"

definition stdin_ok :: "stdin_state \<Rightarrow> bool" where
  "stdin_ok st \<longleftrightarrow> length (stdin_buffer st) = STDIN_BUFSIZE \<and> 0 \<le> p_rpos st \<and> p_rpos st \<le> p_wpos st \<and>
     p_wpos st - p_rpos st \<le> int STDIN_BUFSIZE"

lemma stdin_index:
  assumes "0 \<le> i" "i < int STDIN_BUFSIZE" "0 \<le> j" "j < int STDIN_BUFSIZE"
  shows "nat ((r + i) mod int STDIN_BUFSIZE) = nat ((r + j) mod int STDIN_BUFSIZE) \<longleftrightarrow> i = j"
proof
  assume "nat ((r + i) mod int STDIN_BUFSIZE) = nat ((r + j) mod int STDIN_BUFSIZE)"
  then have "(r + i) mod int STDIN_BUFSIZE = (r + j) mod int STDIN_BUFSIZE" by (simp add: STDIN_BUFSIZE_def)
  then have "int STDIN_BUFSIZE dvd (r + i) - (r + j)" by (simp only: mod_eq_dvd_iff)
  then have "int STDIN_BUFSIZE dvd i - j" by simp
  moreover have "\<bar>i - j\<bar> < int STDIN_BUFSIZE" using assms by linarith
  ultimately show "i = j" by (metis dvd_imp_le_int abs_of_nat eq_iff_diff_eq_0 not_less)
qed simp

lemma stdin_queue_put:
  assumes ok: "stdin_ok st"
  shows "stdin_ok (stdin_put c st)"
    and "stdin_queue (stdin_put c st) =
      (if length (stdin_queue st) < STDIN_BUFSIZE then stdin_queue st @ [c] else c # tl (stdin_queue st))"
proof -
  have S: "length (stdin_buffer st) = STDIN_BUFSIZE" "0 \<le> p_rpos st" "p_rpos st \<le> p_wpos st"
    "p_wpos st - p_rpos st \<le> int STDIN_BUFSIZE" using ok by (simp_all add: stdin_ok_def)
  show "stdin_ok (stdin_put c st)" using S by (auto simp: stdin_put_def stdin_ok_def Let_def)
  obtain r n where r: "p_rpos st = r" "p_wpos st = r + int n" using S(3) zle_iff_zadd by metis
  let ?N = "int STDIN_BUFSIZE" and ?w = "nat ((r + int n) mod int STDIN_BUFSIZE)"
  have w: "?w < length (stdin_buffer st)" unfolding S(1) by (simp add: STDIN_BUFSIZE_def nat_less_iff)
  have n: "n \<le> STDIN_BUFSIZE" using S(4) r by simp
  have q: "stdin_queue st = map (\<lambda>k. stdin_buffer st ! nat ((r + int k) mod ?N)) [0 ..< n]" by (simp add: stdin_queue_def r)
  show "stdin_queue (stdin_put c st) =
      (if length (stdin_queue st) < STDIN_BUFSIZE then stdin_queue st @ [c] else c # tl (stdin_queue st))"
  proof (cases "n < STDIN_BUFSIZE")
    case True
    then have t: "stdin_put c st = st\<lparr>stdin_buffer := (stdin_buffer st)[?w := c], p_wpos := r + int n + 1\<rparr>"
      by (simp add: stdin_put_def Let_def r)
    have ne: "nat ((r + int k) mod ?N) \<noteq> ?w" if "k < n" for k
      using stdin_index [of "int k" "int n" r] that True by simp
    have "nat (r + int n + 1 - r) = Suc n" by simp
    then have "stdin_queue (stdin_put c st) =
        map (\<lambda>k. (stdin_buffer st)[?w := c] ! nat ((r + int k) mod ?N)) [0 ..< n] @ [(stdin_buffer st)[?w := c] ! ?w]"
      unfolding t by (simp add: stdin_queue_def r)
    also have "\<dots> = stdin_queue st @ [c]" unfolding q using ne w by (simp add: nth_list_update_neq [OF ne [symmetric]] cong: map_cong)
    finally show ?thesis using True by (simp add: q)
  next
    case False
    then have n: "n = STDIN_BUFSIZE" using n by simp
    obtain m where m: "STDIN_BUFSIZE = Suc m" by (simp add: STDIN_BUFSIZE_def)
    have rw: "?w = nat (r mod ?N)" unfolding n by simp
    have ne: "nat ((r + int (Suc k)) mod ?N) \<noteq> ?w" if "k < m" for k
      using stdin_index [of "int (Suc k)" 0 r] that m unfolding rw by simp
    have t: "stdin_put c st = st\<lparr>stdin_buffer := (stdin_buffer st)[?w := c]\<rparr>"
      using n by (simp add: stdin_put_def Let_def r)
    have "stdin_queue (stdin_put c st) = map (\<lambda>k. (stdin_buffer st)[?w := c] ! nat ((r + int k) mod ?N)) [0 ..< Suc m]"
      unfolding t by (simp add: stdin_queue_def r n m [symmetric])
    also have "\<dots> = c # map (\<lambda>k. stdin_buffer st ! nat ((r + int (Suc k)) mod ?N)) [0 ..< m]"
      unfolding map_upt_Suc using w
      by (simp add: nth_list_update_neq [OF ne [symmetric]] rw [symmetric] del: of_nat_Suc cong: map_cong)
    also have "map (\<lambda>k. stdin_buffer st ! nat ((r + int (Suc k)) mod ?N)) [0 ..< m] = tl (stdin_queue st)"
      unfolding q n m map_upt_Suc by simp
    finally show ?thesis using n by (simp add: q)
  qed
qed

lemma stdin_queue_take:
  assumes "stdin_ok st"
  shows "\<exists>st'. stdin_take n st = (take n (stdin_queue st), n \<le> length (stdin_queue st), st') \<and> stdin_ok st' \<and>
    stdin_queue st' = drop n (stdin_queue st)"
  using assms
proof (induction n arbitrary: st)
  case 0
  then show ?case by simp
next
  case (Suc n)
  show ?case
  proof (cases "p_rpos st < p_wpos st")
    case False
    then have "stdin_queue st = []" by (simp add: stdin_queue_def)
    then show ?thesis using False Suc.prems by simp
  next
    case True
    let ?s = "st\<lparr>p_rpos := p_rpos st + 1\<rparr>"
    have ok: "stdin_ok ?s" using Suc.prems True by (simp add: stdin_ok_def)
    have m: "nat (p_wpos st - p_rpos st) = Suc (nat (p_wpos st - (p_rpos st + 1)))" using True by simp
    have q: "stdin_queue st = stdin_buffer st ! nat (p_rpos st mod int STDIN_BUFSIZE) # stdin_queue ?s"
      unfolding stdin_queue_def m map_upt_Suc by (simp add: algebra_simps)
    from Suc.IH [OF ok] show ?thesis using True unfolding q by (auto simp: Let_def)
  qed
qed

end
