(* ===== verification/Bitmap.thy ===== *)
theory Bitmap
  imports Inode
begin

text \<open>
  The map of free disk blocks, \<^verbatim>\<open>kern/fs/sfs/bitmap.c\<close>: an array of 32-bit words in which a 1 is a free
  block.  It is shown to be a finite set of numbers with removal of the least one and insertion.
\<close>

record bitmap =
  nbits :: nat
  nwords :: nat
  words :: "32 word list"

declare push_bit_of_1 [simp del]

definition WORD_BITS :: nat where "WORD_BITS = 32"

section \<open>Operations\<close>

text \<open>The loop that marks the bits from \<^verbatim>\<open>overbits\<close> to the end of the last word as used.\<close>

fun mark_left_over :: "nat \<Rightarrow> nat \<Rightarrow> nat \<Rightarrow> 32 word list \<Rightarrow> 32 word list" where
  "mark_left_over ix over 0 ws = ws"
| "mark_left_over ix over (Suc n) ws = mark_left_over ix (over + 1) n (ws[ix := ws ! ix XOR push_bit over 1])"

definition bitmap_create :: "nat \<Rightarrow> 'd fsys \<Rightarrow> (bitmap option \<times> 'd fsys) option" where
  "bitmap_create n s =
     do {
       assertc (n \<noteq> 0 \<and> u32 (n + WORD_BITS) > n);
       let (ok1, s1) = kmalloc_ok s;
       if \<not> ok1 then Some (None, s1)
       else
         (let nw = (n + WORD_BITS - 1) div WORD_BITS; (ok2, s2) = kmalloc_ok s1
          in if \<not> ok2 then Some (None, s2)
             else do {
               let ws = replicate nw (- 1);
               ws1 \<leftarrow> (if n \<noteq> nw * WORD_BITS
                      then do {
                        let ix = nw - 1;
                        let over = n - ix * WORD_BITS;
                        assertc (n div WORD_BITS = ix);
                        assertc (over > 0 \<and> over < WORD_BITS);
                        Some (mark_left_over ix over (WORD_BITS - over) ws)
                      }
                      else Some ws);
               Some (Some \<lparr>nbits = n, nwords = nw, words = ws1\<rparr>, s2)
             })
     }"

fun scan_bits :: "32 word \<Rightarrow> nat \<Rightarrow> nat \<Rightarrow> nat option" where
  "scan_bits w offset 0 = None"
| "scan_bits w offset (Suc n) = (if w AND push_bit offset 1 \<noteq> 0 then Some offset else scan_bits w (offset + 1) n)"

fun scan_words :: "nat \<Rightarrow> 32 word list \<Rightarrow> nat option" where
  "scan_words ix [] = None"
| "scan_words ix (w # ws) = (if w \<noteq> 0 then Some ix else scan_words (ix + 1) ws)"

text \<open>The result is the return value, \<^verbatim>\<open>*index_store\<close> and the map; \<^verbatim>\<open>assert(0)\<close> follows the inner loop.\<close>

definition bitmap_alloc :: "bitmap \<Rightarrow> (int \<times> nat \<times> bitmap) option" where
  "bitmap_alloc b =
     (case scan_words 0 (take (nwords b) (words b)) of
        None \<Rightarrow> Some (- E_NO_MEM, 0, b)
      | Some ix \<Rightarrow>
          (case scan_bits (words b ! ix) 0 WORD_BITS of
             None \<Rightarrow> None
           | Some offset \<Rightarrow>
               Some (0, u32 (ix * WORD_BITS + offset), b\<lparr>words := (words b)[ix := words b ! ix XOR push_bit offset 1]\<rparr>)))"

definition bitmap_translate :: "bitmap \<Rightarrow> nat \<Rightarrow> (nat \<times> 32 word) option" where
  "bitmap_translate b index =
     do { assertc (index < nbits b); Some (index div WORD_BITS, push_bit (index mod WORD_BITS) 1) }"

definition bitmap_test :: "bitmap \<Rightarrow> nat \<Rightarrow> bool option" where
  "bitmap_test b index = do { (w, mask) \<leftarrow> bitmap_translate b index; Some (words b ! w AND mask \<noteq> 0) }"

definition bitmap_free :: "bitmap \<Rightarrow> nat \<Rightarrow> bitmap option" where
  "bitmap_free b index =
     do {
       (w, mask) \<leftarrow> bitmap_translate b index;
       assertc (words b ! w AND mask = 0);
       Some (b\<lparr>words := (words b)[w := words b ! w OR mask]\<rparr>)
     }"

text \<open>The bytes of the map in memory.\<close>

fun word_bytes :: "nat \<Rightarrow> 32 word \<Rightarrow> 8 word list" where
  "word_bytes 0 w = []"
| "word_bytes (Suc n) w = ucast w # word_bytes n (drop_bit 8 w)"

fun bytes_word :: "8 word list \<Rightarrow> 32 word" where
  "bytes_word [] = 0"
| "bytes_word (b # bs) = ucast b OR push_bit 8 (bytes_word bs)"

fun chunks :: "nat \<Rightarrow> nat \<Rightarrow> 'a list \<Rightarrow> 'a list list" where
  "chunks 0 k xs = []"
| "chunks (Suc n) k xs = take k xs # chunks n k (drop k xs)"

definition bitmap_getdata :: "bitmap \<Rightarrow> 8 word list \<times> nat" where
  "bitmap_getdata b = (concat (map (word_bytes 4) (words b)), 4 * nwords b)"

section \<open>The set of free blocks\<close>

definition free_bits :: "bitmap \<Rightarrow> nat set" where
  "free_bits b = {i. i < 32 * length (words b) \<and> bit (words b ! (i div 32)) (i mod 32)}"

definition bitmap_ok :: "bitmap \<Rightarrow> bool" where
  "bitmap_ok b \<longleftrightarrow> nwords b = length (words b) \<and> nbits b \<le> 32 * nwords b \<and> 32 * nwords b < 2 ^ 32 \<and>
     (\<forall>i\<in>free_bits b. i < nbits b)"

lemma and_bit_test: "(w :: 32 word) AND push_bit k 1 \<noteq> 0 \<longleftrightarrow> bit w k"
  by (simp add: bit_iff_and_push_bit_not_eq_0)

lemma and_bit_clear: "(w :: 32 word) AND push_bit k 1 = 0 \<longleftrightarrow> \<not> bit w k"
  using and_bit_test [of w k] by blast

lemma scan_bits_spec:
  "(scan_bits w k n = None \<longrightarrow> (\<forall>j. k \<le> j \<and> j < k + n \<longrightarrow> \<not> bit w j)) \<and>
   (\<forall>i. scan_bits w k n = Some i \<longrightarrow> k \<le> i \<and> i < k + n \<and> bit w i \<and> (\<forall>j. k \<le> j \<and> j < i \<longrightarrow> \<not> bit w j))"
proof (induction n arbitrary: k)
  case (Suc n)
  show ?case
  proof (cases "bit w k")
    case False
    have sc: "scan_bits w k (Suc n) = scan_bits w (k + 1) n" using False and_bit_test [of w k] by simp
    have st: "\<not> bit w j" if "k \<le> j" "k + 1 \<le> j \<Longrightarrow> \<not> bit w j" for j using that False by (cases "j = k") auto
    have ih: "scan_bits w (k + 1) n = None \<longrightarrow> (\<forall>j. k + 1 \<le> j \<and> j < k + 1 + n \<longrightarrow> \<not> bit w j)"
      "scan_bits w (k + 1) n = Some i \<longrightarrow> k + 1 \<le> i \<and> i < k + 1 + n \<and> bit w i \<and> (\<forall>j. k + 1 \<le> j \<and> j < i \<longrightarrow> \<not> bit w j)" for i
      using Suc.IH [of "k + 1"] by blast+
    show ?thesis unfolding sc
    proof (intro conjI allI impI)
      fix j assume "scan_bits w (k + 1) n = None" "k \<le> j \<and> j < k + Suc n"
      then show "\<not> bit w j" using ih(1) by - (rule st, auto)
    next
      fix i assume i: "scan_bits w (k + 1) n = Some i"
      show "k \<le> i" "i < k + Suc n" "bit w i" using ih(2) [of i] i by auto
      fix j assume "k \<le> j \<and> j < i"
      then show "\<not> bit w j" using ih(2) [of i] i by - (rule st, auto)
    qed
  qed (auto simp: and_bit_clear)
qed auto

lemma scan_words_spec:
  "(scan_words k ws = None \<longleftrightarrow> (\<forall>w\<in>set ws. w = 0)) \<and>
   (\<forall>i. scan_words k ws = Some i \<longrightarrow> k \<le> i \<and> i - k < length ws \<and> ws ! (i - k) \<noteq> 0 \<and> (\<forall>j<i - k. ws ! j = 0))"
proof (induction ws arbitrary: k)
  case (Cons w ws)
  show ?case
  proof (cases "w = 0")
    case True
    have "k \<le> i \<and> i - k < length (w # ws) \<and> (w # ws) ! (i - k) \<noteq> 0 \<and> (\<forall>j<i - k. (w # ws) ! j = 0)"
      if "scan_words (k + 1) ws = Some i" for i
    proof -
      have h: "k + 1 \<le> i" "i - (k + 1) < length ws" "ws ! (i - (k + 1)) \<noteq> 0" "\<forall>j<i - (k + 1). ws ! j = 0"
        using Cons.IH [of "k + 1"] that by blast+
      then obtain d where d: "i = k + 1 + d" using le_Suc_ex by blast
      have "(w # ws) ! j = 0" if "j < i - k" for j using that h(4) True by (cases j) (auto simp: d)
      then show ?thesis using h by (auto simp: d)
    qed
    then show ?thesis using Cons.IH [of "k + 1"] True by simp
  qed simp
qed simp

lemma word_nonzero_bit:
  assumes "(w :: 32 word) \<noteq> 0"
  shows "\<exists>j<32. bit w j"
proof (rule ccontr)
  assume n: "\<not> (\<exists>j<32. bit w j)"
  have "w = 0" by (rule bit_word_eqI) (use n in auto)
  then show False using assms by simp
qed

lemma free_bits_update:
  assumes "ix < length (words b)" "k < 32"
  shows "free_bits (b\<lparr>words := (words b)[ix := w]\<rparr>) =
    {i \<in> free_bits b. i div 32 \<noteq> ix} \<union> {i. i div 32 = ix \<and> bit w (i mod 32)}"
  using assms(1) by (auto simp: free_bits_def nth_list_update split: if_splits)

lemma word_index: "i div 32 = ix \<and> i mod 32 = k \<longleftrightarrow> k < 32 \<and> i = ix * 32 + k" for i ix k :: nat
  by auto

lemma bitmap_alloc_facts:
  assumes ok: "bitmap_ok b"
  shows "if free_bits b = {} then bitmap_alloc b = Some (- E_NO_MEM, 0, b)
    else \<exists>i b'. bitmap_alloc b = Some (0, i, b') \<and> i \<in> free_bits b \<and> (\<forall>j\<in>free_bits b. i \<le> j) \<and>
      free_bits b' = free_bits b - {i} \<and> bitmap_ok b' \<and> nbits b' = nbits b"
proof (cases "scan_words 0 (words b)")
  case None
  have "words b ! (i div 32) = 0" if "i < 32 * length (words b)" for i
  proof -
    have "i div 32 < length (words b)" using that by (simp add: div_less_iff_less_mult mult.commute)
    then show ?thesis using scan_words_spec [of 0 "words b"] None nth_mem [of "i div 32" "words b"] by blast
  qed
  then have "free_bits b = {}" by (auto simp: free_bits_def)
  then show ?thesis using None ok by (simp add: bitmap_alloc_def bitmap_ok_def)
next
  case (Some ix)
  let ?w = "words b ! ix"
  have ix: "ix < length (words b)" "?w \<noteq> 0" "\<forall>j<ix. words b ! j = 0" using scan_words_spec [of 0 "words b"] Some by auto
  obtain k where k: "scan_bits ?w 0 32 = Some k"
    using scan_bits_spec [of ?w 0 32] word_nonzero_bit [OF ix(2)] by (cases "scan_bits ?w 0 32") auto
  have kk: "k < 32" "bit ?w k" "\<forall>j<k. \<not> bit ?w j" using scan_bits_spec [of ?w 0 32] k by auto
  let ?i = "ix * 32 + k"
  let ?b = "b\<lparr>words := (words b)[ix := ?w XOR push_bit k 1]\<rparr>"
  have i: "?i \<in> free_bits b" using ix(1) kk(1,2) by (simp add: free_bits_def)
  have small: "?i < 2 ^ 32" using ok ix(1) kk(1) by (simp add: bitmap_ok_def)
  have run: "bitmap_alloc b = Some (0, ?i, ?b)"
    using Some k ok small by (simp add: bitmap_alloc_def bitmap_ok_def WORD_BITS_def)
  have least: "?i \<le> j" if "j \<in> free_bits b" for j
  proof -
    have j: "bit (words b ! (j div 32)) (j mod 32)" using that by (simp add: free_bits_def)
    then have "\<not> j div 32 < ix" using ix(3) by auto
    then consider "j div 32 = ix" | "ix + 1 \<le> j div 32" by linarith
    then show ?thesis
    proof cases
      case 1
      then have "\<not> j mod 32 < k" using j kk(3) by auto
      then show ?thesis using 1 div_mult_mod_eq [of j 32] by linarith
    next
      case 2
      then have "(ix + 1) * 32 \<le> j div 32 * 32" by (rule mult_le_mono1)
      then show ?thesis using kk(1) div_mult_mod_eq [of j 32] by (simp only: add_mult_distrib)
    qed
  qed
  have bits: "bit (?w XOR push_bit k 1) n \<longleftrightarrow> (if n = k then False else bit ?w n)" if "n < 32" for n
    using kk(1,2) that by (auto simp: bit_simps)
  have fb: "free_bits ?b = free_bits b - {?i}"
    unfolding free_bits_update [OF ix(1) kk(1)]
  proof (intro set_eqI)
    fix i :: nat
    have "i mod 32 < 32" by simp
    then show "i \<in> {i \<in> free_bits b. i div 32 \<noteq> ix} \<union> {i. i div 32 = ix \<and> bit (?w XOR push_bit k 1) (i mod 32)} \<longleftrightarrow> i \<in> free_bits b - {?i}"
      using ix(1) kk(1) word_index [of i ix k] by (auto simp: bits free_bits_def)
  qed
  moreover have "bitmap_ok ?b" using ok fb by (simp add: bitmap_ok_def)
  ultimately show ?thesis using run i least by auto
qed

lemma bitmap_test_facts:
  assumes "bitmap_ok b" "i < nbits b"
  shows "bitmap_test b i = Some (i \<in> free_bits b)"
  using assms by (auto simp: bitmap_test_def bitmap_translate_def WORD_BITS_def and_bit_clear free_bits_def bitmap_ok_def)

lemma bitmap_free_facts:
  assumes ok: "bitmap_ok b" and i: "i < nbits b"
  shows "if i \<in> free_bits b then bitmap_free b i = None
    else \<exists>b'. bitmap_free b i = Some b' \<and> free_bits b' = insert i (free_bits b) \<and> bitmap_ok b' \<and> nbits b' = nbits b"
proof -
  let ?ix = "i div 32" and ?k = "i mod 32"
  let ?b = "b\<lparr>words := (words b)[?ix := words b ! ?ix OR push_bit ?k 1]\<rparr>"
  have len: "?ix < length (words b)" "?k < 32" using ok i by (auto simp: bitmap_ok_def)
  have mem: "i \<in> free_bits b \<longleftrightarrow> bit (words b ! ?ix) ?k" using ok i by (auto simp: free_bits_def bitmap_ok_def)
  have bits: "bit (words b ! ?ix OR push_bit ?k 1) n \<longleftrightarrow> n = ?k \<or> bit (words b ! ?ix) n" if "n < 32" for n
    using that by (auto simp: bit_simps)
  have fb: "free_bits ?b = insert i (free_bits b)"
    unfolding free_bits_update [OF len]
  proof (intro set_eqI)
    fix j :: nat
    have "j mod 32 < 32" by simp
    then show "j \<in> {i \<in> free_bits b. i div 32 \<noteq> ?ix} \<union> {ia. ia div 32 = ?ix \<and> bit (words b ! ?ix OR push_bit ?k 1) (ia mod 32)} \<longleftrightarrow>
      j \<in> insert i (free_bits b)"
      using len(1) word_index [of j ?ix ?k] by (auto simp: bits free_bits_def)
  qed
  have "bitmap_ok ?b" using ok fb i by (simp add: bitmap_ok_def)
  moreover have "bitmap_free b i = (if bit (words b ! ?ix) ?k then None else Some ?b)"
    using i by (simp add: bitmap_free_def bitmap_translate_def WORD_BITS_def and_bit_clear)
  ultimately show ?thesis using mem fb by auto
qed

end
