(* ===== verification/Sfs.thy ===== *)
theory Sfs
  imports Devices Bitmap ProcList
begin

text \<open>
  The simple file system, \<^verbatim>\<open>kern/fs/sfs\<close>: its structures on disk and in memory, block input and output
  (\<^verbatim>\<open>sfs_io.c\<close>), the allocation of blocks, the block map of a file, directories, the cache of inodes,
  reading and writing of files and the operations of its inodes (\<^verbatim>\<open>sfs_inode.c\<close>), and mounting
  (\<^verbatim>\<open>sfs_fs.c\<close>).  The \<^verbatim>\<open>sfs_inode\<close> inside an inode is named by the number of the inode and the \<^verbatim>\<open>sfs_fs\<close>
  inside a \<^verbatim>\<open>struct fs\<close> by that of the file system.  A variable of type \<^verbatim>\<open>uint32_t\<close> is a number; a sum is
  reduced where it can pass the width.  A lock that is taken is \<open>None\<close> to a second taker, who would sleep.
\<close>

section \<open>Structures\<close>

definition SFS_MAGIC :: nat where "SFS_MAGIC = 0x2f8dbe2a"
definition SFS_BLKSIZE :: nat where "SFS_BLKSIZE = 4096"
definition SFS_NDIRECT :: nat where "SFS_NDIRECT = 12"
definition SFS_MAX_INFO_LEN :: nat where "SFS_MAX_INFO_LEN = 31"
definition SFS_MAX_FNAME_LEN :: nat where "SFS_MAX_FNAME_LEN = 255"
definition SFS_MAX_FILE_SIZE :: nat where "SFS_MAX_FILE_SIZE = 1024 * 1024 * 128"
definition SFS_BLKN_SUPER :: nat where "SFS_BLKN_SUPER = 0"
definition SFS_BLKN_ROOT :: nat where "SFS_BLKN_ROOT = 1"
definition SFS_BLKN_FREEMAP :: nat where "SFS_BLKN_FREEMAP = 2"
definition SFS_BLKBITS :: nat where "SFS_BLKBITS = SFS_BLKSIZE * 8"
definition SFS_BLK_NENTRY :: nat where "SFS_BLK_NENTRY = SFS_BLKSIZE div 4"
definition SFS_TYPE_FILE :: nat where "SFS_TYPE_FILE = 1"
definition SFS_TYPE_DIR :: nat where "SFS_TYPE_DIR = 2"
definition SFS_TYPE_LINK :: nat where "SFS_TYPE_LINK = 3"
definition SFS_HLIST_SHIFT :: nat where "SFS_HLIST_SHIFT = 10"

record sfs_super =
  sb_magic :: nat
  sb_blocks :: nat
  unused_blocks :: nat
  sb_info :: "8 word list"

record sfs_disk_inode =
  di_size :: nat
  di_type :: nat
  di_nlinks :: nat
  di_blocks :: nat
  di_direct :: "nat list"
  di_indirect :: nat

record sfs_disk_entry =
  e_ino :: nat
  e_name :: "8 word list"

record sfs_inode =
  din :: sfs_disk_inode
  sin_ino :: nat
  dirty :: bool
  reclaim_count :: int
  sin_sem :: int

record sfs_fs =
  super :: sfs_super
  sfs_dev :: nat
  freemap :: bitmap
  super_dirty :: bool
  sfs_buffer :: "8 word list"
  fs_sem :: int
  io_sem :: int
  mutex_sem :: int
  inode_list :: "nat list"
  hash_list :: "nat \<Rightarrow> nat list"

record sdevs = devices +
  sfss :: "nat \<Rightarrow> sfs_fs"
  sins :: "nat \<Rightarrow> sfs_inode"
  fs_pool :: "nat list"

type_synonym kfs = "sdevs fsys"

text \<open>Integers in memory, the least significant byte first.\<close>

fun enc_le :: "nat \<Rightarrow> nat \<Rightarrow> 8 word list" where
  "enc_le 0 v = []"
| "enc_le (Suc n) v = of_nat (v mod 256) # enc_le n (v div 256)"

fun le_nat :: "8 word list \<Rightarrow> nat" where
  "le_nat [] = 0"
| "le_nat (b # bs) = unat b + 256 * le_nat bs"

definition le_field :: "nat \<Rightarrow> nat \<Rightarrow> 8 word list \<Rightarrow> nat" where "le_field i n bs = le_nat (take n (drop i bs))"

definition super_bytes :: "sfs_super \<Rightarrow> 8 word list" where
  "super_bytes sb = enc_le 4 (sb_magic sb) @ enc_le 4 (sb_blocks sb) @ enc_le 4 (unused_blocks sb) @ sb_info sb"

definition super_of :: "8 word list \<Rightarrow> sfs_super" where
  "super_of bs = \<lparr>sb_magic = le_field 0 4 bs, sb_blocks = le_field 4 4 bs, unused_blocks = le_field 8 4 bs, sb_info = take 32 (drop 12 bs)\<rparr>"

definition SIZEOF_DIN :: nat where "SIZEOF_DIN = 64"

definition din_bytes :: "sfs_disk_inode \<Rightarrow> 8 word list" where
  "din_bytes d = enc_le 4 (di_size d) @ enc_le 2 (di_type d) @ enc_le 2 (di_nlinks d) @ enc_le 4 (di_blocks d) @
     concat (map (enc_le 4) (di_direct d)) @ enc_le 4 (di_indirect d)"

definition din_of :: "8 word list \<Rightarrow> sfs_disk_inode" where
  "din_of bs =
     \<lparr>di_size = le_field 0 4 bs, di_type = le_field 4 2 bs, di_nlinks = le_field 6 2 bs, di_blocks = le_field 8 4 bs,
      di_direct = map (\<lambda>i. le_field (12 + 4 * i) 4 bs) [0..<SFS_NDIRECT], di_indirect = le_field 60 4 bs\<rparr>"

definition SIZEOF_ENTRY :: nat where "SIZEOF_ENTRY = 260"

definition entry_of :: "8 word list \<Rightarrow> sfs_disk_entry" where
  "entry_of bs = \<lparr>e_ino = le_field 0 4 bs, e_name = take 256 (drop 4 bs)\<rparr>"

definition c_str :: "8 word list \<Rightarrow> 8 word list" where "c_str bs = takeWhile (\<lambda>b. b \<noteq> 0) bs"

definition upd_sfs :: "nat \<Rightarrow> (sfs_fs \<Rightarrow> sfs_fs) \<Rightarrow> kfs \<Rightarrow> kfs" where
  "upd_sfs f g = upd_devs (\<lambda>d. d\<lparr>sfss := (sfss d)(f := g (sfss d f))\<rparr>)"

definition upd_sin :: "nat \<Rightarrow> (sfs_inode \<Rightarrow> sfs_inode) \<Rightarrow> kfs \<Rightarrow> kfs" where
  "upd_sin n g = upd_devs (\<lambda>d. d\<lparr>sins := (sins d)(n := g (sins d n))\<rparr>)"

definition upd_din :: "nat \<Rightarrow> (sfs_disk_inode \<Rightarrow> sfs_disk_inode) \<Rightarrow> kfs \<Rightarrow> kfs" where
  "upd_din n g = upd_sin n (\<lambda>i. i\<lparr>din := g (din i)\<rparr>)"

abbreviation sfs_at :: "nat \<Rightarrow> kfs \<Rightarrow> sfs_fs" where "sfs_at f s \<equiv> sfss (devs s) f"
abbreviation sin_at :: "nat \<Rightarrow> kfs \<Rightarrow> sfs_inode" where "sin_at n s \<equiv> sins (devs s) n"
abbreviation din_at :: "nat \<Rightarrow> kfs \<Rightarrow> sfs_disk_inode" where "din_at n s \<equiv> din (sins (devs s) n)"

text \<open>\<^verbatim>\<open>sfs_freemap_bits\<close> and \<^verbatim>\<open>sfs_freemap_blocks\<close>\<close>

definition sfs_freemap_bits :: "sfs_super \<Rightarrow> nat" where
  "sfs_freemap_bits sb = u32 ((sb_blocks sb + SFS_BLKBITS - 1) div SFS_BLKBITS * SFS_BLKBITS)"

definition sfs_freemap_blocks :: "sfs_super \<Rightarrow> nat" where
  "sfs_freemap_blocks sb = u32 ((sb_blocks sb + SFS_BLKBITS - 1) div SFS_BLKBITS)"

section \<open>sfs\_lock.c\<close>

definition lock_sfs_fs :: "nat \<Rightarrow> kfs \<Rightarrow> kfs option" where
  "lock_sfs_fs f s = do { assertc (0 < fs_sem (sfs_at f s)); Some (upd_sfs f (\<lambda>x. x\<lparr>fs_sem := fs_sem x - 1\<rparr>) s) }"

definition unlock_sfs_fs :: "nat \<Rightarrow> kfs \<Rightarrow> kfs" where
  "unlock_sfs_fs f = upd_sfs f (\<lambda>x. x\<lparr>fs_sem := fs_sem x + 1\<rparr>)"

definition lock_sfs_io :: "nat \<Rightarrow> kfs \<Rightarrow> kfs option" where
  "lock_sfs_io f s = do { assertc (0 < io_sem (sfs_at f s)); Some (upd_sfs f (\<lambda>x. x\<lparr>io_sem := io_sem x - 1\<rparr>) s) }"

definition unlock_sfs_io :: "nat \<Rightarrow> kfs \<Rightarrow> kfs" where
  "unlock_sfs_io f = upd_sfs f (\<lambda>x. x\<lparr>io_sem := io_sem x + 1\<rparr>)"

definition lock_sin :: "nat \<Rightarrow> kfs \<Rightarrow> kfs option" where
  "lock_sin n s = do { assertc (0 < sin_sem (sin_at n s)); Some (upd_sin n (\<lambda>x. x\<lparr>sin_sem := sin_sem x - 1\<rparr>) s) }"

definition unlock_sin :: "nat \<Rightarrow> kfs \<Rightarrow> kfs" where
  "unlock_sin n = upd_sin n (\<lambda>x. x\<lparr>sin_sem := sin_sem x + 1\<rparr>)"

section \<open>sfs\_io.c\<close>

text \<open>The result is the return value, the buffer and the state.\<close>

definition sfs_rwblock_nolock :: "nat \<Rightarrow> 8 word list \<Rightarrow> nat \<Rightarrow> bool \<Rightarrow> bool \<Rightarrow> kfs \<Rightarrow> (int \<times> 8 word list \<times> kfs) option" where
  "sfs_rwblock_nolock f buf blkno wr chk s =
     do {
       assertc ((blkno \<noteq> 0 \<or> \<not> chk) \<and> blkno < sb_blocks (super (sfs_at f s)));
       (ret, iob, s1) \<leftarrow> dop_io (sfs_dev (sfs_at f s)) (iobuf_init buf SFS_BLKSIZE (of_nat (u32 (blkno * SFS_BLKSIZE)))) wr s;
       Some (ret, io_mem iob, s1)
     }"

fun rw_loop :: "nat \<Rightarrow> 8 word list \<Rightarrow> nat \<Rightarrow> nat \<Rightarrow> nat \<Rightarrow> bool \<Rightarrow> kfs \<Rightarrow> (int \<times> 8 word list \<times> kfs) option" where
  "rw_loop f buf pos blkno 0 wr s = Some (0, buf, s)"
| "rw_loop f buf pos blkno (Suc nblks) wr s =
     do {
       (ret, b, s1) \<leftarrow> sfs_rwblock_nolock f (take SFS_BLKSIZE (drop pos buf)) blkno wr True s;
       let buf1 = splice pos b buf;
       if ret \<noteq> 0 then Some (ret, buf1, s1)
       else rw_loop f buf1 (pos + SFS_BLKSIZE) (u32 (blkno + 1)) nblks wr s1
     }"

definition sfs_rwblock :: "nat \<Rightarrow> 8 word list \<Rightarrow> nat \<Rightarrow> nat \<Rightarrow> bool \<Rightarrow> kfs \<Rightarrow> (int \<times> 8 word list \<times> kfs) option" where
  "sfs_rwblock f buf blkno nblks wr s =
     do {
       s1 \<leftarrow> lock_sfs_io f s;
       (ret, buf1, s2) \<leftarrow> rw_loop f buf 0 blkno nblks wr s1;
       Some (ret, buf1, unlock_sfs_io f s2)
     }"

definition sfs_rblock :: "nat \<Rightarrow> 8 word list \<Rightarrow> nat \<Rightarrow> nat \<Rightarrow> kfs \<Rightarrow> (int \<times> 8 word list \<times> kfs) option" where
  "sfs_rblock f buf blkno nblks s = sfs_rwblock f buf blkno nblks False s"

definition sfs_wblock :: "nat \<Rightarrow> 8 word list \<Rightarrow> nat \<Rightarrow> nat \<Rightarrow> kfs \<Rightarrow> (int \<times> kfs) option" where
  "sfs_wblock f buf blkno nblks s = do { (ret, _, s1) \<leftarrow> sfs_rwblock f buf blkno nblks True s; Some (ret, s1) }"

text \<open>One block in or out of \<^verbatim>\<open>sfs->sfs_buffer\<close>.\<close>

definition buffer_io :: "nat \<Rightarrow> nat \<Rightarrow> bool \<Rightarrow> bool \<Rightarrow> kfs \<Rightarrow> (int \<times> kfs) option" where
  "buffer_io f blkno wr chk s =
     do {
       (ret, b, s1) \<leftarrow> sfs_rwblock_nolock f (sfs_buffer (sfs_at f s)) blkno wr chk s;
       Some (ret, upd_sfs f (\<lambda>x. x\<lparr>sfs_buffer := b\<rparr>) s1)
     }"

text \<open>The bytes read; nothing when the block could not be read.\<close>

definition sfs_rbuf :: "nat \<Rightarrow> nat \<Rightarrow> nat \<Rightarrow> nat \<Rightarrow> kfs \<Rightarrow> (int \<times> 8 word list \<times> kfs) option" where
  "sfs_rbuf f len blkno offset s =
     do {
       assertc (offset < SFS_BLKSIZE \<and> offset + len \<le> SFS_BLKSIZE);
       s1 \<leftarrow> lock_sfs_io f s;
       (ret, s2) \<leftarrow> buffer_io f blkno False True s1;
       Some (ret, if ret = 0 then take len (drop offset (sfs_buffer (sfs_at f s2))) else [], unlock_sfs_io f s2)
     }"

definition sfs_wbuf :: "nat \<Rightarrow> 8 word list \<Rightarrow> nat \<Rightarrow> nat \<Rightarrow> kfs \<Rightarrow> (int \<times> kfs) option" where
  "sfs_wbuf f data blkno offset s =
     do {
       assertc (offset < SFS_BLKSIZE \<and> offset + length data \<le> SFS_BLKSIZE);
       s1 \<leftarrow> lock_sfs_io f s;
       (ret, s2) \<leftarrow> buffer_io f blkno False True s1;
       (ret2, s3) \<leftarrow>
         (if ret = 0 then buffer_io f blkno True True (upd_sfs f (\<lambda>x. x\<lparr>sfs_buffer := splice offset data (sfs_buffer x)\<rparr>) s2)
          else Some (ret, s2));
       Some (ret2, unlock_sfs_io f s3)
     }"

definition sfs_sync_super :: "nat \<Rightarrow> kfs \<Rightarrow> (int \<times> kfs) option" where
  "sfs_sync_super f s =
     do {
       s1 \<leftarrow> lock_sfs_io f s;
       let s2 = upd_sfs f (\<lambda>x. x\<lparr>sfs_buffer := splice 0 (super_bytes (super x)) (replicate SFS_BLKSIZE 0)\<rparr>) s1;
       (ret, s3) \<leftarrow> buffer_io f SFS_BLKN_SUPER True False s2;
       Some (ret, unlock_sfs_io f s3)
     }"

definition sfs_sync_freemap :: "nat \<Rightarrow> kfs \<Rightarrow> (int \<times> kfs) option" where
  "sfs_sync_freemap f s =
     sfs_wblock f (fst (bitmap_getdata (freemap (sfs_at f s)))) SFS_BLKN_FREEMAP (sfs_freemap_blocks (super (sfs_at f s))) s"

fun clear_loop :: "nat \<Rightarrow> nat \<Rightarrow> nat \<Rightarrow> int option \<Rightarrow> kfs \<Rightarrow> (int \<times> kfs) option" where
  "clear_loop f blkno 0 r s = do { ret \<leftarrow> r; Some (ret, s) }"
| "clear_loop f blkno (Suc n) r s =
     do {
       (ret, s1) \<leftarrow> buffer_io f blkno True True s;
       if ret \<noteq> 0 then Some (ret, s1) else clear_loop f (u32 (blkno + 1)) n (Some ret) s1
     }"

text \<open>Without a block to clear the return value is never set, which is \<open>None\<close>.\<close>

definition sfs_clear_block :: "nat \<Rightarrow> nat \<Rightarrow> nat \<Rightarrow> kfs \<Rightarrow> (int \<times> kfs) option" where
  "sfs_clear_block f blkno nblks s =
     do {
       s1 \<leftarrow> lock_sfs_io f s;
       let s2 = upd_sfs f (\<lambda>x. x\<lparr>sfs_buffer := replicate SFS_BLKSIZE 0\<rparr>) s1;
       (ret, s3) \<leftarrow> clear_loop f blkno nblks None s2;
       Some (ret, unlock_sfs_io f s3)
     }"

section \<open>Allocation of blocks\<close>

definition sfs_block_inuse :: "nat \<Rightarrow> nat \<Rightarrow> kfs \<Rightarrow> bool option" where
  "sfs_block_inuse f ino s =
     (if ino \<noteq> 0 \<and> ino < sb_blocks (super (sfs_at f s))
      then do { b \<leftarrow> bitmap_test (freemap (sfs_at f s)) ino; Some (\<not> b) }
      else None)"

definition assert_inuse :: "nat \<Rightarrow> nat \<Rightarrow> kfs \<Rightarrow> unit option" where
  "assert_inuse f ino s = do { b \<leftarrow> sfs_block_inuse f ino s; assertc b }"

definition sfs_block_alloc :: "nat \<Rightarrow> kfs \<Rightarrow> (int \<times> nat \<times> kfs) option" where
  "sfs_block_alloc f s =
     do {
       (ret, ino, fm) \<leftarrow> bitmap_alloc (freemap (sfs_at f s));
       if ret \<noteq> 0 then Some (ret, ino, s)
       else do {
         assertc (unused_blocks (super (sfs_at f s)) > 0);
         let s1 = upd_sfs f (\<lambda>x. x\<lparr>freemap := fm, super := (super x)\<lparr>unused_blocks := unused_blocks (super x) - 1\<rparr>, super_dirty := True\<rparr>) s;
         assert_inuse f ino s1;
         (ret2, s2) \<leftarrow> sfs_clear_block f ino 1 s1;
         Some (ret2, ino, s2)
       }
     }"

definition sfs_block_free :: "nat \<Rightarrow> nat \<Rightarrow> kfs \<Rightarrow> kfs option" where
  "sfs_block_free f ino s =
     do {
       assert_inuse f ino s;
       fm \<leftarrow> bitmap_free (freemap (sfs_at f s)) ino;
       Some (upd_sfs f (\<lambda>x. x\<lparr>freemap := fm, super := (super x)\<lparr>unused_blocks := u32 (unused_blocks (super x) + 1)\<rparr>, super_dirty := True\<rparr>) s)
     }"

section \<open>The block map of a file\<close>

definition put32 :: "nat \<Rightarrow> 8 word list" where "put32 v = enc_le 4 v"

text \<open>The result is the return value, \<^verbatim>\<open>*entp\<close>, \<^verbatim>\<open>*ino_store\<close> and the state.\<close>

definition get_sub_fail :: "nat \<Rightarrow> nat \<Rightarrow> nat \<Rightarrow> int \<Rightarrow> kfs \<Rightarrow> (int \<times> nat \<times> nat \<times> kfs) option" where
  "get_sub_fail f ent0 ent ret s =
     (if ent \<noteq> ent0 then do { s1 \<leftarrow> sfs_block_free f ent s; Some (ret, ent0, 0, s1) } else Some (ret, ent0, 0, s))"

definition sfs_bmap_get_sub_nolock :: "nat \<Rightarrow> nat \<Rightarrow> nat \<Rightarrow> bool \<Rightarrow> kfs \<Rightarrow> (int \<times> nat \<times> nat \<times> kfs) option" where
  "sfs_bmap_get_sub_nolock f ent0 index create s =
     do {
       assertc (index < SFS_BLK_NENTRY);
       let offset = index * 4;
       (ret, ent, ino, s1) \<leftarrow>
         (if ent0 \<noteq> 0
          then do { (ret, bs, s1) \<leftarrow> sfs_rbuf f 4 ent0 offset s; Some (ret, ent0, le_nat bs, s1) }
          else if \<not> create then Some (0, ent0, 0, s)
          else do { (ret, ent, s1) \<leftarrow> sfs_block_alloc f s; Some (ret, ent, 0, s1) });
       if ret \<noteq> 0 then Some (ret, ent0, 0, s1)
       else if ino \<noteq> 0 \<or> \<not> create then Some (0, ent, ino, s1)
       else do {
         (ret2, ino2, s2) \<leftarrow> sfs_block_alloc f s1;
         if ret2 \<noteq> 0 then get_sub_fail f ent0 ent ret2 s2
         else do {
           (ret3, s3) \<leftarrow> sfs_wbuf f (put32 ino2) ent offset s2;
           if ret3 \<noteq> 0 then do { s4 \<leftarrow> sfs_block_free f ino2 s3; get_sub_fail f ent0 ent ret3 s4 }
           else Some (0, ent, ino2, s3)
         }
       }
     }"

definition bmap_out :: "nat \<Rightarrow> nat \<Rightarrow> kfs \<Rightarrow> (int \<times> nat \<times> kfs) option" where
  "bmap_out f ino s = do { (if ino = 0 then Some () else assert_inuse f ino s); Some (0, ino, s) }"

definition sfs_bmap_get_nolock :: "nat \<Rightarrow> nat \<Rightarrow> nat \<Rightarrow> bool \<Rightarrow> kfs \<Rightarrow> (int \<times> nat \<times> kfs) option" where
  "sfs_bmap_get_nolock f n index create s =
     (if index < SFS_NDIRECT
      then (let ino = di_direct (din_at n s) ! index
            in if ino = 0 \<and> create
               then do {
                 (ret, ino1, s1) \<leftarrow> sfs_block_alloc f s;
                 if ret \<noteq> 0 then Some (ret, 0, s1)
                 else bmap_out f ino1
                   (upd_sin n (\<lambda>i. i\<lparr>dirty := True\<rparr>) (upd_din n (\<lambda>d. d\<lparr>di_direct := (di_direct d)[index := ino1]\<rparr>) s1))
               }
               else bmap_out f ino s)
      else if index - SFS_NDIRECT < SFS_BLK_NENTRY
      then do {
        (ret, ent, ino, s1) \<leftarrow> sfs_bmap_get_sub_nolock f (di_indirect (din_at n s)) (index - SFS_NDIRECT) create s;
        if ret \<noteq> 0 then Some (ret, 0, s1)
        else if ent \<noteq> di_indirect (din_at n s1)
        then do {
          assertc (di_indirect (din_at n s1) = 0);
          bmap_out f ino (upd_sin n (\<lambda>i. i\<lparr>dirty := True\<rparr>) (upd_din n (\<lambda>d. d\<lparr>di_indirect := ent\<rparr>) s1))
        }
        else bmap_out f ino s1
      }
      else None)"

definition sfs_bmap_free_sub_nolock :: "nat \<Rightarrow> nat \<Rightarrow> nat \<Rightarrow> kfs \<Rightarrow> (int \<times> kfs) option" where
  "sfs_bmap_free_sub_nolock f ent index s =
     do {
       assert_inuse f ent s;
       assertc (index < SFS_BLK_NENTRY);
       let offset = index * 4;
       (ret, bs, s1) \<leftarrow> sfs_rbuf f 4 ent offset s;
       if ret \<noteq> 0 then Some (ret, s1)
       else if le_nat bs \<noteq> 0
       then do {
         (ret2, s2) \<leftarrow> sfs_wbuf f (put32 0) ent offset s1;
         if ret2 \<noteq> 0 then Some (ret2, s2) else do { s3 \<leftarrow> sfs_block_free f (le_nat bs) s2; Some (0, s3) }
       }
       else Some (0, s1)
     }"

definition sfs_bmap_free_nolock :: "nat \<Rightarrow> nat \<Rightarrow> nat \<Rightarrow> kfs \<Rightarrow> (int \<times> kfs) option" where
  "sfs_bmap_free_nolock f n index s =
     (if index < SFS_NDIRECT
      then (let ino = di_direct (din_at n s) ! index
            in if ino \<noteq> 0
               then do {
                 s1 \<leftarrow> sfs_block_free f ino s;
                 Some (0, upd_sin n (\<lambda>i. i\<lparr>dirty := True\<rparr>) (upd_din n (\<lambda>d. d\<lparr>di_direct := (di_direct d)[index := 0]\<rparr>) s1))
               }
               else Some (0, s))
      else if index - SFS_NDIRECT < SFS_BLK_NENTRY \<and> di_indirect (din_at n s) \<noteq> 0
      then sfs_bmap_free_sub_nolock f (di_indirect (din_at n s)) (index - SFS_NDIRECT) s
      else Some (0, s))"

definition sfs_bmap_load_nolock :: "nat \<Rightarrow> nat \<Rightarrow> nat \<Rightarrow> kfs \<Rightarrow> (int \<times> nat \<times> kfs) option" where
  "sfs_bmap_load_nolock f n index s =
     do {
       assertc (index \<le> di_blocks (din_at n s));
       let create = (index = di_blocks (din_at n s));
       (ret, ino, s1) \<leftarrow> sfs_bmap_get_nolock f n index create s;
       if ret \<noteq> 0 then Some (ret, 0, s1)
       else do {
         assert_inuse f ino s1;
         Some (0, ino, if create then upd_din n (\<lambda>d. d\<lparr>di_blocks := u32 (di_blocks d + 1)\<rparr>) s1 else s1)
       }
     }"

definition sfs_bmap_truncate_nolock :: "nat \<Rightarrow> nat \<Rightarrow> kfs \<Rightarrow> (int \<times> kfs) option" where
  "sfs_bmap_truncate_nolock f n s =
     do {
       assertc (di_blocks (din_at n s) \<noteq> 0);
       (ret, s1) \<leftarrow> sfs_bmap_free_nolock f n (di_blocks (din_at n s) - 1) s;
       if ret \<noteq> 0 then Some (ret, s1)
       else Some (0, upd_sin n (\<lambda>i. i\<lparr>dirty := True\<rparr>) (upd_din n (\<lambda>d. d\<lparr>di_blocks := di_blocks d - 1\<rparr>) s1))
     }"

section \<open>The cache of inodes\<close>

text \<open>The tables of operations of directories and files by the type of the inode.\<close>

definition sfs_get_ops :: "nat \<Rightarrow> nat option" where
  "sfs_get_ops type =
     (if type = SFS_TYPE_DIR then Some SFS_NODE_DIROPS else if type = SFS_TYPE_FILE then Some SFS_NODE_FILEOPS else None)"

definition sin_hashfn :: "nat \<Rightarrow> nat" where "sin_hashfn x = unat (hash32 (of_nat x) SFS_HLIST_SHIFT)"

definition sfs_set_links :: "nat \<Rightarrow> nat \<Rightarrow> kfs \<Rightarrow> kfs" where
  "sfs_set_links f n s =
     (let h = sin_hashfn (sin_ino (sin_at n s))
      in upd_sfs f (\<lambda>x. x\<lparr>inode_list := n # inode_list x, hash_list := (hash_list x)(h := n # hash_list x h)\<rparr>) s)"

text \<open>\<^verbatim>\<open>list_del\<close> takes the two links of the inode out of the lists they are in.\<close>

definition sfs_remove_links :: "nat \<Rightarrow> nat \<Rightarrow> kfs \<Rightarrow> kfs" where
  "sfs_remove_links f n s =
     (let h = sin_hashfn (sin_ino (sin_at n s))
      in upd_sfs f (\<lambda>x. x\<lparr>inode_list := remove1 n (inode_list x), hash_list := (hash_list x)(h := remove1 n (hash_list x h))\<rparr>) s)"

definition sfs_create_inode :: "nat \<Rightarrow> sfs_disk_inode \<Rightarrow> nat \<Rightarrow> kfs \<Rightarrow> (int \<times> nat option \<times> kfs) option" where
  "sfs_create_inode f d ino s =
     (case alloc_inode sfs_inode_info s of
        (None, s1) \<Rightarrow> Some (- E_NO_MEM, None, s1)
      | (Some n, s1) \<Rightarrow>
          do {
            ops \<leftarrow> sfs_get_ops (di_type d);
            let s2 = inode_init n ops (Some f) s1;
            Some (0, Some n, upd_sin n (\<lambda>_. \<lparr>din = d, sin_ino = ino, dirty = False, reclaim_count = 1, sin_sem = 1\<rparr>) s2)
          })"

definition lookup_sfs_nolock :: "nat \<Rightarrow> nat \<Rightarrow> kfs \<Rightarrow> nat option \<times> kfs" where
  "lookup_sfs_nolock f ino s =
     (case find (\<lambda>n. sin_ino (sin_at n s) = ino) (hash_list (sfs_at f s) (sin_hashfn ino)) of
        None \<Rightarrow> (None, s)
      | Some n \<Rightarrow>
          (let s1 = inode_ref_inc n s
           in (Some n, if ref_count (inodes s1 n) = 1 then upd_sin n (\<lambda>i. i\<lparr>reclaim_count := reclaim_count i + 1\<rparr>) s1 else s1)))"

definition sfs_load_inode :: "nat \<Rightarrow> nat \<Rightarrow> kfs \<Rightarrow> (int \<times> nat option \<times> kfs) option" where
  "sfs_load_inode f ino s =
     do {
       s1 \<leftarrow> lock_sfs_fs f s;
       (case lookup_sfs_nolock f ino s1 of
          (Some n, s2) \<Rightarrow> Some (0, Some n, unlock_sfs_fs f s2)
        | (None, s2) \<Rightarrow>
            (let (ok, s3) = kmalloc_ok s2
             in if \<not> ok then Some (- E_NO_MEM, None, unlock_sfs_fs f s3)
                else do {
                  assert_inuse f ino s3;
                  (ret, bs, s4) \<leftarrow> sfs_rbuf f SIZEOF_DIN ino 0 s3;
                  if ret \<noteq> 0 then Some (ret, None, unlock_sfs_fs f s4)
                  else do {
                    let d = din_of bs;
                    assertc (di_nlinks d \<noteq> 0);
                    (ret2, node, s5) \<leftarrow> sfs_create_inode f d ino s4;
                    if ret2 \<noteq> 0 then Some (ret2, None, unlock_sfs_fs f s5)
                    else do { n \<leftarrow> node; Some (0, node, unlock_sfs_fs f (sfs_set_links f n s5)) }
                  }
                }))
     }"

section \<open>Directories\<close>

definition no_entry :: sfs_disk_entry where "no_entry = \<lparr>e_ino = 0, e_name = []\<rparr>"

definition sfs_dirent_read_nolock :: "nat \<Rightarrow> nat \<Rightarrow> nat \<Rightarrow> kfs \<Rightarrow> (int \<times> sfs_disk_entry \<times> kfs) option" where
  "sfs_dirent_read_nolock f n slot s =
     do {
       assertc (di_type (din_at n s) = SFS_TYPE_DIR \<and> slot < di_blocks (din_at n s));
       (ret, ino, s1) \<leftarrow> sfs_bmap_load_nolock f n slot s;
       if ret \<noteq> 0 then Some (ret, no_entry, s1)
       else do {
         assert_inuse f ino s1;
         (ret2, bs, s2) \<leftarrow> sfs_rbuf f SIZEOF_ENTRY ino 0 s1;
         if ret2 \<noteq> 0 then Some (ret2, no_entry, s2)
         else (let e = entry_of bs in Some (0, e\<lparr>e_name := (e_name e)[SFS_MAX_FNAME_LEN := 0]\<rparr>, s2))
       }
     }"

text \<open>\<^verbatim>\<open>int nslots = sin->din->blocks\<close>: a number of blocks that is negative as an \<^verbatim>\<open>int\<close> runs no iteration.\<close>

definition nslots :: "nat \<Rightarrow> kfs \<Rightarrow> nat" where
  "nslots n s = (let b = di_blocks (din_at n s) in if b < 2 ^ 31 then b else 0)"

text \<open>The result is the return value, the inode number, its slot, the empty slot and the state.\<close>

fun dirent_search :: "nat \<Rightarrow> nat \<Rightarrow> 8 word list \<Rightarrow> nat \<Rightarrow> nat \<Rightarrow> nat \<Rightarrow> kfs \<Rightarrow> (int \<times> nat \<times> nat \<times> nat \<times> kfs) option" where
  "dirent_search f n name i 0 es s = Some (- E_NOENT, 0, 0, es, s)"
| "dirent_search f n name i (Suc k) es s =
     do {
       (ret, e, s1) \<leftarrow> sfs_dirent_read_nolock f n i s;
       if ret \<noteq> 0 then Some (ret, 0, 0, es, s1)
       else if e_ino e = 0 then dirent_search f n name (i + 1) k i s1
       else if name = c_str (e_name e) then Some (0, e_ino e, i, es, s1)
       else dirent_search f n name (i + 1) k es s1
     }"

definition sfs_dirent_search_nolock :: "nat \<Rightarrow> nat \<Rightarrow> string \<Rightarrow> kfs \<Rightarrow> (int \<times> nat \<times> nat \<times> nat \<times> kfs) option" where
  "sfs_dirent_search_nolock f n name s =
     do {
       assertc (length name \<le> SFS_MAX_FNAME_LEN);
       let (ok, s1) = kmalloc_ok s;
       if \<not> ok then Some (- E_NO_MEM, 0, 0, 0, s1)
       else dirent_search f n (bytes_of name) 0 (nslots n s1) (nslots n s1) s1
     }"

fun findino_loop :: "nat \<Rightarrow> nat \<Rightarrow> nat \<Rightarrow> nat \<Rightarrow> nat \<Rightarrow> kfs \<Rightarrow> (int \<times> sfs_disk_entry \<times> kfs) option" where
  "findino_loop f n ino i 0 s = Some (- E_NOENT, no_entry, s)"
| "findino_loop f n ino i (Suc k) s =
     do {
       (ret, e, s1) \<leftarrow> sfs_dirent_read_nolock f n i s;
       if ret \<noteq> 0 then Some (ret, no_entry, s1)
       else if e_ino e = ino then Some (0, e, s1)
       else findino_loop f n ino (i + 1) k s1
     }"

definition sfs_dirent_findino_nolock :: "nat \<Rightarrow> nat \<Rightarrow> nat \<Rightarrow> kfs \<Rightarrow> (int \<times> sfs_disk_entry \<times> kfs) option" where
  "sfs_dirent_findino_nolock f n ino s = findino_loop f n ino 0 (nslots n s) s"

definition sfs_lookup_once :: "nat \<Rightarrow> nat \<Rightarrow> string \<Rightarrow> kfs \<Rightarrow> (int \<times> nat option \<times> nat \<times> kfs) option" where
  "sfs_lookup_once f n name s =
     do {
       s1 \<leftarrow> lock_sin n s;
       (ret, ino, slot, _, s2) \<leftarrow> sfs_dirent_search_nolock f n name s1;
       let s3 = unlock_sin n s2;
       if ret = 0 then do { (ret2, node, s4) \<leftarrow> sfs_load_inode f ino s3; Some (ret2, node, slot, s4) }
       else Some (ret, None, slot, s3)
     }"

section \<open>Reading and writing a file\<close>

definition sfs_buf_op :: "bool \<Rightarrow> nat \<Rightarrow> 8 word list \<Rightarrow> nat \<Rightarrow> nat \<Rightarrow> nat \<Rightarrow> nat \<Rightarrow> kfs \<Rightarrow> (int \<times> 8 word list \<times> kfs) option" where
  "sfs_buf_op wr f mem pos sz blkno offset s =
     (if wr then do { (ret, s1) \<leftarrow> sfs_wbuf f (take sz (drop pos mem)) blkno offset s; Some (ret, mem, s1) }
      else do { (ret, bs, s1) \<leftarrow> sfs_rbuf f sz blkno offset s; Some (ret, splice pos bs mem, s1) })"

definition sfs_block_op :: "bool \<Rightarrow> nat \<Rightarrow> 8 word list \<Rightarrow> nat \<Rightarrow> nat \<Rightarrow> kfs \<Rightarrow> (int \<times> 8 word list \<times> kfs) option" where
  "sfs_block_op wr f mem pos blkno s =
     (let b = take SFS_BLKSIZE (drop pos mem)
      in if wr then do { (ret, s1) \<leftarrow> sfs_wblock f b blkno 1 s; Some (ret, mem, s1) }
         else do { (ret, b1, s1) \<leftarrow> sfs_rblock f b blkno 1 s; Some (ret, splice pos b1 mem, s1) })"

text \<open>A part of one block.\<close>

definition io_part :: "bool \<Rightarrow> nat \<Rightarrow> nat \<Rightarrow> 8 word list \<Rightarrow> nat \<Rightarrow> nat \<Rightarrow> nat \<Rightarrow> nat \<Rightarrow> kfs \<Rightarrow> (int \<times> 8 word list \<times> kfs) option" where
  "io_part wr f n mem pos sz blkno blkoff s =
     do {
       (ret, ino, s1) \<leftarrow> sfs_bmap_load_nolock f n blkno s;
       if ret \<noteq> 0 then Some (ret, mem, s1) else sfs_buf_op wr f mem pos sz ino blkoff s1
     }"

text \<open>The loop over whole blocks; the third result is what the loop adds to \<^verbatim>\<open>alen\<close>.\<close>

fun io_blocks :: "bool \<Rightarrow> nat \<Rightarrow> nat \<Rightarrow> 8 word list \<Rightarrow> nat \<Rightarrow> nat \<Rightarrow> nat \<Rightarrow> kfs \<Rightarrow> (int \<times> 8 word list \<times> nat \<times> kfs) option" where
  "io_blocks wr f n mem pos blkno 0 s = Some (0, mem, 0, s)"
| "io_blocks wr f n mem pos blkno (Suc nblks) s =
     do {
       (ret, ino, s1) \<leftarrow> sfs_bmap_load_nolock f n blkno s;
       if ret \<noteq> 0 then Some (ret, mem, 0, s1)
       else do {
         (ret2, mem1, s2) \<leftarrow> sfs_block_op wr f mem pos ino s1;
         if ret2 \<noteq> 0 then Some (ret2, mem1, 0, s2)
         else do {
           (ret3, mem2, d, s3) \<leftarrow> io_blocks wr f n mem1 (pos + SFS_BLKSIZE) (blkno + 1) nblks s2;
           Some (ret3, mem2, SFS_BLKSIZE + d, s3)
         }
       }
     }"

text \<open>
  The whole blocks and the part of the last one, where \<open>e\<close> is \<^verbatim>\<open>endpos\<close> and \<open>alen\<close> what is transferred
  already; the result has \<^verbatim>\<open>alen\<close> at the label \<^verbatim>\<open>out\<close>.
\<close>

definition io_tail ::
  "bool \<Rightarrow> nat \<Rightarrow> nat \<Rightarrow> nat \<Rightarrow> 8 word list \<Rightarrow> nat \<Rightarrow> nat \<Rightarrow> nat \<Rightarrow> nat \<Rightarrow> kfs \<Rightarrow> (int \<times> 8 word list \<times> nat \<times> kfs) option" where
  "io_tail wr f n e mem pos blkno nblks alen s =
     do {
       (ret, mem1, d, s1) \<leftarrow> io_blocks wr f n mem pos blkno nblks s;
       if ret \<noteq> 0 then Some (ret, mem1, alen + d, s1)
       else if e mod SFS_BLKSIZE \<noteq> 0
       then do {
         let sz = e mod SFS_BLKSIZE;
         (ret2, mem2, s2) \<leftarrow> io_part wr f n mem1 (pos + d) sz (blkno + nblks) 0 s1;
         Some (ret2, mem2, if ret2 \<noteq> 0 then alen + d else alen + d + sz, s2)
       }
       else Some (0, mem1, alen + d, s1)
     }"

definition io_body :: "bool \<Rightarrow> nat \<Rightarrow> nat \<Rightarrow> 8 word list \<Rightarrow> nat \<Rightarrow> nat \<Rightarrow> nat \<Rightarrow> kfs \<Rightarrow> (int \<times> 8 word list \<times> nat \<times> kfs) option" where
  "io_body wr f n mem base offset endpos s =
     (let blkno = offset div SFS_BLKSIZE; nblks = endpos div SFS_BLKSIZE - blkno; blkoff = offset mod SFS_BLKSIZE;
          sz = (if nblks \<noteq> 0 then SFS_BLKSIZE - blkoff else endpos - offset)
      in if blkoff \<noteq> 0
         then do {
           (ret, mem1, s1) \<leftarrow> io_part wr f n mem base sz blkno blkoff s;
           if ret \<noteq> 0 then Some (ret, mem1, 0, s1)
           else if nblks = 0 then Some (0, mem1, sz, s1)
           else io_tail wr f n endpos mem1 (base + sz) (blkno + 1) (nblks - 1) sz s1
         }
         else io_tail wr f n endpos mem base blkno nblks 0 s)"

definition io_out :: "nat \<Rightarrow> nat \<Rightarrow> nat \<Rightarrow> kfs \<Rightarrow> kfs" where
  "io_out n offset alen s =
     (if offset + alen > di_size (din_at n s)
      then upd_sin n (\<lambda>i. i\<lparr>dirty := True\<rparr>) (upd_din n (\<lambda>d. d\<lparr>di_size := u32 (offset + alen)\<rparr>) s)
      else s)"

text \<open>The result is the return value, the memory, \<^verbatim>\<open>*alenp\<close> and the state.\<close>

definition sfs_io_nolock :: "nat \<Rightarrow> nat \<Rightarrow> 8 word list \<Rightarrow> nat \<Rightarrow> 64 word \<Rightarrow> nat \<Rightarrow> bool \<Rightarrow> kfs \<Rightarrow> (int \<times> 8 word list \<times> nat \<times> kfs) option" where
  "sfs_io_nolock f n mem base off alen wr s =
     do {
       assertc (di_type (din_at n s) \<noteq> SFS_TYPE_DIR);
       let offset = sint off;
       let endpos = sint (off + of_nat alen);
       if offset < 0 \<or> offset \<ge> int SFS_MAX_FILE_SIZE \<or> offset > endpos then Some (- E_INVAL, mem, 0, s)
       else if offset = endpos then Some (0, mem, 0, s)
       else do {
         let end1 = min endpos (int SFS_MAX_FILE_SIZE);
         if \<not> wr \<and> offset \<ge> int (di_size (din_at n s)) then Some (0, mem, 0, s)
         else do {
           let end2 = (if wr then end1 else min end1 (int (di_size (din_at n s))));
           (ret, mem1, alen1, s1) \<leftarrow> io_body wr f n mem base (nat offset) (nat end2) s;
           Some (ret, mem1, alen1, io_out n (nat offset) alen1 s1)
         }
       }
     }"

text \<open>\<^verbatim>\<open>fsop_info(vop_fs(node), sfs)\<close> and \<^verbatim>\<open>vop_info(node, sfs_inode)\<close>\<close>

definition fs_of :: "nat \<Rightarrow> kfs \<Rightarrow> nat option" where "fs_of n s = in_fs (inodes s n)"

definition sin_of :: "nat \<Rightarrow> kfs \<Rightarrow> unit option" where "sin_of n s = assertc (in_type (inodes s n) = sfs_inode_info)"

definition sfs_io :: "nat \<Rightarrow> iobuf \<Rightarrow> bool \<Rightarrow> kfs \<Rightarrow> (int \<times> iobuf \<times> kfs) option" where
  "sfs_io n iob wr s =
     do {
       f \<leftarrow> fs_of n s;
       sin_of n s;
       s1 \<leftarrow> lock_sin n s;
       (ret, mem, alen, s2) \<leftarrow> sfs_io_nolock f n (io_mem iob) (io_base iob) (io_offset iob) (io_resid iob) wr s1;
       let iob1 = iob\<lparr>io_mem := mem\<rparr>;
       iob2 \<leftarrow> (if alen \<noteq> 0 then iobuf_skip iob1 alen else Some iob1);
       Some (ret, iob2, unlock_sin n s2)
     }"

definition sfs_read :: "nat \<Rightarrow> iobuf \<Rightarrow> kfs \<Rightarrow> (int \<times> iobuf \<times> kfs) option" where "sfs_read n iob s = sfs_io n iob False s"
definition sfs_write :: "nat \<Rightarrow> iobuf \<Rightarrow> kfs \<Rightarrow> (int \<times> iobuf \<times> kfs) option" where "sfs_write n iob s = sfs_io n iob True s"

section \<open>The operations of an inode\<close>

definition sfs_opendir :: "nat \<Rightarrow> 32 word \<Rightarrow> kfs \<Rightarrow> (int \<times> kfs) option" where
  "sfs_opendir n fl s =
     Some (if fl AND O_ACCMODE \<noteq> O_RDONLY then - E_ISDIR else if fl AND O_APPEND \<noteq> 0 then - E_ISDIR else 0, s)"

definition sfs_openfile :: "nat \<Rightarrow> 32 word \<Rightarrow> kfs \<Rightarrow> (int \<times> kfs) option" where "sfs_openfile n fl s = Some (0, s)"

definition sfs_close :: "sdevs world \<Rightarrow> nat \<Rightarrow> kfs \<Rightarrow> (int \<times> kfs) option" where "sfs_close W n s = vop_fsync W n s"

definition sfs_fstat :: "sdevs world \<Rightarrow> nat \<Rightarrow> kfs \<Rightarrow> (int \<times> stat \<times> kfs) option" where
  "sfs_fstat W n s =
     do {
       (ret, md, s1) \<leftarrow> vop_gettype W n s;
       let st = \<lparr>st_mode = md, st_nlinks = 0, st_blocks = 0, st_size = 0\<rparr>;
       if ret \<noteq> 0 then Some (ret, st, s1)
       else do {
         sin_of n s1;
         let d = din_at n s1;
         Some (0, st\<lparr>st_nlinks := of_nat (di_nlinks d), st_blocks := of_nat (di_blocks d), st_size := of_nat (di_size d)\<rparr>, s1)
       }
     }"

definition sfs_fsync :: "nat \<Rightarrow> kfs \<Rightarrow> (int \<times> kfs) option" where
  "sfs_fsync n s =
     do {
       f \<leftarrow> fs_of n s;
       sin_of n s;
       if \<not> dirty (sin_at n s) then Some (0, s)
       else do {
         s1 \<leftarrow> lock_sin n s;
         let s2 = upd_sin n (\<lambda>i. i\<lparr>dirty := False\<rparr>) s1;
         (ret, s3) \<leftarrow> sfs_wbuf f (din_bytes (din_at n s2)) (sin_ino (sin_at n s2)) 0 s2;
         Some (ret, unlock_sin n (if ret \<noteq> 0 then upd_sin n (\<lambda>i. i\<lparr>dirty := True\<rparr>) s3 else s3))
       }
     }"

text \<open>
  The path is built from the end of the buffer towards its start; \<open>ptr\<close> is the index of its first byte.
  \<open>dec\<close> is \<^verbatim>\<open>vop_ref_dec\<close>, a call through the tables.
  The result is the return value, \<open>resid\<close>, \<open>ptr\<close>, the memory and the state.
\<close>

partial_function (option) namefile_loop ::
  "(nat \<Rightarrow> kfs \<Rightarrow> kfs option) \<Rightarrow> nat \<Rightarrow> nat \<Rightarrow> nat \<Rightarrow> nat \<Rightarrow> 8 word list \<Rightarrow> kfs \<Rightarrow> (int \<times> nat \<times> nat \<times> 8 word list \<times> kfs) option" where
  "namefile_loop dec f node resid ptr mem s =
     do {
       (ret, parent, _, s1) \<leftarrow> sfs_lookup_once f node ''..'' s;
       if ret \<noteq> 0 then do { s2 \<leftarrow> dec node s1; Some (ret, resid, ptr, mem, s2) }
       else do {
         let ino = sin_ino (sin_at node s1);
         p \<leftarrow> parent;
         s2 \<leftarrow> dec node s1;
         if node = p then do { s3 \<leftarrow> dec node s2; Some (0, resid, ptr, mem, s3) }
         else do {
           sin_of p s2;
           assertc (ino \<noteq> sin_ino (sin_at p s2) \<and> di_type (din_at p s2) = SFS_TYPE_DIR);
           s3 \<leftarrow> lock_sin p s2;
           (ret2, e, s4) \<leftarrow> sfs_dirent_findino_nolock f p ino s3;
           let s5 = unlock_sin p s4;
           let alen = length (c_str (e_name e)) + 1;
           if ret2 \<noteq> 0 then do { s6 \<leftarrow> dec p s5; Some (ret2, resid, ptr, mem, s6) }
           else if alen > resid then do { s6 \<leftarrow> dec p s5; Some (- E_NO_MEM, resid, ptr, mem, s6) }
           else namefile_loop dec f p (resid - alen) (ptr - alen) (splice (ptr - alen) (c_str (e_name e) @ [47]) mem) s5
         }
       }
     }"

definition sfs_namefile :: "sdevs world \<Rightarrow> nat \<Rightarrow> iobuf \<Rightarrow> kfs \<Rightarrow> (int \<times> iobuf \<times> kfs) option" where
  "sfs_namefile W n iob s =
     (if io_resid iob \<le> 2 then Some (- E_NO_MEM, iob, s)
      else (let (ok, s1) = kmalloc_ok s
            in if \<not> ok then Some (- E_NO_MEM, iob, s1)
               else do {
                 f \<leftarrow> fs_of n s1;
                 sin_of n s1;
                 (ret, resid, ptr, mem, s2) \<leftarrow>
                   namefile_loop (ref_dec W) f n (io_resid iob - 2) (io_base iob + io_resid iob) (io_mem iob) (inode_ref_inc n s1);
                 if ret \<noteq> 0 then Some (ret, iob\<lparr>io_mem := mem\<rparr>, s2)
                 else do {
                   let alen = io_resid iob - resid - 2;
                   let mem1 = splice (io_base iob) ([47] @ take alen (drop ptr mem) @ [0]) mem;
                   iob1 \<leftarrow> iobuf_skip (iob\<lparr>io_mem := mem1\<rparr>) alen;
                   Some (0, iob1, s2)
                 }
               }))"

fun getdirentry_loop :: "nat \<Rightarrow> nat \<Rightarrow> nat \<Rightarrow> nat \<Rightarrow> nat \<Rightarrow> kfs \<Rightarrow> (int \<times> sfs_disk_entry \<times> kfs) option" where
  "getdirentry_loop f n slot i 0 s = Some (- E_NOENT, no_entry, s)"
| "getdirentry_loop f n slot i (Suc k) s =
     do {
       (ret, e, s1) \<leftarrow> sfs_dirent_read_nolock f n i s;
       if ret \<noteq> 0 then Some (ret, no_entry, s1)
       else if e_ino e \<noteq> 0
       then (if slot = 0 then Some (0, e, s1) else getdirentry_loop f n (slot - 1) (i + 1) k s1)
       else getdirentry_loop f n slot (i + 1) k s1
     }"

definition sfs_getdirentry_sub_nolock :: "nat \<Rightarrow> nat \<Rightarrow> nat \<Rightarrow> kfs \<Rightarrow> (int \<times> sfs_disk_entry \<times> kfs) option" where
  "sfs_getdirentry_sub_nolock f n slot s = getdirentry_loop f n slot 0 (nslots n s) s"

definition sfs_dentry_size :: nat where "sfs_dentry_size = 256"

definition sfs_getdirentry :: "nat \<Rightarrow> iobuf \<Rightarrow> kfs \<Rightarrow> (int \<times> iobuf \<times> kfs) option" where
  "sfs_getdirentry n iob s =
     (let (ok, s1) = kmalloc_ok s
      in if \<not> ok then Some (- E_NO_MEM, iob, s1)
         else do {
           f \<leftarrow> fs_of n s1;
           sin_of n s1;
           let offset = sint (io_offset iob);
           let slot = u32 (nat offset div sfs_dentry_size);
           if offset < 0 \<or> nat offset mod sfs_dentry_size \<noteq> 0 then Some (- E_INVAL, iob, s1)
           else if slot > di_blocks (din_at n s1) then Some (- E_NOENT, iob, s1)
           else do {
             s2 \<leftarrow> lock_sin n s1;
             (ret, e, s3) \<leftarrow> sfs_getdirentry_sub_nolock f n slot s2;
             let s4 = unlock_sin n s3;
             if ret \<noteq> 0 then Some (ret, iob, s4)
             else do { (ret2, iob1, _, _) \<leftarrow> iobuf_move iob (e_name e) sfs_dentry_size True; Some (ret2, iob1, s4) }
           }
         })"

definition sfs_reclaim :: "sdevs world \<Rightarrow> nat \<Rightarrow> kfs \<Rightarrow> (int \<times> kfs) option" where
  "sfs_reclaim W n s =
     do {
       f \<leftarrow> fs_of n s;
       sin_of n s;
       s1 \<leftarrow> lock_sfs_fs f s;
       assertc (reclaim_count (sin_at n s1) > 0);
       let s2 = upd_sin n (\<lambda>i. i\<lparr>reclaim_count := reclaim_count i - 1\<rparr>) s1;
       if reclaim_count (sin_at n s2) \<noteq> 0 \<or> ref_count (inodes s2 n) \<noteq> 0 then Some (- E_BUSY, unlock_sfs_fs f s2)
       else do {
         (ret, s3) \<leftarrow> (if di_nlinks (din_at n s2) = 0 then vop_truncate W n 0 s2 else Some (0, s2));
         if ret \<noteq> 0 then Some (ret, unlock_sfs_fs f s3)
         else do {
           (ret2, s4) \<leftarrow> (if dirty (sin_at n s3) then vop_fsync W n s3 else Some (0, s3));
           if ret2 \<noteq> 0 then Some (ret2, unlock_sfs_fs f s4)
           else do {
             let s5 = unlock_sfs_fs f (sfs_remove_links f n s4);
             s6 \<leftarrow> (if di_nlinks (din_at n s5) = 0
                   then do {
                     s6 \<leftarrow> sfs_block_free f (sin_ino (sin_at n s5)) s5;
                     (if di_indirect (din_at n s6) \<noteq> 0 then sfs_block_free f (di_indirect (din_at n s6)) s6 else Some s6)
                   }
                   else Some s5);
             s7 \<leftarrow> inode_kill n s6;
             Some (0, s7)
           }
         }
       }
     }"

definition sfs_gettype :: "nat \<Rightarrow> kfs \<Rightarrow> (int \<times> 32 word \<times> kfs) option" where
  "sfs_gettype n s =
     do {
       sin_of n s;
       let t = di_type (din_at n s);
       if t = SFS_TYPE_DIR then Some (0, S_IFDIR, s)
       else if t = SFS_TYPE_FILE then Some (0, S_IFREG, s)
       else if t = SFS_TYPE_LINK then Some (0, S_IFLNK, s)
       else None
     }"

definition sfs_tryseek :: "sdevs world \<Rightarrow> nat \<Rightarrow> 64 word \<Rightarrow> kfs \<Rightarrow> (int \<times> kfs) option" where
  "sfs_tryseek W n pos s =
     (if sint pos < 0 \<or> sint pos \<ge> int SFS_MAX_FILE_SIZE then Some (- E_INVAL, s)
      else do {
        sin_of n s;
        if sint pos > int (di_size (din_at n s)) then vop_truncate W n pos s else Some (0, s)
      })"

fun grow_loop :: "nat \<Rightarrow> nat \<Rightarrow> nat \<Rightarrow> nat \<Rightarrow> kfs \<Rightarrow> (int \<times> kfs) option" where
  "grow_loop f n nblks 0 s = Some (0, s)"
| "grow_loop f n nblks (Suc k) s =
     do {
       (ret, _, s1) \<leftarrow> sfs_bmap_load_nolock f n nblks s;
       if ret \<noteq> 0 then Some (ret, s1) else grow_loop f n (nblks + 1) k s1
     }"

fun shrink_loop :: "nat \<Rightarrow> nat \<Rightarrow> nat \<Rightarrow> kfs \<Rightarrow> (int \<times> kfs) option" where
  "shrink_loop f n 0 s = Some (0, s)"
| "shrink_loop f n (Suc k) s =
     do {
       (ret, s1) \<leftarrow> sfs_bmap_truncate_nolock f n s;
       if ret \<noteq> 0 then Some (ret, s1) else shrink_loop f n k s1
     }"

definition sfs_truncfile :: "nat \<Rightarrow> 64 word \<Rightarrow> kfs \<Rightarrow> (int \<times> kfs) option" where
  "sfs_truncfile n l s =
     (let len = sint l; tblks = nat ((len + int SFS_BLKSIZE - 1) div int SFS_BLKSIZE)
      in if len < 0 \<or> len > int SFS_MAX_FILE_SIZE then Some (- E_INVAL, s)
         else do {
           f \<leftarrow> fs_of n s;
           sin_of n s;
           if int (di_size (din_at n s)) = len then do { assertc (tblks = di_blocks (din_at n s)); Some (0, s) }
           else do {
             s1 \<leftarrow> lock_sin n s;
             let nblks = di_blocks (din_at n s1);
             (ret, s2) \<leftarrow> (if nblks < tblks then grow_loop f n nblks (tblks - nblks) s1 else shrink_loop f n (nblks - tblks) s1);
             if ret \<noteq> 0 then Some (ret, unlock_sin n s2)
             else do {
               assertc (di_blocks (din_at n s2) = tblks);
               Some (0, unlock_sin n (upd_sin n (\<lambda>i. i\<lparr>dirty := True\<rparr>) (upd_din n (\<lambda>d. d\<lparr>di_size := nat len\<rparr>) s2)))
             }
           }
         })"

definition sfs_lookup :: "sdevs world \<Rightarrow> nat \<Rightarrow> string \<Rightarrow> kfs \<Rightarrow> (int \<times> nat option \<times> kfs) option" where
  "sfs_lookup W n path s =
     do {
       f \<leftarrow> fs_of n s;
       assertc (path \<noteq> [] \<and> hd path \<noteq> CHR ''/'');
       let s1 = inode_ref_inc n s;
       sin_of n s1;
       if di_type (din_at n s1) \<noteq> SFS_TYPE_DIR then do { s2 \<leftarrow> ref_dec W n s1; Some (- E_NOTDIR, None, s2) }
       else do {
         (ret, sub, _, s2) \<leftarrow> sfs_lookup_once f n path s1;
         s3 \<leftarrow> ref_dec W n s2;
         Some (ret, if ret \<noteq> 0 then None else sub, s3)
       }
     }"

definition sfs_node_dirops :: "sdevs world \<Rightarrow> kfs inode_ops" where
  "sfs_node_dirops W =
     \<lparr>vop_magic = VOP_MAGIC, o_open = Some sfs_opendir, o_close = Some (sfs_close W), o_read = None, o_write = None,
      o_fstat = Some (sfs_fstat W), o_fsync = Some sfs_fsync, o_namefile = Some (sfs_namefile W),
      o_getdirentry = Some sfs_getdirentry, o_reclaim = Some (sfs_reclaim W), o_gettype = Some sfs_gettype,
      o_tryseek = None, o_truncate = None, o_create = None, o_lookup = Some (sfs_lookup W)\<rparr>"

definition sfs_node_fileops :: "sdevs world \<Rightarrow> kfs inode_ops" where
  "sfs_node_fileops W =
     \<lparr>vop_magic = VOP_MAGIC, o_open = Some sfs_openfile, o_close = Some (sfs_close W), o_read = Some sfs_read,
      o_write = Some sfs_write, o_fstat = Some (sfs_fstat W), o_fsync = Some sfs_fsync, o_namefile = None,
      o_getdirentry = None, o_reclaim = Some (sfs_reclaim W), o_gettype = Some sfs_gettype,
      o_tryseek = Some (sfs_tryseek W), o_truncate = Some sfs_truncfile, o_create = None, o_lookup = None\<rparr>"

section \<open>sfs\_fs.c\<close>

fun sync_inodes :: "sdevs world \<Rightarrow> nat list \<Rightarrow> kfs \<Rightarrow> kfs option" where
  "sync_inodes W [] s = Some s"
| "sync_inodes W (n # ns) s = do { (_, s1) \<leftarrow> vop_fsync W n s; sync_inodes W ns s1 }"

definition sfs_sync :: "sdevs world \<Rightarrow> nat \<Rightarrow> kfs \<Rightarrow> (int \<times> kfs) option" where
  "sfs_sync W f s =
     do {
       s1 \<leftarrow> lock_sfs_fs f s;
       s2 \<leftarrow> sync_inodes W (inode_list (sfs_at f s1)) s1;
       let s3 = unlock_sfs_fs f s2;
       if super_dirty (sfs_at f s3)
       then do {
         (ret, s4) \<leftarrow> sfs_sync_super f (upd_sfs f (\<lambda>x. x\<lparr>super_dirty := False\<rparr>) s3);
         if ret \<noteq> 0 then Some (ret, upd_sfs f (\<lambda>x. x\<lparr>super_dirty := True\<rparr>) s4)
         else do {
           (ret2, s5) \<leftarrow> sfs_sync_freemap f s4;
           if ret2 \<noteq> 0 then Some (ret2, upd_sfs f (\<lambda>x. x\<lparr>super_dirty := True\<rparr>) s5) else Some (0, s5)
         }
       }
       else Some (0, s3)
     }"

definition sfs_get_root :: "nat \<Rightarrow> kfs \<Rightarrow> (nat option \<times> kfs) option" where
  "sfs_get_root f s = do { (ret, node, s1) \<leftarrow> sfs_load_inode f SFS_BLKN_ROOT s; assertc (ret = 0); Some (node, s1) }"

definition sfs_unmount :: "nat \<Rightarrow> kfs \<Rightarrow> (int \<times> kfs) option" where
  "sfs_unmount f s =
     (if inode_list (sfs_at f s) \<noteq> [] then Some (- E_BUSY, s)
      else do { assertc (\<not> super_dirty (sfs_at f s)); Some (0, upd_devs (\<lambda>d. d\<lparr>fs_pool := f # fs_pool d\<rparr>) s) })"

fun cleanup_loop :: "sdevs world \<Rightarrow> nat \<Rightarrow> nat \<Rightarrow> kfs \<Rightarrow> kfs option" where
  "cleanup_loop W f 0 s = Some s"
| "cleanup_loop W f (Suc n) s = do { (ret, s1) \<leftarrow> sfs_sync W f s; if ret = 0 then Some s1 else cleanup_loop W f n s1 }"

definition sfs_cleanup :: "sdevs world \<Rightarrow> nat \<Rightarrow> kfs \<Rightarrow> kfs option" where "sfs_cleanup W f s = cleanup_loop W f 32 s"

text \<open>The result is the return value, the buffer and the state.\<close>

definition sfs_init_read :: "nat \<Rightarrow> nat \<Rightarrow> 8 word list \<Rightarrow> kfs \<Rightarrow> (int \<times> 8 word list \<times> kfs) option" where
  "sfs_init_read dev blkno buf s =
     do {
       (ret, iob, s1) \<leftarrow> dop_io dev (iobuf_init buf SFS_BLKSIZE (of_nat (u32 (blkno * SFS_BLKSIZE)))) False s;
       Some (ret, io_mem iob, s1)
     }"

fun init_freemap_loop :: "nat \<Rightarrow> 8 word list \<Rightarrow> nat \<Rightarrow> nat \<Rightarrow> nat \<Rightarrow> kfs \<Rightarrow> (int \<times> 8 word list \<times> kfs) option" where
  "init_freemap_loop dev data pos blkno 0 s = Some (0, data, s)"
| "init_freemap_loop dev data pos blkno (Suc n) s =
     do {
       (ret, b, s1) \<leftarrow> sfs_init_read dev blkno (take SFS_BLKSIZE (drop pos data)) s;
       if ret \<noteq> 0 then Some (ret, splice pos b data, s1)
       else init_freemap_loop dev (splice pos b data) (pos + SFS_BLKSIZE) (u32 (blkno + 1)) n s1
     }"

definition sfs_init_freemap :: "nat \<Rightarrow> bitmap \<Rightarrow> nat \<Rightarrow> nat \<Rightarrow> kfs \<Rightarrow> (int \<times> bitmap \<times> kfs) option" where
  "sfs_init_freemap dev bm blkno nblks s =
     do {
       let (data, len) = bitmap_getdata bm;
       assertc (len = nblks * SFS_BLKSIZE);
       (ret, data1, s1) \<leftarrow> init_freemap_loop dev data 0 blkno nblks s;
       Some (ret, bm\<lparr>words := map bytes_word (chunks (nwords bm) 4 data1)\<rparr>, s1)
     }"

fun count_unused :: "bitmap \<Rightarrow> nat \<Rightarrow> nat \<Rightarrow> nat \<Rightarrow> nat option" where
  "count_unused bm i 0 c = Some c"
| "count_unused bm i (Suc n) c = do { b \<leftarrow> bitmap_test bm i; count_unused bm (i + 1) n (if b then c + 1 else c) }"

text \<open>\<^verbatim>\<open>__alloc_fs\<close> of \<^verbatim>\<open>vfs.c\<close>\<close>

definition alloc_fs :: "kfs \<Rightarrow> nat option \<times> kfs" where
  "alloc_fs s = (case fs_pool (devs s) of [] \<Rightarrow> (None, s) | f # fs \<Rightarrow> (Some f, upd_devs (\<lambda>d. d\<lparr>fs_pool := fs\<rparr>) s))"

text \<open>The tests of the superblock; the result is the superblock with its information string ended.\<close>

definition check_super :: "8 word list \<Rightarrow> nat \<Rightarrow> sfs_super option" where
  "check_super buf dblocks =
     (let sb = super_of buf
      in if sb_magic sb \<noteq> SFS_MAGIC then None
         else if sb_blocks sb > dblocks then None
         else Some (sb\<lparr>sb_info := (sb_info sb)[SFS_MAX_INFO_LEN := 0]\<rparr>))"

definition sfs_do_mount :: "nat \<Rightarrow> kfs \<Rightarrow> (int \<times> nat option \<times> kfs) option" where
  "sfs_do_mount dev s =
     (if d_blocksize (device_at (devs s) dev) \<noteq> SFS_BLKSIZE then Some (- E_NA_DEV, None, s)
      else (case alloc_fs s of
        (None, s1) \<Rightarrow> Some (- E_NO_MEM, None, s1)
      | (Some f, s1) \<Rightarrow>
          (let fail = (\<lambda>ret s. Some (ret, None, upd_devs (\<lambda>d. d\<lparr>fs_pool := f # fs_pool d\<rparr>) s)); (ok1, s2) = kmalloc_ok s1
           in if \<not> ok1 then fail (- E_NO_MEM) s2
              else do {
                (ret, buf, s3) \<leftarrow> sfs_init_read dev SFS_BLKN_SUPER (replicate SFS_BLKSIZE 0) s2;
                if ret \<noteq> 0 then fail ret s3
                else (case check_super buf (d_blocks (device_at (devs s3) dev)) of
                  None \<Rightarrow> fail (- E_INVAL) s3
                | Some sb \<Rightarrow>
                    (let (ok2, s4) = kmalloc_ok s3
                     in if \<not> ok2 then fail (- E_NO_MEM) s4
                        else do {
                          (bmo, s5) \<leftarrow> bitmap_create (sfs_freemap_bits sb) s4;
                          (case bmo of
                             None \<Rightarrow> fail (- E_NO_MEM) s5
                           | Some bm \<Rightarrow>
                               do {
                                 (ret2, fm, s6) \<leftarrow> sfs_init_freemap dev bm SFS_BLKN_FREEMAP (sfs_freemap_blocks sb) s5;
                                 if ret2 \<noteq> 0 then fail ret2 s6
                                 else do {
                                   unused \<leftarrow> count_unused fm 0 (sfs_freemap_bits sb) 0;
                                   assertc (unused = unused_blocks sb);
                                   Some (0, Some f, upd_sfs f (\<lambda>x.
                                     \<lparr>super = sb, sfs_dev = dev, freemap = fm, super_dirty = False, sfs_buffer = buf[12 + SFS_MAX_INFO_LEN := 0],
                                      fs_sem = 1, io_sem = 1, mutex_sem = 1, inode_list = [], hash_list = (\<lambda>_. [])\<rparr>) s6)
                                 }
                               })
                        }))
              })))"

definition sfs_mount :: "string \<Rightarrow> kfs \<Rightarrow> (int \<times> kfs) option" where "sfs_mount name s = vfs_mount name sfs_do_mount s"

definition sfs_init :: "kfs \<Rightarrow> kfs option" where
  "sfs_init s = do { (ret, s1) \<leftarrow> sfs_mount ''disk0'' s; assertc (ret = 0); Some s1 }"

definition fs_init :: "kfs \<Rightarrow> kfs option" where
  "fs_init s = do { s1 \<leftarrow> dev_init (vfs_init s); sfs_init s1 }"

section \<open>The tables of the kernel\<close>

definition sfs_fs_ops :: "sdevs world \<Rightarrow> nat \<Rightarrow> kfs fs_ops" where
  "sfs_fs_ops W f = \<lparr>fs_sync = sfs_sync W f, fs_get_root = sfs_get_root f, fs_unmount = sfs_unmount f, fs_cleanup = sfs_cleanup W f\<rparr>"

definition no_ops :: "kfs inode_ops" where
  "no_ops = \<lparr>vop_magic = 0, o_open = None, o_close = None, o_read = None, o_write = None, o_fstat = None, o_fsync = None,
     o_namefile = None, o_getdirentry = None, o_reclaim = None, o_gettype = None, o_tryseek = None, o_truncate = None,
     o_create = None, o_lookup = None\<rparr>"

text \<open>
  The functions in the tables call other functions through the tables.  \<open>op_tables W\<close> are the tables whose
  functions call through \<open>W\<close>; no chain of such calls is longer than three, so that four rounds, from tables
  without functions, give tables that call through themselves (\<open>kernel_tables_closed\<close>).
\<close>

definition op_tables :: "sdevs world \<Rightarrow> sdevs world" where
  "op_tables W =
     \<lparr>iops = (\<lambda>t. if t = DEV_NODE_OPS then dev_node_ops W else if t = SFS_NODE_DIROPS then sfs_node_dirops W
                else if t = SFS_NODE_FILEOPS then sfs_node_fileops W else no_ops),
      fsops = sfs_fs_ops W\<rparr>"

definition no_world :: "sdevs world" where
  "no_world = \<lparr>iops = (\<lambda>_. no_ops), fsops = (\<lambda>_. \<lparr>fs_sync = (\<lambda>_. None), fs_get_root = (\<lambda>_. None), fs_unmount = (\<lambda>_. None), fs_cleanup = (\<lambda>_. None)\<rparr>)\<rparr>"

definition kernel_tables :: "sdevs world" where "kernel_tables = op_tables (op_tables (op_tables (op_tables no_world)))"

lemma leaf_calls:
  "vop_gettype (op_tables W) = vop_gettype (op_tables V)" "vop_fsync (op_tables W) = vop_fsync (op_tables V)"
  "vop_truncate (op_tables W) = vop_truncate (op_tables V)"
proof -
  have magic: "vop_magic (iops (op_tables W) t) = vop_magic (iops (op_tables V) t)" for t
    by (simp add: op_tables_def dev_node_ops_def sfs_node_dirops_def sfs_node_fileops_def)
  then have chk: "inode_check (op_tables W) = inode_check (op_tables V)"
    by (intro ext) (simp add: inode_check_def)
  have ops: "o_gettype (iops (op_tables W) t) = o_gettype (iops (op_tables V) t)" "o_fsync (iops (op_tables W) t) = o_fsync (iops (op_tables V) t)"
    "o_truncate (iops (op_tables W) t) = o_truncate (iops (op_tables V) t)" for t
    by (simp_all add: op_tables_def dev_node_ops_def sfs_node_dirops_def sfs_node_fileops_def)
  show "vop_gettype (op_tables W) = vop_gettype (op_tables V)" "vop_fsync (op_tables W) = vop_fsync (op_tables V)"
    "vop_truncate (op_tables W) = vop_truncate (op_tables V)"
    by (intro ext, simp add: vop_gettype_def vop_fsync_def vop_truncate_def vop_op_def ops chk)+
qed

lemma level2_calls:
  shows close_level2: "sfs_close (op_tables W) = sfs_close (op_tables V)"
    and fstat_level2: "sfs_fstat (op_tables W) = sfs_fstat (op_tables V)"
    and reclaim_level2: "sfs_reclaim (op_tables W) = sfs_reclaim (op_tables V)"
    and tryseek_level2: "sfs_tryseek (op_tables W) = sfs_tryseek (op_tables V)"
    and dev_fstat_level2: "dev_fstat (op_tables W) = dev_fstat (op_tables V)"
proof -
  note leaf = leaf_calls [of W V]
  show "sfs_close (op_tables W) = sfs_close (op_tables V)" by (intro ext) (unfold sfs_close_def leaf, rule refl)
  show "sfs_fstat (op_tables W) = sfs_fstat (op_tables V)" by (intro ext) (unfold sfs_fstat_def leaf, rule refl)
  show "sfs_reclaim (op_tables W) = sfs_reclaim (op_tables V)" by (intro ext) (unfold sfs_reclaim_def leaf, rule refl)
  show "sfs_tryseek (op_tables W) = sfs_tryseek (op_tables V)" by (intro ext) (unfold sfs_tryseek_def leaf, rule refl)
  show "dev_fstat (op_tables W) = dev_fstat (op_tables V)" by (intro ext) (unfold dev_fstat_def leaf, rule refl)
qed

lemma sync_level2: "sync_inodes (op_tables W) ns = sync_inodes (op_tables V) ns"
proof (induction ns)
  case (Cons n ns)
  show ?case by (intro ext) (unfold sync_inodes.simps leaf_calls [of W V] Cons, rule refl)
qed (simp add: fun_eq_iff)

lemma fs_level2: "sfs_sync (op_tables W) = sfs_sync (op_tables V)" "sfs_cleanup (op_tables W) = sfs_cleanup (op_tables V)"
proof -
  show sy: "sfs_sync (op_tables W) = sfs_sync (op_tables V)" by (intro ext) (unfold sfs_sync_def sync_level2 [of W _ V], rule refl)
  have "cleanup_loop (op_tables W) f k = cleanup_loop (op_tables V) f k" for f k
  proof (induction k)
    case (Suc k)
    show ?case by (intro ext) (unfold cleanup_loop.simps sy Suc, rule refl)
  qed (simp add: fun_eq_iff)
  then show "sfs_cleanup (op_tables W) = sfs_cleanup (op_tables V)" by (intro ext) (simp add: sfs_cleanup_def)
qed

lemma reclaim_level3: "vop_reclaim (op_tables (op_tables W)) = vop_reclaim (op_tables (op_tables V))"
proof -
  have magic: "vop_magic (iops (op_tables (op_tables W)) t) = vop_magic (iops (op_tables (op_tables V)) t)" for t
    by (simp add: op_tables_def dev_node_ops_def sfs_node_dirops_def sfs_node_fileops_def)
  then have chk: "inode_check (op_tables (op_tables W)) = inode_check (op_tables (op_tables V))"
    by (intro ext) (simp add: inode_check_def)
  have "o_reclaim (iops (op_tables (op_tables W)) t) = o_reclaim (iops (op_tables (op_tables V)) t)" for t
    unfolding op_tables_def [of "op_tables W"] op_tables_def [of "op_tables V"]
    by (simp add: dev_node_ops_def sfs_node_dirops_def sfs_node_fileops_def level2_calls [of W V])
  then show ?thesis by (intro ext) (simp add: vop_reclaim_def vop_op_def chk)
qed

lemma tables_level3: "op_tables (op_tables (op_tables W)) = op_tables (op_tables (op_tables V))"
proof -
  have dec: "ref_dec (op_tables (op_tables W)) = ref_dec (op_tables (op_tables V))"
    by (intro ext) (unfold ref_dec_def inode_ref_dec_def reclaim_level3 [of W V], rule refl)
  have "sfs_namefile (op_tables (op_tables W)) = sfs_namefile (op_tables (op_tables V))"
    by (intro ext) (unfold sfs_namefile_def dec, rule refl)
  moreover have "sfs_lookup (op_tables (op_tables W)) = sfs_lookup (op_tables (op_tables V))"
    by (intro ext) (unfold sfs_lookup_def dec, rule refl)
  ultimately have "sfs_node_dirops (op_tables (op_tables W)) = sfs_node_dirops (op_tables (op_tables V))"
    "sfs_node_fileops (op_tables (op_tables W)) = sfs_node_fileops (op_tables (op_tables V))"
    "dev_node_ops (op_tables (op_tables W)) = dev_node_ops (op_tables (op_tables V))"
    "sfs_fs_ops (op_tables (op_tables W)) = sfs_fs_ops (op_tables (op_tables V))"
    by (simp_all add: fun_eq_iff sfs_node_dirops_def sfs_node_fileops_def dev_node_ops_def sfs_fs_ops_def
        level2_calls [of "op_tables W" "op_tables V"] fs_level2 [of "op_tables W" "op_tables V"])
  then show ?thesis unfolding op_tables_def [of "op_tables (op_tables W)"] op_tables_def [of "op_tables (op_tables V)"] by (simp cong: if_cong)
qed

lemma kernel_tables_closed: "op_tables kernel_tables = kernel_tables"
  unfolding kernel_tables_def by (rule tables_level3)

end
