(* ===== verification/SfsIO.thy ===== *)
theory SfsIO
  imports Sfs
begin

text \<open>
  Facts about the block input and output of the simple file system.  A function that only moves data between
  the disk and its buffers changes the blocks of the disk and nothing else: \<open>disk_step f B s s'\<close> says that the
  blocks are \<open>B\<close> afterwards and that the rest of the state, apart from the two buffers, is as before.
\<close>

section \<open>The state without disk contents and buffers\<close>

definition core :: "nat \<Rightarrow> kfs \<Rightarrow> kfs" where
  "core f s = upd_sfs f (\<lambda>x. x\<lparr>sfs_buffer := []\<rparr>)
     (upd_devs (\<lambda>d. d\<lparr>disk0_buffer := [],
        ide_devices := (ide_devices d)(DISK0_DEV_NO := (ide_devices d DISK0_DEV_NO)\<lparr>ide_data := (\<lambda>_. 0)\<rparr>)\<rparr>) s)"

abbreviation blocks :: "kfs \<Rightarrow> nat \<Rightarrow> 8 word list" where "blocks s \<equiv> dblock (devs s)"

definition bufs_ok :: "nat \<Rightarrow> kfs \<Rightarrow> bool" where
  "bufs_ok f s \<longleftrightarrow> length (disk0_buffer (devs s)) = DISK0_BUFSIZE \<and> length (sfs_buffer (sfs_at f s)) = SFS_BLKSIZE"

definition disk_step :: "nat \<Rightarrow> (nat \<Rightarrow> 8 word list) \<Rightarrow> kfs \<Rightarrow> kfs \<Rightarrow> bool" where
  "disk_step f B s s' \<longleftrightarrow> core f s' = core f s \<and> bufs_ok f s' \<and> blocks s' = B"

text \<open>The file system is mounted on a disk that is there and holds it, and its buffer is not locked.\<close>

definition io_ready :: "nat \<Rightarrow> kfs \<Rightarrow> bool" where
  "io_ready f s \<longleftrightarrow> disk_ready (sfs_dev (sfs_at f s)) s \<and>
     sb_blocks (super (sfs_at f s)) \<le> d_blocks (device_at (devs s) (sfs_dev (sfs_at f s))) \<and> bufs_ok f s"

definition fs_ready :: "nat \<Rightarrow> kfs \<Rightarrow> bool" where "fs_ready f s \<longleftrightarrow> io_ready f s \<and> 0 < io_sem (sfs_at f s)"

lemma sfs_fs_update_order [simp]: "sfs_buffer_update g (io_sem_update h x) = io_sem_update h (sfs_buffer_update g x)"
  by (cases x) simp

lemma block_updates [simp]:
  "dblock (sfss_update g d) = dblock d" "dblock (sins_update h d) = dblock d" "dblock (fs_pool_update i d) = dblock d"
  "dblock (disk0_buffer_update j d) = dblock d" "dblock (disk0_sem_update k d) = dblock d"
  for d :: sdevs
  by (intro ext, simp add: dblock_def disk_bytes_def)+

lemma core_simps [simp]:
  "sins (devs (core f s)) = sins (devs s)" "super (sfs_at f (core f s)) = super (sfs_at f s)"
  "freemap (sfs_at f (core f s)) = freemap (sfs_at f s)" "super_dirty (sfs_at f (core f s)) = super_dirty (sfs_at f s)"
  "sfs_dev (sfs_at f (core f s)) = sfs_dev (sfs_at f s)" "io_sem (sfs_at f (core f s)) = io_sem (sfs_at f s)"
  "fs_sem (sfs_at f (core f s)) = fs_sem (sfs_at f s)"
  "inode_list (sfs_at f (core f s)) = inode_list (sfs_at f s)" "hash_list (sfs_at f (core f s)) = hash_list (sfs_at f s)"
  "device_at (devs (core f s)) = device_at (devs s)" "disk0_sem (devs (core f s)) = disk0_sem (devs s)"
  "ide_valid (ide_devices (devs (core f s)) k) = ide_valid (ide_devices (devs s) k)"
  "ide_size (ide_devices (devs (core f s)) k) = ide_size (ide_devices (devs s) k)"
  "inodes (core f s) = inodes s" "kmem (core f s) = kmem s" "inode_pool (core f s) = inode_pool s"
  by (simp_all add: core_def upd_sfs_def upd_devs_def)

lemma core_eqD:
  assumes "core f s' = core f s"
  shows "sins (devs s') = sins (devs s)" "super (sfs_at f s') = super (sfs_at f s)"
    "freemap (sfs_at f s') = freemap (sfs_at f s)" "super_dirty (sfs_at f s') = super_dirty (sfs_at f s)"
    "sfs_dev (sfs_at f s') = sfs_dev (sfs_at f s)" "io_sem (sfs_at f s') = io_sem (sfs_at f s)"
    "fs_sem (sfs_at f s') = fs_sem (sfs_at f s)"
    "inode_list (sfs_at f s') = inode_list (sfs_at f s)" "hash_list (sfs_at f s') = hash_list (sfs_at f s)"
    "device_at (devs s') = device_at (devs s)" "disk0_sem (devs s') = disk0_sem (devs s)"
    "ide_valid (ide_devices (devs s') k) = ide_valid (ide_devices (devs s) k)"
    "ide_size (ide_devices (devs s') k) = ide_size (ide_devices (devs s) k)"
    "inodes s' = inodes s" "kmem s' = kmem s" "inode_pool s' = inode_pool s"
  using assms core_simps [of f s] core_simps [of f s'] by simp_all

lemma core_io_ready:
  assumes "core f s' = core f s" "bufs_ok f s'" "io_ready f s"
  shows "io_ready f s'"
  using assms(2,3) by (simp add: io_ready_def disk_ready_def ide_device_valid_def bufs_ok_def core_eqD [OF assms(1)])

lemma disk_step_ready: "disk_step f B s s' \<Longrightarrow> fs_ready f s \<Longrightarrow> fs_ready f s'"
  using core_io_ready [of f s' s] core_eqD(6) [of f s' s] by (simp add: disk_step_def fs_ready_def)

lemma disk_step_io_ready: "disk_step f B s s' \<Longrightarrow> io_ready f s \<Longrightarrow> io_ready f s'"
  using core_io_ready [of f s' s] by (simp add: disk_step_def)

lemma disk_step_trans: "disk_step f B s s1 \<Longrightarrow> disk_step f B' s1 s2 \<Longrightarrow> disk_step f B' s s2"
  by (simp add: disk_step_def)

lemma disk_stepD:
  assumes "disk_step f B s s'"
  shows "sins (devs s') = sins (devs s)" "super (sfs_at f s') = super (sfs_at f s)"
    "freemap (sfs_at f s') = freemap (sfs_at f s)" "inodes s' = inodes s" "blocks s' = B"
    "io_sem (sfs_at f s') = io_sem (sfs_at f s)"
  using assms core_eqD [of f s' s] by (simp_all add: disk_step_def)

lemma core_upd_sin: "core f (upd_sin n g s) = upd_sin n g (core f s)"
  by (simp add: core_def upd_sfs_def upd_sin_def upd_devs_def)

lemma core_lock: "core f (unlock_sfs_io f s) = unlock_sfs_io f (core f s)"
  by (simp add: core_def unlock_sfs_io_def upd_sfs_def upd_devs_def)

text \<open>Taking the lock, a step, and giving the lock back.\<close>

definition io_locked :: "nat \<Rightarrow> kfs \<Rightarrow> kfs" where "io_locked f = upd_sfs f (\<lambda>x. x\<lparr>io_sem := io_sem x - 1\<rparr>)"

lemma lock_sfs_io_ready: "fs_ready f s \<Longrightarrow> lock_sfs_io f s = Some (io_locked f s)"
  by (simp add: lock_sfs_io_def fs_ready_def io_locked_def)

lemma unlock_core: "core f (unlock_sfs_io f (io_locked f s)) = core f s"
  by (simp add: core_def unlock_sfs_io_def io_locked_def upd_sfs_def upd_devs_def)

lemma io_locked_simps:
  "blocks (io_locked f s) = blocks s" "io_ready f (io_locked f s) = io_ready f s" "sfs_buffer (sfs_at f (io_locked f s)) = sfs_buffer (sfs_at f s)"
  "super (sfs_at f (io_locked f s)) = super (sfs_at f s)"
  by (simp_all add: io_locked_def upd_sfs_def upd_devs_def io_ready_def disk_ready_def ide_device_valid_def bufs_ok_def dblock_def disk_bytes_def)

lemma disk_step_locked:
  assumes "disk_step f B (io_locked f s) s'"
  shows "disk_step f B s (unlock_sfs_io f s')"
proof -
  have "core f (unlock_sfs_io f s') = unlock_sfs_io f (core f s')" by (rule core_lock)
  also have "core f s' = core f (io_locked f s)" using assms by (simp add: disk_step_def)
  finally have "core f (unlock_sfs_io f s') = core f s" using unlock_core [of f s] core_lock [of f "io_locked f s"] by simp
  then show ?thesis using assms
    by (simp add: disk_step_def bufs_ok_def unlock_sfs_io_def upd_sfs_def upd_devs_def dblock_def disk_bytes_def)
qed

section \<open>One block\<close>

lemma sfs_sizes: "SFS_BLKSIZE = 4096" "DISK0_BLKSIZE = 4096" "DISK0_BUFSIZE = 16384"
  by (simp_all add: SFS_BLKSIZE_def DISK0_BLKSIZE_def DISK0_BUFSIZE_def)

lemma rwblock_facts:
  assumes ready: "io_ready f s" and k: "k < sb_blocks (super (sfs_at f s))" "k \<noteq> 0 \<or> \<not> chk" and len: "length buf = 4096"
  shows "\<exists>b. length b = 16384 \<and> sfs_rwblock_nolock f buf k False chk s = Some (0, blocks s k, upd_devs (\<lambda>d. d\<lparr>disk0_buffer := b\<rparr>) s)"
    and "\<exists>b. length b = 16384 \<and> sfs_rwblock_nolock f buf k True chk s = Some (0, buf, upd_devs (\<lambda>d. put_block k buf (d\<lparr>disk0_buffer := b\<rparr>)) s)"
proof -
  let ?dev = "sfs_dev (sfs_at f s)"
  have d: "disk_ready ?dev s" "k < d_blocks (device_at (devs s) ?dev)" using ready k(1) by (simp_all add: io_ready_def)
  have "k * 4096 < 2 ^ 32" using disk_readyD(5) [OF d] by simp
  then have off: "u32 (k * 4096) = k * 4096" by (rule u32_small)
  show "\<exists>b. length b = 16384 \<and> sfs_rwblock_nolock f buf k False chk s = Some (0, blocks s k, upd_devs (\<lambda>d. d\<lparr>disk0_buffer := b\<rparr>) s)"
    using dop_io_block_read [OF d, of buf] k len
    unfolding sfs_rwblock_nolock_def sfs_sizes off by (auto simp del: of_nat_mult simp: used_iobuf_def)
  show "\<exists>b. length b = 16384 \<and> sfs_rwblock_nolock f buf k True chk s = Some (0, buf, upd_devs (\<lambda>d. put_block k buf (d\<lparr>disk0_buffer := b\<rparr>)) s)"
    using dop_io_block_write [OF d, of buf] k len
    unfolding sfs_rwblock_nolock_def sfs_sizes off by (auto simp del: of_nat_mult simp: used_iobuf_def)
qed

lemma step_states:
  assumes "bufs_ok f s" "length b = 16384"
  shows "disk_step f (blocks s) s (upd_devs (\<lambda>d. d\<lparr>disk0_buffer := b\<rparr>) s)"
    and "length buf = 4096 \<Longrightarrow> disk_step f ((blocks s)(k := buf)) s (upd_devs (\<lambda>d. put_block k buf (d\<lparr>disk0_buffer := b\<rparr>)) s)"
  using assms
  by (simp_all add: disk_step_def core_def bufs_ok_def upd_sfs_def upd_devs_def fun_eq_iff block_put_block sfs_sizes)
    (simp_all add: dblock_def disk_bytes_def put_block_def)

lemma disk_step_buffer:
  "disk_step f B s s1 \<Longrightarrow> length (c (sfs_at f s1)) = 4096 \<Longrightarrow> disk_step f B s (upd_sfs f (\<lambda>x. x\<lparr>sfs_buffer := c x\<rparr>) s1)"
  by (simp add: disk_step_def core_def bufs_ok_def upd_sfs_def upd_devs_def sfs_sizes)

lemma disk_step_refl: "bufs_ok f s \<Longrightarrow> disk_step f (blocks s) s s"
  by (simp add: disk_step_def)

lemma io_readyD: "io_ready f s \<Longrightarrow> bufs_ok f s" "io_ready f s \<Longrightarrow> length (sfs_buffer (sfs_at f s)) = 4096"
  by (simp_all add: io_ready_def bufs_ok_def sfs_sizes)

lemma buffer_io_read:
  assumes ready: "io_ready f s" and k: "k < sb_blocks (super (sfs_at f s))" "k \<noteq> 0 \<or> \<not> chk"
  shows "\<exists>s'. buffer_io f k False chk s = Some (0, s') \<and> disk_step f (blocks s) s s' \<and> sfs_buffer (sfs_at f s') = blocks s k"
proof -
  obtain b where b: "length b = 16384"
    "sfs_rwblock_nolock f (sfs_buffer (sfs_at f s)) k False chk s = Some (0, blocks s k, upd_devs (\<lambda>d. d\<lparr>disk0_buffer := b\<rparr>) s)"
    using rwblock_facts(1) [OF ready k io_readyD(2) [OF ready]] by blast
  let ?s1 = "upd_devs (\<lambda>d. d\<lparr>disk0_buffer := b\<rparr>) s"
  have "disk_step f (blocks s) s (upd_sfs f (\<lambda>x. x\<lparr>sfs_buffer := blocks s k\<rparr>) ?s1)"
    using step_states(1) [OF io_readyD(1) [OF ready] b(1)] by (rule disk_step_buffer) (simp add: sfs_sizes)
  moreover have "sfs_buffer (sfs_at f (upd_sfs f (\<lambda>x. x\<lparr>sfs_buffer := blocks s k\<rparr>) ?s1)) = blocks s k"
    by (simp add: upd_sfs_def upd_devs_def)
  ultimately show ?thesis by (simp add: buffer_io_def b(2))
qed

lemma buffer_io_write:
  assumes ready: "io_ready f s" and k: "k < sb_blocks (super (sfs_at f s))" "k \<noteq> 0 \<or> \<not> chk"
  shows "\<exists>s'. buffer_io f k True chk s = Some (0, s') \<and> disk_step f ((blocks s)(k := sfs_buffer (sfs_at f s))) s s' \<and>
    sfs_buffer (sfs_at f s') = sfs_buffer (sfs_at f s)"
proof -
  let ?c = "sfs_buffer (sfs_at f s)"
  note len = io_readyD(2) [OF ready]
  obtain b where b: "length b = 16384"
    "sfs_rwblock_nolock f ?c k True chk s = Some (0, ?c, upd_devs (\<lambda>d. put_block k ?c (d\<lparr>disk0_buffer := b\<rparr>)) s)"
    using rwblock_facts(2) [OF ready k len] by blast
  let ?s1 = "upd_devs (\<lambda>d. put_block k ?c (d\<lparr>disk0_buffer := b\<rparr>)) s"
  have "disk_step f ((blocks s)(k := ?c)) s (upd_sfs f (\<lambda>x. x\<lparr>sfs_buffer := ?c\<rparr>) ?s1)"
    using step_states(2) [OF io_readyD(1) [OF ready] b(1) len] by (rule disk_step_buffer) (rule len)
  moreover have "sfs_buffer (sfs_at f (upd_sfs f (\<lambda>x. x\<lparr>sfs_buffer := ?c\<rparr>) ?s1)) = ?c"
    by (simp add: upd_sfs_def upd_devs_def)
  ultimately show ?thesis by (simp add: buffer_io_def b(2))
qed

lemma sfs_rbuf_facts:
  assumes ready: "fs_ready f s" and k: "0 < k" "k < sb_blocks (super (sfs_at f s))" and off: "off < 4096" "off + len \<le> 4096"
  shows "\<exists>s'. sfs_rbuf f len k off s = Some (0, take len (drop off (blocks s k)), s') \<and> disk_step f (blocks s) s s'"
proof -
  let ?s1 = "io_locked f s"
  have r1: "io_ready f ?s1" using ready by (simp add: io_locked_simps fs_ready_def)
  have k1: "k < sb_blocks (super (sfs_at f ?s1))" "k \<noteq> 0 \<or> \<not> True" using k by (simp_all add: io_locked_simps)
  obtain s2 where s2: "buffer_io f k False True ?s1 = Some (0, s2)" "disk_step f (blocks s) ?s1 s2" "sfs_buffer (sfs_at f s2) = blocks s k"
    using buffer_io_read [OF r1 k1] by (auto simp: io_locked_simps)
  have "sfs_rbuf f len k off s = Some (0, take len (drop off (blocks s k)), unlock_sfs_io f s2)"
    using off by (simp add: sfs_rbuf_def lock_sfs_io_ready [OF ready] s2(1,3) sfs_sizes)
  then show ?thesis using disk_step_locked [OF s2(2)] by blast
qed

lemma sfs_wbuf_facts:
  assumes ready: "fs_ready f s" and k: "0 < k" "k < sb_blocks (super (sfs_at f s))" and off: "off < 4096" "off + length data \<le> 4096"
  shows "\<exists>s'. sfs_wbuf f data k off s = Some (0, s') \<and> disk_step f ((blocks s)(k := splice off data (blocks s k))) s s'"
proof -
  let ?s1 = "io_locked f s" and ?c = "splice off data (blocks s k)"
  have r1: "io_ready f ?s1" using ready by (simp add: io_locked_simps fs_ready_def)
  have k1: "k < sb_blocks (super (sfs_at f ?s1))" "k \<noteq> 0 \<or> \<not> True" using k by (simp_all add: io_locked_simps)
  obtain s2 where s2: "buffer_io f k False True ?s1 = Some (0, s2)" "disk_step f (blocks s) ?s1 s2" "sfs_buffer (sfs_at f s2) = blocks s k"
    using buffer_io_read [OF r1 k1] by (auto simp: io_locked_simps)
  let ?s3 = "upd_sfs f (\<lambda>x. x\<lparr>sfs_buffer := splice off data (sfs_buffer x)\<rparr>) s2"
  have c: "length ?c = 4096" using off by (simp add: splice_def sfs_sizes)
  have st3: "disk_step f (blocks s) ?s1 ?s3" using s2(2) by (rule disk_step_buffer) (simp only: s2(3) c)
  have r3: "io_ready f ?s3" using disk_step_io_ready [OF st3 r1] .
  have k3: "k < sb_blocks (super (sfs_at f ?s3))" using k1(1) disk_stepD(2) [OF st3] by simp
  have c3: "sfs_buffer (sfs_at f ?s3) = ?c" by (simp add: upd_sfs_def upd_devs_def s2(3))
  obtain s4 where s4: "buffer_io f k True True ?s3 = Some (0, s4)" "disk_step f ((blocks s)(k := ?c)) ?s3 s4"
    using buffer_io_write [OF r3 k3, of True] k(1) unfolding c3 disk_stepD(5) [OF st3] by auto
  have "sfs_wbuf f data k off s = Some (0, unlock_sfs_io f s4)"
    using off by (simp add: sfs_wbuf_def lock_sfs_io_ready [OF ready] s2(1) s4(1) sfs_sizes)
  then show ?thesis using disk_step_locked [OF disk_step_trans [OF st3 s4(2)]] by blast
qed

lemma rw_one:
  assumes "length buf = 4096"
  shows "rw_loop f buf 0 k (Suc 0) wr s = do {
    (ret, b, s1) \<leftarrow> sfs_rwblock_nolock f buf k wr True s; Some (ret, splice 0 b buf, s1) }"
  using assms by (cases "sfs_rwblock_nolock f buf k wr True s") (auto simp: sfs_sizes Let_def)

lemma sfs_rblock_facts:
  assumes ready: "fs_ready f s" and k: "0 < k" "k < sb_blocks (super (sfs_at f s))" and len: "length buf = 4096"
  shows "\<exists>s'. sfs_rblock f buf k 1 s = Some (0, blocks s k, s') \<and> disk_step f (blocks s) s s'"
proof -
  let ?s1 = "io_locked f s"
  have r1: "io_ready f ?s1" using ready by (simp add: io_locked_simps fs_ready_def)
  have k1: "k < sb_blocks (super (sfs_at f ?s1))" "k \<noteq> 0 \<or> \<not> True" using k by (simp_all add: io_locked_simps)
  obtain b where b: "length b = 16384"
    "sfs_rwblock_nolock f buf k False True ?s1 = Some (0, blocks s k, upd_devs (\<lambda>d. d\<lparr>disk0_buffer := b\<rparr>) ?s1)"
    using rwblock_facts(1) [OF r1 k1 len] by (auto simp: io_locked_simps)
  let ?s2 = "upd_devs (\<lambda>d. d\<lparr>disk0_buffer := b\<rparr>) ?s1"
  have "splice 0 (blocks s k) buf = blocks s k" using len by (simp add: splice_def sfs_sizes)
  then have "sfs_rblock f buf k 1 s = Some (0, blocks s k, unlock_sfs_io f ?s2)"
    unfolding sfs_rblock_def sfs_rwblock_def lock_sfs_io_ready [OF ready] by (simp add: rw_one [OF len] b(2) del: rw_loop.simps)
  then show ?thesis using disk_step_locked [OF step_states(1) [OF io_readyD(1) [OF r1] b(1)]] by (auto simp: io_locked_simps)
qed

lemma sfs_wblock_facts:
  assumes ready: "fs_ready f s" and k: "0 < k" "k < sb_blocks (super (sfs_at f s))" and len: "length buf = 4096"
  shows "\<exists>s'. sfs_wblock f buf k 1 s = Some (0, s') \<and> disk_step f ((blocks s)(k := buf)) s s'"
proof -
  let ?s1 = "io_locked f s"
  have r1: "io_ready f ?s1" using ready by (simp add: io_locked_simps fs_ready_def)
  have k1: "k < sb_blocks (super (sfs_at f ?s1))" "k \<noteq> 0 \<or> \<not> True" using k by (simp_all add: io_locked_simps)
  obtain b where b: "length b = 16384"
    "sfs_rwblock_nolock f buf k True True ?s1 = Some (0, buf, upd_devs (\<lambda>d. put_block k buf (d\<lparr>disk0_buffer := b\<rparr>)) ?s1)"
    using rwblock_facts(2) [OF r1 k1 len] by blast
  let ?s2 = "upd_devs (\<lambda>d. put_block k buf (d\<lparr>disk0_buffer := b\<rparr>)) ?s1"
  have "sfs_wblock f buf k 1 s = Some (0, unlock_sfs_io f ?s2)"
    unfolding sfs_wblock_def sfs_rwblock_def lock_sfs_io_ready [OF ready] by (simp add: rw_one [OF len] b(2) del: rw_loop.simps)
  then show ?thesis using disk_step_locked [OF step_states(2) [OF io_readyD(1) [OF r1] b(1) len]] by (auto simp: io_locked_simps)
qed

lemma sfs_clear_block_facts:
  assumes ready: "fs_ready f s" and k: "0 < k" "k < sb_blocks (super (sfs_at f s))"
  shows "\<exists>s'. sfs_clear_block f k 1 s = Some (0, s') \<and> disk_step f ((blocks s)(k := replicate 4096 0)) s s'"
proof -
  let ?s1 = "io_locked f s" and ?z = "replicate 4096 0 :: 8 word list"
  let ?s2 = "upd_sfs f (\<lambda>x. x\<lparr>sfs_buffer := replicate SFS_BLKSIZE 0\<rparr>) ?s1"
  have r1: "io_ready f ?s1" using ready by (simp add: io_locked_simps fs_ready_def)
  have st: "disk_step f (blocks s) ?s1 ?s2"
    using disk_step_refl [OF io_readyD(1) [OF r1]] unfolding io_locked_simps(1) by (rule disk_step_buffer) (simp add: sfs_sizes)
  have r2: "io_ready f ?s2" using disk_step_io_ready [OF st r1] .
  have k2: "k < sb_blocks (super (sfs_at f ?s2))" "k \<noteq> 0 \<or> \<not> True"
    using k disk_stepD(2) [OF st] by (simp_all add: io_locked_simps)
  have z: "sfs_buffer (sfs_at f ?s2) = ?z" by (simp add: upd_sfs_def upd_devs_def sfs_sizes)
  obtain s3 where s3: "buffer_io f k True True ?s2 = Some (0, s3)" "disk_step f ((blocks s)(k := ?z)) ?s2 s3"
    using buffer_io_write [OF r2 k2] unfolding z disk_stepD(5) [OF st] by auto
  have "sfs_clear_block f k 1 s = Some (0, unlock_sfs_io f s3)"
    unfolding sfs_clear_block_def lock_sfs_io_ready [OF ready] by (simp add: s3(1))
  then show ?thesis using disk_step_locked [OF disk_step_trans [OF st s3(2)]] by blast
qed

section \<open>The blocks of a file\<close>

definition fblk :: "nat \<Rightarrow> kfs \<Rightarrow> nat \<Rightarrow> nat" where
  "fblk n s i = (if i < SFS_NDIRECT then di_direct (din_at n s) ! i
     else le_field (4 * (i - SFS_NDIRECT)) 4 (blocks s (di_indirect (din_at n s))))"

definition fbyte :: "nat \<Rightarrow> kfs \<Rightarrow> nat \<Rightarrow> 8 word" where
  "fbyte n s i = blocks s (fblk n s (i div 4096)) ! (i mod 4096)"

definition content :: "nat \<Rightarrow> kfs \<Rightarrow> 8 word list" where
  "content n s = map (fbyte n s) [0..<di_size (din_at n s)]"

abbreviation free_blocks :: "nat \<Rightarrow> kfs \<Rightarrow> nat set" where "free_blocks f s \<equiv> free_bits (freemap (sfs_at f s))"

definition used :: "nat \<Rightarrow> kfs \<Rightarrow> nat \<Rightarrow> bool" where
  "used f s k \<longleftrightarrow> 0 < k \<and> k < sb_blocks (super (sfs_at f s)) \<and> k \<notin> free_blocks f s"

text \<open>The free blocks are those of the map, all on the disk, and the superblock has their number.\<close>

definition fs_ok :: "nat \<Rightarrow> kfs \<Rightarrow> bool" where
  "fs_ok f s \<longleftrightarrow> fs_ready f s \<and> bitmap_ok (freemap (sfs_at f s)) \<and> sb_blocks (super (sfs_at f s)) \<le> nbits (freemap (sfs_at f s)) \<and>
     free_blocks f s \<subseteq> {0<..<sb_blocks (super (sfs_at f s))} \<and> unused_blocks (super (sfs_at f s)) = card (free_blocks f s)"

definition MAX_BLOCKS :: nat where "MAX_BLOCKS = 1036"

text \<open>The blocks of the file are used and different, and nothing is entered after the last of them.\<close>

definition file_ok :: "nat \<Rightarrow> nat \<Rightarrow> kfs \<Rightarrow> bool" where
  "file_ok f n s \<longleftrightarrow> (let d = din_at n s in
     length (di_direct d) = SFS_NDIRECT \<and> di_blocks d \<le> MAX_BLOCKS \<and>
     (\<forall>i<di_blocks d. used f s (fblk n s i)) \<and> inj_on (fblk n s) {..<di_blocks d} \<and>
     (SFS_NDIRECT < di_blocks d \<longrightarrow> di_indirect d \<noteq> 0) \<and>
     (di_indirect d \<noteq> 0 \<longrightarrow> used f s (di_indirect d) \<and> di_indirect d \<notin> fblk n s ` {..<di_blocks d}) \<and>
     (\<forall>i. di_blocks d \<le> i \<and> i < MAX_BLOCKS \<and> (i < SFS_NDIRECT \<or> di_indirect d \<noteq> 0) \<longrightarrow> fblk n s i = 0))"

lemma file_okD:
  assumes "file_ok f n s"
  shows "length (di_direct (din_at n s)) = SFS_NDIRECT" "di_blocks (din_at n s) \<le> MAX_BLOCKS"
    "\<And>i. i < di_blocks (din_at n s) \<Longrightarrow> used f s (fblk n s i)" "inj_on (fblk n s) {..<di_blocks (din_at n s)}"
    "SFS_NDIRECT < di_blocks (din_at n s) \<Longrightarrow> di_indirect (din_at n s) \<noteq> 0"
    "di_indirect (din_at n s) \<noteq> 0 \<Longrightarrow> used f s (di_indirect (din_at n s))"
    "di_indirect (din_at n s) \<noteq> 0 \<Longrightarrow> di_indirect (din_at n s) \<notin> fblk n s ` {..<di_blocks (din_at n s)}"
    "\<And>i. di_blocks (din_at n s) \<le> i \<Longrightarrow> i < MAX_BLOCKS \<Longrightarrow> i < SFS_NDIRECT \<or> di_indirect (din_at n s) \<noteq> 0 \<Longrightarrow> fblk n s i = 0"
  using assms unfolding file_ok_def Let_def by blast+

lemma same_blocks:
  assumes "disk_step f (blocks s) s s'"
  shows "fblk n s' = fblk n s" "fbyte n s' = fbyte n s" "used f s' = used f s" "file_ok f n s' = file_ok f n s"
    "fs_ok f s \<Longrightarrow> fs_ok f s'"
proof -
  note d = disk_stepD [OF assms]
  show b: "fblk n s' = fblk n s" by (simp add: fun_eq_iff fblk_def d)
  show "fbyte n s' = fbyte n s" by (simp add: fun_eq_iff fbyte_def d b)
  show u: "used f s' = used f s" by (simp add: fun_eq_iff used_def d)
  show "file_ok f n s' = file_ok f n s" by (simp add: file_ok_def d b u)
  show "fs_ok f s'" if "fs_ok f s" using that disk_step_ready [OF assms] by (simp add: fs_ok_def d)
qed

lemma inuse_used:
  assumes "fs_ok f s" "used f s k"
  shows "sfs_block_inuse f k s = Some True" "assert_inuse f k s = Some ()"
proof -
  have "bitmap_test (freemap (sfs_at f s)) k = Some False"
    using assms bitmap_test_facts [of "freemap (sfs_at f s)" k] by (simp add: fs_ok_def used_def)
  then show "sfs_block_inuse f k s = Some True" using assms(2) by (simp add: sfs_block_inuse_def used_def)
  then show "assert_inuse f k s = Some ()" by (simp add: assert_inuse_def)
qed

lemma ndirect: "SFS_NDIRECT = 12" "SFS_BLK_NENTRY = 1024"
  by (simp_all add: SFS_NDIRECT_def SFS_BLK_NENTRY_def SFS_BLKSIZE_def)

lemma bmap_load_existing:
  assumes ok: "fs_ok f s" and fok: "file_ok f n s" and i: "i < di_blocks (din_at n s)"
  shows "\<exists>s'. sfs_bmap_load_nolock f n i s = Some (0, fblk n s i, s') \<and> disk_step f (blocks s) s s'"
proof -
  note F = file_okD [OF fok]
  have ready: "fs_ready f s" using ok by (simp add: fs_ok_def)
  have u: "used f s (fblk n s i)" using F(3) i .
  then have nz: "fblk n s i \<noteq> 0" by (simp add: used_def)
  have out: "bmap_out f (fblk n s i) s' = Some (0, fblk n s i, s')" if "disk_step f (blocks s) s s'" for s'
    using nz inuse_used(2) [OF same_blocks(5) [OF that ok]] u same_blocks(3) [OF that] by (simp add: bmap_out_def)
  have refl: "disk_step f (blocks s) s s" using ready by (intro disk_step_refl) (simp add: fs_ready_def io_ready_def)
  have get: "\<exists>s'. sfs_bmap_get_nolock f n i False s = Some (0, fblk n s i, s') \<and> disk_step f (blocks s) s s'"
  proof (cases "i < SFS_NDIRECT")
    case True
    then show ?thesis using out [OF refl] refl by (auto simp: sfs_bmap_get_nolock_def fblk_def)
  next
    case False
    let ?ent = "di_indirect (din_at n s)" and ?j = "i - SFS_NDIRECT"
    have ent: "?ent \<noteq> 0" using F(5) False i by simp
    then have ue: "0 < ?ent" "?ent < sb_blocks (super (sfs_at f s))" using F(6) by (simp_all add: used_def)
    have j: "?j < SFS_BLK_NENTRY" using False i F(2) by (simp add: ndirect MAX_BLOCKS_def)
    then have off: "?j * 4 < 4096" "?j * 4 + 4 \<le> 4096" by (simp_all add: ndirect)
    obtain s' where s': "sfs_rbuf f 4 ?ent (?j * 4) s = Some (0, take 4 (drop (?j * 4) (blocks s ?ent)), s')"
      "disk_step f (blocks s) s s'" using sfs_rbuf_facts [OF ready ue off] by blast
    have val: "le_nat (take 4 (drop (?j * 4) (blocks s ?ent))) = fblk n s i"
      using False by (simp add: fblk_def le_field_def mult.commute)
    have sub: "sfs_bmap_get_sub_nolock f ?ent ?j False s = Some (0, ?ent, fblk n s i, s')"
      using ent j s'(1) val by (simp add: sfs_bmap_get_sub_nolock_def)
    show ?thesis using False j sub out [OF s'(2)] s'(2) disk_stepD(1) [OF s'(2)] by (simp add: sfs_bmap_get_nolock_def)
  qed
  then obtain s' where s': "sfs_bmap_get_nolock f n i False s = Some (0, fblk n s i, s')" "disk_step f (blocks s) s s'" by blast
  have "assert_inuse f (fblk n s i) s' = Some ()"
    using inuse_used(2) [OF same_blocks(5) [OF s'(2) ok]] u same_blocks(3) [OF s'(2)] by simp
  then have "sfs_bmap_load_nolock f n i s = Some (0, fblk n s i, s')"
    using i s'(1) by (simp add: sfs_bmap_load_nolock_def)
  then show ?thesis using s'(2) by blast
qed

section \<open>Reading\<close>

text \<open>A piece of a block is a piece of the file.\<close>

lemma block_piece:
  assumes "off + sz \<le> 4096"
  shows "take sz (drop off (blocks s (fblk n s i))) = map (fbyte n s) [i * 4096 + off ..< i * 4096 + off + sz]"
proof (rule nth_equalityI)
  have len: "length (blocks s (fblk n s i)) = 4096" by (simp add: sfs_sizes)
  show "length (take sz (drop off (blocks s (fblk n s i)))) = length (map (fbyte n s) [i * 4096 + off ..< i * 4096 + off + sz])"
    using assms len by simp
  fix j assume "j < length (take sz (drop off (blocks s (fblk n s i))))"
  then have j: "j < sz" by simp
  have "(i * 4096 + (off + j)) div 4096 = i" "(i * 4096 + (off + j)) mod 4096 = off + j"
    using assms j by (simp_all only: div_mult_self3 mod_mult_self3 mod_less div_less)
  then have "(i * 4096 + off + j) div 4096 = i" "(i * 4096 + off + j) mod 4096 = off + j" by (simp_all only: add.assoc)
  then show "take sz (drop off (blocks s (fblk n s i))) ! j = map (fbyte n s) [i * 4096 + off ..< i * 4096 + off + sz] ! j"
    using assms j len by (simp add: fbyte_def)
qed

lemma splice_append: "pos \<le> length m \<Longrightarrow> splice (pos + length xs) ys (splice pos xs m) = splice pos (xs @ ys) m"
  by (simp add: splice_def add.commute add.left_commute)

lemma splice_Nil [simp]: "splice pos [] m = m"
  by (simp add: splice_def)

lemma length_splice: "pos + length xs \<le> length m \<Longrightarrow> length (splice pos xs m) = length m"
  by (simp add: splice_def)

lemma usedD: "used f s k \<Longrightarrow> 0 < k" "used f s k \<Longrightarrow> k < sb_blocks (super (sfs_at f s))"
  by (simp_all add: used_def)

section \<open>Transfers\<close>

text \<open>
  A file is transferred in up to three parts, each inside one block.  \<open>R pos a b mem mem' s s'\<close> says what a
  transfer of the bytes from \<open>a\<close> to \<open>b\<close> of the file does, \<open>P a e s\<close> that the file is ready for a transfer of the
  bytes from \<open>a\<close> to \<open>e\<close>.  What holds of a part of a block then holds of \<open>io_body\<close>.
\<close>

lemma io_body_eq:
  "io_body wr f n mem base o' e s =
     (let i = o' div 4096; k = e div 4096 - i; off = o' mod 4096; sz = (if k \<noteq> 0 then 4096 - off else e - o')
      in if off \<noteq> 0
         then do {
           (ret, mem1, s1) \<leftarrow> io_part wr f n mem base sz i off s;
           if ret \<noteq> 0 then Some (ret, mem1, 0, s1)
           else if k = 0 then Some (0, mem1, sz, s1)
           else io_tail wr f n e mem1 (base + sz) (i + 1) (k - 1) sz s1
         }
         else io_tail wr f n e mem base i k 0 s)"
  unfolding io_body_def Let_def sfs_sizes by (rule refl)

locale io_transfer =
  fixes wr :: bool and f n :: nat and P :: "nat \<Rightarrow> nat \<Rightarrow> kfs \<Rightarrow> bool"
    and R :: "nat \<Rightarrow> nat \<Rightarrow> nat \<Rightarrow> 8 word list \<Rightarrow> 8 word list \<Rightarrow> kfs \<Rightarrow> kfs \<Rightarrow> bool"
  assumes part: "\<lbrakk>P (i * 4096 + off) e s; 0 < sz; off + sz \<le> 4096; i * 4096 + off + sz \<le> e; pos + sz \<le> length mem\<rbrakk> \<Longrightarrow>
      \<exists>mem' s'. io_part wr f n mem pos sz i off s = Some (0, mem', s') \<and> R pos (i * 4096 + off) (i * 4096 + off + sz) mem mem' s s' \<and>
        P (i * 4096 + off + sz) e s' \<and> length mem' = length mem"
    and whole: "\<lbrakk>P (i * 4096) e s; i * 4096 + 4096 \<le> e; pos + 4096 \<le> length mem\<rbrakk> \<Longrightarrow>
      \<exists>ino s1 mem' s'. sfs_bmap_load_nolock f n i s = Some (0, ino, s1) \<and> sfs_block_op wr f mem pos ino s1 = Some (0, mem', s') \<and>
        R pos (i * 4096) (i * 4096 + 4096) mem mem' s s' \<and> P (i * 4096 + 4096) e s' \<and> length mem' = length mem"
    and none: "P a e s \<Longrightarrow> R pos a a mem mem s s"
    and join: "\<lbrakk>R pos a b mem m1 s s1; R (pos + (b - a)) b c m1 m2 s1 s2; a \<le> b; b \<le> c; pos + (c - a) \<le> length mem\<rbrakk> \<Longrightarrow>
      R pos a c mem m2 s s2"
begin

lemma blocks_transfer:
  assumes "P (i * 4096) e s" "(i + k) * 4096 \<le> e" "pos + 4096 * k \<le> length mem"
  shows "\<exists>mem' s'. io_blocks wr f n mem pos i k s = Some (0, mem', 4096 * k, s') \<and>
    R pos (i * 4096) ((i + k) * 4096) mem mem' s s' \<and> P ((i + k) * 4096) e s' \<and> length mem' = length mem"
  using assms
proof (induction k arbitrary: i pos mem s)
  case 0
  then show ?case using none [OF 0(1)] by simp
next
  case (Suc k)
  have b: "i * 4096 + 4096 \<le> e" "pos + 4096 \<le> length mem" using Suc.prems(2,3) by simp_all
  obtain ino s1 m1 s2 where one: "sfs_bmap_load_nolock f n i s = Some (0, ino, s1)" "sfs_block_op wr f mem pos ino s1 = Some (0, m1, s2)"
    "R pos (i * 4096) (i * 4096 + 4096) mem m1 s s2" "P (i * 4096 + 4096) e s2" "length m1 = length mem"
    using whole [OF Suc.prems(1) b] by blast
  have nxt: "(i + 1) * 4096 = i * 4096 + 4096" "(i + 1 + k) * 4096 = (i + Suc k) * 4096" by simp_all
  have pre: "P ((i + 1) * 4096) e s2" "(i + 1 + k) * 4096 \<le> e" "pos + 4096 + 4096 * k \<le> length m1"
    using one(4,5) Suc.prems(2,3) by (simp_all only: nxt(1)) simp_all
  obtain m2 s3 where rest: "io_blocks wr f n m1 (pos + 4096) (i + 1) k s2 = Some (0, m2, 4096 * k, s3)"
    "R (pos + 4096) ((i + 1) * 4096) ((i + 1 + k) * 4096) m1 m2 s2 s3" "P ((i + 1 + k) * 4096) e s3" "length m2 = length m1"
    using Suc.IH [OF pre] by blast
  have "R pos (i * 4096) ((i + Suc k) * 4096) mem m2 s s3"
    using rest(2) Suc.prems(3) unfolding nxt by (intro join [OF one(3)]) simp_all
  moreover have "io_blocks wr f n mem pos i (Suc k) s = Some (0, m2, 4096 * Suc k, s3)"
    using one(1,2) rest(1) by (simp add: sfs_sizes)
  ultimately show ?case using rest(3,4) one(5) unfolding nxt by auto
qed

lemma tail_transfer:
  assumes "P (i * 4096) e s" "i + k = e div 4096" "i * 4096 \<le> e" "pos + (e - i * 4096) \<le> length mem"
  shows "\<exists>mem' s'. io_tail wr f n e mem pos i k alen s = Some (0, mem', alen + (e - i * 4096), s') \<and>
    R pos (i * 4096) e mem mem' s s' \<and> P e e s' \<and> length mem' = length mem"
proof -
  let ?m = "e div 4096 * 4096" and ?r = "e mod 4096"
  have em: "?m + ?r = e" "?m \<le> e" by simp_all
  have ik: "(i + k) * 4096 = ?m" "i * 4096 + 4096 * k = ?m" using assms(2) by (metis, metis add_mult_distrib mult.commute)
  have fits: "pos + 4096 * k \<le> length mem" using assms(4) ik(2) em by linarith
  obtain m1 s1 where s1: "io_blocks wr f n mem pos i k s = Some (0, m1, 4096 * k, s1)" "R pos (i * 4096) ?m mem m1 s s1"
    "P ?m e s1" "length m1 = length mem"
    using blocks_transfer [OF assms(1) _ fits] unfolding ik(1) using em(2) by blast
  show ?thesis
  proof (cases "?r = 0")
    case True
    then show ?thesis using s1 em(1) ik by (auto simp: io_tail_def sfs_sizes)
  next
    case False
    have "4096 * k + ?r = e - i * 4096" using ik(2) em by linarith
    then have fit2: "pos + 4096 * k + ?r \<le> length m1" using assms(4) s1(4) by linarith
    have pre: "P ((i + k) * 4096 + 0) e s1" "0 < ?r" "0 + ?r \<le> 4096" "(i + k) * 4096 + 0 + ?r \<le> e"
      unfolding ik(1) using s1(3) False em by simp_all
    obtain m2 s2 where s2: "io_part wr f n m1 (pos + 4096 * k) ?r (i + k) 0 s1 = Some (0, m2, s2)"
      "R (pos + 4096 * k) ?m e m1 m2 s1 s2" "P e e s2" "length m2 = length m1"
      using part [OF pre fit2] unfolding ik(1) add_0_right em(1) by blast
    have "?m - i * 4096 = 4096 * k" using ik(2) by linarith
    then have "R pos (i * 4096) e mem m2 s s2" using s2(2) ik(2) assms(4) by (intro join [OF s1(2)]) simp_all
    moreover have "alen + 4096 * k + ?r = alen + (e - i * 4096)" using ik(2) em by linarith
    ultimately show ?thesis using s1(1,4) s2(1,3,4) False by (auto simp: io_tail_def sfs_sizes)
  qed
qed

lemma body_transfer:
  assumes P: "P o' e s" and oe: "o' < e" and len: "base + (e - o') \<le> length mem"
  shows "\<exists>mem' s'. io_body wr f n mem base o' e s = Some (0, mem', e - o', s') \<and> R base o' e mem mem' s s' \<and> P e e s' \<and>
    length mem' = length mem"
proof (cases "o' mod 4096 = 0")
  case True
  let ?i = "o' div 4096"
  have i: "?i * 4096 = o'" using True by auto
  have pre: "P (?i * 4096) e s" "?i + (e div 4096 - ?i) = e div 4096" "?i * 4096 \<le> e" "base + (e - ?i * 4096) \<le> length mem"
    using P oe len unfolding i by (simp_all add: div_le_mono)
  show ?thesis using tail_transfer [OF pre, of 0] True unfolding i by (auto simp: io_body_eq Let_def)
next
  case False
  let ?i = "o' div 4096" and ?off = "o' mod 4096"
  let ?k = "e div 4096 - ?i"
  let ?sz = "if ?k \<noteq> 0 then 4096 - ?off else e - o'"
  have io: "?i * 4096 + ?off = o'" by simp
  have ie: "?i \<le> e div 4096" using oe by (intro div_le_mono) simp
  have e0: "e < (?i + 1) * 4096" if "?k = 0"
    using that ie dividend_less_div_times [of 4096 e] by (simp add: algebra_simps)
  have e1: "(?i + 1) * 4096 \<le> e" if "?k \<noteq> 0"
    using that div_times_less_eq_dividend [of e 4096] mult_le_mono1 [of "?i + 1" "e div 4096" 4096] by linarith
  have sz: "0 < ?sz" "?off + ?sz \<le> 4096" "o' + ?sz \<le> e" "base + ?sz \<le> length mem"
    using e0 e1 io oe len by (cases "?k = 0"; simp; linarith)+
  obtain m1 s1 where s1: "io_part wr f n mem base ?sz ?i ?off s = Some (0, m1, s1)" "R base o' (o' + ?sz) mem m1 s s1"
    "P (o' + ?sz) e s1" "length m1 = length mem"
    using part [where i = ?i and off = ?off and sz = ?sz and e = e and s = s and pos = base and mem = mem] P sz unfolding io by blast
  show ?thesis
  proof (cases "?k = 0")
    case True
    then show ?thesis using False s1 oe by (auto simp: io_body_eq Let_def)
  next
    case k: False
    have "?off < 4096" by simp
    then have b: "o' + ?sz = (?i + 1) * 4096" using k io by (simp only: if_True simp_thms add_mult_distrib)
    have pre: "P ((?i + 1) * 4096) e s1" "?i + 1 + (?k - 1) = e div 4096" "(?i + 1) * 4096 \<le> e"
      "base + ?sz + (e - (?i + 1) * 4096) \<le> length m1"
      using s1(3,4) k e1 len b by (simp_all only: b, simp_all)
    obtain m2 s2 where s2: "io_tail wr f n e m1 (base + ?sz) (?i + 1) (?k - 1) ?sz s1 = Some (0, m2, ?sz + (e - (?i + 1) * 4096), s2)"
      "R (base + ?sz) ((?i + 1) * 4096) e m1 m2 s1 s2" "P e e s2" "length m2 = length m1"
      using tail_transfer [OF pre] by blast
    have "R base o' e mem m2 s s2" using s2(2) sz len unfolding b [symmetric] by (intro join [OF s1(2)]) simp_all
    moreover have "?sz + (e - (?i + 1) * 4096) = e - o'" using b e1 [OF k] by linarith
    ultimately show ?thesis using False k s1(1,4) s2(1,3,4) by (auto simp: io_body_eq Let_def)
  qed
qed

end

end
