(* ===== verification/SfsAlloc.thy ===== *)
theory SfsAlloc
  imports SfsIO
begin

text \<open>
  The allocation of blocks: \<^verbatim>\<open>sfs_block_alloc\<close> takes the first free block of the disk and clears it, and
  \<^verbatim>\<open>sfs_bmap_load_nolock\<close> at the end of a file lets the file grow by a block, and by the block of its indirect
  entries when it needs one.
\<close>

section \<open>What the file layer sees unchanged\<close>

definition frame :: "nat \<Rightarrow> kfs \<Rightarrow> kfs \<Rightarrow> bool" where
  "frame f s s' \<longleftrightarrow> inodes s' = inodes s \<and> kmem s' = kmem s \<and> inode_pool s' = inode_pool s \<and>
     sb_blocks (super (sfs_at f s')) = sb_blocks (super (sfs_at f s)) \<and>
     inode_list (sfs_at f s') = inode_list (sfs_at f s) \<and> hash_list (sfs_at f s') = hash_list (sfs_at f s) \<and>
     fs_sem (sfs_at f s') = fs_sem (sfs_at f s)"

lemma frame_refl [simp]: "frame f s s"
  by (simp add: frame_def)

lemma frame_trans: "frame f s s1 \<Longrightarrow> frame f s1 s2 \<Longrightarrow> frame f s s2"
  by (simp add: frame_def)

lemma frame_disk_step: "disk_step f B s s' \<Longrightarrow> frame f s s'"
  using core_eqD [of f s' s] by (simp add: frame_def disk_step_def)

lemma frame_upd_sin [simp]: "frame f s (upd_sin n g s1) = frame f s s1"
  by (simp add: frame_def upd_sin_def upd_devs_def)

section \<open>One block\<close>

lemma free_finite: "fs_ok f s \<Longrightarrow> finite (free_blocks f s)"
  by (meson finite_greaterThanLessThan finite_subset fs_ok_def)

lemma sfs_block_alloc_facts:
  assumes ok: "fs_ok f s"
  shows "if free_blocks f s = {} then sfs_block_alloc f s = Some (- E_NO_MEM, 0, s)
    else \<exists>b s'. sfs_block_alloc f s = Some (0, b, s') \<and> b \<in> free_blocks f s \<and> (\<forall>j\<in>free_blocks f s. b \<le> j) \<and>
      free_blocks f s' = free_blocks f s - {b} \<and> fs_ok f s' \<and> blocks s' = (blocks s)(b := replicate 4096 0) \<and>
      sins (devs s') = sins (devs s) \<and> frame f s s'"
proof -
  let ?x = "sfs_at f s"
  have bok: "bitmap_ok (freemap ?x)" using ok by (simp add: fs_ok_def)
  show ?thesis
  proof (cases "free_blocks f s = {}")
    case True
    then show ?thesis using bitmap_alloc_facts [OF bok] by (simp add: sfs_block_alloc_def error_codes)
  next
    case False
    then obtain b fm where b: "bitmap_alloc (freemap ?x) = Some (0, b, fm)" "b \<in> free_blocks f s" "\<forall>j\<in>free_blocks f s. b \<le> j"
      "free_bits fm = free_blocks f s - {b}" "bitmap_ok fm" "nbits fm = nbits (freemap ?x)"
      using bitmap_alloc_facts [OF bok] by auto
    let ?s1 = "upd_sfs f (\<lambda>x. x\<lparr>freemap := fm, super := (super x)\<lparr>unused_blocks := unused_blocks (super x) - 1\<rparr>, super_dirty := True\<rparr>) s"
    have fin: "finite (free_blocks f s)" by (rule free_finite [OF ok])
    then have cnt: "unused_blocks (super ?x) > 0" "unused_blocks (super ?x) - 1 = card (free_bits fm)"
      using ok b(2) by (auto simp: fs_ok_def b(4) card_gt_0_iff)
    have x1: "sfs_at f ?s1 = ?x\<lparr>freemap := fm, super := (super ?x)\<lparr>unused_blocks := unused_blocks (super ?x) - 1\<rparr>, super_dirty := True\<rparr>"
      "blocks ?s1 = blocks s" "sins (devs ?s1) = sins (devs s)" "frame f s ?s1"
      by (simp_all add: upd_sfs_def upd_devs_def frame_def)
    have r1: "fs_ready f ?s1" using ok
      by (simp add: fs_ok_def fs_ready_def io_ready_def disk_ready_def ide_device_valid_def bufs_ok_def upd_sfs_def upd_devs_def)
    have ok1: "fs_ok f ?s1" using ok r1 b(4-6) cnt(2) unfolding fs_ok_def x1(1) by auto
    have bb: "0 < b" "b < sb_blocks (super (sfs_at f ?s1))" using ok b(2) unfolding fs_ok_def x1(1) by auto
    have u: "used f ?s1 b" using bb b(4) unfolding used_def x1(1) by simp
    obtain s2 where s2: "sfs_clear_block f b 1 ?s1 = Some (0, s2)" "disk_step f ((blocks ?s1)(b := replicate 4096 0)) ?s1 s2"
      using sfs_clear_block_facts [OF r1 bb] by blast
    note d = disk_stepD [OF s2(2)]
    have ok2: "fs_ok f s2" using ok1 disk_step_ready [OF s2(2) r1] by (simp add: fs_ok_def d)
    have "sfs_block_alloc f s = Some (0, b, s2)"
      using b(1) cnt(1) inuse_used(2) [OF ok1 u] s2(1) by (simp add: sfs_block_alloc_def)
    moreover have "free_blocks f s2 = free_blocks f s - {b}" using b(4) unfolding d x1(1) by simp
    ultimately show ?thesis
      using False b(2,3) ok2 d(1,5) x1(2,3) frame_trans [OF x1(4) frame_disk_step [OF s2(2)]] by auto
  qed
qed

lemma block_alloc:
  assumes "fs_ok f s" "free_blocks f s \<noteq> {}"
  obtains b s' where "sfs_block_alloc f s = Some (0, b, s')" "b \<in> free_blocks f s" "free_blocks f s' = free_blocks f s - {b}"
    "fs_ok f s'" "blocks s' = (blocks s)(b := replicate 4096 0)" "sins (devs s') = sins (devs s)" "frame f s s'"
  using sfs_block_alloc_facts [OF assms(1)] assms(2) by auto

section \<open>Entries of an indirect block\<close>

lemma enc_le_length [simp]: "length (enc_le k v) = k"
  by (induction k arbitrary: v) simp_all

lemma le_nat_enc_le: "le_nat (enc_le k v) = v mod 256 ^ k"
proof (induction k arbitrary: v)
  case (Suc k)
  have "le_nat (enc_le (Suc k) v) = v mod 256 + 256 * (v div 256 mod 256 ^ k)"
    using Suc by (simp add: unat_of_nat take_bit_eq_mod)
  then show ?case by (simp add: mod_mult2_eq)
qed simp

lemma field_splice:
  assumes "length blk = 4096" "c < 1024" "v < 2 ^ 32"
  shows "le_field (4 * a) 4 (splice (4 * c) (put32 v) blk) = (if a = c then v else le_field (4 * a) 4 blk)"
proof -
  have l: "length (put32 v) = 4" by (simp add: put32_def)
  consider "a < c" | "a = c" | "c < a" by linarith
  then show ?thesis
  proof cases
    case 1
    then have "4 * a + 4 \<le> 4 * c" by simp
    then have "take 4 (drop (4 * a) (splice (4 * c) (put32 v) blk)) = take 4 (drop (4 * a) blk)"
      using assms(1,2) l by (auto simp: splice_def drop_take min_def)
    then show ?thesis using 1 by (simp add: le_field_def)
  next
    case 2
    have "take 4 (drop (4 * c) (splice (4 * c) (put32 v) blk)) = put32 v" using assms(1,2) l by (simp add: splice_def)
    then show ?thesis using 2 assms(3) by (simp add: le_field_def put32_def le_nat_enc_le)
  next
    case 3
    then have "4 * c + 4 \<le> 4 * a" by simp
    then have "drop (4 * a) (splice (4 * c) (put32 v) blk) = drop (4 * a) blk"
      using assms(1,2) l by (simp add: splice_def drop_drop) 
    then show ?thesis using 3 by (simp add: le_field_def)
  qed
qed

lemma field_zeros: "le_field i 4 (replicate 4096 0) = 0"
proof -
  have "le_nat (replicate k 0) = 0" for k by (induction k) simp_all
  then show ?thesis by (simp add: le_field_def take_replicate drop_replicate)
qed

lemma block_number_small:
  assumes "fs_ok f s" "k < sb_blocks (super (sfs_at f s))"
  shows "k < 2 ^ 32"
proof -
  have d: "disk_ready (sfs_dev (sfs_at f s)) s" "k < d_blocks (device_at (devs s) (sfs_dev (sfs_at f s)))"
    using assms by (simp_all add: fs_ok_def fs_ready_def io_ready_def)
  show ?thesis using disk_readyD(5) [OF d] by simp
qed

lemma free_small: "fs_ok f s \<Longrightarrow> b \<in> free_blocks f s \<Longrightarrow> 0 < b \<and> b < sb_blocks (super (sfs_at f s))"
  by (auto simp: fs_ok_def)

text \<open>A new entry: the block that has it is the old one or, when there was none, a new one.\<close>

definition entries :: "nat \<Rightarrow> kfs \<Rightarrow> 8 word list" where
  "entries ent s = (if ent = 0 then replicate 4096 0 else blocks s ent)"

lemma get_sub_create:
  assumes ok: "fs_ok f s" and ent0: "ent0 = 0 \<or> used f s ent0" and j: "j < SFS_BLK_NENTRY" and zero: "ent0 \<noteq> 0 \<Longrightarrow> le_field (4 * j) 4 (blocks s ent0) = 0"
    and room: "(if ent0 = 0 then 2 else 1) \<le> card (free_blocks f s)"
  shows "\<exists>ent b s'. sfs_bmap_get_sub_nolock f ent0 j True s = Some (0, ent, b, s') \<and> (if ent0 = 0 then ent \<in> free_blocks f s else ent = ent0) \<and>
    b \<in> free_blocks f s \<and> b \<noteq> ent \<and> free_blocks f s' = free_blocks f s - {b, ent} \<and> fs_ok f s' \<and> sins (devs s') = sins (devs s) \<and> frame f s s' \<and>
    blocks s' = (blocks s)(b := replicate 4096 0, ent := splice (4 * j) (put32 b) (entries ent0 s))"
proof -
  have off: "j * 4 < 4096" "j * 4 + 4 \<le> 4096" "j * 4 + length (put32 v) \<le> 4096" for v using j by (simp_all add: ndirect put32_def)
  text \<open>the block of entries\<close>
  obtain ent s1 where s1: "(if ent0 \<noteq> 0
          then do { (ret, bs, s1) \<leftarrow> sfs_rbuf f 4 ent0 (j * 4) s; Some (ret, ent0, le_nat bs, s1) }
          else do { (ret, ent, s1) \<leftarrow> sfs_block_alloc f s; Some (ret, ent, 0, s1) }) = Some (0, ent, 0, s1)"
      "if ent0 = 0 then ent \<in> free_blocks f s else ent = ent0" "free_blocks f s1 = free_blocks f s - {ent}" "fs_ok f s1"
      "sins (devs s1) = sins (devs s)" "frame f s s1" "blocks s1 = (blocks s)(ent := entries ent0 s)"
  proof (cases "ent0 = 0")
    case True
    then have "free_blocks f s \<noteq> {}" using room by auto
    from block_alloc [OF ok this] obtain b s1 where "sfs_block_alloc f s = Some (0, b, s1)" "b \<in> free_blocks f s"
      "free_blocks f s1 = free_blocks f s - {b}" "fs_ok f s1" "blocks s1 = (blocks s)(b := replicate 4096 0)"
      "sins (devs s1) = sins (devs s)" "frame f s s1" .
    then show ?thesis using True that [of b s1] by (simp add: entries_def)
  next
    case False
    then have u: "used f s ent0" using ent0 by simp
    have ready: "fs_ready f s" using ok by (simp add: fs_ok_def)
    obtain s1 where r: "sfs_rbuf f 4 ent0 (j * 4) s = Some (0, take 4 (drop (j * 4) (blocks s ent0)), s1)" "disk_step f (blocks s) s s1"
      using sfs_rbuf_facts [OF ready usedD [OF u] off(1,2)] by blast
    have "le_nat (take 4 (drop (j * 4) (blocks s ent0))) = 0" using zero [OF False] by (simp add: le_field_def mult.commute)
    moreover have "ent0 \<notin> free_blocks f s" using u by (simp add: used_def)
    ultimately show ?thesis
      using False r same_blocks(5) [OF r(2) ok] disk_stepD [OF r(2)] frame_disk_step [OF r(2)] that [of ent0 s1]
      by (simp add: entries_def fun_upd_idem)
  qed
  have ent: "used f s1 ent" "ent \<noteq> 0"
    using s1(2,3,6) ent0 free_small [OF ok, of ent] by (auto simp: used_def frame_def split: if_splits)
  have room1: "free_blocks f s1 \<noteq> {}"
  proof (cases "ent0 = 0")
    case True
    then have "card (free_blocks f s - {ent}) = card (free_blocks f s) - 1" using s1(2) free_finite [OF ok] by simp
    then have "card (free_blocks f s1) \<noteq> 0" using room True s1(3) by simp
    then show ?thesis by (metis card.empty)
  next
    case False
    then have "ent \<notin> free_blocks f s" using s1(2) ent0 by (simp add: used_def)
    then show ?thesis using room False s1(3) by auto
  qed
  obtain b s2 where s2: "sfs_block_alloc f s1 = Some (0, b, s2)" "b \<in> free_blocks f s1" "free_blocks f s2 = free_blocks f s1 - {b}"
    "fs_ok f s2" "blocks s2 = (blocks s1)(b := replicate 4096 0)" "sins (devs s2) = sins (devs s1)" "frame f s1 s2"
    using block_alloc [OF s1(4) room1] by blast
  have be: "b \<noteq> ent" using s2(2) s1(3) by blast
  have ent2: "0 < ent" "ent < sb_blocks (super (sfs_at f s2))" using ent s2(7) by (simp_all add: used_def frame_def)
  have ready2: "fs_ready f s2" using s2(4) by (simp add: fs_ok_def)
  obtain s3 where s3: "sfs_wbuf f (put32 b) ent (j * 4) s2 = Some (0, s3)"
    "disk_step f ((blocks s2)(ent := splice (j * 4) (put32 b) (blocks s2 ent))) s2 s3"
    using sfs_wbuf_facts [OF ready2 ent2 off(1,3)] by blast
  note d = disk_stepD [OF s3(2)]
  have ok3: "fs_ok f s3" using s2(4) disk_step_ready [OF s3(2) ready2] by (simp add: fs_ok_def d)
  have bl: "blocks s3 = (blocks s)(b := replicate 4096 0, ent := splice (4 * j) (put32 b) (entries ent0 s))"
    using be by (simp add: d s2(5) s1(7) fun_eq_iff mult.commute)
  have run: "(if ent0 \<noteq> 0
          then do { (ret, bs, s1) \<leftarrow> sfs_rbuf f 4 ent0 (j * 4) s; Some (ret, ent0, le_nat bs, s1) }
          else if \<not> True then Some (0, ent0, 0, s)
          else do { (ret, ent, s1) \<leftarrow> sfs_block_alloc f s; Some (ret, ent, 0, s1) }) = Some (0, ent, 0, s1)"
    using s1(1) by (simp only: not_True_eq_False if_False)
  have "sfs_bmap_get_sub_nolock f ent0 j True s = Some (0, ent, b, s3)"
    unfolding sfs_bmap_get_sub_nolock_def Let_def run using j s2(1) s3(1) by simp
  moreover have "free_blocks f s3 = free_blocks f s - {b, ent}" using s2(3) s1(3) by (auto simp: d)
  moreover have "b \<in> free_blocks f s" using s2(2) s1(3) by blast
  moreover have "frame f s s3" using frame_trans [OF frame_trans [OF s1(6) s2(7)] frame_disk_step [OF s3(2)]] .
  ultimately show ?thesis using s1(2,5) s2(6) ok3 be bl d(1) by metis
qed

section \<open>A file grows by a block\<close>

lemma upd_sin_simps [simp]:
  "blocks (upd_sin n g s) = blocks s" "sfs_at f (upd_sin n g s) = sfs_at f s" "inodes (upd_sin n g s) = inodes s"
  "sin_at m (upd_sin n g s) = (if m = n then g (sin_at n s) else sin_at m s)"
  by (simp_all add: upd_sin_def upd_devs_def)

lemma upd_din_sin: "upd_din n g s = upd_sin n (\<lambda>i. i\<lparr>din := g (din i)\<rparr>) s"
  by (simp add: upd_din_def)

lemma upd_sin_ok [simp]: "fs_ok f (upd_sin n g s) = fs_ok f s" "used f (upd_sin n g s) = used f s"
  by (simp_all add: fs_ok_def fs_ready_def io_ready_def disk_ready_def ide_device_valid_def bufs_ok_def used_def upd_sin_def upd_devs_def fun_eq_iff)

lemma upd_sin_upd_sin [simp]: "upd_sin n g (upd_sin n h s) = upd_sin n (\<lambda>x. g (h x)) s"
  by (simp add: upd_sin_def upd_devs_def)

text \<open>
  \<open>grown f n b s s'\<close>: the file has one block more, the block \<open>b\<close>, full of zeros; its other blocks are the same,
  and of all blocks in use only that of its indirect entries is written.
\<close>

definition grown :: "nat \<Rightarrow> nat \<Rightarrow> nat \<Rightarrow> kfs \<Rightarrow> kfs \<Rightarrow> bool" where
  "grown f n b s s' \<longleftrightarrow> (let i = di_blocks (din_at n s); old = di_indirect (din_at n s); new = di_indirect (din_at n s') in
     frame f s s' \<and> (\<forall>m. m \<noteq> n \<longrightarrow> sin_at m s' = sin_at m s) \<and>
     (\<exists>dir dt. sin_at n s' = (sin_at n s)\<lparr>din := (din_at n s)\<lparr>di_blocks := i + 1, di_direct := dir, di_indirect := new\<rparr>, dirty := dt\<rparr>
        \<and> length dir = SFS_NDIRECT) \<and>
     b \<in> free_blocks f s \<and> b \<noteq> new \<and> free_blocks f s' = free_blocks f s - {b, new} \<and>
     (if old = 0 \<and> SFS_NDIRECT \<le> i then new \<in> free_blocks f s else new = old) \<and>
     (\<forall>j. (if j < SFS_NDIRECT then j \<noteq> i else old \<noteq> 0 \<and> j \<noteq> i) \<longrightarrow> fblk n s' j = fblk n s j) \<and> fblk n s' i = b \<and>
     (old = 0 \<and> new \<noteq> 0 \<longrightarrow> (\<forall>j. SFS_NDIRECT \<le> j \<and> j \<noteq> i \<longrightarrow> fblk n s' j = 0)) \<and>
     blocks s' b = replicate 4096 0 \<and> (\<forall>k. k \<notin> free_blocks f s \<and> (old = 0 \<or> k \<noteq> old) \<longrightarrow> blocks s' k = blocks s k))"

lemma grown_file_ok:
  assumes ok: "fs_ok f s" and fok: "file_ok f n s" and g: "grown f n b s s'" and i: "di_blocks (din_at n s) < MAX_BLOCKS"
  shows "file_ok f n s'"
proof -
  let ?i = "di_blocks (din_at n s)" and ?old = "di_indirect (din_at n s)" and ?new = "di_indirect (din_at n s')"
  note F = file_okD [OF fok]
  note G = g [unfolded grown_def Let_def]
  obtain dir dt where D: "sin_at n s' = (sin_at n s)\<lparr>din := (din_at n s)\<lparr>di_blocks := ?i + 1, di_direct := dir, di_indirect := ?new\<rparr>, dirty := dt\<rparr>"
    "length dir = SFS_NDIRECT" using G by blast
  have din: "di_blocks (din_at n s') = ?i + 1" "length (di_direct (din_at n s')) = SFS_NDIRECT"
    using arg_cong [OF D(1), of "\<lambda>x. di_blocks (din x)"] arg_cong [OF D(1), of "\<lambda>x. di_direct (din x)"] D(2) by simp_all
  have same: "fblk n s' j = fblk n s j" if "j < ?i" for j
    using G F(5) that by (cases "j < SFS_NDIRECT") auto
  have u: "used f s' k" if "used f s k" "k \<notin> {b, ?new} - {?old}" for k
    using that G by (auto simp: used_def frame_def)
  have ub: "used f s' k" if "k \<in> free_blocks f s" "k \<in> {b, ?new}" for k
    using that G free_small [OF ok that(1)] by (auto simp: used_def frame_def)
  have nfree: "fblk n s j \<notin> free_blocks f s" if "j < ?i" for j using F(3) [OF that] by (simp add: used_def)
  have new: "?new \<in> free_blocks f s \<or> ?new = ?old" "b \<in> free_blocks f s" "b \<noteq> ?new" "fblk n s' ?i = b" using G by (auto split: if_splits)
  have blks: "used f s' (fblk n s' j)" if "j < ?i + 1" for j
  proof (cases "j = ?i")
    case True
    then show ?thesis using ub new(2,4) by simp
  next
    case False
    then have "j < ?i" using that by simp
    then have "fblk n s j \<notin> {b, ?new} - {?old}" using nfree [of j] \<open>j < ?i\<close> new(1,2) by auto
    then show ?thesis using \<open>j < ?i\<close> same F(3) u by simp
  qed
  have img: "fblk n s' ` {..<?i + 1} = insert b (fblk n s ` {..<?i})"
  proof -
    have "fblk n s' ` {..<?i} = fblk n s ` {..<?i}" using same by (intro image_cong) auto
    then show ?thesis using new(4) lessThan_Suc [of ?i] by simp
  qed
  have inj: "inj_on (fblk n s') {..<?i + 1}"
  proof -
    have "inj_on (fblk n s') {..<?i}" using F(4) same by (simp add: inj_on_def)
    moreover have "fblk n s' ?i \<notin> fblk n s' ` {..<?i}" using nfree new(2,4) same by (auto simp: image_iff)
    ultimately show ?thesis using lessThan_Suc [of ?i] by (simp add: inj_on_insert)
  qed
  have ind: "SFS_NDIRECT < ?i + 1 \<Longrightarrow> ?new \<noteq> 0"
    using G F(5) free_small [OF ok] by (auto split: if_splits)
  have ind2: "used f s' ?new \<and> ?new \<notin> fblk n s' ` {..<?i + 1}" if "?new \<noteq> 0"
  proof (cases "?new \<in> free_blocks f s")
    case True
    then show ?thesis using ub new(3) nfree unfolding img by (auto simp: image_iff)
  next
    case False
    then have e: "?new = ?old" using new(1) by blast
    then show ?thesis using u [of ?old] F(6,7) that new(3) unfolding img by auto
  qed
  have zero: "fblk n s' j = 0" if "?i + 1 \<le> j" "j < MAX_BLOCKS" "j < SFS_NDIRECT \<or> ?new \<noteq> 0" for j
  proof (cases "j < SFS_NDIRECT \<or> ?old \<noteq> 0")
    case True
    then have "fblk n s' j = fblk n s j" using G that(1) by auto
    then show ?thesis using F(8) [of j] that True by auto
  next
    case False
    then show ?thesis using G that by auto
  qed
  show ?thesis unfolding file_ok_def Let_def din using i blks inj ind ind2 zero by auto
qed

lemma grownI:
  assumes "sin_at n s' = (sin_at n s)\<lparr>din := (din_at n s)\<lparr>di_blocks := di_blocks (din_at n s) + 1, di_direct := dir, di_indirect := new\<rparr>, dirty := dt\<rparr>"
    and "length dir = SFS_NDIRECT" "frame f s s'" "\<And>m. m \<noteq> n \<Longrightarrow> sin_at m s' = sin_at m s"
    and "b \<in> free_blocks f s" "b \<noteq> new" "free_blocks f s' = free_blocks f s - {b, new}"
    and "if di_indirect (din_at n s) = 0 \<and> SFS_NDIRECT \<le> di_blocks (din_at n s) then new \<in> free_blocks f s else new = di_indirect (din_at n s)"
    and "\<And>j. (if j < SFS_NDIRECT then j \<noteq> di_blocks (din_at n s) else di_indirect (din_at n s) \<noteq> 0 \<and> j \<noteq> di_blocks (din_at n s)) \<Longrightarrow>
      fblk n s' j = fblk n s j"
    and "fblk n s' (di_blocks (din_at n s)) = b"
    and "\<And>j. di_indirect (din_at n s) = 0 \<Longrightarrow> new \<noteq> 0 \<Longrightarrow> SFS_NDIRECT \<le> j \<Longrightarrow> j \<noteq> di_blocks (din_at n s) \<Longrightarrow> fblk n s' j = 0"
    and "blocks s' b = replicate 4096 0"
    and "\<And>k. k \<notin> free_blocks f s \<Longrightarrow> di_indirect (din_at n s) = 0 \<or> k \<noteq> di_indirect (din_at n s) \<Longrightarrow> blocks s' k = blocks s k"
  shows "grown f n b s s'"
proof -
  have new: "di_indirect (din_at n s') = new" using arg_cong [OF assms(1), of "\<lambda>x. di_indirect (din x)"] by simp
  show ?thesis unfolding grown_def Let_def new
  proof (intro conjI allI impI)
    show "\<exists>dir dt. sin_at n s' = (sin_at n s)\<lparr>din := (din_at n s)\<lparr>di_blocks := di_blocks (din_at n s) + 1, di_direct := dir, di_indirect := new\<rparr>, dirty := dt\<rparr> \<and>
        length dir = SFS_NDIRECT" using assms(1,2) by blast
  qed (use assms(3-13) in blast)+
qed

lemma bmap_load_create:
  assumes ok: "fs_ok f s" and fok: "file_ok f n s" and i: "i = di_blocks (din_at n s)" "i < MAX_BLOCKS"
    and room: "(if di_indirect (din_at n s) = 0 \<and> SFS_NDIRECT \<le> i then 2 else 1) \<le> card (free_blocks f s)"
  shows "\<exists>b s'. sfs_bmap_load_nolock f n i s = Some (0, b, s') \<and> fs_ok f s' \<and> grown f n b s s'"
proof -
  let ?d = "din_at n s" and ?ent = "di_indirect (din_at n s)"
  note F = file_okD [OF fok]
  have i32: "u32 (i + 1) = i + 1" using i(2) by (simp add: MAX_BLOCKS_def)
  have free: "free_blocks f s \<noteq> {}" using room by (auto split: if_splits)
  show ?thesis
  proof (cases "i < SFS_NDIRECT")
    case True
    have zero: "di_direct ?d ! i = 0" using F(8) [of i] i True by (simp add: fblk_def)
    obtain b s1 where b: "sfs_block_alloc f s = Some (0, b, s1)" "b \<in> free_blocks f s" "free_blocks f s1 = free_blocks f s - {b}"
      "fs_ok f s1" "blocks s1 = (blocks s)(b := replicate 4096 0)" "sins (devs s1) = sins (devs s)" "frame f s s1"
      using block_alloc [OF ok free] by blast
    have ub: "used f s1 b" using b free_small [OF ok b(2)] by (simp add: used_def frame_def)
    let ?g = "\<lambda>x. x\<lparr>din := (din x)\<lparr>di_direct := (di_direct (din x))[i := b]\<rparr>, dirty := True\<rparr>"
    let ?h = "\<lambda>x. x\<lparr>dirty := True, din := (din x)\<lparr>di_direct := (di_direct (din x))[i := b], di_blocks := u32 (di_blocks (din x) + 1)\<rparr>\<rparr>"
    have get: "sfs_bmap_get_nolock f n i True s = Some (0, b, upd_sin n ?g s1)"
      using True zero b(1) inuse_used(2) [of f "upd_sin n ?g s1" b] b(4) ub free_small [OF ok b(2)]
      by (simp add: sfs_bmap_get_nolock_def bmap_out_def upd_din_sin)
    have load: "sfs_bmap_load_nolock f n i s = Some (0, b, upd_sin n ?h s1)"
      using get i inuse_used(2) [of f "upd_sin n ?g s1" b] b(4) ub by (simp add: sfs_bmap_load_nolock_def upd_din_sin)
    have bn: "b \<noteq> ?ent" "b \<noteq> 0" "?ent \<notin> free_blocks f s" 
      using b(2) F(6) free_small [OF ok b(2)] free_small [OF ok, of 0] by (cases "?ent = 0"; auto simp: used_def)+
    have "grown f n b s (upd_sin n ?h s1)"
    proof (rule grownI [where dir = "(di_direct ?d)[i := b]" and new = ?ent and dt = True])
      show "sin_at n (upd_sin n ?h s1) = (sin_at n s)\<lparr>din := ?d\<lparr>di_blocks := di_blocks ?d + 1, di_direct := (di_direct ?d)[i := b], di_indirect := ?ent\<rparr>, dirty := True\<rparr>"
        using i i32 b(6) by simp
      show "fblk n (upd_sin n ?h s1) j = fblk n s j"
        if "if j < SFS_NDIRECT then j \<noteq> di_blocks ?d else ?ent \<noteq> 0 \<and> j \<noteq> di_blocks ?d" for j
        using that i b(5,6) bn by (simp add: fblk_def split: if_splits)
      show "fblk n (upd_sin n ?h s1) (di_blocks ?d) = b" using i True b(6) F(1) by (simp add: fblk_def)
    qed (use b i True bn F(1) in \<open>simp_all\<close>, auto)
    then show ?thesis using load b(4) by (intro exI [of _ b] exI [of _ "upd_sin n ?h s1"]) simp
  next
    case False
    let ?j = "i - SFS_NDIRECT"
    have j: "?j < SFS_BLK_NENTRY" using i(2) False by (simp add: ndirect MAX_BLOCKS_def)
    have ent0: "?ent = 0 \<or> used f s ?ent" using F(6) by blast
    have zero: "le_field (4 * ?j) 4 (blocks s ?ent) = 0" if "?ent \<noteq> 0" using F(8) [of i] i that False by (simp add: fblk_def)
    have room2: "(if ?ent = 0 then 2 else 1) \<le> card (free_blocks f s)" using room False by (auto split: if_splits)
    obtain ent b s1 where s1: "sfs_bmap_get_sub_nolock f ?ent ?j True s = Some (0, ent, b, s1)"
      "if ?ent = 0 then ent \<in> free_blocks f s else ent = ?ent" "b \<in> free_blocks f s" "b \<noteq> ent"
      "free_blocks f s1 = free_blocks f s - {b, ent}" "fs_ok f s1" "sins (devs s1) = sins (devs s)" "frame f s s1"
      "blocks s1 = (blocks s)(b := replicate 4096 0, ent := splice (4 * ?j) (put32 b) (entries ?ent s))"
      using get_sub_create [OF ok ent0 j zero room2] by blast
    have bs: "0 < b" "b < sb_blocks (super (sfs_at f s))" using free_small [OF ok s1(3)] by simp_all
    have ub: "used f s1 b" using bs s1(5,8) by (simp add: used_def frame_def)
    have ent: "ent \<noteq> 0" using s1(2) free_small [OF ok, of ent] by (auto split: if_splits)
    have b32: "b < 2 ^ 32" using block_number_small [OF ok bs(2)] .
    let ?g = "\<lambda>x. if ?ent = 0 then x\<lparr>din := (din x)\<lparr>di_indirect := ent\<rparr>, dirty := True\<rparr> else x"
    let ?h = "\<lambda>x. if ?ent = 0 then x\<lparr>dirty := True, din := (din x)\<lparr>di_indirect := ent, di_blocks := u32 (di_blocks (din x) + 1)\<rparr>\<rparr>
      else x\<lparr>din := (din x)\<lparr>di_blocks := u32 (di_blocks (din x) + 1)\<rparr>\<rparr>"
    have id: "upd_sin n (\<lambda>x. x) s1 = s1" by (simp add: upd_sin_def upd_devs_def)
    have get: "sfs_bmap_get_nolock f n i True s = Some (0, b, upd_sin n ?g s1)"
    proof (cases "?ent = 0")
      case True
      then show ?thesis using False j s1(1,6,7) ent bs(1) inuse_used(2) [of f "upd_sin n ?g s1" b] ub
        by (simp add: sfs_bmap_get_nolock_def bmap_out_def upd_din_sin)
    next
      case h: False
      then show ?thesis using False j s1(1,2,6,7) bs(1) inuse_used(2) [OF s1(6) ub]
        by (simp add: sfs_bmap_get_nolock_def bmap_out_def id)
    qed
    have load: "sfs_bmap_load_nolock f n i s = Some (0, b, upd_sin n ?h s1)"
      using get i inuse_used(2) [of f "upd_sin n ?g s1" b] s1(6) ub by (cases "?ent = 0") (simp_all add: sfs_bmap_load_nolock_def upd_din_sin)
    have len: "length (entries ?ent s) = 4096" by (simp add: entries_def sfs_sizes)
    have fs: "le_field (4 * (k - 12)) 4 (splice (4 * ?j) (put32 b) (entries ?ent s)) = (if k = i then b else le_field (4 * (k - 12)) 4 (entries ?ent s))"
      if "12 \<le> k" for k
      using field_splice [OF len _ b32, of ?j "k - 12"] j that False by (auto simp: ndirect)
    have bn: "b \<noteq> ?ent" "?ent \<notin> free_blocks f s \<or> ?ent = 0" using s1(3) F(6) bs by (auto simp: used_def)
    have ind: "(if ?ent = 0 then ent else ?ent) = ent" using s1(2) by simp
    have "grown f n b s (upd_sin n ?h s1)"
    proof (rule grownI [where dir = "di_direct ?d" and new = ent and dt = "if ?ent = 0 then True else dirty (sin_at n s)"])
      show "sin_at n (upd_sin n ?h s1) = (sin_at n s)\<lparr>din := ?d\<lparr>di_blocks := di_blocks ?d + 1, di_direct := di_direct ?d, di_indirect := ent\<rparr>,
          dirty := if ?ent = 0 then True else dirty (sin_at n s)\<rparr>"
        using i i32 s1(2,7) by simp
      show "fblk n (upd_sin n ?h s1) j = fblk n s j"
        if "if j < SFS_NDIRECT then j \<noteq> di_blocks ?d else ?ent \<noteq> 0 \<and> j \<noteq> di_blocks ?d" for j
        using that i s1(2,4,7,9) fs [of j] by (simp add: fblk_def ndirect entries_def split: if_splits)
      show "fblk n (upd_sin n ?h s1) (di_blocks ?d) = b"
        using i False s1(2,4,7,9) fs [of i] by (simp add: fblk_def ndirect split: if_splits)
      show "fblk n (upd_sin n ?h s1) j = 0" if "?ent = 0" "ent \<noteq> 0" "SFS_NDIRECT \<le> j" "j \<noteq> di_blocks ?d" for j
        using that i s1(2,4,7,9) fs [of j] field_zeros by (simp add: fblk_def ndirect entries_def split: if_splits)
      show "if ?ent = 0 \<and> SFS_NDIRECT \<le> di_blocks ?d then ent \<in> free_blocks f s else ent = ?ent" using s1(2) i False by (simp split: if_splits)
      show "blocks (upd_sin n ?h s1) b = replicate 4096 0" using s1(4,9) by simp
      show "blocks (upd_sin n ?h s1) k = blocks s k" if "k \<notin> free_blocks f s" "?ent = 0 \<or> k \<noteq> ?ent" for k
        using that s1(2,3,9) by (auto split: if_splits)
      show "free_blocks f (upd_sin n ?h s1) = free_blocks f s - {b, ent}" using s1(5) by simp
      show "frame f s (upd_sin n ?h s1)" using s1(8) by simp
      show "sin_at m (upd_sin n ?h s1) = sin_at m s" if "m \<noteq> n" for m using that s1(7) by simp
    qed (rule F(1) s1(3,4))+
    then show ?thesis using load s1(6) by (intro exI [of _ b] exI [of _ "upd_sin n ?h s1"]) simp
  qed
qed

end
