(* ===== verification/SfsFile.thy ===== *)
theory SfsFile
  imports SfsAlloc
begin

text \<open>
  Reading and writing a file of the simple file system: what \<^verbatim>\<open>sfs_io_nolock\<close> does to the bytes of the file and
  to every other block of the disk, with the allocation of the blocks that a file grows by.
\<close>

section \<open>Reading\<close>

definition readable_to :: "nat \<Rightarrow> nat \<Rightarrow> nat \<Rightarrow> nat \<Rightarrow> kfs \<Rightarrow> bool" where
  "readable_to f n a e s \<longleftrightarrow> fs_ok f s \<and> file_ok f n s \<and> e \<le> 4096 * di_blocks (din_at n s)"

definition reads :: "nat \<Rightarrow> nat \<Rightarrow> nat \<Rightarrow> nat \<Rightarrow> nat \<Rightarrow> 8 word list \<Rightarrow> 8 word list \<Rightarrow> kfs \<Rightarrow> kfs \<Rightarrow> bool" where
  "reads f n pos a b mem mem' s s' \<longleftrightarrow> mem' = splice pos (map (fbyte n s) [a..<b]) mem \<and> disk_step f (blocks s) s s'"

lemma disk_step_self: "fs_ok f s \<Longrightarrow> disk_step f (blocks s) s s"
  by (intro disk_step_refl) (simp add: fs_ok_def fs_ready_def io_ready_def)

lemma readable_step:
  assumes "disk_step f (blocks s) s s'" "readable_to f n a e s"
  shows "readable_to f n a' e s'"
  using assms(2) same_blocks [OF assms(1)] disk_stepD(1) [OF assms(1)] by (simp add: readable_to_def)

lemma map_upt_append: "a \<le> b \<Longrightarrow> b \<le> c \<Longrightarrow> map g [a..<b] @ map g [b..<c] = map g [a..<c]"
  by (metis le_add_diff_inverse map_append upt_add_eq_append)

lemma read_load:
  assumes P: "readable_to f n a e s" and i: "i * 4096 < e"
  shows "\<exists>s1. sfs_bmap_load_nolock f n i s = Some (0, fblk n s i, s1) \<and> disk_step f (blocks s) s s1 \<and> fs_ready f s1 \<and>
    0 < fblk n s i \<and> fblk n s i < sb_blocks (super (sfs_at f s1))"
proof -
  have ok: "fs_ok f s" and fok: "file_ok f n s" and ib: "i < di_blocks (din_at n s)"
    using P i by (auto simp: readable_to_def)
  obtain s1 where s1: "sfs_bmap_load_nolock f n i s = Some (0, fblk n s i, s1)" "disk_step f (blocks s) s s1"
    using bmap_load_existing [OF ok fok ib] by blast
  have "used f s1 (fblk n s i)" using file_okD(3) [OF fok ib] same_blocks(3) [OF s1(2)] by simp
  then show ?thesis using s1 usedD same_blocks(5) [OF s1(2) ok] by (auto simp: fs_ok_def)
qed

interpretation reading: io_transfer False f n "readable_to f n" "reads f n" for f n
proof unfold_locales
  fix i off e s sz pos and mem :: "8 word list"
  assume P: "readable_to f n (i * 4096 + off) e s" and sz: "0 < sz" "off + sz \<le> 4096" "i * 4096 + off + sz \<le> e"
    and fit: "pos + sz \<le> length mem"
  have ie: "i * 4096 < e" using sz by simp
  obtain s1 where s1: "sfs_bmap_load_nolock f n i s = Some (0, fblk n s i, s1)" "disk_step f (blocks s) s s1" "fs_ready f s1"
    "0 < fblk n s i" "fblk n s i < sb_blocks (super (sfs_at f s1))" using read_load [OF P ie] by blast
  have off: "off < 4096" using sz by simp
  obtain s2 where s2: "sfs_rbuf f sz (fblk n s i) off s1 = Some (0, map (fbyte n s) [i * 4096 + off ..< i * 4096 + off + sz], s2)"
    "disk_step f (blocks s) s1 s2"
    using sfs_rbuf_facts [OF s1(3-5) off sz(2)] unfolding disk_stepD(5) [OF s1(2)] block_piece [OF sz(2)] by blast
  note st = disk_step_trans [OF s1(2) s2(2)]
  let ?m = "splice pos (map (fbyte n s) [i * 4096 + off ..< i * 4096 + off + sz]) mem"
  have "io_part False f n mem pos sz i off s = Some (0, ?m, s2)" using s1(1) s2(1) by (simp add: io_part_def sfs_buf_op_def)
  moreover have "length ?m = length mem" using fit by (intro length_splice) simp
  ultimately show "\<exists>mem' s'. io_part False f n mem pos sz i off s = Some (0, mem', s') \<and>
      reads f n pos (i * 4096 + off) (i * 4096 + off + sz) mem mem' s s' \<and> readable_to f n (i * 4096 + off + sz) e s' \<and> length mem' = length mem"
    using st readable_step [OF st P] unfolding reads_def by blast
next
  fix i e s pos and mem :: "8 word list"
  assume P: "readable_to f n (i * 4096) e s" and e: "i * 4096 + 4096 \<le> e" and fit: "pos + 4096 \<le> length mem"
  have ie: "i * 4096 < e" using e by simp
  obtain s1 where s1: "sfs_bmap_load_nolock f n i s = Some (0, fblk n s i, s1)" "disk_step f (blocks s) s s1" "fs_ready f s1"
    "0 < fblk n s i" "fblk n s i < sb_blocks (super (sfs_at f s1))" using read_load [OF P ie] by blast
  have blk: "blocks s (fblk n s i) = map (fbyte n s) [i * 4096 ..< i * 4096 + 4096]"
    using block_piece [of 0 4096 s n i] by (simp add: sfs_sizes)
  have "length (take SFS_BLKSIZE (drop pos mem)) = 4096" using fit by (simp add: sfs_sizes)
  then obtain s2 where s2: "sfs_rblock f (take SFS_BLKSIZE (drop pos mem)) (fblk n s i) 1 s1 = Some (0, blocks s (fblk n s i), s2)"
    "disk_step f (blocks s) s1 s2"
    using sfs_rblock_facts [OF s1(3-5)] unfolding disk_stepD(5) [OF s1(2)] by blast
  note st = disk_step_trans [OF s1(2) s2(2)]
  let ?m = "splice pos (map (fbyte n s) [i * 4096 ..< i * 4096 + 4096]) mem"
  have "sfs_block_op False f mem pos (fblk n s i) s1 = Some (0, ?m, s2)" using s2(1) by (simp add: sfs_block_op_def blk)
  moreover have "length ?m = length mem" using fit by (intro length_splice) simp
  ultimately show "\<exists>ino s1 mem' s'. sfs_bmap_load_nolock f n i s = Some (0, ino, s1) \<and> sfs_block_op False f mem pos ino s1 = Some (0, mem', s') \<and>
      reads f n pos (i * 4096) (i * 4096 + 4096) mem mem' s s' \<and> readable_to f n (i * 4096 + 4096) e s' \<and> length mem' = length mem"
    using s1(1) st readable_step [OF st P] unfolding reads_def by blast
next
  show "reads f n pos a a mem mem s s" if "readable_to f n a e s" for pos a e mem s
    using that disk_step_self by (simp add: reads_def readable_to_def)
next
  fix pos a b mem and m1 :: "8 word list" and s s1 c m2 s2
  assume r: "reads f n pos a b mem m1 s s1" "reads f n (pos + (b - a)) b c m1 m2 s1 s2" and le: "a \<le> b" "b \<le> c"
    and fit: "pos + (c - a) \<le> length mem"
  have st: "disk_step f (blocks s) s s1" "disk_step f (blocks s) s1 s2"
    using r disk_stepD(5) [of f "blocks s" s s1] by (auto simp: reads_def)
  have "m2 = splice pos (map (fbyte n s) [a..<b] @ map (fbyte n s) [b..<c]) mem"
    using r same_blocks(2) [OF st(1)] splice_append [of pos mem "map (fbyte n s) [a..<b]"] fit by (simp add: reads_def)
  then show "reads f n pos a c mem m2 s s2"
    using disk_step_trans [OF st] unfolding reads_def map_upt_append [OF le] by simp
qed

lemma sint_offset:
  assumes "unat (off :: 64 word) = o'" "o' + alen < 2 ^ 63"
  shows "sint off = int o'" "sint (off + of_nat alen) = int (o' + alen)"
proof -
  have off: "off = of_nat o'" using assms(1) by auto
  show "sint off = int o'" unfolding off using assms(2) by (intro sint_of_nat64) simp
  have "off + of_nat alen = of_nat (o' + alen)" by (simp add: off)
  then show "sint (off + of_nat alen) = int (o' + alen)" using sint_of_nat64 [OF assms(2)] by simp
qed

text \<open>What a read delivers: the bytes of the file from the offset on, at most \<open>alen\<close> and not past the end.\<close>

definition read_bytes :: "nat \<Rightarrow> kfs \<Rightarrow> nat \<Rightarrow> nat \<Rightarrow> 8 word list" where
  "read_bytes n s o' alen = take alen (drop o' (take SFS_MAX_FILE_SIZE (content n s)))"

lemma read_bytes_map: "read_bytes n s o' alen = map (fbyte n s) [o' ..< min (o' + alen) (min SFS_MAX_FILE_SIZE (di_size (din_at n s)))]"
  by (simp add: read_bytes_def content_def take_map drop_map min_def)

lemma sfs_io_nolock_read:
  assumes ok: "fs_ok f s" and fok: "file_ok f n s" and ty: "di_type (din_at n s) \<noteq> SFS_TYPE_DIR"
    and sz: "di_size (din_at n s) \<le> 4096 * di_blocks (din_at n s)"
    and off: "unat off = o'" "o' + alen < 2 ^ 63" "o' < SFS_MAX_FILE_SIZE" and len: "base + alen \<le> length mem"
  shows "\<exists>s'. sfs_io_nolock f n mem base off alen False s =
    Some (0, splice base (read_bytes n s o' alen) mem, length (read_bytes n s o' alen), s') \<and> disk_step f (blocks s) s s'"
proof -
  let ?o = o' and ?sz = "di_size (din_at n s)"
  let ?e = "min (?o + alen) (min SFS_MAX_FILE_SIZE ?sz)"
  note so = sint_offset [OF off(1,2)]
  show ?thesis
  proof (cases "?o < ?e")
    case False
    then have "alen = 0 \<or> ?sz \<le> ?o" using off(3) by auto
    then have "sfs_io_nolock f n mem base off alen False s = Some (0, mem, 0, s)"
      using ty off(3) by (auto simp: sfs_io_nolock_def so Let_def)
    moreover have "read_bytes n s ?o alen = []" using False unfolding read_bytes_map by (subst upt_conv_Nil) auto
    ultimately show ?thesis using disk_step_self [OF ok] by simp
  next
    case True
    have P: "readable_to f n ?o ?e s" using ok fok sz by (auto simp: readable_to_def)
    have fit: "base + (?e - ?o) \<le> length mem" using len by auto
    obtain mem' s' where body: "io_body False f n mem base ?o ?e s = Some (0, mem', ?e - ?o, s')" "reads f n base ?o ?e mem mem' s s'"
      using reading.body_transfer [OF P True fit] by blast
    have e: "nat (min (min (int (?o + alen)) (int SFS_MAX_FILE_SIZE)) (int ?sz)) = ?e"
      by (simp only: of_nat_min [symmetric] nat_int min.assoc)
    have st: "disk_step f (blocks s) s s'" using body(2) by (simp add: reads_def)
    have "io_out n ?o (?e - ?o) s' = s'" using True disk_stepD(1) [OF st] by (simp add: io_out_def)
    then have "sfs_io_nolock f n mem base off alen False s = Some (0, mem', ?e - ?o, s')"
      using ty off(3) True body(1) unfolding sfs_io_nolock_def so Let_def by (simp add: e del: of_nat_add)
    moreover have "length (read_bytes n s ?o alen) = ?e - ?o" by (simp add: read_bytes_map)
    ultimately show ?thesis using body(2) by (simp add: reads_def read_bytes_map)
  qed
qed

section \<open>Writing\<close>

definition owned :: "nat \<Rightarrow> kfs \<Rightarrow> nat set" where
  "owned n s = fblk n s ` {..<di_blocks (din_at n s)} \<union> (if di_indirect (din_at n s) = 0 then {} else {di_indirect (din_at n s)})"

text \<open>
  Nothing changes but the contents of the inode \<open>n\<close> and blocks that are its own or were free.
\<close>

definition same_sin :: "sfs_inode \<Rightarrow> sfs_inode \<Rightarrow> bool" where
  "same_sin i j \<longleftrightarrow> sin_ino j = sin_ino i \<and> reclaim_count j = reclaim_count i \<and> sin_sem j = sin_sem i"

definition untouched :: "nat \<Rightarrow> nat \<Rightarrow> kfs \<Rightarrow> kfs \<Rightarrow> bool" where
  "untouched f n s s' \<longleftrightarrow> frame f s s' \<and> same_sin (sin_at n s) (sin_at n s') \<and> (\<forall>m. m \<noteq> n \<longrightarrow> sin_at m s' = sin_at m s) \<and> free_blocks f s' \<subseteq> free_blocks f s \<and>
     owned n s' \<subseteq> owned n s \<union> free_blocks f s \<and> (\<forall>k. k \<notin> owned n s \<and> k \<notin> free_blocks f s \<longrightarrow> blocks s' k = blocks s k)"

definition file_step :: "nat \<Rightarrow> nat \<Rightarrow> kfs \<Rightarrow> kfs \<Rightarrow> bool" where
  "file_step f n s s' \<longleftrightarrow> untouched f n s s' \<and> di_blocks (din_at n s) \<le> di_blocks (din_at n s') \<and>
     di_size (din_at n s') = di_size (din_at n s) \<and> di_type (din_at n s') = di_type (din_at n s)"

lemma untouched_trans: "untouched f n s s1 \<Longrightarrow> untouched f n s1 s2 \<Longrightarrow> untouched f n s s2"
proof -
  assume u: "untouched f n s s1" "untouched f n s1 s2"
  note U = u(1) [unfolded untouched_def] and V = u(2) [unfolded untouched_def]
  have "blocks s2 k = blocks s k" if "k \<notin> owned n s" "k \<notin> free_blocks f s" for k
  proof -
    have "k \<notin> owned n s1" "k \<notin> free_blocks f s1" using U that by blast+
    then show ?thesis using U V that by metis
  qed
  moreover have "owned n s2 \<subseteq> owned n s \<union> free_blocks f s" "free_blocks f s2 \<subseteq> free_blocks f s" using U V by blast+
  moreover have "frame f s s2" using frame_trans U V by blast
  moreover have "\<forall>m. m \<noteq> n \<longrightarrow> sin_at m s2 = sin_at m s" using U V by metis
  moreover have "same_sin (sin_at n s) (sin_at n s2)" using U V unfolding same_sin_def by metis
  ultimately show ?thesis unfolding untouched_def by blast
qed

lemma file_step_trans: "file_step f n s s1 \<Longrightarrow> file_step f n s1 s2 \<Longrightarrow> file_step f n s s2"
  unfolding file_step_def using untouched_trans by fastforce

lemma grown_step:
  assumes ok: "fs_ok f s" and fok: "file_ok f n s" and g: "grown f n b s s'"
  shows "file_step f n s s'" "di_blocks (din_at n s') = di_blocks (din_at n s) + 1" "fblk n s' (di_blocks (din_at n s)) = b"
    "\<And>i. i < 4096 * di_blocks (din_at n s) \<Longrightarrow> fbyte n s' i = fbyte n s i"
    "\<And>i. 4096 * di_blocks (din_at n s) \<le> i \<Longrightarrow> i < 4096 * di_blocks (din_at n s) + 4096 \<Longrightarrow> fbyte n s' i = 0"
proof -
  let ?i = "di_blocks (din_at n s)" and ?old = "di_indirect (din_at n s)" and ?new = "di_indirect (din_at n s')"
  note F = file_okD [OF fok]
  note G = g [unfolded grown_def Let_def]
  obtain dir dt where D: "sin_at n s' = (sin_at n s)\<lparr>din := (din_at n s)\<lparr>di_blocks := ?i + 1, di_direct := dir, di_indirect := ?new\<rparr>, dirty := dt\<rparr>"
    using G by blast
  show blk: "di_blocks (din_at n s') = ?i + 1" using arg_cong [OF D, of "\<lambda>x. di_blocks (din x)"] by simp
  have other: "di_size (din_at n s') = di_size (din_at n s)" "di_type (din_at n s') = di_type (din_at n s)"
    using arg_cong [OF D, of "\<lambda>x. di_size (din x)"] arg_cong [OF D, of "\<lambda>x. di_type (din x)"] by simp_all
  show b: "fblk n s' ?i = b" using G by blast
  have same: "fblk n s' j = fblk n s j" if "j < ?i" for j using G F(5) that by (cases "j < SFS_NDIRECT") auto
  have keep: "blocks s' (fblk n s j) = blocks s (fblk n s j)" if "j < ?i" for j
  proof -
    have "fblk n s j \<notin> free_blocks f s" using F(3) [OF that] by (simp add: used_def)
    moreover have "fblk n s j \<noteq> ?old"
      using F(3) [OF that] F(7) that by (cases "?old = 0") (simp add: used_def, metis imageI lessThan_iff)
    ultimately show ?thesis using G by blast
  qed
  show "fbyte n s' i = fbyte n s i" if "i < 4096 * ?i" for i
  proof -
    have "i div 4096 < ?i" using that by (simp add: div_less_iff_less_mult mult.commute)
    then show ?thesis using same keep by (simp add: fbyte_def)
  qed
  show "fbyte n s' i = 0" if "4096 * ?i \<le> i" "i < 4096 * ?i + 4096" for i
  proof -
    have "i div 4096 = ?i" by (rule div_nat_eqI) (use that in simp_all)
    moreover have "blocks s' b = replicate 4096 0" using G by blast
    ultimately show ?thesis using b by (simp add: fbyte_def)
  qed
  have new: "?new \<in> free_blocks f s \<or> ?new = ?old" "b \<in> free_blocks f s" using G by (auto split: if_splits)
  have "owned n s' \<subseteq> owned n s \<union> free_blocks f s"
  proof
    fix k assume "k \<in> owned n s'"
    then consider j where "j < ?i + 1" "k = fblk n s' j" | "k = ?new" "?new \<noteq> 0"
      unfolding owned_def blk by (auto split: if_splits)
    then show "k \<in> owned n s \<union> free_blocks f s"
    proof cases
      case 1
      then show ?thesis using same [of j] new(2) b by (cases "j = ?i") (auto simp: owned_def)
    next
      case 2
      then show ?thesis using new(1) by (auto simp: owned_def)
    qed
  qed
  moreover have "blocks s' k = blocks s k" if "k \<notin> owned n s" "k \<notin> free_blocks f s" for k
  proof -
    have "?old = 0 \<or> k \<noteq> ?old" using that(1) by (auto simp: owned_def)
    then show ?thesis using G that(2) by blast
  qed
  moreover have "same_sin (sin_at n s) (sin_at n s')" unfolding same_sin_def by (subst (1 2 3) D) simp
  ultimately show "file_step f n s s'" using G blk other unfolding file_step_def untouched_def by simp
qed

text \<open>The bytes of the blocks of the file; a block that is not there yet will be full of zeros.\<close>

definition fbytes :: "nat \<Rightarrow> kfs \<Rightarrow> nat \<Rightarrow> 8 word" where
  "fbytes n s i = (if i < 4096 * di_blocks (din_at n s) then fbyte n s i else 0)"

lemma same_step:
  assumes "disk_step f (blocks s) s s'"
  shows "file_step f n s s'" "fbytes n s' = fbytes n s"
proof -
  note d = disk_stepD [OF assms] and b = same_blocks(1,2) [OF assms]
  show "file_step f n s s'" by (auto simp: file_step_def untouched_def frame_disk_step [OF assms] d owned_def b same_sin_def)
  show "fbytes n s' = fbytes n s" by (simp add: fbytes_def fun_eq_iff d b)
qed

text \<open>How many blocks the file still needs to have \<open>e\<close> bytes.\<close>

definition nblk :: "nat \<Rightarrow> nat" where "nblk e = (e + 4095) div 4096"

lemma nblk_gt:
  assumes "i * 4096 < e"
  shows "i + 1 \<le> nblk e"
proof -
  have "(i + 1) * 4096 div 4096 \<le> nblk e" unfolding nblk_def by (rule div_le_mono) (use assms in simp)
  then show ?thesis by simp
qed

definition missing :: "nat \<Rightarrow> kfs \<Rightarrow> nat \<Rightarrow> nat" where
  "missing n s e = (nblk e - di_blocks (din_at n s)) + (if di_indirect (din_at n s) = 0 \<and> SFS_NDIRECT < nblk e then 1 else 0)"

definition writable_to :: "nat \<Rightarrow> nat \<Rightarrow> nat \<Rightarrow> nat \<Rightarrow> kfs \<Rightarrow> bool" where
  "writable_to f n a e s \<longleftrightarrow> fs_ok f s \<and> file_ok f n s \<and> a \<le> 4096 * di_blocks (din_at n s) \<and> e \<le> 4096 * MAX_BLOCKS \<and>
     missing n s e \<le> card (free_blocks f s)"

lemma grown_missing:
  assumes ok: "fs_ok f s" and fok: "file_ok f n s" and g: "grown f n b s s'" and e: "4096 * di_blocks (din_at n s) < e" and m: "missing n s e \<le> card (free_blocks f s)"
  shows "missing n s' e \<le> card (free_blocks f s')"
proof -
  let ?i = "di_blocks (din_at n s)" and ?old = "di_indirect (din_at n s)" and ?new = "di_indirect (din_at n s')"
  note G = g [unfolded grown_def Let_def]
  obtain dir dt where D: "sin_at n s' = (sin_at n s)\<lparr>din := (din_at n s)\<lparr>di_blocks := ?i + 1, di_direct := dir, di_indirect := ?new\<rparr>, dirty := dt\<rparr>"
    using G by blast
  have blk: "di_blocks (din_at n s') = ?i + 1" using arg_cong [OF D, of "\<lambda>x. di_blocks (din x)"] by simp
  have nb: "?i + 1 \<le> nblk e" using nblk_gt [of ?i e] e by (simp add: mult.commute)
  have fin: "finite (free_blocks f s)" by (rule free_finite [OF ok])
  have b: "b \<in> free_blocks f s" "b \<noteq> ?new" "free_blocks f s' = free_blocks f s - {b, ?new}"
    using G by - (elim conjE, assumption)+
  show ?thesis
  proof (cases "?old = 0 \<and> SFS_NDIRECT \<le> ?i")
    case True
    then have new: "?new \<in> free_blocks f s" using G by simp
    then have "?new \<noteq> 0" using free_small [OF ok] by blast
    moreover have "card (free_blocks f s') = card (free_blocks f s) - 2"
      unfolding b(3) using b(1,2) new fin by (subst card_Diff_subset) simp_all
    ultimately show ?thesis using m nb True by (simp add: missing_def blk)
  next
    case False
    then have new: "?new = ?old" using G by simp
    have "?new \<notin> free_blocks f s"
      using file_okD(6) [OF fok] free_small [OF ok, of 0] new by (cases "?old = 0") (auto simp: used_def)
    then have "free_blocks f s' = free_blocks f s - {b}" using b(3) by blast
    then have "card (free_blocks f s') = card (free_blocks f s) - 1" using b(1) fin by simp
    then show ?thesis using m nb new by (simp add: missing_def blk)
  qed
qed

lemma load_any:
  assumes P: "writable_to f n a e s" and i: "i * 4096 \<le> a" "i * 4096 < e"
  shows "\<exists>s1. sfs_bmap_load_nolock f n i s = Some (0, fblk n s1 i, s1) \<and> file_step f n s s1 \<and> i < di_blocks (din_at n s1) \<and>
    (\<forall>j. fbytes n s1 j = fbytes n s j) \<and> writable_to f n a e s1"
proof -
  have ok: "fs_ok f s" and fok: "file_ok f n s" and m: "missing n s e \<le> card (free_blocks f s)" and e: "e \<le> 4096 * MAX_BLOCKS"
    and a: "a \<le> 4096 * di_blocks (din_at n s)"
    using P by (simp_all add: writable_to_def)
  show ?thesis
  proof (cases "i < di_blocks (din_at n s)")
    case True
    obtain s1 where s1: "sfs_bmap_load_nolock f n i s = Some (0, fblk n s i, s1)" "disk_step f (blocks s) s s1"
      using bmap_load_existing [OF ok fok True] by blast
    note d = disk_stepD [OF s1(2)] and b = same_blocks [OF s1(2)]
    have "writable_to f n a e s1" using P b(5) [OF ok] by (simp add: writable_to_def missing_def d b(4))
    then show ?thesis using s1(1) same_step [OF s1(2)] True by (auto simp: b(1) d)
  next
    case False
    then have ieq: "i = di_blocks (din_at n s)" using i(1) a by simp
    have imax: "i < MAX_BLOCKS" using i(2) e by simp
    have "i + 1 \<le> nblk e" using nblk_gt [OF i(2)] .
    then have room: "(if di_indirect (din_at n s) = 0 \<and> SFS_NDIRECT \<le> i then 2 else 1) \<le> card (free_blocks f s)"
      using m ieq by (auto simp: missing_def split: if_splits)
    obtain b s1 where s1: "sfs_bmap_load_nolock f n i s = Some (0, b, s1)" "fs_ok f s1" "grown f n b s s1"
      using bmap_load_create [OF ok fok ieq imax room] by blast
    note G = grown_step [OF ok fok s1(3)]
    have gt: "4096 * di_blocks (din_at n s) < e" using i(2) ieq by simp
    have "writable_to f n a e s1"
      using s1(2) grown_file_ok [OF ok fok s1(3)] imax ieq a e grown_missing [OF ok fok s1(3) gt m] G(2) by (simp add: writable_to_def)
    moreover have "fbytes n s1 j = fbytes n s j" for j using G(2,4,5) by (auto simp: fbytes_def)
    ultimately show ?thesis using s1(1) G(1-3) ieq by auto
  qed
qed

text \<open>One block of the file is written.\<close>

lemma block_written:
  assumes ok: "fs_ok f s" and fok: "file_ok f n s" and i: "i < di_blocks (din_at n s)" and len: "length bs = 4096"
    and st: "disk_step f ((blocks s)(fblk n s i := bs)) s s'"
  shows "fs_ok f s'" "file_ok f n s'" "file_step f n s s'" "sins (devs s') = sins (devs s)" "freemap (sfs_at f s') = freemap (sfs_at f s)"
    "\<And>j. j < 4096 * di_blocks (din_at n s) \<Longrightarrow> fbyte n s' j = (if j div 4096 = i then bs ! (j mod 4096) else fbyte n s j)"
proof -
  note d = disk_stepD [OF st] and F = file_okD [OF fok]
  have ready: "fs_ready f s" using ok by (simp add: fs_ok_def)
  show "fs_ok f s'" using ok disk_step_ready [OF st ready] by (simp add: fs_ok_def d)
  show sin: "sins (devs s') = sins (devs s)" "freemap (sfs_at f s') = freemap (sfs_at f s)" by (simp_all add: d)
  have ind: "di_indirect (din_at n s) = 0 \<or> di_indirect (din_at n s) \<noteq> fblk n s i" using F(7) i by auto
  have nz: "fblk n s i \<noteq> 0" using F(3) [OF i] by (simp add: used_def)
  have b: "fblk n s' = fblk n s" using ind nz by (auto simp: fblk_def d fun_eq_iff)
  have u: "used f s' = used f s" by (simp add: used_def d fun_eq_iff)
  show "file_ok f n s'" using fok by (simp add: file_ok_def d b u)
  have own: "fblk n s i \<in> owned n s" using i by (auto simp: owned_def)
  then show "file_step f n s s'"
    by (auto simp: file_step_def untouched_def frame_disk_step [OF st] d owned_def b same_sin_def)
  show "fbyte n s' j = (if j div 4096 = i then bs ! (j mod 4096) else fbyte n s j)" if "j < 4096 * di_blocks (din_at n s)" for j
  proof -
    have "j div 4096 < di_blocks (din_at n s)" using that by (simp add: div_less_iff_less_mult mult.commute)
    then have "fblk n s (j div 4096) = fblk n s i \<longleftrightarrow> j div 4096 = i" using F(4) i by (auto simp: inj_on_def)
    then show ?thesis by (simp add: fbyte_def b d)
  qed
qed

definition writes :: "nat \<Rightarrow> nat \<Rightarrow> nat \<Rightarrow> nat \<Rightarrow> nat \<Rightarrow> 8 word list \<Rightarrow> 8 word list \<Rightarrow> kfs \<Rightarrow> kfs \<Rightarrow> bool" where
  "writes f n pos a b mem mem' s s' \<longleftrightarrow> mem' = mem \<and> file_step f n s s' \<and> b \<le> 4096 * di_blocks (din_at n s') \<and>
     (\<forall>i<4096 * di_blocks (din_at n s'). fbyte n s' i = (if a \<le> i \<and> i < b then mem ! (pos + (i - a)) else fbytes n s i))"

lemma in_block: "j div 4096 = i \<and> off \<le> j mod 4096 \<and> j mod 4096 < off + sz \<longleftrightarrow> i * 4096 + off \<le> j \<and> j < i * 4096 + off + sz"
  if "off + sz \<le> 4096" for i j :: nat
proof
  assume h: "i * 4096 + off \<le> j \<and> j < i * 4096 + off + sz"
  then have "j div 4096 = i" using that by (intro div_nat_eqI) simp_all
  moreover have "j div 4096 * 4096 + j mod 4096 = j" by simp
  ultimately show "j div 4096 = i \<and> off \<le> j mod 4096 \<and> j mod 4096 < off + sz" using h by auto
next
  assume h: "j div 4096 = i \<and> off \<le> j mod 4096 \<and> j mod 4096 < off + sz"
  moreover have "j div 4096 * 4096 + j mod 4096 = j" by simp
  ultimately show "i * 4096 + off \<le> j \<and> j < i * 4096 + off + sz" by auto
qed

lemma nth_splice:
  assumes "off + length d \<le> length blk" "k < length blk"
  shows "splice off d blk ! k = (if off \<le> k \<and> k < off + length d then d ! (k - off) else blk ! k)"
  using assms by (auto simp: splice_def nth_append min_def)

text \<open>A part of a block is written: the block is loaded, or made, and spliced.\<close>

lemma write_part:
  assumes P: "writable_to f n (i * 4096 + off) e s" and sz: "0 < sz" "off + sz \<le> 4096" "i * 4096 + off + sz \<le> e" and fit: "pos + sz \<le> length mem"
    and load: "sfs_bmap_load_nolock f n i s = Some (0, fblk n s1 i, s1)" "file_step f n s s1" "i < di_blocks (din_at n s1)"
      "\<forall>j. fbytes n s1 j = fbytes n s j" "writable_to f n (i * 4096 + off) e s1"
    and st: "disk_step f ((blocks s1)(fblk n s1 i := splice off (take sz (drop pos mem)) (blocks s1 (fblk n s1 i)))) s1 s2"
  shows "writes f n pos (i * 4096 + off) (i * 4096 + off + sz) mem mem s s2" "writable_to f n (i * 4096 + off + sz) e s2"
proof -
  let ?d = "take sz (drop pos mem)"
  have ok: "fs_ok f s1" and fok: "file_ok f n s1" using load(5) by (simp_all add: writable_to_def)
  have ld: "length ?d = sz" using fit by simp
  have lb: "length (blocks s1 (fblk n s1 i)) = 4096" by (simp add: sfs_sizes)
  have len: "length (splice off ?d (blocks s1 (fblk n s1 i))) = 4096" using length_splice [of off ?d] ld lb sz(2) by simp
  note w = block_written [OF ok fok load(3) len st]
  have bl: "di_blocks (din_at n s2) = di_blocks (din_at n s1)" using w(4) by simp
  have "(i + 1) * 4096 \<le> 4096 * di_blocks (din_at n s1)" using load(3) mult_le_mono1 [of "i + 1" _ 4096] by (simp add: mult.commute)
  then have b: "i * 4096 + off + sz \<le> 4096 * di_blocks (din_at n s2)" using sz(2) bl by simp
  have "fbyte n s2 j = (if i * 4096 + off \<le> j \<and> j < i * 4096 + off + sz then mem ! (pos + (j - (i * 4096 + off))) else fbytes n s j)"
    if "j < 4096 * di_blocks (din_at n s2)" for j
  proof -
    have j1: "j < 4096 * di_blocks (din_at n s1)" using that bl by simp
    have old: "fbyte n s1 j = fbytes n s j" using load(4) j1 by (metis fbytes_def)
    have byte: "fbyte n s2 j = (if j div 4096 = i then splice off ?d (blocks s1 (fblk n s1 i)) ! (j mod 4096) else fbyte n s1 j)"
      using w(6) [OF j1] .
    have spl: "splice off ?d (blocks s1 (fblk n s1 i)) ! (j mod 4096) =
      (if off \<le> j mod 4096 \<and> j mod 4096 < off + sz then ?d ! (j mod 4096 - off) else blocks s1 (fblk n s1 i) ! (j mod 4096))"
      using nth_splice [of off ?d "blocks s1 (fblk n s1 i)" "j mod 4096"] ld lb sz(2) by simp
    show ?thesis
    proof (cases "i * 4096 + off \<le> j \<and> j < i * 4096 + off + sz")
      case True
      then have d: "j div 4096 = i" "off \<le> j mod 4096" "j mod 4096 < off + sz" using in_block [OF sz(2)] by auto
      have "j mod 4096 - off = j - (i * 4096 + off)" using d(1,2) div_mult_mod_eq [of j 4096] by linarith
      moreover have "?d ! (j mod 4096 - off) = mem ! (pos + (j mod 4096 - off))" using d fit by simp
      ultimately show ?thesis unfolding byte spl using d True by simp
    next
      case False
      then have nd: "\<not> (j div 4096 = i \<and> off \<le> j mod 4096 \<and> j mod 4096 < off + sz)" using in_block [OF sz(2)] by blast
      have "fbyte n s2 j = fbyte n s1 j" unfolding byte spl using nd by (auto simp: fbyte_def)
      then show ?thesis unfolding if_not_P [OF False] using old by simp
    qed
  qed
  then show "writes f n pos (i * 4096 + off) (i * 4096 + off + sz) mem mem s s2"
    using file_step_trans [OF load(2) w(3)] b unfolding writes_def by blast
  have "missing n s2 e = missing n s1 e" by (simp add: missing_def w(4))
  then show "writable_to f n (i * 4096 + off + sz) e s2" using load(5) w(1,2,5) b by (simp add: writable_to_def)
qed

lemma loaded_block:
  assumes "writable_to f n a e s" "i < di_blocks (din_at n s)"
  shows "fs_ready f s" "0 < fblk n s i" "fblk n s i < sb_blocks (super (sfs_at f s))"
  using assms file_okD(3) [of f n s i] usedD by (auto simp: writable_to_def fs_ok_def)

interpretation writing: io_transfer True f n "writable_to f n" "writes f n" for f n
proof unfold_locales
  fix i off e s sz pos and mem :: "8 word list"
  assume P: "writable_to f n (i * 4096 + off) e s" and sz: "0 < sz" "off + sz \<le> 4096" "i * 4096 + off + sz \<le> e"
    and fit: "pos + sz \<le> length mem"
  have ie: "i * 4096 \<le> i * 4096 + off" "i * 4096 < e" using sz by simp_all
  obtain s1 where s1: "sfs_bmap_load_nolock f n i s = Some (0, fblk n s1 i, s1)" "file_step f n s s1" "i < di_blocks (din_at n s1)"
    "\<forall>j. fbytes n s1 j = fbytes n s j" "writable_to f n (i * 4096 + off) e s1" using load_any [OF P ie] by blast
  have off: "off < 4096" "off + length (take sz (drop pos mem)) \<le> 4096" using sz by simp_all
  obtain s2 where s2: "sfs_wbuf f (take sz (drop pos mem)) (fblk n s1 i) off s1 = Some (0, s2)"
    "disk_step f ((blocks s1)(fblk n s1 i := splice off (take sz (drop pos mem)) (blocks s1 (fblk n s1 i)))) s1 s2"
    using sfs_wbuf_facts [OF loaded_block [OF s1(5,3)] off] by blast
  have "io_part True f n mem pos sz i off s = Some (0, mem, s2)" using s1(1) s2(1) by (simp add: io_part_def sfs_buf_op_def)
  then show "\<exists>mem' s'. io_part True f n mem pos sz i off s = Some (0, mem', s') \<and>
      writes f n pos (i * 4096 + off) (i * 4096 + off + sz) mem mem' s s' \<and> writable_to f n (i * 4096 + off + sz) e s' \<and> length mem' = length mem"
    using write_part [OF P sz fit s1 s2(2)] by blast
next
  fix i e s pos and mem :: "8 word list"
  assume P: "writable_to f n (i * 4096) e s" and e: "i * 4096 + 4096 \<le> e" and fit: "pos + 4096 \<le> length mem"
  have ie: "i * 4096 \<le> i * 4096" "i * 4096 < e" using e by simp_all
  obtain s1 where s1: "sfs_bmap_load_nolock f n i s = Some (0, fblk n s1 i, s1)" "file_step f n s s1" "i < di_blocks (din_at n s1)"
    "\<forall>j. fbytes n s1 j = fbytes n s j" "writable_to f n (i * 4096) e s1" using load_any [OF P ie] by blast
  let ?d = "take 4096 (drop pos mem)"
  have len: "length ?d = 4096" using fit by simp
  obtain s2 where s2: "sfs_wblock f ?d (fblk n s1 i) 1 s1 = Some (0, s2)" "disk_step f ((blocks s1)(fblk n s1 i := ?d)) s1 s2"
    using sfs_wblock_facts [OF loaded_block [OF s1(5,3)] len] by blast
  have "splice 0 ?d (blocks s1 (fblk n s1 i)) = ?d" using len by (simp add: splice_def sfs_sizes)
  then have st: "disk_step f ((blocks s1)(fblk n s1 i := splice 0 ?d (blocks s1 (fblk n s1 i)))) s1 s2" using s2(2) by simp
  have w: "writes f n pos (i * 4096) (i * 4096 + 4096) mem mem s s2" "writable_to f n (i * 4096 + 4096) e s2"
    using write_part [where off = 0 and sz = 4096, OF _ _ _ _ _ s1(1-4) _ st] P e fit s1(5) by simp_all
  have "sfs_block_op True f mem pos (fblk n s1 i) s1 = Some (0, mem, s2)" using s2(1) by (simp add: sfs_block_op_def sfs_sizes)
  then show "\<exists>ino s1 mem' s'. sfs_bmap_load_nolock f n i s = Some (0, ino, s1) \<and> sfs_block_op True f mem pos ino s1 = Some (0, mem', s') \<and>
      writes f n pos (i * 4096) (i * 4096 + 4096) mem mem' s s' \<and> writable_to f n (i * 4096 + 4096) e s' \<and> length mem' = length mem"
    using s1(1) w by blast
next
  show "writes f n pos a a mem mem s s" if "writable_to f n a e s" for pos a e mem s
    using that by (auto simp: writes_def writable_to_def fbytes_def file_step_def untouched_def same_sin_def)
next
  fix pos a b mem and m1 :: "8 word list" and s s1 c m2 s2
  assume w: "writes f n pos a b mem m1 s s1" "writes f n (pos + (b - a)) b c m1 m2 s1 s2" and le: "a \<le> b" "b \<le> c"
  have m: "m1 = mem" "m2 = mem" and fs: "file_step f n s s1" "file_step f n s1 s2" and b1: "b \<le> 4096 * di_blocks (din_at n s1)"
    and c2: "c \<le> 4096 * di_blocks (din_at n s2)" using w by (auto simp: writes_def)
  have "fbyte n s2 i = (if a \<le> i \<and> i < c then mem ! (pos + (i - a)) else fbytes n s i)" if i: "i < 4096 * di_blocks (din_at n s2)" for i
  proof -
    have i2: "fbyte n s2 i = (if b \<le> i \<and> i < c then mem ! (pos + (b - a) + (i - b)) else fbytes n s1 i)"
      using w(2) i by (simp add: writes_def m)
    have i1: "i < 4096 * di_blocks (din_at n s1) \<Longrightarrow> fbytes n s1 i = (if a \<le> i \<and> i < b then mem ! (pos + (i - a)) else fbytes n s i)"
      using w(1) by (simp add: writes_def fbytes_def)
    have mono: "di_blocks (din_at n s) \<le> di_blocks (din_at n s1)" using fs(1) by (simp add: file_step_def)
    have i0: "fbytes n s1 i = 0" "fbytes n s i = 0" "\<not> i < b" if "\<not> i < 4096 * di_blocks (din_at n s1)"
      using that b1 mono by (auto simp: fbytes_def)
    show ?thesis
    proof (cases "b \<le> i \<and> i < c")
      case True
      then have "pos + (b - a) + (i - b) = pos + (i - a)" using le by simp
      then show ?thesis unfolding i2 using True le by simp
    next
      case False
      then show ?thesis unfolding i2 using le i0 i1 by (cases "i < 4096 * di_blocks (din_at n s1)") auto
    qed
  qed
  then show "writes f n pos a c mem m2 s s2" using file_step_trans [OF fs] c2 m unfolding writes_def by blast
qed

text \<open>The size of a file fits its blocks.\<close>

definition size_ok :: "nat \<Rightarrow> kfs \<Rightarrow> bool" where "size_ok n s \<longleftrightarrow> di_size (din_at n s) \<le> 4096 * di_blocks (din_at n s)"

lemma file_ok_upd:
  assumes "\<And>x. di_direct (din (g x)) = di_direct (din x)" "\<And>x. di_indirect (din (g x)) = di_indirect (din x)" "\<And>x. di_blocks (din (g x)) = di_blocks (din x)"
  shows "fblk n (upd_sin n g s) = fblk n s" "fbyte n (upd_sin n g s) = fbyte n s" "file_ok f n (upd_sin n g s) = file_ok f n s"
    "owned n (upd_sin n g s) = owned n s" "(\<And>x. same_sin x (g x)) \<Longrightarrow> untouched f n s0 (upd_sin n g s) = untouched f n s0 s"
proof -
  show b: "fblk n (upd_sin n g s) = fblk n s" by (simp add: fblk_def fun_eq_iff assms)
  show "fbyte n (upd_sin n g s) = fbyte n s" by (simp add: fbyte_def fun_eq_iff b)
  show "file_ok f n (upd_sin n g s) = file_ok f n s" by (simp add: file_ok_def Let_def b assms)
  show o: "owned n (upd_sin n g s) = owned n s" by (simp add: owned_def b assms)
  show "untouched f n s0 (upd_sin n g s) = untouched f n s0 s" if "\<And>x. same_sin x (g x)"
    using that [of "sin_at n s"] by (simp add: untouched_def o same_sin_def cong: conj_cong)
qed

lemma sfs_io_nolock_write:
  assumes ok: "fs_ok f s" and fok: "file_ok f n s" and sz: "size_ok n s" and ty: "di_type (din_at n s) \<noteq> SFS_TYPE_DIR"
    and off: "unat off = o'" "o' \<le> di_size (din_at n s)" and e: "o' + alen \<le> 4096 * MAX_BLOCKS" "missing n s (o' + alen) \<le> card (free_blocks f s)"
    and len: "base + alen \<le> length mem"
  shows "\<exists>s'. sfs_io_nolock f n mem base off alen True s = Some (0, mem, alen, s') \<and>
    content n s' = splice o' (take alen (drop base mem)) (content n s) \<and> untouched f n s s' \<and> fs_ok f s' \<and> file_ok f n s' \<and> size_ok n s' \<and>
    di_type (din_at n s') = di_type (din_at n s)"
proof (cases "alen = 0")
  case True
  have "o' < SFS_MAX_FILE_SIZE" using e(1) True by (simp add: MAX_BLOCKS_def SFS_MAX_FILE_SIZE_def)
  moreover have "o' + 0 < 2 ^ 63" using e(1) by (simp add: MAX_BLOCKS_def)
  note so = sint_offset [OF off(1) this]
  ultimately have "sfs_io_nolock f n mem base off alen True s = Some (0, mem, alen, s)"
    using True so ty by (simp add: sfs_io_nolock_def)
  moreover have "untouched f n s s" by (simp add: untouched_def same_sin_def)
  ultimately show ?thesis using True ok fok sz by (intro exI [of _ s]) simp
next
  case False
  let ?e = "o' + alen" and ?z = "di_size (din_at n s)"
  have lim: "?e \<le> SFS_MAX_FILE_SIZE" "?e < 2 ^ 32" "?e < 2 ^ 63" using e(1) by (simp_all add: MAX_BLOCKS_def SFS_MAX_FILE_SIZE_def)
  note so = sint_offset [OF off(1) lim(3)]
  have P: "writable_to f n o' ?e s" using ok fok e sz off(2) by (simp add: writable_to_def size_ok_def)
  have fit: "base + (?e - o') \<le> length mem" "o' < ?e" using len False by simp_all
  obtain mem' s1 where body: "io_body True f n mem base o' ?e s = Some (0, mem', ?e - o', s1)" "writes f n base o' ?e mem mem' s s1" "writable_to f n ?e ?e s1"
    using writing.body_transfer [OF P fit(2,1)] by blast
  have mm: "mem' = mem" and st: "file_step f n s s1" using body(2) by (simp_all add: writes_def)
  have z1: "di_size (din_at n s1) = ?z" "di_type (din_at n s1) = di_type (din_at n s)" using st by (simp_all add: file_step_def)
  let ?s2 = "io_out n o' alen s1"
  have run: "sfs_io_nolock f n mem base off alen True s = Some (0, mem, alen, ?s2)"
  proof -
    have e: "nat (min (int ?e) (int SFS_MAX_FILE_SIZE)) = ?e" using lim(1) by (simp add: min_def del: of_nat_add)
    show ?thesis using ty lim(1) fit(2) body(1) mm unfolding sfs_io_nolock_def so Let_def by (simp add: e del: of_nat_add)
  qed
  have io: "?s2 = (if ?e > ?z then upd_sin n (\<lambda>x. x\<lparr>din := (din x)\<lparr>di_size := ?e\<rparr>, dirty := True\<rparr>) s1 else s1)"
    using lim(2) z1 by (simp add: io_out_def upd_din_sin)
  have byte: "fbyte n ?s2 = fbyte n s1" and ok2: "fs_ok f ?s2" "file_ok f n ?s2" and un: "untouched f n s ?s2"
    and bl: "di_blocks (din_at n ?s2) = di_blocks (din_at n s1)" and ty2: "di_type (din_at n ?s2) = di_type (din_at n s)"
    using body(3) st z1(2) by (auto simp: io file_ok_upd writable_to_def file_step_def same_sin_def)
  have z2: "di_size (din_at n ?s2) = max ?z ?e" using z1 by (auto simp: io)
  have zb: "max ?z ?e \<le> 4096 * di_blocks (din_at n s1)" using body(2) sz st by (auto simp: writes_def size_ok_def file_step_def)
  have "content n ?s2 = splice o' (take alen (drop base mem)) (content n s)"
  proof (rule nth_equalityI)
    show len2: "length (content n ?s2) = length (splice o' (take alen (drop base mem)) (content n s))"
      using off(2) len by (simp add: content_def z2 splice_def max_def)
    fix i assume "i < length (content n ?s2)"
    then have i: "i < max ?z ?e" by (simp add: content_def z2)
    have "content n ?s2 ! i = fbyte n s1 i" using i by (simp add: content_def z2 byte)
    also have "\<dots> = (if o' \<le> i \<and> i < ?e then mem ! (base + (i - o')) else fbytes n s i)"
      using body(2) less_le_trans [OF i zb] unfolding writes_def by blast
    also have "\<dots> = splice o' (take alen (drop base mem)) (content n s) ! i"
      using i off(2) len sz by (auto simp: splice_def nth_append content_def fbytes_def size_ok_def max_def split: if_splits)
    finally show "content n ?s2 ! i = splice o' (take alen (drop base mem)) (content n s) ! i" .
  qed
  moreover have "size_ok n ?s2" using zb by (simp add: size_ok_def z2 bl)
  ultimately show ?thesis using run un ok2 ty2 by blast
qed

section \<open>The operations of a file\<close>

definition file_inv :: "nat \<Rightarrow> nat \<Rightarrow> kfs \<Rightarrow> bool" where
  "file_inv f n s \<longleftrightarrow> fs_ok f s \<and> file_ok f n s \<and> size_ok n s \<and> di_type (din_at n s) = SFS_TYPE_FILE \<and>
     in_fs (inodes s n) = Some f \<and> in_type (inodes s n) = sfs_inode_info \<and> 0 < sin_sem (sin_at n s)"

text \<open>The lock of the inode: nothing that the transfer looks at depends on it.\<close>

definition sin_locked :: "nat \<Rightarrow> kfs \<Rightarrow> kfs" where "sin_locked n = upd_sin n (\<lambda>x. x\<lparr>sin_sem := sin_sem x - 1\<rparr>)"

lemma lock_sin_inv: "file_inv f n s \<Longrightarrow> lock_sin n s = Some (sin_locked n s)"
  by (simp add: file_inv_def lock_sin_def sin_locked_def)

lemma sin_locked_simps:
  "fs_ok f (sin_locked n s) = fs_ok f s" "file_ok f n (sin_locked n s) = file_ok f n s" "size_ok n (sin_locked n s) = size_ok n s"
  "din_at n (sin_locked n s) = din_at n s" "content n (sin_locked n s) = content n s" "missing n (sin_locked n s) = missing n s"
  "free_blocks f (sin_locked n s) = free_blocks f s" "blocks (sin_locked n s) = blocks s"
  by (simp_all add: sin_locked_def file_ok_upd size_ok_def content_def missing_def fun_eq_iff)

lemma unlock_sin_simps:
  "fs_ok f (unlock_sin n s) = fs_ok f s" "file_ok f n (unlock_sin n s) = file_ok f n s" "size_ok n (unlock_sin n s) = size_ok n s"
  "din_at n (unlock_sin n s) = din_at n s" "content n (unlock_sin n s) = content n s"
  "blocks (unlock_sin n s) = blocks s" "inodes (unlock_sin n s) = inodes s"
  by (simp_all add: unlock_sin_def file_ok_upd size_ok_def content_def)

lemma frame_sin_locked [simp]: "frame f (sin_locked n s) s' = frame f s s'"
  by (simp add: frame_def sin_locked_def upd_sin_def upd_devs_def)

lemma untouched_unlock:
  assumes "untouched f n (sin_locked n s) s'"
  shows "untouched f n s (unlock_sin n s')"
proof -
  have "owned n (sin_locked n s) = owned n s" "owned n (unlock_sin n s') = owned n s'" by (simp_all add: sin_locked_def unlock_sin_def file_ok_upd)
  then show ?thesis using assms
    by (simp add: untouched_def sin_locked_simps unlock_sin_simps same_sin_def) (simp add: sin_locked_def unlock_sin_def)
qed

lemma read_bytes_locked: "read_bytes n (sin_locked n s) = read_bytes n s"
  by (simp add: read_bytes_def fun_eq_iff sin_locked_simps)

text \<open>The buffer after \<open>k\<close> bytes of it have been used.\<close>

definition advanced :: "iobuf \<Rightarrow> nat \<Rightarrow> iobuf" where
  "advanced iob k = iob\<lparr>io_base := io_base iob + k, io_offset := io_offset iob + of_nat k, io_resid := io_resid iob - k\<rparr>"

lemma skip_advanced: "k \<le> io_resid iob \<Longrightarrow> (if k \<noteq> 0 then iobuf_skip iob k else Some iob) = Some (advanced iob k)"
  by (simp add: iobuf_skip_def advanced_def)

definition io_fits :: "iobuf \<Rightarrow> bool" where "io_fits iob \<longleftrightarrow> io_base iob + io_resid iob \<le> length (io_mem iob)"

lemma sfs_write_facts:
  assumes inv: "file_inv f n s" and fits: "io_fits iob" and off: "unat (io_offset iob) = o'" "o' \<le> length (content n s)"
    and room: "o' + io_resid iob \<le> 4096 * MAX_BLOCKS" "missing n s (o' + io_resid iob) \<le> card (free_blocks f s)"
  shows "\<exists>s'. sfs_write n iob s = Some (0, advanced iob (io_resid iob), s') \<and>
    content n s' = splice o' (take (io_resid iob) (drop (io_base iob) (io_mem iob))) (content n s) \<and> untouched f n s s' \<and> file_inv f n s'"
proof -
  let ?l = "sin_locked n s"
  have I: "fs_ok f s" "file_ok f n s" "size_ok n s" "di_type (din_at n s) = SFS_TYPE_FILE" "in_fs (inodes s n) = Some f"
    "in_type (inodes s n) = sfs_inode_info" using inv by (simp_all add: file_inv_def)
  have pre: "fs_ok f ?l" "file_ok f n ?l" "size_ok n ?l" "di_type (din_at n ?l) \<noteq> SFS_TYPE_DIR" "o' \<le> di_size (din_at n ?l)"
    "missing n ?l (o' + io_resid iob) \<le> card (free_blocks f ?l)" "io_base iob + io_resid iob \<le> length (io_mem iob)"
    using I(1-4) off(2) room(2) fits by (simp_all add: sin_locked_simps content_def io_fits_def SFS_TYPE_FILE_def SFS_TYPE_DIR_def)
  obtain s1 where s1: "sfs_io_nolock f n (io_mem iob) (io_base iob) (io_offset iob) (io_resid iob) True ?l = Some (0, io_mem iob, io_resid iob, s1)"
    "content n s1 = splice o' (take (io_resid iob) (drop (io_base iob) (io_mem iob))) (content n ?l)" "untouched f n ?l s1" "fs_ok f s1"
    "file_ok f n s1" "size_ok n s1" "di_type (din_at n s1) = di_type (din_at n ?l)"
    using sfs_io_nolock_write [OF pre(1-4) off(1) pre(5) room(1) pre(6,7)] by blast
  have "sfs_write n iob s = Some (0, advanced iob (io_resid iob), unlock_sin n s1)"
    using I(5,6) s1(1) skip_advanced [of "io_resid iob" iob]
    by (simp add: sfs_write_def sfs_io_def fs_of_def sin_of_def lock_sin_inv [OF inv])
  moreover have "file_inv f n (unlock_sin n s1)"
    using inv s1(3-7) by (simp add: file_inv_def unlock_sin_simps sin_locked_simps untouched_def frame_def same_sin_def)
      (simp add: unlock_sin_def sin_locked_def)
  ultimately show ?thesis
    using s1(2) untouched_unlock [OF s1(3)] by (intro exI [of _ "unlock_sin n s1"]) (simp add: unlock_sin_simps sin_locked_simps)
qed

lemma sfs_read_facts:
  assumes inv: "file_inv f n s" and fits: "io_fits iob" and off: "unat (io_offset iob) = o'" "o' < SFS_MAX_FILE_SIZE"
    "o' + io_resid iob < 2 ^ 63"
  shows "\<exists>s'. sfs_read n iob s =
    Some (0, advanced (iob\<lparr>io_mem := splice (io_base iob) (read_bytes n s o' (io_resid iob)) (io_mem iob)\<rparr>) (length (read_bytes n s o' (io_resid iob))), s') \<and>
    content n s' = content n s \<and> untouched f n s s' \<and> blocks s' = blocks s \<and> file_inv f n s'"
proof -
  let ?l = "sin_locked n s" and ?bs = "read_bytes n s o' (io_resid iob)"
  have I: "fs_ok f s" "file_ok f n s" "size_ok n s" "di_type (din_at n s) = SFS_TYPE_FILE" "in_fs (inodes s n) = Some f"
    "in_type (inodes s n) = sfs_inode_info" using inv by (simp_all add: file_inv_def)
  have pre: "fs_ok f ?l" "file_ok f n ?l" "di_type (din_at n ?l) \<noteq> SFS_TYPE_DIR" "di_size (din_at n ?l) \<le> 4096 * di_blocks (din_at n ?l)"
    "io_base iob + io_resid iob \<le> length (io_mem iob)"
    using I(1-4) fits by (simp_all add: sin_locked_simps io_fits_def size_ok_def SFS_TYPE_FILE_def SFS_TYPE_DIR_def)
  obtain s1 where s1: "sfs_io_nolock f n (io_mem iob) (io_base iob) (io_offset iob) (io_resid iob) False ?l =
      Some (0, splice (io_base iob) ?bs (io_mem iob), length ?bs, s1)" "disk_step f (blocks ?l) ?l s1"
    using sfs_io_nolock_read [OF pre(1-4) off(1,3,2) pre(5)] unfolding read_bytes_locked by blast
  note d = disk_stepD [OF s1(2)] and b = same_blocks [OF s1(2)]
  have le: "length ?bs \<le> io_resid iob" by (simp add: read_bytes_def)
  let ?io = "iob\<lparr>io_mem := splice (io_base iob) ?bs (io_mem iob)\<rparr>"
  have "(if length ?bs \<noteq> 0 then iobuf_skip ?io (length ?bs) else Some ?io) = Some (advanced ?io (length ?bs))"
    by (rule skip_advanced) (simp add: le)
  then have "sfs_read n iob s = Some (0, advanced ?io (length ?bs), unlock_sin n s1)"
    using I(5,6) s1(1) by (simp add: sfs_read_def sfs_io_def fs_of_def sin_of_def lock_sin_inv [OF inv])
  moreover have "content n s1 = content n s" using b(2) d(1) by (simp add: content_def sin_locked_def file_ok_upd)
  moreover have "untouched f n ?l s1" using same_step(1) [OF s1(2)] by (simp add: file_step_def)
  moreover have "file_inv f n (unlock_sin n s1)"
    using inv b(4,5) d(1,4) by (simp add: file_inv_def unlock_sin_simps sin_locked_simps size_ok_def)
      (simp add: unlock_sin_def sin_locked_def)
  moreover have "blocks s1 = blocks s" using d(5) by (simp add: sin_locked_simps)
  ultimately show ?thesis using untouched_unlock by (intro exI [of _ "unlock_sin n s1"]) (simp add: unlock_sin_simps)
qed

section \<open>An example\<close>

text \<open>A disk of eight blocks, of which the last four are free, and an empty file.\<close>

definition demo_map :: bitmap where "demo_map = \<lparr>nbits = 32, nwords = 1, words = [0xF0]\<rparr>"

definition demo_devices :: sdevs where
  "demo_devices =
     \<lparr>ide_devices = (\<lambda>_. \<lparr>ide_valid = True, ide_size = 64, ide_data = (\<lambda>_. 0)\<rparr>),
      device_at = (\<lambda>_. \<lparr>d_blocks = 8, d_blocksize = 4096, d_ops = Disk0Ops\<rparr>), disk0_buffer = replicate 16384 0, disk0_sem = 1,
      stdin = \<lparr>stdin_buffer = replicate 4096 0, p_rpos = 0, p_wpos = 0\<rparr>, console = [],
      sfss = (\<lambda>_. \<lparr>super = \<lparr>sb_magic = SFS_MAGIC, sb_blocks = 8, unused_blocks = 4, sb_info = replicate 32 0\<rparr>, sfs_dev = 0,
                  freemap = demo_map, super_dirty = False, sfs_buffer = replicate 4096 0,
                  fs_sem = 1, io_sem = 1, mutex_sem = 1, inode_list = [0], hash_list = (\<lambda>_. [])\<rparr>),
      sins = (\<lambda>_. \<lparr>din = \<lparr>di_size = 0, di_type = SFS_TYPE_FILE, di_nlinks = 1, di_blocks = 0, di_direct = replicate 12 0, di_indirect = 0\<rparr>,
                  sin_ino = 3, dirty = False, reclaim_count = 1, sin_sem = 1\<rparr>), fs_pool = []\<rparr>"

definition demo_sfs :: kfs where
  "demo_sfs =
     \<lparr>um = demo_vm, inodes = (\<lambda>_. \<lparr>in_type = sfs_inode_info, ref_count = 1, open_count = 1, in_fs = Some 0, in_ops = Some SFS_NODE_FILEOPS\<rparr>),
      inode_pool = [], filess = (\<lambda>_. \<lparr>pwd = None, fd_array = [], files_count = 0, files_sem = 1\<rparr>), files_pool = [],
      bootfs_node = None, bootfs_sem = 1, vdev_list = [], vdev_list_sem = 1, kmem = [], cur_filesp = None, cur_mm = None, cur_pgdir = 0,
      cur_pid = None, devs = demo_devices\<rparr>"

definition demo_iobuf :: iobuf where "demo_iobuf = iobuf_init [1, 2, 3] 3 0"

lemma demo_free: "free_bits demo_map = {4, 5, 6, 7}"
proof -
  have "free_bits demo_map = set (filter (\<lambda>i. bit (0xF0 :: 32 word) i) [0..<32])"
    by (auto simp: free_bits_def demo_map_def)
  also have "\<dots> = {4, 5, 6, 7}" by (simp add: upt_rec numeral_eq_Suc insert_commute)
  finally show ?thesis .
qed

lemma demo_map_ok: "bitmap_ok demo_map" "nbits demo_map = 32"
  unfolding bitmap_ok_def demo_free by (simp_all add: demo_map_def)

lemma demo_file_inv: "file_inv 0 0 demo_sfs"
proof -
  have "fs_ok 0 demo_sfs"
    by (simp add: fs_ok_def fs_ready_def io_ready_def disk_ready_def bufs_ok_def ide_device_valid_def demo_map_ok demo_sfs_def
        demo_devices_def demo_free disk_consts SFS_BLKSIZE_def DISK0_DEV_NO_def MAX_IDE_def)
  moreover have "file_ok 0 0 demo_sfs"
    by (simp add: file_ok_def fblk_def demo_sfs_def demo_devices_def SFS_NDIRECT_def MAX_BLOCKS_def)
  ultimately show ?thesis by (simp add: file_inv_def size_ok_def demo_sfs_def demo_devices_def)
qed

section \<open>Properties\<close>

text \<open>
  C32: A write to a file that begins inside the file or at its end, while the disk has the blocks it needs, returns
  0 with the whole buffer used up.  The contents of the file are then its old contents with the bytes of the
  buffer in place of those from the offset on, longer where they go past the old end; the file and the free map are
  well formed, and no inode, no block of another file and no block of the file system itself is changed.
\<close>

theorem sfs_write_correct:
  assumes "file_inv f n s" "io_fits iob" "unat (io_offset iob) = o'" "o' \<le> length (content n s)"
    and "o' + io_resid iob \<le> 4096 * MAX_BLOCKS" "missing n s (o' + io_resid iob) \<le> card (free_blocks f s)"
  shows "\<exists>s'. sfs_write n iob s = Some (0, advanced iob (io_resid iob), s') \<and>
    content n s' = splice o' (take (io_resid iob) (drop (io_base iob) (io_mem iob))) (content n s) \<and> untouched f n s s' \<and> file_inv f n s'"
  using sfs_write_facts [OF assms] .

lemma demo_fits:
  "io_fits demo_iobuf" "unat (io_offset demo_iobuf) = 0" "io_resid demo_iobuf = 3" "0 + 3 \<le> 4096 * MAX_BLOCKS"
  "missing 0 demo_sfs (0 + 3) \<le> card (free_blocks 0 demo_sfs)"
  by (simp_all add: io_fits_def demo_iobuf_def iobuf_init_def MAX_BLOCKS_def missing_def nblk_def SFS_NDIRECT_def)
    (simp add: demo_sfs_def demo_devices_def demo_free)

lemma sfs_write_correct_witness:
  "\<exists>s'. sfs_write 0 demo_iobuf demo_sfs = Some (0, advanced demo_iobuf 3, s') \<and> content 0 s' = [1, 2, 3] \<and> file_inv 0 0 s'"
proof -
  have c: "content 0 demo_sfs = []" by (simp add: content_def demo_sfs_def demo_devices_def)
  have l: "0 \<le> length (content 0 demo_sfs)" by simp
  note D = demo_fits(4,5) [folded demo_fits(3)]
  have d: "take 3 (drop (io_base demo_iobuf) (io_mem demo_iobuf)) = [1, 2, 3]" by (simp add: demo_iobuf_def iobuf_init_def)
  show ?thesis
    using sfs_write_correct [OF demo_file_inv demo_fits(1,2) l D] unfolding c demo_fits(3) d by (auto simp: splice_def)
qed

text \<open>
  C33: What has been written to a file is read back: after a write of a buffer, a read of as many bytes from the
  same offset returns 0 and finds exactly the bytes written, with nothing left to read, and leaves the contents of
  the file and all blocks of the disk as they are.
\<close>

theorem sfs_write_read_roundtrip:
  assumes "file_inv f n s" "io_fits iob" "unat (io_offset iob) = o'" "o' \<le> length (content n s)"
    and "o' + io_resid iob \<le> 4096 * MAX_BLOCKS" "missing n s (o' + io_resid iob) \<le> card (free_blocks f s)"
    and "io_fits rd" "io_offset rd = io_offset iob" "io_resid rd = io_resid iob"
  shows "\<exists>s1 s2 rd'. sfs_write n iob s = Some (0, advanced iob (io_resid iob), s1) \<and> sfs_read n rd s1 = Some (0, rd', s2) \<and>
    take (io_resid rd) (drop (io_base rd) (io_mem rd')) = take (io_resid iob) (drop (io_base iob) (io_mem iob)) \<and> io_resid rd' = 0 \<and>
    content n s2 = content n s1 \<and> blocks s2 = blocks s1"
proof -
  let ?k = "io_resid iob" and ?d = "take (io_resid iob) (drop (io_base iob) (io_mem iob))"
  obtain s1 where s1: "sfs_write n iob s = Some (0, advanced iob ?k, s1)" "content n s1 = splice o' ?d (content n s)" "file_inv f n s1"
    using sfs_write_facts [OF assms(1-6)] by blast
  have lim: "o' + ?k \<le> SFS_MAX_FILE_SIZE" "o' < SFS_MAX_FILE_SIZE" "o' + ?k < 2 ^ 63"
    using assms(4,5) s1(3) by (simp_all add: MAX_BLOCKS_def SFS_MAX_FILE_SIZE_def)
  have ld: "length ?d = ?k" using assms(2) by (simp add: io_fits_def)
  have rb: "read_bytes n s1 o' ?k = ?d"
  proof -
    have d: "drop o' (splice o' ?d (content n s)) = ?d @ drop (o' + ?k) (content n s)" using assms(4) ld by (simp add: splice_def)
    have "take ?k (take (SFS_MAX_FILE_SIZE - o') (?d @ r)) = ?d" for r using lim(1) ld by (simp add: min_absorb1)
    then show ?thesis unfolding read_bytes_def s1(2) drop_take d .
  qed
  have off: "unat (io_offset rd) = o'" "o' + io_resid rd < 2 ^ 63" using assms(3,8,9) lim(3) by simp_all
  let ?rd = "advanced (rd\<lparr>io_mem := splice (io_base rd) ?d (io_mem rd)\<rparr>) ?k"
  obtain s2 where s2: "sfs_read n rd s1 = Some (0, ?rd, s2)" "content n s2 = content n s1" "blocks s2 = blocks s1"
    using sfs_read_facts [OF s1(3) assms(7) off(1) lim(2) off(2)] unfolding assms(9) rb ld by blast
  have "take (io_resid rd) (drop (io_base rd) (io_mem ?rd)) = ?d" "io_resid ?rd = 0"
    using assms(7,9) ld by (simp_all add: advanced_def splice_def io_fits_def)
  then show ?thesis using s1(1) s2 by blast
qed

lemma sfs_write_read_roundtrip_witness:
  "\<exists>s1 s2 rd'. sfs_write 0 demo_iobuf demo_sfs = Some (0, advanced demo_iobuf 3, s1) \<and> sfs_read 0 (iobuf_init [0, 0, 0] 3 0) s1 = Some (0, rd', s2) \<and>
    take 3 (io_mem rd') = [1, 2, 3]"
proof -
  have l: "0 \<le> length (content 0 demo_sfs)" by simp
  note D = demo_fits(4,5) [folded demo_fits(3)]
  have rd: "io_fits (iobuf_init [0, 0, 0] 3 0)" "io_offset (iobuf_init [0, 0, 0] 3 0) = io_offset demo_iobuf"
    "io_resid (iobuf_init [0, 0, 0] 3 0) = io_resid demo_iobuf"
    by (simp_all add: io_fits_def demo_iobuf_def iobuf_init_def)
  have e: "io_base (iobuf_init [0, 0, 0] 3 0) = 0" "take 3 (drop (io_base demo_iobuf) (io_mem demo_iobuf)) = [1, 2, 3]"
    by (simp_all add: demo_iobuf_def iobuf_init_def)
  show ?thesis
    using sfs_write_read_roundtrip [OF demo_file_inv demo_fits(1,2) l D rd] unfolding rd(3) demo_fits(3) e drop_0 by blast
qed

end
