(* ===== verification/SfsDir.thy ===== *)
theory SfsDir
  imports SfsFile
begin

text \<open>
  Two contracts of the simple file system above its transfers: the allocation and release of blocks as
  operations on the set of free blocks, and the search of a directory as a search in the list of its
  entries.
\<close>

section \<open>Blocks\<close>

lemma fs_ok_super:
  assumes "fs_ok f s" and "sfs_at f t = (sfs_at f s)\<lparr>freemap := fm, super := (super (sfs_at f s))\<lparr>unused_blocks := u\<rparr>, super_dirty := True\<rparr>"
    and "fs_ready f t" and "bitmap_ok fm" and "nbits fm = nbits (freemap (sfs_at f s))"
    and "free_bits fm \<subseteq> {0<..<sb_blocks (super (sfs_at f s))}" and "u = card (free_bits fm)"
  shows "fs_ok f t"
  using assms unfolding fs_ok_def by simp

lemma sfs_block_free_facts:
  assumes ok: "fs_ok f s" and small: "sb_blocks (super (sfs_at f s)) < 2 ^ 32"
  shows "if used f s k
    then \<exists>s'. sfs_block_free f k s = Some s' \<and> free_blocks f s' = insert k (free_blocks f s) \<and> fs_ok f s' \<and>
      blocks s' = blocks s \<and> sins (devs s') = sins (devs s) \<and> frame f s s'
    else sfs_block_free f k s = None"
proof (cases "used f s k")
  case True
  let ?x = "sfs_at f s"
  have k: "0 < k" "k < sb_blocks (super ?x)" "k \<notin> free_blocks f s" using True by (simp_all add: used_def)
  have bok: "bitmap_ok (freemap ?x)" and kn: "k < nbits (freemap ?x)" using ok k(2) by (auto simp: fs_ok_def)
  obtain fm where fm: "bitmap_free (freemap ?x) k = Some fm" "free_bits fm = insert k (free_blocks f s)" "bitmap_ok fm"
    "nbits fm = nbits (freemap ?x)" using bitmap_free_facts [OF bok kn] k(3) by auto
  have fin: "finite (free_blocks f s)" by (rule free_finite [OF ok])
  have sub: "insert k (free_blocks f s) \<subseteq> {0<..<sb_blocks (super ?x)}" using ok k by (auto simp: fs_ok_def)
  then have "card (insert k (free_blocks f s)) \<le> card {0<..<sb_blocks (super ?x)}" by (intro card_mono) simp_all
  then have "card (insert k (free_blocks f s)) < 2 ^ 32" using small by simp
  then have cnt: "u32 (unused_blocks (super ?x) + 1) = card (free_bits fm)"
    using ok k(3) fin by (simp add: fs_ok_def fm(2))
  let ?t = "upd_sfs f (\<lambda>x. x\<lparr>freemap := fm, super := (super x)\<lparr>unused_blocks := u32 (unused_blocks (super x) + 1)\<rparr>, super_dirty := True\<rparr>) s"
  have x: "sfs_at f ?t = ?x\<lparr>freemap := fm, super := (super ?x)\<lparr>unused_blocks := u32 (unused_blocks (super ?x) + 1)\<rparr>, super_dirty := True\<rparr>"
    "blocks ?t = blocks s" "sins (devs ?t) = sins (devs s)" "frame f s ?t"
    by (simp_all add: upd_sfs_def upd_devs_def frame_def)
  have "fs_ready f ?t" using ok
    by (simp add: fs_ok_def fs_ready_def io_ready_def disk_ready_def ide_device_valid_def bufs_ok_def upd_sfs_def upd_devs_def)
  then have "fs_ok f ?t" by (rule fs_ok_super [OF ok x(1)]) (use fm sub cnt in simp_all)
  moreover have "sfs_block_free f k s = Some ?t"
    using inuse_used(2) [OF ok True] fm(1) by (simp add: sfs_block_free_def)
  moreover have "free_blocks f ?t = insert k (free_blocks f s)" using fm(2) unfolding x(1) by simp
  ultimately show ?thesis using True x by (intro if_bool_eq_conj [THEN iffD2] conjI impI exI [of _ ?t]) simp_all
next
  case False
  have "assert_inuse f k s = None"
  proof (cases "k \<noteq> 0 \<and> k < sb_blocks (super (sfs_at f s))")
    case True
    then have "k \<in> free_blocks f s" using False by (simp add: used_def)
    moreover have "k < nbits (freemap (sfs_at f s))" "bitmap_ok (freemap (sfs_at f s))" using ok True by (auto simp: fs_ok_def)
    ultimately show ?thesis using True bitmap_test_facts [of "freemap (sfs_at f s)" k]
      by (simp add: assert_inuse_def sfs_block_inuse_def)
  qed (auto simp: assert_inuse_def sfs_block_inuse_def)
  then show ?thesis using False by (simp add: sfs_block_free_def)
qed

section \<open>Directories\<close>

definition dir_ok :: "nat \<Rightarrow> nat \<Rightarrow> kfs \<Rightarrow> bool" where
  "dir_ok f n s \<longleftrightarrow> fs_ok f s \<and> file_ok f n s \<and> di_type (din_at n s) = SFS_TYPE_DIR"

text \<open>The entry in a slot: the first bytes of the slot's block, the name cut off after 255 bytes.\<close>

definition slot_entry :: "nat \<Rightarrow> kfs \<Rightarrow> nat \<Rightarrow> sfs_disk_entry" where
  "slot_entry n s i =
     (let e = entry_of (take SIZEOF_ENTRY (blocks s (fblk n s i))) in e\<lparr>e_name := (e_name e)[SFS_MAX_FNAME_LEN := 0]\<rparr>)"

lemma dirent_read_facts:
  assumes dir: "dir_ok f n s" and i: "i < di_blocks (din_at n s)"
  shows "\<exists>s'. sfs_dirent_read_nolock f n i s = Some (0, slot_entry n s i, s') \<and> disk_step f (blocks s) s s'"
proof -
  have ok: "fs_ok f s" "file_ok f n s" "di_type (din_at n s) = SFS_TYPE_DIR" using dir by (simp_all add: dir_ok_def)
  obtain s1 where s1: "sfs_bmap_load_nolock f n i s = Some (0, fblk n s i, s1)" "disk_step f (blocks s) s s1"
    using bmap_load_existing [OF ok(1,2) i] by blast
  have u: "used f s (fblk n s i)" by (rule file_okD(3) [OF ok(2) i])
  have u1: "used f s1 (fblk n s i)" using u same_blocks(3) [OF s1(2)] by simp
  have ok1: "fs_ok f s1" by (rule same_blocks(5) [OF s1(2) ok(1)])
  have rd: "fs_ready f s1" using ok1 by (simp add: fs_ok_def)
  have k: "0 < fblk n s i" "fblk n s i < sb_blocks (super (sfs_at f s1))" using u1 by (simp_all add: used_def)
  have sz: "(0::nat) < 4096" "0 + SIZEOF_ENTRY \<le> 4096" by (simp_all add: SIZEOF_ENTRY_def)
  obtain s2 where s2: "sfs_rbuf f SIZEOF_ENTRY (fblk n s i) 0 s1 = Some (0, take SIZEOF_ENTRY (drop 0 (blocks s1 (fblk n s i))), s2)"
    "disk_step f (blocks s1) s1 s2" using sfs_rbuf_facts [OF rd k sz] by blast
  have b1: "blocks s1 = blocks s" using s1(2) by (simp add: disk_step_def)
  have "assert_inuse f (fblk n s i) s1 = Some ()" by (rule inuse_used(2) [OF ok1 u1])
  then have "sfs_dirent_read_nolock f n i s = Some (0, slot_entry n s i, s2)"
    using ok(3) i s1(1) s2(1) b1 by (simp add: sfs_dirent_read_nolock_def slot_entry_def Let_def)
  moreover have "disk_step f (blocks s) s s2" using s1(2) s2(2) b1 by (simp add: disk_step_def)
  ultimately show ?thesis by blast
qed

lemma slot_entry_step:
  assumes "disk_step f (blocks s) s s'"
  shows "slot_entry n s' = slot_entry n s" and "din_at n s' = din_at n s" and "dir_ok f n s \<Longrightarrow> dir_ok f n s'"
proof -
  note b = same_blocks [OF assms] and d = disk_stepD [OF assms]
  show "slot_entry n s' = slot_entry n s" using b(1) d(5) by (simp add: slot_entry_def fun_eq_iff)
  show "din_at n s' = din_at n s" using d(1) by simp
  then show "dir_ok f n s \<Longrightarrow> dir_ok f n s'" using b(4,5) by (simp add: dir_ok_def)
qed

text \<open>A slot that holds the name.\<close>

definition slot_named :: "8 word list \<Rightarrow> sfs_disk_entry \<Rightarrow> bool" where
  "slot_named name e \<longleftrightarrow> e_ino e \<noteq> 0 \<and> name = c_str (e_name e)"

lemma dirent_search_facts:
  assumes "dir_ok f n s" and "i + k = di_blocks (din_at n s)"
  shows "\<exists>es' s'. disk_step f (blocks s) s s' \<and> dirent_search f n name i k es s =
    (case List.find (\<lambda>j. slot_named name (slot_entry n s j)) [i ..< i + k] of
       None \<Rightarrow> Some (- E_NOENT, 0, 0, es', s') | Some j \<Rightarrow> Some (0, e_ino (slot_entry n s j), j, es', s'))"
  using assms
proof (induction k arbitrary: i es s)
  case 0
  have "disk_step f (blocks s) s s"
    using 0(1) by (intro disk_step_refl) (simp add: dir_ok_def fs_ok_def fs_ready_def io_ready_def)
  then show ?case by auto
next
  case (Suc k)
  obtain s1 where s1: "sfs_dirent_read_nolock f n i s = Some (0, slot_entry n s i, s1)" "disk_step f (blocks s) s s1"
    using dirent_read_facts [OF Suc.prems(1), of i] Suc.prems(2) by auto
  note st = slot_entry_step [OF s1(2)]
  have b1: "blocks s1 = blocks s" using s1(2) by (simp add: disk_step_def)
  have up: "[i ..< i + Suc k] = i # [i + 1 ..< i + 1 + k]" by (simp add: upt_conv_Cons)
  have IH: "\<exists>es' s'. disk_step f (blocks s1) s1 s' \<and> dirent_search f n name (i + 1) k es2 s1 =
    (case List.find (\<lambda>j. slot_named name (slot_entry n s1 j)) [i + 1 ..< i + 1 + k] of
       None \<Rightarrow> Some (- E_NOENT, 0, 0, es', s') | Some j \<Rightarrow> Some (0, e_ino (slot_entry n s1 j), j, es', s'))" for es2
    by (rule Suc.IH) (use st(2,3) Suc.prems in simp_all)
  have tr: "disk_step f (blocks s) s s'" if "disk_step f (blocks s1) s1 s'" for s'
    using that s1(2) b1 by (simp add: disk_step_def)
  show ?case
  proof (cases "slot_named name (slot_entry n s i)")
    case True
    then have "List.find (\<lambda>j. slot_named name (slot_entry n s j)) [i ..< i + Suc k] = Some i" unfolding up by simp
    moreover have "dirent_search f n name i (Suc k) es s = Some (0, e_ino (slot_entry n s i), i, es, s1)"
      using True s1(1) by (simp add: slot_named_def)
    ultimately show ?thesis using s1(2) by auto
  next
    case False
    then have run: "dirent_search f n name i (Suc k) es s =
        dirent_search f n name (i + 1) k (if e_ino (slot_entry n s i) = 0 then i else es) s1"
      using s1(1) by (auto simp: slot_named_def)
    have fd: "List.find (\<lambda>j. slot_named name (slot_entry n s j)) [i ..< i + Suc k] =
        List.find (\<lambda>j. slot_named name (slot_entry n s j)) [i + 1 ..< i + 1 + k]" using False unfolding up by simp
    obtain es' s' where r: "disk_step f (blocks s1) s1 s'"
      "dirent_search f n name (i + 1) k (if e_ino (slot_entry n s i) = 0 then i else es) s1 =
        (case List.find (\<lambda>j. slot_named name (slot_entry n s j)) [i + 1 ..< i + 1 + k] of
           None \<Rightarrow> Some (- E_NOENT, 0, 0, es', s') | Some j \<Rightarrow> Some (0, e_ino (slot_entry n s j), j, es', s'))"
      using IH unfolding st(1) by blast
    show ?thesis unfolding run fd by (intro exI conjI) (rule tr [OF r(1)], rule r(2))
  qed
qed


lemma kmem_frame:
  "dir_ok f n (s\<lparr>kmem := x\<rparr>) = dir_ok f n s" "slot_entry n (s\<lparr>kmem := x\<rparr>) = slot_entry n s"
proof -
  have b: "fblk n (s\<lparr>kmem := x\<rparr>) = fblk n s" by (simp add: fun_eq_iff fblk_def)
  show "slot_entry n (s\<lparr>kmem := x\<rparr>) = slot_entry n s" by (simp add: fun_eq_iff slot_entry_def b)
  have "used f (s\<lparr>kmem := x\<rparr>) = used f s" by (simp add: fun_eq_iff used_def)
  then show "dir_ok f n (s\<lparr>kmem := x\<rparr>) = dir_ok f n s"
    by (simp add: dir_ok_def fs_ok_def file_ok_def b fs_ready_def io_ready_def disk_ready_def ide_device_valid_def bufs_ok_def)
qed

lemma kmalloc_dir:
  assumes "fst (kmalloc_ok s)" and "dir_ok f n s"
  obtains s1 where "kmalloc_ok s = (True, s1)" "dir_ok f n s1" "slot_entry n s1 = slot_entry n s" "blocks s1 = blocks s"
    "din_at n s1 = din_at n s"
proof (cases "kmem s")
  case Nil
  then show ?thesis using that [of s] assms(2) by (simp add: kmalloc_ok_def)
next
  case (Cons b bs)
  then show ?thesis using that [of "s\<lparr>kmem := bs\<rparr>"] assms by (simp add: kmalloc_ok_def kmem_frame)
qed

section \<open>Properties\<close>

text \<open>
  C34: allocation and release keep the file system well formed: the free map, its count in the superblock
  and the range of the disk agree.  Allocation takes the least free block, cleared, out of the free set, or
  returns -E_NO_MEM without a change when there is none; release puts a used block back, and for a block that
  is not in use or not on the disk it stops the kernel.
\<close>

theorem sfs_blocks_well_formed:
  assumes "fs_ok f s" and "sb_blocks (super (sfs_at f s)) < 2 ^ 32"
  shows "(if free_blocks f s = {} then sfs_block_alloc f s = Some (- E_NO_MEM, 0, s)
    else \<exists>b s'. sfs_block_alloc f s = Some (0, b, s') \<and> b \<in> free_blocks f s \<and> (\<forall>j\<in>free_blocks f s. b \<le> j) \<and>
      fs_ok f s' \<and> free_blocks f s' = free_blocks f s - {b} \<and> blocks s' = (blocks s)(b := replicate 4096 0)) \<and>
    (if used f s k then \<exists>s'. sfs_block_free f k s = Some s' \<and> fs_ok f s' \<and> free_blocks f s' = insert k (free_blocks f s) \<and>
      blocks s' = blocks s
    else sfs_block_free f k s = None)"
proof
  show "if free_blocks f s = {} then sfs_block_alloc f s = Some (- E_NO_MEM, 0, s)
    else \<exists>b s'. sfs_block_alloc f s = Some (0, b, s') \<and> b \<in> free_blocks f s \<and> (\<forall>j\<in>free_blocks f s. b \<le> j) \<and>
      fs_ok f s' \<and> free_blocks f s' = free_blocks f s - {b} \<and> blocks s' = (blocks s)(b := replicate 4096 0)"
    using sfs_block_alloc_facts [OF assms(1)] by (cases "free_blocks f s = {}") auto
  show "if used f s k then \<exists>s'. sfs_block_free f k s = Some s' \<and> fs_ok f s' \<and> free_blocks f s' = insert k (free_blocks f s) \<and>
      blocks s' = blocks s
    else sfs_block_free f k s = None"
    using sfs_block_free_facts [OF assms, of k] by (cases "used f s k") auto
qed

text \<open>
  C35: the search of a directory is exact: it returns the inode number and the slot of the first entry in use
  with the name, or -E_NOENT when no slot has it, and the blocks of the disk stay as they are.
\<close>

theorem sfs_dirent_search_correct:
  assumes "dir_ok f n s" and "length name \<le> SFS_MAX_FNAME_LEN" and "fst (kmalloc_ok s)"
  shows "\<exists>es s'. blocks s' = blocks s \<and> sfs_dirent_search_nolock f n name s =
    (case List.find (\<lambda>j. slot_named (bytes_of name) (slot_entry n s j)) [0 ..< di_blocks (din_at n s)] of
       None \<Rightarrow> Some (- E_NOENT, 0, 0, es, s') | Some j \<Rightarrow> Some (0, e_ino (slot_entry n s j), j, es, s'))"
proof -
  obtain s1 where k: "kmalloc_ok s = (True, s1)" "dir_ok f n s1" "slot_entry n s1 = slot_entry n s" "blocks s1 = blocks s"
    "din_at n s1 = din_at n s" using kmalloc_dir [OF assms(3,1)] .
  have "di_blocks (din_at n s) < 2 ^ 31"
    using assms(1) file_okD(2) [of f n s] by (simp add: dir_ok_def MAX_BLOCKS_def)
  then have sl: "nslots n s1 = di_blocks (din_at n s)" by (simp add: nslots_def k(5))
  obtain es' s' where r: "disk_step f (blocks s) s1 s'"
    "dirent_search f n (bytes_of name) 0 (di_blocks (din_at n s)) (di_blocks (din_at n s)) s1 =
      (case List.find (\<lambda>j. slot_named (bytes_of name) (slot_entry n s j)) [0 ..< di_blocks (din_at n s)] of
       None \<Rightarrow> Some (- E_NOENT, 0, 0, es', s') | Some j \<Rightarrow> Some (0, e_ino (slot_entry n s j), j, es', s'))"
    using dirent_search_facts [OF k(2), of 0 "di_blocks (din_at n s)" "bytes_of name" "di_blocks (din_at n s)"]
    unfolding k(3-5) by auto
  moreover have "blocks s' = blocks s" using r(1) by (simp add: disk_step_def)
  ultimately show ?thesis using assms(2) k(1) sl by (auto simp: sfs_dirent_search_nolock_def)
qed


section \<open>Witnesses\<close>

lemma demo_free_blocks: "free_blocks 0 demo_sfs = {4, 5, 6, 7}"
  by (simp add: demo_sfs_def demo_devices_def demo_free)

theorem sfs_blocks_well_formed_witness:
  "(\<exists>s'. sfs_block_alloc 0 demo_sfs = Some (0, 4, s') \<and> fs_ok 0 s' \<and> free_blocks 0 s' = {5, 6, 7}) \<and>
   (\<exists>s'. sfs_block_free 0 3 demo_sfs = Some s' \<and> free_blocks 0 s' = {3, 4, 5, 6, 7}) \<and> sfs_block_free 0 5 demo_sfs = None"
proof -
  have ok: "fs_ok 0 demo_sfs" using demo_file_inv by (simp add: file_inv_def)
  have sm: "sb_blocks (super (sfs_at 0 demo_sfs)) < 2 ^ 32" by (simp add: demo_sfs_def demo_devices_def)
  have u: "used 0 demo_sfs 3" "\<not> used 0 demo_sfs 5"
    unfolding used_def demo_free_blocks by (simp_all add: demo_sfs_def demo_devices_def)
  have four: "b = 4" if "b \<in> {4, 5, 6, 7 :: nat}" "\<forall>j\<in>{4, 5, 6, 7}. b \<le> j" for b using that by auto
  have "{4, 5, 6, 7} - {4} = {5, 6, 7 :: nat}" by auto
  then show ?thesis
    using sfs_blocks_well_formed [OF ok sm, of 3] sfs_blocks_well_formed [OF ok sm, of 5] u four
    unfolding demo_free_blocks by auto
qed

text \<open>A directory of one slot, in block 3, with the name \<open>a\<close> for the inode 5.\<close>

definition demo_dir :: kfs where
  "demo_dir = demo_sfs\<lparr>devs := demo_devices\<lparr>
     ide_devices := (\<lambda>_. \<lparr>ide_valid = True, ide_size = 64,
       ide_data = (\<lambda>a. if a = 3 * 4096 then 5 else if a = 3 * 4096 + 4 then 97 else 0)\<rparr>),
     sins := (\<lambda>_. \<lparr>din = \<lparr>di_size = 0, di_type = SFS_TYPE_DIR, di_nlinks = 1, di_blocks = 1, di_direct = 3 # replicate 11 0,
                di_indirect = 0\<rparr>, sin_ino = 2, dirty = False, reclaim_count = 1, sin_sem = 1\<rparr>)\<rparr>\<rparr>"

lemma demo_dir_ok: "dir_ok 0 0 demo_dir"
proof -
  have "fs_ok 0 demo_dir"
    by (simp add: fs_ok_def fs_ready_def io_ready_def disk_ready_def bufs_ok_def ide_device_valid_def demo_map_ok demo_dir_def
        demo_sfs_def demo_devices_def demo_free disk_consts SFS_BLKSIZE_def DISK0_DEV_NO_def MAX_IDE_def)
  moreover have "used 0 demo_dir 3" by (simp add: used_def demo_dir_def demo_devices_def demo_free)
  then have "file_ok 0 0 demo_dir"
    by (simp add: file_ok_def fblk_def demo_dir_def SFS_NDIRECT_def MAX_BLOCKS_def lessThan_Suc nth_Cons split: nat.splits)
  ultimately show ?thesis by (simp add: dir_ok_def demo_dir_def)
qed

lemma demo_slot: "e_ino (slot_entry 0 demo_dir 0) = 5" "c_str (e_name (slot_entry 0 demo_dir 0)) = [97]"
proof -
  let ?g = "\<lambda>a. if a = 12288 then 5 else if a = 12292 then 97 else (0 :: 8 word)"
  obtain M N where MN: "M = (16384 :: nat)" "N = (12548 :: nat)" by simp
  have k: "fblk 0 demo_dir 0 = 3" by (simp add: fblk_def demo_dir_def SFS_NDIRECT_def)
  have r: "3 * DISK0_BLKSIZE + DISK0_BLKSIZE = M" "3 * DISK0_BLKSIZE = 12288" by (simp_all add: DISK0_BLKSIZE_def MN)
  have g: "disk_bytes (devs demo_dir) = ?g" by (simp add: disk_bytes_def demo_dir_def fun_eq_iff)
  have b: "blocks demo_dir (fblk 0 demo_dir 0) = List.map ?g [12288 ..< M]" unfolding k dblock_def r(1) unfolding r(2) g ..
  have "12288 + SIZEOF_ENTRY = N" "N \<le> M" by (simp_all add: SIZEOF_ENTRY_def MN)
  then have t: "take SIZEOF_ENTRY (blocks demo_dir (fblk 0 demo_dir 0)) = List.map ?g [12288 ..< N]"
    unfolding b by (simp add: take_map take_upt)
  have N: "12292 < N" "12293 < N" "12294 \<le> N" "12288 + 4 \<le> N" "N - 12292 = 256" by (simp_all add: MN)
  have "take 4 [12288 ..< N] = [12288 ..< 12292]" using take_upt [OF N(4)] by simp
  then have "le_field 0 4 (List.map ?g [12288 ..< N]) = 5" by (simp add: le_field_def take_map)
  then show "e_ino (slot_entry 0 demo_dir 0) = 5" by (simp add: slot_entry_def Let_def entry_of_def t)
  have "drop 4 [12288 ..< N] = 12292 # 12293 # [12294 ..< N]" using N(1,2) by (simp add: upt_conv_Cons)
  moreover have "take 256 [12292 ..< N] = [12292 ..< N]" using N(5) by (simp add: take_all)
  ultimately have "take 256 (drop 4 (List.map ?g [12288 ..< N])) = 97 # 0 # List.map ?g [12294 ..< N]"
    using N(1,2) by (simp add: drop_map take_map upt_conv_Cons)
  then show "c_str (e_name (slot_entry 0 demo_dir 0)) = [97]"
    by (simp add: slot_entry_def Let_def entry_of_def t c_str_def SFS_MAX_FNAME_LEN_def)
qed

theorem sfs_dirent_search_correct_witness:
  "\<exists>es s'. sfs_dirent_search_nolock 0 0 ''a'' demo_dir = Some (0, 5, 0, es, s')"
proof -
  have k: "fst (kmalloc_ok demo_dir)" by (simp add: kmalloc_ok_def demo_dir_def demo_sfs_def)
  have l: "length ''a'' \<le> SFS_MAX_FNAME_LEN" by (simp add: SFS_MAX_FNAME_LEN_def)
  have n: "di_blocks (din_at 0 demo_dir) = 1" by (simp add: demo_dir_def)
  have "slot_named (bytes_of ''a'') (slot_entry 0 demo_dir 0)" by (simp add: slot_named_def demo_slot bytes_of_def)
  then show ?thesis using sfs_dirent_search_correct [OF demo_dir_ok l k] unfolding n by (auto simp: demo_slot)
qed

end
