(* ===== verification/Console.thy ===== *)
theory Console
  imports Printfmt
begin

text \<open>
  The console: the driver's input ring and output (\<^verbatim>\<open>kern/driver/console.c\<close>), the character and line
  routines (\<^verbatim>\<open>kern/libs/stdio.c\<close>, \<^verbatim>\<open>readline.c\<close>) and the command interpreter of the kernel monitor
  (\<^verbatim>\<open>kern/debug/kmonitor.c\<close>).  The firmware behind \<^verbatim>\<open>sbi_console_getchar\<close> is the list of what it is
  going to deliver, \<open>-1\<close> when that is used up; what \<^verbatim>\<open>sbi_console_putchar\<close> is given is collected.
\<close>

section \<open>console.c\<close>

definition CONSBUFSIZE :: nat where "CONSBUFSIZE = 512"

record cons_state =
  cons_buf :: "nat \<Rightarrow> 8 word"
  cons_rpos :: nat
  cons_wpos :: nat
  serial_in :: "int list"
  serial_out :: out

definition sbi_console_getchar :: "cons_state \<Rightarrow> int \<times> cons_state" where
  "sbi_console_getchar s = (case serial_in s of [] \<Rightarrow> (-1, s) | c # cs \<Rightarrow> (c, s\<lparr>serial_in := cs\<rparr>))"

definition sbi_console_putchar :: "8 word \<Rightarrow> cons_state \<Rightarrow> cons_state" where
  "sbi_console_putchar c s = s\<lparr>serial_out := serial_out s @ [c]\<rparr>"

definition serial_proc_data :: "cons_state \<Rightarrow> int \<times> cons_state" where
  "serial_proc_data s =
     (case sbi_console_getchar s of (c, s1) \<Rightarrow> if c < 0 then (-1, s1) else if c = 127 then (8, s1) else (c, s1))"

definition cons_store :: "int \<Rightarrow> cons_state \<Rightarrow> cons_state" where
  "cons_store c s =
     (let s1 = s\<lparr>cons_buf := (cons_buf s)(cons_wpos s := of_int c), cons_wpos := cons_wpos s + 1\<rparr>
      in if cons_wpos s1 = CONSBUFSIZE then s1\<lparr>cons_wpos := 0\<rparr> else s1)"

lemma serial_proc_data_less: "serial_proc_data s = (c, s1) \<Longrightarrow> c \<noteq> -1 \<Longrightarrow> length (serial_in s1) < length (serial_in s)"
  by (auto simp: serial_proc_data_def sbi_console_getchar_def split: list.splits if_splits)

lemma serial_in_cons_store [simp]: "serial_in (cons_store c s) = serial_in s"
  by (simp add: cons_store_def Let_def)

text \<open>\<^verbatim>\<open>cons_intr(serial_proc_data)\<close>, the only use of \<^verbatim>\<open>cons_intr\<close>.\<close>

function cons_intr :: "cons_state \<Rightarrow> cons_state" where
  "cons_intr s =
     (case serial_proc_data s of (c, s1) \<Rightarrow>
        if c = -1 then s1 else cons_intr (if c \<noteq> 0 then cons_store c s1 else s1))"
  by auto
termination
proof (relation "measure (\<lambda>s. length (serial_in s))", rule wf_measure)
  fix s c s1
  assume "(c, s1) = serial_proc_data s" and "c \<noteq> -1"
  then have "length (serial_in s1) < length (serial_in s)" by (intro serial_proc_data_less) simp_all
  then show "(if c \<noteq> 0 then cons_store c s1 else s1, s) \<in> measure (\<lambda>s. length (serial_in s))" by simp
qed

declare cons_intr.simps [simp del]

definition serial_intr :: "cons_state \<Rightarrow> cons_state" where "serial_intr s = cons_intr s"
definition kbd_intr :: "cons_state \<Rightarrow> cons_state" where "kbd_intr s = serial_intr s"

definition serial_putc :: "8 word \<Rightarrow> cons_state \<Rightarrow> cons_state" where
  "serial_putc c s =
     (if c \<noteq> 8 then sbi_console_putchar c s
      else sbi_console_putchar 8 (sbi_console_putchar (ascii CHR '' '') (sbi_console_putchar 8 s)))"

definition cons_init :: "cons_state \<Rightarrow> cons_state" where "cons_init s = snd (sbi_console_getchar s)"
definition cons_putc :: "8 word \<Rightarrow> cons_state \<Rightarrow> cons_state" where "cons_putc c s = serial_putc c s"

definition cons_getc :: "cons_state \<Rightarrow> int \<times> cons_state" where
  "cons_getc s =
     (let s1 = serial_intr s in
      if cons_rpos s1 \<noteq> cons_wpos s1
      then (let c = uint (cons_buf s1 (cons_rpos s1));
                s2 = s1\<lparr>cons_rpos := cons_rpos s1 + 1\<rparr>
            in (c, if cons_rpos s2 = CONSBUFSIZE then s2\<lparr>cons_rpos := 0\<rparr> else s2))
      else (0, s1))"

section \<open>stdio.c and readline.c\<close>

definition vcprintf :: "cmem \<Rightarrow> string \<Rightarrow> 64 word list \<Rightarrow> cons_state \<Rightarrow> (int \<times> cons_state) option" where
  "vcprintf m fmt args s = do { o1 \<leftarrow> vprintfmt m fmt args; Some (int (length o1), fold cons_putc o1 s) }"

definition cputchar :: "8 word \<Rightarrow> cons_state \<Rightarrow> cons_state" where "cputchar c s = cons_putc c s"

partial_function (option) cputs_loop :: "cmem \<Rightarrow> nat \<Rightarrow> int \<Rightarrow> cons_state \<Rightarrow> (int \<times> cons_state) option" where
  "cputs_loop m str cnt s =
     (if m str \<noteq> 0 then cputs_loop m (str + 1) (cnt + 1) (cons_putc (m str) s) else Some (cnt, s))"

definition cputs :: "cmem \<Rightarrow> nat \<Rightarrow> cons_state \<Rightarrow> (int \<times> cons_state) option" where
  "cputs m str s = do { (cnt, s1) \<leftarrow> cputs_loop m str 0 s; Some (cnt + 1, cons_putc 10 s1) }"

partial_function (option) getchar :: "cons_state \<Rightarrow> (int \<times> cons_state) option" where
  "getchar s = (case cons_getc s of (c, s1) \<Rightarrow> if c = 0 then getchar s1 else Some (c, s1))"

definition RL_BUFSIZE :: nat where "RL_BUFSIZE = 1024"

text \<open>The loop of \<^verbatim>\<open>readline\<close>; the static buffer stands at \<open>buf\<close>.\<close>

partial_function (option) readline_loop ::
    "nat \<Rightarrow> nat \<Rightarrow> cmem \<Rightarrow> cons_state \<Rightarrow> (bool \<times> cmem \<times> cons_state) option" where
  "readline_loop buf i m s =
     do {
       (c, s1) \<leftarrow> getchar s;
       if c < 0 then Some (False, m, s1)
       else if 32 \<le> c \<and> i < RL_BUFSIZE - 1
       then readline_loop buf (i + 1) (m(buf + i := of_int c)) (cputchar (of_int c) s1)
       else if c = 8 \<and> 0 < i then readline_loop buf (i - 1) m (cputchar (of_int c) s1)
       else if c = 10 \<or> c = 13 then Some (True, m(buf + i := 0), cputchar (of_int c) s1)
       else readline_loop buf i m s1
     }"

definition readline :: "nat \<Rightarrow> nat \<Rightarrow> cmem \<Rightarrow> cons_state \<Rightarrow> (bool \<times> cmem \<times> cons_state) option" where
  "readline buf prompt m s =
     do {
       s1 \<leftarrow> (if prompt \<noteq> 0 then do { (n, s1) \<leftarrow> vcprintf m ''%s'' [of_nat prompt] s; Some s1 } else Some s);
       readline_loop buf 0 m s1
     }"

section \<open>kmonitor.c\<close>

datatype mon_func = mon_help | mon_kerninfo | mon_backtrace

definition commands :: "(string \<times> string \<times> mon_func) list" where
  "commands =
     [(''help'', ''Display this list of commands.'', mon_help),
      (''kerninfo'', ''Display information about the kernel.'', mon_kerninfo),
      (''backtrace'', ''Print backtrace of stack frame.'', mon_backtrace)]"

definition MAXARGS :: nat where "MAXARGS = 16"

definition is_blank :: "8 word \<Rightarrow> bool" where "is_blank c \<longleftrightarrow> c \<in> {32, 9, 13, 10}"

text \<open>The two inner loops of \<^verbatim>\<open>parse\<close>: blanks become zeros; an argument is passed over.\<close>

partial_function (option) parse_blanks :: "nat \<Rightarrow> cmem \<Rightarrow> (nat \<times> cmem) option" where
  "parse_blanks buf m = (if m buf \<noteq> 0 \<and> is_blank (m buf) then parse_blanks (buf + 1) (m(buf := 0)) else Some (buf, m))"

partial_function (option) parse_word :: "nat \<Rightarrow> cmem \<Rightarrow> nat option" where
  "parse_word buf m = (if m buf \<noteq> 0 \<and> \<not> is_blank (m buf) then parse_word (buf + 1) m else Some buf)"

text \<open>A store behind the end of \<^verbatim>\<open>argv\<close> is \<open>None\<close>: the message at \<open>MAXARGS - 1\<close> does not stop the loop.\<close>

partial_function (option) parse :: "nat \<Rightarrow> nat list \<Rightarrow> cmem \<Rightarrow> (nat list \<times> cmem) option" where
  "parse buf argv m =
     do {
       (b, m1) \<leftarrow> parse_blanks buf m;
       if m1 b = 0 then Some (argv, m1)
       else if MAXARGS \<le> length argv then None
       else do { e \<leftarrow> parse_word b m1; parse e (argv @ [b]) m1 }
     }"

fun find_command :: "(string \<times> string \<times> mon_func) list \<Rightarrow> cmem \<Rightarrow> nat \<Rightarrow> mon_func option" where
  "find_command [] m a = None"
| "find_command ((nm, d, f) # cs) m a = (if cstr m a (ascii_bytes nm) then Some f else find_command cs m a)"

text \<open>
  \<^verbatim>\<open>runcmd\<close>: which command runs and the value returned.  All three commands return 0, and so does the
  line that is not understood, so \<^verbatim>\<open>kmonitor\<close> never leaves its loop.
\<close>

definition runcmd :: "nat \<Rightarrow> cmem \<Rightarrow> (int \<times> mon_func option \<times> cmem) option" where
  "runcmd buf m =
     do {
       (argv, m1) \<leftarrow> parse buf [] m;
       if argv = [] then Some (0, None, m1) else Some (0, find_command commands m1 (hd argv), m1)
     }"

declare getchar.simps [code] readline_loop.simps [code] parse_blanks.simps [code] parse_word.simps [code] parse.simps [code]
  cputs_loop.simps [code]

section \<open>The input ring is a queue\<close>

text \<open>The characters in the ring, in order.\<close>

definition cons_count :: "cons_state \<Rightarrow> nat" where
  "cons_count s = (if cons_rpos s \<le> cons_wpos s then cons_wpos s - cons_rpos s else cons_wpos s + CONSBUFSIZE - cons_rpos s)"

definition cons_queue :: "cons_state \<Rightarrow> 8 word list" where
  "cons_queue s = map (\<lambda>k. cons_buf s ((cons_rpos s + k) mod CONSBUFSIZE)) [0 ..< cons_count s]"

definition cons_ok :: "cons_state \<Rightarrow> bool" where
  "cons_ok s \<longleftrightarrow> cons_rpos s < CONSBUFSIZE \<and> cons_wpos s < CONSBUFSIZE"

lemma cons_count_less: "cons_ok s \<Longrightarrow> cons_count s < CONSBUFSIZE"
  by (auto simp: cons_ok_def cons_count_def)

lemma cons_wpos_mod: "cons_ok s \<Longrightarrow> (cons_rpos s + cons_count s) mod CONSBUFSIZE = cons_wpos s"
  by (auto simp: cons_ok_def cons_count_def)

lemma ring_index:
  assumes "i < CONSBUFSIZE" "j < CONSBUFSIZE" "(r + i) mod CONSBUFSIZE = (r + j) mod CONSBUFSIZE"
  shows "i = j"
proof -
  have *: "i = j" if "i \<le> j" "j < CONSBUFSIZE" "(r + j) mod CONSBUFSIZE = (r + i) mod CONSBUFSIZE" for i j
  proof -
    have "CONSBUFSIZE dvd (r + j) - (r + i)" using that by (subst mod_eq_dvd_iff_nat [symmetric]) simp_all
    then show ?thesis using that by (auto dest: dvd_imp_le)
  qed
  show ?thesis using *[of i j] *[of j i] assms by linarith
qed

lemma cons_store_queue:
  assumes ok: "cons_ok s"
  shows "cons_ok (cons_store c s)"
    and "cons_queue (cons_store c s) =
      (if length (cons_queue s) + 1 < CONSBUFSIZE then cons_queue s @ [of_int c] else [])"
proof -
  let ?t = "cons_store c s" and ?n = "cons_count s"
  have n: "?n < CONSBUFSIZE" by (rule cons_count_less [OF ok])
  have w: "(cons_rpos s + ?n) mod CONSBUFSIZE = cons_wpos s" by (rule cons_wpos_mod [OF ok])
  have t: "cons_rpos ?t = cons_rpos s" "cons_buf ?t = (cons_buf s)(cons_wpos s := of_int c)"
    "cons_wpos ?t = (if cons_wpos s + 1 = CONSBUFSIZE then 0 else cons_wpos s + 1)"
    by (simp_all add: cons_store_def Let_def)
  show ok1: "cons_ok ?t" using ok t by (auto simp: cons_ok_def)
  have cnt: "cons_count ?t = (if ?n + 1 < CONSBUFSIZE then ?n + 1 else 0)"
    using ok unfolding cons_count_def t by (auto simp: cons_ok_def)
  have ne: "(cons_rpos s + k) mod CONSBUFSIZE \<noteq> cons_wpos s" if "k < ?n" for k
    using ring_index [of k ?n "cons_rpos s"] that n unfolding w by auto
  have "map (\<lambda>k. ((cons_buf s)(cons_wpos s := of_int c)) ((cons_rpos s + k) mod CONSBUFSIZE)) [0 ..< ?n] =
      cons_queue s" unfolding cons_queue_def using ne by (intro map_cong) auto
  then show "cons_queue ?t = (if length (cons_queue s) + 1 < CONSBUFSIZE then cons_queue s @ [of_int c] else [])"
    unfolding cons_queue_def [of ?t] t cnt by (simp add: cons_queue_def w)
qed

text \<open>
  A character that arrives goes to the end of the queue; the one that would make 512 empties it, because the
  driver does not compare the two positions.
\<close>

lemma cons_getc_queue:
  assumes "cons_ok (serial_intr s)"
  shows "case cons_queue (serial_intr s) of
      [] \<Rightarrow> cons_getc s = (0, serial_intr s)
    | c # cs \<Rightarrow> \<exists>t. cons_getc s = (uint c, t) \<and> cons_ok t \<and> cons_queue t = cs"
proof -
  let ?s = "serial_intr s"
  show ?thesis
  proof (cases "cons_rpos ?s = cons_wpos ?s")
    case True
    then show ?thesis by (simp add: cons_queue_def cons_count_def cons_getc_def Let_def)
  next
    case False
    then obtain n where n: "cons_count ?s = Suc n" using assms by (cases "cons_count ?s") (auto simp: cons_count_def cons_ok_def split: if_splits)
    let ?t = "?s\<lparr>cons_rpos := (if cons_rpos ?s + 1 = CONSBUFSIZE then 0 else cons_rpos ?s + 1)\<rparr>"
    have g: "cons_getc s = (uint (cons_buf ?s (cons_rpos ?s)), ?t)"
      using False by (simp add: cons_getc_def Let_def)
    have ok: "cons_ok ?t" using assms by (auto simp: cons_ok_def)
    have r: "cons_rpos ?s mod CONSBUFSIZE = cons_rpos ?s" using assms by (simp add: cons_ok_def)
    have nx: "(cons_rpos ?t + k) mod CONSBUFSIZE = (cons_rpos ?s + Suc k) mod CONSBUFSIZE" for k
    proof (cases "cons_rpos ?s + 1 = CONSBUFSIZE")
      case True
      then have e: "cons_rpos ?s + Suc k = CONSBUFSIZE + k" by simp
      show ?thesis unfolding e using True by simp
    qed simp
    have cnt: "cons_count ?t = n" using n assms False by (auto simp: cons_count_def cons_ok_def split: if_splits)
    have bf: "cons_buf ?t = cons_buf ?s" by simp
    have "cons_queue ?s = cons_buf ?s (cons_rpos ?s) # cons_queue ?t"
      unfolding cons_queue_def n cnt map_upt_Suc nx bf by (simp add: r)
    then show ?thesis using g ok by simp
  qed
qed

end
