(* ===== verification/Trap.thy ===== *)
theory Trap
  imports Exec Sync SfsDir Console
begin

text \<open>
  System calls and traps: \<^verbatim>\<open>kern/syscall/syscall.c\<close> and \<^verbatim>\<open>kern/trap/trap.c\<close>, over everything below them.  A
  call that gives up the processor in its middle, because it waits, sleeps, exits or was killed, has the inner
  result \<open>None\<close>: another process runs, and what follows belongs to the resumed process.  The console's
  output collects what the traps print.
\<close>

section \<open>The machine\<close>

text \<open>The kernel on the real devices, the tick counter of \<^verbatim>\<open>clock.c\<close> and the console.\<close>

record machine =
  kern :: "sdevs pkernel"
  tick_count :: "64 word"
  cons :: cons_state

type_synonym mclass = "sdevs pkernel sched_class"
type_synonym syscall_fun = "(nat \<Rightarrow> 64 word) \<Rightarrow> machine \<Rightarrow> (int option \<times> machine) option"

definition cprintf :: "string \<Rightarrow> 64 word list \<Rightarrow> machine \<Rightarrow> machine option" where
  "cprintf fmt args m = do { (n, c) \<leftarrow> vcprintf (\<lambda>_. 0) fmt args (cons m); Some (m\<lparr>cons := c\<rparr>) }"

definition int_arg :: "64 word \<Rightarrow> int" where "int_arg a = sint (ucast a :: 32 word)"

text \<open>A kernel operation as a system call: with a value that may be missing, and with a value.\<close>

definition may_block :: "(sdevs pkernel \<Rightarrow> (int option \<times> sdevs pkernel) option) \<Rightarrow> machine \<Rightarrow> (int option \<times> machine) option" where
  "may_block f m = do { (r, k) \<leftarrow> f (kern m); Some (r, m\<lparr>kern := k\<rparr>) }"

definition returns :: "(sdevs pkernel \<Rightarrow> (int \<times> sdevs pkernel) option) \<Rightarrow> machine \<Rightarrow> (int option \<times> machine) option" where
  "returns f = may_block (\<lambda>k. do { (r, k1) \<leftarrow> f k; Some (Some r, k1) })"

section \<open>syscall.c\<close>

definition sys_exit :: "mclass \<Rightarrow> sdevs world \<Rightarrow> syscall_fun" where
  "sys_exit cls W arg = may_block (\<lambda>k. do { k1 \<leftarrow> do_exit cls W (int_arg (arg 0)) k; Some (None, k1) })"

definition sys_fork :: "mclass \<Rightarrow> sdevs world \<Rightarrow> syscall_fun" where
  "sys_fork cls W arg =
     returns (\<lambda>k. do {
       c \<leftarrow> current k;
       let tf = tframes k (p_tf (procs k c));
       do_fork cls W 0 (gpr tf REG_SP) tf k
     })"

definition sys_wait :: "mclass \<Rightarrow> syscall_fun" where
  "sys_wait cls arg = may_block (do_wait cls (int_arg (arg 0)) (arg 1))"

definition sys_exec :: "mclass \<Rightarrow> sdevs world \<Rightarrow> (64 word \<Rightarrow> 8 word) \<Rightarrow> syscall_fun" where
  "sys_exec cls W kimg arg = may_block (do_execve cls W kimg (arg 0) (int_arg (arg 1)) (arg 2))"

definition sys_yield :: syscall_fun where "sys_yield arg = returns do_yield"
definition sys_kill :: "mclass \<Rightarrow> syscall_fun" where "sys_kill cls arg = returns (do_kill cls (int_arg (arg 0)))"

definition sys_getpid :: syscall_fun where
  "sys_getpid arg = returns (\<lambda>k. do { c \<leftarrow> current k; Some (pid (procs k c), k) })"

definition sys_putc :: syscall_fun where
  "sys_putc arg m = Some (Some 0, m\<lparr>cons := cputchar (ucast (arg 0)) (cons m)\<rparr>)"

definition sys_pgdir :: syscall_fun where "sys_pgdir arg m = Some (Some 0, m)"

definition sys_gettime :: syscall_fun where
  "sys_gettime arg m = Some (Some (sint ((ucast (tick_count m) :: 32 word) * 10)), m)"

definition sys_lab6_set_priority :: syscall_fun where
  "sys_lab6_set_priority arg = returns (\<lambda>k. do { k1 \<leftarrow> lab6_set_priority (ucast (arg 0)) k; Some (0, k1) })"

text \<open>The timer of a sleeping process lies on its stack; it is named by the process.\<close>

definition sys_sleep :: "mclass \<Rightarrow> syscall_fun" where
  "sys_sleep cls arg =
     may_block (\<lambda>k. do { c \<leftarrow> current k; do_sleep_enter cls c (unat (ucast (arg 0) :: 32 word)) k })"

definition sys_open :: "sdevs world \<Rightarrow> syscall_fun" where
  "sys_open W arg = returns (fs_call (sysfile_open W (arg 0) (ucast (arg 1))))"

definition sys_close :: "sdevs world \<Rightarrow> syscall_fun" where
  "sys_close W arg = returns (fs_call (sysfile_close W (int_arg (arg 0))))"

definition sys_read :: "sdevs world \<Rightarrow> syscall_fun" where
  "sys_read W arg = returns (fs_call (sysfile_read W (int_arg (arg 0)) (arg 1) (arg 2)))"

definition sys_write :: "sdevs world \<Rightarrow> syscall_fun" where
  "sys_write W arg = returns (fs_call (sysfile_write W (int_arg (arg 0)) (arg 1) (arg 2)))"

definition sys_seek :: "sdevs world \<Rightarrow> syscall_fun" where
  "sys_seek W arg = returns (fs_call (sysfile_seek W (int_arg (arg 0)) (arg 1) (int_arg (arg 2))))"

definition sys_fstat :: "sdevs world \<Rightarrow> syscall_fun" where
  "sys_fstat W arg = returns (fs_call (sysfile_fstat W (int_arg (arg 0)) (arg 1)))"

definition sys_fsync :: "sdevs world \<Rightarrow> syscall_fun" where
  "sys_fsync W arg = returns (fs_call (sysfile_fsync W (int_arg (arg 0))))"

definition sys_getcwd :: "sdevs world \<Rightarrow> syscall_fun" where
  "sys_getcwd W arg = returns (fs_call (sysfile_getcwd W (arg 0) (arg 1)))"

definition sys_getdirentry :: "sdevs world \<Rightarrow> syscall_fun" where
  "sys_getdirentry W arg = returns (fs_call (sysfile_getdirentry W (int_arg (arg 0)) (arg 1)))"

definition sys_dup :: syscall_fun where
  "sys_dup arg = returns (fs_call (sysfile_dup (int_arg (arg 0)) (int_arg (arg 1))))"

text \<open>The table; a number that has no entry is a NULL pointer in the array of the code, or beyond its end.\<close>

definition syscalls :: "mclass \<Rightarrow> sdevs world \<Rightarrow> (64 word \<Rightarrow> 8 word) \<Rightarrow> (int \<times> syscall_fun) list" where
  "syscalls cls W kimg =
     [(1, sys_exit cls W), (2, sys_fork cls W), (3, sys_wait cls), (4, sys_exec cls W kimg), (10, sys_yield),
      (11, sys_sleep cls), (12, sys_kill cls), (17, sys_gettime), (18, sys_getpid), (30, sys_putc), (31, sys_pgdir),
      (100, sys_open W), (101, sys_close W), (102, sys_read W), (103, sys_write W), (104, sys_seek W), (110, sys_fstat W),
      (111, sys_fsync W), (121, sys_getcwd W), (128, sys_getdirentry W), (130, sys_dup), (255, sys_lab6_set_priority)]"

text \<open>
  \<^verbatim>\<open>syscall\<close>: \<open>True\<close> when it returns, with the value in \<^verbatim>\<open>a0\<close> of the frame it began with.  An undefined number is a
  panic.
\<close>

definition syscall :: "mclass \<Rightarrow> sdevs world \<Rightarrow> (64 word \<Rightarrow> 8 word) \<Rightarrow> machine \<Rightarrow> (bool \<times> machine) option" where
  "syscall cls W kimg m =
     do {
       c \<leftarrow> current (kern m);
       let a = p_tf (procs (kern m) c);
       let g = gpr (tframes (kern m) a);
       f \<leftarrow> map_of (syscalls cls W kimg) (int_arg (g REG_A0));
       (r, m1) \<leftarrow> f (\<lambda>i. g (REG_A0 + 1 + i)) m;
       case r of
         None \<Rightarrow> Some (False, m1)
       | Some v \<Rightarrow>
           (let k = kern m1; tf = tframes k a
            in Some (True, m1\<lparr>kern := k\<lparr>tframes := (tframes k)(a := tf\<lparr>gpr := (gpr tf)(REG_A0 := of_int v)\<rparr>)\<rparr>\<rparr>))
     }"

section \<open>trap.c\<close>

definition trap_in_kernel :: "trapframe \<Rightarrow> bool" where
  "trap_in_kernel tf = (tf_status tf AND SSTATUS_SPP \<noteq> 0)"

definition line :: "string \<Rightarrow> string" where "line s = s @ [char_of (10 :: nat)]"

definition reg_names :: "string list" where
  "reg_names =
     [''zero'', ''ra'', ''sp'', ''gp'', ''tp'', ''t0'', ''t1'', ''t2'', ''s0'', ''s1'', ''a0'', ''a1'', ''a2'', ''a3'', ''a4'',
      ''a5'', ''a6'', ''a7'', ''s2'', ''s3'', ''s4'', ''s5'', ''s6'', ''s7'', ''s8'', ''s9'', ''s10'', ''s11'', ''t3'', ''t4'',
      ''t5'', ''t6'']"

text \<open>The name of a register stands in nine columns.\<close>

definition reg_format :: "string \<Rightarrow> string" where
  "reg_format nm = line (''  '' @ nm @ replicate (9 - length nm) CHR '' '' @ ''0x%08x'')"

fun print_regs_from :: "nat \<Rightarrow> string list \<Rightarrow> (nat \<Rightarrow> 64 word) \<Rightarrow> machine \<Rightarrow> machine option" where
  "print_regs_from i [] g m = Some m"
| "print_regs_from i (nm # nms) g m = do { m1 \<leftarrow> cprintf (reg_format nm) [g i] m; print_regs_from (i + 1) nms g m1 }"

definition print_regs :: "(nat \<Rightarrow> 64 word) \<Rightarrow> machine \<Rightarrow> machine option" where
  "print_regs g = print_regs_from 0 reg_names g"

definition print_trapframe :: "64 word \<Rightarrow> machine \<Rightarrow> machine option" where
  "print_trapframe a m =
     do {
       let tf = tframes (kern m) a;
       m1 \<leftarrow> cprintf (line ''trapframe at %p'') [a] m;
       m2 \<leftarrow> print_regs (gpr tf) m1;
       m3 \<leftarrow> cprintf (line ''  status   0x%08x'') [tf_status tf] m2;
       m4 \<leftarrow> cprintf (line ''  epc      0x%08x'') [tf_epc tf] m3;
       m5 \<leftarrow> cprintf (line ''  tval 0x%08x'') [tf_tval tf] m4;
       cprintf (line ''  cause    0x%08x'') [tf_cause tf] m5
     }"

text \<open>\<^verbatim>\<open>dev_stdin_write\<close>: the character goes into the keyboard buffer and wakes the readers, which wait on \<open>kbd\<close>.\<close>

definition dev_stdin_write :: "mclass \<Rightarrow> nat \<Rightarrow> 8 word \<Rightarrow> sdevs pkernel \<Rightarrow> sdevs pkernel option" where
  "dev_stdin_write cls kbd c k =
     (if c \<noteq> 0
      then wakeup_queue cls kbd WT_KBD True (k\<lparr>fsx := upd_devs (\<lambda>d. d\<lparr>stdin := stdin_put c (stdin d)\<rparr>) (fsx k)\<rparr>)
      else Some k)"

definition IRQ_S_TIMER :: int where "IRQ_S_TIMER = 5"

definition irq_message :: "int \<Rightarrow> string option" where
  "irq_message cause =
     map_of [(0, ''User software interrupt''), (1, ''Supervisor software interrupt''), (2, ''Hypervisor software interrupt''),
             (3, ''Machine software interrupt''), (4, ''User software interrupt''), (6, ''Hypervisor software interrupt''),
             (7, ''Machine software interrupt''), (8, ''User software interrupt''), (9, ''Supervisor external interrupt''),
             (10, ''Hypervisor software interrupt''), (11, ''Machine software interrupt'')] cause"

text \<open>\<^verbatim>\<open>clock_set_next_event\<close> programs the timer of the machine, which is not part of this state.\<close>

definition interrupt_handler :: "mclass \<Rightarrow> nat \<Rightarrow> 64 word \<Rightarrow> machine \<Rightarrow> machine option" where
  "interrupt_handler cls kbd a m =
     (let cause = sint (drop_bit 1 (push_bit 1 (tf_cause (tframes (kern m) a)))) in
      if cause = IRQ_S_TIMER
      then do {
        k1 \<leftarrow> run_timer_list cls (kern m);
        (case cons_getc (cons m) of (c, s) \<Rightarrow> do {
          k2 \<leftarrow> dev_stdin_write cls kbd (of_int c) k1;
          Some (m\<lparr>kern := k2, tick_count := tick_count m + 1, cons := s\<rparr>)
        })
      }
      else case irq_message cause of Some t \<Rightarrow> cprintf (line t) [] m | None \<Rightarrow> print_trapframe a m)"

definition exception_messages :: "(64 word \<times> string) list" where
  "exception_messages =
            [(0, ''Instruction address misaligned''), (1, ''Instruction access fault''), (2, ''Illegal instruction''),
             (3, ''Breakpoint''), (4, ''Load address misaligned''), (5, ''Load access fault''), (7, ''Store/AMO access fault''),
             (10, ''Environment call from H-mode''), (11, ''Environment call from M-mode''), (12, ''Instruction page fault''),
             (13, ''Load page fault''), (15, ''Store/AMO page fault'')]"

definition exception_message :: "64 word \<Rightarrow> string option" where
  "exception_message cause = map_of exception_messages cause"

definition CAUSE_MISALIGNED_STORE :: "64 word" where "CAUSE_MISALIGNED_STORE = 6"
definition CAUSE_USER_ECALL :: "64 word" where "CAUSE_USER_ECALL = 8"
definition CAUSE_SUPERVISOR_ECALL :: "64 word" where "CAUSE_SUPERVISOR_ECALL = 9"

definition skip_ecall :: "64 word \<Rightarrow> machine \<Rightarrow> machine" where
  "skip_ecall a m =
     (let k = kern m; tf = tframes k a
      in m\<lparr>kern := k\<lparr>tframes := (tframes k)(a := tf\<lparr>tf_epc := tf_epc tf + 4\<rparr>)\<rparr>\<rparr>)"

definition exception_handler ::
    "mclass \<Rightarrow> sdevs world \<Rightarrow> (64 word \<Rightarrow> 8 word) \<Rightarrow> 64 word \<Rightarrow> machine \<Rightarrow> (bool \<times> machine) option" where
  "exception_handler cls W kimg a m =
     (let cause = tf_cause (tframes (kern m) a) in
      if cause = CAUSE_MISALIGNED_STORE then None
      else if cause = CAUSE_USER_ECALL then syscall cls W kimg (skip_ecall a m)
      else if cause = CAUSE_SUPERVISOR_ECALL
      then do { m1 \<leftarrow> cprintf (line ''Environment call from S-mode'') [] m; syscall cls W kimg (skip_ecall a m1) }
      else do {
        m1 \<leftarrow> (case exception_message cause of Some t \<Rightarrow> cprintf (line t) [] m | None \<Rightarrow> print_trapframe a m);
        Some (True, m1)
      })"

definition trap_dispatch ::
    "mclass \<Rightarrow> sdevs world \<Rightarrow> (64 word \<Rightarrow> 8 word) \<Rightarrow> nat \<Rightarrow> 64 word \<Rightarrow> machine \<Rightarrow> (bool \<times> machine) option" where
  "trap_dispatch cls W kimg kbd a m =
     (if sint (tf_cause (tframes (kern m) a)) < 0
      then do { m1 \<leftarrow> interrupt_handler cls kbd a m; Some (True, m1) }
      else exception_handler cls W kimg a m)"

text \<open>
  The end of \<^verbatim>\<open>trap\<close>, which a process that gave up the processor reaches when it is resumed.  The result is
  whether the process goes on.
\<close>

definition trap_end :: "mclass \<Rightarrow> sdevs world \<Rightarrow> 64 word \<Rightarrow> bool \<Rightarrow> machine \<Rightarrow> (bool \<times> machine) option" where
  "trap_end cls W otf in_kernel m =
     do {
       c \<leftarrow> current (kern m);
       let k1 = upd_proc c (\<lambda>g. g\<lparr>p_tf := otf\<rparr>) (kern m);
       if in_kernel then Some (True, m\<lparr>kern := k1\<rparr>)
       else if p_flags (procs k1 c) AND PF_EXITING \<noteq> 0
       then do { k2 \<leftarrow> do_exit cls W (- E_KILLED) k1; Some (False, m\<lparr>kern := k2\<rparr>) }
       else if need_resched (procs k1 c)
       then do { k2 \<leftarrow> schedule cls k1; Some (current k2 = Some c, m\<lparr>kern := k2\<rparr>) }
       else Some (True, m\<lparr>kern := k1\<rparr>)
     }"

text \<open>\<open>a\<close> is the address of the frame that \<^verbatim>\<open>trapentry.S\<close> saved.\<close>

definition trap ::
    "mclass \<Rightarrow> sdevs world \<Rightarrow> (64 word \<Rightarrow> 8 word) \<Rightarrow> nat \<Rightarrow> 64 word \<Rightarrow> machine \<Rightarrow> (bool \<times> machine) option" where
  "trap cls W kimg kbd a m =
     (case current (kern m) of
        None \<Rightarrow> trap_dispatch cls W kimg kbd a m
      | Some c \<Rightarrow>
          do {
            let otf = p_tf (procs (kern m) c);
            let m1 = m\<lparr>kern := upd_proc c (\<lambda>g. g\<lparr>p_tf := a\<rparr>) (kern m)\<rparr>;
            let in_kernel = trap_in_kernel (tframes (kern m1) a);
            (on, m2) \<leftarrow> trap_dispatch cls W kimg kbd a m1;
            if on then trap_end cls W otf in_kernel m2 else Some (False, m2)
          })"


section \<open>What the handlers do with faults\<close>

lemma vprintfmt_plain: "CHR ''%'' \<notin> set fmt \<Longrightarrow> vprintfmt m fmt args = Some (ascii_bytes fmt)"
proof (induction fmt)
  case Nil
  then show ?case by (simp add: vprintfmt.simps)
next
  case (Cons ch fmt)
  then show ?case by (subst vprintfmt.simps) auto
qed

lemma exception_messages_plain:
  "list_all (\<lambda>(c, t). CHR ''%'' \<notin> set (line t) \<and> c \<notin> {CAUSE_MISALIGNED_STORE, CAUSE_USER_ECALL, CAUSE_SUPERVISOR_ECALL} \<and>
     \<not> sint c < 0) exception_messages"
  by code_simp

lemma exception_message_facts:
  assumes "exception_message cause = Some t"
  shows "CHR ''%'' \<notin> set (line t)" "cause \<notin> {CAUSE_MISALIGNED_STORE, CAUSE_USER_ECALL, CAUSE_SUPERVISOR_ECALL}" "\<not> sint cause < 0"
  using exception_messages_plain map_of_SomeD [OF assms [unfolded exception_message_def]]
  unfolding list_all_iff by blast+

lemma cprintf_plain: "CHR ''%'' \<notin> set fmt \<Longrightarrow> cprintf fmt [] m = Some (m\<lparr>cons := fold cons_putc (ascii_bytes fmt) (cons m)\<rparr>)"
  by (simp add: cprintf_def vcprintf_def vprintfmt_plain)

lemma upd_proc_p_tf: "upd_proc c (\<lambda>g. g\<lparr>p_tf := p_tf (procs k c)\<rparr>) (upd_proc c (\<lambda>g. g\<lparr>p_tf := a\<rparr>) k) = k"
  by (simp add: upd_proc_def)

text \<open>
  A fault of a user program is not handled.  For every exception that is only reported - a page fault, an
  illegal instruction, an access fault - \<^verbatim>\<open>trap\<close> prints one line and returns with the whole kernel state and
  the saved registers as they were: the same instruction runs again and faults again, without end.
\<close>

theorem user_fault_repeats:
  assumes "current (kern m) = Some c" and "exception_message (tf_cause (tframes (kern m) a)) = Some msg"
    and "\<not> trap_in_kernel (tframes (kern m) a)"
    and "p_flags (procs (kern m) c) AND PF_EXITING = 0" and "\<not> need_resched (procs (kern m) c)"
  shows "trap cls W kimg kbd a m = Some (True, m\<lparr>cons := fold cons_putc (ascii_bytes (line msg)) (cons m)\<rparr>)"
proof -
  let ?m1 = "m\<lparr>kern := upd_proc c (\<lambda>g. g\<lparr>p_tf := a\<rparr>) (kern m)\<rparr>"
  let ?m2 = "?m1\<lparr>cons := fold cons_putc (ascii_bytes (line msg)) (cons m)\<rparr>"
  have tf: "tframes (kern ?m1) a = tframes (kern m) a" by simp
  note ex = exception_message_facts [OF assms(2)]
  have "trap_dispatch cls W kimg kbd a ?m1 = Some (True, ?m2)"
    using ex assms(2) by (simp add: trap_dispatch_def exception_handler_def Let_def cprintf_plain [OF ex(1)])
  moreover have "trap_end cls W (p_tf (procs (kern m) c)) False ?m2 = Some (True, m\<lparr>cons := fold cons_putc (ascii_bytes (line msg)) (cons m)\<rparr>)"
    using assms(1,4,5) by (simp add: trap_end_def upd_proc_p_tf)
  ultimately show ?thesis using assms(1,3) by (simp add: trap_def Let_def)
qed

text \<open>A number without a system call stops the kernel, whatever program uses it.\<close>

lemma undefined_syscall_panics:
  assumes "current (kern m) = Some c"
    and "int_arg (gpr (tframes (kern m) (p_tf (procs (kern m) c))) REG_A0) \<notin>
      {1, 2, 3, 4, 10, 11, 12, 17, 18, 30, 31, 100, 101, 102, 103, 104, 110, 111, 121, 128, 130, 255}"
  shows "syscall cls W kimg m = None"
proof -
  have "fst ` set (syscalls cls W kimg) =
      {1, 2, 3, 4, 10, 11, 12, 17, 18, 30, 31, 100, 101, 102, 103, 104, 110, 111, 121, 128, 130, 255}"
    by (simp add: syscalls_def)
  then have "map_of (syscalls cls W kimg) (int_arg (gpr (tframes (kern m) (p_tf (procs (kern m) c))) REG_A0)) = None"
    using assms(2) by (simp only: map_of_eq_None_iff not_False_eq_True)
  then show ?thesis using assms(1) by (simp add: syscall_def Let_def)
qed

end
