(* ===== verification/Spec2Isabelle.thy ===== *)
theory Spec2Isabelle
  imports BestFit Buddy Slub Frames Stride Timers Monitor Philosophers Kmalloc Trap
begin

text \<open>
  A verification development for the uCore teaching kernel (RISC-V, C).  The repository holds one
  kernel at several stages, one directory per lab.  The development models the last stage,
  \<^verbatim>\<open>src/Lab8/code/kern\<close>, and for the physical memory managers \<^verbatim>\<open>src/Lab2/codes/kern/mm\<close>, the only
  stage that has all four of them.

  \<^bold>\<open>Conventions.\<close>  A kernel function that can fail an assertion, panic or loop for ever has a result of
  type \<open>option\<close>: \<open>None\<close> says that control does not come back, and a theorem that concludes
  \<open>f s = Some r\<close> includes that the function ends.  Error codes are negative integers inside \<open>Some\<close>.
  C structures are records named like the structures; a pointer to one is the number of the object
  and NULL is \<open>None\<close>.  Loops over pointer structures are \<open>partial_function (option)\<close>, so no fuel is
  needed.  There is one processor, and code between two calls of \<^verbatim>\<open>schedule\<close> is one atomic step.

  \<^bold>\<open>Memory.\<close>
  \<open>KList\<close> has the heap of \<^verbatim>\<open>libs/list.h\<close> and shows that its operations refine lists; the locale
  \<open>fifo_queue\<close> is the contract the wait queues and the run queue use.  \<open>Pages\<close> has \<^verbatim>\<open>struct Page\<close> and the free
  area; \<open>FirstFit\<close>, \<open>BestFit\<close>, \<open>Buddy\<close> and \<open>Slub\<close> have \<^verbatim>\<open>default_pmm.c\<close>, \<^verbatim>\<open>best_fit_pmm.c\<close>,
  \<^verbatim>\<open>buddy_pmm.c\<close> and \<^verbatim>\<open>slub_pmm.c\<close>: allocation takes the block the policy names, freeing gives back exactly the
  pages, and the defect of the insertion loop of the first two.  \<open>Slub\<close>, the manager that is installed, also has
  the object caches with \<^verbatim>\<open>kmalloc\<close> and \<^verbatim>\<open>kfree\<close>.  \<open>Paging\<close> has the page tables of
  \<^verbatim>\<open>kern/mm/pmm.c\<close>: walking, inserting, removing, unmapping and copying ranges, over frames of 512
  words, with the free frames as a sorted list; \<open>Frames\<close> shows that \<^verbatim>\<open>default_pmm.c\<close> implements that list.  \<open>Vmm\<close> has \<^verbatim>\<open>kern/mm/vmm.c\<close>: areas of an address space, their lookup, \<^verbatim>\<open>mm_map\<close>, \<^verbatim>\<open>dup_mmap\<close>,
  \<^verbatim>\<open>exit_mmap\<close> and the access to user memory.

  \<^bold>\<open>Scheduling and synchronisation.\<close>
  \<open>SkewHeap\<close> has \<^verbatim>\<open>libs/skew_heap.h\<close>, refined to a functional heap.  \<open>Kernel\<close> has the shared state:
  processes, links, run queue, timers, waits, semaphores; \<open>Sched\<close> has \<^verbatim>\<open>sched.c\<close> over the locale
  \<open>sched_policy\<close>, which \<open>RoundRobin\<close> (\<^verbatim>\<open>default_sched.c\<close>) and \<open>Stride\<close> (\<^verbatim>\<open>default_sched_stride.c\<close>)
  interpret; \<open>Timers\<close> has the timer list.  \<open>Sync\<close> has \<^verbatim>\<open>wait.c\<close> and \<^verbatim>\<open>sem.c\<close>, refined to an
  abstract semaphore; \<open>Monitor\<close> has \<^verbatim>\<open>monitor.c\<close>; \<open>Philosophers\<close> the semaphore solution of
  \<^verbatim>\<open>check_sync.c\<close> as a transition system with exclusion and progress.

  \<^bold>\<open>Files.\<close>
  \<open>Inode\<close> has the inodes and their counts (\<^verbatim>\<open>vfs/inode.c\<close>), the tables of operations as a parameter
  \<open>world\<close>, and \<^verbatim>\<open>iobuf.c\<close>.  \<open>Vfs\<close> has \<^verbatim>\<open>vfs.c\<close>, \<^verbatim>\<open>vfsdev.c\<close>, \<^verbatim>\<open>vfslookup.c\<close>, \<^verbatim>\<open>vfspath.c\<close> and
  \<^verbatim>\<open>vfsfile.c\<close>; \<open>Files\<close> has \<^verbatim>\<open>file.c\<close> and the tables of open files of \<^verbatim>\<open>fs.c\<close>; \<open>Sysfile\<close> the system
  calls of \<^verbatim>\<open>sysfile.c\<close> over the user memory of \<open>Vmm\<close>.

  \<^bold>\<open>The disk.\<close>
  \<open>Devices\<close> has the RAM disks (\<^verbatim>\<open>ramdisk.c\<close>, \<^verbatim>\<open>ide.c\<close>) and the device files (\<^verbatim>\<open>kern/fs/devs\<close>), seen from
  above as an array of blocks, and the keyboard buffer as a queue; \<open>Bitmap\<close> has \<^verbatim>\<open>bitmap.c\<close> as a set of free
  indices.  \<open>Sfs\<close> has the simple file system (\<^verbatim>\<open>sfs_io.c\<close>, \<^verbatim>\<open>sfs_lock.c\<close>, \<^verbatim>\<open>sfs_inode.c\<close>,
  \<^verbatim>\<open>sfs_fs.c\<close>) and ends with \<open>kernel_tables\<close>, the real tables of operations: the parameter \<open>world\<close> of \<open>Inode\<close>
  instantiated with the devices and the file system.  \<open>SfsIO\<close> shows that every block operation is one step on
  the array of blocks and reads and writes exactly its range; its locale \<open>io_transfer\<close> proves the loop of
  \<^verbatim>\<open>sfs_io_nolock\<close> once for reading and writing.  \<open>SfsAlloc\<close> has the allocation of blocks and the growth of a
  file; \<open>SfsFile\<close> interprets the locale for both directions and concludes that a write replaces the bytes of
  the range in the contents of the file and that a read returns them; \<open>SfsDir\<close> has the free set of blocks and
  the search of a directory.

  \<^bold>\<open>Processes.\<close>
  \<open>Kmalloc\<close> has the small-object allocator \<^verbatim>\<open>kern/mm/kmalloc.c\<close>.  \<open>ProcList\<close> has the list, the tree and
  the hash list of processes and the choice of process numbers; \<open>Proc\<close> has \<^verbatim>\<open>do_fork\<close>, \<^verbatim>\<open>do_exit\<close>,
  \<^verbatim>\<open>do_wait\<close>, \<^verbatim>\<open>do_kill\<close> and \<^verbatim>\<open>do_sleep\<close> of \<^verbatim>\<open>proc.c\<close> over all the components before it.  \<open>UserMem\<close> shows the
  copies between kernel and user memory exact, and \<open>Exec\<close> has \<^verbatim>\<open>do_execve\<close> and \<^verbatim>\<open>load_icode\<close>.

  \<open>Trap\<close> has the system calls of \<^verbatim>\<open>syscall.c\<close> and the handlers of \<^verbatim>\<open>trap.c\<close> over the whole kernel on its real
  devices; \<open>Console\<close> has the console driver, \<^verbatim>\<open>stdio.c\<close>, \<^verbatim>\<open>readline.c\<close> and the command line of the monitor.

  \<^bold>\<open>Library.\<close>
  \<open>KString\<close> has \<^verbatim>\<open>libs/string.c\<close> over a byte memory, with the list function that each routine computes, and
  \<^verbatim>\<open>rand.c\<close>; \<open>Printfmt\<close> has \<^verbatim>\<open>libs/printfmt.c\<close> with all its conversions, and shows that \<^verbatim>\<open>strtol\<close> reads back what
  it prints.

  \<^bold>\<open>Bounds.\<close>  Addresses, page table entries, file positions and sizes are 64-bit words, flags and stride
  values 32-bit words; \<^verbatim>\<open>unsigned int\<close> counters are reduced modulo \<open>2 ^ 32\<close> (\<open>u32\<close>); \<^verbatim>\<open>int\<close> counters
  are integers, which the code keeps far from their limits (reference counts, values of semaphores).  Where a
  computation on \<^verbatim>\<open>long\<close> could pass the range, which C leaves undefined (\<^verbatim>\<open>strtol\<close>, the sign in
  \<^verbatim>\<open>vprintfmt\<close>), the model wraps around, as the machine does.  The caller of a sleeping function is suspended in
  the same step in which it enters the wait queue.  A store to user memory looks at the valid bit of the entry only.
  The invariant of the buddy manager has its blocks aligned to their size in page numbers, which holds from
  \<^verbatim>\<open>buddy_init_memmap\<close> on when the memory it is given begins at a page aligned to the largest block cut from it.

  \<^bold>\<open>Not modelled.\<close>  Trap entry and context switch assembly, interrupt controllers, the device tree and boot
  code are hardware access.  The self-tests of the kernel (\<^verbatim>\<open>check_*\<close>) only call what is modelled.  A read
  of the keyboard that has to wait is \<open>None\<close>: the waiting itself is the one of \<open>Sync\<close>.  User programs and host
  tools run outside the kernel, and the earlier stages of the same files are left out.
\<close>

end
